(* ===== verification/Prelude.thy ===== *)
theory Prelude
  imports Main "HOL-Library.Word" "HOL-Library.Monad_Syntax"
begin

unbundle bit_operations_syntax

text \<open>
  Shared material: the machine-integer types of the Rust sources as words, the bit-list
  view of bytes and words (most significant bit first, the order of the RAGE wire format),
  little-endian byte strings, and the lemma collections the component theories use.
  \<^item> \<open>bit_list\<close> collects the rewrite rules between words, bytes and bit lists;
  \<^item> \<open>buf_law\<close> collects the cursor laws of the bit buffer and of the record codecs;
  \<^item> \<open>reader_intro\<close> collects the rules showing that a decoder only moves the cursor.
\<close>

named_theorems bit_list \<open>rewriting between words, bytes and bit lists\<close>
named_theorems buf_law \<open>cursor laws of the bit buffer and the codecs built on it\<close>
named_theorems reader_intro \<open>decoders that only move the cursor forward\<close>

type_synonym u8 = "8 word"
type_synonym u16 = "16 word"
type_synonym u32 = "32 word"
type_synonym u64 = "64 word"

section \<open>Bits of a word, most significant first\<close>

definition bits_be :: "nat \<Rightarrow> 'a::len word \<Rightarrow> bool list" where
  "bits_be n w = map (\<lambda>i. bit w (n - 1 - i)) [0..<n]"

text \<open>Shifting one more bit in at the low end: \<open>(value << 1) | bit\<close>.\<close>

definition shift_in :: "'a::len word \<Rightarrow> bool \<Rightarrow> 'a word" where
  "shift_in v b = push_bit 1 v OR of_bool b"

definition word_of_bits :: "bool list \<Rightarrow> 'a::len word" where
  "word_of_bits bs = foldl shift_in 0 bs"

lemma bit_shift_in [bit_list]:
  "bit (shift_in v b :: 'a::len word) i \<longleftrightarrow>
     i < LENGTH('a) \<and> (if i = 0 then b else bit v (i - 1))"
  unfolding shift_in_def bit_or_iff bit_push_bit_iff bit_of_bool_iff possible_bit_word
  by (cases i) (auto dest: bit_imp_le_length)

lemma length_bits_be [simp, bit_list]: "length (bits_be n w) = n"
  by (simp add: bits_be_def)

lemma nth_bits_be [bit_list]: "i < n \<Longrightarrow> bits_be n w ! i = bit w (n - 1 - i)"
  by (simp add: bits_be_def)

lemma bits_be_0 [simp]: "bits_be 0 w = []"
  by (simp add: bits_be_def)

lemma bits_be_Suc: "bits_be (Suc n) w = bit w n # bits_be n w"
  by (rule nth_equalityI) (auto simp: nth_bits_be nth_Cons split: nat.split)

lemma bits_be_take_bit [simp]: "bits_be n (take_bit n w) = bits_be n w"
  by (rule nth_equalityI) (auto simp: nth_bits_be bit_simps)

lemma bit_foldl_shift_in:
  "bit (foldl shift_in (a::'a::len word) bs) i \<longleftrightarrow>
     i < LENGTH('a) \<and>
     (if i < length bs then bs ! (length bs - 1 - i) else bit a (i - length bs))"
proof (induction bs arbitrary: a i)
  case Nil
  then show ?case by (auto dest: bit_imp_le_length)
next
  case (Cons b bs)
  consider "i < length bs" | "i = length bs" | "i > length bs" by linarith
  then show ?case
  proof cases
    case 1
    then have "(b # bs) ! (length bs - i) = bs ! (length bs - 1 - i)"
      by (simp add: nth_Cons_pos)
    with 1 show ?thesis by (simp add: Cons.IH)
  next
    case 2
    then show ?thesis by (auto simp: Cons.IH bit_shift_in)
  next
    case 3
    then show ?thesis by (auto simp: Cons.IH bit_shift_in)
  qed
qed

lemma bit_word_of_bits [bit_list]:
  "bit (word_of_bits bs :: 'a::len word) i \<longleftrightarrow>
     i < LENGTH('a) \<and> i < length bs \<and> bs ! (length bs - 1 - i)"
  by (simp add: word_of_bits_def bit_foldl_shift_in)

lemma word_of_bits_be [simp, bit_list]:
  "word_of_bits (bits_be n w) = take_bit n w"
  by (rule bit_word_eqI) (auto simp: bit_word_of_bits nth_bits_be bit_simps)

section \<open>Bytes as bit lists\<close>

definition bits_of_bytes :: "u8 list \<Rightarrow> bool list" where
  "bits_of_bytes bs = concat (map (bits_be 8) bs)"

lemma bits_of_bytes_Nil [simp]: "bits_of_bytes [] = []"
  by (simp add: bits_of_bytes_def)

lemma bits_of_bytes_Cons [simp]: "bits_of_bytes (b # bs) = bits_be 8 b @ bits_of_bytes bs"
  by (simp add: bits_of_bytes_def)

lemma bits_of_bytes_append [simp]:
  "bits_of_bytes (xs @ ys) = bits_of_bytes xs @ bits_of_bytes ys"
  by (simp add: bits_of_bytes_def)

lemma length_bits_of_bytes [simp, bit_list]: "length (bits_of_bytes bs) = 8 * length bs"
  by (induction bs) simp_all

lemma nth_bits_of_bytes [bit_list]:
  "i < 8 * length bs \<Longrightarrow> bits_of_bytes bs ! i = bit (bs ! (i div 8)) (7 - i mod 8)"
proof (induction bs arbitrary: i)
  case Nil
  then show ?case by simp
next
  case (Cons b bs)
  show ?case
  proof (cases "i < 8")
    case True
    then show ?thesis by (simp add: nth_append nth_bits_be)
  next
    case False
    then have "bits_of_bytes (b # bs) ! i = bits_of_bytes bs ! (i - 8)"
      by (simp add: nth_append)
    also have "\<dots> = bit (bs ! ((i - 8) div 8)) (7 - (i - 8) mod 8)"
      using Cons False by simp
    also have "(i - 8) mod 8 = i mod 8" using False by (simp add: mod_if le_mod_geq)
    also have "(i - 8) div 8 = i div 8 - 1" using False by (simp add: le_div_geq)
    finally show ?thesis using False by (simp add: nth_Cons_pos div_greater_zero_iff)
  qed
qed

lemma bits_be_8_inj: "bits_be 8 (a::u8) = bits_be 8 b \<Longrightarrow> a = b"
proof -
  assume "bits_be 8 a = bits_be 8 b"
  then have "word_of_bits (bits_be 8 a) = (word_of_bits (bits_be 8 b) :: u8)" by simp
  then show "a = b" by (simp add: take_bit_word_eq_self)
qed

lemma bits_of_bytes_inj: "bits_of_bytes xs = bits_of_bytes ys \<Longrightarrow> xs = ys"
proof (induction xs arbitrary: ys)
  case Nil
  then show ?case by (cases ys) (auto simp: bits_be_Suc numeral_eq_Suc)
next
  case (Cons x xs)
  then obtain y ys' where "ys = y # ys'"
    by (cases ys) (auto simp: bits_be_Suc numeral_eq_Suc)
  with Cons show ?case by (auto dest: bits_be_8_inj)
qed

lemma take_bits_of_bytes: "take (8 * n) (bits_of_bytes bs) = bits_of_bytes (take n bs)"
proof (induction bs arbitrary: n)
  case (Cons b bs)
  then show ?case by (cases n) auto
qed simp

lemma drop_bits_of_bytes: "drop (8 * n) (bits_of_bytes bs) = bits_of_bytes (drop n bs)"
proof (induction bs arbitrary: n)
  case (Cons b bs)
  then show ?case by (cases n) auto
qed simp

section \<open>Little-endian byte strings\<close>

text \<open>Rust's \<open>to_le_bytes\<close> and \<open>from_le_bytes\<close> on an unsigned integer of \<open>n\<close> bytes.\<close>

definition to_le_bytes :: "nat \<Rightarrow> 'a::len word \<Rightarrow> u8 list" where
  "to_le_bytes n w = map (\<lambda>i. ucast (drop_bit (8 * i) w)) [0..<n]"

primrec from_le_bytes :: "u8 list \<Rightarrow> 'a::len word" where
  "from_le_bytes [] = 0"
| "from_le_bytes (b # bs) = ucast b OR push_bit 8 (from_le_bytes bs)"

lemma length_to_le_bytes [simp]: "length (to_le_bytes n w) = n"
  by (simp add: to_le_bytes_def)

lemma to_le_bytes_0 [simp]: "to_le_bytes 0 w = []"
  by (simp add: to_le_bytes_def)

lemma to_le_bytes_Suc: "to_le_bytes (Suc n) w = ucast w # to_le_bytes n (drop_bit 8 w)"
  unfolding to_le_bytes_def upt_rec [of 0 "Suc n"] map_Suc_upt [symmetric]
  by (simp add: comp_def algebra_simps del: upt_Suc)

lemma from_to_le_bytes [simp]:
  "from_le_bytes (to_le_bytes n (w::'a::len word)) = take_bit (8 * n) w"
proof (induction n arbitrary: w)
  case 0
  then show ?case by simp
next
  case (Suc n)
  show ?case
  proof (rule bit_word_eqI)
    fix i
    assume "i < LENGTH('a)"
    then show "bit (from_le_bytes (to_le_bytes (Suc n) w) :: 'a word) i
        \<longleftrightarrow> bit (take_bit (8 * Suc n) w) i"
      by (cases "i < 8") (auto simp: to_le_bytes_Suc Suc.IH bit_simps)
  qed
qed

section \<open>Values that fit a field\<close>

lemma take_bit_word_fits:
  "take_bit n (w::'a::len word) = w \<longleftrightarrow> uint w < 2 ^ n"
proof -
  have "take_bit n w = w \<longleftrightarrow> uint (take_bit n w) = uint w"
    by (simp add: word_uint_eq_iff)
  also have "\<dots> \<longleftrightarrow> take_bit n (uint w) = uint w"
    by (simp add: unsigned_take_bit_eq)
  also have "\<dots> \<longleftrightarrow> uint w < 2 ^ n"
    by (simp add: take_bit_int_eq_self_iff)
  finally show ?thesis .
qed

lemma sint_not: "sint (NOT w :: 'a::len word) = - sint w - 1"
  by (metis bit.xor_one_right decr_eq_not_minus signed_minus_1 signed_xor_eq
      verit_minus_simplify(4))

lemma uint_sint_nonneg:
  assumes "0 \<le> sint (w::'a::len word)"
  shows "uint w = sint w"
proof -
  let ?n = "LENGTH('a) - Suc 0"
  have nb: "\<not> bit w ?n" using assms by (simp add: bit_last_iff)
  have "take_bit ?n w = w"
  proof (rule bit_word_eqI)
    fix i
    assume "i < LENGTH('a)"
    then show "bit (take_bit ?n w) i = bit w i"
      using nb by (cases "i = ?n") (auto simp: bit_simps)
  qed
  then have "uint w = take_bit ?n (uint w)"
    by (metis unsigned_take_bit_eq)
  also have "\<dots> = signed_take_bit ?n (uint w)"
    using nb by (simp add: signed_take_bit_eq_if_positive bit_simps)
  finally show ?thesis by (simp add: sint_uint)
qed

lemma take_bit_full [simp]:
  "take_bit 8 (w::u8) = w" "take_bit 16 (x::u16) = x" "take_bit 32 (y::u32) = y" "take_bit 64 (z::u64) = z"
  by (simp_all add: take_bit_word_eq_self)

end
