(* ===== verification/Bit_Buffer.thy ===== *)
theory Bit_Buffer
  imports Prelude
begin

text \<open>
  The RAGE bit buffer of \<open>crates/baston-protocol/src/rage/buffer.rs\<close>
  (\<open>MessageBuffer\<close>): a byte vector, a bit cursor, the readable length in bits and the
  OneSync length hack that widens every 13-bit field to 16 bits. Operations take the
  buffer and return the result together with the buffer after the call, as the methods on
  \<open>&mut self\<close> do. \<open>usize\<close> cursors are \<open>nat\<close>: a cursor stays within a few
  hundred bits of a buffer that fits in memory.

  The abstraction is the list of bits: \<open>written\<close> is what lies before the cursor,
  \<open>unread\<close> what lies between the cursor and the bound. The laws collected in
  \<open>buf_law\<close> describe every operation on these two lists, and the locale
  \<open>field_codec\<close> states what a write/read pair promises to the record codecs.
\<close>

section \<open>The buffer and its operations\<close>

record mbuf =
  mb_data :: "u8 list"
  cur_bit :: nat
  max_bit :: nat
  length_hack :: bool

definition mb_new :: "nat \<Rightarrow> mbuf" where
  "mb_new sz = \<lparr>mb_data = replicate sz 0, cur_bit = 0, max_bit = sz * 8, length_hack = False\<rparr>"

definition from_bytes :: "u8 list \<Rightarrow> mbuf" where
  "from_bytes d = \<lparr>mb_data = d, cur_bit = 0, max_bit = length d * 8, length_hack = False\<rparr>"

definition from_bits :: "u8 list \<Rightarrow> nat \<Rightarrow> mbuf" where
  "from_bits d bit_len =
     \<lparr>mb_data = d, cur_bit = 0, max_bit = min bit_len (length d * 8), length_hack = False\<rparr>"

definition with_length_hack :: "bool \<Rightarrow> mbuf \<Rightarrow> mbuf" where
  "with_length_hack enabled b = b\<lparr>length_hack := enabled\<rparr>"

definition effective_len :: "mbuf \<Rightarrow> nat \<Rightarrow> nat" where
  "effective_len b len = (if len = 13 \<and> length_hack b then 16 else len)"

text \<open>The bit at stream position \<open>i\<close>: \<open>(data[i / 8] >> (7 - i % 8)) & 1\<close>, and its
  replacement: \<open>data[idx] = (data[idx] & !(1 << shift)) | (b << shift)\<close>.\<close>

definition get_bit :: "u8 list \<Rightarrow> nat \<Rightarrow> u8" where
  "get_bit d i = drop_bit (7 - i mod 8) (d ! (i div 8)) AND 1"

definition put_bit :: "nat \<Rightarrow> u8 \<Rightarrow> u8 list \<Rightarrow> u8 list" where
  "put_bit i b d =
     (let idx = i div 8; shift = 7 - i mod 8
      in d[idx := (d ! idx AND NOT (push_bit shift 1)) OR push_bit shift b])"

definition read_bits_single :: "nat \<Rightarrow> mbuf \<Rightarrow> u32 option \<times> mbuf" where
  "read_bits_single len0 b =
     (let len = effective_len b len0
      in if max_bit b < cur_bit b + len
         then (None, b\<lparr>cur_bit := cur_bit b + len\<rparr>)
         else (Some (fold (\<lambda>i value. push_bit 1 value OR ucast (get_bit (mb_data b) (cur_bit b + i)))
                       [0..<len] 0),
               b\<lparr>cur_bit := cur_bit b + len\<rparr>))"

definition write_bits_single :: "u32 \<Rightarrow> nat \<Rightarrow> mbuf \<Rightarrow> bool \<times> mbuf" where
  "write_bits_single value len0 b =
     (let len = effective_len b len0
      in if max_bit b < cur_bit b + len
         then (False, b)
         else (True,
               b\<lparr>mb_data := fold (\<lambda>i d. put_bit (cur_bit b + i)
                                       (ucast (drop_bit (len - 1 - i) value AND 1)) d)
                             [0..<len] (mb_data b),
                 cur_bit := cur_bit b + len\<rparr>))"

definition read_bit :: "mbuf \<Rightarrow> u8 \<times> mbuf" where
  "read_bit b =
     (if length (mb_data b) \<le> cur_bit b div 8
      then (0, b\<lparr>cur_bit := cur_bit b + 1\<rparr>)
      else (get_bit (mb_data b) (cur_bit b), b\<lparr>cur_bit := cur_bit b + 1\<rparr>))"

definition write_bit :: "bool \<Rightarrow> mbuf \<Rightarrow> bool \<times> mbuf" where
  "write_bit v b =
     (if length (mb_data b) \<le> cur_bit b div 8
      then (False, b)
      else (True, b\<lparr>mb_data := put_bit (cur_bit b) (of_bool v) (mb_data b),
                    cur_bit := cur_bit b + 1\<rparr>))"

text \<open>\<open>copy_bits\<close>, with the byte-aligned \<open>copy_from_slice\<close> fast path and the per-bit loop.\<close>

definition copy_bits :: "u8 list \<Rightarrow> u8 list \<Rightarrow> nat \<Rightarrow> nat \<Rightarrow> nat \<Rightarrow> u8 list" where
  "copy_bits dest src len dest_bit src_bit =
     (if dest_bit mod 8 = 0 \<and> src_bit mod 8 = 0 \<and> len mod 8 = 0
      then (let db = dest_bit div 8; sb = src_bit div 8; n = len div 8
            in take db dest @ take n (drop sb src) @ drop (db + n) dest)
      else fold (\<lambda>i d. put_bit (dest_bit + i) (get_bit src (src_bit + i)) d) [0..<len] dest)"

definition read_bits :: "u8 list \<Rightarrow> nat \<Rightarrow> mbuf \<Rightarrow> (bool \<times> u8 list) \<times> mbuf" where
  "read_bits dest len b =
     (if len = 0 then ((True, dest), b)
      else if max_bit b < cur_bit b + len then ((False, dest), b)
      else ((True, copy_bits dest (mb_data b) len 0 (cur_bit b)), b\<lparr>cur_bit := cur_bit b + len\<rparr>))"

definition write_bits :: "u8 list \<Rightarrow> nat \<Rightarrow> mbuf \<Rightarrow> bool \<times> mbuf" where
  "write_bits src len b =
     (if max_bit b < cur_bit b + len then (False, b)
      else (True, b\<lparr>mb_data := copy_bits (mb_data b) src len (cur_bit b) 0,
                    cur_bit := cur_bit b + len\<rparr>))"

text \<open>
  Signed fields: a sign bit, then \<open>length - 1\<close> bits of the value XOR'd with the sign
  extension. \<open>i32\<close> values are 32-bit words read in two's complement. \<open>read_signed\<close>
  refuses the lengths 0 and 33 upwards; \<open>write_signed\<close> has no such guard and is only
  called with constant lengths from 1 to 32.
\<close>

definition read_signed :: "nat \<Rightarrow> mbuf \<Rightarrow> u32 option \<times> mbuf" where
  "read_signed len b =
     (if len = 0 \<or> 32 < len then (None, b)
      else (case read_bits_single 1 b of
              (None, b1) \<Rightarrow> (None, b1)
            | (Some sign, b1) \<Rightarrow>
               (case read_bits_single (len - 1) b1 of
                  (None, b2) \<Rightarrow> (None, b2)
                | (Some d, b2) \<Rightarrow> (Some (sign + (d XOR (- sign))), b2))))"

definition write_signed :: "u32 \<Rightarrow> nat \<Rightarrow> mbuf \<Rightarrow> bool \<times> mbuf" where
  "write_signed value len b =
     (let sign = (if sint value < 0 then 1 else 0);
          sign_ex = (if sint value < 0 then - 1 else 0);
          d = value XOR sign_ex
      in case write_bits_single sign 1 b of
           (False, b1) \<Rightarrow> (False, b1)
         | (True, b1) \<Rightarrow> write_bits_single d (len - 1) b1)"

definition read_long :: "nat \<Rightarrow> mbuf \<Rightarrow> u64 option \<times> mbuf" where
  "read_long len b =
     (if len = 0 \<or> 64 < len then (None, b)
      else if len \<le> 32
      then (case read_bits_single len b of (r, b1) \<Rightarrow> (map_option ucast r, b1))
      else (case read_bits_single 32 b of
              (None, b1) \<Rightarrow> (None, b1)
            | (Some low, b1) \<Rightarrow>
               (case read_bits_single (len - 32) b1 of
                  (None, b2) \<Rightarrow> (None, b2)
                | (Some high, b2) \<Rightarrow> (Some (ucast low OR push_bit 32 (ucast high)), b2))))"

definition write_long :: "u64 \<Rightarrow> nat \<Rightarrow> mbuf \<Rightarrow> bool \<times> mbuf" where
  "write_long value len b =
     (if len \<le> 32 then write_bits_single (ucast value) len b
      else case write_bits_single (ucast value) 32 b of
             (False, b1) \<Rightarrow> (False, b1)
           | (True, b1) \<Rightarrow> write_bits_single (ucast (drop_bit 32 value)) (len - 32) b1)"

definition require_length :: "nat \<Rightarrow> mbuf \<Rightarrow> bool" where
  "require_length len b \<longleftrightarrow> cur_bit b + len < max_bit b"

definition align :: "mbuf \<Rightarrow> mbuf" where
  "align b = (let r = cur_bit b mod 8
              in if r \<noteq> 0 then b\<lparr>cur_bit := cur_bit b + (8 - r)\<rparr> else b)"

definition set_current_bit :: "nat \<Rightarrow> mbuf \<Rightarrow> mbuf" where
  "set_current_bit i b = b\<lparr>cur_bit := i\<rparr>"

definition is_at_end :: "mbuf \<Rightarrow> bool" where
  "is_at_end b \<longleftrightarrow> max_bit b \<le> cur_bit b"

definition data_length :: "mbuf \<Rightarrow> nat" where
  "data_length b = cur_bit b div 8 + (if cur_bit b mod 8 = 0 then 0 else 1)"

section \<open>Sequencing\<close>

text \<open>Rust's \<open>?\<close> on an optional read: stop with \<open>None\<close>, keeping the buffer as the failed
  read left it; plain sequencing of a read that cannot fail; and \<open>&&\<close> between writes, which
  stops at the first write that does not fit.\<close>

type_synonym 'a reader = "mbuf \<Rightarrow> 'a option \<times> mbuf"
type_synonym writer = "mbuf \<Rightarrow> bool \<times> mbuf"

definition try_read :: "'a reader \<Rightarrow> ('a \<Rightarrow> 'b reader) \<Rightarrow> 'b reader" where
  "try_read m k b = (case m b of (None, b1) \<Rightarrow> (None, b1) | (Some x, b1) \<Rightarrow> k x b1)"

definition then_read :: "(mbuf \<Rightarrow> 'a \<times> mbuf) \<Rightarrow> ('a \<Rightarrow> mbuf \<Rightarrow> 'b \<times> mbuf) \<Rightarrow> mbuf \<Rightarrow> 'b \<times> mbuf" where
  "then_read m k b = (case m b of (x, b1) \<Rightarrow> k x b1)"

definition ret :: "'a \<Rightarrow> 'a reader" where
  "ret x b = (Some x, b)"

definition fail :: "'a reader" where
  "fail b = (None, b)"

definition and_write :: "writer \<Rightarrow> writer \<Rightarrow> writer" where
  "and_write m k b = (case m b of (False, b1) \<Rightarrow> (False, b1) | (True, b1) \<Rightarrow> k b1)"

lemma ret_apply [simp]: "ret x b = (Some x, b)"
  by (simp add: ret_def)

lemma fail_apply [simp]: "fail b = (None, b)"
  by (simp add: fail_def)

lemma try_read_Some: "m b = (Some x, b1) \<Longrightarrow> try_read m k b = k x b1"
  by (simp add: try_read_def)

lemma try_read_None: "m b = (None, b1) \<Longrightarrow> try_read m k b = (None, b1)"
  by (simp add: try_read_def)

lemma then_read_eq: "m b = (x, b1) \<Longrightarrow> then_read m k b = k x b1"
  by (simp add: then_read_def)

lemma and_write_True: "m b = (True, b1) \<Longrightarrow> and_write m k b = k b1"
  by (simp add: and_write_def)

section \<open>The bit-list view\<close>

definition wf_buf :: "mbuf \<Rightarrow> bool" where
  "wf_buf b \<longleftrightarrow> max_bit b \<le> 8 * length (mb_data b)"

definition fits :: "nat \<Rightarrow> mbuf \<Rightarrow> bool" where
  "fits n b \<longleftrightarrow> cur_bit b + n \<le> max_bit b"

definition written :: "mbuf \<Rightarrow> bool list" where
  "written b = take (cur_bit b) (bits_of_bytes (mb_data b))"

definition unread :: "mbuf \<Rightarrow> bool list" where
  "unread b = drop (cur_bit b) (take (max_bit b) (bits_of_bytes (mb_data b)))"

definition advance :: "nat \<Rightarrow> mbuf \<Rightarrow> mbuf" where
  "advance n b = b\<lparr>cur_bit := cur_bit b + n\<rparr>"

primrec put_bools :: "nat \<Rightarrow> bool list \<Rightarrow> u8 list \<Rightarrow> u8 list" where
  "put_bools i [] d = d"
| "put_bools i (x # xs) d = put_bools (Suc i) xs (put_bit i (of_bool x) d)"

definition append_bits :: "bool list \<Rightarrow> mbuf \<Rightarrow> mbuf" where
  "append_bits xs b = b\<lparr>mb_data := put_bools (cur_bit b) xs (mb_data b),
                        cur_bit := cur_bit b + length xs\<rparr>"

subsection \<open>Single bits\<close>

lemma get_bit_eq [bit_list]:
  "i < 8 * length d \<Longrightarrow> get_bit d i = of_bool (bits_of_bytes d ! i)"
  by (rule bit_word_eqI) (auto simp: get_bit_def nth_bits_of_bytes bit_simps)

lemma length_put_bit [simp]: "length (put_bit i b d) = length d"
  by (simp add: put_bit_def Let_def)

lemma bit_put_bit_byte:
  "s < 8 \<Longrightarrow> bit ((w AND NOT (push_bit s 1)) OR push_bit s (of_bool x) :: u8) j \<longleftrightarrow>
     (if j = s then x else bit w j)"
  by (auto simp: bit_simps dest: bit_imp_le_length)

lemma bits_put_bit [bit_list]:
  assumes "i < 8 * length d"
  shows "bits_of_bytes (put_bit i (of_bool x) d) = (bits_of_bytes d)[i := x]"
proof (rule nth_equalityI)
  show "length (bits_of_bytes (put_bit i (of_bool x) d)) = length ((bits_of_bytes d)[i := x])"
    by simp
next
  fix j
  assume "j < length (bits_of_bytes (put_bit i (of_bool x) d))"
  then have j: "j < 8 * length d" by simp
  have eq: "j = i \<longleftrightarrow> j div 8 = i div 8 \<and> 7 - j mod 8 = 7 - i mod 8"
  proof
    assume *: "j div 8 = i div 8 \<and> 7 - j mod 8 = 7 - i mod 8"
    have "i mod 8 < 8" "j mod 8 < 8" by simp_all
    with * have "j mod 8 = i mod 8" by linarith
    with * show "j = i" by (metis div_mult_mod_eq)
  qed simp
  have "i div 8 < length d" using assms by (simp add: div_less_iff_less_mult algebra_simps)
  then show "bits_of_bytes (put_bit i (of_bool x) d) ! j = (bits_of_bytes d)[i := x] ! j"
    using assms j eq
    by (cases "j div 8 = i div 8")
      (auto simp: nth_bits_of_bytes put_bit_def Let_def nth_list_update bit_put_bit_byte
            simp del: push_bit_of_1)
qed

subsection \<open>Runs of bits\<close>

lemma length_put_bools [simp]: "length (put_bools i xs d) = length d"
  by (induction xs arbitrary: i d) simp_all

lemma put_bools_append:
  "put_bools i (xs @ ys) d = put_bools (i + length xs) ys (put_bools i xs d)"
  by (induction xs arbitrary: i d) simp_all

lemma bits_put_bools [bit_list]:
  "i + length xs \<le> 8 * length d \<Longrightarrow>
     bits_of_bytes (put_bools i xs d) =
       take i (bits_of_bytes d) @ xs @ drop (i + length xs) (bits_of_bytes d)"
proof (induction xs arbitrary: i d)
  case Nil
  then show ?case by simp
next
  case (Cons x xs)
  then show ?case
    by (simp add: bits_put_bit take_Suc_conv_app_nth drop_update_cancel take_update_swap
        list_update_append min_def)
qed

lemma fold_put_bit:
  "fold (\<lambda>i d. put_bit (c + i) (of_bool (f i)) d) [0..<n] d = put_bools c (map f [0..<n]) d"
  by (induction n) (simp_all add: put_bools_append)

lemma fold_shift_in:
  "fold (\<lambda>i v. push_bit 1 v OR ucast (of_bool (f i) :: u8)) [0..<n] (0 :: u32) =
     word_of_bits (map f [0..<n])"
proof (induction n)
  case 0
  then show ?case by (simp add: word_of_bits_def)
next
  case (Suc n)
  then show ?case by (simp add: word_of_bits_def shift_in_def)
qed

lemma take_unread_nth:
  assumes "wf_buf b" "fits n b"
  shows "take n (unread b) = map (\<lambda>i. bits_of_bytes (mb_data b) ! (cur_bit b + i)) [0..<n]"
  using assms by (intro nth_equalityI) (auto simp: unread_def wf_buf_def fits_def)

lemma bits_be_shift:
  "ucast (drop_bit k (w::u32) AND 1) = (of_bool (bit w k) :: u8)"
  by (rule bit_word_eqI) (auto simp: bit_simps)

subsection \<open>Cursor and bound laws\<close>

lemma advance_simps [simp, buf_law]:
  "mb_data (advance n b) = mb_data b"
  "cur_bit (advance n b) = cur_bit b + n"
  "max_bit (advance n b) = max_bit b"
  "length_hack (advance n b) = length_hack b"
  "wf_buf (advance n b) = wf_buf b"
  "unread (advance n b) = drop n (unread b)"
  "effective_len (advance n b) k = effective_len b k"
  "advance m (advance n b) = advance (n + m) b"
  by (simp_all add: advance_def wf_buf_def unread_def effective_len_def add.commute)

lemma append_bits_simps [simp, buf_law]:
  "length (mb_data (append_bits xs b)) = length (mb_data b)"
  "cur_bit (append_bits xs b) = cur_bit b + length xs"
  "max_bit (append_bits xs b) = max_bit b"
  "length_hack (append_bits xs b) = length_hack b"
  "wf_buf (append_bits xs b) = wf_buf b"
  "effective_len (append_bits xs b) k = effective_len b k"
  "fits n (append_bits xs b) = fits (length xs + n) b"
  "append_bits ys (append_bits xs b) = append_bits (xs @ ys) b"
  by (simp_all add: append_bits_def wf_buf_def effective_len_def fits_def add.assoc
      put_bools_append)

lemma append_bits_Nil [simp]: "append_bits [] b = b"
  by (simp add: append_bits_def)

lemma written_append [buf_law]:
  "wf_buf b \<Longrightarrow> fits (length xs) b \<Longrightarrow> written (append_bits xs b) = written b @ xs"
  by (simp add: written_def append_bits_def wf_buf_def fits_def bits_put_bools)

lemma length_unread: "wf_buf b \<Longrightarrow> length (unread b) = max_bit b - cur_bit b"
  by (simp add: unread_def wf_buf_def)

lemma fits_unread: "wf_buf b \<Longrightarrow> n \<noteq> 0 \<Longrightarrow> fits n b \<longleftrightarrow> n \<le> length (unread b)"
  by (auto simp: length_unread fits_def)

lemma fits_0: "fits 0 b \<longleftrightarrow> cur_bit b \<le> max_bit b"
  by (simp add: fits_def)

subsection \<open>Every operation on the bit-list view\<close>

lemma read_bits_single_law [buf_law]:
  assumes "wf_buf b"
  shows "read_bits_single n b =
    (if fits (effective_len b n) b
     then Some (word_of_bits (take (effective_len b n) (unread b))) else None,
     advance (effective_len b n) b)"
proof (cases "fits (effective_len b n) b")
  case True
  let ?m = "effective_len b n"
  let ?f = "\<lambda>i. bits_of_bytes (mb_data b) ! (cur_bit b + i)"
  have "get_bit (mb_data b) (cur_bit b + i) = of_bool (?f i)" if "i \<in> set [0..<?m]" for i
    using that assms True by (intro get_bit_eq) (auto simp: wf_buf_def fits_def)
  then have "fold (\<lambda>i v. push_bit 1 v OR ucast (get_bit (mb_data b) (cur_bit b + i))) [0..<?m] (0::u32)
      = fold (\<lambda>i v. push_bit 1 v OR ucast (of_bool (?f i) :: u8)) [0..<?m] 0"
    by (intro fold_cong) auto
  also have "\<dots> = word_of_bits (take ?m (unread b))"
    using assms True by (simp only: fold_shift_in take_unread_nth)
  finally show ?thesis
    using True by (simp add: read_bits_single_def Let_def fits_def advance_def)
next
  case False
  then show ?thesis by (simp add: read_bits_single_def Let_def fits_def advance_def)
qed

lemma write_bits_single_law [buf_law]:
  "write_bits_single v n b =
    (if fits (effective_len b n) b
     then (True, append_bits (bits_be (effective_len b n) v) b) else (False, b))"
  by (simp add: write_bits_single_def Let_def fits_def append_bits_def bits_be_shift
      fold_put_bit bits_be_def)

lemma read_bit_law [buf_law]:
  assumes "wf_buf b" "fits 1 b"
  shows "read_bit b = (of_bool (hd (unread b)), advance 1 b)"
proof -
  have lt: "cur_bit b < 8 * length (mb_data b)" using assms by (simp add: wf_buf_def fits_def)
  have "hd (unread b) = bits_of_bytes (mb_data b) ! cur_bit b"
    using assms lt by (simp add: unread_def hd_drop_conv_nth fits_def)
  moreover have "cur_bit b div 8 < length (mb_data b)"
    using lt by (simp add: div_less_iff_less_mult mult.commute)
  ultimately show ?thesis
    using lt by (simp add: read_bit_def get_bit_eq advance_def)
qed

lemma write_bit_law [buf_law]:
  assumes "wf_buf b" "fits 1 b"
  shows "write_bit v b = (True, append_bits [v] b)"
  using assms by (simp add: write_bit_def append_bits_def wf_buf_def fits_def not_le
      div_less_iff_less_mult mult.commute)

subsection \<open>Blobs: the aligned fast path agrees with the per-bit loop\<close>

lemma fold_copy_bit:
  assumes "sb + len \<le> 8 * length src"
  shows "fold (\<lambda>i d. put_bit (db + i) (get_bit src (sb + i)) d) [0..<len] dest =
    put_bools db (take len (drop sb (bits_of_bytes src))) dest"
proof -
  let ?f = "\<lambda>i. bits_of_bytes src ! (sb + i)"
  have "get_bit src (sb + i) = of_bool (?f i)" if "i \<in> set [0..<len]" for i
    using that assms by (intro get_bit_eq) auto
  then have "fold (\<lambda>i d. put_bit (db + i) (get_bit src (sb + i)) d) [0..<len] dest =
      fold (\<lambda>i d. put_bit (db + i) (of_bool (?f i)) d) [0..<len] dest"
    by (intro fold_cong) auto
  moreover have "map ?f [0..<len] = take len (drop sb (bits_of_bytes src))"
    using assms by (intro nth_equalityI) auto
  ultimately show ?thesis by (simp add: fold_put_bit)
qed

lemma copy_aligned:
  assumes "8 * sb + 8 * n \<le> 8 * length src" "8 * db + 8 * n \<le> 8 * length dest"
  shows "take db dest @ take n (drop sb src) @ drop (db + n) dest =
    put_bools (8 * db) (take (8 * n) (drop (8 * sb) (bits_of_bytes src))) dest"
proof (rule bits_of_bytes_inj)
  let ?xs = "take (8 * n) (drop (8 * sb) (bits_of_bytes src))"
  have len: "length ?xs = 8 * n" using assms(1) by simp
  have "drop (8 * db + 8 * n) (bits_of_bytes dest) = bits_of_bytes (drop (db + n) dest)"
    by (simp only: drop_bits_of_bytes distrib_left [symmetric])
  moreover have "bits_of_bytes (put_bools (8 * db) ?xs dest) =
      take (8 * db) (bits_of_bytes dest) @ ?xs @ drop (8 * db + 8 * n) (bits_of_bytes dest)"
    using assms(2) by (subst bits_put_bools) (simp_all only: len)
  ultimately show "bits_of_bytes (take db dest @ take n (drop sb src) @ drop (db + n) dest) =
      bits_of_bytes (put_bools (8 * db) ?xs dest)"
    by (simp only: bits_of_bytes_append take_bits_of_bytes drop_bits_of_bytes)
qed

lemma copy_bits_eq_put_bools:
  assumes "sb + len \<le> 8 * length src" "db + len \<le> 8 * length dest"
  shows "copy_bits dest src len db sb =
    put_bools db (take len (drop sb (bits_of_bytes src))) dest"
proof (cases "db mod 8 = 0 \<and> sb mod 8 = 0 \<and> len mod 8 = 0")
  case True
  then obtain d' s' n' where "db = 8 * d'" "sb = 8 * s'" "len = 8 * n'"
    by (metis dvd_def mod_0_imp_dvd)
  with assms True show ?thesis by (simp add: copy_bits_def Let_def copy_aligned)
next
  case False
  show ?thesis unfolding copy_bits_def if_not_P [OF False] by (rule fold_copy_bit [OF assms(1)])
qed

lemma write_bits_law [buf_law]:
  assumes "wf_buf b" "len \<le> 8 * length src"
  shows "write_bits src len b =
    (if fits len b then (True, append_bits (take len (bits_of_bytes src)) b) else (False, b))"
  using assms
  by (simp add: write_bits_def fits_def append_bits_def copy_bits_eq_put_bools wf_buf_def min_absorb1)

lemma read_bits_law [buf_law]:
  assumes "wf_buf b" "len \<le> 8 * length dest" "len \<noteq> 0"
  shows "read_bits dest len b =
    (if fits len b then ((True, put_bools 0 (take len (unread b)) dest), advance len b)
     else ((False, dest), b))"
proof (cases "fits len b")
  case True
  then have "take len (unread b) = take len (drop (cur_bit b) (bits_of_bytes (mb_data b)))"
    by (simp add: unread_def drop_take fits_def min_def)
  then show ?thesis
    using assms True by (simp add: read_bits_def fits_def copy_bits_eq_put_bools wf_buf_def advance_def)
next
  case False
  then show ?thesis using assms(3) by (simp add: read_bits_def fits_def)
qed

lemma put_bools_whole:
  assumes "length d = length e"
  shows "put_bools 0 (bits_of_bytes e) d = e"
  by (rule bits_of_bytes_inj) (simp add: bits_put_bools assms)

section \<open>Emitting and parsing bit strings\<close>

text \<open>
  \<open>emits h m xs\<close>: with the length hack \<open>h\<close>, the writer \<open>m\<close> appends exactly \<open>xs\<close>
  whenever it fits. \<open>parses h m xs v\<close>: the reader \<open>m\<close>, finding \<open>xs\<close> at the cursor,
  returns \<open>v\<close> and moves past \<open>xs\<close>. Both compose along \<open>and_write\<close> and
  \<open>try_read\<close> by appending the strings.
\<close>

definition emits :: "bool \<Rightarrow> writer \<Rightarrow> bool list \<Rightarrow> bool" where
  "emits h m xs \<longleftrightarrow> (\<forall>b. wf_buf b \<longrightarrow> length_hack b = h \<longrightarrow> fits (length xs) b \<longrightarrow>
     m b = (True, append_bits xs b))"

definition parses :: "bool \<Rightarrow> 'a reader \<Rightarrow> bool list \<Rightarrow> 'a \<Rightarrow> bool" where
  "parses h m xs v \<longleftrightarrow> (\<forall>b r. wf_buf b \<longrightarrow> length_hack b = h \<longrightarrow> unread b = xs @ r \<longrightarrow>
     m b = (Some v, advance (length xs) b))"

lemma emitsD: "emits h m xs \<Longrightarrow> wf_buf b \<Longrightarrow> length_hack b = h \<Longrightarrow> fits (length xs) b \<Longrightarrow>
    m b = (True, append_bits xs b)"
  by (simp add: emits_def)

lemma parsesD: "parses h m xs v \<Longrightarrow> wf_buf b \<Longrightarrow> length_hack b = h \<Longrightarrow> unread b = xs @ r \<Longrightarrow>
    m b = (Some v, advance (length xs) b)"
  by (simp add: parses_def)

lemma emits_and_write:
  assumes "emits h m xs" "emits h k ys"
  shows "emits h (and_write m k) (xs @ ys)"
  unfolding emits_def
proof (intro allI impI)
  fix b
  assume b: "wf_buf b" "length_hack b = h" "fits (length (xs @ ys)) b"
  then have "m b = (True, append_bits xs b)"
    by (intro emitsD [OF assms(1)]) (simp_all add: fits_def)
  moreover have "k (append_bits xs b) = (True, append_bits ys (append_bits xs b))"
    using b by (intro emitsD [OF assms(2)]) simp_all
  ultimately show "and_write m k b = (True, append_bits (xs @ ys) b)"
    by (simp add: and_write_def)
qed

lemma emits_skip: "emits h (\<lambda>b. (True, b)) []"
  by (simp add: emits_def)

lemma parses_try_read:
  assumes "parses h m xs x" "parses h (k x) ys y"
  shows "parses h (try_read m k) (xs @ ys) y"
  unfolding parses_def
proof (intro allI impI)
  fix b r
  assume b: "wf_buf b" "length_hack b = h" "unread b = (xs @ ys) @ r"
  then have "m b = (Some x, advance (length xs) b)"
    by (intro parsesD [OF assms(1), where r = "ys @ r"]) simp_all
  moreover have "k x (advance (length xs) b) = (Some y, advance (length ys) (advance (length xs) b))"
    using b by (intro parsesD [OF assms(2), where r = r]) simp_all
  ultimately show "try_read m k b = (Some y, advance (length (xs @ ys)) b)"
    by (simp add: try_read_def)
qed

lemma parses_then_read:
  assumes "\<And>b r. wf_buf b \<Longrightarrow> unread b = xs @ r \<Longrightarrow> m b = (x, advance (length xs) b)"
    and "parses h (k x) ys y"
  shows "parses h (then_read m k) (xs @ ys) y"
proof -
  have eq: "then_read m k b = try_read (\<lambda>b. case m b of (v, b1) \<Rightarrow> (Some v, b1)) k b" for b
    by (simp add: then_read_def try_read_def split: prod.splits)
  have "parses h (\<lambda>b. case m b of (v, b1) \<Rightarrow> (Some v, b1)) xs x"
    using assms(1) by (auto simp: parses_def)
  then have "parses h (try_read (\<lambda>b. case m b of (v, b1) \<Rightarrow> (Some v, b1)) k) (xs @ ys) y"
    using assms(2) by (blast intro: parses_try_read)
  then show ?thesis by (simp add: eq [abs_def] parses_def)
qed

lemma parses_ret: "v = w \<Longrightarrow> parses h (ret v) [] w"
  by (simp add: parses_def advance_def)

fun put_all :: "('a \<Rightarrow> writer) \<Rightarrow> 'a list \<Rightarrow> writer" where
  "put_all put [] b = (True, b)"
| "put_all put (a # as) b =
     (case put a b of (False, b1) \<Rightarrow> (False, b1) | (True, b1) \<Rightarrow> put_all put as b1)"

fun get_n :: "'v reader \<Rightarrow> nat \<Rightarrow> 'v list reader" where
  "get_n get 0 b = (Some [], b)"
| "get_n get (Suc n) b =
     (case get b of
        (None, b1) \<Rightarrow> (None, b1)
      | (Some a, b1) \<Rightarrow> (case get_n get n b1 of (r, b2) \<Rightarrow> (map_option (\<lambda>as. a # as) r, b2)))"

section \<open>What a write/read pair promises\<close>

text \<open>
  The interface between the buffer and the record codecs. \<open>enc h a\<close> is the bit string the
  writer appends for \<open>a\<close> when the length hack is \<open>h\<close>; \<open>valid h a\<close> says that
  \<open>a\<close> fits the field. A writer that has room appends exactly that string; a reader that
  finds it at the cursor returns \<open>view a\<close>, what the other side sees of \<open>a\<close>, and
  moves past it.
\<close>

locale field_codec =
  fixes put :: "'a \<Rightarrow> mbuf \<Rightarrow> bool \<times> mbuf"
    and get :: "mbuf \<Rightarrow> 'v option \<times> mbuf"
    and enc :: "bool \<Rightarrow> 'a \<Rightarrow> bool list"
    and valid :: "bool \<Rightarrow> 'a \<Rightarrow> bool"
    and view :: "'a \<Rightarrow> 'v"
  assumes put_law: "wf_buf b \<Longrightarrow> valid (length_hack b) a \<Longrightarrow>
        fits (length (enc (length_hack b) a)) b \<Longrightarrow>
        put a b = (True, append_bits (enc (length_hack b) a) b)"
    and get_law: "wf_buf b \<Longrightarrow> valid (length_hack b) a \<Longrightarrow>
        unread b = enc (length_hack b) a @ r \<Longrightarrow>
        get b = (Some (view a), advance (length (enc (length_hack b) a)) b)"
    and enc_nonempty: "valid h a \<Longrightarrow> enc h a \<noteq> []"
begin

lemma put_all_law:
  "wf_buf b \<Longrightarrow> (\<forall>a\<in>set as. valid (length_hack b) a) \<Longrightarrow>
     fits (length (concat (map (enc (length_hack b)) as))) b \<Longrightarrow>
     put_all put as b = (True, append_bits (concat (map (enc (length_hack b)) as)) b)"
proof (induction as arbitrary: b)
  case Nil
  then show ?case by simp
next
  case (Cons a as)
  then have "fits (length (enc (length_hack b) a)) b" by (simp add: fits_def)
  with Cons show ?case by (simp add: put_law)
qed

lemma get_n_law:
  "wf_buf b \<Longrightarrow> (\<forall>a\<in>set as. valid (length_hack b) a) \<Longrightarrow>
     unread b = concat (map (enc (length_hack b)) as) @ r \<Longrightarrow>
     get_n get (length as) b =
       (Some (map view as), advance (length (concat (map (enc (length_hack b)) as))) b)"
proof (induction as arbitrary: b)
  case Nil
  then show ?case by (simp add: advance_def)
next
  case (Cons a as)
  then have "get b = (Some (view a), advance (length (enc (length_hack b) a)) b)"
    by (intro get_law [where r = "concat (map (enc (length_hack b)) as) @ r"]) simp_all
  with Cons show ?case by simp
qed

end

lemma unread_rewound [buf_law]:
  "wf_buf b \<Longrightarrow> fits (length xs) b \<Longrightarrow>
     unread (set_current_bit (cur_bit b) (append_bits xs b)) = xs @ drop (length xs) (unread b)"
  by (simp add: unread_def set_current_bit_def append_bits_def wf_buf_def fits_def bits_put_bools
      drop_take add.commute)

lemma set_current_bit_simps [simp, buf_law]:
  "mb_data (set_current_bit i b) = mb_data b"
  "cur_bit (set_current_bit i b) = i"
  "max_bit (set_current_bit i b) = max_bit b"
  "length_hack (set_current_bit i b) = length_hack b"
  "wf_buf (set_current_bit i b) = wf_buf b"
  "effective_len (set_current_bit i b) k = effective_len b k"
  by (simp_all add: set_current_bit_def wf_buf_def effective_len_def)

context field_codec begin

lemma emits_put: "valid h a \<Longrightarrow> emits h (put a) (enc h a)"
  by (auto simp: emits_def put_law)

lemma parses_get: "valid h a \<Longrightarrow> parses h get (enc h a) (view a)"
  by (auto simp: parses_def intro: get_law)

lemma write_then_read:
  assumes "wf_buf b" "valid (length_hack b) a" "fits (length (enc (length_hack b) a)) b"
  shows "\<exists>b'. put a b = (True, b') \<and> written b' = written b @ enc (length_hack b) a \<and>
    get (set_current_bit (cur_bit b) b') = (Some (view a), b')"
proof -
  let ?b' = "append_bits (enc (length_hack b) a) b"
  have "get (set_current_bit (cur_bit b) ?b') =
      (Some (view a), advance (length (enc (length_hack b) a)) (set_current_bit (cur_bit b) ?b'))"
    using assms get_law [of "set_current_bit (cur_bit b) ?b'" a
        "drop (length (enc (length_hack b) a)) (unread b)"]
    by (simp add: unread_rewound)
  moreover have "advance (length (enc (length_hack b) a)) (set_current_bit (cur_bit b) ?b') = ?b'"
    by (simp add: advance_def set_current_bit_def append_bits_def)
  ultimately show ?thesis using assms by (simp add: put_law written_append)
qed

end

section \<open>The buffer's own fields are codecs\<close>

definition eff_width :: "bool \<Rightarrow> nat \<Rightarrow> nat" where
  "eff_width h n = (if n = 13 \<and> h then 16 else n)"

lemma effective_len_eff_width: "effective_len b n = eff_width (length_hack b) n"
  by (simp add: effective_len_def eff_width_def)

lemma eff_width_simps [simp]:
  "eff_width h n = 0 \<longleftrightarrow> n = 0"
  "0 < eff_width h n \<longleftrightarrow> 0 < n"
  "n \<noteq> 13 \<Longrightarrow> eff_width h n = n"
  "eff_width False n = n"
  by (auto simp: eff_width_def)

definition valid_uint :: "nat \<Rightarrow> bool \<Rightarrow> u32 \<Rightarrow> bool" where
  "valid_uint n h v \<longleftrightarrow> 0 < n \<and> take_bit (eff_width h n) v = v"

lemma fits_prefix:
  assumes "wf_buf b" "unread b = xs @ r" "xs \<noteq> []"
  shows "fits (length xs) b"
proof -
  have "length xs \<le> length (unread b)" using assms(2) by simp
  with assms show ?thesis by (simp add: fits_unread)
qed

interpretation uint_codec: field_codec
    "\<lambda>v. write_bits_single v n" "read_bits_single n" "\<lambda>h. bits_be (eff_width h n)" "valid_uint n"
    "\<lambda>v. v"
  for n :: nat
proof
  fix b and a :: u32
  assume "fits (length (bits_be (eff_width (length_hack b) n) a)) b"
  then show "write_bits_single a n b = (True, append_bits (bits_be (eff_width (length_hack b) n) a) b)"
    by (simp add: write_bits_single_law effective_len_eff_width)
next
  fix b a r
  assume *: "wf_buf b" "valid_uint n (length_hack b) a"
    "unread b = bits_be (eff_width (length_hack b) n) a @ r"
  then have "bits_be (eff_width (length_hack b) n) a \<noteq> []"
    by (auto simp: valid_uint_def simp flip: length_greater_0_conv)
  from fits_prefix [OF *(1,3) this] * show "read_bits_single n b =
      (Some a, advance (length (bits_be (eff_width (length_hack b) n) a)) b)"
    by (simp add: read_bits_single_law effective_len_eff_width valid_uint_def)
next
  fix h a
  assume "valid_uint n h a"
  then show "bits_be (eff_width h n) a \<noteq> []"
    by (auto simp: valid_uint_def simp flip: length_greater_0_conv)
qed

lemma emits_uint: "emits h (write_bits_single v n) (bits_be (eff_width h n) v)"
  by (simp add: emits_def write_bits_single_law effective_len_eff_width)

lemma parses_uint:
  assumes "0 < n"
  shows "parses h (read_bits_single n) (bits_be (eff_width h n) v) (take_bit (eff_width h n) v)"
  using uint_codec.parses_get [of n h "take_bit (eff_width h n) v"] assms
  by (simp add: valid_uint_def)

definition read_bool :: "mbuf \<Rightarrow> bool option \<times> mbuf" where
  "read_bool b = (case read_bit b of (v, b1) \<Rightarrow> (Some (v \<noteq> 0), b1))"

interpretation bit_codec: field_codec write_bit read_bool "\<lambda>_ v. [v]" "\<lambda>_ _. True" "\<lambda>v. v"
proof
  fix b :: mbuf and a r
  assume "wf_buf b" "unread b = [a] @ r"
  then show "read_bool b = (Some a, advance (length [a]) b)"
    using fits_prefix [of b "[a]" r] by (simp add: read_bool_def read_bit_law)
qed (simp_all add: write_bit_law)

definition enc_long :: "nat \<Rightarrow> bool \<Rightarrow> u64 \<Rightarrow> bool list" where
  "enc_long n h v =
     (if n \<le> 32 then bits_be (eff_width h n) (ucast v :: u32)
      else bits_be 32 (ucast v :: u32) @ bits_be (eff_width h (n - 32)) (ucast (drop_bit 32 v) :: u32))"

definition valid_long :: "nat \<Rightarrow> bool \<Rightarrow> u64 \<Rightarrow> bool" where
  "valid_long n h v \<longleftrightarrow>
     0 < n \<and> n \<le> 64 \<and>
     take_bit (if n \<le> 32 then eff_width h n else 32 + eff_width h (n - 32)) v = v"

lemma long_low:
  assumes "take_bit m (v::u64) = v" "m \<le> 32"
  shows "take_bit m (ucast v :: u32) = ucast v" "ucast (ucast v :: u32) = v"
proof -
  show "take_bit m (ucast v :: u32) = ucast v"
    by (subst (2) assms(1) [symmetric], rule bit_word_eqI) (auto simp: bit_simps)
  show "ucast (ucast v :: u32) = v"
  proof (rule bit_word_eqI)
    fix i
    show "bit (ucast (ucast v :: u32) :: u64) i = bit v i"
      by (subst (2) assms(1) [symmetric], subst assms(1) [symmetric]) (use assms(2) in \<open>auto simp: bit_simps\<close>)
  qed
qed

lemma long_split: "ucast (ucast v :: u32) OR push_bit 32 (ucast (ucast (drop_bit 32 v) :: u32)) = (v::u64)"
  by (rule bit_word_eqI) (auto simp: bit_simps)

lemma long_high:
  assumes "take_bit (32 + m) (v::u64) = v"
  shows "take_bit m (ucast (drop_bit 32 v) :: u32) = ucast (drop_bit 32 v)"
  by (subst (2) assms [symmetric], rule bit_word_eqI) (auto simp: bit_simps)

lemma eff_width_le_32: "n \<le> 32 \<Longrightarrow> eff_width h n \<le> 32"
  by (simp add: eff_width_def)

interpretation long_codec: field_codec "\<lambda>v. write_long v n" "read_long n" "enc_long n" "valid_long n"
    "\<lambda>v. v"
  for n :: nat
proof
  fix b a
  assume *: "wf_buf b" "valid_long n (length_hack b) a" "fits (length (enc_long n (length_hack b) a)) b"
  then show "write_long a n b = (True, append_bits (enc_long n (length_hack b) a) b)"
    by (auto simp: write_long_def enc_long_def write_bits_single_law effective_len_eff_width fits_def
        split: if_splits)
next
  fix b a r
  assume *: "wf_buf b" "valid_long n (length_hack b) a" "unread b = enc_long n (length_hack b) a @ r"
  let ?h = "length_hack b"
  show "read_long n b = (Some a, advance (length (enc_long n ?h a)) b)"
  proof (cases "n \<le> 32")
    case True
    with * have "valid_uint n ?h (ucast a)" "ucast (ucast a :: u32) = a"
      by (auto simp: valid_long_def valid_uint_def long_low eff_width_le_32)
    with * True show ?thesis
      using uint_codec.get_law [of b n "ucast a" r]
      by (simp add: read_long_def enc_long_def valid_long_def)
  next
    case False
    with * have v: "valid_uint 32 ?h (ucast a)" "valid_uint (n - 32) ?h (ucast (drop_bit 32 a))"
      by (auto simp: valid_long_def valid_uint_def long_high take_bit_word_eq_self)
    let ?hi = "bits_be (eff_width ?h (n - 32)) (ucast (drop_bit 32 a) :: u32)"
    have lo: "read_bits_single 32 b = (Some (ucast a), advance 32 b)"
      using * False v(1) uint_codec.get_law [of b 32 "ucast a" "?hi @ r"]
      by (simp add: enc_long_def)
    have hi: "read_bits_single (n - 32) (advance 32 b) =
        (Some (ucast (drop_bit 32 a)), advance (length ?hi) (advance 32 b))"
      using * False v(2) uint_codec.get_law [of "advance 32 b" "n - 32" "ucast (drop_bit 32 a)" r]
      by (simp add: enc_long_def)
    show ?thesis
      using * False by (simp add: read_long_def lo hi enc_long_def valid_long_def long_split)
  qed
next
  fix h a
  assume "valid_long n h a"
  then show "enc_long n h a \<noteq> []"
    by (auto simp: enc_long_def valid_long_def simp flip: length_greater_0_conv)
qed

text \<open>A whole number of bytes written with \<open>write_bits\<close> and read back into a zeroed vector.\<close>

definition read_blob :: "nat \<Rightarrow> mbuf \<Rightarrow> u8 list option \<times> mbuf" where
  "read_blob n b =
     (case read_bits (replicate n 0) (n * 8) b of
        ((True, d), b1) \<Rightarrow> (Some d, b1)
      | ((False, d), b1) \<Rightarrow> (None, b1))"

interpretation blob_codec: field_codec "\<lambda>d. write_bits d (n * 8)" "read_blob n"
    "\<lambda>_. bits_of_bytes" "\<lambda>_ d. length d = n \<and> 0 < n" "\<lambda>d. d"
  for n :: nat
proof
  fix b and a :: "u8 list"
  assume "wf_buf b" "length a = n \<and> 0 < n" "fits (length (bits_of_bytes a)) b"
  then show "write_bits a (n * 8) b = (True, append_bits (bits_of_bytes a) b)"
    by (auto simp: write_bits_law mult.commute)
next
  fix b and a :: "u8 list" and r
  assume *: "wf_buf b" "length a = n \<and> 0 < n" "unread b = bits_of_bytes a @ r"
  then have "fits (length (bits_of_bytes a)) b"
    by (intro fits_prefix) (auto simp flip: length_greater_0_conv)
  with * show "read_blob n b = (Some a, advance (length (bits_of_bytes a)) b)"
    by (auto simp: read_blob_def read_bits_law put_bools_whole mult.commute)
qed (auto simp flip: length_greater_0_conv)

section \<open>Reachable buffers\<close>

text \<open>Any sequence of public operations on a buffer made by one of the three constructors.
  The results of the operations are ignored; a caller may also move the cursor anywhere.\<close>

inductive mb_step :: "mbuf \<Rightarrow> mbuf \<Rightarrow> bool" where
  hack: "mb_step b (with_length_hack e b)"
| rbs: "mb_step b (snd (read_bits_single n b))"
| wbs: "mb_step b (snd (write_bits_single v n b))"
| rb: "mb_step b (snd (read_bit b))"
| wb: "mb_step b (snd (write_bit x b))"
| rblob: "n \<le> 8 * length dest \<Longrightarrow> mb_step b (snd (read_bits dest n b))"
| wblob: "n \<le> 8 * length src \<Longrightarrow> mb_step b (snd (write_bits src n b))"
| rs: "mb_step b (snd (read_signed n b))"
| ws: "mb_step b (snd (write_signed v n b))"
| rl: "mb_step b (snd (read_long n b))"
| wl: "mb_step b (snd (write_long w n b))"
| al: "mb_step b (align b)"
| seek: "mb_step b (set_current_bit i b)"

inductive mb_reachable :: "nat \<Rightarrow> mbuf \<Rightarrow> bool" where
  new: "mb_reachable sz (mb_new sz)"
| bytes: "length d = sz \<Longrightarrow> mb_reachable sz (from_bytes d)"
| bits: "length d = sz \<Longrightarrow> mb_reachable sz (from_bits d k)"
| step: "mb_reachable sz b \<Longrightarrow> mb_step b b' \<Longrightarrow> mb_reachable sz b'"

definition same_storage :: "mbuf \<Rightarrow> mbuf \<Rightarrow> bool" where
  "same_storage b b' \<longleftrightarrow> length (mb_data b') = length (mb_data b) \<and> max_bit b' = max_bit b"

lemma same_storage_refl [simp]: "same_storage b b"
  by (simp add: same_storage_def)

lemma same_storage_trans: "same_storage a b \<Longrightarrow> same_storage b c \<Longrightarrow> same_storage a c"
  by (simp add: same_storage_def)

lemma same_storage_wf: "same_storage b b' \<Longrightarrow> wf_buf b \<Longrightarrow> wf_buf b'"
  by (simp add: same_storage_def wf_buf_def)

lemma same_storage_cursor [simp]: "same_storage b (b\<lparr>cur_bit := i\<rparr>)"
  by (simp add: same_storage_def)

lemma same_storage_rbs: "same_storage b (snd (read_bits_single n b))"
  by (simp add: read_bits_single_def Let_def)

lemma same_storage_wbs: "same_storage b (snd (write_bits_single v n b))"
  by (simp add: write_bits_single_law) (simp add: same_storage_def)

lemma same_storage_wbs': "write_bits_single v n b = (r, b') \<Longrightarrow> same_storage b b'"
  by (metis same_storage_wbs snd_conv)

lemma same_storage_rbs': "read_bits_single n b = (r, b') \<Longrightarrow> same_storage b b'"
  by (metis same_storage_rbs snd_conv)

lemma mb_step_storage: "mb_step b b' \<Longrightarrow> wf_buf b \<Longrightarrow> same_storage b b'"
proof (induction rule: mb_step.induct)
  case (rbs b n)
  show ?case by (rule same_storage_rbs)
next
  case (wbs b v n)
  show ?case by (rule same_storage_wbs)
next
  case (wb b x)
  then show ?case by (simp add: write_bit_def) (simp add: same_storage_def)
next
  case (wblob n src b)
  then show ?case by (simp add: write_bits_law) (simp add: same_storage_def)
next
  case (rs b n)
  then show ?case
    by (auto simp: read_signed_def split: prod.splits option.splits
        intro: same_storage_trans dest!: same_storage_rbs')
next
  case (ws b v n)
  then show ?case
    by (auto simp: write_signed_def Let_def same_storage_wbs split: prod.splits bool.splits
        intro: same_storage_trans dest!: same_storage_wbs')
next
  case (rl b n)
  then show ?case
    by (auto simp: read_long_def split: prod.splits option.splits
        intro: same_storage_trans dest!: same_storage_rbs')
next
  case (wl b w n)
  then show ?case
    by (auto simp: write_long_def same_storage_wbs split: prod.splits bool.splits
        intro: same_storage_trans dest!: same_storage_wbs')
qed (auto simp: with_length_hack_def read_bit_def read_bits_def
    align_def Let_def set_current_bit_def same_storage_def)

lemma mb_reachable_wf: "mb_reachable sz b \<Longrightarrow> wf_buf b \<and> length (mb_data b) = sz"
proof (induction rule: mb_reachable.induct)
  case (step sz b b')
  then have "same_storage b b'" by (blast intro: mb_step_storage)
  with step show ?case by (auto simp: same_storage_def wf_buf_def)
qed (simp_all add: mb_new_def from_bytes_def from_bits_def wf_buf_def)

section \<open>Readers leave the bytes alone\<close>

definition reads_only :: "(mbuf \<Rightarrow> 'a \<times> mbuf) \<Rightarrow> bool" where
  "reads_only m \<longleftrightarrow>
     (\<forall>b. mb_data (snd (m b)) = mb_data b \<and> max_bit (snd (m b)) = max_bit b \<and>
          length_hack (snd (m b)) = length_hack b \<and> cur_bit b \<le> cur_bit (snd (m b)))"

lemma reads_only_rbs [reader_intro]: "reads_only (read_bits_single n)"
  by (simp add: reads_only_def read_bits_single_def Let_def)

lemma reads_only_rb [reader_intro]: "reads_only read_bit"
  by (simp add: reads_only_def read_bit_def)

lemma reads_only_blob [reader_intro]: "reads_only (read_bits d n)"
  by (simp add: reads_only_def read_bits_def)

lemma reads_only_ret [reader_intro]: "reads_only (ret x)"
  by (simp add: reads_only_def)

lemma reads_only_fail [reader_intro]: "reads_only fail"
  by (simp add: reads_only_def)

lemma reads_only_try [reader_intro]:
  assumes "reads_only m" "\<And>x. reads_only (k x)"
  shows "reads_only (try_read m k)"
  unfolding reads_only_def
proof
  fix b
  obtain r b1 where m: "m b = (r, b1)" by fastforce
  show "mb_data (snd (try_read m k b)) = mb_data b \<and> max_bit (snd (try_read m k b)) = max_bit b \<and>
      length_hack (snd (try_read m k b)) = length_hack b \<and> cur_bit b \<le> cur_bit (snd (try_read m k b))"
  proof (cases r)
    case None
    then show ?thesis using assms(1) m by (auto simp: reads_only_def try_read_def dest!: spec [of _ b])
  next
    case (Some x)
    have "mb_data b1 = mb_data b \<and> max_bit b1 = max_bit b \<and> length_hack b1 = length_hack b \<and>
        cur_bit b \<le> cur_bit b1"
      using assms(1) m by (auto simp: reads_only_def dest!: spec [of _ b])
    moreover have "try_read m k b = k x b1" using m Some by (simp add: try_read_def)
    ultimately show ?thesis using assms(2) [of x] by (auto simp: reads_only_def intro: le_trans)
  qed
qed

lemma reads_only_then [reader_intro]:
  assumes "reads_only m" "\<And>x. reads_only (k x)"
  shows "reads_only (then_read m k)"
  unfolding reads_only_def
proof
  fix b
  obtain x b1 where m: "m b = (x, b1)" by fastforce
  have "mb_data b1 = mb_data b \<and> max_bit b1 = max_bit b \<and> length_hack b1 = length_hack b \<and>
      cur_bit b \<le> cur_bit b1"
    using assms(1) m by (auto simp: reads_only_def dest!: spec [of _ b])
  moreover have "then_read m k b = k x b1" using m by (simp add: then_read_def)
  ultimately show "mb_data (snd (then_read m k b)) = mb_data b \<and>
      max_bit (snd (then_read m k b)) = max_bit b \<and>
      length_hack (snd (then_read m k b)) = length_hack b \<and> cur_bit b \<le> cur_bit (snd (then_read m k b))"
    using assms(2) [of x] by (auto simp: reads_only_def intro: le_trans)
qed

lemma reads_only_if [reader_intro]:
  "reads_only m \<Longrightarrow> reads_only k \<Longrightarrow> reads_only (if c then m else k)"
  by simp

lemma reads_only_D:
  assumes "reads_only m" "m b = (r, b')"
  shows "mb_data b' = mb_data b" "max_bit b' = max_bit b" "length_hack b' = length_hack b"
    "cur_bit b \<le> cur_bit b'"
  using assms by (metis reads_only_def snd_conv)+

lemma read_signed_alt:
  "read_signed len =
     (if len = 0 \<or> 32 < len then fail
      else try_read (read_bits_single 1) (\<lambda>sign.
           try_read (read_bits_single (len - 1)) (\<lambda>d. ret (sign + (d XOR (- sign))))))"
  by (rule ext) (simp add: read_signed_def try_read_def split: prod.splits option.splits)

lemma reads_only_signed [reader_intro]: "reads_only (read_signed n)"
  unfolding read_signed_alt by (intro reader_intro)

section \<open>Properties of the buffer\<close>

text \<open>Every buffer reachable from a constructor keeps its bound inside its storage, so a
  read that passes the bound check only touches bytes that exist: for each bit position below
  the bound, the byte index \<open>i / 8\<close> is in range.\<close>

theorem reachable_buffer_in_bounds:
  assumes "mb_reachable sz b" "fits n b" "i < n"
  shows "length (mb_data b) = sz \<and> (cur_bit b + i) div 8 < length (mb_data b)"
proof -
  have "wf_buf b" "length (mb_data b) = sz" using mb_reachable_wf [OF assms(1)] by auto
  moreover from this(1) assms(2,3) have "cur_bit b + i < 8 * length (mb_data b)"
    by (simp add: wf_buf_def fits_def)
  ultimately show ?thesis by (simp add: div_less_iff_less_mult mult.commute)
qed

theorem reachable_buffer_in_bounds_witness:
  "length (mb_data (snd (write_bits_single 5 3 (mb_new 2)))) = 2 \<and>
   (cur_bit (snd (write_bits_single 5 3 (mb_new 2))) + 4) div 8 <
     length (mb_data (snd (write_bits_single 5 3 (mb_new 2))))"
proof -
  have "mb_reachable 2 (snd (write_bits_single 5 3 (mb_new 2)))"
    by (rule mb_reachable.step [OF mb_reachable.new mb_step.wbs])
  moreover have "fits 5 (snd (write_bits_single 5 3 (mb_new 2)))"
    by (simp add: write_bits_single_law effective_len_def mb_new_def fits_def)
  ultimately show ?thesis
    using reachable_buffer_in_bounds [of 2 "snd (write_bits_single 5 3 (mb_new 2))" 5 4] by simp
qed

text \<open>Field round trip. A field that fits is appended most-significant-bit first behind
  what was already written, and reading the same width at the same position returns the value
  cut to the field's effective width (16 instead of 13 under the length hack) and leaves the
  cursor where the writer left it.\<close>

theorem uint_field_roundtrip:
  assumes "wf_buf b" "fits (effective_len b n) b"
  shows "\<exists>b'. write_bits_single v n b = (True, b') \<and>
    written b' = written b @ bits_be (effective_len b n) v \<and>
    read_bits_single n (set_current_bit (cur_bit b) b') =
      (Some (take_bit (effective_len b n) v), b')"
proof -
  let ?m = "effective_len b n"
  let ?b' = "append_bits (bits_be ?m v) b"
  have "fits ?m (set_current_bit (cur_bit b) ?b')" using assms(2) by (simp add: fits_def)
  moreover have "advance ?m (set_current_bit (cur_bit b) ?b') = ?b'"
    by (simp add: advance_def set_current_bit_def append_bits_def)
  ultimately have "read_bits_single n (set_current_bit (cur_bit b) ?b') = (Some (take_bit ?m v), ?b')"
    using assms by (simp add: read_bits_single_law unread_rewound)
  then show ?thesis using assms by (simp add: write_bits_single_law written_append)
qed

theorem uint_field_roundtrip_witness:
  "\<exists>b'. write_bits_single 0xFFFF 13 (with_length_hack True (mb_new 4)) = (True, b') \<and>
    written b' = written (with_length_hack True (mb_new 4)) @ bits_be 16 (0xFFFF :: u32) \<and>
    read_bits_single 13 (set_current_bit 0 b') = (Some 0xFFFF, b')"
  using uint_field_roundtrip [where b = "with_length_hack True (mb_new 4)" and n = 13 and v = "0xFFFF"]
  by (simp add: wf_buf_def fits_def effective_len_def with_length_hack_def mb_new_def)

text \<open>C40. Frame and failure behaviour. A write changes no bit outside its own window; a write
  that does not fit changes nothing at all, while a read that does not fit returns \<open>None\<close> and
  still advances the cursor, and a read never changes the stored bytes.\<close>

theorem write_frame_and_failure:
  assumes "wf_buf b"
  shows "(i < 8 * length (mb_data b) \<longrightarrow>
          i < cur_bit b \<or> cur_bit b + effective_len b n \<le> i \<longrightarrow>
          bits_of_bytes (mb_data (snd (write_bits_single v n b))) ! i =
          bits_of_bytes (mb_data b) ! i) \<and>
    (\<not> fits (effective_len b n) b \<longrightarrow>
       write_bits_single v n b = (False, b) \<and>
       read_bits_single n b = (None, advance (effective_len b n) b)) \<and>
    mb_data (snd (read_bits_single n b)) = mb_data b"
proof -
  have "bits_of_bytes (mb_data (append_bits (bits_be (effective_len b n) v) b)) ! i =
      bits_of_bytes (mb_data b) ! i"
    if "fits (effective_len b n) b" "i < 8 * length (mb_data b)"
      "i < cur_bit b \<or> cur_bit b + effective_len b n \<le> i"
    using that assms
    by (auto simp: append_bits_def bits_put_bools wf_buf_def fits_def nth_append)
  then show ?thesis using assms
    by (auto simp: write_bits_single_law read_bits_single_law)
qed

theorem write_frame_and_failure_witness:
  "bits_of_bytes (mb_data (snd (write_bits_single 1 4 (from_bytes [0xFF])))) ! 5 = True \<and>
   write_bits_single 0 9 (from_bytes [0xFF]) = (False, from_bytes [0xFF])"
proof -
  have w: "wf_buf (from_bytes [0xFF])" by (simp add: wf_buf_def from_bytes_def)
  have "bits_of_bytes [0xFF] ! 5 = True" by (simp add: nth_bits_be)
  then show ?thesis
    using write_frame_and_failure [OF w, where i = 5 and n = 4 and v = 1]
      write_frame_and_failure [OF w, where i = 5 and n = 9 and v = 0]
    by (simp add: from_bytes_def effective_len_def fits_def)
qed

text \<open>Blob copies. Within range, the byte-aligned \<open>copy_from_slice\<close> fast path and the
  per-bit loop of \<open>copy_bits\<close> compute the same bytes: the destination with exactly the window
  \<open>[dest_bit, dest_bit + length)\<close> replaced by the source window.\<close>

theorem copy_bits_window:
  assumes "sb + len \<le> 8 * length src" "db + len \<le> 8 * length dest"
  shows "bits_of_bytes (copy_bits dest src len db sb) =
      take db (bits_of_bytes dest) @ take len (drop sb (bits_of_bytes src)) @
      drop (db + len) (bits_of_bytes dest) \<and>
    copy_bits dest src len db sb =
      fold (\<lambda>i d. put_bit (db + i) (get_bit src (sb + i)) d) [0..<len] dest"
  using assms by (simp add: copy_bits_eq_put_bools bits_put_bools fold_copy_bit)

theorem copy_bits_window_witness:
  "bits_of_bytes (copy_bits [0, 0, 0] [0xDE, 0xAD] 8 8 8) =
      take 8 (bits_of_bytes [0, 0, 0]) @ take 8 (drop 8 (bits_of_bytes [0xDE, 0xAD])) @
      drop 16 (bits_of_bytes [0, 0, 0])"
  using copy_bits_window [where sb = 8 and len = 8 and db = 8 and src = "[0xDE, 0xAD]"
      and dest = "[0, 0, 0]", THEN conjunct1]
  by simp

lemma signed_payload_fits:
  fixes v :: u32
  assumes "- (2 ^ k) \<le> sint v" "sint v < 2 ^ k" "k \<le> m"
  shows "take_bit m (v XOR (if sint v < 0 then - 1 else 0)) = v XOR (if sint v < 0 then - 1 else 0)"
proof -
  let ?d = "if sint v < 0 then NOT v else v"
  have "0 \<le> sint ?d" "sint ?d < 2 ^ k" using assms by (auto simp: sint_not)
  then have "uint ?d < 2 ^ k" by (simp add: uint_sint_nonneg)
  also have "(2::int) ^ k \<le> 2 ^ m" using assms(3) by simp
  finally have "take_bit m ?d = ?d" by (simp only: take_bit_word_fits)
  moreover have "v XOR (if sint v < 0 then - 1 else 0) = ?d" by simp
  ultimately show ?thesis by (simp only:)
qed

text \<open>Signed fields are not symmetric. For every value that fits a signed field, what
  \<open>read_signed\<close> returns for the output of \<open>write_signed\<close> is the value itself when it is
  non-negative and the value plus one when it is negative, for every width from 2 to 32 bits and
  with or without the length hack.\<close>

theorem signed_field_asymmetry:
  fixes v :: u32
  assumes "wf_buf b" "2 \<le> n" "n \<le> 32" "fits (1 + effective_len b (n - 1)) b"
    and "- (2 ^ (n - 1)) \<le> sint v" "sint v < 2 ^ (n - 1)"
  shows "\<exists>b'. write_signed v n b = (True, b') \<and>
    read_signed n (set_current_bit (cur_bit b) b') =
      (Some (if sint v < 0 then v + 1 else v), b')"
proof -
  let ?h = "length_hack b"
  let ?s = "if sint v < 0 then 1 else 0 :: u32"
  let ?d = "v XOR (if sint v < 0 then - 1 else 0)"
  let ?m = "eff_width ?h (n - 1)"
  let ?xs = "bits_be 1 ?s" and ?ys = "bits_be ?m ?d"
  let ?b0 = "set_current_bit (cur_bit b) (append_bits (?xs @ ?ys) b)"
  have fit: "fits (1 + ?m) b" using assms(4) by (simp add: effective_len_eff_width)
  have w: "write_signed v n b = (True, append_bits (?xs @ ?ys) b)"
    using fit by (simp add: write_signed_def Let_def write_bits_single_law effective_len_eff_width fits_def)
  have u: "unread ?b0 = ?xs @ ?ys @ drop (1 + ?m) (unread b)"
    using assms(1) fit unread_rewound [of b "?xs @ ?ys"] by simp
  have v1: "valid_uint 1 ?h ?s" by (simp add: valid_uint_def take_bit_word_fits)
  have v2: "valid_uint (n - 1) ?h ?d"
    using assms(2,5,6) signed_payload_fits [of "n - 1" v ?m]
    by (auto simp: valid_uint_def eff_width_def)
  have r1: "read_bits_single 1 ?b0 = (Some ?s, advance 1 ?b0)"
    using uint_codec.get_law [of ?b0 1 ?s "?ys @ drop (1 + ?m) (unread b)"] u v1 assms(1) by simp
  have r2: "read_bits_single (n - 1) (advance 1 ?b0) = (Some ?d, advance ?m (advance 1 ?b0))"
    using uint_codec.get_law [of "advance 1 ?b0" "n - 1" ?d "drop (1 + ?m) (unread b)"] u v2 assms(1)
    by simp
  have "advance ?m (advance 1 ?b0) = append_bits (?xs @ ?ys) b"
    by (simp add: advance_def set_current_bit_def append_bits_def)
  moreover have "?s + (?d XOR - ?s) = (if sint v < 0 then v + 1 else v)"
    by (simp add: xor.assoc add.commute)
  moreover have "\<not> (n = 0 \<or> 32 < n)" using assms(2,3) by simp
  then have "read_signed n ?b0 = (Some (?s + (?d XOR - ?s)), advance ?m (advance 1 ?b0))"
    by (simp only: read_signed_def if_False r1 r2 prod.case option.case)
  ultimately show ?thesis by (simp only: w) blast
qed

theorem signed_field_asymmetry_witness:
  "\<exists>b'. write_signed (- 4096) 14 (mb_new 4) = (True, b') \<and>
    read_signed 14 (set_current_bit 0 b') = (Some (- 4095), b')"
  using signed_field_asymmetry [of "mb_new 4" 14 "- 4096"]
  by (simp add: wf_buf_def fits_def effective_len_def mb_new_def)

text \<open>Long fields: up to 64 bits, low word first on the wire. A value that fits the field
  survives \<open>write_long\<close> followed by \<open>read_long\<close> at the same position.\<close>

theorem long_field_roundtrip:
  assumes "wf_buf b" "valid_long n (length_hack b) v" "fits (length (enc_long n (length_hack b) v)) b"
  shows "\<exists>b'. write_long v n b = (True, b') \<and>
    written b' = written b @ enc_long n (length_hack b) v \<and>
    read_long n (set_current_bit (cur_bit b) b') = (Some v, b')"
  using assms by (rule long_codec.write_then_read)

theorem long_field_roundtrip_witness:
  "\<exists>b'. write_long 0x23456789ABCDEF 56 (mb_new 8) = (True, b') \<and>
    written b' = written (mb_new 8) @ enc_long 56 False 0x23456789ABCDEF \<and>
    read_long 56 (set_current_bit 0 b') = (Some 0x23456789ABCDEF, b')"
  using long_field_roundtrip [where b = "mb_new 8" and n = 56 and v = "0x23456789ABCDEF"]
  by (simp add: wf_buf_def fits_def mb_new_def valid_long_def enc_long_def take_bit_word_fits)

end
