(* ===== verification/Clone_Records.thy ===== *)
theory Clone_Records
  imports Bit_Buffer
begin

text \<open>
  The record layouts of the OneSync clone stream,
  \<open>crates/baston-protocol/src/rage/clone.rs\<close>: the 3-bit record tags, the entity types, the
  records a client uploads (\<open>read_inbound\<close>), the records the server sends
  (\<open>write_outbound_clone\<close>, \<open>write_outbound_remove\<close>, \<open>write_outbound_timestamp\<close>,
  \<open>write_end\<close>), the client's reader for them (\<open>read_downlink\<close>) and the compact ack
  records. The server's writers and the client's reader are shown to be a \<open>field_codec\<close>.
\<close>

section \<open>Record tags and entity types\<close>

definition rec_CREATE :: u32 where "rec_CREATE = 1"
definition rec_SYNC :: u32 where "rec_SYNC = 2"
definition rec_REMOVE :: u32 where "rec_REMOVE = 3"
definition rec_TAKEOVER :: u32 where "rec_TAKEOVER = 4"
definition rec_TIMESTAMP :: u32 where "rec_TIMESTAMP = 5"
definition rec_INDEX :: u32 where "rec_INDEX = 6"
definition rec_END :: u32 where "rec_END = 7"

lemmas rec_defs = rec_CREATE_def rec_SYNC_def rec_REMOVE_def rec_TAKEOVER_def rec_TIMESTAMP_def
  rec_INDEX_def rec_END_def

datatype net_obj_entity_type =
    Automobile | Bike | Boat | Door | Heli | Object | Ped | Pickup | PickupPlacement | Plane
  | Submarine | Player | Trailer | Train

fun entity_type_code :: "net_obj_entity_type \<Rightarrow> u8" where
  "entity_type_code Automobile = 0"
| "entity_type_code Bike = 1"
| "entity_type_code Boat = 2"
| "entity_type_code Door = 3"
| "entity_type_code Heli = 4"
| "entity_type_code Object = 5"
| "entity_type_code Ped = 6"
| "entity_type_code Pickup = 7"
| "entity_type_code PickupPlacement = 8"
| "entity_type_code Plane = 9"
| "entity_type_code Submarine = 10"
| "entity_type_code Player = 11"
| "entity_type_code Trailer = 12"
| "entity_type_code Train = 13"

definition ENTITY_TYPE_BITS :: nat where "ENTITY_TYPE_BITS = 4"

definition entity_type_ALL :: "net_obj_entity_type list" where
  "entity_type_ALL = [Automobile, Bike, Boat, Door, Heli, Object, Ped, Pickup, PickupPlacement,
     Plane, Submarine, Player, Trailer, Train]"

definition entity_type_from_u8 :: "u8 \<Rightarrow> net_obj_entity_type option" where
  "entity_type_from_u8 v =
     (if v = 0 then Some Automobile
      else if v = 1 then Some Bike
      else if v = 2 then Some Boat
      else if v = 3 then Some Door
      else if v = 4 then Some Heli
      else if v = 5 then Some Object
      else if v = 6 then Some Ped
      else if v = 7 then Some Pickup
      else if v = 8 then Some PickupPlacement
      else if v = 9 then Some Plane
      else if v = 10 then Some Submarine
      else if v = 11 then Some Player
      else if v = 12 then Some Trailer
      else if v = 13 then Some Train
      else None)"

fun is_vehicle :: "net_obj_entity_type \<Rightarrow> bool" where
  "is_vehicle Automobile = True"
| "is_vehicle Bike = True"
| "is_vehicle Boat = True"
| "is_vehicle Heli = True"
| "is_vehicle Plane = True"
| "is_vehicle Submarine = True"
| "is_vehicle Trailer = True"
| "is_vehicle Train = True"
| "is_vehicle _ = False"

section \<open>Uploads: client to server\<close>

datatype inbound_record =
    InClone bool u16 u16 "net_obj_entity_type option" u32 "u8 list"
      \<comment> \<open>is_create, object_id, uniqifier, entity_type, creation_token, data\<close>
  | InRemove u16 u16 \<comment> \<open>object_id, uniqifier\<close>
  | InTakeover u16 u16 \<comment> \<open>target_client, object_id\<close>
  | InTimestamp u32
  | InIndex u32

text \<open>\<open>let mut data = vec![0u8; length]; if length > 0 && !buf.read_bits(&mut data, length * 8)
  { return None; }\<close>, shared by both record readers.\<close>

definition read_data :: "nat \<Rightarrow> u8 list reader" where
  "read_data len b =
     (if 0 < len
      then (case read_bits (replicate len 0) (len * 8) b of
              ((False, _), b1) \<Rightarrow> (None, b1)
            | ((True, d), b1) \<Rightarrow> (Some d, b1))
      else (Some [], b))"

definition read_inbound :: "u32 \<Rightarrow> inbound_record reader" where
  "read_inbound ty =
     (if ty = rec_CREATE \<or> ty = rec_SYNC then
        (let is_create = (ty = rec_CREATE) in
         try_read (read_bits_single 16) (\<lambda>uniqifier.
         try_read (read_bits_single 13) (\<lambda>object_id.
         try_read (if is_create
                   then try_read (read_bits_single 32) (\<lambda>token.
                        try_read (read_bits_single ENTITY_TYPE_BITS) (\<lambda>ty_raw.
                        ret (entity_type_from_u8 (ucast ty_raw), token)))
                   else ret (None, 0)) (\<lambda>(entity_type, creation_token).
         try_read (read_bits_single 12) (\<lambda>len.
         try_read (read_data (unat len)) (\<lambda>data.
         ret (InClone is_create (ucast object_id) (ucast uniqifier) entity_type creation_token data)))))))
      else if ty = rec_REMOVE then
        try_read (read_bits_single 13) (\<lambda>object_id.
        try_read (read_bits_single 16) (\<lambda>uniqifier.
        ret (InRemove (ucast object_id) (ucast uniqifier))))
      else if ty = rec_TAKEOVER then
        try_read (read_bits_single 16) (\<lambda>target_client.
        try_read (read_bits_single 13) (\<lambda>object_id.
        ret (InTakeover (ucast target_client) (ucast object_id))))
      else if ty = rec_TIMESTAMP then try_read (read_bits_single 32) (\<lambda>t. ret (InTimestamp t))
      else if ty = rec_INDEX then try_read (read_bits_single 32) (\<lambda>i. ret (InIndex i))
      else fail)"

section \<open>Server to client\<close>

record outbound_clone =
  oc_sync_type :: u32
  oc_object_id :: u16
  oc_owner_net_id :: u16
  oc_entity_type :: "net_obj_entity_type option"
  oc_creation_token :: u32
  oc_uniqifier :: u16
  oc_dependent_frame_index :: u64
  oc_timestamp :: u32
  oc_first_frame_update :: bool
  oc_data :: "u8 list"

definition write_outbound_clone :: "outbound_clone \<Rightarrow> writer" where
  "write_outbound_clone c =
     and_write (write_bits_single (oc_sync_type c) 3)
    (and_write (write_bits_single (ucast (oc_object_id c)) 13)
    (and_write (write_bits_single (ucast (oc_owner_net_id c)) 16)
    (and_write
       (if oc_sync_type c = rec_CREATE
        then (let ety = (case oc_entity_type c of Some e \<Rightarrow> entity_type_code e | None \<Rightarrow> 0)
              in and_write (write_bits_single (ucast ety) ENTITY_TYPE_BITS)
                   (write_bits_single (oc_creation_token c) 32))
        else (\<lambda>b. (True, b)))
    (let uniq = (if oc_first_frame_update c then NOT (oc_uniqifier c) else oc_uniqifier c)
     in and_write (write_bits_single (ucast uniq) 16)
       (and_write (write_bits_single (ucast (drop_bit 32 (oc_dependent_frame_index c))) 32)
       (and_write (write_bits_single (ucast (oc_dependent_frame_index c)) 32)
       (and_write (write_bits_single (oc_timestamp c) 32)
       (and_write (write_bits_single (of_nat (length (oc_data c))) 12)
          (if oc_data c \<noteq> [] then write_bits (oc_data c) (length (oc_data c) * 8)
           else (\<lambda>b. (True, b)))))))))))"

datatype downlink_record =
    DlClone bool u16 u16 "net_obj_entity_type option" u32 u16 u64 u32 "u8 list"
      \<comment> \<open>is_create, object_id, owner_net_id, entity_type, creation_token, uniqifier,
          dependent_frame_index, timestamp, data\<close>
  | DlRemove bool u16 u16 \<comment> \<open>force_steal, object_id, uniqifier\<close>
  | DlTimestamp u64

definition read_downlink :: "u32 \<Rightarrow> downlink_record reader" where
  "read_downlink ty =
     (if ty = rec_CREATE \<or> ty = rec_SYNC then
        (let is_create = (ty = rec_CREATE) in
         try_read (read_bits_single 13) (\<lambda>object_id.
         try_read (read_bits_single 16) (\<lambda>owner_net_id.
         try_read (if is_create
                   then try_read (read_bits_single ENTITY_TYPE_BITS) (\<lambda>ety.
                        try_read (read_bits_single 32) (\<lambda>token.
                        ret (entity_type_from_u8 (ucast ety), token)))
                   else ret (None, 0)) (\<lambda>(entity_type, creation_token).
         try_read (read_bits_single 16) (\<lambda>uniqifier.
         try_read (read_bits_single 32) (\<lambda>hi.
         try_read (read_bits_single 32) (\<lambda>lo.
         try_read (read_bits_single 32) (\<lambda>timestamp.
         try_read (read_bits_single 12) (\<lambda>len.
         try_read (read_data (unat len)) (\<lambda>data.
         ret (DlClone is_create (ucast object_id) (ucast owner_net_id) entity_type creation_token
                (ucast uniqifier) (push_bit 32 (ucast hi) OR ucast lo) timestamp data)))))))))))
      else if ty = rec_REMOVE then
        then_read read_bit (\<lambda>force_steal.
        try_read (read_bits_single 13) (\<lambda>object_id.
        try_read (read_bits_single 16) (\<lambda>uniqifier.
        ret (DlRemove (force_steal \<noteq> 0) (ucast object_id) (ucast uniqifier)))))
      else if ty = rec_TIMESTAMP then
        try_read (read_bits_single 32) (\<lambda>lo.
        try_read (read_bits_single 32) (\<lambda>hi.
        ret (DlTimestamp (push_bit 32 (ucast hi) OR ucast lo))))
      else fail)"

definition write_outbound_remove :: "bool \<Rightarrow> u16 \<Rightarrow> u16 \<Rightarrow> writer" where
  "write_outbound_remove force_steal object_id uniqifier =
     and_write (write_bits_single rec_REMOVE 3)
    (and_write (write_bit force_steal)
    (and_write (write_bits_single (ucast object_id) 13)
       (write_bits_single (ucast uniqifier) 16)))"

definition write_outbound_timestamp :: "u64 \<Rightarrow> writer" where
  "write_outbound_timestamp timestamp =
     and_write (write_bits_single rec_TIMESTAMP 3)
    (and_write (write_bits_single (ucast timestamp) 32)
       (write_bits_single (ucast (drop_bit 32 timestamp)) 32))"

definition write_end :: writer where
  "write_end = write_bits_single rec_END 3"

section \<open>Acks\<close>

definition write_ack_record :: "u32 \<Rightarrow> u16 \<Rightarrow> u16 \<Rightarrow> writer" where
  "write_ack_record ty object_id uniqifier =
     and_write (write_bits_single ty 3)
    (and_write (write_bits_single (ucast object_id) 13)
       (write_bits_single (ucast uniqifier) 16))"

record ack_record =
  ack_ty :: u32
  ack_object_id :: u16
  ack_uniqifier :: u16

definition read_ack_record :: "u32 \<Rightarrow> ack_record reader" where
  "read_ack_record ty =
     (if ty = rec_CREATE \<or> ty = rec_SYNC \<or> ty = rec_REMOVE then
        try_read (read_bits_single 13) (\<lambda>object_id.
        try_read (read_bits_single 16) (\<lambda>uniqifier.
        ret \<lparr>ack_ty = ty, ack_object_id = ucast object_id, ack_uniqifier = ucast uniqifier\<rparr>))
      else fail)"

section \<open>The server's records and the client's view of them\<close>

datatype out_record =
    OutClone outbound_clone
  | OutRemove bool u16 u16
  | OutTimestamp u64

fun put_out :: "out_record \<Rightarrow> writer" where
  "put_out (OutClone c) = write_outbound_clone c"
| "put_out (OutRemove force_steal object_id uniqifier) =
     write_outbound_remove force_steal object_id uniqifier"
| "put_out (OutTimestamp t) = write_outbound_timestamp t"

definition get_downlink :: "downlink_record reader" where
  "get_downlink = try_read (read_bits_single 3) read_downlink"

abbreviation u32_bits :: "nat \<Rightarrow> u32 \<Rightarrow> bool list" where
  "u32_bits n v \<equiv> bits_be n v"

fun enc_out :: "bool \<Rightarrow> out_record \<Rightarrow> bool list" where
  "enc_out h (OutClone c) =
     u32_bits 3 (oc_sync_type c) @
     u32_bits (eff_width h 13) (ucast (oc_object_id c)) @
     u32_bits 16 (ucast (oc_owner_net_id c)) @
     (if oc_sync_type c = rec_CREATE
      then u32_bits 4 (ucast (case oc_entity_type c of Some e \<Rightarrow> entity_type_code e | None \<Rightarrow> 0)) @
           u32_bits 32 (oc_creation_token c)
      else []) @
     u32_bits 16 (ucast (if oc_first_frame_update c then NOT (oc_uniqifier c) else oc_uniqifier c)) @
     u32_bits 32 (ucast (drop_bit 32 (oc_dependent_frame_index c))) @
     u32_bits 32 (ucast (oc_dependent_frame_index c)) @
     u32_bits 32 (oc_timestamp c) @
     u32_bits 12 (of_nat (length (oc_data c))) @
     bits_of_bytes (oc_data c)"
| "enc_out h (OutRemove force_steal object_id uniqifier) =
     u32_bits 3 rec_REMOVE @ [force_steal] @ u32_bits (eff_width h 13) (ucast object_id) @
     u32_bits 16 (ucast uniqifier)"
| "enc_out h (OutTimestamp t) =
     u32_bits 3 rec_TIMESTAMP @ u32_bits 32 (ucast t) @ u32_bits 32 (ucast (drop_bit 32 t))"

text \<open>What the wire format can carry: a create or sync tag, an object id within the id field
  and a blob shorter than 4096 bytes.\<close>

definition id_fits :: "bool \<Rightarrow> u16 \<Rightarrow> bool" where
  "id_fits h i \<longleftrightarrow> h \<or> uint i < 8192"

fun valid_out :: "bool \<Rightarrow> out_record \<Rightarrow> bool" where
  "valid_out h (OutClone c) \<longleftrightarrow>
     (oc_sync_type c = rec_CREATE \<or> oc_sync_type c = rec_SYNC) \<and>
     id_fits h (oc_object_id c) \<and> length (oc_data c) < 4096"
| "valid_out h (OutRemove force_steal object_id uniqifier) \<longleftrightarrow> id_fits h object_id"
| "valid_out h (OutTimestamp t) \<longleftrightarrow> True"

fun view_out :: "out_record \<Rightarrow> downlink_record" where
  "view_out (OutClone c) =
     DlClone (oc_sync_type c = rec_CREATE) (oc_object_id c) (oc_owner_net_id c)
       (if oc_sync_type c = rec_CREATE
        then Some (case oc_entity_type c of Some e \<Rightarrow> e | None \<Rightarrow> Automobile) else None)
       (if oc_sync_type c = rec_CREATE then oc_creation_token c else 0)
       (if oc_first_frame_update c then NOT (oc_uniqifier c) else oc_uniqifier c)
       (oc_dependent_frame_index c) (oc_timestamp c) (oc_data c)"
| "view_out (OutRemove force_steal object_id uniqifier) = DlRemove force_steal object_id uniqifier"
| "view_out (OutTimestamp t) = DlTimestamp t"

subsection \<open>Field lemmas\<close>

lemma entity_type_roundtrip [simp]: "entity_type_from_u8 (entity_type_code e) = Some e"
  by (cases e) (simp_all add: entity_type_from_u8_def)

lemma entity_type_code_nibble: "take_bit 4 (ucast (entity_type_code e) :: u32) = ucast (entity_type_code e)"
  by (cases e) (simp_all add: take_bit_word_fits)

lemma ucast_8_32_8 [simp]: "ucast (ucast (w::u8) :: u32) = w"
  by (rule bit_word_eqI) (auto simp: bit_simps)

lemma entity_code_opt:
  "entity_type_from_u8 (ucast (take_bit 4 (ucast
      (case x of Some e \<Rightarrow> entity_type_code e | None \<Rightarrow> 0) :: u32))) =
    Some (case x of Some e \<Rightarrow> e | None \<Rightarrow> Automobile)"
  by (cases x) (simp_all add: entity_type_code_nibble entity_type_from_u8_def [of 0])

lemma ucast_take_16 [simp]: "ucast (take_bit 16 (ucast (w::u16) :: u32)) = w"
  by (rule bit_word_eqI) (auto simp: bit_simps)

lemma ucast_take_id:
  assumes "id_fits h w"
  shows "ucast (take_bit (eff_width h 13) (ucast w :: u32)) = w"
proof (cases h)
  case True
  then show ?thesis by (simp add: eff_width_def)
next
  case False
  with assms have "uint w < 2 ^ 13" by (simp add: id_fits_def)
  then have "take_bit 13 w = w" by (simp only: take_bit_word_fits)
  moreover have "ucast (take_bit 13 (ucast w :: u32)) = take_bit 13 w"
    by (rule bit_word_eqI) (auto simp: bit_simps)
  ultimately show ?thesis using False by simp
qed

lemma frame_words [simp]:
  "push_bit 32 (ucast (ucast (drop_bit 32 (v::u64)) :: u32)) OR ucast (ucast v :: u32) = v"
  by (rule bit_word_eqI) (auto simp: bit_simps)

subsection \<open>The codec\<close>

lemma emits_fixed: "n \<noteq> 13 \<Longrightarrow> emits h (write_bits_single v n) (u32_bits n v)"
  using emits_uint [of h v n] by simp

lemma parses_fixed:
  "n \<noteq> 13 \<Longrightarrow> 0 < n \<Longrightarrow> parses h (read_bits_single n) (u32_bits n v) (take_bit n v)"
  using parses_uint [of n h v] by simp

lemma parses_id: "parses h (read_bits_single 13) (u32_bits (eff_width h 13) v) (take_bit (eff_width h 13) v)"
  by (rule parses_uint) simp

lemma emits_create:
  "emits h (if c then and_write (write_bits_single e 4) (write_bits_single t 32) else (\<lambda>b. (True, b)))
     (if c then u32_bits 4 e @ u32_bits 32 t else [])"
  by (cases c; simp only: if_True if_False)
    (rule emits_and_write emits_skip | (rule emits_fixed; simp))+

lemma emits_data:
  "emits h (if d \<noteq> [] then write_bits d (length d * 8) else (\<lambda>b. (True, b))) (bits_of_bytes d)"
  using blob_codec.emits_put [of d "length d" h] by (auto simp: emits_skip)

lemma parses_data: "parses h (read_data (length d)) (bits_of_bytes d) d"
proof (cases "d = []")
  case True
  then show ?thesis by (simp add: parses_def read_data_def advance_def)
next
  case False
  have eq: "read_data (length d) b = read_blob (length d) b" for b
    using False by (simp add: read_data_def read_blob_def split: prod.splits bool.splits)
  have "parses h (read_blob (length d)) (bits_of_bytes d) d"
    using False blob_codec.parses_get [of d "length d" h] by simp
  then show ?thesis by (simp add: parses_def eq)
qed

lemma emits_out: "valid_out h r \<Longrightarrow> emits h (put_out r) (enc_out h r)"
proof (induction r)
  case (OutClone c)
  show ?case
    unfolding put_out.simps enc_out.simps write_outbound_clone_def Let_def ENTITY_TYPE_BITS_def
    by (rule emits_and_write emits_data emits_create | (rule emits_fixed; simp) | rule emits_uint)+
next
  case (OutRemove f i u)
  show ?case
    unfolding put_out.simps enc_out.simps write_outbound_remove_def
    using bit_codec.emits_put [of h f] emits_uint [of h rec_REMOVE 3]
      emits_uint [of h "ucast i" 13] emits_uint [of h "ucast u" 16]
    by (intro emits_and_write) simp_all
next
  case (OutTimestamp t)
  show ?case
    unfolding put_out.simps enc_out.simps write_outbound_timestamp_def
    using emits_uint [of h rec_TIMESTAMP 3] emits_uint [of h "ucast t" 32]
      emits_uint [of h "ucast (drop_bit 32 t)" 32]
    by (intro emits_and_write) simp_all
qed

lemma len_12:
  assumes "length d < 4096"
  shows "unat (take_bit 12 (of_nat (length d) :: u32)) = length d"
  using assms by (simp add: unsigned_take_bit_eq unsigned_of_nat take_bit_nat_eq_self)

lemma parses_tail:
  assumes "length d < 4096" "f d = v"
  shows "parses h (try_read (read_bits_single 12) (\<lambda>len. try_read (read_data (unat len)) (\<lambda>d. ret (f d))))
    (u32_bits 12 (of_nat (length d)) @ bits_of_bytes d) v"
proof (rule parses_try_read [OF parses_fixed])
  have "parses h (try_read (read_data (length d)) (\<lambda>d. ret (f d))) (bits_of_bytes d @ []) v"
    by (rule parses_try_read parses_data parses_ret assms(2))+
  then show "parses h (try_read (read_data (unat (take_bit 12 (of_nat (length d) :: u32)))) (\<lambda>d. ret (f d)))
      (bits_of_bytes d) v"
    using assms(1) by (simp add: len_12)
qed simp_all

lemma parses_creation:
  "parses h
     (if c then try_read (read_bits_single 4) (\<lambda>e. try_read (read_bits_single 32) (\<lambda>t. ret (f e, t)))
      else ret z)
     (if c then u32_bits 4 e @ u32_bits 32 t else [])
     (if c then (f (take_bit 4 e), t) else z)"
proof -
  have "parses h (try_read (read_bits_single 4) (\<lambda>e. try_read (read_bits_single 32) (\<lambda>t. ret (f e, t))))
      (u32_bits 4 e @ u32_bits 32 t @ []) (f (take_bit 4 e), take_bit 32 t)"
    by (rule parses_try_read parses_ret refl | (rule parses_fixed; simp))+
  then show ?thesis by (simp add: parses_ret)
qed

lemma parses_remove:
  assumes "id_fits h i"
  shows "parses h (read_downlink rec_REMOVE) ([s] @ u32_bits (eff_width h 13) (ucast i) @ u32_bits 16 (ucast u))
    (DlRemove s i u)"
proof -
  let ?k = "\<lambda>force_steal. try_read (read_bits_single 13) (\<lambda>object_id.
        try_read (read_bits_single 16) (\<lambda>uniqifier.
        ret (DlRemove ((force_steal :: u8) \<noteq> 0) (ucast object_id) (ucast uniqifier))))"
  have "parses h (?k (of_bool s)) (u32_bits (eff_width h 13) (ucast i) @ u32_bits 16 (ucast u) @ [])
      (DlRemove s i u)"
    by (rule parses_try_read parses_id parses_ret | (rule parses_fixed; simp))+
      (simp add: ucast_take_id [OF assms])
  then have k: "parses h (?k (of_bool s)) (u32_bits (eff_width h 13) (ucast i) @ u32_bits 16 (ucast u))
      (DlRemove s i u)" by (simp only: append_Nil2)
  have rb: "read_bit b = (of_bool s, advance (length [s]) b)" if "wf_buf b" "unread b = [s] @ r" for b r
    using that fits_prefix [of b "[s]" r] by (simp add: read_bit_law)
  have "read_downlink rec_REMOVE = then_read read_bit ?k"
    by (simp add: read_downlink_def rec_defs)
  then show ?thesis using parses_then_read [where m = read_bit and k = ?k, OF rb k] by simp
qed

lemma parses_timestamp:
  "parses h (read_downlink rec_TIMESTAMP) (u32_bits 32 (ucast t) @ u32_bits 32 (ucast (drop_bit 32 t)))
     (DlTimestamp t)"
proof -
  have "parses h (try_read (read_bits_single 32) (\<lambda>lo. try_read (read_bits_single 32) (\<lambda>hi.
        ret (DlTimestamp (push_bit 32 (ucast hi) OR ucast lo)))))
      (u32_bits 32 (ucast t) @ u32_bits 32 (ucast (drop_bit 32 t)) @ []) (DlTimestamp t)"
    by (rule parses_try_read parses_ret | (rule parses_fixed; simp))+ simp
  then show ?thesis by (simp add: read_downlink_def rec_defs)
qed

lemma parses_clone:
  assumes "valid_out h (OutClone c)"
  shows "parses h (read_downlink (oc_sync_type c)) (drop 3 (enc_out h (OutClone c))) (view_out (OutClone c))"
proof -
  let ?c = "oc_sync_type c = rec_CREATE"
  let ?e = "ucast (case oc_entity_type c of Some e \<Rightarrow> entity_type_code e | None \<Rightarrow> 0) :: u32"
  let ?u = "if oc_first_frame_update c then NOT (oc_uniqifier c) else oc_uniqifier c"
  let ?d = "oc_data c"
  have ty: "oc_sync_type c = rec_CREATE \<or> oc_sync_type c = rec_SYNC"
    and id: "id_fits h (oc_object_id c)" and len: "length ?d < 4096"
    using assms by auto
  have "parses h (read_downlink (oc_sync_type c))
     (u32_bits (eff_width h 13) (ucast (oc_object_id c)) @
      u32_bits 16 (ucast (oc_owner_net_id c)) @
      (if ?c then u32_bits 4 ?e @ u32_bits 32 (oc_creation_token c) else []) @
      u32_bits 16 (ucast ?u) @
      u32_bits 32 (ucast (drop_bit 32 (oc_dependent_frame_index c))) @
      u32_bits 32 (ucast (oc_dependent_frame_index c)) @
      u32_bits 32 (oc_timestamp c) @
      u32_bits 12 (of_nat (length ?d)) @ bits_of_bytes ?d)
     (view_out (OutClone c))"
    unfolding read_downlink_def Let_def if_P [OF ty] ENTITY_TYPE_BITS_def
    by (rule parses_try_read, rule parses_id,
        rule parses_try_read, rule parses_fixed, simp, simp,
        rule parses_try_read, rule parses_creation, unfold split_def,
        rule parses_try_read, rule parses_fixed, simp, simp,
        rule parses_try_read, rule parses_fixed, simp, simp,
        rule parses_try_read, rule parses_fixed, simp, simp,
        rule parses_try_read, rule parses_fixed, simp, simp,
        rule parses_tail [OF len])
      (simp add: ucast_take_id [OF id] entity_code_opt)
  then show ?thesis by simp
qed

lemma parses_out:
  assumes "valid_out h r"
  shows "parses h get_downlink (enc_out h r) (view_out r)"
proof (cases r)
  case (OutClone c)
  have "take_bit 3 (oc_sync_type c) = oc_sync_type c"
    using assms OutClone by (auto simp: rec_defs take_bit_word_fits)
  then have "parses h (read_bits_single 3) (u32_bits 3 (oc_sync_type c)) (oc_sync_type c)"
    using parses_fixed [of 3 h "oc_sync_type c"] by simp
  moreover have "parses h (read_downlink (oc_sync_type c)) (drop 3 (enc_out h r)) (view_out r)"
    using parses_clone assms OutClone by blast
  ultimately have "parses h get_downlink (u32_bits 3 (oc_sync_type c) @ drop 3 (enc_out h r)) (view_out r)"
    unfolding get_downlink_def by (rule parses_try_read)
  then show ?thesis using OutClone by simp
next
  case (OutRemove f i u)
  have "parses h (read_bits_single 3) (u32_bits 3 rec_REMOVE) rec_REMOVE"
    using parses_fixed [of 3 h rec_REMOVE] by (simp add: rec_defs)
  then show ?thesis using assms OutRemove parses_remove
    unfolding get_downlink_def by (auto intro: parses_try_read)
next
  case (OutTimestamp t)
  have "parses h (read_bits_single 3) (u32_bits 3 rec_TIMESTAMP) rec_TIMESTAMP"
    using parses_fixed [of 3 h rec_TIMESTAMP] by (simp add: rec_defs)
  then show ?thesis using OutTimestamp parses_timestamp
    unfolding get_downlink_def by (auto intro: parses_try_read)
qed

interpretation out_codec: field_codec put_out get_downlink enc_out valid_out view_out
proof
  fix b :: mbuf and a
  assume "wf_buf b" "valid_out (length_hack b) a" "fits (length (enc_out (length_hack b) a)) b"
  then show "put_out a b = (True, append_bits (enc_out (length_hack b) a) b)"
    by (intro emitsD [OF emits_out]) simp_all
next
  fix b :: mbuf and a r
  assume "wf_buf b" "valid_out (length_hack b) a" "unread b = enc_out (length_hack b) a @ r"
  then show "get_downlink b = (Some (view_out a), advance (length (enc_out (length_hack b) a)) b)"
    by (intro parsesD [OF parses_out]) simp_all
next
  fix h a
  show "enc_out h a \<noteq> []" by (cases a) (auto simp flip: length_greater_0_conv)
qed

section \<open>Acks are a codec\<close>

definition put_ack :: "ack_record \<Rightarrow> writer" where
  "put_ack a = write_ack_record (ack_ty a) (ack_object_id a) (ack_uniqifier a)"

definition get_ack :: "ack_record reader" where
  "get_ack = try_read (read_bits_single 3) read_ack_record"

definition enc_ack :: "bool \<Rightarrow> ack_record \<Rightarrow> bool list" where
  "enc_ack h a = u32_bits 3 (ack_ty a) @ u32_bits (eff_width h 13) (ucast (ack_object_id a)) @
     u32_bits 16 (ucast (ack_uniqifier a))"

definition valid_ack :: "bool \<Rightarrow> ack_record \<Rightarrow> bool" where
  "valid_ack h a \<longleftrightarrow> ack_ty a \<in> {rec_CREATE, rec_SYNC, rec_REMOVE} \<and> id_fits h (ack_object_id a)"

lemma emits_ack: "emits h (put_ack a) (enc_ack h a)"
  unfolding put_ack_def enc_ack_def write_ack_record_def
  by (rule emits_and_write | (rule emits_fixed; simp) | rule emits_uint)+

lemma parses_ack:
  assumes "valid_ack h a"
  shows "parses h get_ack (enc_ack h a) a"
proof -
  have tb: "take_bit 3 (ack_ty a) = ack_ty a"
    and ty: "ack_ty a = rec_CREATE \<or> ack_ty a = rec_SYNC \<or> ack_ty a = rec_REMOVE"
    and id: "id_fits h (ack_object_id a)"
    using assms by (auto simp: valid_ack_def rec_defs take_bit_word_fits)
  have "parses h (read_ack_record (ack_ty a))
      (u32_bits (eff_width h 13) (ucast (ack_object_id a)) @ u32_bits 16 (ucast (ack_uniqifier a)) @ []) a"
    unfolding read_ack_record_def if_P [OF ty]
    by (rule parses_try_read, rule parses_id, rule parses_try_read, rule parses_fixed, simp, simp,
        rule parses_ret) (simp add: ucast_take_id [OF id])
  moreover have "parses h (read_bits_single 3) (u32_bits 3 (ack_ty a)) (ack_ty a)"
    using parses_fixed [of 3 h "ack_ty a"] tb by simp
  ultimately show ?thesis unfolding get_ack_def enc_ack_def
    by (auto intro: parses_try_read)
qed

interpretation ack_codec: field_codec put_ack get_ack enc_ack valid_ack "\<lambda>a. a"
proof
  fix b :: mbuf and a
  assume "wf_buf b" "fits (length (enc_ack (length_hack b) a)) b"
  then show "put_ack a b = (True, append_bits (enc_ack (length_hack b) a) b)"
    by (intro emitsD [OF emits_ack]) simp_all
next
  fix b :: mbuf and a r
  assume "wf_buf b" "valid_ack (length_hack b) a" "unread b = enc_ack (length_hack b) a @ r"
  then show "get_ack b = (Some a, advance (length (enc_ack (length_hack b) a)) b)"
    by (intro parsesD [OF parses_ack]) simp_all
qed (auto simp: enc_ack_def simp flip: length_greater_0_conv)

section \<open>The upload layout\<close>

text \<open>The bit layout a client uploads: in a clone the uniqifier precedes the object id and the
  creation token precedes the entity type; in a removal the object id comes first.\<close>

fun enc_inbound :: "bool \<Rightarrow> inbound_record \<Rightarrow> bool list" where
  "enc_inbound h (InClone is_create object_id uniqifier entity_type token d) =
     u32_bits 3 (if is_create then rec_CREATE else rec_SYNC) @ u32_bits 16 (ucast uniqifier) @
     u32_bits (eff_width h 13) (ucast object_id) @
     (if is_create
      then u32_bits 32 token @
           u32_bits 4 (ucast (case entity_type of Some e \<Rightarrow> entity_type_code e | None \<Rightarrow> 15))
      else []) @
     u32_bits 12 (of_nat (length d)) @ bits_of_bytes d"
| "enc_inbound h (InRemove object_id uniqifier) =
     u32_bits 3 rec_REMOVE @ u32_bits (eff_width h 13) (ucast object_id) @ u32_bits 16 (ucast uniqifier)"
| "enc_inbound h (InTakeover target_client object_id) =
     u32_bits 3 rec_TAKEOVER @ u32_bits 16 (ucast target_client) @
     u32_bits (eff_width h 13) (ucast object_id)"
| "enc_inbound h (InTimestamp t) = u32_bits 3 rec_TIMESTAMP @ u32_bits 32 t"
| "enc_inbound h (InIndex i) = u32_bits 3 rec_INDEX @ u32_bits 32 i"

fun valid_inbound :: "bool \<Rightarrow> inbound_record \<Rightarrow> bool" where
  "valid_inbound h (InClone is_create object_id uniqifier entity_type token d) \<longleftrightarrow>
     id_fits h object_id \<and> length d < 4096 \<and> (\<not> is_create \<longrightarrow> entity_type = None \<and> token = 0)"
| "valid_inbound h (InRemove object_id uniqifier) \<longleftrightarrow> id_fits h object_id"
| "valid_inbound h (InTakeover target_client object_id) \<longleftrightarrow> id_fits h object_id"
| "valid_inbound h (InTimestamp t) \<longleftrightarrow> True"
| "valid_inbound h (InIndex i) \<longleftrightarrow> True"

definition get_inbound :: "inbound_record reader" where
  "get_inbound = try_read (read_bits_single 3) read_inbound"

lemma entity_code_opt_15:
  "entity_type_from_u8 (ucast (take_bit 4 (ucast
      (case x of Some e \<Rightarrow> entity_type_code e | None \<Rightarrow> 15) :: u32))) = x"
  by (cases x) (simp_all add: entity_type_code_nibble entity_type_from_u8_def [of 15])

lemma read_inbound_branches:
  "read_inbound rec_REMOVE =
     try_read (read_bits_single 13) (\<lambda>object_id.
     try_read (read_bits_single 16) (\<lambda>uniqifier. ret (InRemove (ucast object_id) (ucast uniqifier))))"
  "read_inbound rec_TAKEOVER =
     try_read (read_bits_single 16) (\<lambda>target_client.
     try_read (read_bits_single 13) (\<lambda>object_id. ret (InTakeover (ucast target_client) (ucast object_id))))"
  "read_inbound rec_TIMESTAMP = try_read (read_bits_single 32) (\<lambda>t. ret (InTimestamp t))"
  "read_inbound rec_INDEX = try_read (read_bits_single 32) (\<lambda>i. ret (InIndex i))"
  "read_inbound rec_END = fail"
  by (simp_all add: read_inbound_def rec_defs)

lemma parses_token:
  "parses h
     (if c then try_read (read_bits_single 32) (\<lambda>t. try_read (read_bits_single 4) (\<lambda>e. ret (f e, t)))
      else ret z)
     (if c then u32_bits 32 t @ u32_bits 4 e else [])
     (if c then (f (take_bit 4 e), t) else z)"
proof -
  have "parses h (try_read (read_bits_single 32) (\<lambda>t. try_read (read_bits_single 4) (\<lambda>e. ret (f e, t))))
      (u32_bits 32 t @ u32_bits 4 e @ []) (f (take_bit 4 e), take_bit 32 t)"
    by (rule parses_try_read parses_ret refl | (rule parses_fixed; simp))+
  then show ?thesis by (simp add: parses_ret)
qed

lemma parses_tag:
  assumes "take_bit 3 ty = ty" "parses h (k ty) ys y"
  shows "parses h (try_read (read_bits_single 3) k) (u32_bits 3 ty @ ys) y"
proof (rule parses_try_read)
  show "parses h (read_bits_single 3) (u32_bits 3 ty) ty"
    using parses_fixed [of 3 h ty] assms(1) by simp
qed (rule assms(2))

lemma parses_inbound_clone:
  assumes "valid_inbound h (InClone c i u e t d)"
  shows "parses h (read_inbound (if c then rec_CREATE else rec_SYNC))
    (drop 3 (enc_inbound h (InClone c i u e t d))) (InClone c i u e t d)"
proof -
  let ?ty = "if c then rec_CREATE else rec_SYNC"
  let ?e = "ucast (case e of Some e \<Rightarrow> entity_type_code e | None \<Rightarrow> 15) :: u32"
  have id: "id_fits h i" and len: "length d < 4096" and nc: "\<not> c \<Longrightarrow> e = None \<and> t = 0"
    using assms by auto
  have ty: "?ty = rec_CREATE \<or> ?ty = rec_SYNC" and cr: "(?ty = rec_CREATE) = c"
    by (auto simp: rec_defs)
  have "parses h (read_inbound ?ty)
     (u32_bits 16 (ucast u) @ u32_bits (eff_width h 13) (ucast i) @
      (if c then u32_bits 32 t @ u32_bits 4 ?e else []) @
      u32_bits 12 (of_nat (length d)) @ bits_of_bytes d)
     (InClone c i u e t d)"
    unfolding read_inbound_def if_P [OF ty] unfolding Let_def cr ENTITY_TYPE_BITS_def
    by (rule parses_try_read, rule parses_fixed, simp, simp,
        rule parses_try_read, rule parses_id,
        rule parses_try_read, rule parses_token, unfold split_def,
        rule parses_tail [OF len])
      (use nc in \<open>simp add: ucast_take_id [OF id] entity_code_opt_15\<close>)
  then show ?thesis by simp
qed

lemma parses_inbound:
  assumes "valid_inbound h r"
  shows "parses h get_inbound (enc_inbound h r) r"
proof (cases r)
  case (InClone c i u e t d)
  then show ?thesis
    using assms parses_inbound_clone [of h c i u e t d]
      parses_tag [of "if c then rec_CREATE else rec_SYNC" h read_inbound]
    by (simp add: get_inbound_def rec_defs take_bit_word_fits)
next
  case (InRemove i u)
  have "parses h (read_inbound rec_REMOVE)
      (u32_bits (eff_width h 13) (ucast i) @ u32_bits 16 (ucast u) @ []) (InRemove i u)"
    unfolding read_inbound_branches
    by (rule parses_try_read parses_id parses_ret | (rule parses_fixed; simp))+
      (use assms InRemove in \<open>simp add: ucast_take_id\<close>)
  then show ?thesis using InRemove by (simp add: get_inbound_def parses_tag rec_defs)
next
  case (InTakeover c i)
  have "parses h (read_inbound rec_TAKEOVER)
      (u32_bits 16 (ucast c) @ u32_bits (eff_width h 13) (ucast i) @ []) (InTakeover c i)"
    unfolding read_inbound_branches
    by (rule parses_try_read parses_id parses_ret | (rule parses_fixed; simp))+
      (use assms InTakeover in \<open>simp add: ucast_take_id\<close>)
  then show ?thesis using InTakeover by (simp add: get_inbound_def parses_tag rec_defs)
next
  case (InTimestamp t)
  have "parses h (read_inbound rec_TIMESTAMP) (u32_bits 32 t @ []) (InTimestamp t)"
    unfolding read_inbound_branches
    by (rule parses_try_read parses_ret | (rule parses_fixed; simp))+ simp
  then show ?thesis using InTimestamp by (simp add: get_inbound_def parses_tag rec_defs)
next
  case (InIndex t)
  have "parses h (read_inbound rec_INDEX) (u32_bits 32 t @ []) (InIndex t)"
    unfolding read_inbound_branches
    by (rule parses_try_read parses_ret | (rule parses_fixed; simp))+ simp
  then show ?thesis using InIndex by (simp add: get_inbound_def parses_tag rec_defs)
qed

section \<open>The record readers only move the cursor\<close>

lemma reads_only_data [reader_intro]: "reads_only (read_data n)"
  unfolding reads_only_def
proof
  fix b
  obtain ok d b1 where r: "read_bits (replicate n 0) (n * 8) b = ((ok, d), b1)"
    by (metis prod.exhaust)
  show "mb_data (snd (read_data n b)) = mb_data b \<and> max_bit (snd (read_data n b)) = max_bit b \<and>
      length_hack (snd (read_data n b)) = length_hack b \<and> cur_bit b \<le> cur_bit (snd (read_data n b))"
    using reads_only_D [OF reads_only_blob r] by (cases ok) (simp_all add: read_data_def r)
qed

lemma reads_only_split [reader_intro]:
  "(\<And>x y. reads_only (k x y)) \<Longrightarrow> reads_only (case p of (x, y) \<Rightarrow> k x y)"
  by (simp add: split_def)

lemma reads_only_inbound [reader_intro]: "reads_only (read_inbound ty)"
  unfolding read_inbound_def Let_def by (intro reader_intro)

lemma reads_only_downlink [reader_intro]: "reads_only (read_downlink ty)"
  unfolding read_downlink_def Let_def by (intro reader_intro)

lemma reads_only_ack [reader_intro]: "reads_only (read_ack_record ty)"
  unfolding read_ack_record_def by (intro reader_intro)

section \<open>Properties of the record codecs\<close>

text \<open>C30. Every record the server writes is read back by the client. For a create or sync clone
  (object id within the id field, blob shorter than 4096 bytes), a removal or a timestamp, in
  either id mode: the writer appends exactly the layout \<open>enc_out\<close> and the client's reader at
  the same position returns the record as the client sees it (the uniqifier inverted on a
  first-frame update, the entity type and token only on a create) and stops at the writer's
  cursor.\<close>

theorem downlink_record_roundtrip:
  assumes "wf_buf b" "valid_out (length_hack b) r" "fits (length (enc_out (length_hack b) r)) b"
  shows "\<exists>b'. put_out r b = (True, b') \<and> written b' = written b @ enc_out (length_hack b) r \<and>
    get_downlink (set_current_bit (cur_bit b) b') = (Some (view_out r), b')"
  using assms by (rule out_codec.write_then_read)

definition sample_create :: outbound_clone where
  "sample_create = \<lparr>oc_sync_type = 1, oc_object_id = 10, oc_owner_net_id = 4,
     oc_entity_type = Some Ped, oc_creation_token = 0xABCD, oc_uniqifier = 0x0F0F,
     oc_dependent_frame_index = 0xAABBBBCCCC, oc_timestamp = 0x1000,
     oc_first_frame_update = True, oc_data = [0x11, 0x22]\<rparr>"

theorem downlink_record_roundtrip_witness:
  "\<exists>b'. put_out (OutClone sample_create) (mb_new 64) = (True, b') \<and>
    written b' = written (mb_new 64) @ enc_out False (OutClone sample_create) \<and>
    get_downlink (set_current_bit 0 b') =
      (Some (DlClone True 10 4 (Some Ped) 0xABCD (NOT 0x0F0F) 0xAABBBBCCCC 0x1000 [0x11, 0x22]), b')"
  using downlink_record_roundtrip [where b = "mb_new 64" and r = "OutClone sample_create"]
  by (simp add: wf_buf_def fits_def mb_new_def sample_create_def id_fits_def rec_defs)

text \<open>The upload parser reads the documented layout. Wherever an upload record laid out in
  the client's field order (uniqifier before object id in a clone, object id first in a removal)
  stands at the cursor, \<open>read_inbound\<close> returns exactly that record and leaves the cursor on
  the bit after it, whatever follows; an entity type the enum does not know becomes \<open>None\<close>
  without disturbing the stream.\<close>

theorem upload_record_layout:
  assumes "wf_buf b" "valid_inbound (length_hack b) r" "unread b = enc_inbound (length_hack b) r @ rest"
  shows "get_inbound b = (Some r, advance (length (enc_inbound (length_hack b) r)) b) \<and>
    unread (snd (get_inbound b)) = rest"
  using parsesD [OF parses_inbound [OF assms(2)] assms(1) refl assms(3)] assms(3) by simp

theorem upload_record_layout_witness:
  "get_inbound (from_bytes [0x60, 0x02, 0xA6, 0x66]) =
     (Some (InRemove 2 0xA666), advance 32 (from_bytes [0x60, 0x02, 0xA6, 0x66])) \<and>
   unread (snd (get_inbound (from_bytes [0x60, 0x02, 0xA6, 0x66]))) = []"
proof -
  let ?b = "from_bytes [0x60, 0x02, 0xA6, 0x66]"
  have "unread ?b = enc_inbound False (InRemove 2 0xA666) @ []"
    by (simp add: unread_def from_bytes_def rec_defs bits_be_def upt_rec) 
  then show ?thesis
    using upload_record_layout [where b = ?b and r = "InRemove 2 0xA666" and rest = "[]"]
    by (simp add: wf_buf_def from_bytes_def id_fits_def)
qed

text \<open>Ack streams. Any list of create, sync and removal acks written one after the other with
  \<open>write_ack_record\<close> is read back, in order, by as many \<open>read_ack_record\<close> calls.\<close>

theorem ack_stream_roundtrip:
  assumes "wf_buf b" "\<forall>a\<in>set as. valid_ack (length_hack b) a"
    and "fits (length (concat (map (enc_ack (length_hack b)) as))) b"
  shows "\<exists>b'. put_all put_ack as b = (True, b') \<and>
    get_n get_ack (length as) (set_current_bit (cur_bit b) b') = (Some as, b')"
proof -
  let ?xs = "concat (map (enc_ack (length_hack b)) as)"
  let ?b' = "append_bits ?xs b"
  have "get_n get_ack (length as) (set_current_bit (cur_bit b) ?b') =
      (Some (map (\<lambda>a. a) as), advance (length ?xs) (set_current_bit (cur_bit b) ?b'))"
    using assms ack_codec.get_n_law [of "set_current_bit (cur_bit b) ?b'" as "drop (length ?xs) (unread b)"]
    by (simp add: unread_rewound)
  moreover have "advance (length ?xs) (set_current_bit (cur_bit b) ?b') = ?b'"
    by (simp add: advance_def set_current_bit_def append_bits_def)
  ultimately show ?thesis using assms ack_codec.put_all_law [of b as] by simp
qed

definition sample_acks :: "ack_record list" where
  "sample_acks = [\<lparr>ack_ty = 1, ack_object_id = 7, ack_uniqifier = 9\<rparr>,
     \<lparr>ack_ty = 3, ack_object_id = 8191, ack_uniqifier = 1\<rparr>]"

theorem ack_stream_roundtrip_witness:
  "\<exists>b'. put_all put_ack sample_acks (mb_new 8) = (True, b') \<and>
    get_n get_ack (length sample_acks) (set_current_bit 0 b') = (Some sample_acks, b')"
proof -
  have "wf_buf (mb_new 8)" and c: "cur_bit (mb_new 8) = 0"
    by (simp_all add: wf_buf_def mb_new_def)
  moreover have "\<forall>a\<in>set sample_acks. valid_ack (length_hack (mb_new 8)) a"
    by (simp add: sample_acks_def mb_new_def valid_ack_def id_fits_def rec_defs)
  moreover have "fits (length (concat (map (enc_ack (length_hack (mb_new 8))) sample_acks))) (mb_new 8)"
    by (simp add: sample_acks_def mb_new_def enc_ack_def fits_def)
  ultimately show ?thesis using ack_stream_roundtrip [of "mb_new 8" sample_acks] by (simp only: c)
qed

end
