(* ===== verification/Udp.thy ===== *)
theory Udp
  imports Prelude
begin

text \<open>
  The message layer of \<open>crates/baston-protocol/src/udp\<close>: the Jenkins one-at-a-time hash that
  names message types (\<open>mod.rs\<close>), the message-type prefix, and the little-endian payloads of
  \<open>msgIHost\<close>, \<open>msgRoute\<close> (\<open>route.rs\<close>) and the time synchronisation
  (\<open>time_sync.rs\<close>). Byte strings are lists of bytes; a slice that is too short makes the
  parsers return \<open>None\<close>.
\<close>

section \<open>Message types\<close>

definition hash_step :: "u32 \<Rightarrow> u8 \<Rightarrow> u32" where
  "hash_step hash byte =
     (let h1 = hash + ucast byte;
          h2 = h1 + push_bit 10 h1
      in h2 XOR drop_bit 6 h2)"

definition hash_bytes :: "u8 list \<Rightarrow> u32" where
  "hash_bytes bytes =
     (let h0 = foldl hash_step 0 bytes;
          h1 = h0 + push_bit 3 h0;
          h2 = h1 XOR drop_bit 11 h1
      in h2 + push_bit 15 h2)"

definition hash_rage_string :: "string \<Rightarrow> u32" where
  "hash_rage_string s = hash_bytes (map of_char s)"

definition MSG_CONNECT :: u32 where "MSG_CONNECT = 1"
definition MSG_TIME_SYNC_REQ :: u32 where "MSG_TIME_SYNC_REQ = hash_rage_string ''msgTimeSyncReq''"
definition MSG_TIME_SYNC :: u32 where "MSG_TIME_SYNC = hash_rage_string ''msgTimeSync''"
definition MSG_ROUTE :: u32 where "MSG_ROUTE = hash_rage_string ''msgRoute''"
definition MSG_NET_EVENT :: u32 where "MSG_NET_EVENT = hash_rage_string ''msgNetEvent''"
definition MSG_SERVER_EVENT :: u32 where "MSG_SERVER_EVENT = hash_rage_string ''msgServerEvent''"
definition MSG_I_QUIT :: u32 where "MSG_I_QUIT = hash_rage_string ''msgIQuit''"
definition MSG_I_HOST :: u32 where "MSG_I_HOST = hash_rage_string ''msgIHost''"

definition parse_i_host :: "u8 list \<Rightarrow> u32 option" where
  "parse_i_host payload = (if 4 \<le> length payload then Some (from_le_bytes (take 4 payload)) else None)"

definition build_server_i_host :: "u16 \<Rightarrow> u32 \<Rightarrow> u8 list" where
  "build_server_i_host net_id base_num =
     to_le_bytes 4 MSG_I_HOST @ to_le_bytes 2 net_id @ to_le_bytes 4 base_num"

definition read_message_type :: "u8 list \<Rightarrow> (u32 \<times> u8 list) option" where
  "read_message_type d = (if length d < 4 then None else Some (from_le_bytes (take 4 d), drop 4 d))"

section \<open>Routing\<close>

record client_route =
  target_net_id :: u16
  route_data :: "u8 list"

definition parse_client_route :: "u8 list \<Rightarrow> client_route option" where
  "parse_client_route payload =
     (if length payload < 4 then None
      else Some \<lparr>target_net_id = from_le_bytes (take 2 payload), route_data = drop 4 payload\<rparr>)"

definition build_server_route :: "u16 \<Rightarrow> u8 list \<Rightarrow> u8 list" where
  "build_server_route sender_net_id d =
     to_le_bytes 4 MSG_ROUTE @ to_le_bytes 2 sender_net_id @
     to_le_bytes 2 (of_nat (length d) :: u16) @ d"

section \<open>Time synchronisation\<close>

record time_sync_request =
  request_time :: u32
  request_sequence :: u32

definition parse_time_sync_request :: "u8 list \<Rightarrow> time_sync_request option" where
  "parse_time_sync_request payload =
     (if length payload < 8 then None
      else Some \<lparr>request_time = from_le_bytes (take 4 payload),
                 request_sequence = from_le_bytes (take 4 (drop 4 payload))\<rparr>)"

definition build_time_sync_response :: "time_sync_request \<Rightarrow> u64 \<Rightarrow> u8 list" where
  "build_time_sync_response request server_time_ms =
     to_le_bytes 4 MSG_TIME_SYNC @ to_le_bytes 4 (request_time request) @
     to_le_bytes 4 (request_sequence request) @
     to_le_bytes 4 (ucast (server_time_ms AND 0xFFFFFFFF) :: u32)"

definition build_time_sync_request :: "time_sync_request \<Rightarrow> u8 list" where
  "build_time_sync_request request =
     to_le_bytes 4 MSG_TIME_SYNC_REQ @ to_le_bytes 4 (request_time request) @
     to_le_bytes 4 (request_sequence request)"

section \<open>Properties\<close>

lemma read_type_prefix [simp]: "read_message_type (to_le_bytes 4 ty @ payload) = Some (ty, payload)"
  by (simp add: read_message_type_def)

text \<open>Routing keeps the payload. A relayed packet, once its message type is stripped, parses
  to the sender's net id and exactly the relayed bytes, for payloads of any length (the 16-bit
  length field wraps but is not used by the parser); payloads shorter than the header are
  refused.\<close>

theorem route_relay_roundtrip:
  "(\<exists>payload. read_message_type (build_server_route sender d) = Some (MSG_ROUTE, payload) \<and>
      parse_client_route payload = Some \<lparr>target_net_id = sender, route_data = d\<rparr>) \<and>
   (parse_client_route p = None \<longleftrightarrow> length p < 4)"
  by (simp add: build_server_route_def parse_client_route_def)

text \<open>Time synchronisation. A request packet parses back to the request; the response echoes
  the request's time and sequence number and carries the server clock modulo \<open>2\<^sup>32\<close>.\<close>

theorem time_sync_roundtrip:
  "(\<exists>payload. read_message_type (build_time_sync_request q) = Some (MSG_TIME_SYNC_REQ, payload) \<and>
      parse_time_sync_request payload = Some q) \<and>
   read_message_type (build_time_sync_response q t) =
     Some (MSG_TIME_SYNC, to_le_bytes 4 (request_time q) @ to_le_bytes 4 (request_sequence q) @
       to_le_bytes 4 (ucast (t AND 0xFFFFFFFF) :: u32)) \<and>
   unat (from_le_bytes (drop 12 (build_time_sync_response q t)) :: u32) = unat t mod 2 ^ 32"
proof -
  have "t AND 0xFFFFFFFF = take_bit 32 t" by (simp add: take_bit_eq_mask mask_eq_exp_minus_1)
  then have "(ucast (t AND 0xFFFFFFFF) :: u32) = ucast t"
    by (simp only:) (rule bit_word_eqI, auto simp: bit_simps)
  then have "unat (ucast (t AND 0xFFFFFFFF) :: u32) = unat t mod 2 ^ 32"
    by (simp add: unsigned_ucast_eq take_bit_eq_mod)
  then show ?thesis
    by (simp add: build_time_sync_request_def parse_time_sync_request_def build_time_sync_response_def)
qed

end
