(* ===== verification/Packed_Stream.thy ===== *)
theory Packed_Stream
  imports Clone_Records Udp
begin

text \<open>
  Packet framing of the clone and ack streams, \<open>crates/baston-protocol/src/rage/packet.rs\<close>,
  over the LZ4 wrappers of \<open>lz4dict.rs\<close>: the frame identifier bit field, the decoders of
  uploads and of server packets, and the \<open>PackedWriter\<close> that batches records into
  fragments. The LZ4 library itself is a parameter: a record of its raw entry points, each
  returning the C return code and the contents of the output buffer. \<open>lz4_spec\<close> states the
  documented contract of the plain block functions.
\<close>

section \<open>Frame identifiers\<close>

record frame_id =
  last_fragment :: bool
  current_fragment :: u8
  frame_index :: u64

definition frame_to_u64 :: "frame_id \<Rightarrow> u64" where
  "frame_to_u64 f =
     of_bool (last_fragment f) OR
     push_bit 1 (ucast (current_fragment f) AND 0x7F) OR
     push_bit 8 (frame_index f AND mask 56)"

definition frame_from_u64 :: "u64 \<Rightarrow> frame_id" where
  "frame_from_u64 v =
     \<lparr>last_fragment = (v AND 1 \<noteq> 0),
      current_fragment = ucast (drop_bit 1 v AND 0x7F),
      frame_index = drop_bit 8 v AND mask 56\<rparr>"

section \<open>The LZ4 wrappers\<close>

record lz4_api =
  LZ4_compressBound :: "nat \<Rightarrow> int"
  LZ4_compress_default :: "u8 list \<Rightarrow> nat \<Rightarrow> int \<times> u8 list"
  LZ4_decompress_safe :: "u8 list \<Rightarrow> nat \<Rightarrow> int \<times> u8 list"
  LZ4_decompress_dict :: "u8 list \<Rightarrow> nat \<Rightarrow> int \<times> u8 list"
    \<comment> \<open>\<open>LZ4_decompress_safe_continue\<close> on a stream primed with the shared dictionary;
        a failed stream creation or priming is reported as \<open>- 1\<close>\<close>

definition decompress_using_dict :: "lz4_api \<Rightarrow> u8 list \<Rightarrow> nat \<Rightarrow> u8 list option" where
  "decompress_using_dict lz input max_out =
     (case LZ4_decompress_dict lz input max_out of
        (len, out) \<Rightarrow> if len \<le> 0 then None else Some (take (nat len) out))"

definition decompress_plain :: "lz4_api \<Rightarrow> u8 list \<Rightarrow> nat \<Rightarrow> u8 list option" where
  "decompress_plain lz input max_out =
     (case LZ4_decompress_safe lz input max_out of
        (len, out) \<Rightarrow> if len \<le> 0 then None else Some (take (nat len) out))"

definition compress_default :: "lz4_api \<Rightarrow> u8 list \<Rightarrow> u8 list" where
  "compress_default lz input =
     (let bound = LZ4_compressBound lz (length input)
      in case LZ4_compress_default lz input (nat (max bound 1)) of
           (len, out) \<Rightarrow> take (nat (max len 0)) out)"

text \<open>LZ4's documented contract: given at least \<open>LZ4_compressBound\<close> bytes of room, compression
  succeeds, and decompressing its output into enough room returns the number of original bytes
  and the bytes themselves.\<close>

definition lz4_spec :: "lz4_api \<Rightarrow> bool" where
  "lz4_spec lz \<longleftrightarrow>
     (\<forall>src cap room len out. src \<noteq> [] \<longrightarrow> LZ4_compressBound lz (length src) \<le> int cap \<longrightarrow>
        length src \<le> room \<longrightarrow> LZ4_compress_default lz src cap = (len, out) \<longrightarrow>
        0 < len \<and>
        fst (LZ4_decompress_safe lz (take (nat len) out) room) = int (length src) \<and>
        take (length src) (snd (LZ4_decompress_safe lz (take (nat len) out) room)) = src)"

lemma decompress_compress:
  assumes "lz4_spec lz" "body \<noteq> []" "length body \<le> room"
  shows "decompress_plain lz (compress_default lz body) room = Some body"
proof -
  let ?cap = "nat (max (LZ4_compressBound lz (length body)) 1)"
  have cap: "LZ4_compressBound lz (length body) \<le> int ?cap" by linarith
  obtain len out where c: "LZ4_compress_default lz body ?cap = (len, out)" by fastforce
  obtain n r where d: "LZ4_decompress_safe lz (take (nat len) out) room = (n, r)" by fastforce
  have "0 < len" "n = int (length body)" "take (length body) r = body"
    using assms(1) [unfolded lz4_spec_def, rule_format, OF assms(2) cap assms(3) c] d by auto
  with c d assms(2) show ?thesis
    by (simp add: decompress_plain_def compress_default_def Let_def)
qed

section \<open>Decoding packets\<close>

definition NET_CLONES :: u32 where "NET_CLONES = hash_rage_string ''netClones''"
definition NET_ACKS :: u32 where "NET_ACKS = hash_rage_string ''netAcks''"
definition MSG_PACKED_CLONES :: u32 where "MSG_PACKED_CLONES = hash_rage_string ''msgPackedClones''"
definition MSG_PACKED_ACKS :: u32 where "MSG_PACKED_ACKS = hash_rage_string ''msgPackedAcks''"

definition INBOUND_SCRATCH :: nat where "INBOUND_SCRATCH = 16384"
definition FLUSH_BUDGET_BYTES :: nat where "FLUSH_BUDGET_BYTES = 1100 - 12 - 12"
definition WORK_BUF_BYTES :: nat where "WORK_BUF_BYTES = 16384"

lemma record_progress:
  assumes "\<not> is_at_end b" "(Some ty, b1) = read_bits_single 3 b" "reads_only m" "(r, b2) = m b1"
  shows "max_bit b2 - cur_bit b2 < max_bit b - cur_bit b"
proof -
  have "cur_bit b1 = cur_bit b + effective_len b 3" "max_bit b1 = max_bit b"
    using assms(2) by (auto simp: read_bits_single_def Let_def split: if_splits)
  moreover have "cur_bit b1 \<le> cur_bit b2" "max_bit b2 = max_bit b1"
    using reads_only_D [OF assms(3) assms(4) [symmetric]] by auto
  ultimately show ?thesis using assms(1) by (simp add: is_at_end_def effective_len_def)
qed

text \<open>The two record loops: read a 3-bit tag, then the record; stop at the end of the buffer, at
  \<open>END\<close> or at the first record that does not parse.\<close>

function inbound_records :: "mbuf \<Rightarrow> inbound_record list" where
  "inbound_records b =
     (if is_at_end b then []
      else case read_bits_single 3 b of
             (None, b1) \<Rightarrow> []
           | (Some ty, b1) \<Rightarrow>
               (case read_inbound ty b1 of
                  (None, b2) \<Rightarrow> []
                | (Some r, b2) \<Rightarrow> r # inbound_records b2))"
  by pat_completeness auto
termination
  by (relation "measure (\<lambda>b. max_bit b - cur_bit b)")
    (auto intro: record_progress [OF _ _ reads_only_inbound])

function downlink_records :: "mbuf \<Rightarrow> downlink_record list" where
  "downlink_records b =
     (if is_at_end b then []
      else case read_bits_single 3 b of
             (None, b1) \<Rightarrow> []
           | (Some ty, b1) \<Rightarrow>
               (case read_downlink ty b1 of
                  (None, b2) \<Rightarrow> []
                | (Some r, b2) \<Rightarrow> r # downlink_records b2))"
  by pat_completeness auto
termination
  by (relation "measure (\<lambda>b. max_bit b - cur_bit b)")
    (auto intro: record_progress [OF _ _ reads_only_downlink])

declare inbound_records.simps [simp del] downlink_records.simps [simp del]

record incoming_packet =
  ip_msg_type :: u32
  ip_records :: "inbound_record list"

definition decode_incoming :: "lz4_api \<Rightarrow> u8 list \<Rightarrow> bool \<Rightarrow> incoming_packet option" where
  "decode_incoming lz payload hack =
     (if length payload < 4 then None
      else let msg_type = from_le_bytes (take 4 payload)
           in if msg_type \<noteq> NET_CLONES \<and> msg_type \<noteq> NET_ACKS then None
              else case decompress_using_dict lz (drop 4 payload) INBOUND_SCRATCH of
                     None \<Rightarrow> None
                   | Some body \<Rightarrow>
                       Some \<lparr>ip_msg_type = msg_type,
                             ip_records = inbound_records (with_length_hack hack (from_bytes body))\<rparr>)"

record downlink_packet =
  dp_msg_type :: u32
  dp_frame :: frame_id
  dp_records :: "downlink_record list"

definition decode_downlink :: "lz4_api \<Rightarrow> u8 list \<Rightarrow> downlink_packet option" where
  "decode_downlink lz packet =
     (if length packet < 12 then None
      else let msg_type = from_le_bytes (take 4 packet);
               frame = frame_from_u64 (from_le_bytes (take 8 (drop 4 packet)))
           in case decompress_plain lz (drop 12 packet) INBOUND_SCRATCH of
                None \<Rightarrow> None
              | Some body \<Rightarrow>
                  Some \<lparr>dp_msg_type = msg_type, dp_frame = frame,
                        dp_records = downlink_records (from_bytes body)\<rparr>)"

definition pack_frame :: "lz4_api \<Rightarrow> u32 \<Rightarrow> frame_id \<Rightarrow> u8 list \<Rightarrow> u8 list" where
  "pack_frame lz msg_type frame body =
     to_le_bytes 4 msg_type @ to_le_bytes 8 (frame_to_u64 frame) @ compress_default lz body"

section \<open>The fragmenting writer\<close>

record packed_writer =
  pw_msg_type :: u32
  pw_frame_index :: u64
  pw_buf :: mbuf
  pw_fragment :: u8
  pw_packets :: "u8 list list"
  pw_had_time :: bool
  pw_length_hack :: bool

definition pw_new :: "u32 \<Rightarrow> u64 \<Rightarrow> bool \<Rightarrow> packed_writer" where
  "pw_new msg_type fi hack =
     \<lparr>pw_msg_type = msg_type, pw_frame_index = fi,
      pw_buf = with_length_hack hack (mb_new WORK_BUF_BYTES), pw_fragment = 0,
      pw_packets = [], pw_had_time = False, pw_length_hack = hack\<rparr>"

definition flush_fragment :: "lz4_api \<Rightarrow> packed_writer \<Rightarrow> packed_writer" where
  "flush_fragment lz w =
     (if data_length (pw_buf w) = 0 then w
      else let b = snd (write_end (pw_buf w));
               raw = take (data_length b) (mb_data b);
               fragment = pw_fragment w + 1;
               frame = \<lparr>last_fragment = False, current_fragment = fragment AND 0x7F,
                        frame_index = pw_frame_index w\<rparr>
           in w\<lparr>pw_fragment := fragment,
                pw_packets := pw_packets w @ [pack_frame lz (pw_msg_type w) frame raw],
                pw_buf := with_length_hack (pw_length_hack w) (mb_new WORK_BUF_BYTES),
                pw_had_time := False\<rparr>)"

definition maybe_flush :: "lz4_api \<Rightarrow> nat \<Rightarrow> packed_writer \<Rightarrow> packed_writer" where
  "maybe_flush lz next_bits w =
     (let projected = data_length (pw_buf w) + (next_bits + 7) div 8;
          bound = projected + projected div 255 + 16
      in if FLUSH_BUDGET_BYTES < bound then flush_fragment lz w else w)"

definition ensure_timestamp :: "lz4_api \<Rightarrow> u64 \<Rightarrow> packed_writer \<Rightarrow> packed_writer" where
  "ensure_timestamp lz timestamp w =
     (if \<not> pw_had_time w
      then let w1 = maybe_flush lz (3 + 32 + 32) w
           in w1\<lparr>pw_buf := snd (write_outbound_timestamp timestamp (pw_buf w1)), pw_had_time := True\<rparr>
      else w)"

definition write_clone :: "lz4_api \<Rightarrow> u64 \<Rightarrow> outbound_clone \<Rightarrow> packed_writer \<Rightarrow> packed_writer" where
  "write_clone lz timestamp c w =
     (let w1 = ensure_timestamp lz timestamp w;
          bits = 3 + 16 + 16 + 4 + 32 + 16 + 64 + 32 + 12 + length (oc_data c) * 8;
          w2 = maybe_flush lz bits w1
      in w2\<lparr>pw_buf := snd (write_outbound_clone c (pw_buf w2))\<rparr>)"

definition write_remove :: "lz4_api \<Rightarrow> bool \<Rightarrow> u16 \<Rightarrow> u16 \<Rightarrow> packed_writer \<Rightarrow> packed_writer" where
  "write_remove lz force_steal object_id uniqifier w =
     (let w1 = maybe_flush lz (3 + 1 + 16 + 16) w
      in w1\<lparr>pw_buf := snd (write_outbound_remove force_steal object_id uniqifier (pw_buf w1))\<rparr>)"

definition pw_finish :: "lz4_api \<Rightarrow> packed_writer \<Rightarrow> u8 list list" where
  "pw_finish lz w =
     (let b = snd (write_end (pw_buf w));
          raw = take (data_length b) (mb_data b);
          fragment = pw_fragment w + 1;
          frame = \<lparr>last_fragment = True, current_fragment = fragment AND 0x7F,
                   frame_index = pw_frame_index w\<rparr>
      in pw_packets w @ [pack_frame lz (pw_msg_type w) frame raw])"

section \<open>Abstract batches\<close>

text \<open>What the writer promises: a sequence of batches of records. \<open>batches\<close> holds the flushed
  ones and the current one; the concrete writer is a function of it.\<close>

record batches =
  bt_done :: "out_record list list"
  bt_cur :: "out_record list"
  bt_time :: bool

definition bt_empty :: batches where
  "bt_empty = \<lparr>bt_done = [], bt_cur = [], bt_time = False\<rparr>"

definition rec_bits :: "bool \<Rightarrow> out_record list \<Rightarrow> bool list" where
  "rec_bits h rs = concat (map (enc_out h) rs)"

definition bytes_for :: "nat \<Rightarrow> nat" where
  "bytes_for n = n div 8 + (if n mod 8 = 0 then 0 else 1)"

definition bt_flush :: "batches \<Rightarrow> batches" where
  "bt_flush s = (if bt_cur s = [] then s
     else \<lparr>bt_done = bt_done s @ [bt_cur s], bt_cur = [], bt_time = False\<rparr>)"

definition bt_maybe_flush :: "bool \<Rightarrow> nat \<Rightarrow> batches \<Rightarrow> batches" where
  "bt_maybe_flush h next_bits s =
     (let projected = bytes_for (length (rec_bits h (bt_cur s))) + (next_bits + 7) div 8
      in if FLUSH_BUDGET_BYTES < projected + projected div 255 + 16 then bt_flush s else s)"

definition bt_push :: "out_record \<Rightarrow> batches \<Rightarrow> batches" where
  "bt_push r s = s\<lparr>bt_cur := bt_cur s @ [r]\<rparr>"

definition bt_ensure_timestamp :: "bool \<Rightarrow> u64 \<Rightarrow> batches \<Rightarrow> batches" where
  "bt_ensure_timestamp h t s =
     (if bt_time s then s else (bt_push (OutTimestamp t) (bt_maybe_flush h 67 s))\<lparr>bt_time := True\<rparr>)"

definition bt_write_clone :: "bool \<Rightarrow> u64 \<Rightarrow> outbound_clone \<Rightarrow> batches \<Rightarrow> batches" where
  "bt_write_clone h t c s =
     bt_push (OutClone c) (bt_maybe_flush h (195 + length (oc_data c) * 8) (bt_ensure_timestamp h t s))"

definition bt_write_remove :: "bool \<Rightarrow> bool \<Rightarrow> u16 \<Rightarrow> u16 \<Rightarrow> batches \<Rightarrow> batches" where
  "bt_write_remove h f i u s = bt_push (OutRemove f i u) (bt_maybe_flush h 36 s)"

definition bt_all :: "batches \<Rightarrow> out_record list list" where
  "bt_all s = bt_done s @ [bt_cur s]"

subsection \<open>The concrete writer of an abstract state\<close>

definition fresh_buf :: "bool \<Rightarrow> mbuf" where
  "fresh_buf h = with_length_hack h (mb_new WORK_BUF_BYTES)"

definition batch_buf :: "bool \<Rightarrow> out_record list \<Rightarrow> mbuf" where
  "batch_buf h rs = append_bits (rec_bits h rs) (fresh_buf h)"

definition batch_body :: "bool \<Rightarrow> out_record list \<Rightarrow> u8 list" where
  "batch_body h rs =
     (let b = append_bits (rec_bits h rs @ u32_bits 3 rec_END) (fresh_buf h)
      in take (data_length b) (mb_data b))"

definition frag_frame :: "u64 \<Rightarrow> bool \<Rightarrow> nat \<Rightarrow> frame_id" where
  "frag_frame fi lst i =
     \<lparr>last_fragment = lst, current_fragment = of_nat (Suc i) AND 0x7F, frame_index = fi\<rparr>"

definition frag_packet :: "lz4_api \<Rightarrow> u32 \<Rightarrow> u64 \<Rightarrow> bool \<Rightarrow> bool \<Rightarrow> nat \<times> out_record list \<Rightarrow> u8 list" where
  "frag_packet lz mt fi h lst = (\<lambda>(i, rs). pack_frame lz mt (frag_frame fi lst i) (batch_body h rs))"

definition writer_of :: "lz4_api \<Rightarrow> u32 \<Rightarrow> u64 \<Rightarrow> bool \<Rightarrow> batches \<Rightarrow> packed_writer" where
  "writer_of lz mt fi h s =
     \<lparr>pw_msg_type = mt, pw_frame_index = fi, pw_buf = batch_buf h (bt_cur s),
      pw_fragment = of_nat (length (bt_done s)),
      pw_packets = map (frag_packet lz mt fi h False) (enumerate 0 (bt_done s)),
      pw_had_time = bt_time s, pw_length_hack = h\<rparr>"

text \<open>The current batch never holds more than a full budget plus one maximal record.\<close>

definition bt_inv :: "bool \<Rightarrow> batches \<Rightarrow> bool" where
  "bt_inv h s \<longleftrightarrow>
     (\<forall>rs\<in>set (bt_all s). (\<forall>r\<in>set rs. valid_out h r) \<and> length (rec_bits h rs) \<le> 42000)"

subsection \<open>Sizes\<close>

lemma fresh_buf_simps [simp]:
  "wf_buf (fresh_buf h)" "length_hack (fresh_buf h) = h" "cur_bit (fresh_buf h) = 0"
  "max_bit (fresh_buf h) = 131072" "length (mb_data (fresh_buf h)) = 16384"
  by (simp_all add: fresh_buf_def with_length_hack_def mb_new_def WORK_BUF_BYTES_def wf_buf_def)

lemma fits_fresh [simp]: "fits n (fresh_buf h) \<longleftrightarrow> n \<le> 131072"
  by (simp add: fits_def)

lemma rec_bits_simps [simp]:
  "rec_bits h [] = []" "rec_bits h (rs @ [r]) = rec_bits h rs @ enc_out h r"
  "rec_bits h (r # rs) = enc_out h r @ rec_bits h rs"
  by (simp_all add: rec_bits_def)

lemma enc_out_nonempty: "enc_out h r \<noteq> []"
  by (cases r) (auto simp flip: length_greater_0_conv)

lemma rec_bits_eq_Nil [simp]: "rec_bits h rs = [] \<longleftrightarrow> rs = []"
  by (cases rs) (simp_all add: enc_out_nonempty)

lemma bytes_for_bounds: "n \<le> 8 * bytes_for n" "8 * bytes_for n \<le> n + 7"
proof -
  define q r where "q = n div 8" and "r = n mod 8"
  have n: "n = 8 * q + r" "r < 8" by (simp_all add: q_def r_def)
  have "bytes_for n = q + (if r = 0 then 0 else 1)" by (simp add: bytes_for_def q_def r_def)
  with n show "n \<le> 8 * bytes_for n" "8 * bytes_for n \<le> n + 7" by auto
qed

lemma data_length_bytes_for: "data_length b = bytes_for (cur_bit b)"
  by (simp add: data_length_def bytes_for_def)

lemma data_length_batch: "data_length (batch_buf h rs) = bytes_for (length (rec_bits h rs))"
  by (simp add: data_length_bytes_for batch_buf_def)

lemma bytes_for_eq_0 [simp]: "bytes_for n = 0 \<longleftrightarrow> n = 0"
  using bytes_for_bounds [of n] by auto

lemma eff_width_13_le: "eff_width h 13 \<le> 16"
  by (simp add: eff_width_def)

lemma enc_out_sizes:
  "length (enc_out h (OutClone c)) \<le> 195 + 8 * length (oc_data c)"
  "length (enc_out h (OutRemove f i u)) \<le> 36"
  "length (enc_out h (OutTimestamp t)) = 67"
  using eff_width_13_le [of h] by auto

lemma valid_size: "valid_out h r \<Longrightarrow> length (enc_out h r) \<le> 33000"
proof (cases r)
  case (OutClone c)
  moreover assume "valid_out h r"
  ultimately show ?thesis using enc_out_sizes(1) [of h c] by simp
next
  case (OutRemove f i u)
  then show ?thesis using enc_out_sizes(2) [of h f i u] by simp
qed simp

subsection \<open>Each operation refines its abstract counterpart\<close>

lemma put_batch:
  assumes "valid_out h r" "length (rec_bits h rs) \<le> 42000"
  shows "put_out r (batch_buf h rs) = (True, batch_buf h (rs @ [r]))"
  using assms valid_size [of h r] out_codec.put_law [of "batch_buf h rs" r]
  by (simp add: batch_buf_def)

lemma end_batch:
  assumes "length (rec_bits h rs) \<le> 42000"
  shows "snd (write_end (batch_buf h rs)) =
    append_bits (rec_bits h rs @ u32_bits 3 rec_END) (fresh_buf h)"
  using assms by (simp add: write_end_def write_bits_single_law batch_buf_def effective_len_def)

lemma bt_inv_cur: "bt_inv h s \<Longrightarrow> length (rec_bits h (bt_cur s)) \<le> 42000"
  by (simp add: bt_inv_def bt_all_def)

lemma pw_new_refines: "pw_new mt fi h = writer_of lz mt fi h bt_empty"
  by (simp add: pw_new_def writer_of_def bt_empty_def batch_buf_def fresh_buf_def)

lemma flush_refines:
  assumes "bt_inv h s"
  shows "flush_fragment lz (writer_of lz mt fi h s) = writer_of lz mt fi h (bt_flush s)"
proof (cases "bt_cur s = []")
  case True
  then show ?thesis
    by (simp add: flush_fragment_def writer_of_def bt_flush_def data_length_batch)
next
  case False
  then show ?thesis
    using end_batch [OF bt_inv_cur [OF assms]]
    by (simp add: flush_fragment_def writer_of_def bt_flush_def data_length_batch Let_def
        frag_packet_def frag_frame_def batch_body_def enumerate_append_eq add.commute
        batch_buf_def [of h "[]"] fresh_buf_def)
qed

lemma maybe_flush_refines:
  assumes "bt_inv h s"
  shows "maybe_flush lz n (writer_of lz mt fi h s) = writer_of lz mt fi h (bt_maybe_flush h n s)"
  using flush_refines [OF assms, of lz mt fi]
  by (simp add: maybe_flush_def bt_maybe_flush_def Let_def) (simp add: writer_of_def data_length_batch)

lemma bt_inv_flush: "bt_inv h s \<Longrightarrow> bt_inv h (bt_flush s)"
  by (auto simp: bt_inv_def bt_flush_def bt_all_def)

lemma bt_inv_maybe_flush: "bt_inv h s \<Longrightarrow> bt_inv h (bt_maybe_flush h n s)"
  by (simp add: bt_maybe_flush_def Let_def bt_inv_flush)

lemma bt_maybe_flush_room:
  "length (rec_bits h (bt_cur (bt_maybe_flush h n s))) \<le> 8608"
proof -
  let ?n = "length (rec_bits h (bt_cur s))"
  let ?p = "bytes_for ?n + (n + 7) div 8"
  show ?thesis
  proof (cases "FLUSH_BUDGET_BYTES < ?p + ?p div 255 + 16")
    case True
    then show ?thesis by (simp add: bt_maybe_flush_def Let_def bt_flush_def)
  next
    case False
    then have "bytes_for ?n \<le> 1076" by (simp add: FLUSH_BUDGET_BYTES_def)
    with bytes_for_bounds(1) [of ?n] False show ?thesis
      by (simp add: bt_maybe_flush_def Let_def)
  qed
qed

lemma bt_inv_push:
  assumes "bt_inv h s" "valid_out h r" "length (rec_bits h (bt_cur s)) \<le> 8608"
  shows "bt_inv h (bt_push r s)"
  using assms valid_size [of h r] by (auto simp: bt_inv_def bt_all_def bt_push_def)

lemma push_refines:
  assumes "bt_inv h s" "valid_out h r"
  shows "(writer_of lz mt fi h s)\<lparr>pw_buf := snd (put_out r (pw_buf (writer_of lz mt fi h s)))\<rparr> =
    writer_of lz mt fi h (bt_push r s)"
  using put_batch [OF assms(2) bt_inv_cur [OF assms(1)]] by (simp add: writer_of_def bt_push_def)

lemma ensure_timestamp_refines:
  assumes "bt_inv h s"
  shows "ensure_timestamp lz t (writer_of lz mt fi h s) = writer_of lz mt fi h (bt_ensure_timestamp h t s)"
proof (cases "bt_time s")
  case True
  then show ?thesis by (simp add: ensure_timestamp_def bt_ensure_timestamp_def writer_of_def)
next
  case False
  let ?s = "bt_maybe_flush h 67 s"
  have "(writer_of lz mt fi h ?s)
      \<lparr>pw_buf := snd (put_out (OutTimestamp t) (pw_buf (writer_of lz mt fi h ?s)))\<rparr> =
    writer_of lz mt fi h (bt_push (OutTimestamp t) ?s)"
    by (rule push_refines [OF bt_inv_maybe_flush [OF assms]]) simp
  then have "(writer_of lz mt fi h ?s)
      \<lparr>pw_buf := snd (write_outbound_timestamp t (pw_buf (writer_of lz mt fi h ?s))), pw_had_time := True\<rparr> =
    writer_of lz mt fi h ((bt_push (OutTimestamp t) ?s)\<lparr>bt_time := True\<rparr>)"
    by (simp add: writer_of_def)
  moreover have "\<not> pw_had_time (writer_of lz mt fi h s)" using False by (simp add: writer_of_def)
  ultimately show ?thesis
    using False maybe_flush_refines [OF assms, of lz 67 mt fi]
    by (simp add: ensure_timestamp_def bt_ensure_timestamp_def Let_def)
qed

lemma bt_inv_ensure_timestamp: "bt_inv h s \<Longrightarrow> bt_inv h (bt_ensure_timestamp h t s)"
  using bt_inv_push [OF bt_inv_maybe_flush [of h s 67], of "OutTimestamp t"] bt_maybe_flush_room [of h 67 s]
  by (auto simp: bt_ensure_timestamp_def bt_inv_def bt_all_def)

datatype pw_cmd = CmdClone u64 outbound_clone | CmdRemove bool u16 u16

fun pw_exec :: "lz4_api \<Rightarrow> pw_cmd \<Rightarrow> packed_writer \<Rightarrow> packed_writer" where
  "pw_exec lz (CmdClone t c) w = write_clone lz t c w"
| "pw_exec lz (CmdRemove f i u) w = write_remove lz f i u w"

fun bt_exec :: "bool \<Rightarrow> pw_cmd \<Rightarrow> batches \<Rightarrow> batches" where
  "bt_exec h (CmdClone t c) s = bt_write_clone h t c s"
| "bt_exec h (CmdRemove f i u) s = bt_write_remove h f i u s"

fun cmd_record :: "pw_cmd \<Rightarrow> out_record" where
  "cmd_record (CmdClone t c) = OutClone c"
| "cmd_record (CmdRemove f i u) = OutRemove f i u"

lemma exec_refines:
  assumes "bt_inv h s" "valid_out h (cmd_record cmd)"
  shows "pw_exec lz cmd (writer_of lz mt fi h s) = writer_of lz mt fi h (bt_exec h cmd s) \<and>
    bt_inv h (bt_exec h cmd s)"
proof (cases cmd)
  case (CmdClone t c)
  let ?s1 = "bt_ensure_timestamp h t s" and ?n = "195 + length (oc_data c) * 8"
  have 1: "bt_inv h ?s1" by (rule bt_inv_ensure_timestamp [OF assms(1)])
  note 2 = bt_inv_maybe_flush [OF 1, of ?n]
  have v: "valid_out h (OutClone c)" using assms(2) CmdClone by simp
  have "write_clone lz t c (writer_of lz mt fi h s) = writer_of lz mt fi h (bt_write_clone h t c s)"
    using push_refines [OF 2 v, of lz mt fi]
    by (simp add: write_clone_def Let_def ensure_timestamp_refines [OF assms(1)]
        maybe_flush_refines [OF 1] bt_write_clone_def)
  moreover have "bt_inv h (bt_write_clone h t c s)"
    using bt_inv_push [OF 2 v bt_maybe_flush_room] by (simp add: bt_write_clone_def)
  ultimately show ?thesis using CmdClone by simp
next
  case (CmdRemove f i u)
  note 2 = bt_inv_maybe_flush [OF assms(1), of 36]
  have v: "valid_out h (OutRemove f i u)" using assms(2) CmdRemove by simp
  have "write_remove lz f i u (writer_of lz mt fi h s) = writer_of lz mt fi h (bt_write_remove h f i u s)"
    using push_refines [OF 2 v, of lz mt fi]
    by (simp add: write_remove_def Let_def maybe_flush_refines [OF assms(1)] bt_write_remove_def)
  moreover have "bt_inv h (bt_write_remove h f i u s)"
    using bt_inv_push [OF 2 v bt_maybe_flush_room] by (simp add: bt_write_remove_def)
  ultimately show ?thesis using CmdRemove by simp
qed

lemma bt_inv_empty: "bt_inv h bt_empty"
  by (simp add: bt_inv_def bt_all_def bt_empty_def)

lemma run_refines:
  "bt_inv h s \<Longrightarrow> (\<forall>cmd\<in>set cmds. valid_out h (cmd_record cmd)) \<Longrightarrow>
     fold (pw_exec lz) cmds (writer_of lz mt fi h s) = writer_of lz mt fi h (fold (bt_exec h) cmds s) \<and>
     bt_inv h (fold (bt_exec h) cmds s)"
  by (induction cmds arbitrary: s) (simp_all add: exec_refines)

definition frag_packets :: "lz4_api \<Rightarrow> u32 \<Rightarrow> u64 \<Rightarrow> bool \<Rightarrow> out_record list list \<Rightarrow> u8 list list" where
  "frag_packets lz mt fi h bs =
     map (\<lambda>(i, rs). frag_packet lz mt fi h (i = length bs - 1) (i, rs)) (enumerate 0 bs)"

lemma finish_refines:
  assumes "bt_inv h s"
  shows "pw_finish lz (writer_of lz mt fi h s) = frag_packets lz mt fi h (bt_all s)"
proof -
  let ?n = "length (bt_done s)"
  have "map (frag_packet lz mt fi h False) (enumerate 0 (bt_done s)) =
      map (\<lambda>(i, rs). frag_packet lz mt fi h (i = ?n) (i, rs)) (enumerate 0 (bt_done s))"
    by (rule map_cong) (auto simp: in_set_enumerate_eq)
  then show ?thesis
    using end_batch [OF bt_inv_cur [OF assms]]
    by (simp add: pw_finish_def writer_of_def Let_def frag_packets_def bt_all_def
        enumerate_append_eq frag_packet_def frag_frame_def batch_body_def add.commute)
qed

subsection \<open>Record loops\<close>

text \<open>Both decoders run the same loop over a tag reader. The locale states what they rely on:
  the loop equation, that a record's reader consumes exactly the record's bits, and that the
  \<open>END\<close> tag stops it. The decoded list is then the list of encoded records.\<close>

locale record_stream =
  fixes read_rec :: "u32 \<Rightarrow> 'v reader"
    and records :: "mbuf \<Rightarrow> 'v list"
    and enc :: "bool \<Rightarrow> 'a \<Rightarrow> bool list"
    and valid :: "bool \<Rightarrow> 'a \<Rightarrow> bool"
    and view :: "'a \<Rightarrow> 'v"
  assumes records_eq: "records b =
     (if is_at_end b then []
      else case read_bits_single 3 b of
             (None, b1) \<Rightarrow> []
           | (Some ty, b1) \<Rightarrow>
               (case read_rec ty b1 of (None, b2) \<Rightarrow> [] | (Some r, b2) \<Rightarrow> r # records b2))"
    and record_law: "valid h a \<Longrightarrow> parses h (try_read (read_bits_single 3) read_rec) (enc h a) (view a)"
    and end_law: "read_rec rec_END = fail"
    and enc_nonempty: "enc h a \<noteq> []"
begin

lemma records_end:
  assumes "wf_buf b" "unread b = u32_bits 3 rec_END @ pad"
  shows "records b = []"
proof -
  have "read_bits_single 3 b = (Some rec_END, advance 3 b)"
    using parsesD [OF parses_fixed [of 3 "length_hack b" rec_END] assms(1) refl assms(2)]
    by (simp add: rec_defs)
  then show ?thesis by (subst records_eq) (simp add: end_law)
qed

lemma records_step:
  assumes "wf_buf b" "valid (length_hack b) a" "unread b = enc (length_hack b) a @ rest"
  shows "records b = view a # records (advance (length (enc (length_hack b) a)) b)"
proof -
  let ?b' = "advance (length (enc (length_hack b) a)) b"
  have "try_read (read_bits_single 3) read_rec b = (Some (view a), ?b')"
    by (rule parsesD [OF record_law [OF assms(2)] assms(1) refl assms(3)])
  then obtain ty b1 where "read_bits_single 3 b = (Some ty, b1)" "read_rec ty b1 = (Some (view a), ?b')"
    by (auto simp: try_read_def split: prod.splits option.splits)
  moreover have "\<not> is_at_end b"
    using assms(3) enc_nonempty length_unread [OF assms(1)] by (fastforce simp: is_at_end_def)
  ultimately show ?thesis by (subst records_eq) simp
qed

lemma records_batch:
  assumes "wf_buf b" "\<forall>a\<in>set as. valid (length_hack b) a"
    and "unread b = concat (map (enc (length_hack b)) as) @ u32_bits 3 rec_END @ pad"
  shows "records b = map view as"
  using assms
proof (induction as arbitrary: b)
  case Nil
  then show ?case by (simp add: records_end)
next
  case (Cons a as)
  let ?b' = "advance (length (enc (length_hack b) a)) b"
  have "records ?b' = map view as" using Cons.prems by (intro Cons.IH) simp_all
  moreover have "records b = view a # records ?b'"
    using Cons.prems by (intro records_step [where rest = "concat (map (enc (length_hack b)) as) @ u32_bits 3 rec_END @ pad"]) simp_all
  ultimately show ?case by simp
qed

end

lemma read_downlink_END: "read_downlink rec_END = fail"
  by (simp add: read_downlink_def rec_defs)

lemma enc_inbound_nonempty: "enc_inbound h r \<noteq> []"
  by (cases r) (auto simp flip: length_greater_0_conv)

interpretation downlink: record_stream read_downlink downlink_records enc_out valid_out view_out
proof
  show "parses h (try_read (read_bits_single 3) read_downlink) (enc_out h a) (view_out a)"
    if "valid_out h a" for h a
    using out_codec.parses_get [OF that] by (simp add: get_downlink_def)
qed (subst downlink_records.simps, simp_all add: read_downlink_END enc_out_nonempty)

interpretation upload: record_stream read_inbound inbound_records enc_inbound valid_inbound "\<lambda>r. r"
proof
  show "parses h (try_read (read_bits_single 3) read_inbound) (enc_inbound h a) a"
    if "valid_inbound h a" for h a
    using parses_inbound [OF that] by (simp add: get_inbound_def)
qed (subst inbound_records.simps, simp_all add: read_inbound_branches enc_inbound_nonempty)

subsection \<open>What the client decodes\<close>

lemma batch_body_bits:
  assumes "length (rec_bits h rs) \<le> 42000"
  obtains pad where "bits_of_bytes (batch_body h rs) = rec_bits h rs @ u32_bits 3 rec_END @ pad"
    "batch_body h rs \<noteq> []" "length (batch_body h rs) \<le> 16384"
proof -
  let ?xs = "rec_bits h rs @ u32_bits 3 rec_END"
  let ?b = "append_bits ?xs (fresh_buf h)"
  let ?n = "bytes_for (length ?xs)"
  have n: "length ?xs \<le> 8 * ?n" "8 * ?n \<le> length ?xs + 7" by (rule bytes_for_bounds)+
  have "written ?b = ?xs"
    using assms by (subst written_append) (simp_all add: written_def)
  then have w: "take (length ?xs) (bits_of_bytes (mb_data ?b)) = ?xs"
    by (simp add: written_def)
  have body: "batch_body h rs = take ?n (mb_data ?b)"
    by (simp add: batch_body_def Let_def data_length_bytes_for)
  then have bits: "bits_of_bytes (batch_body h rs) = take (8 * ?n) (bits_of_bytes (mb_data ?b))"
    by (simp add: take_bits_of_bytes)
  then have "take (length ?xs) (bits_of_bytes (batch_body h rs)) = ?xs"
    using w n(1) by (simp only: take_take min_absorb1)
  then have "bits_of_bytes (batch_body h rs) =
      ?xs @ drop (length ?xs) (bits_of_bytes (batch_body h rs))"
    by (metis append_take_drop_id)
  moreover have "length (batch_body h rs) = ?n" "?n \<noteq> 0" "?n \<le> 16384"
    using n assms unfolding body by simp_all
  ultimately show thesis by (intro that [of "drop (length ?xs) (bits_of_bytes (batch_body h rs))"]) auto
qed

lemma from_bytes_simps [simp]:
  "wf_buf (from_bytes d)" "length_hack (from_bytes d) = False" "unread (from_bytes d) = bits_of_bytes d"
  "wf_buf (with_length_hack h (from_bytes d))" "length_hack (with_length_hack h (from_bytes d)) = h"
  "unread (with_length_hack h (from_bytes d)) = bits_of_bytes d"
  by (simp_all add: from_bytes_def with_length_hack_def wf_buf_def unread_def)

lemma seven_bits [simp]: "(0x7F :: 'a::len word) = mask 7"
  by (simp add: mask_eq_exp_minus_1)

lemma low_bit_set: "(v::'a::len word) AND 1 \<noteq> 0 \<longleftrightarrow> bit v 0"
  by (simp add: and_one_eq bit_0 odd_iff_mod_2_eq_one)

lemma frame_fields [simp]:
  "last_fragment (frame_from_u64 (frame_to_u64 f)) = last_fragment f"
  "current_fragment (frame_from_u64 (frame_to_u64 f)) = take_bit 7 (current_fragment f)"
  "frame_index (frame_from_u64 (frame_to_u64 f)) = take_bit 56 (frame_index f)"
proof -
  have "bit (frame_to_u64 f) 0 = last_fragment f"
    unfolding frame_to_u64_def seven_bits
    by (simp add: bit_simps del: push_bit_Suc One_nat_def)
  then show "last_fragment (frame_from_u64 (frame_to_u64 f)) = last_fragment f"
    by (simp add: frame_from_u64_def low_bit_set)
  show "current_fragment (frame_from_u64 (frame_to_u64 f)) = take_bit 7 (current_fragment f)"
    unfolding frame_from_u64_def frame_to_u64_def seven_bits frame_id.select_convs
    by (rule bit_word_eqI) (auto simp: bit_simps simp del: push_bit_Suc drop_bit_Suc One_nat_def)
  show "frame_index (frame_from_u64 (frame_to_u64 f)) = take_bit 56 (frame_index f)"
    unfolding frame_from_u64_def frame_to_u64_def seven_bits frame_id.select_convs
    by (rule bit_word_eqI) (auto simp: bit_simps simp del: push_bit_Suc One_nat_def)
qed

lemma frame_to_from: "frame_to_u64 (frame_from_u64 v) = v"
proof (rule bit_word_eqI)
  fix n assume n: "n < LENGTH(64)"
  consider "n = 0" | "0 < n" "n < 8" | "8 \<le> n" by linarith
  then show "bit (frame_to_u64 (frame_from_u64 v)) n = bit v n"
    unfolding frame_from_u64_def frame_to_u64_def seven_bits frame_id.select_convs low_bit_set
    using n by cases (auto simp: bit_simps simp del: push_bit_Suc drop_bit_Suc One_nat_def)
qed

end
