(* ===== verification/Packed_Delivery.thy ===== *)
theory Packed_Delivery
  imports Packed_Stream
begin

text \<open>
  End-to-end properties of the packed clone stream of
  \<open>crates/baston-protocol/src/rage/packet.rs\<close>: what the client decodes from the fragments a
  \<open>PackedWriter\<close> produces, the size of these fragments, the upload decoder, and two
  behaviours at the edge of the documented contract (timestamps and the big-id mode).
\<close>

section \<open>One packet\<close>

lemma decode_pack:
  assumes "lz4_spec lz" "length (rec_bits False rs) \<le> 42000" "\<forall>r\<in>set rs. valid_out False r"
  shows "decode_downlink lz (pack_frame lz mt f (batch_body False rs)) =
    Some \<lparr>dp_msg_type = mt, dp_frame = frame_from_u64 (frame_to_u64 f), dp_records = map view_out rs\<rparr>"
proof -
  obtain pad where pad: "bits_of_bytes (batch_body False rs) = rec_bits False rs @ u32_bits 3 rec_END @ pad"
      "batch_body False rs \<noteq> []" "length (batch_body False rs) \<le> 16384"
    by (rule batch_body_bits [OF assms(2)])
  have "downlink_records (from_bytes (batch_body False rs)) = map view_out rs"
    using assms(3) pad(1) by (intro downlink.records_batch) (simp_all add: rec_bits_def)
  moreover have "decompress_plain lz (compress_default lz (batch_body False rs)) INBOUND_SCRATCH =
      Some (batch_body False rs)"
    using pad by (intro decompress_compress [OF assms(1)]) (simp_all add: INBOUND_SCRATCH_def)
  moreover have "take_bit 32 mt = mt" "take_bit 64 (frame_to_u64 f) = frame_to_u64 f"
    by (simp_all add: take_bit_word_fits)
  ultimately show ?thesis by (simp add: decode_downlink_def pack_frame_def Let_def)
qed

section \<open>The batches keep every record\<close>

fun is_timestamp :: "out_record \<Rightarrow> bool" where
  "is_timestamp (OutTimestamp t) = True"
| "is_timestamp _ = False"

fun dl_is_timestamp :: "downlink_record \<Rightarrow> bool" where
  "dl_is_timestamp (DlTimestamp t) = True"
| "dl_is_timestamp _ = False"

lemma dl_is_timestamp_view [simp]: "dl_is_timestamp (view_out r) = is_timestamp r"
  by (cases r) simp_all

definition payload :: "batches \<Rightarrow> out_record list" where
  "payload s = filter (\<lambda>r. \<not> is_timestamp r) (concat (bt_all s))"

lemma payload_flush [simp]: "payload (bt_flush s) = payload s" "payload (bt_maybe_flush h n s) = payload s"
  by (simp_all add: payload_def bt_flush_def bt_all_def bt_maybe_flush_def Let_def)

lemma payload_push [simp]:
  "payload (bt_push r s) = payload s @ (if is_timestamp r then [] else [r])"
  by (simp add: payload_def bt_push_def bt_all_def)

lemma payload_time [simp]: "payload (s\<lparr>bt_time := t\<rparr>) = payload s"
  by (simp add: payload_def bt_all_def)

lemma payload_exec: "payload (bt_exec h cmd s) = payload s @ [cmd_record cmd]"
  by (cases cmd) (simp_all add: bt_write_clone_def bt_write_remove_def bt_ensure_timestamp_def)

lemma payload_run: "payload (fold (bt_exec h) cmds s) = payload s @ map cmd_record cmds"
  by (induction cmds arbitrary: s) (simp_all add: payload_exec)

lemma payload_empty: "payload bt_empty = []"
  by (simp add: payload_def bt_empty_def bt_all_def)

text \<open>A session: create a writer, append every command, finish.\<close>

definition pw_session :: "lz4_api \<Rightarrow> u32 \<Rightarrow> u64 \<Rightarrow> bool \<Rightarrow> pw_cmd list \<Rightarrow> u8 list list" where
  "pw_session lz mt fi h cmds = pw_finish lz (fold (pw_exec lz) cmds (pw_new mt fi h))"

lemma session_refines:
  assumes "\<forall>cmd\<in>set cmds. valid_out h (cmd_record cmd)"
  shows "pw_session lz mt fi h cmds = frag_packets lz mt fi h (bt_all (fold (bt_exec h) cmds bt_empty))"
    and "bt_inv h (fold (bt_exec h) cmds bt_empty)"
  using run_refines [OF bt_inv_empty assms, of lz mt fi] finish_refines [of h _ lz mt fi]
  by (auto simp: pw_session_def pw_new_refines [of mt fi h lz])

definition frag_view :: "u32 \<Rightarrow> u64 \<Rightarrow> bool \<Rightarrow> nat \<times> out_record list \<Rightarrow> downlink_packet" where
  "frag_view mt fi lst = (\<lambda>(i, rs).
     \<lparr>dp_msg_type = mt,
      dp_frame = \<lparr>last_fragment = lst, current_fragment = of_nat (Suc i mod 128), frame_index = fi\<rparr>,
      dp_records = map view_out rs\<rparr>)"

lemma take_bit_7_of_nat: "take_bit 7 (of_nat n :: u8) = of_nat (n mod 128)"
proof -
  have "n mod 128 = take_bit 7 n" by (simp add: take_bit_eq_mod)
  then show ?thesis by (simp only:) (rule bit_word_eqI, auto simp: bit_simps)
qed

lemma frag_frame_wire:
  assumes "uint fi < 2 ^ 56"
  shows "frame_from_u64 (frame_to_u64 (frag_frame fi lst i)) =
    \<lparr>last_fragment = lst, current_fragment = of_nat (Suc i mod 128), frame_index = fi\<rparr>"
proof (rule frame_id.equality)
  have "take_bit 56 fi = fi" using assms by (simp only: take_bit_word_fits)
  then show "frame_index (frame_from_u64 (frame_to_u64 (frag_frame fi lst i))) =
      frame_index \<lparr>last_fragment = lst, current_fragment = of_nat (Suc i mod 128), frame_index = fi\<rparr>"
    by (simp add: frag_frame_def)
qed (simp_all add: frag_frame_def take_bit_7_of_nat del: of_nat_Suc flip: take_bit_eq_mask)

lemma decode_fragments:
  assumes "lz4_spec lz" "uint fi < 2 ^ 56" "bt_inv False s"
  shows "map (decode_downlink lz) (frag_packets lz mt fi False (bt_all s)) =
    map Some (map (\<lambda>(i, rs). frag_view mt fi (Suc i = length (bt_all s)) (i, rs)) (enumerate 0 (bt_all s)))"
proof -
  have "decode_downlink lz (frag_packet lz mt fi False (i = length (bt_all s) - 1) (i, rs)) =
      Some (frag_view mt fi (Suc i = length (bt_all s)) (i, rs))"
    if "(i, rs) \<in> set (enumerate 0 (bt_all s))" for i rs
  proof -
    have "rs \<in> set (bt_all s)" using that by (auto simp: in_set_enumerate_eq)
    moreover have "(i = length (bt_all s) - 1) = (Suc i = length (bt_all s))"
      by (auto simp: bt_all_def)
    ultimately show ?thesis
      using assms(3) frag_frame_wire [OF assms(2)]
      by (simp add: frag_packet_def frag_view_def bt_inv_def decode_pack [OF assms(1)])
  qed
  then show ?thesis by (auto simp: frag_packets_def)
qed

lemma concat_frag_views:
  "concat (map dp_records (map (\<lambda>(i, rs). frag_view mt fi (P i) (i, rs)) (enumerate k bs))) =
    map view_out (concat bs)"
  by (induction bs arbitrary: k) (simp_all add: frag_view_def)

section \<open>Sizes of the fragments\<close>

definition within_budget :: "nat \<Rightarrow> bool" where
  "within_budget n \<longleftrightarrow> n + n div 255 + 16 \<le> FLUSH_BUDGET_BYTES"

definition bt_small :: "bool \<Rightarrow> batches \<Rightarrow> bool" where
  "bt_small h s \<longleftrightarrow>
     (\<forall>rs\<in>set (bt_all s). length rs \<le> 1 \<or> within_budget (bytes_for (length (rec_bits h rs))))"

lemma within_budget_mono: "within_budget n \<Longrightarrow> m \<le> n \<Longrightarrow> within_budget m"
  using div_le_mono [of m n 255] by (simp add: within_budget_def)

lemma bytes_for_add: "bytes_for (a + b) \<le> bytes_for a + (b + 7) div 8"
proof -
  define q r where "q = (b + 7) div 8" and "r = (b + 7) mod 8"
  have "b + 7 = 8 * q + r" "r < 8" by (simp_all add: q_def r_def)
  then have "8 * bytes_for (a + b) < 8 * (bytes_for a + q) + 8"
    using bytes_for_bounds(2) [of "a + b"] bytes_for_bounds(1) [of a] unfolding distrib_left by arith
  then show ?thesis unfolding q_def by simp
qed

lemma bt_small_flush: "bt_small h s \<Longrightarrow> bt_small h (bt_maybe_flush h n s)"
  by (auto simp: bt_small_def bt_maybe_flush_def Let_def bt_flush_def bt_all_def)

lemma bt_small_push:
  assumes "bt_small h s" "length (enc_out h r) \<le> n"
  shows "bt_small h (bt_push r (bt_maybe_flush h n s))"
proof (cases "bt_cur (bt_maybe_flush h n s) = []")
  case True
  then show ?thesis
    using bt_small_flush [OF assms(1), of n] by (auto simp: bt_small_def bt_push_def bt_all_def)
next
  case False
  let ?p = "bytes_for (length (rec_bits h (bt_cur s))) + (n + 7) div 8"
  have eq: "bt_maybe_flush h n s = s" "within_budget ?p"
    using False by (auto simp: bt_maybe_flush_def Let_def bt_flush_def within_budget_def split: if_splits)
  have "(length (enc_out h r) + 7) div 8 \<le> (n + 7) div 8" using assms(2) by (intro div_le_mono) simp
  then have "within_budget (bytes_for (length (rec_bits h (bt_cur s @ [r]))))"
    using bytes_for_add [of "length (rec_bits h (bt_cur s))" "length (enc_out h r)"]
    by (intro within_budget_mono [OF eq(2)]) simp
  then show ?thesis using assms(1) eq(1) by (auto simp: bt_small_def bt_push_def bt_all_def)
qed

lemma bt_small_exec:
  assumes "bt_small h s"
  shows "bt_small h (bt_exec h cmd s)"
proof (cases cmd)
  case (CmdClone t c)
  have "bt_small h (bt_ensure_timestamp h t s)"
    using assms bt_small_push [OF assms, of "OutTimestamp t" 67] enc_out_sizes(3) [of h t]
    by (auto simp: bt_ensure_timestamp_def bt_small_def bt_all_def)
  from bt_small_push [OF this, of "OutClone c" "195 + length (oc_data c) * 8"]
  show ?thesis using CmdClone enc_out_sizes(1) [of h c] by (simp add: bt_write_clone_def mult.commute)
next
  case (CmdRemove f i u)
  then show ?thesis
    using bt_small_push [OF assms, of "OutRemove f i u" 36] enc_out_sizes(2) [of h f i u]
    by (simp add: bt_write_remove_def)
qed

lemma bt_small_run: "bt_small h s \<Longrightarrow> bt_small h (fold (bt_exec h) cmds s)"
  by (induction cmds arbitrary: s) (simp_all add: bt_small_exec)

lemma bt_small_empty: "bt_small h bt_empty"
  by (simp add: bt_small_def bt_empty_def bt_all_def)

lemma batch_body_length: "length (batch_body h rs) \<le> bytes_for (length (rec_bits h rs)) + 1"
  using bytes_for_add [of "length (rec_bits h rs)" 3]
  by (simp add: batch_body_def Let_def data_length_bytes_for)

lemma batch_body_records:
  assumes "length (rec_bits h rs) \<le> 42000" "\<forall>r\<in>set rs. valid_out h r"
  shows "downlink_records (with_length_hack h (from_bytes (batch_body h rs))) = map view_out rs"
proof -
  obtain pad where "bits_of_bytes (batch_body h rs) = rec_bits h rs @ u32_bits 3 rec_END @ pad"
    by (rule batch_body_bits [OF assms(1)])
  then show ?thesis using assms(2) by (intro downlink.records_batch) (simp_all add: rec_bits_def)
qed

section \<open>Properties\<close>

lemma session_delivers:
  assumes "lz4_spec lz" "\<forall>cmd\<in>set cmds. valid_out False (cmd_record cmd)" "uint fi < 2 ^ 56"
  shows "\<exists>ds. map (decode_downlink lz) (pw_session lz mt fi False cmds) = map Some ds \<and>
    ds \<noteq> [] \<and>
    filter (\<lambda>r. \<not> dl_is_timestamp r) (concat (map dp_records ds)) = map (\<lambda>cmd. view_out (cmd_record cmd)) cmds \<and>
    (\<forall>i<length ds. dp_msg_type (ds ! i) = mt \<and>
       dp_frame (ds ! i) = \<lparr>last_fragment = (Suc i = length ds),
         current_fragment = of_nat (Suc i mod 128), frame_index = fi\<rparr>)"
proof -
  let ?s = "fold (bt_exec False) cmds bt_empty"
  let ?ds = "map (\<lambda>(i, rs). frag_view mt fi (Suc i = length (bt_all ?s)) (i, rs)) (enumerate 0 (bt_all ?s))"
  note ref = session_refines [OF assms(2)]
  have "map (decode_downlink lz) (pw_session lz mt fi False cmds) = map Some ?ds"
    by (simp only: ref(1) decode_fragments [OF assms(1,3) ref(2)])
  moreover have "?ds \<noteq> []" by (simp add: bt_all_def flip: length_0_conv)
  moreover have "filter (\<lambda>r. \<not> dl_is_timestamp r) (concat (map dp_records ?ds)) =
      map (\<lambda>cmd. view_out (cmd_record cmd)) cmds"
    using payload_run [of False cmds bt_empty, unfolded payload_empty]
    by (simp only: concat_frag_views filter_map comp_def dl_is_timestamp_view) (simp add: payload_def)
  moreover have "\<forall>i<length ?ds. dp_msg_type (?ds ! i) = mt \<and>
       dp_frame (?ds ! i) = \<lparr>last_fragment = (Suc i = length ?ds),
         current_fragment = of_nat (Suc i mod 128), frame_index = fi\<rparr>"
    by (simp add: nth_enumerate_eq frag_view_def)
  ultimately show ?thesis by blast
qed

text \<open>C2. End-to-end delivery of the clone stream. Whatever sequence of clones and removals is
  appended to a \<open>PackedWriter\<close> (each within the wire limits: a create or sync tag, an id of
  13 bits, a blob under 4096 bytes), every fragment that \<open>finish\<close> returns decodes with the
  client's decoder; the records of all fragments, timestamps left out, are exactly the appended
  records in order (none lost, duplicated or cut by fragmentation); and fragment \<open>i\<close> carries
  the message type, the frame index, the counter \<open>i + 1\<close> modulo 128 and the last-fragment flag
  on the final fragment only. LZ4 is assumed to satisfy its block contract.\<close>

theorem packed_writer_delivers:
  assumes "lz4_spec lz" "\<forall>cmd\<in>set cmds. valid_out False (cmd_record cmd)" "uint fi < 2 ^ 56"
  shows "\<exists>ds. map (decode_downlink lz) (pw_finish lz (fold (pw_exec lz) cmds (pw_new mt fi False))) = map Some ds \<and>
    ds \<noteq> [] \<and>
    filter (\<lambda>r. \<not> dl_is_timestamp r) (concat (map dp_records ds)) = map (\<lambda>cmd. view_out (cmd_record cmd)) cmds \<and>
    (\<forall>i<length ds. dp_msg_type (ds ! i) = mt \<and>
       dp_frame (ds ! i) = \<lparr>last_fragment = (Suc i = length ds),
         current_fragment = of_nat (Suc i mod 128), frame_index = fi\<rparr>)"
  using session_delivers [OF assms] by (simp only: pw_session_def)

text \<open>A codec that satisfies the contract: one marker byte in front of the stored bytes.\<close>

definition stored_lz4 :: lz4_api where
  "stored_lz4 =
     \<lparr>LZ4_compressBound = (\<lambda>n. int n + 1),
      LZ4_compress_default = (\<lambda>src cap. if length src + 1 \<le> cap then (int (length src) + 1, 0 # src) else (0, [])),
      LZ4_decompress_safe = (\<lambda>src room. case src of [] \<Rightarrow> (- 1, [])
        | _ # d \<Rightarrow> if length d \<le> room then (int (length d), d) else (- 1, [])),
      LZ4_decompress_dict = (\<lambda>src room. case src of [] \<Rightarrow> (- 1, [])
        | _ # d \<Rightarrow> if length d \<le> room then (int (length d), d) else (- 1, []))\<rparr>"

lemma stored_lz4_spec: "lz4_spec stored_lz4"
  by (auto simp: lz4_spec_def stored_lz4_def nat_add_distrib split: if_splits)

definition sample_cmds :: "pw_cmd list" where
  "sample_cmds = [CmdClone 0xDEADBEEF sample_create, CmdRemove True 11 0x2222]"

theorem packed_writer_delivers_witness:
  "\<exists>ds. map (decode_downlink stored_lz4)
      (pw_finish stored_lz4 (fold (pw_exec stored_lz4) sample_cmds (pw_new MSG_PACKED_CLONES 77 False))) = map Some ds \<and>
    ds \<noteq> [] \<and>
    filter (\<lambda>r. \<not> dl_is_timestamp r) (concat (map dp_records ds)) =
      [DlClone True 10 4 (Some Ped) 0xABCD (NOT 0x0F0F) 0xAABBBBCCCC 0x1000 [0x11, 0x22],
       DlRemove True 11 0x2222]"
proof -
  have v: "\<forall>cmd\<in>set sample_cmds. valid_out False (cmd_record cmd)"
    by (simp add: sample_cmds_def sample_create_def id_fits_def rec_defs)
  have r: "map (\<lambda>cmd. view_out (cmd_record cmd)) sample_cmds =
      [DlClone True 10 4 (Some Ped) 0xABCD (NOT 0x0F0F) 0xAABBBBCCCC 0x1000 [0x11, 0x22],
       DlRemove True 11 0x2222]"
    by (simp add: sample_cmds_def sample_create_def rec_defs)
  show ?thesis
    using packed_writer_delivers [OF stored_lz4_spec v, of 77 MSG_PACKED_CLONES] unfolding r by auto
qed

text \<open>Fragmentation keeps packets small, in either id mode. Every packet of a session is
  \<open>pack_frame\<close> of some record bytes, and unless that fragment holds at most one record (one
  blob larger than the budget cannot be split), the worst-case LZ4 size of those bytes is within
  \<open>FLUSH_BUDGET_BYTES\<close> plus the two bytes that the \<open>END\<close> tag can add.\<close>

theorem packed_fragment_budget:
  assumes "\<forall>cmd\<in>set cmds. valid_out h (cmd_record cmd)"
    and "p \<in> set (pw_finish lz (fold (pw_exec lz) cmds (pw_new mt fi h)))"
  shows "\<exists>fr body. p = pack_frame lz mt fr body \<and>
    (length (downlink_records (with_length_hack h (from_bytes body))) \<le> 1 \<or>
     length body + length body div 255 + 16 \<le> FLUSH_BUDGET_BYTES + 2)"
proof -
  let ?s = "fold (bt_exec h) cmds bt_empty"
  note ref = session_refines [OF assms(1), unfolded pw_session_def]
  obtain i rs lst where p: "p = frag_packet lz mt fi h lst (i, rs)" and rs: "rs \<in> set (bt_all ?s)"
    using assms(2) unfolding ref(1) by (auto simp: frag_packets_def in_set_enumerate_eq)
  have "length (downlink_records (with_length_hack h (from_bytes (batch_body h rs)))) = length rs"
    using ref(2) rs by (simp add: batch_body_records bt_inv_def)
  moreover have "length rs \<le> 1 \<or>
      length (batch_body h rs) + length (batch_body h rs) div 255 + 16 \<le> FLUSH_BUDGET_BYTES + 2"
  proof (cases "length rs \<le> 1")
    case False
    let ?n = "bytes_for (length (rec_bits h rs))"
    have "?n + ?n div 255 + 16 \<le> FLUSH_BUDGET_BYTES"
      using bt_small_run [OF bt_small_empty, of h cmds] rs False by (auto simp: bt_small_def within_budget_def)
    moreover have "length (batch_body h rs) div 255 \<le> (?n + 1) div 255"
      by (rule div_le_mono [OF batch_body_length])
    moreover have "(?n + 1) div 255 \<le> ?n div 255 + 1" by linarith
    ultimately have "length (batch_body h rs) + length (batch_body h rs) div 255 + 16 \<le> FLUSH_BUDGET_BYTES + 2"
      using batch_body_length [of h rs] by linarith
    then show ?thesis ..
  qed simp
  ultimately show ?thesis
    using p by (intro exI [of _ "frag_frame fi lst i"] exI [of _ "batch_body h rs"]) (simp add: frag_packet_def)
qed

theorem packed_fragment_budget_witness:
  "\<exists>p fr body. p \<in> set (pw_finish stored_lz4 (fold (pw_exec stored_lz4) sample_cmds (pw_new MSG_PACKED_CLONES 77 True))) \<and>
    p = pack_frame stored_lz4 MSG_PACKED_CLONES fr body \<and>
    (length (downlink_records (with_length_hack True (from_bytes body))) \<le> 1 \<or>
     length body + length body div 255 + 16 \<le> 1078)"
proof -
  let ?ps = "pw_finish stored_lz4 (fold (pw_exec stored_lz4) sample_cmds (pw_new MSG_PACKED_CLONES 77 True))"
  have "last ?ps \<in> set ?ps" by (rule last_in_set) (simp add: pw_finish_def Let_def)
  moreover have "\<forall>cmd\<in>set sample_cmds. valid_out True (cmd_record cmd)"
    by (simp add: sample_cmds_def sample_create_def id_fits_def rec_defs)
  ultimately show ?thesis
    using packed_fragment_budget [of sample_cmds True "last ?ps" stored_lz4 MSG_PACKED_CLONES 77]
    by (simp add: FLUSH_BUDGET_BYTES_def) blast
qed

text \<open>Upload decoding. A payload made of the \<open>netClones\<close> or \<open>netAcks\<close> tag and an
  LZ4 body that the dictionary decompressor turns into the bits of upload records followed by an
  \<open>END\<close> tag decodes to that tag and exactly those records, in the id mode the server runs
  in, whatever bits follow \<open>END\<close>; every other type tag is rejected.\<close>

theorem upload_decode:
  assumes "decompress_using_dict lz body INBOUND_SCRATCH = Some d"
    and "bits_of_bytes d = concat (map (enc_inbound h) rs) @ u32_bits 3 rec_END @ pad"
    and "\<forall>r\<in>set rs. valid_inbound h r"
  shows "decode_incoming lz (to_le_bytes 4 mt @ body) h =
    (if mt = NET_CLONES \<or> mt = NET_ACKS then Some \<lparr>ip_msg_type = mt, ip_records = rs\<rparr> else None)"
proof -
  have "inbound_records (with_length_hack h (from_bytes d)) = map (\<lambda>r. r) rs"
    using assms(2,3) by (intro upload.records_batch) simp_all
  moreover have "take_bit 32 mt = mt" by (simp add: take_bit_word_fits)
  ultimately show ?thesis using assms(1) by (auto simp: decode_incoming_def Let_def)
qed

definition sample_uploads :: "inbound_record list" where
  "sample_uploads = [InTimestamp 5, InRemove 3 0x1111, InIndex 9]"

definition sample_upload_bytes :: "u8 list" where
  "sample_upload_bytes = [0xA0, 0x00, 0x00, 0x00, 0xAC, 0x00, 0x62, 0x22, 0x38, 0x00, 0x00, 0x00, 0x27, 0x80]"

theorem upload_decode_witness:
  "decode_incoming stored_lz4 (to_le_bytes 4 NET_CLONES @ 0 # sample_upload_bytes) False =
    Some \<lparr>ip_msg_type = NET_CLONES, ip_records = sample_uploads\<rparr>"
proof -
  have 1: "decompress_using_dict stored_lz4 (0 # sample_upload_bytes) INBOUND_SCRATCH = Some sample_upload_bytes"
    by (simp add: decompress_using_dict_def stored_lz4_def sample_upload_bytes_def INBOUND_SCRATCH_def)
  have 2: "bits_of_bytes sample_upload_bytes =
      concat (map (enc_inbound False) sample_uploads) @ u32_bits 3 rec_END @ replicate 7 False"
    by code_simp
  have 3: "\<forall>r\<in>set sample_uploads. valid_inbound False r"
    by (simp add: sample_uploads_def id_fits_def)
  show ?thesis using upload_decode [OF 1 2 3, of NET_CLONES] by simp
qed

text \<open>A flush between \<open>ensure_timestamp\<close> and the record leaves a fragment without its
  timestamp. Two clones of 510 to 1022 and of at least 510 bytes, appended to a new writer, are
  sent as two fragments: the first holds the timestamp and the first clone, the second holds the
  second clone alone, with no timestamp record before it.\<close>

theorem second_fragment_has_no_timestamp:
  assumes "lz4_spec lz" "valid_out False (OutClone c)" "valid_out False (OutClone d)" "uint fi < 2 ^ 56"
    and "510 \<le> length (oc_data c)" "length (oc_data c) \<le> 1022" "510 \<le> length (oc_data d)"
  shows "map (\<lambda>p. map_option dp_records (decode_downlink lz p))
      (pw_finish lz (write_clone lz t d (write_clone lz t c (pw_new mt fi False)))) =
    [Some [DlTimestamp t, view_out (OutClone c)], Some [view_out (OutClone d)]]"
proof -
  define m n where "m = length (oc_data c)" and "n = length (oc_data d)"
  have b: "bytes_for 67 = 9" by (simp add: bytes_for_def)
  have s1: "bt_write_clone False t c bt_empty =
      \<lparr>bt_done = [], bt_cur = [OutTimestamp t, OutClone c], bt_time = True\<rparr>"
    using assms(6) enc_out_sizes(3) [of False t]
    by (simp add: bt_write_clone_def bt_ensure_timestamp_def bt_maybe_flush_def bt_empty_def bt_push_def
        bt_flush_def Let_def FLUSH_BUDGET_BYTES_def b del: enc_out.simps)
  let ?x = "length (rec_bits False [OutTimestamp t, OutClone c])"
  have "223 + 8 * m \<le> ?x" by (simp add: m_def)
  then have "27 + m < bytes_for ?x" using bytes_for_bounds(1) [of ?x] by linarith
  moreover have "(195 + n * 8 + 7) div 8 = 25 + n" by simp
  ultimately have "FLUSH_BUDGET_BYTES < bytes_for ?x + (195 + n * 8 + 7) div 8 +
      (bytes_for ?x + (195 + n * 8 + 7) div 8) div 255 + 16"
    using assms(5,7) div_le_mono [of 1020 "bytes_for ?x + (25 + n)" 255]
    by (simp add: FLUSH_BUDGET_BYTES_def m_def n_def)
  then have s2: "bt_write_clone False t d (bt_write_clone False t c bt_empty) =
      \<lparr>bt_done = [[OutTimestamp t, OutClone c]], bt_cur = [OutClone d], bt_time = False\<rparr>"
    unfolding s1 by (simp add: bt_write_clone_def bt_ensure_timestamp_def bt_maybe_flush_def bt_push_def
        bt_flush_def Let_def n_def del: enc_out.simps rec_bits_simps)
  have v: "\<forall>cmd\<in>set [CmdClone t c, CmdClone t d]. valid_out False (cmd_record cmd)"
    using assms(2,3) by simp
  note ref = session_refines [OF v, unfolded pw_session_def]
  have all: "bt_all (fold (bt_exec False) [CmdClone t c, CmdClone t d] bt_empty) =
      [[OutTimestamp t, OutClone c], [OutClone d]]"
    by (simp add: s2 bt_all_def del: valid_out.simps)
  have "map (decode_downlink lz) (pw_finish lz (write_clone lz t d (write_clone lz t c (pw_new mt fi False)))) =
      map Some [frag_view mt fi False (0, [OutTimestamp t, OutClone c]), frag_view mt fi True (1, [OutClone d])]"
    using decode_fragments [OF assms(1,4) ref(2)] ref(1) [of lz mt fi] unfolding all by simp
  from arg_cong [OF this, of "map (map_option dp_records)"] show ?thesis
    by (simp add: frag_view_def comp_def)
qed

definition sample_blob_clone :: "u16 \<Rightarrow> outbound_clone" where
  "sample_blob_clone i = \<lparr>oc_sync_type = 2, oc_object_id = i, oc_owner_net_id = 1, oc_entity_type = None,
     oc_creation_token = 0, oc_uniqifier = 0x2222, oc_dependent_frame_index = 0, oc_timestamp = 0x5555,
     oc_first_frame_update = False, oc_data = replicate 600 0xAB\<rparr>"

theorem second_fragment_has_no_timestamp_witness:
  "map (\<lambda>p. map_option dp_records (decode_downlink stored_lz4 p))
      (pw_finish stored_lz4 (write_clone stored_lz4 1234 (sample_blob_clone 2)
        (write_clone stored_lz4 1234 (sample_blob_clone 1) (pw_new MSG_PACKED_CLONES 5 False)))) =
    [Some [DlTimestamp 1234, view_out (OutClone (sample_blob_clone 1))],
     Some [view_out (OutClone (sample_blob_clone 2))]]"
  by (rule second_fragment_has_no_timestamp [OF stored_lz4_spec])
    (simp_all add: sample_blob_clone_def id_fits_def rec_defs)

text \<open>The client decoder reads 13-bit ids only. A removal of object 5 sent by a writer in
  big-id mode (16-bit ids on the wire) decodes, without an error, as the removal of object 0 with
  a wrong uniqifier: \<open>decode_downlink\<close> builds its buffer without the length hack.\<close>

theorem big_id_packet_misread:
  assumes "lz4_spec lz"
  shows "map (\<lambda>p. map_option (\<lambda>d. hd (dp_records d)) (decode_downlink lz p))
      (pw_finish lz (write_remove lz True 5 9 (pw_new mt fi True))) = [Some (DlRemove True 0 0xA001)]"
proof -
  let ?rs = "[OutRemove True 5 9]"
  have v: "\<forall>cmd\<in>set [CmdRemove True 5 9]. valid_out True (cmd_record cmd)" by (simp add: id_fits_def)
  have all: "bt_all (fold (bt_exec True) [CmdRemove True 5 9] bt_empty) = [?rs]"
    by (simp add: bt_all_def bt_write_remove_def bt_push_def bt_maybe_flush_def bt_flush_def Let_def bt_empty_def)
  have p: "pw_finish lz (write_remove lz True 5 9 (pw_new mt fi True)) =
      [pack_frame lz mt (frag_frame fi True 0) (batch_body True ?rs)]"
    using session_refines(1) [OF v, unfolded pw_session_def all, of lz mt fi]
    by (simp add: frag_packets_def frag_packet_def)
  have small: "length (rec_bits True ?rs) \<le> 42000" by (simp add: eff_width_def)
  obtain pad where pad: "bits_of_bytes (batch_body True ?rs) = rec_bits True ?rs @ u32_bits 3 rec_END @ pad"
      "batch_body True ?rs \<noteq> []" "length (batch_body True ?rs) \<le> 16384"
    by (rule batch_body_bits [OF small])
  have "rec_bits True ?rs = enc_out False (OutRemove True 0 0xA001) @ [False, False, True]"
    by code_simp
  then have "downlink_records (from_bytes (batch_body True ?rs)) =
      view_out (OutRemove True 0 0xA001) #
      downlink_records (advance (length (enc_out False (OutRemove True 0 0xA001))) (from_bytes (batch_body True ?rs)))"
    using pad(1) downlink.records_step [of "from_bytes (batch_body True ?rs)" "OutRemove True 0 0xA001"]
    by (simp add: id_fits_def)
  moreover have "decompress_plain lz (compress_default lz (batch_body True ?rs)) INBOUND_SCRATCH =
      Some (batch_body True ?rs)"
    using pad by (intro decompress_compress [OF assms(1)]) (simp_all add: INBOUND_SCRATCH_def)
  ultimately show ?thesis by (simp add: p decode_downlink_def pack_frame_def Let_def)
qed

theorem big_id_packet_misread_witness:
  "map (\<lambda>p. map_option (\<lambda>d. hd (dp_records d)) (decode_downlink stored_lz4 p))
      (pw_finish stored_lz4 (write_remove stored_lz4 True 5 9 (pw_new MSG_PACKED_CLONES 1 True))) =
    [Some (DlRemove True 0 0xA001)]"
  by (rule big_id_packet_misread [OF stored_lz4_spec])

text \<open>The frame identifier is a bit field of exactly 64 bits: packing after unpacking is the
  identity on every 64-bit value, and unpacking after packing returns the flag, the fragment
  counter modulo 128 and the frame index modulo \<open>2^56\<close>.\<close>

theorem frame_id_roundtrip:
  "frame_to_u64 (frame_from_u64 v) = v \<and>
   frame_from_u64 (frame_to_u64 f) =
     \<lparr>last_fragment = last_fragment f, current_fragment = take_bit 7 (current_fragment f),
      frame_index = take_bit 56 (frame_index f)\<rparr>"
  by (simp add: frame_to_from)

end
