(* ===== verification/Byte_Cursor.thy ===== *)
theory Byte_Cursor
  imports Prelude "HOL-Library.Monad_Syntax"
begin

text \<open>
  Byte cursors: the little-endian \<open>Reader\<close> of
  \<open>crates/baston-protocol/src/rage/reliability.rs\<close>, a payload slice with an offset, whose
  reads fail past the end. A read that fails aborts the parse, so a failed read carries no state.
  The locale \<open>byte_item\<close> is the contract between a reader and the byte layout of one item;
  counted lists of items are read once, inside it.
\<close>

record byte_reader =
  rd_buf :: "u8 list"
  rd_off :: nat

type_synonym 'a byte_parser = "byte_reader \<Rightarrow> ('a \<times> byte_reader) option"

definition rd_new :: "u8 list \<Rightarrow> byte_reader" where
  "rd_new buf = \<lparr>rd_buf = buf, rd_off = 0\<rparr>"

text \<open>The checked slice \<open>buf.get(a..b)\<close>.\<close>

definition slice_get :: "'a list \<Rightarrow> nat \<Rightarrow> nat \<Rightarrow> 'a list option" where
  "slice_get xs a b = (if a \<le> b \<and> b \<le> length xs then Some (take (b - a) (drop a xs)) else None)"

definition rd_u8 :: "u8 byte_parser" where
  "rd_u8 r = (if rd_off r < length (rd_buf r)
     then Some (rd_buf r ! rd_off r, r\<lparr>rd_off := rd_off r + 1\<rparr>) else None)"

definition rd_u16 :: "u16 byte_parser" where
  "rd_u16 r = do {
     s \<leftarrow> slice_get (rd_buf r) (rd_off r) (rd_off r + 2);
     Some (from_le_bytes s, r\<lparr>rd_off := rd_off r + 2\<rparr>) }"

definition rd_u64 :: "u64 byte_parser" where
  "rd_u64 r = do {
     s \<leftarrow> slice_get (rd_buf r) (rd_off r) (rd_off r + 8);
     Some (from_le_bytes s, r\<lparr>rd_off := rd_off r + 8\<rparr>) }"

text \<open>A \<open>for _ in 0..count\<close> loop that pushes one item per round and stops at the first failure.\<close>

fun rd_count :: "'a byte_parser \<Rightarrow> nat \<Rightarrow> 'a list byte_parser" where
  "rd_count m 0 r = Some ([], r)"
| "rd_count m (Suc n) r = do {
     (x, r1) \<leftarrow> m r;
     (xs, r2) \<leftarrow> rd_count m n r1;
     Some (x # xs, r2) }"

section \<open>Consuming a byte string\<close>

definition consumes :: "'a byte_parser \<Rightarrow> u8 list \<Rightarrow> 'a \<Rightarrow> bool" where
  "consumes m xs v \<longleftrightarrow> (\<forall>pre post.
     m \<lparr>rd_buf = pre @ xs @ post, rd_off = length pre\<rparr> =
       Some (v, \<lparr>rd_buf = pre @ xs @ post, rd_off = length pre + length xs\<rparr>))"

lemma consumes_ret: "v = w \<Longrightarrow> consumes (\<lambda>r. Some (v, r)) [] w"
  by (simp add: consumes_def)

lemma consumes_bind:
  assumes "consumes m xs x" "consumes (k x) ys y"
  shows "consumes (\<lambda>r. do { (x, r1) \<leftarrow> m r; k x r1 }) (xs @ ys) y"
  unfolding consumes_def
proof (intro allI)
  fix pre post
  have "m \<lparr>rd_buf = pre @ xs @ ys @ post, rd_off = length pre\<rparr> =
      Some (x, \<lparr>rd_buf = pre @ xs @ ys @ post, rd_off = length pre + length xs\<rparr>)"
    using assms(1) by (simp add: consumes_def)
  moreover have "k x \<lparr>rd_buf = (pre @ xs) @ ys @ post, rd_off = length (pre @ xs)\<rparr> =
      Some (y, \<lparr>rd_buf = (pre @ xs) @ ys @ post, rd_off = length (pre @ xs) + length ys\<rparr>)"
    using assms(2) by (simp only: consumes_def)
  ultimately show "do { (x, r1) \<leftarrow> m \<lparr>rd_buf = pre @ (xs @ ys) @ post, rd_off = length pre\<rparr>; k x r1 } =
      Some (y, \<lparr>rd_buf = pre @ (xs @ ys) @ post, rd_off = length pre + length (xs @ ys)\<rparr>)"
    by (simp add: add.assoc)
qed

lemma consumes_if:
  "(c \<Longrightarrow> consumes m xs v) \<Longrightarrow> (\<not> c \<Longrightarrow> consumes m' ys v) \<Longrightarrow>
    consumes (if c then m else m') (if c then xs else ys) v"
  by simp

lemma consumes_u8: "consumes rd_u8 [b] b"
  by (simp add: consumes_def rd_u8_def nth_append)

lemma le_bytes_full [simp]:
  "from_le_bytes (to_le_bytes 2 (w::u16)) = w" "from_le_bytes (to_le_bytes 8 (v::u64)) = v"
  "from_le_bytes (to_le_bytes 4 (u::u32)) = u"
  using take_bit_word_fits [of 16 w] take_bit_word_fits [of 64 v] take_bit_word_fits [of 32 u]
    uint_lt2p [of w] uint_lt2p [of v] uint_lt2p [of u] by simp_all

lemma consumes_u16: "consumes rd_u16 (to_le_bytes 2 w) w"
  by (simp add: consumes_def rd_u16_def slice_get_def)

lemma consumes_u64: "consumes rd_u64 (to_le_bytes 8 w) w"
  by (simp add: consumes_def rd_u64_def slice_get_def)

lemma consumes_start: "consumes m xs v \<Longrightarrow>
    m (rd_new (xs @ post)) = Some (v, \<lparr>rd_buf = xs @ post, rd_off = length xs\<rparr>)"
  unfolding consumes_def rd_new_def by (metis append_Nil list.size(3) add_0)

section \<open>Truncation\<close>

text \<open>A parser is \<open>stable_parser\<close> if a successful run stays inside the buffer and does not depend on
  the bytes behind the ones it read. A stable parser fails on every proper prefix of a layout it
  consumes.\<close>

definition stable_parser :: "'a byte_parser \<Rightarrow> bool" where
  "stable_parser m \<longleftrightarrow> (\<forall>buf off tail_bytes v r. off \<le> length buf \<longrightarrow> m \<lparr>rd_buf = buf, rd_off = off\<rparr> = Some (v, r) \<longrightarrow>
     (\<exists>k. r = \<lparr>rd_buf = buf, rd_off = k\<rparr> \<and> k \<le> length buf \<and>
       m \<lparr>rd_buf = buf @ tail_bytes, rd_off = off\<rparr> = Some (v, \<lparr>rd_buf = buf @ tail_bytes, rd_off = k\<rparr>)))"

lemma stableD:
  "stable_parser m \<Longrightarrow> off \<le> length buf \<Longrightarrow> m \<lparr>rd_buf = buf, rd_off = off\<rparr> = Some (v, r) \<Longrightarrow>
    \<exists>k. r = \<lparr>rd_buf = buf, rd_off = k\<rparr> \<and> k \<le> length buf \<and>
       m \<lparr>rd_buf = buf @ tail_bytes, rd_off = off\<rparr> = Some (v, \<lparr>rd_buf = buf @ tail_bytes, rd_off = k\<rparr>)"
  unfolding stable_parser_def by blast

lemma stable_ret [reader_intro]: "stable_parser (\<lambda>r. Some (x, r))"
  by (simp add: stable_parser_def)

lemma stable_bind [reader_intro]:
  assumes "stable_parser m" "\<And>x. stable_parser (k x)"
  shows "stable_parser (\<lambda>r. do { (x, r1) \<leftarrow> m r; k x r1 })"
  unfolding stable_parser_def
proof (intro allI impI)
  fix buf off tail_bytes v r
  assume off: "off \<le> length buf"
    and run: "do { (x, r1) \<leftarrow> m \<lparr>rd_buf = buf, rd_off = off\<rparr>; k x r1 } = Some (v, r)"
  then obtain x r1 where m: "m \<lparr>rd_buf = buf, rd_off = off\<rparr> = Some (x, r1)" and k: "k x r1 = Some (v, r)"
    by (auto split: bind_splits)
  from stableD [OF assms(1) off m, of tail_bytes] obtain i where i: "r1 = \<lparr>rd_buf = buf, rd_off = i\<rparr>"
      "i \<le> length buf"
      "m \<lparr>rd_buf = buf @ tail_bytes, rd_off = off\<rparr> = Some (x, \<lparr>rd_buf = buf @ tail_bytes, rd_off = i\<rparr>)" by blast
  show "\<exists>j. r = \<lparr>rd_buf = buf, rd_off = j\<rparr> \<and> j \<le> length buf \<and>
      do { (x, r1) \<leftarrow> m \<lparr>rd_buf = buf @ tail_bytes, rd_off = off\<rparr>; k x r1 } =
        Some (v, \<lparr>rd_buf = buf @ tail_bytes, rd_off = j\<rparr>)"
    using stableD [OF assms(2) i(2) k [unfolded i(1)], of tail_bytes] i(3) by auto
qed

lemma stable_if [reader_intro]: "stable_parser m \<Longrightarrow> stable_parser m' \<Longrightarrow> stable_parser (if c then m else m')"
  by simp

lemma stable_u8 [reader_intro]: "stable_parser rd_u8"
  by (auto simp: stable_parser_def rd_u8_def nth_append split: if_splits)

lemma stable_u16 [reader_intro]: "stable_parser rd_u16"
  by (auto simp: stable_parser_def rd_u16_def slice_get_def split: if_splits)

lemma stable_u64 [reader_intro]: "stable_parser rd_u64"
  by (auto simp: stable_parser_def rd_u64_def slice_get_def split: if_splits)

lemma stable_count [reader_intro]: "stable_parser m \<Longrightarrow> stable_parser (rd_count m n)"
proof (induction n)
  case 0
  have "rd_count m 0 = (\<lambda>r. Some ([], r))" by (rule ext) simp
  then show ?case by (simp add: stable_ret)
next
  case (Suc n)
  have "rd_count m (Suc n) = (\<lambda>r. do { (x, r1) \<leftarrow> m r; (xs, r2) \<leftarrow> rd_count m n r1; Some (x # xs, r2) })"
    by (rule ext) simp
  then show ?case by (simp only:) (intro reader_intro Suc.prems Suc.IH)
qed

lemma truncated_fails:
  assumes "consumes m xs v" "stable_parser m" "k < length xs"
  shows "m (rd_new (take k xs)) = None"
proof (rule ccontr)
  assume "m (rd_new (take k xs)) \<noteq> None"
  then obtain w r where "m \<lparr>rd_buf = take k xs, rd_off = 0\<rparr> = Some (w, r)"
    by (auto simp: rd_new_def)
  from stableD [OF assms(2) _ this, of "drop k xs"] obtain j where
    "j \<le> length (take k xs)" "m \<lparr>rd_buf = xs, rd_off = 0\<rparr> = Some (w, \<lparr>rd_buf = xs, rd_off = j\<rparr>)" by auto
  with consumes_start [OF assms(1), of "[]"] assms(3) show False by (simp add: rd_new_def)
qed

section \<open>Counted lists\<close>

locale byte_item =
  fixes rd :: "'a byte_parser" and enc :: "'a \<Rightarrow> u8 list"
  assumes item_law: "consumes rd (enc a) a"
begin

lemma count_law: "consumes (rd_count rd (length as)) (concat (map enc as)) as"
proof (induction as)
  case Nil
  have "rd_count rd 0 = (\<lambda>r. Some ([], r))" by (rule ext) simp
  then show ?case by (simp add: consumes_ret)
next
  case (Cons a as)
  have "consumes (\<lambda>r. do { (x, r1) \<leftarrow> rd r; (\<lambda>r. do { (xs, r2) \<leftarrow> rd_count rd (length as) r; Some (x # xs, r2) }) r1 })
      (enc a @ (concat (map enc as) @ [])) (a # as)"
    by (rule consumes_bind [OF item_law], rule consumes_bind [OF Cons.IH], rule consumes_ret) simp
  moreover have "rd_count rd (Suc (length as)) =
      (\<lambda>r. do { (x, r1) \<leftarrow> rd r; (xs, r2) \<leftarrow> rd_count rd (length as) r1; Some (x # xs, r2) })"
    by (rule ext) simp
  ultimately show ?case by simp
qed

end

interpretation u16_item: byte_item rd_u16 "to_le_bytes 2"
  by unfold_locales (rule consumes_u16)

end
