(* ===== verification/Object_Ids.thy ===== *)
theory Object_Ids
  imports Byte_Cursor Udp
begin

text \<open>
  Object-id leasing, \<open>crates/baston-protocol/src/rage/object_ids.rs\<close>: the run-length
  compression of an id list, its decompression and the \<open>msgObjectIds\<close> packet. The addition
  \<open>ids[i - 1] + 1\<close> is checked arithmetic: its overflow is the value \<open>None\<close>, and the
  round trip shows that a sorted id list never reaches it.
\<close>

definition MSG_OBJECT_IDS :: u32 where "MSG_OBJECT_IDS = hash_rage_string ''msgObjectIds''"
definition MSG_REQUEST_OBJECT_IDS :: u32 where
  "MSG_REQUEST_OBJECT_IDS = hash_rage_string ''msgRequestObjectIds''"

definition ids_per_request :: "bool \<Rightarrow> nat" where
  "ids_per_request big_mode = (if big_mode then 6 else 32)"

definition checked_succ :: "u16 \<Rightarrow> u16 option" where
  "checked_succ v = (if v = - 1 then None else Some (v + 1))"

text \<open>The inner loop: extend the run while the next id follows the previous one.\<close>

fun id_run :: "u16 \<Rightarrow> u16 \<Rightarrow> u16 list \<Rightarrow> (u16 \<times> u16 \<times> u16 list) option" where
  "id_run prev sz [] = Some (sz, prev, [])"
| "id_run prev sz (x # xs) = do {
     next \<leftarrow> checked_succ prev;
     if x \<noteq> next then Some (sz, prev, x # xs)
     else do { sz' \<leftarrow> checked_succ sz; id_run x sz' xs } }"

lemma id_run_shorter: "id_run p s xs = Some (s', p', r) \<Longrightarrow> length r \<le> length xs"
  by (induction p s xs rule: id_run.induct) (fastforce split: if_splits bind_splits)+

function compress_from :: "int \<Rightarrow> u16 list \<Rightarrow> (u16 \<times> u16) list option" where
  "compress_from prior [] = Some []"
| "compress_from prior (x # xs) =
     (let gap = word_of_int (uint x - 2 - prior)
      in case id_run x 0 xs of
           None \<Rightarrow> None
         | Some (sz, prev, rest) \<Rightarrow>
             (case compress_from (uint prev) rest of
                None \<Rightarrow> None | Some es \<Rightarrow> Some ((gap, sz) # es)))"
  by pat_completeness auto
termination
  by (relation "measure (\<lambda>(_, xs). length xs)") (auto dest!: id_run_shorter)

definition compress :: "u16 list \<Rightarrow> (u16 \<times> u16) list option" where
  "compress ids = compress_from (- 1) ids"

definition emit_run :: "u16 \<Rightarrow> u16 \<Rightarrow> u16 list \<times> u16" where
  "emit_run prior sz = fold (\<lambda>_ (ids, l). (ids @ [l], l + 1)) [0..<Suc (unat sz)] ([], prior)"

fun decompress_from :: "u16 \<Rightarrow> (u16 \<times> u16) list \<Rightarrow> u16 list" where
  "decompress_from prior [] = []"
| "decompress_from prior ((gap, sz) # es) =
     (case emit_run (prior + (gap + 1)) sz of (ids, prior') \<Rightarrow> ids @ decompress_from prior' es)"

definition decompress :: "(u16 \<times> u16) list \<Rightarrow> u16 list" where
  "decompress es = decompress_from 0 es"

definition enc_entry :: "u16 \<times> u16 \<Rightarrow> u8 list" where
  "enc_entry e = (case e of (gap, sz) \<Rightarrow> to_le_bytes 2 gap @ to_le_bytes 2 sz)"

definition build_object_ids :: "u16 list \<Rightarrow> u8 list option" where
  "build_object_ids ids = (case compress ids of
       None \<Rightarrow> None
     | Some es \<Rightarrow> Some (to_le_bytes 4 MSG_OBJECT_IDS @
         to_le_bytes 2 (of_nat (length es) :: u16) @ concat (map enc_entry es)))"

definition rd_entry :: "(u16 \<times> u16) byte_parser" where
  "rd_entry r = do {
     gap \<leftarrow> slice_get (rd_buf r) (rd_off r) (rd_off r + 2);
     sz \<leftarrow> slice_get (rd_buf r) (rd_off r + 2) (rd_off r + 4);
     Some ((from_le_bytes gap, from_le_bytes sz), r\<lparr>rd_off := rd_off r + 4\<rparr>) }"

definition parse_object_ids :: "u8 list \<Rightarrow> u16 list option" where
  "parse_object_ids payload =
     (if length payload < 2 then None
      else let count = unat (from_le_bytes (take 2 payload) :: u16)
           in case rd_count rd_entry count \<lparr>rd_buf = payload, rd_off = 2\<rparr> of
                None \<Rightarrow> None
              | Some (es, _) \<Rightarrow> Some (decompress es))"

section \<open>The round trip\<close>

lemma consumes_entry: "consumes rd_entry (enc_entry e) e"
  by (simp add: consumes_def rd_entry_def enc_entry_def slice_get_def split: prod.splits)

interpretation entry_item: byte_item rd_entry enc_entry
  by unfold_locales (rule consumes_entry)

definition run_from :: "u16 \<Rightarrow> nat \<Rightarrow> u16 list" where
  "run_from x n = map (\<lambda>k. x + of_nat k) [0..<n]"

lemma emit_fold: "fold (\<lambda>_ (ids, l). (ids @ [l], l + 1)) [0..<n] ([], x) = (run_from x n, x + of_nat n)"
  by (induction n) (simp_all add: run_from_def)

lemma emit_run_eq: "emit_run x s = (run_from x (Suc (unat s)), x + of_nat (Suc (unat s)))"
  unfolding emit_run_def by (rule emit_fold)

lemma run_from_Suc: "run_from x (Suc n) = x # run_from (x + 1) n"
  unfolding run_from_def upt_rec [of 0 "Suc n"] map_Suc_upt [symmetric]
  by (simp add: comp_def algebra_simps del: upt_Suc)

lemma succ_of_less: "(x::u16) < y \<Longrightarrow> checked_succ x = Some (x + 1)"
  by (metis checked_succ_def word_n1_ge not_less)

lemma uint_succ_of_less:
  assumes "(x::u16) < y"
  shows "uint (x + 1) = uint x + 1"
proof -
  have "uint x + 1 < 2 ^ 16" using assms uint_lt2p [of y] by (simp add: word_less_def)
  then show ?thesis by (simp add: uint_word_ariths)
qed

text \<open>One run of a strictly increasing list: the ids it covers, where it stops and its size.\<close>

lemma id_run_sorted:
  assumes "sorted_wrt (<) (p # xs)" "unat s + length xs < 65536"
  obtains n rest where "id_run p s xs = Some (s + of_nat n, p + of_nat n, rest)"
    "p # xs = run_from p (Suc n) @ rest" "uint (p + of_nat n) = uint p + int n"
    "\<forall>x\<in>set rest. uint (p + of_nat n) + 2 \<le> uint x" "sorted_wrt (<) rest"
    "n + length rest = length xs"
  using assms
proof (induction xs arbitrary: p s thesis)
  case Nil
  then show ?case by (simp add: run_from_def)
next
  case (Cons x xs)
  have lt: "p < x" using Cons.prems(2) by simp
  note s1 = succ_of_less [OF lt] uint_succ_of_less [OF lt]
  show ?case
  proof (cases "x = p + 1")
    case True
    have "s \<noteq> - 1"
      using Cons.prems(3) by (auto simp: unsigned_minus_1_eq_mask mask_eq_exp_minus_1)
    then have s': "checked_succ s = Some (s + 1)" "unat (s + 1) = unat s + 1"
      using Cons.prems(3) by (simp_all add: checked_succ_def unat_plus_if')
    obtain n rest where ih: "id_run x (s + 1) xs = Some (s + 1 + of_nat n, x + of_nat n, rest)"
        "x # xs = run_from x (Suc n) @ rest" "uint (x + of_nat n) = uint x + int n"
        "\<forall>z\<in>set rest. uint (x + of_nat n) + 2 \<le> uint z" "sorted_wrt (<) rest"
        "n + length rest = length xs"
      using Cons.IH [of x "s + 1"] Cons.prems(2,3) s' by auto
    have e: "p + of_nat (Suc n) = x + of_nat n" by (simp add: True algebra_simps)
    have "id_run p s (x # xs) = Some (s + of_nat (Suc n), p + of_nat (Suc n), rest)"
      using ih(1) s1 s' True by (simp add: algebra_simps)
    moreover have "p # x # xs = run_from p (Suc (Suc n)) @ rest"
      using ih(2) unfolding run_from_Suc [of p] by (simp add: True)
    moreover have "uint (p + of_nat (Suc n)) = uint p + int (Suc n)"
      using ih(3) s1(2) unfolding e by (simp add: True)
    moreover have "\<forall>z\<in>set rest. uint (p + of_nat (Suc n)) + 2 \<le> uint z"
      using ih(4) unfolding e .
    moreover have "Suc n + length rest = length (x # xs)" using ih(6) by simp
    ultimately show ?thesis using Cons.prems(1) ih(5) by blast
  next
    case False
    have "uint p + 2 \<le> uint z" if "z \<in> set (x # xs)" for z
    proof -
      have "uint x \<le> uint z" using that Cons.prems(2) by (auto simp: word_less_def)
      moreover have "uint x \<noteq> uint p + 1" using False s1(2) by (auto simp: word_uint_eq_iff)
      ultimately show ?thesis using lt by (simp add: word_less_def)
    qed
    then show ?thesis
      by (intro Cons.prems(1) [of 0 "x # xs"])
        (use s1 False Cons.prems(2) in \<open>simp_all add: run_from_def\<close>)
  qed
qed

lemma compress_from_sorted:
  assumes "sorted_wrt (<) ids" "length ids \<le> 65536" "\<forall>x\<in>set ids. lo \<le> uint x" "lo \<le> 65537"
  shows "\<exists>es. compress_from prior ids = Some es \<and>
    decompress_from (word_of_int (prior + 1)) es = ids \<and> 2 * int (length es) \<le> 65537 - lo"
  using assms
proof (induction "length ids" arbitrary: ids prior lo rule: less_induct)
  case less
  show ?case
  proof (cases ids)
    case Nil
    then show ?thesis using less.prems(4) by simp
  next
    case (Cons x xs)
    have "unat (0::u16) + length xs < 65536" using Cons less.prems(2) by simp
    with less.prems(1) obtain n rest where run: "id_run x 0 xs = Some (of_nat n, x + of_nat n, rest)"
        "x # xs = run_from x (Suc n) @ rest" "uint (x + of_nat n) = uint x + int n"
        "\<forall>z\<in>set rest. uint (x + of_nat n) + 2 \<le> uint z" "sorted_wrt (<) rest"
        "n + length rest = length xs"
      unfolding Cons by (rule id_run_sorted) auto
    let ?p = "x + of_nat n"
    have "length rest < length ids" "length rest \<le> 65536" "uint ?p + 2 \<le> 65537"
      using Cons run(6) less.prems(2) uint_lt2p [of ?p] by simp_all
    with less.hyps [of rest "uint ?p + 2" "uint ?p"] run(4,5) obtain es where
      es: "compress_from (uint ?p) rest = Some es"
        "decompress_from (word_of_int (uint ?p + 1)) es = rest"
        "2 * int (length es) \<le> 65537 - (uint ?p + 2)" by auto
    have "n < 65536" using run(6) Cons less.prems(2) by simp
    then have n: "unat (of_nat n :: u16) = n" by (simp add: unsigned_of_nat take_bit_nat_eq_self)
    have start: "word_of_int (prior + 1) + (word_of_int (uint x - 2 - prior) + 1) = x"
      by (simp add: algebra_simps)
    have next_word: "(word_of_int (uint ?p + 1) :: u16) = x + of_nat (Suc n)"
      by (simp add: algebra_simps)
    have "decompress_from (word_of_int (prior + 1)) ((word_of_int (uint x - 2 - prior), of_nat n) # es) = ids"
      using es(2) run(2) n unfolding Cons decompress_from.simps start emit_run_eq next_word by simp
    moreover have "2 * int (length ((word_of_int (uint x - 2 - prior), of_nat n) # es)) \<le> 65537 - lo"
      using es(3) run(3) less.prems(3) Cons by simp
    ultimately show ?thesis using run(1) es(1) Cons by (simp add: Let_def)
  qed
qed

lemma sorted_u16_length:
  assumes "sorted_wrt (<) (ids :: u16 list)"
  shows "length ids \<le> 65536"
proof -
  have "distinct ids" using assms strict_sorted_iff by blast
  then have "length ids = card (set ids)" by (simp add: distinct_card)
  also have "\<dots> \<le> card (UNIV :: u16 set)" by (rule card_mono) simp_all
  finally show ?thesis by (simp add: card_word)
qed

lemma compress_sorted:
  assumes "sorted_wrt (<) ids"
  obtains es where "compress ids = Some es" "decompress es = ids" "length es < 65536"
  using compress_from_sorted [OF assms sorted_u16_length [OF assms], of 0 "- 1"]
  by (auto simp: compress_def decompress_def)

section \<open>Properties\<close>

lemma object_ids_packet:
  assumes "sorted_wrt (<) ids"
  shows "\<exists>packet. build_object_ids ids = Some packet \<and>
    take 4 packet = to_le_bytes 4 MSG_OBJECT_IDS \<and> parse_object_ids (drop 4 packet) = Some ids"
proof -
  obtain es where es: "compress ids = Some es" "decompress es = ids" "length es < 65536"
    by (rule compress_sorted [OF assms])
  let ?pre = "to_le_bytes 2 (of_nat (length es) :: u16)"
  have "unat (of_nat (length es) :: u16) = length es"
    using es(3) by (simp add: unsigned_of_nat take_bit_nat_eq_self)
  moreover have "rd_count rd_entry (length es) \<lparr>rd_buf = ?pre @ concat (map enc_entry es) @ [], rd_off = length ?pre\<rparr> =
      Some (es, \<lparr>rd_buf = ?pre @ concat (map enc_entry es) @ [], rd_off = length ?pre + length (concat (map enc_entry es))\<rparr>)"
    using entry_item.count_law [of es] unfolding consumes_def by blast
  ultimately show ?thesis
    using es by (simp add: build_object_ids_def parse_object_ids_def Let_def)
qed

text \<open>The id grant round trip. For every strictly increasing id list, including one that
  starts at id 0 (whose gap wraps) or ends at 65535, the compression never overflows, the entry
  count fits its 16-bit field, and parsing the packet behind its type word returns exactly the
  ids.\<close>

theorem object_ids_roundtrip:
  assumes "sorted_wrt (<) ids"
  shows "\<exists>packet. build_object_ids ids = Some packet \<and>
    take 4 packet = to_le_bytes 4 MSG_OBJECT_IDS \<and> parse_object_ids (drop 4 packet) = Some ids"
  by (rule object_ids_packet [OF assms])

theorem object_ids_roundtrip_witness:
  "\<exists>packet. build_object_ids [0, 1, 2, 7, 65534, 65535] = Some packet \<and>
    take 4 packet = to_le_bytes 4 MSG_OBJECT_IDS \<and>
    parse_object_ids (drop 4 packet) = Some [0, 1, 2, 7, 65534, 65535]"
  by (rule object_ids_roundtrip) simp

end
