(* ===== verification/Reliability.thy ===== *)
theory Reliability
  imports Byte_Cursor Udp
begin

text \<open>
  Reliability packets, \<open>crates/baston-protocol/src/rage/reliability.rs\<close>: the
  \<open>gameStateNAck\<close> and \<open>gameStateAck\<close> parsers, field by field over the byte cursor, and the
  nack builder.
\<close>

definition GAME_STATE_NACK :: u32 where "GAME_STATE_NACK = hash_rage_string ''gameStateNAck''"
definition GAME_STATE_ACK :: u32 where "GAME_STATE_ACK = hash_rage_string ''gameStateAck''"

definition IS_MISSING_FRAMES :: u8 where "IS_MISSING_FRAMES = push_bit 0 1"
definition HAS_IGNORE_LIST :: u8 where "HAS_IGNORE_LIST = push_bit 1 1"
definition HAS_RECREATE_LIST :: u8 where "HAS_RECREATE_LIST = push_bit 2 1"
definition HAS_IGNORE_LIST_ENTRY_RESEND_FRAME :: u8 where
  "HAS_IGNORE_LIST_ENTRY_RESEND_FRAME = push_bit 3 1"

record ignore_entry =
  ie_object_id :: u16
  ie_last_frame :: u64

record game_state_nack =
  nk_flags :: u8
  nk_frame_index :: u64
  nk_missing_frames :: "(u64 \<times> u64) option"
  nk_ignore_list :: "ignore_entry list"
  nk_recreate_list :: "u16 list"

record game_state_ack =
  ak_frame_index :: u64
  ak_ignore_list :: "ignore_entry list"
  ak_recreate_list :: "u16 list"

definition rd_ignore_entry :: "ignore_entry byte_parser" where
  "rd_ignore_entry r = do {
     (object_id, r1) \<leftarrow> rd_u16 r;
     (last_frame, r2) \<leftarrow> rd_u64 r1;
     Some (\<lparr>ie_object_id = object_id, ie_last_frame = last_frame\<rparr>, r2) }"

definition rd_ignore_list :: "ignore_entry list byte_parser" where
  "rd_ignore_list r = do { (count, r1) \<leftarrow> rd_u8 r; rd_count rd_ignore_entry (unat count) r1 }"

definition rd_recreate_list :: "u16 list byte_parser" where
  "rd_recreate_list r = do { (count, r1) \<leftarrow> rd_u8 r; rd_count rd_u16 (unat count) r1 }"

definition rd_missing_frames :: "u8 \<Rightarrow> (u64 \<times> u64) option byte_parser" where
  "rd_missing_frames flags =
     (if flags AND IS_MISSING_FRAMES \<noteq> 0
      then (\<lambda>r. do { (first, r1) \<leftarrow> rd_u64 r; (lst, r2) \<leftarrow> rd_u64 r1; Some (Some (first, lst), r2) })
      else (\<lambda>r. Some (None, r)))"

definition rd_nack :: "game_state_nack byte_parser" where
  "rd_nack r = do {
     (flags, r1) \<leftarrow> rd_u8 r;
     (frame_index, r2) \<leftarrow> rd_u64 r1;
     (missing_frames, r3) \<leftarrow> rd_missing_frames flags r2;
     (ignore_list, r4) \<leftarrow> (if flags AND HAS_IGNORE_LIST \<noteq> 0 then rd_ignore_list else (\<lambda>r. Some ([], r))) r3;
     (recreate_list, r5) \<leftarrow> (if flags AND HAS_RECREATE_LIST \<noteq> 0 then rd_recreate_list else (\<lambda>r. Some ([], r))) r4;
     Some (\<lparr>nk_flags = flags, nk_frame_index = frame_index, nk_missing_frames = missing_frames,
            nk_ignore_list = ignore_list, nk_recreate_list = recreate_list\<rparr>, r5) }"

definition parse_nack :: "u8 list \<Rightarrow> game_state_nack option" where
  "parse_nack payload = map_option fst (rd_nack (rd_new payload))"

definition rd_ack :: "game_state_ack byte_parser" where
  "rd_ack r = do {
     (frame_index, r1) \<leftarrow> rd_u64 r;
     (ignore_list, r2) \<leftarrow> rd_ignore_list r1;
     (recreate_list, r3) \<leftarrow> rd_recreate_list r2;
     Some (\<lparr>ak_frame_index = frame_index, ak_ignore_list = ignore_list,
            ak_recreate_list = recreate_list\<rparr>, r3) }"

definition parse_ack :: "u8 list \<Rightarrow> game_state_ack option" where
  "parse_ack payload = map_option fst (rd_ack (rd_new payload))"

definition enc_ignore_entry :: "ignore_entry \<Rightarrow> u8 list" where
  "enc_ignore_entry e = to_le_bytes 2 (ie_object_id e) @ to_le_bytes 8 (ie_last_frame e)"

definition build_nack :: "game_state_nack \<Rightarrow> u8 list" where
  "build_nack nack =
     [nk_flags nack] @ to_le_bytes 8 (nk_frame_index nack) @
     (case nk_missing_frames nack of
        Some (first, lst) \<Rightarrow> to_le_bytes 8 first @ to_le_bytes 8 lst
      | None \<Rightarrow> []) @
     (if nk_flags nack AND HAS_IGNORE_LIST \<noteq> 0
      then of_nat (length (nk_ignore_list nack)) # concat (map enc_ignore_entry (nk_ignore_list nack))
      else []) @
     (if nk_flags nack AND HAS_RECREATE_LIST \<noteq> 0
      then of_nat (length (nk_recreate_list nack)) # concat (map (to_le_bytes 2) (nk_recreate_list nack))
      else [])"

section \<open>Layouts\<close>

text \<open>A nack whose flags say what it carries and whose lists fit their 8-bit counts.\<close>

definition consistent_nack :: "game_state_nack \<Rightarrow> bool" where
  "consistent_nack n \<longleftrightarrow>
     (nk_flags n AND IS_MISSING_FRAMES \<noteq> 0 \<longleftrightarrow> nk_missing_frames n \<noteq> None) \<and>
     (nk_flags n AND HAS_IGNORE_LIST = 0 \<longrightarrow> nk_ignore_list n = []) \<and>
     (nk_flags n AND HAS_RECREATE_LIST = 0 \<longrightarrow> nk_recreate_list n = []) \<and>
     length (nk_ignore_list n) < 256 \<and> length (nk_recreate_list n) < 256"

definition enc_ack :: "game_state_ack \<Rightarrow> u8 list" where
  "enc_ack a = to_le_bytes 8 (ak_frame_index a) @
     (of_nat (length (ak_ignore_list a)) # concat (map enc_ignore_entry (ak_ignore_list a))) @
     (of_nat (length (ak_recreate_list a)) # concat (map (to_le_bytes 2) (ak_recreate_list a)))"

lemma consumes_ignore_entry: "consumes rd_ignore_entry (enc_ignore_entry e) e"
proof -
  have "consumes rd_ignore_entry (to_le_bytes 2 (ie_object_id e) @ (to_le_bytes 8 (ie_last_frame e) @ [])) e"
    unfolding rd_ignore_entry_def
    by (rule consumes_bind [OF consumes_u16], rule consumes_bind [OF consumes_u64], rule consumes_ret) simp
  then show ?thesis by (simp add: enc_ignore_entry_def)
qed

interpretation ignore_item: byte_item rd_ignore_entry enc_ignore_entry
  by unfold_locales (rule consumes_ignore_entry)

lemma unat_count: "n < 256 \<Longrightarrow> unat (of_nat n :: u8) = n"
  by (simp add: unsigned_of_nat take_bit_nat_eq_self)

lemma consumes_counted:
  assumes "consumes (rd_count m (length xs)) ys xs" "length xs < 256"
  shows "consumes (\<lambda>r. do { (count, r1) \<leftarrow> rd_u8 r; rd_count m (unat count) r1 }) (of_nat (length xs) # ys) xs"
  using consumes_bind [OF consumes_u8, of "\<lambda>c. rd_count m (unat c)" "of_nat (length xs)"] assms
  by (simp add: unat_count)

lemma consumes_ignore_list:
  "length xs < 256 \<Longrightarrow> consumes rd_ignore_list (of_nat (length xs) # concat (map enc_ignore_entry xs)) xs"
  unfolding rd_ignore_list_def by (rule consumes_counted [OF ignore_item.count_law])

lemma consumes_recreate_list:
  "length xs < 256 \<Longrightarrow> consumes rd_recreate_list (of_nat (length xs) # concat (map (to_le_bytes 2) xs)) xs"
  unfolding rd_recreate_list_def by (rule consumes_counted [OF u16_item.count_law])

lemma consumes_missing:
  assumes "flags AND IS_MISSING_FRAMES \<noteq> 0 \<longleftrightarrow> m \<noteq> None"
  shows "consumes (rd_missing_frames flags)
    (case m of Some (first, lst) \<Rightarrow> to_le_bytes 8 first @ to_le_bytes 8 lst | None \<Rightarrow> []) m"
proof (cases m)
  case None
  then show ?thesis using assms by (simp add: rd_missing_frames_def consumes_ret)
next
  case (Some p)
  obtain first lst where p: "p = (first, lst)" by fastforce
  have "consumes (\<lambda>r. do { (first, r1) \<leftarrow> rd_u64 r; (lst, r2) \<leftarrow> rd_u64 r1; Some (Some (first, lst), r2) })
      (to_le_bytes 8 first @ (to_le_bytes 8 lst @ [])) (Some (first, lst))"
    by (rule consumes_bind [OF consumes_u64], rule consumes_bind [OF consumes_u64], rule consumes_ret) simp
  then show ?thesis using assms Some p by (simp add: rd_missing_frames_def)
qed

lemma consumes_nack:
  assumes "consistent_nack n"
  shows "consumes rd_nack (build_nack n @ []) n"
  unfolding rd_nack_def build_nack_def append_assoc
  by (rule consumes_bind [OF consumes_u8], rule consumes_bind [OF consumes_u64],
      rule consumes_bind [OF consumes_missing], use assms in \<open>simp add: consistent_nack_def\<close>,
      rule consumes_bind [OF consumes_if [where v = "nk_ignore_list n"]],
      use assms in \<open>simp add: consistent_nack_def consumes_ignore_list\<close>,
      use assms in \<open>simp add: consistent_nack_def consumes_ret\<close>,
      rule consumes_bind [OF consumes_if [where v = "nk_recreate_list n"]],
      use assms in \<open>simp add: consistent_nack_def consumes_recreate_list\<close>,
      use assms in \<open>simp add: consistent_nack_def consumes_ret\<close>,
      rule consumes_ret) simp

lemma consumes_ack:
  assumes "length (ak_ignore_list a) < 256" "length (ak_recreate_list a) < 256"
  shows "consumes rd_ack (enc_ack a @ []) a"
  unfolding rd_ack_def enc_ack_def append_assoc
  by (rule consumes_bind [OF consumes_u64], rule consumes_bind [OF consumes_ignore_list [OF assms(1)]],
      rule consumes_bind [OF consumes_recreate_list [OF assms(2)]], rule consumes_ret) simp

lemma stable_ignore_list [reader_intro]: "stable_parser rd_ignore_list"
proof -
  have "stable_parser rd_ignore_entry" unfolding rd_ignore_entry_def by (intro reader_intro)
  then show ?thesis unfolding rd_ignore_list_def by (intro reader_intro)
qed

lemma stable_recreate_list [reader_intro]: "stable_parser rd_recreate_list"
  unfolding rd_recreate_list_def by (intro reader_intro)

lemma stable_ack: "stable_parser rd_ack"
  unfolding rd_ack_def by (intro reader_intro)

section \<open>Properties\<close>

text \<open>Nacks survive the wire. A nack whose missing-frames flag agrees with its field, whose
  lists are empty when their flags are clear and shorter than 256 entries, is returned unchanged
  by \<open>parse_nack\<close> from the bytes of \<open>build_nack\<close>, whatever bytes follow.\<close>

theorem nack_roundtrip:
  assumes "consistent_nack n"
  shows "parse_nack (build_nack n @ trailing) = Some n"
  using consumes_start [OF consumes_nack [OF assms], of trailing] by (simp add: parse_nack_def)

theorem nack_roundtrip_witness:
  "parse_nack (build_nack \<lparr>nk_flags = 7, nk_frame_index = 99, nk_missing_frames = Some (3, 8),
      nk_ignore_list = [\<lparr>ie_object_id = 5, ie_last_frame = 0x123456789A\<rparr>], nk_recreate_list = [1, 2]\<rparr> @ [0xFF]) =
    Some \<lparr>nk_flags = 7, nk_frame_index = 99, nk_missing_frames = Some (3, 8),
      nk_ignore_list = [\<lparr>ie_object_id = 5, ie_last_frame = 0x123456789A\<rparr>], nk_recreate_list = [1, 2]\<rparr>"
  by (rule nack_roundtrip)
    (simp add: consistent_nack_def IS_MISSING_FRAMES_def HAS_IGNORE_LIST_def HAS_RECREATE_LIST_def)

text \<open>The ack parser accepts exactly the complete layouts. A payload that starts with the
  packed layout of an ack (frame index, counted 10-byte entries, counted ids) parses to that ack,
  and a proper prefix of the layout is rejected.\<close>

theorem ack_layout_exact:
  assumes "length (ak_ignore_list a) < 256" "length (ak_recreate_list a) < 256"
  shows "parse_ack (enc_ack a @ trailing) = Some a \<and>
    (\<forall>k < length (enc_ack a). parse_ack (take k (enc_ack a)) = None)"
proof (intro conjI allI impI)
  show "parse_ack (enc_ack a @ trailing) = Some a"
    using consumes_start [OF consumes_ack [OF assms], of trailing] by (simp add: parse_ack_def)
next
  fix k assume "k < length (enc_ack a)"
  then show "parse_ack (take k (enc_ack a)) = None"
    using truncated_fails [OF consumes_ack [OF assms] stable_ack, of k] by (simp add: parse_ack_def)
qed

theorem ack_layout_exact_witness:
  "parse_ack (enc_ack \<lparr>ak_frame_index = 9, ak_ignore_list = [\<lparr>ie_object_id = 5, ie_last_frame = 2\<rparr>],
      ak_recreate_list = [3]\<rparr>) = Some \<lparr>ak_frame_index = 9,
      ak_ignore_list = [\<lparr>ie_object_id = 5, ie_last_frame = 2\<rparr>], ak_recreate_list = [3]\<rparr>"
  using ack_layout_exact [of "\<lparr>ak_frame_index = 9, ak_ignore_list = [\<lparr>ie_object_id = 5, ie_last_frame = 2\<rparr>],
      ak_recreate_list = [3]\<rparr>" "[]"] by simp

end
