(* ===== verification/Ieee.thy ===== *)
theory Ieee
  imports Prelude
begin

text \<open>
  Executable IEEE 754 binary arithmetic, as Rust's \<open>f32\<close> and \<open>f64\<close> define it: a finite value is
  a sign and a magnitude counted in units of the smallest subnormal, every operation computes the
  exact quotient of two integers of units and rounds it once, to nearest with ties to even. NaN
  payloads are not distinguished. Conversions to integers truncate and saturate, as \<open>as\<close>
  casts do. The lemmas show that rounding is monotone, exact on representable values and never
  leaves the format.
\<close>

datatype fl = NaN | Inf bool | Fin bool nat

text \<open>A format: significand bits, the exponent of the unit (the value of \<open>Fin s m\<close> is
  \<open>m / 2^unit\<close>) and the exponent (in units) where magnitudes overflow.\<close>

record fmt =
  prec :: nat
  unit_exp :: nat
  top_exp :: nat

definition F32 :: fmt where "F32 = \<lparr>prec = 24, unit_exp = 149, top_exp = 277\<rparr>"
definition F64 :: fmt where "F64 = \<lparr>prec = 53, unit_exp = 1074, top_exp = 2098\<rparr>"

section \<open>Rounding\<close>

definition rne :: "nat \<Rightarrow> nat \<Rightarrow> nat" where
  "rne n d = (let q = n div d; r = n mod d
     in if 2 * r < d \<or> (2 * r = d \<and> even q) then q else q + 1)"

fun bitlen :: "nat \<Rightarrow> nat" where
  "bitlen n = (if n = 0 then 0 else Suc (bitlen (n div 2)))"

declare bitlen.simps [simp del]

definition round_mag :: "fmt \<Rightarrow> nat \<Rightarrow> nat \<Rightarrow> nat" where
  "round_mag F n d = (let k = bitlen (n div d) - prec F in rne n (d * 2 ^ k) * 2 ^ k)"

definition mk_fl :: "fmt \<Rightarrow> bool \<Rightarrow> nat \<Rightarrow> nat \<Rightarrow> fl" where
  "mk_fl F s n d = (let m = round_mag F n d in if 2 ^ top_exp F \<le> m then Inf s else Fin s m)"

section \<open>Operations\<close>

fun fl_units :: "fl \<Rightarrow> int" where
  "fl_units (Fin s m) = (if s then - int m else int m)"
| "fl_units _ = 0"

fun fl_neg :: "fl \<Rightarrow> fl" where
  "fl_neg NaN = NaN"
| "fl_neg (Inf s) = Inf (\<not> s)"
| "fl_neg (Fin s m) = Fin (\<not> s) m"

fun fl_abs :: "fl \<Rightarrow> fl" where
  "fl_abs NaN = NaN"
| "fl_abs (Inf s) = Inf False"
| "fl_abs (Fin s m) = Fin False m"

fun fl_add :: "fmt \<Rightarrow> fl \<Rightarrow> fl \<Rightarrow> fl" where
  "fl_add F NaN y = NaN"
| "fl_add F x NaN = NaN"
| "fl_add F (Inf s) (Inf t) = (if s = t then Inf s else NaN)"
| "fl_add F (Inf s) (Fin t n) = Inf s"
| "fl_add F (Fin s m) (Inf t) = Inf t"
| "fl_add F (Fin s m) (Fin t n) =
     (let v = fl_units (Fin s m) + fl_units (Fin t n)
      in if v = 0 then Fin (s \<and> t) 0 else mk_fl F (v < 0) (nat \<bar>v\<bar>) 1)"

definition fl_sub :: "fmt \<Rightarrow> fl \<Rightarrow> fl \<Rightarrow> fl" where
  "fl_sub F x y = fl_add F x (fl_neg y)"

fun fl_mul :: "fmt \<Rightarrow> fl \<Rightarrow> fl \<Rightarrow> fl" where
  "fl_mul F NaN y = NaN"
| "fl_mul F x NaN = NaN"
| "fl_mul F (Inf s) (Inf t) = Inf (s \<noteq> t)"
| "fl_mul F (Inf s) (Fin t n) = (if n = 0 then NaN else Inf (s \<noteq> t))"
| "fl_mul F (Fin s m) (Inf t) = (if m = 0 then NaN else Inf (s \<noteq> t))"
| "fl_mul F (Fin s m) (Fin t n) = mk_fl F (s \<noteq> t) (m * n) (2 ^ unit_exp F)"

fun fl_div :: "fmt \<Rightarrow> fl \<Rightarrow> fl \<Rightarrow> fl" where
  "fl_div F NaN y = NaN"
| "fl_div F x NaN = NaN"
| "fl_div F (Inf s) (Inf t) = NaN"
| "fl_div F (Inf s) (Fin t n) = Inf (s \<noteq> t)"
| "fl_div F (Fin s m) (Inf t) = Fin (s \<noteq> t) 0"
| "fl_div F (Fin s m) (Fin t n) =
     (if n = 0 then (if m = 0 then NaN else Inf (s \<noteq> t))
      else mk_fl F (s \<noteq> t) (m * 2 ^ unit_exp F) n)"

fun fl_lt :: "fl \<Rightarrow> fl \<Rightarrow> bool" where
  "fl_lt NaN y = False"
| "fl_lt x NaN = False"
| "fl_lt (Inf s) (Inf t) = (s \<and> \<not> t)"
| "fl_lt (Inf s) (Fin t n) = s"
| "fl_lt (Fin s m) (Inf t) = (\<not> t)"
| "fl_lt (Fin s m) (Fin t n) = (fl_units (Fin s m) < fl_units (Fin t n))"

fun fl_le :: "fl \<Rightarrow> fl \<Rightarrow> bool" where
  "fl_le NaN y = False"
| "fl_le x NaN = False"
| "fl_le (Inf s) (Inf t) = (s \<or> \<not> t)"
| "fl_le (Inf s) (Fin t n) = s"
| "fl_le (Fin s m) (Inf t) = (\<not> t)"
| "fl_le (Fin s m) (Fin t n) = (fl_units (Fin s m) \<le> fl_units (Fin t n))"

definition is_nan :: "fl \<Rightarrow> bool" where "is_nan x = (case x of NaN \<Rightarrow> True | _ \<Rightarrow> False)"

text \<open>\<open>f32::max\<close> and \<open>f32::min\<close>: a NaN argument is ignored.\<close>

definition fl_max :: "fl \<Rightarrow> fl \<Rightarrow> fl" where
  "fl_max x y = (if is_nan x then y else if is_nan y then x else if fl_lt x y then y else x)"

definition fl_min :: "fl \<Rightarrow> fl \<Rightarrow> fl" where
  "fl_min x y = (if is_nan x then y else if is_nan y then x else if fl_lt y x then y else x)"

definition fl_of_int :: "fmt \<Rightarrow> int \<Rightarrow> fl" where
  "fl_of_int F i = mk_fl F (i < 0) (nat \<bar>i\<bar> * 2 ^ unit_exp F) 1"

text \<open>A decimal literal \<open>num / den\<close>, rounded to the format as the compiler does.\<close>

definition fl_lit :: "fmt \<Rightarrow> int \<Rightarrow> nat \<Rightarrow> fl" where
  "fl_lit F num den = mk_fl F (num < 0) (nat \<bar>num\<bar> * 2 ^ unit_exp F) den"

text \<open>\<open>as\<close> casts to an integer of the range \<open>lo .. hi\<close>.\<close>

fun fl_to_int :: "fmt \<Rightarrow> int \<Rightarrow> int \<Rightarrow> fl \<Rightarrow> int" where
  "fl_to_int F lo hi NaN = 0"
| "fl_to_int F lo hi (Inf s) = (if s then lo else hi)"
| "fl_to_int F lo hi (Fin s m) =
     (let t = int (m div 2 ^ unit_exp F) in max lo (min hi (if s then - t else t)))"

definition fl_to_usize :: "fl \<Rightarrow> nat" where
  "fl_to_usize x = nat (fl_to_int F32 0 (2 ^ 64 - 1) x)"

definition fl_to_i32 :: "fl \<Rightarrow> 32 word" where
  "fl_to_i32 x = word_of_int (fl_to_int F32 (- (2 ^ 31)) (2 ^ 31 - 1) x)"

definition fl_to_u32 :: "fl \<Rightarrow> 32 word" where
  "fl_to_u32 x = word_of_int (fl_to_int F32 0 (2 ^ 32 - 1) x)"

text \<open>\<open>floor\<close>, the remainder \<open>%\<close> (sign of the dividend, exact), \<open>rem_euclid\<close> and the
  correctly rounded square root: two extra bits and a sticky bit under the last unit.\<close>

fun fl_floor :: "fmt \<Rightarrow> fl \<Rightarrow> fl" where
  "fl_floor F (Fin s m) =
     (let u = 2 ^ unit_exp F; q = m div u
      in Fin s ((if s \<and> m mod u \<noteq> 0 then q + 1 else q) * u))"
| "fl_floor F x = x"

fun fl_rem :: "fl \<Rightarrow> fl \<Rightarrow> fl" where
  "fl_rem NaN y = NaN"
| "fl_rem x NaN = NaN"
| "fl_rem (Inf s) y = NaN"
| "fl_rem (Fin s m) (Inf t) = Fin s m"
| "fl_rem (Fin s m) (Fin t n) = (if n = 0 then NaN else Fin s (m mod n))"

definition fl_rem_euclid :: "fmt \<Rightarrow> fl \<Rightarrow> fl \<Rightarrow> fl" where
  "fl_rem_euclid F x y =
     (let r = fl_rem x y in if fl_lt r (Fin False 0) then fl_add F r (fl_abs y) else r)"

fun isqrt :: "nat \<Rightarrow> nat" where
  "isqrt n = (if n = 0 then 0
     else let r = 2 * isqrt (n div 4) in if (r + 1) * (r + 1) \<le> n then r + 1 else r)"

declare isqrt.simps [simp del]

fun fl_sqrt :: "fmt \<Rightarrow> fl \<Rightarrow> fl" where
  "fl_sqrt F NaN = NaN"
| "fl_sqrt F (Inf s) = (if s then NaN else Inf False)"
| "fl_sqrt F (Fin s m) =
     (if m = 0 then Fin s 0 else if s then NaN
      else let n = 16 * (m * 2 ^ unit_exp F); r = isqrt n
           in mk_fl F False (2 * r + (if r * r = n then 0 else 1)) 8)"

definition PI32 :: fl where "PI32 = fl_lit F32 314159265358979323846 (10 ^ 20)"

definition to_radians :: "fl \<Rightarrow> fl" where
  "to_radians x = fl_mul F32 x (fl_div F32 PI32 (fl_of_int F32 180))"

definition to_degrees :: "fl \<Rightarrow> fl" where
  "to_degrees x = fl_mul F32 x (fl_lit F32 572957795130823208768 (10 ^ 19))"

section \<open>Rounding is monotone\<close>

lemma bitlen_0 [simp]: "bitlen 0 = 0"
  by (subst bitlen.simps) simp

lemma bitlen_numeral [simp]:
  "bitlen (numeral k) = Suc (bitlen (numeral k div 2))" "bitlen (Suc 0) = 1"
  by (subst bitlen.simps; simp)+

text \<open>Evaluation of closed float terms by the simplifier.\<close>

lemmas fl_eval = fl_of_int_def fl_lit_def mk_fl_def round_mag_def rne_def F32_def F64_def Let_def
  fl_sub_def fl_max_def fl_min_def is_nan_def fl_to_usize_def

lemma bitlen_less: "n < 2 ^ bitlen n"
proof (induction n rule: bitlen.induct)
  case (1 n)
  show ?case
  proof (cases "n = 0")
    case False
    then have "n div 2 < 2 ^ bitlen (n div 2)" using 1 by blast
    then show ?thesis using False by (subst bitlen.simps) simp
  qed (simp add: bitlen.simps)
qed

lemma bitlen_le: "n \<noteq> 0 \<Longrightarrow> 2 ^ (bitlen n - 1) \<le> n"
proof (induction n rule: bitlen.induct)
  case (1 n)
  show ?case
  proof (cases "n div 2 = 0")
    case True
    then have "n = 1" using 1 by simp
    then show ?thesis by (simp add: bitlen.simps)
  next
    case False
    then have "2 ^ (bitlen (n div 2) - 1) \<le> n div 2" using 1 by blast
    moreover have "bitlen (n div 2) = Suc (bitlen (n div 2) - 1)"
      using False by (subst (1 2) bitlen.simps) simp
    moreover have "bitlen n - 1 = bitlen (n div 2)" using 1(2) by (subst bitlen.simps) simp
    ultimately have "2 ^ (bitlen n - 1) = 2 * (2 ^ (bitlen (n div 2) - 1) :: nat)" by (metis power_Suc)
    then show ?thesis using \<open>2 ^ (bitlen (n div 2) - 1) \<le> n div 2\<close> by simp
  qed
qed

lemma bitlen_mono: "m \<le> n \<Longrightarrow> bitlen m \<le> bitlen n"
proof (cases "m = 0")
  case False
  assume "m \<le> n"
  have "2 ^ (bitlen m - 1) \<le> m" by (rule bitlen_le [OF False])
  also note \<open>m \<le> n\<close>
  also have "n < 2 ^ bitlen n" by (rule bitlen_less)
  finally have "bitlen m - 1 < bitlen n" by (simp add: power_less_power_Suc power_strict_increasing_iff)
  then show ?thesis by linarith
qed (simp add: bitlen.simps)

lemma rne_bounds:
  assumes "d > 0"
  shows "2 * n \<le> 2 * (rne n d * d) + d" "2 * (rne n d * d) \<le> 2 * n + d"
proof -
  define q r where "q = n div d" and "r = n mod d"
  have n: "n = q * d + r" "r < d" using assms by (simp_all add: q_def r_def)
  have "rne n d = (if 2 * r < d \<or> (2 * r = d \<and> even q) then q else q + 1)"
    by (simp add: rne_def q_def r_def Let_def)
  then show "2 * n \<le> 2 * (rne n d * d) + d" "2 * (rne n d * d) \<le> 2 * n + d"
    using n by (auto simp: algebra_simps)
qed

lemma rne_mult [simp]: "d > 0 \<Longrightarrow> rne (q * d) d = q"
  by (simp add: rne_def)

lemma rne_mono:
  assumes "d > 0" "n \<le> n'"
  shows "rne n d \<le> rne n' d"
proof (cases "n div d = n' div d")
  case True
  then have "n mod d \<le> n' mod d"
    by (metis assms(2) minus_mult_div_eq_mod diff_le_mono)
  then show ?thesis using True by (auto simp: rne_def Let_def)
next
  case False
  then have "n div d < n' div d" using assms(2) by (simp add: div_le_mono le_neq_implies_less)
  moreover have "rne n d \<le> n div d + 1" "n' div d \<le> rne n' d" by (simp_all add: rne_def Let_def)
  ultimately show ?thesis by linarith
qed

lemma rne_le: "d > 0 \<Longrightarrow> n \<le> m * d \<Longrightarrow> rne n d \<le> m"
  using rne_mono [of d n "m * d"] by simp

lemma rne_ge: "d > 0 \<Longrightarrow> m * d \<le> n \<Longrightarrow> m \<le> rne n d"
  using rne_mono [of d "m * d" n] by simp

text \<open>The scale of a quotient: \<open>k\<close> low bits are dropped, the rest fits the significand, and a
  positive \<open>k\<close> means that the leading significand bit is set.\<close>

lemma scale_upper:
  assumes "d > 0"
  shows "n < d * 2 ^ (bitlen (n div d) - prec F) * 2 ^ prec F"
proof -
  have "n div d < 2 ^ bitlen (n div d)" by (rule bitlen_less)
  also have "\<dots> \<le> 2 ^ (bitlen (n div d) - prec F + prec F)" by (rule power_increasing) simp_all
  finally have "n < 2 ^ (bitlen (n div d) - prec F + prec F) * d"
    using assms by (simp only: div_less_iff_less_mult)
  then show ?thesis by (simp add: power_add mult.commute mult.left_commute)
qed

lemma scale_lower:
  assumes "d > 0" "bitlen (n div d) - prec F > 0" "prec F > 0"
  shows "2 ^ (prec F - 1) * (d * 2 ^ (bitlen (n div d) - prec F)) \<le> n"
proof -
  have "n div d \<noteq> 0" using assms(2) by (intro notI) simp
  then have "2 ^ (bitlen (n div d) - 1) \<le> n div d" by (rule bitlen_le)
  then have "2 ^ (bitlen (n div d) - 1) * d \<le> n"
    using assms(1) by (simp add: less_eq_div_iff_mult_less_eq)
  moreover have "(2::nat) ^ (bitlen (n div d) - 1) = 2 ^ (prec F - 1) * 2 ^ (bitlen (n div d) - prec F)"
    unfolding power_add [symmetric] using assms(2,3) by (intro arg_cong [where f = "power 2"]) simp
  ultimately show ?thesis by (simp add: mult.assoc mult.left_commute mult.commute)
qed

lemma round_mag_mono:
  assumes "d > 0" "prec F > 0" "n \<le> n'"
  shows "round_mag F n d \<le> round_mag F n' d"
proof -
  define k k' where "k = bitlen (n div d) - prec F" and "k' = bitlen (n' div d) - prec F"
  have r: "round_mag F n d = rne n (d * 2 ^ k) * 2 ^ k" "round_mag F n' d = rne n' (d * 2 ^ k') * 2 ^ k'"
    by (simp_all add: round_mag_def k_def k'_def Let_def)
  have up: "rne n (d * 2 ^ k) \<le> 2 ^ prec F"
    using scale_upper [OF assms(1), of n F] assms(1) by (intro rne_le) (simp_all add: k_def mult.commute)
  have low: "2 ^ (prec F - 1) \<le> rne n' (d * 2 ^ k')" if "0 < k'"
    using scale_lower [OF assms(1) that [unfolded k'_def] assms(2)] assms(1)
    by (intro rne_ge) (simp_all add: k'_def)
  have "k \<le> k'" unfolding k_def k'_def by (intro diff_le_mono bitlen_mono div_le_mono assms(3))
  then consider "k = k'" | "k < k'" by linarith
  then show ?thesis
  proof cases
    case 1
    then show ?thesis using assms(1,3) r by (simp add: rne_mono)
  next
    case 2
    have "rne n (d * 2 ^ k) * 2 ^ k \<le> 2 ^ prec F * 2 ^ k" using up by simp
    also have "\<dots> \<le> 2 ^ (prec F - 1) * 2 ^ k'"
      unfolding power_add [symmetric] using 2 assms(2) by (intro power_increasing) simp_all
    also have "\<dots> \<le> rne n' (d * 2 ^ k') * 2 ^ k'" using low 2 by simp
    finally show ?thesis using r by simp
  qed
qed

section \<open>Representable values\<close>

fun wf_fl :: "fmt \<Rightarrow> fl \<Rightarrow> bool" where
  "wf_fl F (Fin s m) \<longleftrightarrow> round_mag F m 1 = m \<and> m < 2 ^ top_exp F"
| "wf_fl F _ \<longleftrightarrow> True"

lemma bitlen_le_of_less: "n < 2 ^ k \<Longrightarrow> bitlen n \<le> k"
proof (cases "n = 0")
  case False
  assume "n < 2 ^ k"
  with bitlen_le [OF False] have "(2::nat) ^ (bitlen n - 1) < 2 ^ k" by (rule le_less_trans)
  then have "bitlen n - 1 < k" by (simp add: power_strict_increasing_iff)
  then show ?thesis by linarith
qed simp

lemma round_mag_1:
  assumes "2 ^ (bitlen m - prec F) dvd m"
  shows "round_mag F m 1 = m"
proof -
  obtain q where "m = q * 2 ^ (bitlen m - prec F)" using assms by (metis dvd_def mult.commute)
  moreover have "rne (q * 2 ^ (bitlen m - prec F)) (2 ^ (bitlen m - prec F)) = q" by simp
  ultimately show ?thesis by (simp add: round_mag_def Let_def)
qed

lemma round_mag_idem:
  assumes "d > 0" "prec F > 0"
  shows "round_mag F (round_mag F n d) 1 = round_mag F n d"
proof (rule round_mag_1)
  define k where "k = bitlen (n div d) - prec F"
  let ?q = "rne n (d * 2 ^ k)"
  have m: "round_mag F n d = ?q * 2 ^ k" by (simp add: round_mag_def k_def Let_def)
  have "?q \<le> 2 ^ prec F"
    using scale_upper [OF assms(1), of n F] assms(1) by (intro rne_le) (simp_all add: k_def mult.commute)
  then consider "?q < 2 ^ prec F" | "?q = 2 ^ prec F" by linarith
  then show "2 ^ (bitlen (round_mag F n d) - prec F) dvd round_mag F n d"
  proof cases
    case 1
    then have "round_mag F n d < 2 ^ (prec F + k)" unfolding m power_add by simp
    then have "bitlen (round_mag F n d) - prec F \<le> k" by (simp add: bitlen_le_of_less diff_le_mono le_diff_conv add.commute)
    then have "(2::nat) ^ (bitlen (round_mag F n d) - prec F) dvd 2 ^ k" by (rule le_imp_power_dvd)
    then show ?thesis unfolding m by (rule dvd_mult)
  next
    case 2
    then have m': "round_mag F n d = 2 ^ (prec F + k)" unfolding m by (simp add: power_add)
    have "bitlen (2 ^ (prec F + k)) \<le> Suc (prec F + k)" by (rule bitlen_le_of_less) simp
    then have "bitlen (2 ^ (prec F + k)) - prec F \<le> prec F + k" using assms(2) by linarith
    then show ?thesis unfolding m' by (rule le_imp_power_dvd)
  qed
qed

lemma wf_mk_fl: "d > 0 \<Longrightarrow> prec F > 0 \<Longrightarrow> wf_fl F (mk_fl F s n d)"
  by (simp add: mk_fl_def Let_def round_mag_idem [unfolded One_nat_def])

section \<open>Order\<close>

lemma fl_le_refl: "\<not> is_nan x \<Longrightarrow> fl_le x x"
  by (cases x) (simp_all add: is_nan_def)

lemma fl_le_trans: "fl_le x y \<Longrightarrow> fl_le y z \<Longrightarrow> fl_le x z"
  by (cases x; cases y; cases z) (auto split: if_splits)

lemma fl_le_total: "\<not> is_nan x \<Longrightarrow> \<not> is_nan y \<Longrightarrow> fl_le x y \<or> fl_le y x"
  by (cases x; cases y) (auto simp: is_nan_def)

lemma fl_lt_iff_not_le: "\<not> is_nan x \<Longrightarrow> \<not> is_nan y \<Longrightarrow> fl_lt x y \<longleftrightarrow> \<not> fl_le y x"
  by (cases x; cases y) (auto simp: is_nan_def)

lemma mk_fl_not_nan [simp]: "\<not> is_nan (mk_fl F s n d)"
  by (simp add: mk_fl_def Let_def is_nan_def)

lemma mk_fl_mono:
  assumes "d > 0" "prec F > 0"
  shows "n \<le> n' \<Longrightarrow> fl_le (mk_fl F False n d) (mk_fl F False n' d)"
    and "n' \<le> n \<Longrightarrow> fl_le (mk_fl F True n d) (mk_fl F True n' d)"
    and "fl_le (mk_fl F True n d) (mk_fl F False n' d)"
  using round_mag_mono [OF assms, of n n'] round_mag_mono [OF assms, of n' n]
  by (auto simp: mk_fl_def Let_def)

lemma mk_fl_signed_mono:
  assumes "d > 0" "prec F > 0" "v \<le> w"
  shows "fl_le (mk_fl F (v < 0) (nat \<bar>v\<bar>) d) (mk_fl F (w < 0) (nat \<bar>w\<bar>) d)"
proof (cases "v < 0"; cases "w < 0")
  assume "v < 0" "w < 0"
  then show ?thesis using assms(3) mk_fl_mono(2) [OF assms(1,2), of "nat \<bar>w\<bar>" "nat \<bar>v\<bar>"] by simp
next
  assume "\<not> v < 0" "\<not> w < 0"
  then show ?thesis using assms(3) mk_fl_mono(1) [OF assms(1,2), of "nat \<bar>v\<bar>" "nat \<bar>w\<bar>"] by simp
qed (use assms mk_fl_mono(3) [OF assms(1,2)] in auto)

text \<open>A finite sum of \<open>v\<close> units, up to the sign of zero.\<close>

lemma round_mag_0 [simp]: "round_mag F 0 d = 0"
  by (simp add: round_mag_def rne_def Let_def) auto

lemma fl_add_Fin_le:
  assumes "prec F > 0" "fl_units (Fin s m) + fl_units (Fin t n) \<le> v"
  shows "fl_le (fl_add F (Fin s m) (Fin t n)) (mk_fl F (v < 0) (nat \<bar>v\<bar>) 1)"
proof -
  let ?u = "fl_units (Fin s m) + fl_units (Fin t n)"
  have le: "fl_le (mk_fl F (?u < 0) (nat \<bar>?u\<bar>) 1) (mk_fl F (v < 0) (nat \<bar>v\<bar>) 1)"
    by (rule mk_fl_signed_mono [OF _ assms]) simp
  have "fl_le (Fin (s \<and> t) 0) (mk_fl F (v < 0) (nat \<bar>v\<bar>) 1)" if "?u = 0"
    using le unfolding that by (simp add: mk_fl_def Let_def split: if_splits)
  with le show ?thesis unfolding fl_add.simps Let_def by (auto simp del: fl_units.simps)
qed

lemma le_fl_add_Fin:
  assumes "prec F > 0" "v \<le> fl_units (Fin s m) + fl_units (Fin t n)"
  shows "fl_le (mk_fl F (v < 0) (nat \<bar>v\<bar>) 1) (fl_add F (Fin s m) (Fin t n))"
proof -
  let ?u = "fl_units (Fin s m) + fl_units (Fin t n)"
  have le: "fl_le (mk_fl F (v < 0) (nat \<bar>v\<bar>) 1) (mk_fl F (?u < 0) (nat \<bar>?u\<bar>) 1)"
    by (rule mk_fl_signed_mono [OF _ assms]) simp
  have "fl_le (mk_fl F (v < 0) (nat \<bar>v\<bar>) 1) (Fin (s \<and> t) 0)" if "?u = 0"
    using le unfolding that by (simp add: mk_fl_def Let_def split: if_splits)
  with le show ?thesis unfolding fl_add.simps Let_def by (auto simp del: fl_units.simps)
qed

lemma fl_add_mono:
  assumes "prec F > 0" "fl_le x x'" "y = Fin t n"
  shows "fl_le (fl_add F x y) (fl_add F x' y)"
proof (cases x; cases x')
  fix s m s' m' assume x: "x = Fin s m" "x' = Fin s' m'"
  let ?u = "fl_units x + fl_units y"
  have "?u \<le> fl_units x' + fl_units y" using assms(2) x by simp
  then show ?thesis
    using fl_le_trans [OF fl_add_Fin_le [OF assms(1), of s m t n ?u] le_fl_add_Fin [OF assms(1), of ?u s' m' t n]]
      assms(3) x by (simp del: fl_add.simps fl_units.simps)
next
  fix s m s' assume x: "x = Fin s m" "x' = Inf s'"
  have "\<not> is_nan (fl_add F x y)" using assms(3) x by (simp add: Let_def is_nan_def mk_fl_def)
  then show ?thesis using assms x by (cases "fl_add F x y") (auto simp: is_nan_def)
next
  fix s s' m' assume x: "x = Inf s" "x' = Fin s' m'"
  have "\<not> is_nan (fl_add F x' y)" using assms(3) x by (simp add: Let_def is_nan_def mk_fl_def)
  then show ?thesis using assms x by (cases "fl_add F x' y") (auto simp: is_nan_def)
qed (use assms in auto)

lemma fl_div_mono:
  assumes "prec F > 0" "fl_le x x'" "y = Fin False n" "n > 0"
  shows "fl_le (fl_div F x y) (fl_div F x' y)"
proof (cases x; cases x')
  fix s m s' m' assume x: "x = Fin s m" "x' = Fin s' m'"
  show ?thesis
  proof (cases s; cases s')
    assume "s" "s'"
    then show ?thesis using assms x mk_fl_mono(2) [OF assms(4,1)] by simp
  next
    assume "s" "\<not> s'"
    then show ?thesis using assms x mk_fl_mono(3) [OF assms(4,1)] by simp
  next
    assume ss: "\<not> s" "s'"
    then have "m = 0" "m' = 0" using assms x by auto
    then show ?thesis using assms x by (simp add: mk_fl_def Let_def)
  next
    assume "\<not> s" "\<not> s'"
    then show ?thesis using assms x mk_fl_mono(1) [OF assms(4,1)] by simp
  qed
next
  fix s m s' assume x: "x = Fin s m" "x' = Inf s'"
  then show ?thesis using assms by (simp add: mk_fl_def Let_def)
next
  fix s s' m' assume x: "x = Inf s" "x' = Fin s' m'"
  then show ?thesis using assms by (simp add: mk_fl_def Let_def)
qed (use assms in auto)

lemma fl_max_mono:
  assumes "fl_le x x'" "\<not> is_nan y"
  shows "fl_le (fl_max x y) (fl_max x' y)"
proof -
  have n: "\<not> is_nan x" "\<not> is_nan x'" using assms(1) by (cases x; cases x'; simp add: is_nan_def)+
  show ?thesis
    using assms n fl_le_total [OF n(1) assms(2)] fl_le_total [OF n(2) assms(2)] fl_le_refl [OF assms(2)]
      fl_le_trans [OF assms(1), of y]
    by (auto simp: fl_max_def fl_lt_iff_not_le)
qed

lemma fl_to_int_mono:
  assumes "fl_le x y" "lo \<le> hi"
  shows "fl_to_int F lo hi x \<le> fl_to_int F lo hi y"
proof (cases x; cases y)
  fix s m t n assume xy: "x = Fin s m" "y = Fin t n"
  then have "m = 0 \<and> n = 0" if "\<not> s" "t" using assms(1) that by auto
  then show ?thesis
    using xy assms div_le_mono [of m n "2 ^ unit_exp F"] div_le_mono [of n m "2 ^ unit_exp F"]
    by (cases s; cases t) (auto simp: Let_def)
qed (use assms in \<open>auto simp: Let_def\<close>)

lemma fl_to_usize_mono: "fl_le x y \<Longrightarrow> fl_to_usize x \<le> fl_to_usize y"
  unfolding fl_to_usize_def by (intro nat_mono fl_to_int_mono) simp_all

lemma add_nonneg_ge:
  assumes "prec F > 0" "wf_fl F x" "\<not> is_nan x" "y = Fin False n"
  shows "fl_le x (fl_add F x y)" "fl_le (fl_sub F x y) x"
proof -
  have fin: "fl_le (Fin s m) (mk_fl F (fl_units (Fin s m) < 0) (nat \<bar>fl_units (Fin s m)\<bar>) 1)"
    "fl_le (mk_fl F (fl_units (Fin s m) < 0) (nat \<bar>fl_units (Fin s m)\<bar>) 1) (Fin s m)"
    if "x = Fin s m" for s m
    using assms(2) that by (auto simp: mk_fl_def Let_def)
  show "fl_le x (fl_add F x y)"
  proof (cases x)
    case (Fin s m)
    then show ?thesis
      using fl_le_trans [OF fin(1) [OF Fin] le_fl_add_Fin [OF assms(1), of _ s m False n]] assms(4) by simp
  qed (use assms in \<open>simp_all add: is_nan_def\<close>)
  show "fl_le (fl_sub F x y) x"
  proof (cases x)
    case (Fin s m)
    then show ?thesis
      using fl_le_trans [OF fl_add_Fin_le [OF assms(1), of s m True n] fin(2) [OF Fin]] assms(4)
      by (simp add: fl_sub_def)
  qed (use assms in \<open>simp_all add: is_nan_def fl_sub_def\<close>)
qed

end
