(* ===== verification/Session.thy ===== *)
theory Session
  imports Ieee
begin

text \<open>
  The session layer of \<open>crates/baston-protocol/src/rage/session.rs\<close>: the virtual slot
  allocator (two hash maps kept inverse of each other) and the world grid (an ownership table of
  \<open>256 * 256\<close> cells with the per-client cell lists), with their well-formedness invariants over
  every reachable state.
\<close>

section \<open>Slot allocator\<close>

definition GAME_PLAYER_CAP :: nat where "GAME_PLAYER_CAP = 128"
definition RESERVED_LOCAL_SLOT :: u8 where "RESERVED_LOCAL_SLOT = 31"

record slot_allocator =
  sa_slots :: "u8 \<rightharpoonup> u32"
  sa_by_net :: "u32 \<rightharpoonup> u8"

definition sa_new :: slot_allocator where
  "sa_new = \<lparr>sa_slots = Map.empty, sa_by_net = Map.empty\<rparr>"

definition slot_of :: "slot_allocator \<Rightarrow> u32 \<Rightarrow> u8 option" where
  "slot_of s net_id = sa_by_net s net_id"

definition is_assigned :: "slot_allocator \<Rightarrow> u32 \<Rightarrow> bool" where
  "is_assigned s net_id = (sa_by_net s net_id \<noteq> None)"

definition assigned_count :: "slot_allocator \<Rightarrow> nat" where
  "assigned_count s = card (dom (sa_by_net s))"

fun assign_loop :: "u32 \<Rightarrow> u8 list \<Rightarrow> slot_allocator \<Rightarrow> u8 option \<times> slot_allocator" where
  "assign_loop net_id [] s = (None, s)"
| "assign_loop net_id (slot # rest) s =
     (if slot = RESERVED_LOCAL_SLOT then assign_loop net_id rest s
      else if sa_slots s slot = None
           then (Some slot, s\<lparr>sa_slots := (sa_slots s)(slot \<mapsto> net_id),
                              sa_by_net := (sa_by_net s)(net_id \<mapsto> slot)\<rparr>)
           else assign_loop net_id rest s)"

definition slot_range :: "u8 list" where
  "slot_range = map of_nat [0..<GAME_PLAYER_CAP]"

definition sa_assign :: "u32 \<Rightarrow> slot_allocator \<Rightarrow> u8 option \<times> slot_allocator" where
  "sa_assign net_id s =
     (case sa_by_net s net_id of
        Some existing \<Rightarrow> (Some existing, s)
      | None \<Rightarrow> assign_loop net_id slot_range s)"

definition sa_release :: "u32 \<Rightarrow> slot_allocator \<Rightarrow> u8 option \<times> slot_allocator" where
  "sa_release net_id s =
     (case sa_by_net s net_id of
        None \<Rightarrow> (None, s)
      | Some slot \<Rightarrow> (Some slot, s\<lparr>sa_slots := (sa_slots s)(slot := None),
                                   sa_by_net := (sa_by_net s)(net_id := None)\<rparr>))"

section \<open>World grid\<close>

definition WORLD_OFFSET :: fl where "WORLD_OFFSET = fl_of_int F32 8192"
definition WORLD_GRID_CELL :: fl where "WORLD_GRID_CELL = fl_of_int F32 150"
definition WORLD_GRID_DIM :: nat where "WORLD_GRID_DIM = 256"
definition WORLD_GRID_CLAIM_RADIUS :: fl where "WORLD_GRID_CLAIM_RADIUS = fl_of_int F32 299"
definition WORLD_GRID_ENTRIES :: nat where "WORLD_GRID_ENTRIES = 32"

definition sector_index :: "fl \<Rightarrow> nat" where
  "sector_index coord =
     (let s = fl_to_usize (fl_div F32 (fl_max (fl_add F32 coord WORLD_OFFSET) (fl_of_int F32 0)) WORLD_GRID_CELL)
      in min s (WORLD_GRID_DIM - 1))"

definition claim_range :: "fl \<Rightarrow> nat \<times> nat" where
  "claim_range coord =
     (sector_index (fl_sub F32 coord WORLD_GRID_CLAIM_RADIUS),
      sector_index (fl_add F32 coord WORLD_GRID_CLAIM_RADIUS))"

record world_grid_entry =
  sector_x :: u8
  sector_y :: u8
  wge_net_id :: u16

record world_grid =
  wg_accel :: "u16 list"
  wg_slices :: "u16 \<rightharpoonup> world_grid_entry list"

abbreviation unowned :: u16 where "unowned \<equiv> 0xFFFF"

definition wg_new :: world_grid where
  "wg_new = \<lparr>wg_accel = replicate (WORLD_GRID_DIM * WORLD_GRID_DIM) unowned, wg_slices = Map.empty\<rparr>"

definition wg_idx :: "nat \<Rightarrow> nat \<Rightarrow> nat" where
  "wg_idx x y = x * WORLD_GRID_DIM + y"

text \<open>The outer \<open>None\<close> is the index panic of \<open>self.accel[..]\<close>.\<close>

definition owner_of :: "world_grid \<Rightarrow> nat \<Rightarrow> nat \<Rightarrow> u16 option option" where
  "owner_of g x y =
     (if wg_idx x y < length (wg_accel g)
      then let n = wg_accel g ! wg_idx x y in Some (if n = unowned then None else Some n)
      else None)"

definition owned_cells :: "world_grid \<Rightarrow> u16 \<Rightarrow> world_grid_entry list" where
  "owned_cells g net_id = (case wg_slices g net_id of None \<Rightarrow> [] | Some v \<Rightarrow> v)"

definition entry_idx :: "world_grid_entry \<Rightarrow> nat" where
  "entry_idx e = wg_idx (unat (sector_x e)) (unat (sector_y e))"

definition inside_window :: "nat \<times> nat \<Rightarrow> nat \<times> nat \<Rightarrow> world_grid_entry \<Rightarrow> bool" where
  "inside_window rx ry e \<longleftrightarrow>
     fst rx \<le> unat (sector_x e) \<and> unat (sector_x e) \<le> snd rx \<and>
     fst ry \<le> unat (sector_y e) \<and> unat (sector_y e) \<le> snd ry"

definition release_cell :: "u16 \<Rightarrow> world_grid_entry \<Rightarrow> u16 list \<Rightarrow> u16 list" where
  "release_cell net_id e accel =
     (if accel ! entry_idx e = net_id then accel[entry_idx e := unowned] else accel)"

definition claim_cell :: "u16 \<Rightarrow> nat \<Rightarrow> nat \<Rightarrow> u16 list \<times> world_grid_entry list \<Rightarrow> u16 list \<times> world_grid_entry list" where
  "claim_cell net_id x y = (\<lambda>(accel, kept).
     let i = wg_idx x y;
         e = \<lparr>sector_x = of_nat x, sector_y = of_nat y, wge_net_id = net_id\<rparr>
     in if accel ! i = unowned then (accel[i := net_id], kept @ [e])
        else if accel ! i = net_id \<and>
                \<not> (\<exists>k\<in>set kept. unat (sector_x k) = x \<and> unat (sector_y k) = y)
             then (accel, kept @ [e])
             else (accel, kept))"

fun claim_row :: "u16 \<Rightarrow> nat \<Rightarrow> nat list \<Rightarrow> u16 list \<times> world_grid_entry list \<Rightarrow> u16 list \<times> world_grid_entry list" where
  "claim_row net_id x [] st = st"
| "claim_row net_id x (y # ys) st =
     (if WORLD_GRID_ENTRIES \<le> length (snd st) then st
      else claim_row net_id x ys (claim_cell net_id x y st))"

definition update_focus :: "u16 \<Rightarrow> fl \<Rightarrow> fl \<Rightarrow> world_grid \<Rightarrow> bool \<times> world_grid" where
  "update_focus net_id focus_x focus_y g =
     (let rx = claim_range focus_x;
          ry = claim_range focus_y;
          previous = owned_cells g net_id;
          accel1 = fold (\<lambda>e a. if \<not> inside_window rx ry e then release_cell net_id e a else a) previous (wg_accel g);
          kept0 = filter (inside_window rx ry) previous;
          (accel2, kept) = fold (\<lambda>x. claim_row net_id x [fst ry..<Suc (snd ry)]) [fst rx..<Suc (snd rx)] (accel1, kept0)
      in (kept \<noteq> previous, \<lparr>wg_accel = accel2, wg_slices = (wg_slices g)(net_id \<mapsto> kept)\<rparr>))"

definition remove_client :: "u16 \<Rightarrow> world_grid \<Rightarrow> world_grid" where
  "remove_client net_id g =
     (case wg_slices g net_id of
        None \<Rightarrow> g
      | Some cells \<Rightarrow>
          \<lparr>wg_accel = fold (release_cell net_id) cells (wg_accel g),
           wg_slices = (wg_slices g)(net_id := None)\<rparr>)"

section \<open>Slot allocator: the two maps are inverse\<close>

definition usable_slot :: "u8 \<Rightarrow> bool" where
  "usable_slot s \<longleftrightarrow> unat s < 128 \<and> s \<noteq> RESERVED_LOCAL_SLOT"

definition sa_inv :: "slot_allocator \<Rightarrow> bool" where
  "sa_inv s \<longleftrightarrow> (\<forall>slot n. sa_slots s slot = Some n \<longleftrightarrow> sa_by_net s n = Some slot) \<and>
     (\<forall>slot\<in>dom (sa_slots s). usable_slot slot)"

inductive sa_reachable :: "slot_allocator \<Rightarrow> bool" where
  sa_init: "sa_reachable sa_new"
| sa_step_assign: "sa_reachable s \<Longrightarrow> sa_reachable (snd (sa_assign n s))"
| sa_step_release: "sa_reachable s \<Longrightarrow> sa_reachable (snd (sa_release n s))"

lemma assign_loop_cases:
  "(assign_loop n xs s = (None, s) \<and> (\<forall>x\<in>set xs. x \<noteq> RESERVED_LOCAL_SLOT \<longrightarrow> sa_slots s x \<noteq> None)) \<or>
   (\<exists>pre x post. xs = pre @ x # post \<and> x \<noteq> RESERVED_LOCAL_SLOT \<and> sa_slots s x = None \<and>
      (\<forall>y\<in>set pre. y \<noteq> RESERVED_LOCAL_SLOT \<longrightarrow> sa_slots s y \<noteq> None) \<and>
      assign_loop n xs s = (Some x, s\<lparr>sa_slots := (sa_slots s)(x \<mapsto> n), sa_by_net := (sa_by_net s)(n \<mapsto> x)\<rparr>))"
proof (induction xs)
  case (Cons x xs)
  show ?case
  proof (cases "x = RESERVED_LOCAL_SLOT \<or> sa_slots s x \<noteq> None")
    case True
    then have eq: "assign_loop n (x # xs) s = assign_loop n xs s" by auto
    from Cons show ?thesis
    proof
      assume "\<exists>pre z post. xs = pre @ z # post \<and> z \<noteq> RESERVED_LOCAL_SLOT \<and> sa_slots s z = None \<and>
        (\<forall>y\<in>set pre. y \<noteq> RESERVED_LOCAL_SLOT \<longrightarrow> sa_slots s y \<noteq> None) \<and>
        assign_loop n xs s = (Some z, s\<lparr>sa_slots := (sa_slots s)(z \<mapsto> n), sa_by_net := (sa_by_net s)(n \<mapsto> z)\<rparr>)"
      then obtain pre z post where "x # xs = (x # pre) @ z # post" "z \<noteq> RESERVED_LOCAL_SLOT" "sa_slots s z = None"
        "\<forall>y\<in>set (x # pre). y \<noteq> RESERVED_LOCAL_SLOT \<longrightarrow> sa_slots s y \<noteq> None"
        "assign_loop n (x # xs) s = (Some z, s\<lparr>sa_slots := (sa_slots s)(z \<mapsto> n), sa_by_net := (sa_by_net s)(n \<mapsto> z)\<rparr>)"
        using True eq by auto
      then show ?thesis by blast
    qed (use True eq in auto)
  next
    case False
    then have "x # xs = [] @ x # xs" "x \<noteq> RESERVED_LOCAL_SLOT" "sa_slots s x = None" by auto
    moreover from this have "assign_loop n (x # xs) s =
        (Some x, s\<lparr>sa_slots := (sa_slots s)(x \<mapsto> n), sa_by_net := (sa_by_net s)(n \<mapsto> x)\<rparr>)" by simp
    ultimately show ?thesis by (metis empty_iff list.set(1))
  qed
qed simp

lemma slot_range_nth: "i < 128 \<Longrightarrow> slot_range ! i = of_nat i"
  by (simp add: slot_range_def GAME_PLAYER_CAP_def)

lemma length_slot_range [simp]: "length slot_range = 128"
  by (simp add: slot_range_def GAME_PLAYER_CAP_def)

lemma mem_slot_range: "x \<in> set slot_range \<longleftrightarrow> unat x < 128"
proof
  assume "x \<in> set slot_range"
  then obtain i where "i < 128" "x = of_nat i" by (auto simp: slot_range_def GAME_PLAYER_CAP_def)
  then show "unat x < 128" by (simp add: unsigned_of_nat take_bit_nat_eq_self)
next
  assume "unat x < 128"
  then have "slot_range ! unat x = x" by (simp add: slot_range_nth)
  then show "x \<in> set slot_range" by (metis \<open>unat x < 128\<close> length_slot_range nth_mem)
qed

lemma distinct_slot_range: "distinct slot_range"
  unfolding distinct_conv_nth
proof (intro allI impI)
  fix i j assume "i < length slot_range" "j < length slot_range" "i \<noteq> j"
  then show "slot_range ! i \<noteq> slot_range ! j"
    by (auto simp: slot_range_nth word_unat_eq_iff unsigned_of_nat take_bit_nat_eq_self)
qed

lemma slot_range_prefix:
  assumes "slot_range = pre @ x # post" "y < x"
  shows "y \<in> set pre"
proof -
  have len: "length pre < 128" using arg_cong [OF assms(1), of length] by simp
  have x: "x = of_nat (length pre)" using slot_range_nth [OF len] unfolding assms(1) by simp
  have "unat x = length pre" unfolding x using len by (simp add: unsigned_of_nat take_bit_nat_eq_self)
  then have y: "unat y < length pre" using assms(2) by (simp add: word_less_nat_alt)
  then have "slot_range ! unat y = y" using len by (simp add: slot_range_nth)
  then have "pre ! unat y = y" using y unfolding assms(1) by (simp add: nth_append)
  then show ?thesis using y nth_mem by metis
qed

lemma sa_assign_new:
  assumes "sa_by_net s n = None"
  shows "(sa_assign n s = (None, s) \<and> (\<forall>x. usable_slot x \<longrightarrow> sa_slots s x \<noteq> None)) \<or>
    (\<exists>x. usable_slot x \<and> sa_slots s x = None \<and> (\<forall>y. y < x \<longrightarrow> usable_slot y \<longrightarrow> sa_slots s y \<noteq> None) \<and>
      sa_assign n s = (Some x, s\<lparr>sa_slots := (sa_slots s)(x \<mapsto> n), sa_by_net := (sa_by_net s)(n \<mapsto> x)\<rparr>))"
  using assign_loop_cases [of n slot_range s]
proof
  assume "\<exists>pre x post. slot_range = pre @ x # post \<and> x \<noteq> RESERVED_LOCAL_SLOT \<and> sa_slots s x = None \<and>
      (\<forall>y\<in>set pre. y \<noteq> RESERVED_LOCAL_SLOT \<longrightarrow> sa_slots s y \<noteq> None) \<and>
      assign_loop n slot_range s = (Some x, s\<lparr>sa_slots := (sa_slots s)(x \<mapsto> n), sa_by_net := (sa_by_net s)(n \<mapsto> x)\<rparr>)"
  then obtain pre x post where p: "slot_range = pre @ x # post" "x \<noteq> RESERVED_LOCAL_SLOT" "sa_slots s x = None"
    "\<forall>y\<in>set pre. y \<noteq> RESERVED_LOCAL_SLOT \<longrightarrow> sa_slots s y \<noteq> None"
    "assign_loop n slot_range s = (Some x, s\<lparr>sa_slots := (sa_slots s)(x \<mapsto> n), sa_by_net := (sa_by_net s)(n \<mapsto> x)\<rparr>)"
    by blast
  have "x \<in> set slot_range" unfolding p(1) by simp
  then have "usable_slot x" using p(2) by (simp add: usable_slot_def mem_slot_range)
  moreover have "\<forall>y. y < x \<longrightarrow> usable_slot y \<longrightarrow> sa_slots s y \<noteq> None"
    using slot_range_prefix [OF p(1)] p(4) by (auto simp: usable_slot_def)
  moreover have "sa_assign n s = (Some x, s\<lparr>sa_slots := (sa_slots s)(x \<mapsto> n), sa_by_net := (sa_by_net s)(n \<mapsto> x)\<rparr>)"
    using assms p(5) by (simp add: sa_assign_def)
  ultimately show ?thesis using p(3) by blast
qed (use assms in \<open>auto simp: sa_assign_def usable_slot_def mem_slot_range\<close>)

lemma sa_inv_insert:
  assumes "sa_inv s" "sa_by_net s n = None" "sa_slots s x = None" "usable_slot x"
  shows "sa_inv (s\<lparr>sa_slots := (sa_slots s)(x \<mapsto> n), sa_by_net := (sa_by_net s)(n \<mapsto> x)\<rparr>)"
  using assms unfolding sa_inv_def by (auto split: if_splits) (metis option.distinct(1))+

lemma sa_inv_assign:
  assumes "sa_inv s"
  shows "sa_inv (snd (sa_assign n s))"
proof (cases "sa_by_net s n")
  case None
  then show ?thesis using sa_assign_new [OF None] sa_inv_insert [OF assms None] assms by auto
qed (use assms in \<open>simp add: sa_assign_def\<close>)

lemma sa_inv_release:
  assumes "sa_inv s"
  shows "sa_inv (snd (sa_release n s))"
proof (cases "sa_by_net s n")
  case (Some x)
  have inv: "sa_slots s slot = Some m \<longleftrightarrow> sa_by_net s m = Some slot" for slot m
    using assms by (simp add: sa_inv_def)
  have "(if slot = x then None else sa_slots s slot) = Some m \<longleftrightarrow>
      (if m = n then None else sa_by_net s m) = Some slot" for slot m
    using inv [of slot m] inv [of x m] Some inv [of slot n] inv [of x n] by auto
  then show ?thesis using Some assms by (auto simp: sa_inv_def sa_release_def)
qed (use assms in \<open>simp add: sa_release_def\<close>)

lemma sa_reachable_inv: "sa_reachable s \<Longrightarrow> sa_inv s"
  by (induction rule: sa_reachable.induct)
    (simp_all add: sa_inv_assign sa_inv_release, simp add: sa_inv_def sa_new_def)

lemma sa_full_count:
  assumes "sa_inv s" "\<forall>x. usable_slot x \<longrightarrow> sa_slots s x \<noteq> None"
  shows "assigned_count s = 127"
proof -
  have inv: "sa_slots s slot = Some m \<longleftrightarrow> sa_by_net s m = Some slot" for slot m
    using assms by (simp add: sa_inv_def)
  have "bij_betw (\<lambda>n. the (sa_by_net s n)) (dom (sa_by_net s)) (dom (sa_slots s))"
    by (rule bij_betw_byWitness [where f' = "\<lambda>x. the (sa_slots s x)"])
      (fastforce dest: inv [THEN iffD1] inv [THEN iffD2])+
  then have "assigned_count s = card (dom (sa_slots s))"
    by (simp add: assigned_count_def bij_betw_same_card)
  also have "dom (sa_slots s) = {x. usable_slot x}"
    using assms by (auto simp: sa_inv_def)
  also have "{x. usable_slot x} = set slot_range - {RESERVED_LOCAL_SLOT}"
    by (auto simp: usable_slot_def mem_slot_range)
  also have "card \<dots> = 127"
    using distinct_card [OF distinct_slot_range]
    by (simp add: mem_slot_range RESERVED_LOCAL_SLOT_def)
  finally show ?thesis .
qed

section \<open>World grid: the table and the slices agree\<close>

lemma u8_less [simp]: "unat (w::u8) < 256"
  by (rule order.strict_trans2 [OF unsigned_less]) simp

lemma entry_idx_less [simp]: "entry_idx e < 65536"
  using u8_less [of "sector_x e"] u8_less [of "sector_y e"]
  unfolding entry_idx_def wg_idx_def WORLD_GRID_DIM_def by linarith

lemma entry_idx_eq:
  assumes "x < 256" "y < 256"
  shows "entry_idx e = wg_idx x y \<longleftrightarrow> unat (sector_x e) = x \<and> unat (sector_y e) = y"
proof
  assume "entry_idx e = wg_idx x y"
  then have eq: "unat (sector_x e) * 256 + unat (sector_y e) = x * 256 + y"
    by (simp add: entry_idx_def wg_idx_def WORLD_GRID_DIM_def)
  have "unat (sector_y e) = (unat (sector_x e) * 256 + unat (sector_y e)) mod 256" by simp
  also have "\<dots> = y" unfolding eq using assms by simp
  finally show "unat (sector_x e) = x \<and> unat (sector_y e) = y" using eq by simp
qed (simp add: entry_idx_def)

lemma entry_eqI:
  assumes "entry_idx e = entry_idx e'" "wge_net_id e = wge_net_id e'"
  shows "e = (e' :: world_grid_entry)"
proof -
  have "unat (sector_x e') < 256" "unat (sector_y e') < 256" by simp_all
  then have "unat (sector_x e) = unat (sector_x e')" "unat (sector_y e) = unat (sector_y e')"
    using assms(1) entry_idx_eq [of "unat (sector_x e')" "unat (sector_y e')" e]
    by (simp_all add: entry_idx_def [of e'])
  then show ?thesis using assms(2) by (intro world_grid_entry.equality) (simp_all add: word_unat_eq_iff)
qed

text \<open>\<open>owns n a es\<close>: the entries \<open>es\<close> are distinct, belong to \<open>n\<close>, stay within the budget
  and name exactly the cells of the table \<open>a\<close> that hold \<open>n\<close>.\<close>

definition owns :: "u16 \<Rightarrow> u16 list \<Rightarrow> world_grid_entry list \<Rightarrow> bool" where
  "owns n a es \<longleftrightarrow> distinct es \<and> length es \<le> WORLD_GRID_ENTRIES \<and>
     (\<forall>e\<in>set es. wge_net_id e = n) \<and>
     (\<forall>i<65536. a ! i = n \<longleftrightarrow> (\<exists>e\<in>set es. entry_idx e = i))"

definition wg_inv :: "world_grid \<Rightarrow> bool" where
  "wg_inv g \<longleftrightarrow> length (wg_accel g) = 65536 \<and>
     (\<forall>n. n \<noteq> unowned \<longrightarrow> owns n (wg_accel g) (owned_cells g n))"

text \<open>Two tables agree outside the cells of \<open>n\<close>.\<close>

definition same_others :: "u16 \<Rightarrow> u16 list \<Rightarrow> u16 list \<Rightarrow> bool" where
  "same_others n a a' \<longleftrightarrow> length a' = length a \<and>
     (\<forall>i<length a. \<forall>m. m \<noteq> n \<longrightarrow> m \<noteq> unowned \<longrightarrow> (a' ! i = m \<longleftrightarrow> a ! i = m))"

lemma same_others_refl [simp]: "same_others n a a"
  by (simp add: same_others_def)

lemma same_others_trans: "same_others n a b \<Longrightarrow> same_others n b c \<Longrightarrow> same_others n a c"
  by (auto simp: same_others_def)

lemma owns_others: "same_others n a a' \<Longrightarrow> length a = 65536 \<Longrightarrow> m \<noteq> n \<Longrightarrow> m \<noteq> unowned \<Longrightarrow> owns m a es \<Longrightarrow> owns m a' es"
  by (simp add: owns_def same_others_def)

subsection \<open>Releasing cells\<close>

lemma release_cell_nth:
  assumes "length a = 65536" "i < 65536" "n \<noteq> unowned"
  shows "release_cell n e a ! i = (if entry_idx e = i \<and> a ! i = n then unowned else a ! i)"
  using assms by (auto simp: release_cell_def nth_list_update)

lemma release_cell_others: "length a = 65536 \<Longrightarrow> same_others n a (release_cell n e a)"
  by (auto simp: same_others_def release_cell_def nth_list_update)

lemma release_cells:
  assumes "length a = 65536" "n \<noteq> unowned"
  shows "same_others n a (fold (\<lambda>e b. if P e then release_cell n e b else b) es a) \<and>
    (\<forall>i<65536. fold (\<lambda>e b. if P e then release_cell n e b else b) es a ! i = n \<longleftrightarrow>
       a ! i = n \<and> \<not> (\<exists>e\<in>set es. P e \<and> entry_idx e = i))"
  using assms(1)
proof (induction es arbitrary: a)
  case (Cons e es)
  let ?b = "if P e then release_cell n e a else a"
  have len: "length ?b = 65536" using Cons.prems by (simp add: release_cell_def)
  have "same_others n a ?b" using release_cell_others [OF Cons.prems] by simp
  moreover have "?b ! i = n \<longleftrightarrow> a ! i = n \<and> \<not> (P e \<and> entry_idx e = i)" if "i < 65536" for i
    using release_cell_nth [OF Cons.prems that assms(2), of e] assms(2) by auto
  ultimately show ?case using Cons.IH [OF len] by (auto intro: same_others_trans)
qed simp

lemma release_filter:
  assumes "owns n a es" "length a = 65536" "n \<noteq> unowned"
  shows "owns n (fold (\<lambda>e b. if \<not> P e then release_cell n e b else b) es a) (filter P es)"
proof -
  have u: "e = e'" if "e \<in> set es" "e' \<in> set es" "entry_idx e = entry_idx e'" for e e'
    using that assms(1) by (intro entry_eqI) (auto simp: owns_def)
  have "(a ! i = n \<and> \<not> (\<exists>e\<in>set es. \<not> P e \<and> entry_idx e = i)) \<longleftrightarrow> (\<exists>e\<in>set (filter P es). entry_idx e = i)"
    if "i < 65536" for i
    using that assms(1) u unfolding owns_def by auto
  moreover have "length (filter P es) \<le> WORLD_GRID_ENTRIES"
    using assms(1) le_trans [OF length_filter_le] by (auto simp: owns_def)
  ultimately show ?thesis
    using assms release_cells [OF assms(2,3), of "\<lambda>e. \<not> P e" es] by (simp add: owns_def)
qed

subsection \<open>Claiming cells\<close>

lemma claim_cell_step:
  assumes "length a = 65536" "owns n a kept" "length kept < WORLD_GRID_ENTRIES" "n \<noteq> unowned" "x < 256" "y < 256"
  defines "e \<equiv> \<lparr>sector_x = of_nat x, sector_y = of_nat y, wge_net_id = n\<rparr>"
  shows "claim_cell n x y (a, kept) =
    (if a ! wg_idx x y = unowned then (a[wg_idx x y := n], kept @ [e]) else (a, kept))"
    and "entry_idx e = wg_idx x y"
    and "a ! wg_idx x y = unowned \<Longrightarrow> owns n (a[wg_idx x y := n]) (kept @ [e])"
proof -
  have xy: "unat (of_nat x :: u8) = x" "unat (of_nat y :: u8) = y"
    using assms(5,6) by (simp_all add: unsigned_of_nat take_bit_nat_eq_self)
  show idx: "entry_idx e = wg_idx x y" by (simp add: entry_idx_def e_def xy)
  have lt: "wg_idx x y < 65536" using idx entry_idx_less [of e] by simp
  have "\<exists>k\<in>set kept. unat (sector_x k) = x \<and> unat (sector_y k) = y" if own: "a ! wg_idx x y = n"
  proof -
    obtain k where "k \<in> set kept" "entry_idx k = wg_idx x y" using own assms(2) lt unfolding owns_def by blast
    then show ?thesis using entry_idx_eq [OF assms(5,6), of k] by blast
  qed
  then show "claim_cell n x y (a, kept) =
    (if a ! wg_idx x y = unowned then (a[wg_idx x y := n], kept @ [e]) else (a, kept))"
    by (auto simp: claim_cell_def Let_def e_def)
  assume free: "a ! wg_idx x y = unowned"
  have "e \<notin> set kept"
    using assms(2,4) free idx lt by (auto simp: owns_def)
  then show "owns n (a[wg_idx x y := n]) (kept @ [e])"
    using assms(1-4) idx lt free by (auto simp: owns_def nth_list_update e_def)
qed

text \<open>What a claim loop keeps: the client owns its list, every other client keeps its cells, the
  old entries stay and the new ones satisfy \<open>Q\<close>.\<close>

definition claim_ok :: "u16 \<Rightarrow> (nat \<Rightarrow> nat \<Rightarrow> bool) \<Rightarrow> u16 list \<times> world_grid_entry list \<Rightarrow> u16 list \<times> world_grid_entry list \<Rightarrow> bool" where
  "claim_ok n Q st st' \<longleftrightarrow> length (fst st') = 65536 \<and> owns n (fst st') (snd st') \<and>
     same_others n (fst st) (fst st') \<and> set (snd st) \<subseteq> set (snd st') \<and>
     (\<forall>e\<in>set (snd st') - set (snd st). Q (unat (sector_x e)) (unat (sector_y e))) \<and>
     (\<forall>i<65536. fst st ! i \<noteq> unowned \<longrightarrow> fst st' ! i \<noteq> unowned)"

lemma claim_ok_refl: "length a = 65536 \<Longrightarrow> owns n a kept \<Longrightarrow> claim_ok n Q (a, kept) (a, kept)"
  by (simp add: claim_ok_def)

lemma claim_ok_trans: "claim_ok n Q s1 s2 \<Longrightarrow> claim_ok n Q s2 s3 \<Longrightarrow> claim_ok n Q s1 s3"
  unfolding claim_ok_def by (blast intro: same_others_trans)

text \<open>One row: afterwards either the budget is used up or every cell of the row is owned.\<close>

lemma claim_row_ok:
  assumes "length a = 65536" "owns n a kept" "n \<noteq> unowned" "x < 256" "\<forall>y\<in>set ys. y < 256 \<and> Q x y"
  shows "claim_ok n Q (a, kept) (claim_row n x ys (a, kept)) \<and>
    (length (snd (claim_row n x ys (a, kept))) = WORLD_GRID_ENTRIES \<or>
     (\<forall>y\<in>set ys. fst (claim_row n x ys (a, kept)) ! wg_idx x y \<noteq> unowned))"
  using assms
proof (induction ys arbitrary: a kept)
  case Nil
  then show ?case by (simp add: claim_ok_refl)
next
  case (Cons y ys)
  show ?case
  proof (cases "WORLD_GRID_ENTRIES \<le> length kept")
    case True
    then have "length kept = WORLD_GRID_ENTRIES" using Cons.prems(2) by (simp add: owns_def)
    then show ?thesis using Cons.prems claim_ok_refl by simp
  next
    case False
    define e where "e = \<lparr>sector_x = of_nat x, sector_y = of_nat y, wge_net_id = n\<rparr>"
    have y: "y < 256" "Q x y" using Cons.prems(5) by auto
    note step = claim_cell_step [OF Cons.prems(1,2) _ Cons.prems(3,4) y(1), folded e_def]
    obtain a' kept' where st: "claim_cell n x y (a, kept) = (a', kept')" by fastforce
    have xy: "unat (sector_x e) = x" "unat (sector_y e) = y"
      using Cons.prems(4) y(1) by (simp_all add: e_def unsigned_of_nat take_bit_nat_eq_self)
    have lt: "wg_idx x y < 65536" using step(2) entry_idx_less [of e] False by simp
    have ok: "claim_ok n Q (a, kept) (a', kept')" "a' ! wg_idx x y \<noteq> unowned" "length a' = 65536" "owns n a' kept'"
      using st step(1,3) False Cons.prems(1-3) lt xy y(2)
      by (auto simp: claim_ok_def same_others_def nth_list_update split: if_splits)
    let ?r = "claim_row n x ys (a', kept')"
    have ih: "claim_ok n Q (a', kept') ?r"
      "length (snd ?r) = WORLD_GRID_ENTRIES \<or> (\<forall>y\<in>set ys. fst ?r ! wg_idx x y \<noteq> unowned)"
      using Cons.IH [OF ok(3,4) Cons.prems(3,4)] Cons.prems(5) by auto
    have "fst ?r ! wg_idx x y \<noteq> unowned" using ih(1) ok(2) lt by (simp add: claim_ok_def)
    moreover have "claim_row n x (y # ys) (a, kept) = ?r" using False st by simp
    ultimately show ?thesis using claim_ok_trans [OF ok(1) ih(1)] ih(2) by auto
  qed
qed

lemma claim_rows_ok:
  assumes "length a = 65536" "owns n a kept" "n \<noteq> unowned" "\<forall>y\<in>set ys. y < 256"
    "\<forall>x\<in>set xs. x < 256 \<and> (\<forall>y\<in>set ys. Q x y)"
  shows "claim_ok n Q (a, kept) (fold (\<lambda>x. claim_row n x ys) xs (a, kept)) \<and>
    (length (snd (fold (\<lambda>x. claim_row n x ys) xs (a, kept))) = WORLD_GRID_ENTRIES \<or>
     (\<forall>x\<in>set xs. \<forall>y\<in>set ys. fst (fold (\<lambda>x. claim_row n x ys) xs (a, kept)) ! wg_idx x y \<noteq> unowned))"
  using assms
proof (induction xs arbitrary: a kept)
  case Nil
  then show ?case by (simp add: claim_ok_refl)
next
  case (Cons x xs)
  obtain a' kept' where st: "claim_row n x ys (a, kept) = (a', kept')" by fastforce
  have row: "claim_ok n Q (a, kept) (a', kept')"
      "length kept' = WORLD_GRID_ENTRIES \<or> (\<forall>y\<in>set ys. a' ! wg_idx x y \<noteq> unowned)"
    using claim_row_ok [OF Cons.prems(1-3), of x ys Q] Cons.prems(4,5) st by auto
  let ?r = "fold (\<lambda>x. claim_row n x ys) xs (a', kept')"
  have ih: "claim_ok n Q (a', kept') ?r"
      "length (snd ?r) = WORLD_GRID_ENTRIES \<or> (\<forall>x\<in>set xs. \<forall>y\<in>set ys. fst ?r ! wg_idx x y \<noteq> unowned)"
    using Cons.IH [of a' kept'] row(1) Cons.prems(3-5) by (auto simp: claim_ok_def)
  have full: "length (snd ?r) = WORLD_GRID_ENTRIES" if "length kept' = WORLD_GRID_ENTRIES"
  proof -
    have "distinct kept'" "set kept' \<subseteq> set (snd ?r)" "length (snd ?r) \<le> WORLD_GRID_ENTRIES"
      using row(1) ih(1) by (auto simp: claim_ok_def owns_def)
    then show ?thesis using that card_mono [of "set (snd ?r)" "set kept'"] card_length [of "snd ?r"]
      by (simp add: distinct_card)
  qed
  have "wg_idx x y < 65536" if "y \<in> set ys" for y
  proof -
    have "x < 256" "y < 256" using that Cons.prems(4,5) by auto
    then show ?thesis unfolding wg_idx_def WORLD_GRID_DIM_def by linarith
  qed
  then have "fst ?r ! wg_idx x y \<noteq> unowned" if "\<forall>y\<in>set ys. a' ! wg_idx x y \<noteq> unowned" "y \<in> set ys" for y
    using that ih(1) by (simp add: claim_ok_def)
  then show ?case using row full ih claim_ok_trans [OF row(1) ih(1)] st by auto
qed

subsection \<open>The two operations\<close>

lemma sector_index_less: "sector_index c < 256"
  by (simp add: sector_index_def Let_def WORLD_GRID_DIM_def)

definition in_ranges :: "nat \<times> nat \<Rightarrow> nat \<times> nat \<Rightarrow> nat \<Rightarrow> nat \<Rightarrow> bool" where
  "in_ranges rx ry x y \<longleftrightarrow> fst rx \<le> x \<and> x \<le> snd rx \<and> fst ry \<le> y \<and> y \<le> snd ry"

lemma update_focus_spec:
  fixes fx fy :: fl
  assumes "wg_inv g" "n \<noteq> unowned"
  defines "g' \<equiv> snd (update_focus n fx fy g)"
    and "rx \<equiv> claim_range fx" and "ry \<equiv> claim_range fy"
  shows "wg_inv g' \<and> (\<forall>m. m \<noteq> n \<longrightarrow> owned_cells g' m = owned_cells g m) \<and>
    (\<forall>e\<in>set (owned_cells g' n). inside_window rx ry e) \<and>
    (length (owned_cells g' n) = WORLD_GRID_ENTRIES \<or>
      (\<forall>x y. in_ranges rx ry x y \<longrightarrow> wg_accel g' ! wg_idx x y \<noteq> unowned))"
proof -
  define prev where "prev = owned_cells g n"
  define a1 where "a1 = fold (\<lambda>e a. if \<not> inside_window rx ry e then release_cell n e a else a) prev (wg_accel g)"
  define k0 where "k0 = filter (inside_window rx ry) prev"
  define st where "st = fold (\<lambda>x. claim_row n x [fst ry..<Suc (snd ry)]) [fst rx..<Suc (snd rx)] (a1, k0)"
  have len: "length (wg_accel g) = 65536" and own: "owns n (wg_accel g) prev"
    using assms(1,2) by (simp_all add: wg_inv_def prev_def)
  have o1: "same_others n (wg_accel g) a1"
    using release_cells [OF len assms(2)] by (simp add: a1_def)
  then have l1: "length a1 = 65536" using len by (simp add: same_others_def)
  have ow1: "owns n a1 k0" unfolding a1_def k0_def by (rule release_filter [OF own len assms(2)])
  have lim: "snd rx < 256" "snd ry < 256" by (simp_all add: rx_def ry_def claim_range_def sector_index_less)
  have ok: "claim_ok n (in_ranges rx ry) (a1, k0) st \<and> (length (snd st) = WORLD_GRID_ENTRIES \<or>
      (\<forall>x\<in>set [fst rx..<Suc (snd rx)]. \<forall>y\<in>set [fst ry..<Suc (snd ry)]. fst st ! wg_idx x y \<noteq> unowned))"
    unfolding st_def using lim by (intro claim_rows_ok [OF l1 ow1 assms(2)]) (auto simp: in_ranges_def)
  have g': "g' = \<lparr>wg_accel = fst st, wg_slices = (wg_slices g)(n \<mapsto> snd st)\<rparr>"
    by (simp add: g'_def update_focus_def Let_def a1_def k0_def st_def prev_def rx_def ry_def split_beta)
  have cells: "owned_cells g' n = snd st" "m \<noteq> n \<Longrightarrow> owned_cells g' m = owned_cells g m" for m
    by (simp_all add: g' owned_cells_def)
  have "same_others n (wg_accel g) (fst st)" using ok same_others_trans [OF o1] by (simp add: claim_ok_def)
  then have "owns m (fst st) (owned_cells g m)" if "m \<noteq> n" "m \<noteq> unowned" for m
    using owns_others [OF _ len that] assms(1) that by (simp add: wg_inv_def)
  then have "owns m (fst st) (owned_cells g' m)" if "m \<noteq> unowned" for m
    using that ok cells by (cases "m = n") (auto simp: claim_ok_def)
  then have "wg_inv g'" using ok by (auto simp: wg_inv_def claim_ok_def g')
  moreover have "inside_window rx ry e" if "e \<in> set (snd st)" for e
  proof (cases "e \<in> set k0")
    case False
    then have "in_ranges rx ry (unat (sector_x e)) (unat (sector_y e))"
      using that ok by (simp add: claim_ok_def)
    then show ?thesis by (simp add: inside_window_def in_ranges_def)
  qed (simp add: k0_def)
  moreover have "length (snd st) = WORLD_GRID_ENTRIES \<or>
      (\<forall>x y. in_ranges rx ry x y \<longrightarrow> wg_accel g' ! wg_idx x y \<noteq> unowned)"
    using ok by (auto simp: in_ranges_def g' simp del: upt_Suc)
  ultimately show ?thesis using cells by simp
qed

lemma remove_client_spec:
  assumes "wg_inv g" "n \<noteq> unowned"
  shows "wg_inv (remove_client n g) \<and> owned_cells (remove_client n g) n = [] \<and>
    (\<forall>m. m \<noteq> n \<longrightarrow> owned_cells (remove_client n g) m = owned_cells g m)"
proof (cases "wg_slices g n")
  case None
  then show ?thesis using assms by (simp add: remove_client_def owned_cells_def)
next
  case (Some cells)
  let ?a = "fold (release_cell n) cells (wg_accel g)"
  have len: "length (wg_accel g) = 65536" and own: "owns n (wg_accel g) cells"
    using assms Some by (auto simp: wg_inv_def owned_cells_def split: option.splits)
  have o1: "same_others n (wg_accel g) ?a" using release_cells [OF len assms(2), of "\<lambda>_. True"] by simp
  have ow: "owns n ?a []"
    using release_filter [OF own len assms(2), of "\<lambda>_. False"] by simp
  have "owns m ?a (owned_cells g m)" if "m \<noteq> n" "m \<noteq> unowned" for m
    using owns_others [OF o1 len that] assms(1) that by (simp add: wg_inv_def)
  then have "owns m ?a (owned_cells (remove_client n g) m)" if "m \<noteq> unowned" for m
    using that ow Some by (cases "m = n") (auto simp: remove_client_def owned_cells_def)
  with o1 len show ?thesis
    using Some by (auto simp: wg_inv_def remove_client_def owned_cells_def same_others_def)
qed

inductive wg_reachable :: "world_grid \<Rightarrow> bool" where
  wg_init: "wg_reachable wg_new"
| wg_update: "wg_reachable g \<Longrightarrow> n \<noteq> unowned \<Longrightarrow> wg_reachable (snd (update_focus n fx fy g))"
| wg_remove: "wg_reachable g \<Longrightarrow> n \<noteq> unowned \<Longrightarrow> wg_reachable (remove_client n g)"

lemma wg_inv_new: "wg_inv wg_new"
  by (auto simp: wg_inv_def wg_new_def owned_cells_def owns_def WORLD_GRID_DIM_def)

lemma wg_reachable_inv: "wg_reachable g \<Longrightarrow> wg_inv g"
  by (induction rule: wg_reachable.induct)
    (simp_all add: wg_inv_new update_focus_spec remove_client_spec)

section \<open>Properties\<close>

text \<open>C31. The slot allocator. In every reachable state the slot table and the reverse index are
  inverse of each other and hold only slots below 128 other than the reserved slot 31. Assigning
  is idempotent; a new client gets the lowest free usable slot and nothing else changes; assign
  returns \<open>None\<close> exactly when all 127 usable slots are taken, and then changes nothing.\<close>

theorem slot_allocator_correct:
  assumes "sa_reachable s"
  shows "(\<forall>slot n. sa_slots s slot = Some n \<longleftrightarrow> slot_of s n = Some slot) \<and>
    (\<forall>slot n. slot_of s n = Some slot \<longrightarrow> unat slot < 128 \<and> slot \<noteq> 31 \<and> sa_assign n s = (Some slot, s)) \<and>
    (\<forall>n. slot_of s n = None \<longrightarrow>
       (case sa_assign n s of
          (None, s') \<Rightarrow> s' = s \<and> assigned_count s = 127
        | (Some x, s') \<Rightarrow> unat x < 128 \<and> x \<noteq> 31 \<and> sa_slots s x = None \<and>
            (\<forall>y<x. y \<noteq> 31 \<longrightarrow> sa_slots s y \<noteq> None) \<and> slot_of s' = (slot_of s)(n \<mapsto> x)))"
proof -
  have inv: "sa_inv s" by (rule sa_reachable_inv [OF assms])
  have new: "case sa_assign n s of
          (None, s') \<Rightarrow> s' = s \<and> assigned_count s = 127
        | (Some x, s') \<Rightarrow> unat x < 128 \<and> x \<noteq> 31 \<and> sa_slots s x = None \<and>
            (\<forall>y<x. y \<noteq> 31 \<longrightarrow> sa_slots s y \<noteq> None) \<and> slot_of s' = (slot_of s)(n \<mapsto> x)"
    if "slot_of s n = None" for n
    using sa_assign_new [of s n]
  proof
    assume "sa_assign n s = (None, s) \<and> (\<forall>x. usable_slot x \<longrightarrow> sa_slots s x \<noteq> None)"
    then show ?thesis using sa_full_count [OF inv] by simp
  next
    assume "\<exists>x. usable_slot x \<and> sa_slots s x = None \<and> (\<forall>y. y < x \<longrightarrow> usable_slot y \<longrightarrow> sa_slots s y \<noteq> None) \<and>
      sa_assign n s = (Some x, s\<lparr>sa_slots := (sa_slots s)(x \<mapsto> n), sa_by_net := (sa_by_net s)(n \<mapsto> x)\<rparr>)"
    then obtain x where x: "usable_slot x" "sa_slots s x = None"
      "\<forall>y. y < x \<longrightarrow> usable_slot y \<longrightarrow> sa_slots s y \<noteq> None"
      "sa_assign n s = (Some x, s\<lparr>sa_slots := (sa_slots s)(x \<mapsto> n), sa_by_net := (sa_by_net s)(n \<mapsto> x)\<rparr>)" by blast
    then have "\<forall>y<x. y \<noteq> 31 \<longrightarrow> sa_slots s y \<noteq> None"
      by (auto simp: usable_slot_def RESERVED_LOCAL_SLOT_def word_less_nat_alt)
    then show ?thesis using x by (auto simp: usable_slot_def RESERVED_LOCAL_SLOT_def slot_of_def)
  qed (use that in \<open>simp add: slot_of_def\<close>)
  have "unat slot < 128 \<and> slot \<noteq> 31 \<and> sa_assign n s = (Some slot, s)" if "slot_of s n = Some slot" for slot n
  proof -
    have "sa_slots s slot = Some n" using inv that by (simp add: sa_inv_def slot_of_def)
    then have "usable_slot slot" using inv by (auto simp: sa_inv_def)
    then show ?thesis using that by (simp add: usable_slot_def RESERVED_LOCAL_SLOT_def sa_assign_def slot_of_def)
  qed
  then show ?thesis using new inv by (simp add: sa_inv_def slot_of_def)
qed

lemma slot_range_head: "slot_range = 0 # 1 # map of_nat [2..<128]"
  by (simp add: slot_range_def GAME_PLAYER_CAP_def upt_conv_Cons [of 0] upt_conv_Cons [of "Suc 0"] numeral_2_eq_2)

theorem slot_allocator_correct_witness:
  "slot_of (snd (sa_assign 7 (snd (sa_assign 9 sa_new)))) 7 = Some 1 \<and>
   fst (sa_assign 7 (snd (sa_assign 7 (snd (sa_assign 9 sa_new))))) = Some 1"
proof -
  let ?s = "snd (sa_assign 7 (snd (sa_assign 9 sa_new)))"
  have "sa_reachable ?s" by (intro sa_reachable.intros)
  moreover have "slot_of ?s 7 = Some 1"
    by (simp add: sa_assign_def sa_new_def slot_range_head RESERVED_LOCAL_SLOT_def slot_of_def)
  ultimately show ?thesis using slot_allocator_correct [of ?s] by simp
qed

text \<open>C32. The world grid is consistent in every reachable state (clients other than the marker
  value 0xFFFF): the ownership table says that client \<open>n\<close> owns cell \<open>(x, y)\<close> exactly when the
  cell is in \<open>n\<close>'s slice, so no cell is in two slices, a slice has no duplicates and at most 32
  cells, and no lookup of a slice's cell panics.\<close>

theorem world_grid_consistent:
  assumes "wg_reachable g" "n \<noteq> 0xFFFF" "x < 256" "y < 256"
  shows "(owner_of g x y = Some (Some n) \<longleftrightarrow>
      (\<exists>e\<in>set (owned_cells g n). unat (sector_x e) = x \<and> unat (sector_y e) = y)) \<and>
    owner_of g x y \<noteq> None \<and> distinct (owned_cells g n) \<and> length (owned_cells g n) \<le> 32 \<and>
    (\<forall>e\<in>set (owned_cells g n). wge_net_id e = n)"
proof -
  have inv: "length (wg_accel g) = 65536" "owns n (wg_accel g) (owned_cells g n)"
    using wg_reachable_inv [OF assms(1)] assms(2) by (simp_all add: wg_inv_def)
  have lt: "wg_idx x y < 65536" using assms(3,4) unfolding wg_idx_def WORLD_GRID_DIM_def by linarith
  have "owner_of g x y = Some (Some n) \<longleftrightarrow> wg_accel g ! wg_idx x y = n"
    using inv(1) lt assms(2) by (simp add: owner_of_def Let_def)
  also have "\<dots> \<longleftrightarrow> (\<exists>e\<in>set (owned_cells g n). entry_idx e = wg_idx x y)"
    using inv(2) lt by (simp add: owns_def)
  finally show ?thesis
    using inv lt entry_idx_eq [OF assms(3,4)] by (simp add: owns_def owner_of_def Let_def WORLD_GRID_ENTRIES_def)
qed

theorem world_grid_consistent_witness:
  "owner_of (snd (update_focus 5 (fl_of_int F32 0) (fl_of_int F32 0) wg_new)) 54 54 \<noteq> None \<and>
   length (owned_cells (snd (update_focus 5 (fl_of_int F32 0) (fl_of_int F32 0) wg_new)) 5) \<le> 32"
proof -
  have "wg_reachable (snd (update_focus 5 (fl_of_int F32 0) (fl_of_int F32 0) wg_new))"
    by (intro wg_reachable.intros) simp
  from world_grid_consistent [OF this, of 5 54 54] show ?thesis by simp
qed

text \<open>Moving a focus. After \<open>update_focus\<close> every cell of the client lies in the window
  around its new focus, the other clients' slices are untouched, and every cell of the window is
  owned by some client unless the client's budget of 32 cells is used up.\<close>

theorem update_focus_window:
  assumes "wg_reachable g" "n \<noteq> 0xFFFF"
  shows "(\<forall>m. m \<noteq> n \<longrightarrow> owned_cells (snd (update_focus n fx fy g)) m = owned_cells g m) \<and>
    (\<forall>e\<in>set (owned_cells (snd (update_focus n fx fy g)) n). inside_window (claim_range fx) (claim_range fy) e) \<and>
    (length (owned_cells (snd (update_focus n fx fy g)) n) = 32 \<or>
     (\<forall>x\<in>{fst (claim_range fx)..snd (claim_range fx)}. \<forall>y\<in>{fst (claim_range fy)..snd (claim_range fy)}.
        \<exists>m. owner_of (snd (update_focus n fx fy g)) x y = Some (Some m)))"
proof -
  let ?g' = "snd (update_focus n fx fy g)"
  note spec = update_focus_spec [OF wg_reachable_inv [OF assms(1)] assms(2), of fx fy]
  have "\<exists>m. owner_of ?g' x y = Some (Some m)"
    if "wg_accel ?g' ! wg_idx x y \<noteq> unowned" "x \<le> snd (claim_range fx)" "y \<le> snd (claim_range fy)" for x y
  proof -
    have "x < 256" "y < 256"
      using that(2,3) by (auto simp: claim_range_def intro: le_less_trans [OF _ sector_index_less])
    then have "wg_idx x y < 65536" unfolding wg_idx_def WORLD_GRID_DIM_def by linarith
    then show ?thesis using that(1) spec by (auto simp: owner_of_def wg_inv_def Let_def)
  qed
  then show ?thesis using spec by (auto simp: in_ranges_def WORLD_GRID_ENTRIES_def)
qed

theorem update_focus_window_witness:
  "list_all (inside_window (52, 56) (52, 56))
     (owned_cells (snd (update_focus 5 (fl_of_int F32 0) (fl_of_int F32 0) wg_new)) 5)"
proof -
  have "claim_range (fl_of_int F32 0) = (52, 56)"
    by (simp add: claim_range_def sector_index_def WORLD_OFFSET_def WORLD_GRID_CELL_def
        WORLD_GRID_CLAIM_RADIUS_def WORLD_GRID_DIM_def fl_eval)
  then show ?thesis
    using update_focus_window [OF wg_init, of 5 "fl_of_int F32 0" "fl_of_int F32 0"] by (simp add: list_all_iff)
qed

lemma grid_constants:
  "WORLD_OFFSET = Fin False (8192 * 2 ^ 149)" "WORLD_GRID_CELL = Fin False (150 * 2 ^ 149)"
  "WORLD_GRID_CLAIM_RADIUS = Fin False (299 * 2 ^ 149)" "fl_of_int F32 0 = Fin False 0"
  by (simp_all add: WORLD_OFFSET_def WORLD_GRID_CELL_def WORLD_GRID_CLAIM_RADIUS_def fl_eval)

lemma prec_F32 [simp]: "prec F32 > 0"
  by (simp add: F32_def)

lemma sector_index_mono:
  assumes "fl_le c c'"
  shows "sector_index c \<le> sector_index c'"
proof -
  have "fl_le (fl_add F32 c WORLD_OFFSET) (fl_add F32 c' WORLD_OFFSET)"
    by (rule fl_add_mono [OF prec_F32 assms grid_constants(1)])
  then have "fl_le (fl_max (fl_add F32 c WORLD_OFFSET) (fl_of_int F32 0))
      (fl_max (fl_add F32 c' WORLD_OFFSET) (fl_of_int F32 0))"
    by (rule fl_max_mono) (simp add: grid_constants is_nan_def)
  then have "fl_le (fl_div F32 (fl_max (fl_add F32 c WORLD_OFFSET) (fl_of_int F32 0)) WORLD_GRID_CELL)
      (fl_div F32 (fl_max (fl_add F32 c' WORLD_OFFSET) (fl_of_int F32 0)) WORLD_GRID_CELL)"
    by (rule fl_div_mono [OF prec_F32 _ grid_constants(2)]) simp
  then show ?thesis
    unfolding sector_index_def Let_def by (intro min.mono fl_to_usize_mono) simp_all
qed

text \<open>The claim window surrounds the focus. For every \<open>f32\<close> coordinate that is not NaN, in
  whatever way the additions round and also where the index is clamped, the window is non-empty
  and contains the sector of the coordinate itself; sector indices are monotone in the
  coordinate and stay below 256.\<close>

theorem claim_window_contains_focus:
  assumes "wf_fl F32 c" "\<not> is_nan c"
  shows "fst (claim_range c) \<le> sector_index c \<and> sector_index c \<le> snd (claim_range c) \<and>
    snd (claim_range c) < 256 \<and> (\<forall>c'. fl_le c c' \<longrightarrow> sector_index c \<le> sector_index c')"
  using add_nonneg_ge [OF prec_F32 assms grid_constants(3)]
  by (auto simp: claim_range_def sector_index_mono sector_index_less)

theorem claim_window_contains_focus_witness:
  "wf_fl F32 (fl_of_int F32 (- 8192)) \<and> fst (claim_range (fl_of_int F32 (- 8192))) \<le> sector_index (fl_of_int F32 (- 8192))"
proof -
  have "wf_fl F32 (fl_of_int F32 (- 8192))" unfolding fl_of_int_def by (rule wf_mk_fl) simp_all
  moreover have "\<not> is_nan (fl_of_int F32 (- 8192))" by (simp add: fl_of_int_def)
  ultimately show ?thesis using claim_window_contains_focus [of "fl_of_int F32 (- 8192)"] by blast
qed

end
