(* ===== verification/Quaternion.thy ===== *)
theory Quaternion
  imports Ieee Bit_Buffer
begin

text \<open>
  Quantised angles and coordinates: the float fields of
  \<open>crates/baston-protocol/src/rage/buffer.rs\<close> (\<open>read_float\<close>, \<open>write_float\<close> and their signed
  forms) and the smallest-three quaternion compression of \<open>quaternion.rs\<close>. The trigonometric
  functions of the platform's math library are parameters, a record \<open>libm\<close>; all other
  arithmetic is IEEE single precision.
\<close>

section \<open>Quantised floats in the bit buffer\<close>

definition quant_max :: "nat \<Rightarrow> fl" where
  "quant_max n = fl_of_int F32 (2 ^ n - 1)"

definition read_float :: "nat \<Rightarrow> fl \<Rightarrow> fl reader" where
  "read_float len divisor =
     (if len = 0 \<or> 32 < len then fail
      else try_read (read_bits_single len) (\<lambda>v.
           ret (fl_mul F32 (fl_div F32 (fl_of_int F32 (sint v)) (quant_max len)) divisor)))"

definition write_float :: "nat \<Rightarrow> fl \<Rightarrow> fl \<Rightarrow> writer" where
  "write_float len divisor value =
     (let integer = fl_to_i32 (fl_mul F32 (fl_div F32 value divisor) (quant_max len))
      in write_bits_single integer len)"

definition read_signed_float :: "nat \<Rightarrow> fl \<Rightarrow> fl reader" where
  "read_signed_float len divisor =
     try_read (read_signed len) (\<lambda>v.
     ret (fl_mul F32 (fl_div F32 (fl_of_int F32 (sint v)) (quant_max (len - 1))) divisor))"

definition write_signed_float :: "nat \<Rightarrow> fl \<Rightarrow> fl \<Rightarrow> writer" where
  "write_signed_float len divisor value =
     (let integer = fl_to_i32 (fl_mul F32 (fl_div F32 value divisor) (quant_max (len - 1)))
      in write_signed integer len)"

section \<open>Smallest-three quaternions\<close>

record libm =
  lm_sin :: "fl \<Rightarrow> fl"
  lm_cos :: "fl \<Rightarrow> fl"
  lm_atan2 :: "fl \<Rightarrow> fl \<Rightarrow> fl"

definition SQRT_2 :: fl where "SQRT_2 = fl_lit F32 1414214 1000000"
definition MINIMUM :: fl where "MINIMUM = fl_div F32 (fl_of_int F32 (- 1)) SQRT_2"
definition MAXIMUM :: fl where "MAXIMUM = fl_div F32 (fl_of_int F32 1) SQRT_2"
definition QUAT_BITS :: nat where "QUAT_BITS = 11"
definition TAU_RADIANS :: fl where "TAU_RADIANS = fl_lit F32 62831855 10000000"

type_synonym quat = "fl \<times> fl \<times> fl \<times> fl"

record compressed_quaternion =
  cq_largest :: u32
  cq_a :: u32
  cq_b :: u32
  cq_c :: u32

text \<open>The loop over \<open>[y.abs(), z.abs(), w.abs()]\<close> keeps the first strictly larger magnitude.\<close>

definition largest_index :: "quat \<Rightarrow> u32" where
  "largest_index q = (case q of (x, y, z, w) \<Rightarrow>
     fst (fold (\<lambda>(i, v) (l, lv). if fl_lt lv v then (i + 1, v) else (l, lv))
       [(0, fl_abs y), (1, fl_abs z), (2, fl_abs w)] (0, fl_abs x)))"

definition quantise :: "nat \<Rightarrow> fl \<Rightarrow> fl \<Rightarrow> u32" where
  "quantise bits sign value =
     (let scale = quant_max bits;
          normal = fl_div F32 (fl_sub F32 (fl_mul F32 value sign) MINIMUM) (fl_sub F32 MAXIMUM MINIMUM)
      in fl_to_u32 (fl_floor F32 (fl_add F32 (fl_mul F32 normal scale) (fl_lit F32 1 2))))"

definition quat_compress :: "quat \<Rightarrow> nat \<Rightarrow> compressed_quaternion" where
  "quat_compress q bits = (case q of (x, y, z, w) \<Rightarrow>
     let largest = largest_index q;
         (lc, o0, o1, o2) =
           (if largest = 0 then (x, y, z, w)
            else if largest = 1 then (y, x, z, w)
            else if largest = 2 then (z, x, y, w)
            else (w, x, y, z));
         sign = (if fl_le (fl_of_int F32 0) lc then fl_of_int F32 1 else fl_of_int F32 (- 1))
     in \<lparr>cq_largest = largest, cq_a = quantise bits sign o0, cq_b = quantise bits sign o1,
         cq_c = quantise bits sign o2\<rparr>)"

definition dequantise :: "nat \<Rightarrow> u32 \<Rightarrow> fl" where
  "dequantise bits value =
     fl_add F32 (fl_mul F32 (fl_div F32 (fl_of_int F32 (uint value)) (quant_max bits))
       (fl_sub F32 MAXIMUM MINIMUM)) MINIMUM"

definition quat_decompress :: "compressed_quaternion \<Rightarrow> nat \<Rightarrow> quat" where
  "quat_decompress c bits =
     (let a = dequantise bits (cq_a c); b = dequantise bits (cq_b c); e = dequantise bits (cq_c c);
          rest = fl_sub F32 (fl_sub F32 (fl_sub F32 (fl_of_int F32 1) (fl_mul F32 a a)) (fl_mul F32 b b))
                   (fl_mul F32 e e);
          largest = fl_sqrt F32 (fl_max rest (fl_of_int F32 0))
      in if cq_largest c = 0 then (largest, a, b, e)
         else if cq_largest c = 1 then (a, largest, b, e)
         else if cq_largest c = 2 then (a, b, largest, e)
         else (a, b, e, largest))"

definition from_heading_degrees :: "libm \<Rightarrow> fl \<Rightarrow> quat" where
  "from_heading_degrees lm heading =
     (let half = fl_mul F32 (to_radians heading) (fl_lit F32 1 2)
      in (fl_of_int F32 0, fl_of_int F32 0, lm_sin lm half, lm_cos lm half))"

definition to_heading_degrees :: "libm \<Rightarrow> quat \<Rightarrow> fl" where
  "to_heading_degrees lm q = (case q of (x, y, z, w) \<Rightarrow>
     let yaw = lm_atan2 lm
           (fl_mul F32 (fl_of_int F32 2) (fl_add F32 (fl_mul F32 w z) (fl_mul F32 x y)))
           (fl_sub F32 (fl_of_int F32 1)
             (fl_mul F32 (fl_of_int F32 2) (fl_add F32 (fl_mul F32 y y) (fl_mul F32 z z))));
         degrees = to_degrees yaw
     in if fl_lt degrees (fl_of_int F32 0) then fl_add F32 degrees (fl_of_int F32 360) else degrees)"

end
