(* ===== verification/Sync_Trees.thy ===== *)
theory Sync_Trees
  imports Clone_Records
begin

text \<open>
  The sync tree tables of \<open>crates/baston-protocol/src/rage/sync_trees.rs\<close>, entry for entry:
  every tree is the flattened preorder of the engine's nested template, a depth, three gate ids
  and the node kind per entry. The second half of the theory gives the tables their meaning:
  a flat list that passes the executable check \<open>preorder_ok\<close> is the flattening of one tree, and
  all tables pass it.
\<close>

section \<open>Tables\<close>

datatype node_kind = NkParent | NkData string u16 \<comment> \<open>name, max_bytes\<close>

record flat_node =
  fn_depth :: u8
  fn_ids :: "u8 \<times> u8 \<times> u8"
  fn_kind :: node_kind

definition p_node :: "u8 \<Rightarrow> u8 \<times> u8 \<times> u8 \<Rightarrow> flat_node" where
  "p_node depth ids = \<lparr>fn_depth = depth, fn_ids = ids, fn_kind = NkParent\<rparr>"

definition d_node :: "u8 \<Rightarrow> u8 \<times> u8 \<times> u8 \<Rightarrow> string \<Rightarrow> u16 \<Rightarrow> flat_node" where
  "d_node depth ids name max_bytes =
     \<lparr>fn_depth = depth, fn_ids = ids, fn_kind = NkData name max_bytes\<rparr>"

definition AUTOMOBILE_TREE :: "flat_node list" where
  "AUTOMOBILE_TREE = [
    p_node 0 (127, 0, 0),
    p_node 1 (1, 0, 0),
    d_node 2 (1, 0, 0) ''CVehicleCreationDataNode'' 14,
    d_node 2 (1, 0, 0) ''CAutomobileCreationDataNode'' 2,
    p_node 1 (127, 127, 0),
    p_node 2 (127, 127, 0),
    p_node 3 (127, 127, 0),
    d_node 4 (127, 127, 0) ''CGlobalFlagsDataNode'' 2,
    d_node 4 (127, 127, 0) ''CDynamicEntityGameStateDataNode'' 102,
    d_node 4 (127, 127, 0) ''CPhysicalGameStateDataNode'' 4,
    d_node 4 (127, 127, 0) ''CVehicleGameStateDataNode'' 57,
    p_node 3 (127, 127, 1),
    d_node 4 (127, 127, 1) ''CEntityScriptGameStateDataNode'' 1,
    d_node 4 (127, 127, 1) ''CPhysicalScriptGameStateDataNode'' 13,
    d_node 4 (127, 127, 1) ''CVehicleScriptGameStateDataNode'' 50,
    d_node 4 (127, 127, 1) ''CEntityScriptInfoDataNode'' 24,
    d_node 2 (127, 127, 0) ''CPhysicalAttachDataNode'' 28,
    d_node 2 (127, 127, 0) ''CVehicleAppearanceDataNode'' 179,
    d_node 2 (127, 127, 0) ''CVehicleDamageStatusDataNode'' 34,
    d_node 2 (127, 127, 0) ''CVehicleComponentReservationDataNode'' 65,
    d_node 2 (127, 127, 0) ''CVehicleHealthDataNode'' 57,
    d_node 2 (127, 127, 0) ''CVehicleTaskDataNode'' 34,
    p_node 1 (127, 86, 0),
    d_node 2 (87, 87, 0) ''CSectorDataNode'' 4,
    d_node 2 (87, 87, 0) ''CSectorPositionDataNode'' 5,
    d_node 2 (87, 87, 0) ''CEntityOrientationDataNode'' 5,
    d_node 2 (87, 87, 0) ''CPhysicalVelocityDataNode'' 5,
    d_node 2 (87, 87, 0) ''CVehicleAngVelocityDataNode'' 4,
    p_node 2 (127, 86, 0),
    d_node 3 (86, 86, 0) ''CVehicleSteeringDataNode'' 2,
    d_node 3 (87, 87, 0) ''CVehicleControlDataNode'' 28,
    d_node 3 (127, 127, 0) ''CVehicleGadgetDataNode'' 31,
    p_node 1 (4, 0, 0),
    d_node 2 (4, 0, 0) ''CMigrationDataNode'' 13,
    d_node 2 (4, 0, 0) ''CPhysicalMigrationDataNode'' 1,
    d_node 2 (4, 0, 1) ''CPhysicalScriptMigrationDataNode'' 1,
    d_node 2 (4, 0, 0) ''CVehicleProximityMigrationDataNode'' 36]"

definition BIKE_TREE :: "flat_node list" where
  "BIKE_TREE = [
    p_node 0 (127, 0, 0),
    p_node 1 (1, 0, 0),
    d_node 2 (1, 0, 0) ''CVehicleCreationDataNode'' 14,
    p_node 1 (127, 127, 0),
    p_node 2 (127, 127, 0),
    p_node 3 (127, 127, 0),
    d_node 4 (127, 127, 0) ''CGlobalFlagsDataNode'' 2,
    d_node 4 (127, 127, 0) ''CDynamicEntityGameStateDataNode'' 102,
    d_node 4 (127, 127, 0) ''CPhysicalGameStateDataNode'' 4,
    d_node 4 (127, 127, 0) ''CVehicleGameStateDataNode'' 57,
    d_node 4 (127, 127, 0) ''CBikeGameStateDataNode'' 1,
    p_node 3 (127, 127, 1),
    d_node 4 (127, 127, 1) ''CEntityScriptGameStateDataNode'' 1,
    d_node 4 (127, 127, 1) ''CPhysicalScriptGameStateDataNode'' 13,
    d_node 4 (127, 127, 1) ''CVehicleScriptGameStateDataNode'' 50,
    d_node 4 (127, 127, 1) ''CEntityScriptInfoDataNode'' 24,
    d_node 2 (127, 127, 0) ''CPhysicalAttachDataNode'' 28,
    d_node 2 (127, 127, 0) ''CVehicleAppearanceDataNode'' 179,
    d_node 2 (127, 127, 0) ''CVehicleDamageStatusDataNode'' 34,
    d_node 2 (127, 127, 0) ''CVehicleComponentReservationDataNode'' 65,
    d_node 2 (127, 127, 0) ''CVehicleHealthDataNode'' 57,
    d_node 2 (127, 127, 0) ''CVehicleTaskDataNode'' 34,
    p_node 1 (127, 86, 0),
    d_node 2 (87, 87, 0) ''CSectorDataNode'' 4,
    d_node 2 (87, 87, 0) ''CSectorPositionDataNode'' 5,
    d_node 2 (87, 87, 0) ''CEntityOrientationDataNode'' 5,
    d_node 2 (87, 87, 0) ''CPhysicalVelocityDataNode'' 5,
    d_node 2 (87, 87, 0) ''CVehicleAngVelocityDataNode'' 4,
    p_node 2 (127, 86, 0),
    d_node 3 (86, 86, 0) ''CVehicleSteeringDataNode'' 2,
    d_node 3 (87, 87, 0) ''CVehicleControlDataNode'' 28,
    d_node 3 (127, 127, 0) ''CVehicleGadgetDataNode'' 31,
    p_node 1 (4, 0, 0),
    d_node 2 (4, 0, 0) ''CMigrationDataNode'' 13,
    d_node 2 (4, 0, 0) ''CPhysicalMigrationDataNode'' 1,
    d_node 2 (4, 0, 1) ''CPhysicalScriptMigrationDataNode'' 1,
    d_node 2 (4, 0, 0) ''CVehicleProximityMigrationDataNode'' 36]"

definition BOAT_TREE :: "flat_node list" where
  "BOAT_TREE = [
    p_node 0 (127, 0, 0),
    p_node 1 (1, 0, 0),
    d_node 2 (1, 0, 0) ''CVehicleCreationDataNode'' 14,
    p_node 1 (127, 87, 0),
    p_node 2 (127, 87, 0),
    p_node 3 (127, 87, 0),
    d_node 4 (127, 127, 0) ''CGlobalFlagsDataNode'' 2,
    d_node 4 (127, 127, 0) ''CDynamicEntityGameStateDataNode'' 102,
    d_node 4 (127, 127, 0) ''CPhysicalGameStateDataNode'' 4,
    d_node 4 (127, 127, 0) ''CVehicleGameStateDataNode'' 57,
    d_node 4 (87, 87, 0) ''CBoatGameStateDataNode'' 5,
    p_node 3 (127, 127, 1),
    d_node 4 (127, 127, 1) ''CEntityScriptGameStateDataNode'' 1,
    d_node 4 (127, 127, 1) ''CPhysicalScriptGameStateDataNode'' 13,
    d_node 4 (127, 127, 1) ''CVehicleScriptGameStateDataNode'' 50,
    d_node 4 (127, 127, 1) ''CEntityScriptInfoDataNode'' 24,
    d_node 2 (127, 127, 0) ''CPhysicalAttachDataNode'' 28,
    d_node 2 (127, 127, 0) ''CVehicleAppearanceDataNode'' 179,
    d_node 2 (127, 127, 0) ''CVehicleDamageStatusDataNode'' 34,
    d_node 2 (127, 127, 0) ''CVehicleComponentReservationDataNode'' 65,
    d_node 2 (127, 127, 0) ''CVehicleHealthDataNode'' 57,
    d_node 2 (127, 127, 0) ''CVehicleTaskDataNode'' 34,
    p_node 1 (127, 86, 0),
    d_node 2 (87, 87, 0) ''CSectorDataNode'' 4,
    d_node 2 (87, 87, 0) ''CSectorPositionDataNode'' 5,
    d_node 2 (87, 87, 0) ''CEntityOrientationDataNode'' 5,
    d_node 2 (87, 87, 0) ''CPhysicalVelocityDataNode'' 5,
    d_node 2 (87, 87, 0) ''CVehicleAngVelocityDataNode'' 4,
    p_node 2 (127, 86, 0),
    d_node 3 (86, 86, 0) ''CVehicleSteeringDataNode'' 2,
    d_node 3 (87, 87, 0) ''CVehicleControlDataNode'' 28,
    d_node 3 (127, 127, 0) ''CVehicleGadgetDataNode'' 31,
    p_node 1 (4, 0, 0),
    d_node 2 (4, 0, 0) ''CMigrationDataNode'' 13,
    d_node 2 (4, 0, 0) ''CPhysicalMigrationDataNode'' 1,
    d_node 2 (4, 0, 1) ''CPhysicalScriptMigrationDataNode'' 1,
    d_node 2 (4, 0, 0) ''CVehicleProximityMigrationDataNode'' 36]"

definition DOOR_TREE :: "flat_node list" where
  "DOOR_TREE = [
    p_node 0 (127, 0, 0),
    p_node 1 (1, 0, 0),
    d_node 2 (1, 0, 0) ''CDoorCreationDataNode'' 17,
    p_node 1 (127, 127, 0),
    d_node 2 (127, 127, 0) ''CGlobalFlagsDataNode'' 2,
    d_node 2 (127, 127, 1) ''CDoorScriptInfoDataNode'' 28,
    d_node 2 (127, 127, 1) ''CDoorScriptGameStateDataNode'' 8,
    d_node 1 (86, 86, 0) ''CDoorMovementDataNode'' 2,
    p_node 1 (4, 0, 0),
    d_node 2 (4, 0, 0) ''CMigrationDataNode'' 13,
    d_node 2 (4, 0, 1) ''CPhysicalScriptMigrationDataNode'' 1]"

definition HELI_TREE :: "flat_node list" where
  "HELI_TREE = [
    p_node 0 (127, 0, 0),
    p_node 1 (1, 0, 0),
    d_node 2 (1, 0, 0) ''CVehicleCreationDataNode'' 14,
    d_node 2 (1, 0, 0) ''CAutomobileCreationDataNode'' 2,
    p_node 1 (127, 87, 0),
    p_node 2 (127, 127, 0),
    p_node 3 (127, 127, 0),
    d_node 4 (127, 127, 0) ''CGlobalFlagsDataNode'' 2,
    d_node 4 (127, 127, 0) ''CDynamicEntityGameStateDataNode'' 102,
    d_node 4 (127, 127, 0) ''CPhysicalGameStateDataNode'' 4,
    d_node 4 (127, 127, 0) ''CVehicleGameStateDataNode'' 57,
    p_node 3 (127, 127, 1),
    d_node 4 (127, 127, 1) ''CEntityScriptGameStateDataNode'' 1,
    d_node 4 (127, 127, 1) ''CPhysicalScriptGameStateDataNode'' 13,
    d_node 4 (127, 127, 1) ''CVehicleScriptGameStateDataNode'' 50,
    d_node 4 (127, 127, 1) ''CEntityScriptInfoDataNode'' 24,
    d_node 2 (127, 127, 0) ''CPhysicalAttachDataNode'' 28,
    d_node 2 (127, 127, 0) ''CVehicleAppearanceDataNode'' 179,
    d_node 2 (127, 127, 0) ''CVehicleDamageStatusDataNode'' 34,
    d_node 2 (127, 127, 0) ''CVehicleComponentReservationDataNode'' 65,
    d_node 2 (127, 127, 0) ''CVehicleHealthDataNode'' 57,
    d_node 2 (127, 127, 0) ''CVehicleTaskDataNode'' 34,
    d_node 2 (87, 87, 0) ''CHeliHealthDataNode'' 16,
    p_node 1 (127, 86, 0),
    d_node 2 (87, 87, 0) ''CSectorDataNode'' 4,
    d_node 2 (87, 87, 0) ''CSectorPositionDataNode'' 5,
    d_node 2 (87, 87, 0) ''CEntityOrientationDataNode'' 5,
    d_node 2 (87, 87, 0) ''CPhysicalVelocityDataNode'' 5,
    d_node 2 (87, 87, 0) ''CVehicleAngVelocityDataNode'' 4,
    p_node 2 (127, 86, 0),
    d_node 3 (86, 86, 0) ''CVehicleSteeringDataNode'' 2,
    d_node 3 (87, 87, 0) ''CVehicleControlDataNode'' 28,
    d_node 3 (127, 127, 0) ''CVehicleGadgetDataNode'' 31,
    d_node 3 (86, 86, 0) ''CHeliControlDataNode'' 8,
    p_node 1 (4, 0, 0),
    d_node 2 (4, 0, 0) ''CMigrationDataNode'' 13,
    d_node 2 (4, 0, 0) ''CPhysicalMigrationDataNode'' 1,
    d_node 2 (4, 0, 1) ''CPhysicalScriptMigrationDataNode'' 1,
    d_node 2 (4, 0, 0) ''CVehicleProximityMigrationDataNode'' 36]"

definition OBJECT_TREE :: "flat_node list" where
  "OBJECT_TREE = [
    p_node 0 (127, 0, 0),
    p_node 1 (1, 0, 0),
    d_node 2 (1, 0, 0) ''CObjectCreationDataNode'' 30,
    p_node 1 (127, 127, 0),
    p_node 2 (127, 127, 0),
    p_node 3 (127, 127, 0),
    d_node 4 (127, 127, 0) ''CGlobalFlagsDataNode'' 2,
    d_node 4 (127, 127, 0) ''CDynamicEntityGameStateDataNode'' 102,
    d_node 4 (127, 127, 0) ''CPhysicalGameStateDataNode'' 4,
    d_node 4 (127, 127, 0) ''CObjectGameStateDataNode'' 44,
    p_node 3 (127, 127, 1),
    d_node 4 (127, 127, 1) ''CEntityScriptGameStateDataNode'' 1,
    d_node 4 (127, 127, 1) ''CPhysicalScriptGameStateDataNode'' 13,
    d_node 4 (127, 127, 1) ''CObjectScriptGameStateDataNode'' 14,
    d_node 4 (127, 127, 1) ''CEntityScriptInfoDataNode'' 24,
    d_node 2 (127, 127, 0) ''CPhysicalAttachDataNode'' 28,
    d_node 2 (127, 127, 0) ''CPhysicalHealthDataNode'' 19,
    p_node 1 (87, 87, 0),
    d_node 2 (87, 87, 0) ''CSectorDataNode'' 4,
    d_node 2 (87, 87, 0) ''CObjectSectorPosNode'' 8,
    d_node 2 (87, 87, 0) ''CObjectOrientationDataNode'' 8,
    d_node 2 (87, 87, 0) ''CPhysicalVelocityDataNode'' 5,
    d_node 2 (87, 87, 0) ''CPhysicalAngVelocityDataNode'' 4,
    p_node 1 (4, 0, 0),
    d_node 2 (4, 0, 0) ''CMigrationDataNode'' 13,
    d_node 2 (4, 0, 0) ''CPhysicalMigrationDataNode'' 1,
    d_node 2 (4, 0, 1) ''CPhysicalScriptMigrationDataNode'' 1]"

definition PED_TREE :: "flat_node list" where
  "PED_TREE = [
    p_node 0 (127, 0, 0),
    p_node 1 (1, 0, 0),
    d_node 2 (1, 0, 0) ''CPedCreationDataNode'' 20,
    d_node 2 (1, 0, 1) ''CPedScriptCreationDataNode'' 1,
    p_node 1 (127, 87, 0),
    p_node 2 (127, 127, 0),
    p_node 3 (127, 127, 0),
    d_node 4 (127, 127, 0) ''CGlobalFlagsDataNode'' 2,
    d_node 4 (127, 127, 0) ''CDynamicEntityGameStateDataNode'' 102,
    d_node 4 (127, 127, 0) ''CPhysicalGameStateDataNode'' 4,
    d_node 4 (127, 127, 0) ''CPedGameStateDataNode'' 104,
    d_node 4 (127, 127, 0) ''CPedComponentReservationDataNode'' 65,
    p_node 3 (127, 127, 1),
    d_node 4 (127, 127, 1) ''CEntityScriptGameStateDataNode'' 1,
    d_node 4 (127, 127, 1) ''CPhysicalScriptGameStateDataNode'' 13,
    d_node 4 (127, 127, 1) ''CPedScriptGameStateDataNode'' 115,
    d_node 4 (127, 127, 1) ''CEntityScriptInfoDataNode'' 24,
    d_node 2 (127, 127, 1) ''CPedAttachDataNode'' 22,
    d_node 2 (127, 127, 0) ''CPedHealthDataNode'' 17,
    d_node 2 (87, 87, 0) ''CPedMovementGroupDataNode'' 26,
    d_node 2 (127, 127, 1) ''CPedAIDataNode'' 9,
    d_node 2 (87, 87, 0) ''CPedAppearanceDataNode'' 141,
    p_node 1 (127, 87, 0),
    d_node 2 (87, 87, 0) ''CPedOrientationDataNode'' 3,
    d_node 2 (87, 87, 0) ''CPedMovementDataNode'' 5,
    p_node 2 (127, 87, 0),
    d_node 3 (127, 127, 0) ''CPedTaskTreeDataNode'' 28,
    d_node 3 (87, 87, 0) ''CPedTaskSpecificDataNode'' 77,
    d_node 3 (87, 87, 0) ''CPedTaskSpecificDataNode'' 77,
    d_node 3 (87, 87, 0) ''CPedTaskSpecificDataNode'' 77,
    d_node 3 (87, 87, 0) ''CPedTaskSpecificDataNode'' 77,
    d_node 3 (87, 87, 0) ''CPedTaskSpecificDataNode'' 77,
    d_node 3 (87, 87, 0) ''CPedTaskSpecificDataNode'' 77,
    d_node 3 (87, 87, 0) ''CPedTaskSpecificDataNode'' 77,
    d_node 3 (87, 87, 0) ''CPedTaskSpecificDataNode'' 77,
    d_node 2 (87, 87, 0) ''CSectorDataNode'' 4,
    d_node 2 (87, 87, 0) ''CPedSectorPosMapNode'' 12,
    d_node 2 (87, 87, 0) ''CPedSectorPosNavMeshNode'' 4,
    p_node 1 (87, 0, 0),
    d_node 2 (4, 0, 0) ''CMigrationDataNode'' 13,
    d_node 2 (4, 0, 0) ''CPhysicalMigrationDataNode'' 1,
    d_node 2 (4, 0, 1) ''CPhysicalScriptMigrationDataNode'' 1,
    d_node 2 (87, 0, 0) ''CPedInventoryDataNode'' 321,
    d_node 2 (4, 4, 1) ''CPedTaskSequenceDataNode'' 1]"

definition PICKUP_TREE :: "flat_node list" where
  "PICKUP_TREE = [
    p_node 0 (127, 0, 0),
    p_node 1 (1, 0, 0),
    d_node 2 (1, 0, 0) ''CPickupCreationDataNode'' 66,
    p_node 1 (127, 127, 0),
    p_node 2 (127, 127, 0),
    d_node 3 (127, 127, 0) ''CGlobalFlagsDataNode'' 2,
    d_node 3 (127, 127, 0) ''CDynamicEntityGameStateDataNode'' 102,
    p_node 2 (127, 127, 1),
    d_node 3 (127, 127, 1) ''CPickupScriptGameStateNode'' 14,
    d_node 3 (127, 127, 1) ''CPhysicalGameStateDataNode'' 4,
    d_node 3 (127, 127, 1) ''CEntityScriptGameStateDataNode'' 1,
    d_node 3 (127, 127, 1) ''CPhysicalScriptGameStateDataNode'' 13,
    d_node 3 (127, 127, 1) ''CEntityScriptInfoDataNode'' 24,
    d_node 3 (127, 127, 1) ''CPhysicalHealthDataNode'' 19,
    d_node 2 (127, 127, 1) ''CPhysicalAttachDataNode'' 28,
    p_node 1 (87, 87, 0),
    d_node 2 (87, 87, 0) ''CSectorDataNode'' 4,
    d_node 2 (87, 87, 0) ''CPickupSectorPosNode'' 8,
    d_node 2 (87, 87, 0) ''CEntityOrientationDataNode'' 5,
    d_node 2 (87, 87, 0) ''CPhysicalVelocityDataNode'' 5,
    d_node 2 (87, 87, 0) ''CPhysicalAngVelocityDataNode'' 4,
    p_node 1 (4, 0, 0),
    d_node 2 (4, 0, 0) ''CMigrationDataNode'' 13,
    d_node 2 (4, 0, 1) ''CPhysicalMigrationDataNode'' 1,
    d_node 2 (4, 0, 1) ''CPhysicalScriptMigrationDataNode'' 1]"

definition PICKUP_PLACEMENT_TREE :: "flat_node list" where
  "PICKUP_PLACEMENT_TREE = [
    p_node 0 (127, 0, 0),
    d_node 1 (1, 0, 0) ''CPickupPlacementCreationDataNode'' 54,
    d_node 1 (4, 0, 0) ''CMigrationDataNode'' 13,
    d_node 1 (127, 127, 0) ''CGlobalFlagsDataNode'' 2,
    d_node 1 (127, 127, 0) ''CPickupPlacementStateDataNode'' 7]"

definition PLANE_TREE :: "flat_node list" where
  "PLANE_TREE = [
    p_node 0 (127, 0, 0),
    p_node 1 (1, 0, 0),
    d_node 2 (1, 0, 0) ''CVehicleCreationDataNode'' 14,
    p_node 1 (127, 127, 0),
    p_node 2 (127, 127, 0),
    p_node 3 (127, 127, 0),
    d_node 4 (127, 127, 0) ''CGlobalFlagsDataNode'' 2,
    d_node 4 (127, 127, 0) ''CDynamicEntityGameStateDataNode'' 102,
    d_node 4 (127, 127, 0) ''CPhysicalGameStateDataNode'' 4,
    d_node 4 (127, 127, 0) ''CVehicleGameStateDataNode'' 57,
    p_node 3 (127, 127, 1),
    d_node 4 (127, 127, 1) ''CEntityScriptGameStateDataNode'' 1,
    d_node 4 (127, 127, 1) ''CPhysicalScriptGameStateDataNode'' 13,
    d_node 4 (127, 127, 1) ''CVehicleScriptGameStateDataNode'' 50,
    d_node 4 (127, 127, 1) ''CEntityScriptInfoDataNode'' 24,
    d_node 2 (127, 127, 0) ''CPhysicalAttachDataNode'' 28,
    d_node 2 (127, 127, 0) ''CVehicleAppearanceDataNode'' 179,
    d_node 2 (127, 127, 0) ''CVehicleDamageStatusDataNode'' 34,
    d_node 2 (127, 127, 0) ''CVehicleComponentReservationDataNode'' 65,
    d_node 2 (127, 127, 0) ''CVehicleHealthDataNode'' 57,
    d_node 2 (127, 127, 0) ''CVehicleTaskDataNode'' 34,
    d_node 2 (127, 127, 0) ''CPlaneGameStateDataNode'' 52,
    p_node 1 (127, 86, 0),
    d_node 2 (87, 87, 0) ''CSectorDataNode'' 4,
    d_node 2 (87, 87, 0) ''CSectorPositionDataNode'' 5,
    d_node 2 (87, 87, 0) ''CEntityOrientationDataNode'' 5,
    d_node 2 (87, 87, 0) ''CPhysicalVelocityDataNode'' 5,
    d_node 2 (87, 87, 0) ''CVehicleAngVelocityDataNode'' 4,
    p_node 2 (127, 86, 0),
    d_node 3 (86, 86, 0) ''CVehicleSteeringDataNode'' 2,
    d_node 3 (87, 87, 0) ''CVehicleControlDataNode'' 28,
    d_node 3 (127, 127, 0) ''CVehicleGadgetDataNode'' 31,
    d_node 3 (86, 86, 0) ''CPlaneControlDataNode'' 7,
    p_node 1 (4, 0, 0),
    d_node 2 (4, 0, 0) ''CMigrationDataNode'' 13,
    d_node 2 (4, 0, 0) ''CPhysicalMigrationDataNode'' 1,
    d_node 2 (4, 0, 1) ''CPhysicalScriptMigrationDataNode'' 1,
    d_node 2 (4, 0, 0) ''CVehicleProximityMigrationDataNode'' 36]"

definition SUBMARINE_TREE :: "flat_node list" where
  "SUBMARINE_TREE = [
    p_node 0 (127, 0, 0),
    p_node 1 (1, 0, 0),
    d_node 2 (1, 0, 0) ''CVehicleCreationDataNode'' 14,
    p_node 1 (127, 87, 0),
    p_node 2 (127, 87, 0),
    p_node 3 (127, 87, 0),
    d_node 4 (127, 127, 0) ''CGlobalFlagsDataNode'' 2,
    d_node 4 (127, 127, 0) ''CDynamicEntityGameStateDataNode'' 102,
    d_node 4 (127, 127, 0) ''CPhysicalGameStateDataNode'' 4,
    d_node 4 (127, 127, 0) ''CVehicleGameStateDataNode'' 57,
    d_node 4 (87, 87, 0) ''CSubmarineGameStateDataNode'' 1,
    p_node 3 (127, 127, 1),
    d_node 4 (127, 127, 1) ''CEntityScriptGameStateDataNode'' 1,
    d_node 4 (127, 127, 1) ''CPhysicalScriptGameStateDataNode'' 13,
    d_node 4 (127, 127, 1) ''CVehicleScriptGameStateDataNode'' 50,
    d_node 4 (127, 127, 1) ''CEntityScriptInfoDataNode'' 24,
    d_node 2 (127, 127, 0) ''CPhysicalAttachDataNode'' 28,
    d_node 2 (127, 127, 0) ''CVehicleAppearanceDataNode'' 179,
    d_node 2 (127, 127, 0) ''CVehicleDamageStatusDataNode'' 34,
    d_node 2 (127, 127, 0) ''CVehicleComponentReservationDataNode'' 65,
    d_node 2 (127, 127, 0) ''CVehicleHealthDataNode'' 57,
    d_node 2 (127, 127, 0) ''CVehicleTaskDataNode'' 34,
    p_node 1 (127, 86, 0),
    d_node 2 (87, 87, 0) ''CSectorDataNode'' 4,
    d_node 2 (87, 87, 0) ''CSectorPositionDataNode'' 5,
    d_node 2 (87, 87, 0) ''CEntityOrientationDataNode'' 5,
    d_node 2 (87, 87, 0) ''CPhysicalVelocityDataNode'' 5,
    d_node 2 (87, 87, 0) ''CVehicleAngVelocityDataNode'' 4,
    p_node 2 (127, 86, 0),
    d_node 3 (86, 86, 0) ''CVehicleSteeringDataNode'' 2,
    d_node 3 (87, 87, 0) ''CVehicleControlDataNode'' 28,
    d_node 3 (127, 127, 0) ''CVehicleGadgetDataNode'' 31,
    d_node 3 (86, 86, 0) ''CSubmarineControlDataNode'' 4,
    p_node 1 (4, 0, 0),
    d_node 2 (4, 0, 0) ''CMigrationDataNode'' 13,
    d_node 2 (4, 0, 0) ''CPhysicalMigrationDataNode'' 1,
    d_node 2 (4, 0, 1) ''CPhysicalScriptMigrationDataNode'' 1,
    d_node 2 (4, 0, 0) ''CVehicleProximityMigrationDataNode'' 36]"

definition PLAYER_TREE :: "flat_node list" where
  "PLAYER_TREE = [
    p_node 0 (127, 0, 0),
    p_node 1 (1, 0, 0),
    d_node 2 (1, 0, 0) ''CPlayerCreationDataNode'' 128,
    p_node 1 (127, 86, 0),
    p_node 2 (127, 87, 0),
    p_node 3 (127, 127, 0),
    d_node 4 (127, 127, 0) ''CGlobalFlagsDataNode'' 2,
    d_node 4 (127, 127, 0) ''CDynamicEntityGameStateDataNode'' 102,
    d_node 4 (127, 127, 0) ''CPhysicalGameStateDataNode'' 4,
    d_node 4 (127, 127, 0) ''CPedGameStateDataNode'' 104,
    d_node 4 (127, 127, 0) ''CPedComponentReservationDataNode'' 65,
    p_node 3 (127, 87, 0),
    d_node 4 (127, 127, 1) ''CEntityScriptGameStateDataNode'' 1,
    d_node 4 (87, 87, 0) ''CPlayerGameStateDataNode'' 104,
    d_node 2 (127, 127, 1) ''CPedAttachDataNode'' 22,
    d_node 2 (127, 127, 0) ''CPedHealthDataNode'' 17,
    d_node 2 (87, 87, 0) ''CPedMovementGroupDataNode'' 26,
    d_node 2 (127, 127, 1) ''CPedAIDataNode'' 9,
    d_node 2 (87, 87, 0) ''CPlayerAppearanceDataNode'' 560,
    d_node 2 (86, 86, 0) ''CPlayerPedGroupDataNode'' 19,
    d_node 2 (86, 86, 0) ''CPlayerAmbientModelStreamingNode'' 5,
    d_node 2 (86, 86, 0) ''CPlayerGamerDataNode'' 370,
    d_node 2 (86, 86, 0) ''CPlayerExtendedGameStateNode'' 20,
    p_node 1 (127, 86, 0),
    d_node 2 (87, 87, 0) ''CPedOrientationDataNode'' 3,
    d_node 2 (87, 87, 0) ''CPedMovementDataNode'' 5,
    p_node 2 (127, 87, 0),
    d_node 3 (127, 127, 0) ''CPedTaskTreeDataNode'' 28,
    d_node 3 (87, 87, 0) ''CPedTaskSpecificDataNode'' 77,
    d_node 3 (87, 87, 0) ''CPedTaskSpecificDataNode'' 77,
    d_node 3 (87, 87, 0) ''CPedTaskSpecificDataNode'' 77,
    d_node 3 (87, 87, 0) ''CPedTaskSpecificDataNode'' 77,
    d_node 3 (87, 87, 0) ''CPedTaskSpecificDataNode'' 77,
    d_node 3 (87, 87, 0) ''CPedTaskSpecificDataNode'' 77,
    d_node 3 (87, 87, 0) ''CPedTaskSpecificDataNode'' 77,
    d_node 3 (87, 87, 0) ''CPedTaskSpecificDataNode'' 77,
    d_node 2 (87, 87, 0) ''CSectorDataNode'' 4,
    d_node 2 (87, 87, 0) ''CPlayerSectorPosNode'' 13,
    d_node 2 (86, 86, 0) ''CPlayerCameraDataNode'' 24,
    d_node 2 (86, 86, 0) ''CPlayerWantedAndLOSDataNode'' 30,
    p_node 1 (4, 0, 0),
    d_node 2 (4, 0, 0) ''CMigrationDataNode'' 13,
    d_node 2 (4, 0, 0) ''CPhysicalMigrationDataNode'' 1,
    d_node 2 (4, 0, 1) ''CPhysicalScriptMigrationDataNode'' 1]"

definition TRAIN_TREE :: "flat_node list" where
  "TRAIN_TREE = [
    p_node 0 (127, 0, 0),
    p_node 1 (1, 0, 0),
    d_node 2 (1, 0, 0) ''CVehicleCreationDataNode'' 14,
    p_node 1 (127, 127, 0),
    p_node 2 (127, 127, 0),
    p_node 3 (127, 127, 0),
    d_node 4 (127, 127, 0) ''CGlobalFlagsDataNode'' 2,
    d_node 4 (127, 127, 0) ''CDynamicEntityGameStateDataNode'' 102,
    d_node 4 (127, 127, 0) ''CPhysicalGameStateDataNode'' 4,
    d_node 4 (127, 127, 0) ''CVehicleGameStateDataNode'' 57,
    d_node 4 (127, 127, 0) ''CTrainGameStateDataNode'' 17,
    p_node 3 (127, 127, 1),
    d_node 4 (127, 127, 1) ''CEntityScriptGameStateDataNode'' 1,
    d_node 4 (127, 127, 1) ''CPhysicalScriptGameStateDataNode'' 13,
    d_node 4 (127, 127, 1) ''CVehicleScriptGameStateDataNode'' 50,
    d_node 4 (127, 127, 1) ''CEntityScriptInfoDataNode'' 24,
    d_node 2 (127, 127, 0) ''CPhysicalAttachDataNode'' 28,
    d_node 2 (127, 127, 0) ''CVehicleAppearanceDataNode'' 179,
    d_node 2 (127, 127, 0) ''CVehicleDamageStatusDataNode'' 34,
    d_node 2 (127, 127, 0) ''CVehicleComponentReservationDataNode'' 65,
    d_node 2 (127, 127, 0) ''CVehicleHealthDataNode'' 57,
    d_node 2 (127, 127, 0) ''CVehicleTaskDataNode'' 34,
    p_node 1 (127, 86, 0),
    d_node 2 (87, 87, 0) ''CSectorDataNode'' 4,
    d_node 2 (87, 87, 0) ''CSectorPositionDataNode'' 5,
    d_node 2 (87, 87, 0) ''CEntityOrientationDataNode'' 5,
    d_node 2 (87, 87, 0) ''CPhysicalVelocityDataNode'' 5,
    d_node 2 (87, 87, 0) ''CVehicleAngVelocityDataNode'' 4,
    p_node 2 (127, 86, 0),
    d_node 3 (86, 86, 0) ''CVehicleSteeringDataNode'' 2,
    d_node 3 (87, 87, 0) ''CVehicleControlDataNode'' 28,
    d_node 3 (127, 127, 0) ''CVehicleGadgetDataNode'' 31,
    p_node 1 (4, 0, 0),
    d_node 2 (4, 0, 0) ''CMigrationDataNode'' 13,
    d_node 2 (4, 0, 0) ''CPhysicalMigrationDataNode'' 1,
    d_node 2 (4, 0, 1) ''CPhysicalScriptMigrationDataNode'' 1,
    d_node 2 (4, 0, 0) ''CVehicleProximityMigrationDataNode'' 36]"

fun tree_for :: "net_obj_entity_type \<Rightarrow> flat_node list" where
  "tree_for Automobile = AUTOMOBILE_TREE"
| "tree_for Bike = BIKE_TREE"
| "tree_for Boat = BOAT_TREE"
| "tree_for Door = DOOR_TREE"
| "tree_for Heli = HELI_TREE"
| "tree_for Object = OBJECT_TREE"
| "tree_for Ped = PED_TREE"
| "tree_for Pickup = PICKUP_TREE"
| "tree_for PickupPlacement = PICKUP_PLACEMENT_TREE"
| "tree_for Plane = PLANE_TREE"
| "tree_for Submarine = SUBMARINE_TREE"
| "tree_for Player = PLAYER_TREE"
| "tree_for Trailer = AUTOMOBILE_TREE"
| "tree_for Train = TRAIN_TREE"

lemmas table_defs = AUTOMOBILE_TREE_def BIKE_TREE_def BOAT_TREE_def DOOR_TREE_def
  HELI_TREE_def OBJECT_TREE_def PED_TREE_def PICKUP_TREE_def
  PICKUP_PLACEMENT_TREE_def PLANE_TREE_def SUBMARINE_TREE_def PLAYER_TREE_def
  TRAIN_TREE_def

section \<open>Trees\<close>

text \<open>The nested form: gate ids with either a payload name or the children.\<close>

datatype sync_node =
    SLeaf "u8 \<times> u8 \<times> u8" string u16
  | SParent "u8 \<times> u8 \<times> u8" "sync_node list"

fun flatten :: "nat \<Rightarrow> sync_node \<Rightarrow> flat_node list" where
  "flatten d (SLeaf ids name mx) = [d_node (of_nat d) ids name mx]"
| "flatten d (SParent ids ts) = p_node (of_nat d) ids # concat (map (flatten (Suc d)) ts)"

text \<open>Depths stay within the byte that carries them.\<close>

fun deep_ok :: "nat \<Rightarrow> sync_node \<Rightarrow> bool" where
  "deep_ok d (SLeaf ids name mx) \<longleftrightarrow> d < 256"
| "deep_ok d (SParent ids ts) \<longleftrightarrow> d < 256 \<and> (\<forall>t\<in>set ts. deep_ok (Suc d) t)"

definition depth_of :: "flat_node \<Rightarrow> nat" where
  "depth_of n = unat (fn_depth n)"

definition is_parent :: "flat_node \<Rightarrow> bool" where
  "is_parent n = (case fn_kind n of NkParent \<Rightarrow> True | NkData _ _ \<Rightarrow> False)"

text \<open>Consecutive entries: below a parent the depth grows by at most one, after a leaf it does not
  grow.\<close>

definition step_ok :: "flat_node \<Rightarrow> flat_node \<Rightarrow> bool" where
  "step_ok n m \<longleftrightarrow> depth_of m \<le> depth_of n + (if is_parent n then 1 else 0)"

definition preorder_ok :: "flat_node list \<Rightarrow> bool" where
  "preorder_ok ns \<longleftrightarrow> (case ns of [] \<Rightarrow> False
     | n # ms \<Rightarrow> depth_of n = 0 \<and> is_parent n \<and> list_all (\<lambda>m. 0 < depth_of m) ms) \<and> successively step_ok ns"

subsection \<open>A preorder list is the flattening of a tree\<close>

lemma unat_lt_256: "unat (w::u8) < 256"
  by (rule order.strict_trans2 [OF unsigned_less]) simp

lemma node_cases:
  obtains (parent) "n = p_node (of_nat (depth_of n)) (fn_ids n)" "is_parent n"
  | (leaf) name mx where "n = d_node (of_nat (depth_of n)) (fn_ids n) name mx" "\<not> is_parent n"
  by (cases n; cases "fn_kind n") (auto simp: p_node_def d_node_def depth_of_def is_parent_def)

lemma takeWhile_deeper:
  assumes "successively step_ok (n # ns)" "depth_of n = d"
  shows "takeWhile (\<lambda>m. d < depth_of m) ns = [] \<or>
    is_parent n \<and> depth_of (hd (takeWhile (\<lambda>m. d < depth_of m) ns)) = Suc d"
  using assms by (cases ns) (auto simp: step_ok_def split: if_splits)

lemma successively_takeWhile: "successively P xs \<Longrightarrow> successively P (takeWhile Q xs)"
  by (metis successively_append_iff takeWhile_dropWhile_id)

lemma successively_dropWhile: "successively P xs \<Longrightarrow> successively P (dropWhile Q xs)"
  by (metis successively_append_iff takeWhile_dropWhile_id)

lemma forest_exists:
  assumes "successively step_ok ns" "\<forall>m\<in>set ns. d \<le> depth_of m" "ns = [] \<or> depth_of (hd ns) = d"
  shows "\<exists>ts. ns = concat (map (flatten d) ts) \<and> (\<forall>t\<in>set ts. deep_ok d t)"
  using assms
proof (induction "length ns" arbitrary: ns d rule: less_induct)
  case less
  show ?case
  proof (cases ns)
    case Nil
    then show ?thesis by (intro exI [of _ "[]"]) simp
  next
    case (Cons n rest)
    let ?sub = "takeWhile (\<lambda>m. d < depth_of m) rest" and ?rs = "dropWhile (\<lambda>m. d < depth_of m) rest"
    have d: "depth_of n = d" and ch: "successively step_ok (n # rest)" using less.prems Cons by auto
    have rest: "successively step_ok rest" using ch by (cases rest) auto
    note tw = takeWhile_deeper [OF ch d]
    have "\<exists>ts. ?sub = concat (map (flatten (Suc d)) ts) \<and> (\<forall>t\<in>set ts. deep_ok (Suc d) t)"
      using tw successively_takeWhile [OF rest] length_takeWhile_le [of _ rest]
      by (intro less.hyps) (auto simp: Cons less_Suc_eq_le dest: set_takeWhileD)
    then obtain ts where ts: "?sub = concat (map (flatten (Suc d)) ts)" "\<forall>t\<in>set ts. deep_ok (Suc d) t"
      by blast
    have lt: "d < 256" using d unat_lt_256 [of "fn_depth n"] by (simp add: depth_of_def)
    have "\<forall>m\<in>set ?rs. d \<le> depth_of m" using less.prems(2) Cons by (auto dest: set_dropWhileD)
    moreover have "?rs = [] \<or> depth_of (hd ?rs) = d"
      using calculation hd_dropWhile [of "\<lambda>m. d < depth_of m" rest] by (metis hd_in_set le_neq_implies_less)
    ultimately have "\<exists>us. ?rs = concat (map (flatten d) us) \<and> (\<forall>t\<in>set us. deep_ok d t)"
      using successively_dropWhile [OF rest] length_dropWhile_le [of _ rest]
      by (intro less.hyps) (auto simp: Cons less_Suc_eq_le)
    then obtain us where us: "?rs = concat (map (flatten d) us)" "\<forall>t\<in>set us. deep_ok d t" by blast
    show ?thesis
    proof (cases n rule: node_cases)
      case parent
      then have "ns = concat (map (flatten d) (SParent (fn_ids n) ts # us))"
        using Cons d ts us takeWhile_dropWhile_id [of "\<lambda>m. d < depth_of m" rest] by auto
      moreover have "\<forall>t\<in>set (SParent (fn_ids n) ts # us). deep_ok d t" using ts us lt by simp
      ultimately show ?thesis by blast
    next
      case (leaf name mx)
      then have "?sub = []" using tw by auto
      then have "ns = concat (map (flatten d) (SLeaf (fn_ids n) name mx # us))"
        using leaf Cons d us takeWhile_dropWhile_id [of "\<lambda>m. d < depth_of m" rest] by auto
      moreover have "\<forall>t\<in>set (SLeaf (fn_ids n) name mx # us). deep_ok d t" using us lt by simp
      ultimately show ?thesis by blast
    qed
  qed
qed

lemma tree_exists:
  assumes "preorder_ok ns"
  shows "\<exists>ids ts. ns = flatten 0 (SParent ids ts) \<and> deep_ok 0 (SParent ids ts)"
proof -
  obtain n ms where ns: "ns = n # ms" "depth_of n = 0" "is_parent n" "\<forall>m\<in>set ms. 0 < depth_of m"
      "successively step_ok (n # ms)"
    using assms by (auto simp: preorder_ok_def list_all_iff split: list.splits)
  have tw: "takeWhile (\<lambda>m. 0 < depth_of m) ms = ms" using ns(4) by (simp add: takeWhile_eq_all_conv)
  have "ms = [] \<or> depth_of (hd ms) = Suc 0" using takeWhile_deeper [OF ns(5,2)] unfolding tw by blast
  moreover have "successively step_ok ms" using ns(5) by (cases ms) auto
  ultimately obtain ts where "ms = concat (map (flatten (Suc 0)) ts)" "\<forall>t\<in>set ts. deep_ok (Suc 0) t"
    using forest_exists [of ms "Suc 0"] ns(4) by (auto simp: Suc_le_eq)
  moreover have "n = p_node 0 (fn_ids n)" using ns(2,3) by (cases n rule: node_cases) auto
  ultimately have "ns = flatten 0 (SParent (fn_ids n) ts)" "deep_ok 0 (SParent (fn_ids n) ts)"
    using ns(1) by simp_all
  then show ?thesis by blast
qed

lemma tables_preorder: "preorder_ok (tree_for ty)"
  by (cases ty) (simp_all add: table_defs preorder_ok_def step_ok_def depth_of_def is_parent_def p_node_def d_node_def)

end
