(* ===== verification/Leaf_Decoders.thy ===== *)
theory Leaf_Decoders
  imports Quaternion Sync_Trees
begin

text \<open>
  The leaf decoders of \<open>crates/baston-protocol/src/rage/sync_parse.rs\<close>: the game build gates,
  the decoded state of one record, and one reader per sync node the server understands, field by
  field in wire order. An \<open>i32\<close> or \<open>i16\<close> field is a word read in two's complement, a fixed-size
  array is a list.
\<close>

section \<open>Reading helpers\<close>

text \<open>\<open>buf.read_bits_single(n)?\<close>, \<open>buf.read_bit() != 0\<close>, a bit or a field that is read and
  dropped, an optional block, a counted loop and a loop that fills an array.\<close>

abbreviation fld :: "nat \<Rightarrow> (u32 \<Rightarrow> 'a reader) \<Rightarrow> 'a reader" where
  "fld n \<equiv> try_read (read_bits_single n)"

abbreviation flag :: "(bool \<Rightarrow> 'a reader) \<Rightarrow> 'a reader" where
  "flag k \<equiv> then_read read_bit (\<lambda>v. k (v \<noteq> 0))"

abbreviation skip_bit :: "'a reader \<Rightarrow> 'a reader" where
  "skip_bit k \<equiv> then_read read_bit (\<lambda>_. k)"

definition skip_field :: "nat \<Rightarrow> unit reader" where
  "skip_field n = fld n (\<lambda>_. ret ())"

definition opt_read :: "bool \<Rightarrow> unit reader \<Rightarrow> unit reader" where
  "opt_read c m = (if c then m else ret ())"

fun rep_read :: "nat \<Rightarrow> unit reader \<Rightarrow> unit reader" where
  "rep_read 0 m = ret ()"
| "rep_read (Suc n) m = try_read m (\<lambda>_. rep_read n m)"

definition skip_bits :: "nat \<Rightarrow> unit reader" where
  "skip_bits n = rep_read n (skip_bit (ret ()))"

fun map_read :: "('b \<Rightarrow> 'a reader) \<Rightarrow> 'b list \<Rightarrow> 'a list reader" where
  "map_read f [] = ret []"
| "map_read f (x # xs) = try_read (f x) (\<lambda>v. try_read (map_read f xs) (\<lambda>vs. ret (v # vs)))"

definition byte_field :: "nat \<Rightarrow> u8 reader" where
  "byte_field n = fld n (\<lambda>v. ret (ucast v))"

section \<open>Game builds\<close>

type_synonym game_build = u32

definition is_winter_update_25 :: "game_build \<Rightarrow> bool" where "is_winter_update_25 b \<longleftrightarrow> 3717 \<le> b"
definition is_2060 :: "game_build \<Rightarrow> bool" where "is_2060 b \<longleftrightarrow> 2060 \<le> b"
definition is_2189 :: "game_build \<Rightarrow> bool" where "is_2189 b \<longleftrightarrow> 2189 \<le> b"
definition is_2372 :: "game_build \<Rightarrow> bool" where "is_2372 b \<longleftrightarrow> 2372 \<le> b"
definition is_2545 :: "game_build \<Rightarrow> bool" where "is_2545 b \<longleftrightarrow> 2545 \<le> b"
definition is_2699 :: "game_build \<Rightarrow> bool" where "is_2699 b \<longleftrightarrow> 2699 \<le> b"
definition is_3258 :: "game_build \<Rightarrow> bool" where "is_3258 b \<longleftrightarrow> 3258 \<le> b"
definition is_3407 :: "game_build \<Rightarrow> bool" where "is_3407 b \<longleftrightarrow> 3407 \<le> b"
definition default_build :: game_build where "default_build = 3258"

section \<open>Decoded state\<close>

record ped_movement =
  is_stealthy :: bool
  is_strafing :: bool
  is_ragdolling :: bool

record ped_tasks =
  script_command :: u32
  script_task_stage :: u32
  task_types :: "u16 list"

definition NO_SCRIPT_TASK :: u32 where "NO_SCRIPT_TASK = 0x811E343C"
definition IDLE_TASK_TYPE :: u16 where "IDLE_TASK_TYPE = 530"

definition ped_tasks_default :: ped_tasks where
  "ped_tasks_default = \<lparr>script_command = NO_SCRIPT_TASK, script_task_stage = 3,
     task_types = replicate 8 IDLE_TASK_TYPE\<rparr>"

record vehicle_game_state =
  radio_station :: u8
  engine_on :: bool
  engine_starting :: bool
  handbrake :: bool
  default_headlights :: bool
  headlights_colour :: u8
  siren_on :: bool
  lock_status :: u8
  doors_open :: u8
  door_positions :: "u8 list"
  is_stationary :: bool
  lights_on :: bool
  highbeams_on :: bool
  light_state :: u8
  has_been_owned_by_player :: bool
  has_lock :: bool
  locked_players :: u32

record vehicle_health =
  engine_health :: u32
  petrol_tank_health :: u32
  vh_health :: u32
  body_health :: u32
  tyres_fine :: bool
  tyre_status :: "u8 list"
  total_repairs :: u8

definition vehicle_health_default :: vehicle_health where
  "vehicle_health_default = \<lparr>engine_health = 1000, petrol_tank_health = 1000, vh_health = 1000,
     body_health = 1000, tyres_fine = True, tyre_status = replicate 16 0, total_repairs = 0\<rparr>"

record vehicle_appearance =
  primary_colour :: u8
  secondary_colour :: u8
  pearl_colour :: u8
  wheel_colour :: u8
  interior_colour :: u8
  dashboard_colour :: u8
  is_primary_colour_rgb :: bool
  primary_rgb :: "u8 list"
  is_secondary_colour_rgb :: bool
  secondary_rgb :: "u8 list"
  dirt_level :: u8
  extras :: u16
  livery_index :: u16
  roof_livery_index :: u16
  kit_index :: u8
  wheel_choice :: u8
  wheel_type :: u8
  window_tint_index :: u8
  tyre_smoke_colour :: "u8 list"
  plate :: "u8 list"
  number_plate_text_index :: u32
  horn_type_hash :: u32
  has_neon_lights :: bool
  neon_colour :: "u8 list"
  neon_sides :: "bool list"

record vehicle_damage =
  damaged_by_bullets :: bool
  any_window_broken :: bool
  windows_broken :: "bool list"

record ped_game_state =
  cur_weapon :: u32
  cur_vehicle :: u32
  cur_vehicle_seat :: u32
  is_handcuffed :: bool
  is_flashlight_on :: bool
  action_mode_enabled :: bool
  stealth_mode_enabled :: bool
  arrest_state :: u8
  death_state :: u8

type_synonym vec3 = "fl \<times> fl \<times> fl"

record sync_node_data =
  sector :: "(u32 \<times> u32 \<times> u32) option"
  sector_position :: "vec3 option"
  velocity :: "vec3 option"
  health :: "fl option"
  max_health :: "fl option"
  armour :: "fl option"
  model :: "u32 option"
  vehicle_seat :: "(u16 \<times> u8) option"
  heading :: "fl option"
  sd_vehicle_game_state :: "vehicle_game_state option"
  sd_vehicle_health :: "vehicle_health option"
  sd_vehicle_appearance :: "vehicle_appearance option"
  sd_vehicle_damage :: "vehicle_damage option"
  sd_ped_game_state :: "ped_game_state option"
  source_of_damage :: "u16 option"
  cause_of_death :: "u32 option"
  desired_heading :: "fl option"
  sd_ped_movement :: "ped_movement option"
  relationship_group :: "u32 option"
  sd_ped_tasks :: "ped_tasks option"
  population_type :: "u8 option"
  is_visible :: "bool option"
  script_hash :: "u32 option"
  attached_to :: "u16 option"

definition sync_node_default :: sync_node_data where
  "sync_node_default = \<lparr>sector = None, sector_position = None, velocity = None, health = None,
     max_health = None, armour = None, model = None, vehicle_seat = None, heading = None,
     sd_vehicle_game_state = None, sd_vehicle_health = None, sd_vehicle_appearance = None,
     sd_vehicle_damage = None, sd_ped_game_state = None, source_of_damage = None,
     cause_of_death = None, desired_heading = None, sd_ped_movement = None,
     relationship_group = None, sd_ped_tasks = None, population_type = None, is_visible = None,
     script_hash = None, attached_to = None\<rparr>"

section \<open>Positions and angles\<close>

definition SECTOR_SIZE_XY :: fl where "SECTOR_SIZE_XY = fl_of_int F32 54"
definition SECTOR_SIZE_Z :: fl where "SECTOR_SIZE_Z = fl_of_int F32 69"
definition SECTOR_ORIGIN_XY :: fl where "SECTOR_ORIGIN_XY = fl_of_int F32 512"
definition SECTOR_ORIGIN_Z :: fl where "SECTOR_ORIGIN_Z = fl_of_int F32 1700"
definition DEFAULT_SECTOR :: "u32 \<times> u32 \<times> u32" where "DEFAULT_SECTOR = (512, 512, 0)"

definition world_position :: "u32 \<times> u32 \<times> u32 \<Rightarrow> vec3 \<Rightarrow> vec3" where
  "world_position sec pos = (case (sec, pos) of ((sx, sy, sz), (px, py, pz)) \<Rightarrow>
     (fl_add F32 (fl_mul F32 (fl_sub F32 (fl_of_int F32 (sint sx)) SECTOR_ORIGIN_XY) SECTOR_SIZE_XY) px,
      fl_add F32 (fl_mul F32 (fl_sub F32 (fl_of_int F32 (sint sy)) SECTOR_ORIGIN_XY) SECTOR_SIZE_XY) py,
      fl_sub F32 (fl_add F32 (fl_mul F32 (fl_of_int F32 (sint sz)) SECTOR_SIZE_Z) pz) SECTOR_ORIGIN_Z))"

definition read_quaternion_heading :: "libm \<Rightarrow> fl reader" where
  "read_quaternion_heading lm =
     fld 2 (\<lambda>largest. fld QUAT_BITS (\<lambda>a. fld QUAT_BITS (\<lambda>b. fld QUAT_BITS (\<lambda>c.
     ret (to_heading_degrees lm (quat_decompress
       \<lparr>cq_largest = largest, cq_a = a, cq_b = b, cq_c = c\<rparr> QUAT_BITS))))))"

definition normalise_degrees :: "fl \<Rightarrow> fl" where
  "normalise_degrees degrees = fl_rem_euclid F32 degrees (fl_of_int F32 360)"

definition read_sector_offset :: "nat \<Rightarrow> vec3 reader" where
  "read_sector_offset bits =
     try_read (read_float bits SECTOR_SIZE_XY) (\<lambda>x.
     try_read (read_float bits SECTOR_SIZE_XY) (\<lambda>y.
     try_read (read_float bits SECTOR_SIZE_Z) (\<lambda>z. ret (x, y, z))))"

section \<open>Peds\<close>

text \<open>\<open>decode_ped_health\<close> writes the health fields before the tail is read and the damage source
  before the cause, so a truncated node keeps what it carried.\<close>

definition ped_health_tail :: "game_build \<Rightarrow> sync_node_data \<Rightarrow> mbuf \<Rightarrow> sync_node_data \<times> mbuf" where
  "ped_health_tail build out b =
     (case (if is_2060 build
            then flag (\<lambda>has_first. flag (\<lambda>has_second.
                 try_read (opt_read has_second (skip_field 13)) (\<lambda>_.
                 opt_read (\<not> has_first) (skip_field 13))))
            else ret ()) b of
        (None, b1) \<Rightarrow> (out, b1)
      | (Some _, b1) \<Rightarrow>
         (case flag (\<lambda>damaged. if damaged then fld 13 (\<lambda>v. ret (ucast v)) else ret 0) b1 of
            (None, b2) \<Rightarrow> (out, b2)
          | (Some src, b2) \<Rightarrow>
             (let out1 = out\<lparr>source_of_damage := Some src\<rparr>
              in case read_bits_single 32 b2 of
                   (None, b3) \<Rightarrow> (out1, b3)
                 | (Some cause, b3) \<Rightarrow> (out1\<lparr>cause_of_death := Some cause\<rparr>, b3))))"

definition decode_ped_health :: "game_build \<Rightarrow> sync_node_data \<Rightarrow> mbuf \<Rightarrow> sync_node_data \<times> mbuf" where
  "decode_ped_health build out =
     (let health_bits = (if is_winter_update_25 build then 14 else 13);
          as_f32 = map_option (\<lambda>v. fl_of_int F32 (uint v)) in
      then_read read_bit (\<lambda>is_fine.
      then_read read_bit (\<lambda>max_health_changed.
      then_read (if max_health_changed \<noteq> 0 then read_bits_single health_bits else Pair None) (\<lambda>mx.
      then_read (if is_fine \<noteq> 0 then Pair mx
                 else then_read (read_bits_single health_bits) (\<lambda>value.
                      then_read read_bit (\<lambda>_. then_read read_bit (\<lambda>_. Pair value)))) (\<lambda>hp.
      then_read read_bit (\<lambda>no_armour.
      then_read (if no_armour \<noteq> 0 then Pair (Some 0) else read_bits_single 13) (\<lambda>arm.
      ped_health_tail build
        (out\<lparr>health := as_f32 hp, max_health := as_f32 mx, armour := as_f32 arm\<rparr>))))))))"

definition decode_ped_movement :: "ped_movement reader" where
  "decode_ped_movement =
     fld 32 (\<lambda>_. flag (\<lambda>default_mode.
     if default_mode then ret \<lparr>is_stealthy = False, is_strafing = False, is_ragdolling = False\<rparr>
     else fld 3 (\<lambda>_. fld 5 (\<lambda>_. fld 32 (\<lambda>_. skip_bit (
          flag (\<lambda>st. flag (\<lambda>sf. flag (\<lambda>rd.
          ret \<lparr>is_stealthy = st, is_strafing = sf, is_ragdolling = rd\<rparr>)))))))))"

definition decode_ped_tasks :: "game_build \<Rightarrow> ped_tasks reader" where
  "decode_ped_tasks build =
     (let idle = (if is_2060 build then IDLE_TASK_TYPE + 1 else IDLE_TASK_TYPE) in
      flag (\<lambda>has_script.
      try_read (if has_script then fld 32 (\<lambda>c. fld 3 (\<lambda>st. ret (c, st))) else ret (NO_SCRIPT_TASK, 3)) (\<lambda>(cmd, stage).
      fld 8 (\<lambda>occupied.
      try_read (map_read (\<lambda>slot.
          if occupied AND push_bit slot 1 = 0 then ret idle
          else fld 10 (\<lambda>task. skip_bit (fld 3 (\<lambda>_. fld 3 (\<lambda>_. fld 5 (\<lambda>_. ret (ucast task)))))))
        [0..<8]) (\<lambda>tasks.
      ret \<lparr>script_command = cmd, script_task_stage = stage, task_types = tasks\<rparr>)))))"

definition decode_ped_game_state :: "game_build \<Rightarrow> ped_game_state reader" where
  "decode_ped_game_state build =
     try_read (skip_bits 6) (\<lambda>_.
     try_read (opt_read (is_2060 build)
       (try_read (skip_bits 2) (\<lambda>_.
        try_read (opt_read (is_2189 build) (skip_bits 1)) (\<lambda>_.
        try_read (opt_read (is_2372 build) (skip_bits 1)) (\<lambda>_.
        opt_read (is_3407 build) (skip_bits 2)))))) (\<lambda>_.
     try_read (byte_field 1) (\<lambda>arrest.
     try_read (byte_field 2) (\<lambda>death.
     flag (\<lambda>armed.
     try_read (if armed
               then fld 32 (\<lambda>w. try_read (opt_read (is_3258 build) (skip_field 3)) (\<lambda>_. ret w))
               else ret 0) (\<lambda>weapon.
     try_read (opt_read (is_2060 build) (skip_bits 1)) (\<lambda>_.
     try_read (skip_bits 5) (\<lambda>_.
     flag (\<lambda>tinted.
     try_read (opt_read tinted (skip_field 5)) (\<lambda>_.
     fld 4 (\<lambda>weapon_components.
     try_read (rep_read (unat weapon_components)
       (try_read (skip_field 32) (\<lambda>_.
        if is_2372 build then flag (\<lambda>tint. opt_read tint (skip_field 5)) else ret ()))) (\<lambda>_.
     fld 2 (\<lambda>gadgets.
     try_read (rep_read (unat gadgets) (skip_field 32)) (\<lambda>_.
     flag (\<lambda>has_vehicle.
     try_read (if has_vehicle
               then fld 13 (\<lambda>vehicle. flag (\<lambda>seated.
                    if seated then fld 5 (\<lambda>seat. ret (vehicle, seat)) else ret (- 1, - 1)))
               else ret (- 1, - 1)) (\<lambda>(veh, seat).
     flag (\<lambda>extra.
     try_read (opt_read extra (skip_bits 1)) (\<lambda>_.
     flag (\<lambda>custody.
     try_read (if custody
               then fld 13 (\<lambda>_. flag (\<lambda>cuffed. try_read (skip_bits 4) (\<lambda>_. ret cuffed)))
               else ret False) (\<lambda>cuffed.
     flag (\<lambda>flashlight. flag (\<lambda>action. flag (\<lambda>stealth.
     ret \<lparr>cur_weapon = weapon, cur_vehicle = veh, cur_vehicle_seat = seat, is_handcuffed = cuffed,
          is_flashlight_on = flashlight, action_mode_enabled = action, stealth_mode_enabled = stealth,
          arrest_state = arrest, death_state = death\<rparr>)))))))))))))))))))))))"

section \<open>Vehicles\<close>

text \<open>The lock block: status, two masks, the open doors with a 4-bit opening each, and seven
  optional 5-bit slots.\<close>

definition vgs_locks :: "(u8 \<times> u8 \<times> u8 list) reader" where
  "vgs_locks =
     try_read (byte_field 5) (\<lambda>lock. fld 7 (\<lambda>_. fld 7 (\<lambda>_.
     try_read (byte_field 7) (\<lambda>doors.
     try_read (map_read (\<lambda>door. if doors AND push_bit door 1 \<noteq> 0 then byte_field 4 else ret 0) [0..<7]) (\<lambda>positions.
     fld 8 (\<lambda>extra_mask.
     try_read (map_read (\<lambda>slot. opt_read (extra_mask AND push_bit slot 1 \<noteq> 0) (skip_field 5)) [0..<7]) (\<lambda>_.
     ret (lock, doors, positions))))))))"

text \<open>The detailed state: default headlights, headlight colour, siren, lock status, doors, door
  positions and the stationary flag.\<close>

definition vgs_detail :: "game_build \<Rightarrow> (bool \<times> u8 \<times> bool \<times> (u8 \<times> u8 \<times> u8 list) \<times> bool) reader" where
  "vgs_detail build =
     flag (\<lambda>default_lights.
     try_read (if default_lights then ret 0 else byte_field 8) (\<lambda>colour.
     flag (\<lambda>siren.
     try_read (opt_read (is_3407 build) (skip_bits 1)) (\<lambda>_.
     flag (\<lambda>c1. try_read (opt_read c1 (skip_bits 1)) (\<lambda>_.
     skip_bit (
     flag (\<lambda>has_locks.
     try_read (if has_locks then vgs_locks else ret (0, 0, replicate 7 0)) (\<lambda>locks.
     flag (\<lambda>windows. try_read (opt_read windows (skip_field 6)) (\<lambda>_.
     skip_bit (skip_bit (
     flag (\<lambda>stationary.
     skip_bit (skip_bit (skip_bit (
     flag (\<lambda>timed.
     try_read (if timed then try_read (read_float 10 (fl_of_int F32 3000)) (\<lambda>_. ret ()) else ret ()) (\<lambda>_.
     ret (default_lights, colour, siren, locks, stationary))))))))))))))))))))"

definition decode_vehicle_game_state :: "game_build \<Rightarrow> vehicle_game_state reader" where
  "decode_vehicle_game_state build =
     try_read (byte_field (if is_2545 build then 7 else 6)) (\<lambda>radio.
     skip_bit (
     flag (\<lambda>on. flag (\<lambda>starting.
     skip_bit (
     flag (\<lambda>brake.
     skip_bit (skip_bit (
     flag (\<lambda>state_absent.
     try_read (if state_absent then ret (True, 0, False, (0, 0, replicate 7 0), False) else vgs_detail build)
       (\<lambda>(default_lights, colour, siren, (lock, doors, positions), stationary).
     flag (\<lambda>c2. try_read (opt_read c2 (fld 32 (\<lambda>_. skip_field 13))) (\<lambda>_.
     flag (\<lambda>c3. try_read (opt_read c3 (fld 13 (\<lambda>_. skip_field 13))) (\<lambda>_.
     flag (\<lambda>c4. try_read (opt_read c4 (skip_field 13)) (\<lambda>_.
     flag (\<lambda>lights. flag (\<lambda>high.
     try_read (byte_field 3) (\<lambda>lstate.
     try_read (skip_bits 6) (\<lambda>_.
     fld 32 (\<lambda>_. fld 3 (\<lambda>_.
     skip_bit (
     flag (\<lambda>owned.
     try_read (skip_bits 6) (\<lambda>_.
     try_read (opt_read (is_2699 build) (skip_bits 2)) (\<lambda>_.
     flag (\<lambda>locked.
     try_read (if locked then read_bits_single 32 else ret 0) (\<lambda>players.
     ret \<lparr>radio_station = radio, engine_on = on, engine_starting = starting, handbrake = brake,
          default_headlights = default_lights, headlights_colour = colour, siren_on = siren,
          lock_status = lock, doors_open = doors, door_positions = positions,
          is_stationary = stationary, lights_on = lights, highbeams_on = high, light_state = lstate,
          has_been_owned_by_player = owned, has_lock = locked, locked_players = players\<rparr>))))))))))))))))))))))))))))"

definition vh_wheel :: "game_build \<Rightarrow> u8 reader" where
  "vh_wheel build =
     try_read (if is_2060 build then flag (\<lambda>c. opt_read c (skip_field 8)) else ret ()) (\<lambda>_.
     flag (\<lambda>burst. flag (\<lambda>on_rim. skip_bit (skip_bit (
     ret (if on_rim then 2 else if burst then 1 else 0))))))"

definition vh_wheels :: "game_build \<Rightarrow> bool \<Rightarrow> bool \<Rightarrow> u8 list reader" where
  "vh_wheels build fine extra_fine =
     (if \<not> fine \<or> \<not> extra_fine
      then fld 4 (\<lambda>total_wheels.
           try_read (if \<not> fine then map_read (\<lambda>_. vh_wheel build) [0..<unat total_wheels] else ret []) (\<lambda>wheels.
           try_read (if \<not> extra_fine
                     then rep_read (unat total_wheels) (flag (\<lambda>c. opt_read c (skip_field 10)))
                     else ret ()) (\<lambda>_.
           ret (take 16 (wheels @ replicate (16 - length wheels) 0)))))
      else ret (replicate 16 0))"

definition decode_vehicle_health :: "game_build \<Rightarrow> vehicle_health reader" where
  "decode_vehicle_health build =
     skip_bit (skip_bit (
     flag (\<lambda>engine_damaged. flag (\<lambda>petrol_tank_damaged.
     try_read (if engine_damaged then read_signed 19 else ret 1000) (\<lambda>engine.
     try_read (if petrol_tank_damaged then read_signed 19 else ret 1000) (\<lambda>tank.
     flag (\<lambda>fine. flag (\<lambda>extra_fine.
     try_read (vh_wheels build fine extra_fine) (\<lambda>tyres.
     flag (\<lambda>full. try_read (if full then ret 1000 else read_signed 19) (\<lambda>hp.
     flag (\<lambda>body_full. try_read (if body_full then ret 1000 else read_signed 19) (\<lambda>body.
     flag (\<lambda>damaged. try_read (opt_read damaged (fld 13 (\<lambda>_. skip_field 32))) (\<lambda>_.
     fld 4 (\<lambda>_.
     try_read (byte_field 4) (\<lambda>repairs.
     ret \<lparr>engine_health = engine, petrol_tank_health = tank, vh_health = hp, body_health = body,
          tyres_fine = fine, tyre_status = tyres, total_repairs = repairs\<rparr>)))))))))))))))))"

definition va_rgb :: "bool \<Rightarrow> u8 list \<Rightarrow> u8 list reader" where
  "va_rgb c absent = (if c then map_read (\<lambda>_. byte_field 8) [0..<3] else ret absent)"

definition va_mods :: "u8 \<Rightarrow> (u8 \<times> u8) reader" where
  "va_mods kit =
     (if kit \<noteq> 0
      then try_read (rep_read 13 (flag (\<lambda>c. opt_read c (skip_field 32)))) (\<lambda>_.
           flag (\<lambda>toggles. try_read (opt_read toggles (skip_field 6)) (\<lambda>_.
           try_read (byte_field 8) (\<lambda>choice. try_read (byte_field 4) (\<lambda>ty.
           flag (\<lambda>rear. try_read (opt_read rear (skip_field 8)) (\<lambda>_.
           skip_bit (skip_bit (ret (choice, ty))))))))))
      else ret (0, 255))"

definition va_emblems :: "unit reader" where
  "va_emblems =
     flag (\<lambda>textures.
     try_read (if textures then fld 32 (\<lambda>_. skip_field 32)
               else fld 1 (\<lambda>_. fld 32 (\<lambda>_. skip_bit (skip_field 3)))) (\<lambda>_.
     rep_read 4 (flag (\<lambda>badge. opt_read badge
       (fld 10 (\<lambda>_. fld 8 (\<lambda>_.
        try_read (rep_read 3 (fld 14 (\<lambda>_. fld 14 (\<lambda>_. skip_field 10)))) (\<lambda>_.
        skip_field 16))))))))"

definition va_livery :: "u16 reader" where
  "va_livery = flag (\<lambda>c. if c then fld 5 (\<lambda>v. ret (ucast v)) else ret 0)"

text \<open>Dirt level, extras, livery and roof livery.\<close>

definition va_body :: "(u8 \<times> u16 \<times> u16 \<times> u16) reader" where
  "va_body = flag (\<lambda>c. if c
     then try_read (byte_field 5) (\<lambda>dirt. fld 16 (\<lambda>ex.
          try_read va_livery (\<lambda>livery. try_read va_livery (\<lambda>roof.
          ret (dirt, ucast ex, livery, roof)))))
     else ret (1, 0, - 1, - 1))"

definition decode_vehicle_appearance :: "game_build \<Rightarrow> vehicle_appearance reader" where
  "decode_vehicle_appearance build =
     try_read (byte_field 8) (\<lambda>primary. try_read (byte_field 8) (\<lambda>secondary.
     try_read (byte_field 8) (\<lambda>pearl. try_read (byte_field 8) (\<lambda>wheel.
     try_read (byte_field 8) (\<lambda>interior. try_read (byte_field 8) (\<lambda>dashboard.
     flag (\<lambda>p_rgb. try_read (va_rgb p_rgb [0, 0, 0]) (\<lambda>prgb.
     flag (\<lambda>s_rgb. try_read (va_rgb s_rgb [0, 0, 0]) (\<lambda>srgb.
     fld 8 (\<lambda>_.
     try_read va_body (\<lambda>(dirt, ex, livery, roof).
     try_read (byte_field 2) (\<lambda>kit.
     try_read (va_mods kit) (\<lambda>(choice, wtype).
     flag (\<lambda>tinted. try_read (if tinted then byte_field 8 else ret 0) (\<lambda>tint.
     flag (\<lambda>smoke. try_read (va_rgb smoke [255, 255, 255]) (\<lambda>smoke_rgb.
     flag (\<lambda>has_plate.
     try_read (map_read (\<lambda>_. if has_plate then byte_field 7 else ret 32) [0..<8]) (\<lambda>plate_text.
     fld 32 (\<lambda>plate_index. fld 32 (\<lambda>horn.
     flag (\<lambda>emblems. try_read (opt_read emblems va_emblems) (\<lambda>_.
     flag (\<lambda>neon. try_read (va_rgb neon [0, 0, 0]) (\<lambda>neon_rgb.
     try_read (map_read (\<lambda>_. if neon then flag ret else ret False) [0..<4]) (\<lambda>sides.
     try_read (opt_read (neon \<and> is_2372 build) (skip_bits 1)) (\<lambda>_.
     ret \<lparr>primary_colour = primary, secondary_colour = secondary, pearl_colour = pearl,
          wheel_colour = wheel, interior_colour = interior, dashboard_colour = dashboard,
          is_primary_colour_rgb = p_rgb, primary_rgb = prgb, is_secondary_colour_rgb = s_rgb,
          secondary_rgb = srgb, dirt_level = dirt, extras = ex, livery_index = livery,
          roof_livery_index = roof, kit_index = kit, wheel_choice = choice, wheel_type = wtype,
          window_tint_index = tint, tyre_smoke_colour = smoke_rgb, plate = plate_text,
          number_plate_text_index = plate_index, horn_type_hash = horn, has_neon_lights = neon,
          neon_colour = neon_rgb, neon_sides = sides\<rparr>))))))))))))))))))))))))))))"

definition decode_vehicle_damage :: "vehicle_damage reader" where
  "decode_vehicle_damage =
     flag (\<lambda>panels. try_read (opt_read panels (rep_read 6 (skip_field 2))) (\<lambda>_.
     flag (\<lambda>bullets. try_read (opt_read bullets (rep_read 6 (skip_field 8))) (\<lambda>_.
     flag (\<lambda>bumpers. try_read (opt_read bumpers (fld 2 (\<lambda>_. skip_field 2))) (\<lambda>_.
     flag (\<lambda>lights. try_read (opt_read lights (skip_bits 22)) (\<lambda>_.
     flag (\<lambda>broken.
     try_read (map_read (\<lambda>_. if broken then flag ret else ret False) [0..<8]) (\<lambda>windows.
     ret \<lparr>damaged_by_bullets = bullets, any_window_broken = broken, windows_broken = windows\<rparr>))))))))))"

section \<open>Dispatch\<close>

definition decodes :: "string \<Rightarrow> bool" where
  "decodes name \<longleftrightarrow> name \<in> set [
     ''CSectorDataNode'', ''CSectorPositionDataNode'', ''CPlayerSectorPosNode'',
     ''CObjectSectorPosNode'', ''CPedSectorPosMapNode'', ''CPedHealthDataNode'',
     ''CVehicleCreationDataNode'', ''CPedCreationDataNode'', ''CEntityOrientationDataNode'',
     ''CObjectOrientationDataNode'', ''CPedOrientationDataNode'', ''CPhysicalVelocityDataNode'',
     ''CVehicleGameStateDataNode'', ''CVehicleHealthDataNode'', ''CVehicleAppearanceDataNode'',
     ''CVehicleDamageStatusDataNode'', ''CPedGameStateDataNode'', ''CPedMovementGroupDataNode'',
     ''CPedAIDataNode'', ''CPedTaskTreeDataNode'', ''CPedScriptGameStateDataNode'',
     ''CPhysicalGameStateDataNode'', ''CEntityScriptInfoDataNode'', ''CPhysicalAttachDataNode'',
     ''CPedAttachDataNode'']"

text \<open>A leaf decoder as a state change of the decoded record; the bounded view it reads is local
  to the node and dropped afterwards.\<close>

type_synonym leaf_decoder = "mbuf \<Rightarrow> sync_node_data \<Rightarrow> sync_node_data"

definition read3 :: "(mbuf \<Rightarrow> 'a option \<times> mbuf) \<Rightarrow> (mbuf \<Rightarrow> 'a option \<times> mbuf) \<Rightarrow>
    (mbuf \<Rightarrow> 'a option \<times> mbuf) \<Rightarrow> mbuf \<Rightarrow> ('a \<times> 'a \<times> 'a) option \<times> mbuf" where
  "read3 r1 r2 r3 = then_read r1 (\<lambda>x. then_read r2 (\<lambda>y. then_read r3 (\<lambda>z. Pair
     (case (x, y, z) of (Some a, Some b, Some c) \<Rightarrow> Some (a, b, c) | _ \<Rightarrow> None))))"

definition decode_sector :: leaf_decoder where
  "decode_sector b out =
     (case fst (read3 (read_bits_single 10) (read_bits_single 10) (read_bits_single 6) b) of
        Some v \<Rightarrow> out\<lparr>sector := Some v\<rparr> | None \<Rightarrow> out)"

definition decode_player_sector_pos :: leaf_decoder where
  "decode_player_sector_pos b out =
     out\<lparr>sector_position := fst (
       then_read read_bit (\<lambda>extra.
       then_read (if extra \<noteq> 0
                  then then_read read_bit (\<lambda>_. then_read read_bit (\<lambda>_. then_read read_bit (\<lambda>standing.
                       if standing \<noteq> 0
                       then then_read (read_bits_single 13) (\<lambda>_.
                            then_read (read_signed_float 14 (fl_of_int F32 40)) (\<lambda>_.
                            then_read (read_signed_float 14 (fl_of_int F32 40)) (\<lambda>_.
                            then_read (read_signed_float 10 (fl_of_int F32 20)) (\<lambda>_. Pair ()))))
                       else Pair ())))
                  else Pair ()) (\<lambda>_.
       read_sector_offset 12)) b)\<rparr>"

definition decode_object_sector_pos :: leaf_decoder where
  "decode_object_sector_pos b out =
     out\<lparr>sector_position := fst (then_read read_bit (\<lambda>hi. read_sector_offset (if hi \<noteq> 0 then 20 else 12)) b)\<rparr>"

definition decode_vehicle_creation :: leaf_decoder where
  "decode_vehicle_creation b out =
     fst (then_read (read_bits_single 32) (\<lambda>m. then_read (read_bits_single 4) (\<lambda>p.
       Pair (out\<lparr>model := m, population_type := map_option ucast p\<rparr>))) b)"

definition decode_ped_creation :: leaf_decoder where
  "decode_ped_creation b out =
     fst (then_read read_bit (\<lambda>_. then_read read_bit (\<lambda>_.
       then_read (read_bits_single 4) (\<lambda>p. then_read (read_bits_single 32) (\<lambda>m.
       then_read (read_bits_single 16) (\<lambda>_. then_read read_bit (\<lambda>in_vehicle.
       then_read (read_bits_single 32) (\<lambda>_.
       (let out1 = out\<lparr>population_type := map_option ucast p, model := m\<rparr> in
        if in_vehicle \<noteq> 0
        then then_read (read_bits_single 13) (\<lambda>veh. then_read (read_bits_single 5) (\<lambda>seat.
             Pair (case (veh, seat) of
                     (Some v, Some st) \<Rightarrow> out1\<lparr>vehicle_seat := Some (ucast v, ucast st)\<rparr>
                   | _ \<Rightarrow> out1)))
        else Pair out1)))))))) b)"

definition decode_object_orientation :: "libm \<Rightarrow> leaf_decoder" where
  "decode_object_orientation lm b out =
     fst (then_read read_bit (\<lambda>hi.
       if hi \<noteq> 0
       then (let divisor = fl_mul F32 PI32 (fl_of_int F32 4) in
             then_read (read_signed_float 20 divisor) (\<lambda>_. then_read (read_signed_float 20 divisor) (\<lambda>_.
             then_read (read_signed_float 20 divisor) (\<lambda>z.
             Pair (out\<lparr>heading := map_option (\<lambda>a. normalise_degrees (to_degrees a)) z\<rparr>)))))
       else then_read (read_quaternion_heading lm) (\<lambda>q. Pair (out\<lparr>heading := q\<rparr>))) b)"

definition decode_ped_orientation :: leaf_decoder where
  "decode_ped_orientation b out =
     fst (then_read (read_signed_float 8 TAU_RADIANS) (\<lambda>h. then_read (read_signed_float 8 TAU_RADIANS) (\<lambda>d.
       Pair (out\<lparr>heading := map_option (\<lambda>r. normalise_degrees (to_degrees r)) h,
                  desired_heading := map_option (\<lambda>r. normalise_degrees (to_degrees r)) d\<rparr>))) b)"

definition decode_velocity :: leaf_decoder where
  "decode_velocity b out =
     (let q = fl_lit F32 625 10000; f = (\<lambda>v. fl_mul F32 (fl_of_int F32 (sint v)) q) in
      case fst (read3 (read_signed 12) (read_signed 12) (read_signed 12) b) of
        Some (x, y, z) \<Rightarrow> out\<lparr>velocity := Some (f x, f y, f z)\<rparr> | None \<Rightarrow> out)"

definition decode_script_info :: leaf_decoder where
  "decode_script_info b out =
     fst (then_read read_bit (\<lambda>has. if has \<noteq> 0
       then then_read (read_bits_single 32) (\<lambda>h. Pair (out\<lparr>script_hash := h\<rparr>)) else Pair out) b)"

definition decode_attach :: leaf_decoder where
  "decode_attach b out =
     fst (then_read read_bit (\<lambda>has. if has \<noteq> 0
       then then_read (read_bits_single 13) (\<lambda>v. Pair (out\<lparr>attached_to := map_option ucast v\<rparr>))
       else Pair (out\<lparr>attached_to := Some 0\<rparr>)) b)"

definition decode_leaf :: "libm \<Rightarrow> string \<Rightarrow> game_build \<Rightarrow> leaf_decoder" where
  "decode_leaf lm name build b out =
     (if name = ''CSectorDataNode'' then decode_sector b out
      else if name = ''CSectorPositionDataNode'' then out\<lparr>sector_position := fst (read_sector_offset 12 b)\<rparr>
      else if name = ''CPlayerSectorPosNode'' then decode_player_sector_pos b out
      else if name = ''CObjectSectorPosNode'' then decode_object_sector_pos b out
      else if name = ''CPedSectorPosMapNode'' then out\<lparr>sector_position := fst (read_sector_offset 12 b)\<rparr>
      else if name = ''CPedHealthDataNode'' then fst (decode_ped_health build out b)
      else if name = ''CVehicleCreationDataNode'' then decode_vehicle_creation b out
      else if name = ''CPedCreationDataNode'' then decode_ped_creation b out
      else if name = ''CEntityOrientationDataNode'' then out\<lparr>heading := fst (read_quaternion_heading lm b)\<rparr>
      else if name = ''CObjectOrientationDataNode'' then decode_object_orientation lm b out
      else if name = ''CPedOrientationDataNode'' then decode_ped_orientation b out
      else if name = ''CPhysicalVelocityDataNode'' then decode_velocity b out
      else if name = ''CVehicleGameStateDataNode'' then out\<lparr>sd_vehicle_game_state := fst (decode_vehicle_game_state build b)\<rparr>
      else if name = ''CVehicleHealthDataNode'' then out\<lparr>sd_vehicle_health := fst (decode_vehicle_health build b)\<rparr>
      else if name = ''CVehicleAppearanceDataNode'' then out\<lparr>sd_vehicle_appearance := fst (decode_vehicle_appearance build b)\<rparr>
      else if name = ''CVehicleDamageStatusDataNode'' then out\<lparr>sd_vehicle_damage := fst (decode_vehicle_damage b)\<rparr>
      else if name = ''CPedGameStateDataNode'' then out\<lparr>sd_ped_game_state := fst (decode_ped_game_state build b)\<rparr>
      else if name = ''CPedMovementGroupDataNode'' then out\<lparr>sd_ped_movement := fst (decode_ped_movement b)\<rparr>
      else if name = ''CPedAIDataNode'' then out\<lparr>relationship_group := fst (read_bits_single 32 b)\<rparr>
      else if name = ''CPedTaskTreeDataNode'' then out\<lparr>sd_ped_tasks := fst (decode_ped_tasks build b)\<rparr>
      else if name = ''CPedScriptGameStateDataNode'' then out\<lparr>population_type := map_option ucast (fst (read_bits_single 4 b))\<rparr>
      else if name = ''CPhysicalGameStateDataNode'' then out\<lparr>is_visible := Some (fst (read_bit b) \<noteq> 0)\<rparr>
      else if name = ''CEntityScriptInfoDataNode'' then decode_script_info b out
      else if name = ''CPhysicalAttachDataNode'' \<or> name = ''CPedAttachDataNode'' then decode_attach b out
      else out)"

lemma decode_leaf_unknown: "\<not> decodes name \<Longrightarrow> decode_leaf lm name build b out = out"
  by (simp add: decodes_def decode_leaf_def)

end
