(* ===== verification/Sync_Write.thy ===== *)
theory Sync_Write
  imports Quaternion Sync_Trees
begin

text \<open>
  Authoring sync trees, \<open>crates/baston-protocol/src/rage/sync_write.rs\<close>: the authored node list,
  the recursive writer over the flat tables and the entity factories. The cursor into the table
  is the list of the entries that are left; the mutual recursion of \<open>write_node\<close> and its child
  loop runs on fuel, twice the number of entries, which the refinement in
  \<open>Sync_Roundtrip\<close> shows to be enough for every table.
\<close>

section \<open>Authored nodes\<close>

definition NODE_LENGTH_BITS :: nat where "NODE_LENGTH_BITS = 13"
definition NODE_SCRATCH_BYTES :: nat where "NODE_SCRATCH_BYTES = 1024"
definition TREE_SCRATCH_BYTES :: nat where "TREE_SCRATCH_BYTES = 4096"
definition POPTYPE_MISSION :: u32 where "POPTYPE_MISSION = 7"
definition ENTITY_OWNEDBY_SCRIPT :: u32 where "ENTITY_OWNEDBY_SCRIPT = 4"
definition NO_VOICE :: u32 where "NO_VOICE = 0x87BFF09A"

text \<open>Name, payload bytes, payload bit length.\<close>

type_synonym authored_nodes = "(string \<times> u8 list \<times> nat) list"

text \<open>Statements \<open>b.write_..(..);\<close> whose results are ignored.\<close>

definition run_writes :: "writer list \<Rightarrow> mbuf \<Rightarrow> mbuf" where
  "run_writes ws b = fold (\<lambda>w b. snd (w b)) ws b"

definition an_set :: "string \<Rightarrow> writer list \<Rightarrow> authored_nodes \<Rightarrow> authored_nodes" where
  "an_set name ws nodes =
     (let scratch = run_writes ws (mb_new NODE_SCRATCH_BYTES)
      in nodes @ [(name, mb_data scratch, cur_bit scratch)])"

definition an_payload :: "authored_nodes \<Rightarrow> string \<Rightarrow> (u8 list \<times> nat) option" where
  "an_payload nodes name = map_option snd (List.find (\<lambda>(node, _). node = name) nodes)"

definition an_contains :: "authored_nodes \<Rightarrow> string \<Rightarrow> bool" where
  "an_contains nodes name = list_ex (\<lambda>(node, _). node = name) nodes"

definition an_is_empty :: "authored_nodes \<Rightarrow> bool" where
  "an_is_empty nodes = (nodes = [])"

section \<open>Writing a tree\<close>

fun skip_subtree :: "u8 \<Rightarrow> flat_node list \<Rightarrow> flat_node list" where
  "skip_subtree depth [] = []"
| "skip_subtree depth (child # rest) =
     (if depth < fn_depth child then skip_subtree depth rest else child # rest)"

definition gate_closed :: "u8 \<times> u8 \<times> u8 \<Rightarrow> u32 \<Rightarrow> u32 \<Rightarrow> bool" where
  "gate_closed ids sync_type obj_type = (case ids of (id1, id2, id3) \<Rightarrow>
     ucast id1 AND sync_type = 0 \<or> (id3 \<noteq> 0 \<and> obj_type AND ucast id3 = 0))"

fun subtree_has_payload :: "u8 \<Rightarrow> u32 \<Rightarrow> u32 \<Rightarrow> authored_nodes \<Rightarrow> flat_node list \<Rightarrow> bool" where
  "subtree_has_payload depth sync_type obj_type nodes [] = False"
| "subtree_has_payload depth sync_type obj_type nodes (node # rest) =
     (if fn_depth node \<le> depth then False
      else if gate_closed (fn_ids node) sync_type obj_type
           then subtree_has_payload depth sync_type obj_type nodes rest
      else case fn_kind node of
             NkData name _ \<Rightarrow>
               if an_contains nodes name then True
               else subtree_has_payload depth sync_type obj_type nodes rest
           | NkParent \<Rightarrow> subtree_has_payload depth sync_type obj_type nodes rest)"

text \<open>Success flag, the entries left (the cursor) and the buffer.\<close>

type_synonym write_result = "bool \<times> flat_node list \<times> mbuf"

definition write_leaf :: "authored_nodes \<Rightarrow> string \<Rightarrow> writer" where
  "write_leaf nodes name =
     (case an_payload nodes name of
        Some (bytes, bits) \<Rightarrow>
          and_write (write_bits_single (of_nat bits) NODE_LENGTH_BITS) (write_bits bytes bits)
      | None \<Rightarrow> write_bits_single 0 NODE_LENGTH_BITS)"

definition node_present :: "u32 \<Rightarrow> u32 \<Rightarrow> authored_nodes \<Rightarrow> flat_node \<Rightarrow> flat_node list \<Rightarrow> bool" where
  "node_present sync_type obj_type nodes node rest =
     (case fn_kind node of
        NkParent \<Rightarrow> subtree_has_payload (fn_depth node) sync_type obj_type nodes rest
      | NkData name _ \<Rightarrow> an_contains nodes name)"

fun write_node :: "nat \<Rightarrow> u32 \<Rightarrow> u32 \<Rightarrow> authored_nodes \<Rightarrow> flat_node list \<Rightarrow> mbuf \<Rightarrow> write_result"
  and write_children :: "nat \<Rightarrow> u32 \<Rightarrow> u32 \<Rightarrow> authored_nodes \<Rightarrow> u8 \<Rightarrow> flat_node list \<Rightarrow> mbuf \<Rightarrow> write_result" where
  "write_node 0 sync_type obj_type nodes ns b = (False, ns, b)"
| "write_node (Suc k) sync_type obj_type nodes [] b = (True, [], b)"
| "write_node (Suc k) sync_type obj_type nodes (node # rest) b =
     (let depth = fn_depth node;
          present = node_present sync_type obj_type nodes node rest;
          body = (\<lambda>b. case fn_kind node of
             NkParent \<Rightarrow> write_children k sync_type obj_type nodes depth rest b
           | NkData name _ \<Rightarrow> (case write_leaf nodes name b of (ok, b') \<Rightarrow> (ok, rest, b')))
      in if gate_closed (fn_ids node) sync_type obj_type then (True, skip_subtree depth rest, b)
         else if ucast (fst (snd (fn_ids node))) AND sync_type \<noteq> 0
              then (case write_bit present b of
                      (False, b1) \<Rightarrow> (False, rest, b1)
                    | (True, b1) \<Rightarrow> if \<not> present then (True, skip_subtree depth rest, b1) else body b1)
              else body b)"
| "write_children 0 sync_type obj_type nodes depth ns b = (False, ns, b)"
| "write_children (Suc k) sync_type obj_type nodes depth [] b = (True, [], b)"
| "write_children (Suc k) sync_type obj_type nodes depth (child # rest) b =
     (if depth < fn_depth child
      then (case write_node k sync_type obj_type nodes (child # rest) b of
              (False, ns, b1) \<Rightarrow> (False, ns, b1)
            | (True, ns, b1) \<Rightarrow> write_children k sync_type obj_type nodes depth ns b1)
      else (True, child # rest, b))"

text \<open>The top loop \<open>while cursor < tree.len()\<close>; each round consumes at least one entry.\<close>

fun write_roots :: "nat \<Rightarrow> u32 \<Rightarrow> u32 \<Rightarrow> authored_nodes \<Rightarrow> flat_node list \<Rightarrow> mbuf \<Rightarrow> bool \<times> mbuf" where
  "write_roots 0 sync_type obj_type nodes ns b = (ns = [], b)"
| "write_roots (Suc k) sync_type obj_type nodes ns b =
     (if ns = [] then (True, b)
      else case write_node (2 * length ns) sync_type obj_type nodes ns b of
             (False, _, b1) \<Rightarrow> (False, b1)
           | (True, rest, b1) \<Rightarrow> write_roots k sync_type obj_type nodes rest b1)"

definition write_sync_tree :: "net_obj_entity_type \<Rightarrow> bool \<Rightarrow> bool \<Rightarrow> authored_nodes \<Rightarrow> u8 list option" where
  "write_sync_tree entity_type is_create hack nodes =
     (let buf = with_length_hack hack (mb_new TREE_SCRATCH_BYTES);
          (sync_type, obj_type, buf1) =
            (if is_create then (1, 0, buf) else (2, 1, snd (write_bit True buf)));
          tree = tree_for entity_type
      in case write_roots (length tree) sync_type obj_type nodes tree buf1 of
           (False, _) \<Rightarrow> None
         | (True, b) \<Rightarrow> Some (take (data_length b) (mb_data b)))"

section \<open>Entity factories\<close>

definition sector_of :: "fl \<times> fl \<times> fl \<Rightarrow> (u32 \<times> u32 \<times> u32) \<times> (fl \<times> fl \<times> fl)" where
  "sector_of position = (case position of (px, py, pz) \<Rightarrow>
     let n = fl_of_int F32;
         sx = fl_to_i32 (fl_add F32 (fl_div F32 px (n 54)) (n 512));
         sy = fl_to_i32 (fl_add F32 (fl_div F32 py (n 54)) (n 512));
         sz = fl_to_i32 (fl_div F32 (fl_add F32 pz (n 1700)) (n 69))
     in ((sx, sy, sz),
         (fl_sub F32 px (fl_mul F32 (fl_sub F32 (n (sint sx)) (n 512)) (n 54)),
          fl_sub F32 py (fl_mul F32 (fl_sub F32 (n (sint sy)) (n 512)) (n 54)),
          fl_sub F32 pz (fl_sub F32 (fl_mul F32 (n (sint sz)) (n 69)) (n 1700)))))"

datatype offset_node = OnSector | OnObject | OnPedMap

definition write_offset :: "fl \<times> fl \<times> fl \<Rightarrow> nat \<Rightarrow> writer list" where
  "write_offset offset bits = (case offset of (x, y, z) \<Rightarrow>
     [write_float bits (fl_of_int F32 54) x, write_float bits (fl_of_int F32 54) y,
      write_float bits (fl_of_int F32 69) z])"

definition author_position :: "fl \<times> fl \<times> fl \<Rightarrow> offset_node \<Rightarrow> authored_nodes \<Rightarrow> authored_nodes" where
  "author_position position kind nodes = (case sector_of position of ((sx, sy, sz), offset) \<Rightarrow>
     let nodes1 = an_set ''CSectorDataNode''
           [write_bits_single sx 10, write_bits_single sy 10, write_bits_single sz 6] nodes
     in case kind of
          OnSector \<Rightarrow> an_set ''CSectorPositionDataNode'' (write_offset offset 12) nodes1
        | OnObject \<Rightarrow> an_set ''CObjectSectorPosNode'' (write_bit True # write_offset offset 20) nodes1
        | OnPedMap \<Rightarrow> an_set ''CPedSectorPosMapNode'' (write_offset offset 12 @ [write_bit False]) nodes1)"

definition write_quaternion :: "libm \<Rightarrow> fl \<Rightarrow> writer list" where
  "write_quaternion lm hdg =
     (let c = quat_compress (from_heading_degrees lm hdg) QUAT_BITS
      in [write_bits_single (cq_largest c) 2, write_bits_single (cq_a c) QUAT_BITS,
          write_bits_single (cq_b c) QUAT_BITS, write_bits_single (cq_c c) QUAT_BITS])"

definition author_vehicle :: "libm \<Rightarrow> u32 \<Rightarrow> fl \<times> fl \<times> fl \<Rightarrow> fl \<Rightarrow> u32 \<Rightarrow> authored_nodes" where
  "author_vehicle lm mdl position hdg creation_token =
     an_set ''CEntityOrientationDataNode'' (write_quaternion lm hdg)
    (author_position position OnSector
    (an_set ''CAutomobileCreationDataNode'' [write_bit True]
    (an_set ''CVehicleCreationDataNode''
       [write_bits_single mdl 32, write_bits_single POPTYPE_MISSION 4, write_bits_single 0 16,
        write_bit False, write_bits_single 1000 19, write_bits_single 2 3,
        write_bits_single creation_token 32, write_bit False, write_bit False, write_bit False] [])))"

definition author_ped :: "u32 \<Rightarrow> fl \<times> fl \<times> fl \<Rightarrow> fl \<Rightarrow> authored_nodes" where
  "author_ped mdl position hdg =
     (let radians = to_radians hdg in
      an_set ''CPedOrientationDataNode''
        [write_signed_float 8 TAU_RADIANS radians, write_signed_float 8 TAU_RADIANS radians]
     (author_position position OnPedMap
     (an_set ''CPedCreationDataNode''
        [write_bit False, write_bit False, write_bits_single POPTYPE_MISSION 4,
         write_bits_single mdl 32, write_bits_single 0 16, write_bit False,
         write_bits_single NO_VOICE 32, write_bit False, write_bit True, write_bit False,
         write_bits_single 200 13, write_bit False] [])))"

definition author_object :: "libm \<Rightarrow> u32 \<Rightarrow> fl \<times> fl \<times> fl \<Rightarrow> fl \<Rightarrow> bool \<Rightarrow> authored_nodes" where
  "author_object lm mdl position hdg dynamic =
     an_set ''CObjectOrientationDataNode'' (write_bit False # write_quaternion lm hdg)
    (author_position position OnObject
    (an_set ''CObjectCreationDataNode''
       ([write_bits_single ENTITY_OWNEDBY_SCRIPT 5, write_bits_single mdl 32, write_bit dynamic] @
        replicate 5 (write_bit False)) []))"

end
