(* ===== verification/Sync_Parse.thy ===== *)
theory Sync_Parse
  imports Leaf_Decoders Sync_Write
begin

text \<open>
  The sync tree reader of \<open>crates/baston-protocol/src/rage/sync_parse.rs\<close>: the gates and presence
  bits, the recursive walk over the flat tables with its length-prefixed leaves, the decoder of
  one clone record and the merge of decoded records into an entity's last-known state. As in
  \<open>Sync_Write\<close> the cursor is the list of the entries left and the recursion runs on fuel.
\<close>

section \<open>The walk\<close>

definition should_read :: "u8 \<times> u8 \<times> u8 \<Rightarrow> u32 \<Rightarrow> u32 \<Rightarrow> mbuf \<Rightarrow> bool \<times> mbuf" where
  "should_read ids sync_type obj_type b = (case ids of (id1, id2, id3) \<Rightarrow>
     if ucast id1 AND sync_type = 0 then (False, b)
     else if id3 \<noteq> 0 \<and> obj_type AND ucast id3 = 0 then (False, b)
     else if ucast id2 AND sync_type \<noteq> 0
          then (case read_bit b of (v, b1) \<Rightarrow> (v \<noteq> 0, b1))
          else (True, b))"

record walk_context =
  wc_libm :: libm
  wc_sync_type :: u32
  wc_obj_type :: u32
  wc_build :: game_build

text \<open>Reading one leaf: the length prefix, the bounds check, the bounded view, and the
  unconditional resynchronisation at the declared end.\<close>

definition walk_leaf :: "walk_context \<Rightarrow> string \<Rightarrow> mbuf \<Rightarrow> sync_node_data \<Rightarrow> bool \<times> mbuf \<times> sync_node_data" where
  "walk_leaf ctx name b out =
     (case read_bits_single NODE_LENGTH_BITS b of
        (None, b1) \<Rightarrow> (False, b1, out)
      | (Some len, b1) \<Rightarrow>
          (let start = cur_bit b1; n = unat len; end_bit = start + n in
           if length (mb_data b1) * 8 < end_bit then (False, b1, out)
           else let (b2, out2) =
                  (if decodes name
                   then (case read_bits (replicate ((n + 7) div 8) 0) n b1 of
                           ((True, body), b2) \<Rightarrow>
                             (b2, decode_leaf (wc_libm ctx) name (wc_build ctx) (from_bits body n) out)
                         | ((False, _), b2) \<Rightarrow> (b2, out))
                   else (b1, out))
                in (True, set_current_bit end_bit b2, out2)))"

type_synonym walk_result = "bool \<times> flat_node list \<times> mbuf \<times> sync_node_data"

fun walk :: "nat \<Rightarrow> walk_context \<Rightarrow> flat_node list \<Rightarrow> mbuf \<Rightarrow> sync_node_data \<Rightarrow> walk_result"
  and walk_children :: "nat \<Rightarrow> walk_context \<Rightarrow> u8 \<Rightarrow> flat_node list \<Rightarrow> mbuf \<Rightarrow> sync_node_data \<Rightarrow> walk_result" where
  "walk 0 ctx ns b out = (False, ns, b, out)"
| "walk (Suc k) ctx [] b out = (False, [], b, out)"
| "walk (Suc k) ctx (node # rest) b out =
     (case should_read (fn_ids node) (wc_sync_type ctx) (wc_obj_type ctx) b of
        (read, b1) \<Rightarrow>
          (case fn_kind node of
             NkParent \<Rightarrow>
               if read then walk_children k ctx (fn_depth node) rest b1 out
               else (True, skip_subtree (fn_depth node) rest, b1, out)
           | NkData name _ \<Rightarrow>
               if \<not> read then (True, rest, b1, out)
               else (case walk_leaf ctx name b1 out of (ok, b2, out2) \<Rightarrow> (ok, rest, b2, out2))))"
| "walk_children 0 ctx depth ns b out = (False, ns, b, out)"
| "walk_children (Suc k) ctx depth [] b out = (True, [], b, out)"
| "walk_children (Suc k) ctx depth (child # rest) b out =
     (if depth < fn_depth child
      then (case walk k ctx (child # rest) b out of
              (False, r) \<Rightarrow> (False, r)
            | (True, ns, b1, out1) \<Rightarrow> walk_children k ctx depth ns b1 out1)
      else (True, child # rest, b, out))"

definition parse_sync_tree :: "libm \<Rightarrow> net_obj_entity_type \<Rightarrow> bool \<Rightarrow> u8 list \<Rightarrow> bool \<Rightarrow> game_build \<Rightarrow> sync_node_data" where
  "parse_sync_tree lm entity_type is_create data hack build =
     (let buf = with_length_hack hack (from_bytes data);
          (sync_type, obj_type, buf1) =
            (if is_create then (1, 0, buf)
             else (case read_bit buf of (v, b1) \<Rightarrow> (2, ucast v, b1)));
          ctx = \<lparr>wc_libm = lm, wc_sync_type = sync_type, wc_obj_type = obj_type, wc_build = build\<rparr>;
          tree = tree_for entity_type
      in case walk (2 * length tree) ctx tree buf1 sync_node_default of (_, _, _, out) \<Rightarrow> out)"

definition sync_is_empty :: "sync_node_data \<Rightarrow> bool" where
  "sync_is_empty d = (d = sync_node_default)"

section \<open>Last-known state of an entity\<close>

record entity_node_state =
  es_vehicle_game_state :: "vehicle_game_state option"
  es_vehicle_health :: "vehicle_health option"
  es_vehicle_appearance :: "vehicle_appearance option"
  es_vehicle_damage :: "vehicle_damage option"
  es_ped_game_state :: "ped_game_state option"
  es_ped_movement :: "ped_movement option"
  es_ped_tasks :: "ped_tasks option"
  es_relationship_group :: "u32 option"
  es_source_of_damage :: "u16 option"
  es_cause_of_death :: "u32 option"
  es_population_type :: "u8 option"
  es_is_visible :: "bool option"
  es_script_hash :: "u32 option"
  es_attached_to :: "u16 option"
  last_vehicle :: "u16 option"
  last_vehicle_seat :: "u32 option"

definition merge_field :: "'a option \<Rightarrow> 'a option \<Rightarrow> 'a option" where
  "merge_field slot incoming = (case incoming of Some v \<Rightarrow> Some v | None \<Rightarrow> slot)"

text \<open>A ped that had a vehicle and now reports none has just left it; \<open>u16::try_from\<close> keeps the
  transition only for ids below 65536.\<close>

definition merge_last_vehicle :: "sync_node_data \<Rightarrow> entity_node_state \<Rightarrow> entity_node_state" where
  "merge_last_vehicle d s =
     (case sd_ped_game_state d of
        None \<Rightarrow> s
      | Some st \<Rightarrow>
          if sint (cur_vehicle st) < 0
          then (case es_ped_game_state s of
                  None \<Rightarrow> s
                | Some previous \<Rightarrow>
                    if 0 \<le> sint (cur_vehicle previous) \<and> sint (cur_vehicle previous) < 65536
                    then s\<lparr>last_vehicle := Some (ucast (cur_vehicle previous)),
                           last_vehicle_seat := Some (cur_vehicle_seat previous)\<rparr>
                    else s)
          else s)"

definition es_merge :: "sync_node_data \<Rightarrow> entity_node_state \<Rightarrow> entity_node_state" where
  "es_merge d s0 =
     (let s = merge_last_vehicle d s0 in
      s\<lparr>es_vehicle_game_state := merge_field (es_vehicle_game_state s) (sd_vehicle_game_state d),
        es_vehicle_health := merge_field (es_vehicle_health s) (sd_vehicle_health d),
        es_vehicle_appearance := merge_field (es_vehicle_appearance s) (sd_vehicle_appearance d),
        es_vehicle_damage := merge_field (es_vehicle_damage s) (sd_vehicle_damage d),
        es_ped_game_state := merge_field (es_ped_game_state s) (sd_ped_game_state d),
        es_ped_movement := merge_field (es_ped_movement s) (sd_ped_movement d),
        es_ped_tasks := merge_field (es_ped_tasks s) (sd_ped_tasks d),
        es_relationship_group := merge_field (es_relationship_group s) (relationship_group d),
        es_source_of_damage := merge_field (es_source_of_damage s) (source_of_damage d),
        es_cause_of_death := merge_field (es_cause_of_death s) (cause_of_death d),
        es_population_type := merge_field (es_population_type s) (population_type d),
        es_is_visible := merge_field (es_is_visible s) (is_visible d),
        es_script_hash := merge_field (es_script_hash s) (script_hash d),
        es_attached_to := merge_field (es_attached_to s) (attached_to d)\<rparr>)"

end
