(* ===== verification/Sync_Roundtrip.thy ===== *)
theory Sync_Roundtrip
  imports Sync_Parse
begin

text \<open>
  The sync tree writer (\<open>sync_write.rs\<close>) against the sync tree reader (\<open>sync_parse.rs\<close>). Both
  are refined to structural recursion over the nested tree of the table: the writer appends the
  bit string \<open>tree_bits\<close>, the reader consumes it and decodes exactly the leaves the writer
  emitted. The fuel of the two recursions is shown to be enough on the way.
\<close>

section \<open>Tree semantics of the writer\<close>

fun node_ids :: "sync_node \<Rightarrow> u8 \<times> u8 \<times> u8" where
  "node_ids (SLeaf ids name mx) = ids"
| "node_ids (SParent ids ts) = ids"

fun leaves :: "sync_node \<Rightarrow> ((u8 \<times> u8 \<times> u8) \<times> string) list" where
  "leaves (SLeaf ids name mx) = [(ids, name)]"
| "leaves (SParent ids ts) = concat (map leaves ts)"

fun has_payload :: "u32 \<Rightarrow> u32 \<Rightarrow> authored_nodes \<Rightarrow> sync_node \<Rightarrow> bool" where
  "has_payload st ot nodes (SLeaf ids name mx) = an_contains nodes name"
| "has_payload st ot nodes (SParent ids ts) =
     list_ex (\<lambda>(ids, name). \<not> gate_closed ids st ot \<and> an_contains nodes name) (concat (map leaves ts))"

definition asks_presence :: "u8 \<times> u8 \<times> u8 \<Rightarrow> u32 \<Rightarrow> bool" where
  "asks_presence ids st \<longleftrightarrow> ucast (fst (snd ids)) AND st \<noteq> 0"

definition leaf_bits :: "bool \<Rightarrow> authored_nodes \<Rightarrow> string \<Rightarrow> bool list" where
  "leaf_bits h nodes name = (case an_payload nodes name of
     Some (bytes, bits) \<Rightarrow> u32_bits (eff_width h 13) (of_nat bits) @ take bits (bits_of_bytes bytes)
   | None \<Rightarrow> u32_bits (eff_width h 13) 0)"

text \<open>The gates and the presence bit in front of a node's body.\<close>

definition gated :: "u32 \<Rightarrow> u32 \<Rightarrow> authored_nodes \<Rightarrow> sync_node \<Rightarrow> bool list \<Rightarrow> bool list" where
  "gated st ot nodes t body =
     (if gate_closed (node_ids t) st ot then []
      else if asks_presence (node_ids t) st
           then (if has_payload st ot nodes t then True # body else [False])
           else body)"

fun tree_bits :: "bool \<Rightarrow> u32 \<Rightarrow> u32 \<Rightarrow> authored_nodes \<Rightarrow> sync_node \<Rightarrow> bool list" where
  "tree_bits h st ot nodes (SLeaf ids name mx) =
     gated st ot nodes (SLeaf ids name mx) (leaf_bits h nodes name)"
| "tree_bits h st ot nodes (SParent ids ts) =
     gated st ot nodes (SParent ids ts) (concat (map (tree_bits h st ot nodes) ts))"

text \<open>The rest of the table after a subtree of depth \<open>d\<close>.\<close>

definition stops :: "nat \<Rightarrow> flat_node list \<Rightarrow> bool" where
  "stops d rest \<longleftrightarrow> (case rest of [] \<Rightarrow> True | n # _ \<Rightarrow> depth_of n \<le> d)"

lemma depth_nodes [simp]:
  "d < 256 \<Longrightarrow> depth_of (p_node (of_nat d) ids) = d" "d < 256 \<Longrightarrow> depth_of (d_node (of_nat d) ids name mx) = d"
  by (simp_all add: depth_of_def p_node_def d_node_def unsigned_of_nat take_bit_nat_eq_self)

lemma node_fields [simp]:
  "fn_depth (p_node d ids) = d" "fn_ids (p_node d ids) = ids" "fn_kind (p_node d ids) = NkParent"
  "fn_depth (d_node d ids name mx) = d" "fn_ids (d_node d ids name mx) = ids"
  "fn_kind (d_node d ids name mx) = NkData name mx"
  by (simp_all add: p_node_def d_node_def)

lemma depth_less: "fn_depth n < fn_depth m \<longleftrightarrow> depth_of n < depth_of m"
  by (simp add: depth_of_def word_less_nat_alt)

lemma of_nat_depth_less: "d < 256 \<Longrightarrow> of_nat d < fn_depth m \<longleftrightarrow> d < depth_of m"
  by (simp add: depth_of_def word_less_nat_alt unsigned_of_nat take_bit_nat_eq_self)

lemma flatten_depths: "deep_ok d t \<Longrightarrow> n \<in> set (flatten d t) \<Longrightarrow> d \<le> depth_of n"
proof (induction d t rule: flatten.induct)
  case (2 d ids ts)
  then show ?case by fastforce
qed simp

lemma flatten_Cons: "\<exists>n ns. flatten d t = n # ns \<and> fn_depth n = of_nat d"
  by (cases t) simp_all

lemma skip_subtree_all:
  assumes "d < 256" "\<forall>n\<in>set ns. d < depth_of n" "stops d rest"
  shows "skip_subtree (of_nat d) (ns @ rest) = rest"
  using assms(2)
proof (induction ns)
  case Nil
  then show ?case using assms(1,3)
    by (cases rest) (auto simp: stops_def of_nat_depth_less)
qed (simp add: of_nat_depth_less [OF assms(1)])

lemma children_deeper:
  assumes "\<forall>t\<in>set ts. deep_ok (Suc d) t"
  shows "\<forall>n\<in>set (concat (map (flatten (Suc d)) ts)). d < depth_of n"
  using assms flatten_depths [of "Suc d"] by fastforce

lemma skip_children:
  assumes "deep_ok d (SParent ids ts)" "stops d rest"
  shows "skip_subtree (of_nat d) (concat (map (flatten (Suc d)) ts) @ rest) = rest"
  using assms by (intro skip_subtree_all children_deeper) simp_all

lemma skip_leaf: "d < 256 \<Longrightarrow> stops d rest \<Longrightarrow> skip_subtree (of_nat d) rest = rest"
  using skip_subtree_all [of d "[]" rest] by simp

lemma payload_scan:
  assumes "d < 256" "stops d rest" "deep_ok e t" "d < e"
  shows "subtree_has_payload (of_nat d) st ot nodes (flatten e t @ more_nodes) \<longleftrightarrow>
    list_ex (\<lambda>(ids, name). \<not> gate_closed ids st ot \<and> an_contains nodes name) (leaves t) \<or>
    subtree_has_payload (of_nat d) st ot nodes more_nodes"
  using assms(3,4)
proof (induction t arbitrary: e more_nodes)
  case (SLeaf ids name mx)
  then have "\<not> of_nat e \<le> (of_nat d :: u8)"
    using assms(1) by (simp add: word_le_nat_alt unsigned_of_nat take_bit_nat_eq_self)
  then show ?case by simp
next
  case (SParent ids ts)
  have n: "\<not> of_nat e \<le> (of_nat d :: u8)"
    using SParent.prems assms(1) by (simp add: word_le_nat_alt unsigned_of_nat take_bit_nat_eq_self)
  have "subtree_has_payload (of_nat d) st ot nodes (concat (map (flatten (Suc e)) us) @ more_nodes) \<longleftrightarrow>
    list_ex (\<lambda>(ids, name). \<not> gate_closed ids st ot \<and> an_contains nodes name) (concat (map leaves us)) \<or>
    subtree_has_payload (of_nat d) st ot nodes more_nodes" if "set us \<subseteq> set ts" for us
    using that
  proof (induction us)
    case (Cons u us)
    then show ?case using SParent.IH [of u "Suc e"] SParent.prems by simp
  qed simp
  from this [OF subset_refl] n show ?case by simp
qed

lemma subtree_payload:
  assumes "deep_ok d (SParent ids ts)" "stops d rest"
  shows "subtree_has_payload (of_nat d) st ot nodes (concat (map (flatten (Suc d)) ts) @ rest) \<longleftrightarrow>
    has_payload st ot nodes (SParent ids ts)"
proof -
  have d: "d < 256" using assms(1) by simp
  have stop: "\<not> subtree_has_payload (of_nat d) st ot nodes rest"
    using assms(2) d by (cases rest) (auto simp: stops_def not_less [symmetric] of_nat_depth_less)
  have "subtree_has_payload (of_nat d) st ot nodes (concat (map (flatten (Suc d)) us) @ rest) \<longleftrightarrow>
    list_ex (\<lambda>(ids, name). \<not> gate_closed ids st ot \<and> an_contains nodes name) (concat (map leaves us))"
    if "set us \<subseteq> set ts" for us
    using that
  proof (induction us)
    case Nil
    then show ?case using stop by simp
  next
    case (Cons u us)
    then show ?case using payload_scan [OF d assms(2), of "Suc d" u] assms(1) by simp
  qed
  from this [OF subset_refl] show ?thesis by simp
qed

section \<open>The writer appends the tree's bits\<close>

definition nodes_ok :: "bool \<Rightarrow> authored_nodes \<Rightarrow> bool" where
  "nodes_ok h nodes \<longleftrightarrow>
     (\<forall>(name, bytes, bits)\<in>set nodes. bits \<le> 8 * length bytes \<and> bits < 2 ^ eff_width h 13)"

lemma an_payload_mem: "an_payload nodes name = Some (bytes, bits) \<Longrightarrow> \<exists>m. (m, bytes, bits) \<in> set nodes"
  by (auto simp: an_payload_def find_Some_iff set_conv_nth)

lemma an_contains_payload: "an_contains nodes name \<longleftrightarrow> an_payload nodes name \<noteq> None"
  by (auto simp: an_contains_def an_payload_def find_None_iff list_ex_iff)

lemma nodes_ok_payload:
  assumes "nodes_ok h nodes" "an_payload nodes name = Some (bytes, bits)"
  shows "bits \<le> 8 * length bytes" "bits < 2 ^ eff_width h 13"
  using assms an_payload_mem [OF assms(2)] by (auto simp: nodes_ok_def)

text \<open>A scratch buffer of full capacity. \<open>wrote b bits rest r\<close>: the result \<open>r\<close> of a node writer is
  a success that appended exactly \<open>bits\<close> and left the entries \<open>rest\<close> if the bits fit, and a
  failure otherwise.\<close>

definition full_buf :: "bool \<Rightarrow> mbuf \<Rightarrow> bool" where
  "full_buf h b \<longleftrightarrow> max_bit b = 8 * length (mb_data b) \<and> cur_bit b \<le> max_bit b \<and> length_hack b = h"

definition wrote :: "mbuf \<Rightarrow> bool list \<Rightarrow> flat_node list \<Rightarrow> write_result \<Rightarrow> bool" where
  "wrote b bits rest r \<longleftrightarrow>
     (if fits (length bits) b then r = (True, rest, append_bits bits b) else \<not> fst r)"

lemma full_buf_wf: "full_buf h b \<Longrightarrow> wf_buf b"
  by (simp add: full_buf_def wf_buf_def)

lemma full_buf_append: "full_buf h b \<Longrightarrow> fits (length xs) b \<Longrightarrow> full_buf h (append_bits xs b)"
  by (simp add: full_buf_def fits_def)

lemma write_bit_full:
  assumes "full_buf h b"
  shows "write_bit v b = (if fits 1 b then (True, append_bits [v] b) else (False, b))"
proof (cases "fits 1 b")
  case False
  then have "cur_bit b = 8 * length (mb_data b)" using assms by (simp add: full_buf_def fits_def)
  then show ?thesis using False by (simp add: write_bit_def)
qed (simp add: write_bit_law [OF full_buf_wf [OF assms]])

lemma write_leaf_full:
  assumes "nodes_ok h nodes" "full_buf h b"
  shows "wrote b (leaf_bits h nodes name) rest (case write_leaf nodes name b of (ok, b') \<Rightarrow> (ok, rest, b'))"
proof (cases "an_payload nodes name")
  case None
  then show ?thesis using assms(2)
    by (simp add: wrote_def write_leaf_def leaf_bits_def NODE_LENGTH_BITS_def write_bits_single_law
        effective_len_eff_width full_buf_def)
next
  case (Some p)
  obtain bytes bits where p: "p = (bytes, bits)" by fastforce
  note ok = nodes_ok_payload [OF assms(1) Some [unfolded p]]
  let ?w = "eff_width h 13" and ?l = "u32_bits (eff_width h 13) (of_nat bits)"
  have h: "effective_len b 13 = ?w" using assms(2) by (simp add: effective_len_eff_width full_buf_def)
  have w: "write_bits bytes bits (append_bits ?l b) =
      (if fits bits (append_bits ?l b)
       then (True, append_bits (take bits (bits_of_bytes bytes)) (append_bits ?l b)) else (False, append_bits ?l b))"
    using ok(1) full_buf_wf [OF assms(2)] by (intro write_bits_law) simp_all
  have "fits ?w b" if "fits (?w + bits) b" using that by (simp add: fits_def)
  then show ?thesis
    using Some p h w ok(1)
    by (auto simp: wrote_def write_leaf_def leaf_bits_def NODE_LENGTH_BITS_def write_bits_single_law and_write_def)
qed

lemma write_node_gated:
  assumes "fn_depth n = of_nat d" "fn_ids n = node_ids t" "skip_subtree (of_nat d) ns = rest"
    and "node_present st ot nodes n ns = has_payload st ot nodes t"
    and body: "\<And>b. full_buf h b \<Longrightarrow> wrote b bits rest
      (case fn_kind n of
         NkParent \<Rightarrow> write_children k st ot nodes (of_nat d) ns b
       | NkData name _ \<Rightarrow> (case write_leaf nodes name b of (ok, b') \<Rightarrow> (ok, ns, b')))"
    and b: "full_buf h b"
  shows "wrote b (gated st ot nodes t bits) rest (write_node (Suc k) st ot nodes (n # ns) b)"
proof (cases "gate_closed (node_ids t) st ot")
  case True
  have "fits 0 b" using b by (simp add: full_buf_def fits_def)
  then show ?thesis using assms(1-3) True by (simp add: gated_def wrote_def)
next
  case open_gate: False
  show ?thesis
  proof (cases "asks_presence (node_ids t) st")
    case False
    then show ?thesis
      using open_gate body [OF b] assms(1,2) by (simp add: gated_def asks_presence_def Let_def)
  next
    case True
    let ?p = "has_payload st ot nodes t"
    note w = write_bit_full [OF b, of ?p]
    have mono: "fits 1 b" if "fits (Suc n) b" for n using that by (simp add: fits_def)
    show ?thesis
    proof (cases "fits 1 b")
      case fit: True
      have "full_buf h (append_bits [?p] b)" using full_buf_append [OF b, of "[?p]"] fit by simp
      from body [OF this] show ?thesis
        using open_gate True w fit assms(1-4)
        by (auto simp: wrote_def gated_def asks_presence_def Let_def)
    next
      case False
      then show ?thesis
        using open_gate True w assms(1-4) mono
        by (auto simp: wrote_def gated_def asks_presence_def Let_def)
    qed
  qed
qed

lemma stops_children:
  assumes "deep_ok (Suc d) u" "d < 256"
  shows "stops d rest \<Longrightarrow> stops (Suc d) rest" "stops (Suc d) (flatten (Suc d) u @ rest)"
proof -
  have "Suc d < 256" using assms(1) by (cases u) auto
  moreover obtain n ns where "flatten (Suc d) u = n # ns" "fn_depth n = of_nat (Suc d)"
    using flatten_Cons [of "Suc d" u] by blast
  ultimately show "stops (Suc d) (flatten (Suc d) u @ rest)"
    by (simp add: stops_def depth_of_def unsigned_of_nat take_bit_nat_eq_self del: of_nat_Suc)
  show "stops d rest \<Longrightarrow> stops (Suc d) rest" by (cases rest) (simp_all add: stops_def)
qed

lemma stops_forest:
  "\<forall>u\<in>set us. deep_ok (Suc d) u \<Longrightarrow> d < 256 \<Longrightarrow> stops d rest \<Longrightarrow>
    stops (Suc d) (concat (map (flatten (Suc d)) us) @ rest)"
  by (cases us) (auto simp: stops_children, simp add: stops_def split: list.splits)

lemma write_forest:
  assumes IH: "\<And>u k b rest. u \<in> set ts \<Longrightarrow> stops (Suc d) rest \<Longrightarrow> 2 * length (flatten (Suc d) u) \<le> k \<Longrightarrow>
      full_buf h b \<Longrightarrow>
      wrote b (tree_bits h st ot nodes u) rest (write_node k st ot nodes (flatten (Suc d) u @ rest) b)"
    and d: "deep_ok d (SParent ids ts)" "stops d rest"
  shows "2 * length (concat (map (flatten (Suc d)) ts)) < k \<Longrightarrow> full_buf h b \<Longrightarrow>
    wrote b (concat (map (tree_bits h st ot nodes) ts)) rest
      (write_children k st ot nodes (of_nat d) (concat (map (flatten (Suc d)) ts) @ rest) b)"
  using IH d(1)
proof (induction ts arbitrary: k b)
  case Nil
  then obtain j where "k = Suc j" by (cases k) auto
  then show ?case using d Nil.prems
    by (cases rest) (auto simp: stops_def of_nat_depth_less wrote_def full_buf_def fits_def)
next
  case (Cons u us)
  then obtain j where k: "k = Suc j" by (cases k) auto
  obtain n ns where n: "flatten (Suc d) u = n # ns" "fn_depth n = of_nat (Suc d)"
    using flatten_Cons by blast
  have deep: "d < 256" "deep_ok (Suc d) u" "\<forall>u\<in>set us. deep_ok (Suc d) u" "Suc d < 256"
    using Cons.prems(4) by (auto, cases u, auto)
  let ?tail = "concat (map (flatten (Suc d)) us) @ rest"
  let ?bu = "tree_bits h st ot nodes u" and ?bus = "concat (map (tree_bits h st ot nodes) us)"
  have lt: "of_nat d < fn_depth n"
    using deep n(2) of_nat_depth_less [of d n] by (simp add: depth_of_def unsigned_of_nat take_bit_nat_eq_self del: of_nat_Suc)
  have first: "wrote b ?bu ?tail (write_node j st ot nodes (flatten (Suc d) u @ ?tail) b)"
    using Cons.prems k n(1) by (intro Cons.prems(3) stops_forest deep d(2)) auto
  show ?case
  proof (cases "fits (length ?bu) b")
    case True
    have "wrote (append_bits ?bu b) ?bus rest (write_children j st ot nodes (of_nat d) ?tail (append_bits ?bu b))"
      using Cons.prems k n(1) by (intro Cons.IH full_buf_append True) auto
    then show ?thesis using first True k n(1) lt by (simp add: wrote_def)
  next
    case False
    then have "\<not> fits (length (?bu @ ?bus)) b" by (simp add: fits_def)
    then show ?thesis using first False k n(1) lt by (auto simp: wrote_def split: prod.splits bool.splits)
  qed
qed

lemma write_tree:
  assumes "nodes_ok h nodes"
  shows "deep_ok d t \<Longrightarrow> stops d rest \<Longrightarrow> 2 * length (flatten d t) \<le> k \<Longrightarrow> full_buf h b \<Longrightarrow>
    wrote b (tree_bits h st ot nodes t) rest (write_node k st ot nodes (flatten d t @ rest) b)"
proof (induction t arbitrary: d rest k b)
  case (SLeaf ids name mx)
  then obtain j where k: "k = Suc j" by (cases k) auto
  have "wrote b (gated st ot nodes (SLeaf ids name mx) (leaf_bits h nodes name)) rest
      (write_node (Suc j) st ot nodes (d_node (of_nat d) ids name mx # rest) b)"
    using SLeaf.prems skip_leaf [of d rest]
    by (intro write_node_gated) (simp_all add: node_present_def write_leaf_full [OF assms])
  then show ?case using k by simp
next
  case (SParent ids ts)
  then obtain j where k: "k = Suc j" by (cases k) auto
  let ?sub = "concat (map (flatten (Suc d)) ts)" and ?bits = "concat (map (tree_bits h st ot nodes) ts)"
  have "wrote b' ?bits rest (write_children j st ot nodes (of_nat d) (?sub @ rest) b')"
    if "full_buf h b'" for b'
    using that SParent k by (intro write_forest [OF SParent.IH]) auto
  then have "wrote b (gated st ot nodes (SParent ids ts) ?bits) rest
      (write_node (Suc j) st ot nodes (p_node (of_nat d) ids # ?sub @ rest) b)"
    using SParent.prems skip_children [OF SParent.prems(1,2)]
    by (intro write_node_gated)
      (simp_all add: node_present_def subtree_payload [OF SParent.prems(1,2)] del: deep_ok.simps)
  then show ?case using k by simp
qed

section \<open>The reader consumes them\<close>

text \<open>The leaves a record carries, in table order: one pass over the flat table.\<close>

lemma skip_subtree_length: "length (skip_subtree d ns) \<le> length ns"
  by (induction ns) auto

function reached :: "u32 \<Rightarrow> u32 \<Rightarrow> authored_nodes \<Rightarrow> flat_node list \<Rightarrow> string list" where
  "reached st ot nodes [] = []"
| "reached st ot nodes (n # ns) =
     (if gate_closed (fn_ids n) st ot \<or> (asks_presence (fn_ids n) st \<and> \<not> node_present st ot nodes n ns)
      then reached st ot nodes (skip_subtree (fn_depth n) ns)
      else case fn_kind n of
             NkData name _ \<Rightarrow> name # reached st ot nodes ns
           | NkParent \<Rightarrow> reached st ot nodes ns)"
  by pat_completeness auto
termination
  by (relation "measure (\<lambda>(_, _, _, ns). length ns)") (auto simp: less_Suc_eq_le skip_subtree_length)

fun tree_reached :: "u32 \<Rightarrow> u32 \<Rightarrow> authored_nodes \<Rightarrow> sync_node \<Rightarrow> string list" where
  "tree_reached st ot nodes (SLeaf ids name mx) =
     (if gate_closed ids st ot \<or> (asks_presence ids st \<and> \<not> has_payload st ot nodes (SLeaf ids name mx))
      then [] else [name])"
| "tree_reached st ot nodes (SParent ids ts) =
     (if gate_closed ids st ot \<or> (asks_presence ids st \<and> \<not> has_payload st ot nodes (SParent ids ts))
      then [] else concat (map (tree_reached st ot nodes) ts))"

lemma reached_tree:
  "deep_ok d t \<Longrightarrow> stops d rest \<Longrightarrow>
    reached st ot nodes (flatten d t @ rest) = tree_reached st ot nodes t @ reached st ot nodes rest"
proof (induction t arbitrary: d rest)
  case (SLeaf ids name mx)
  then show ?case by (auto simp: skip_leaf node_present_def)
next
  case (SParent ids ts)
  have "reached st ot nodes (concat (map (flatten (Suc d)) us) @ rest) =
      concat (map (tree_reached st ot nodes) us) @ reached st ot nodes rest" if "set us \<subseteq> set ts" for us
    using that
  proof (induction us)
    case (Cons u us)
    have "stops (Suc d) (concat (map (flatten (Suc d)) us) @ rest)"
      using Cons.prems SParent.prems by (intro stops_forest) auto
    then show ?case using Cons SParent.IH [of u "Suc d"] SParent.prems(1) by auto
  qed simp
  from this [OF subset_refl] show ?case
    using skip_children [OF SParent.prems] subtree_payload [OF SParent.prems]
    by (simp add: node_present_def)
qed

text \<open>What the decoder sees of one leaf: the payload's bits, packed from a byte boundary.\<close>

definition leaf_view :: "authored_nodes \<Rightarrow> string \<Rightarrow> mbuf" where
  "leaf_view nodes name = (case an_payload nodes name of
     Some (bytes, bits) \<Rightarrow>
       from_bits (put_bools 0 (take bits (bits_of_bytes bytes)) (replicate ((bits + 7) div 8) 0)) bits
   | None \<Rightarrow> from_bits [] 0)"

definition decode_reached :: "walk_context \<Rightarrow> authored_nodes \<Rightarrow> string \<Rightarrow> sync_node_data \<Rightarrow> sync_node_data" where
  "decode_reached ctx nodes name out =
     (if decodes name then decode_leaf (wc_libm ctx) name (wc_build ctx) (leaf_view nodes name) out else out)"

lemma walk_leaf_law:
  assumes "nodes_ok h nodes" "wf_buf b" "length_hack b = h" "unread b = leaf_bits h nodes name @ r"
  shows "walk_leaf ctx name b out =
    (True, advance (length (leaf_bits h nodes name)) b, decode_reached ctx nodes name out)"
proof -
  obtain bytes bits where p: "leaf_bits h nodes name =
        u32_bits (eff_width h 13) (of_nat bits) @ take bits (bits_of_bytes bytes)"
      "bits \<le> 8 * length bytes" "bits < 2 ^ eff_width h 13"
      "leaf_view nodes name = from_bits (put_bools 0 (take bits (bits_of_bytes bytes)) (replicate ((bits + 7) div 8) 0)) bits"
  proof (cases "an_payload nodes name")
    case None
    then show thesis by (intro that [of 0 "[]"]) (simp_all add: leaf_bits_def leaf_view_def)
  next
    case (Some q)
    obtain bytes bits where q: "q = (bytes, bits)" by fastforce
    show thesis
      using nodes_ok_payload [OF assms(1) Some [unfolded q]] Some q
      by (intro that [of bits bytes]) (simp_all add: leaf_bits_def leaf_view_def)
  qed
  let ?w = "eff_width h 13"
  let ?b1 = "advance ?w b"
  have "?w \<le> 16" by (simp add: eff_width_def)
  have small: "bits < 65536" using p(3) power_increasing [OF \<open>?w \<le> 16\<close>, of "2::nat"] by simp
  have "take_bit ?w (of_nat bits :: u32) = of_nat bits"
    using p(3) small by (simp add: take_bit_word_fits unsigned_of_nat take_bit_nat_eq_self of_nat_less_iff)
  then have len: "read_bits_single 13 b = (Some (of_nat bits), ?b1)"
    using parsesD [OF parses_id [of h "of_nat bits"] assms(2,3)] assms(4) p(1) by simp
  have n: "unat (of_nat bits :: u32) = bits" using small by (simp add: unsigned_of_nat take_bit_nat_eq_self)
  have u: "unread ?b1 = take bits (bits_of_bytes bytes) @ r" using assms(4) p(1) by simp
  have fit: "fits bits ?b1"
  proof (cases "bits = 0")
    case False
    moreover have "bits \<le> length (unread ?b1)" using p(2) unfolding u by simp
    ultimately show ?thesis using fits_unread [of ?b1 bits] assms(2) by simp
  next
    case True
    have "0 < ?w" by (simp add: eff_width_def)
    moreover have "length (unread b) \<ge> ?w" using assms(4) p(1) by simp
    ultimately show ?thesis using True fits_unread [OF assms(2), of ?w] by (simp add: fits_def)
  qed
  then have bound: "cur_bit ?b1 + bits \<le> length (mb_data ?b1) * 8"
    using assms(2) by (simp add: fits_def wf_buf_def)
  have bytes_bound: "bits \<le> 8 * ((bits + 7) div 8)" by simp
  have read: "read_bits (replicate ((bits + 7) div 8) 0) bits ?b1 =
      ((True, put_bools 0 (take bits (bits_of_bytes bytes)) (replicate ((bits + 7) div 8) 0)), advance bits ?b1)"
  proof (cases "bits = 0")
    case False
    then show ?thesis using read_bits_law [of ?b1 bits "replicate ((bits + 7) div 8) 0"] fit u p(2) assms(2) bytes_bound by simp
  qed (simp add: read_bits_def advance_def)
  show ?thesis
    using len n bound read p(1,2,4)
    by (simp add: walk_leaf_def NODE_LENGTH_BITS_def Let_def decode_reached_def set_current_bit_def advance_def add.assoc)
qed

lemma walk_gated:
  assumes "fn_ids n = node_ids t" "wc_sync_type ctx = st" "wc_obj_type ctx = ot"
    and skip: "fn_kind n = NkParent \<Longrightarrow> skip_subtree (fn_depth n) ns = rest"
      "fn_kind n \<noteq> NkParent \<Longrightarrow> ns = rest"
    and body: "\<And>b. wf_buf b \<Longrightarrow> length_hack b = h \<Longrightarrow> unread b = bits @ r \<Longrightarrow>
      (case fn_kind n of
         NkParent \<Rightarrow> walk_children k ctx (fn_depth n) ns b out
       | NkData name _ \<Rightarrow> (case walk_leaf ctx name b out of (ok, b', out') \<Rightarrow> (ok, ns, b', out'))) =
      (True, rest, advance (length bits) b, out')"
    and b: "wf_buf b" "length_hack b = h" "unread b = gated st ot nodes t bits @ r"
  shows "walk (Suc k) ctx (n # ns) b out = (True, rest, advance (length (gated st ot nodes t bits)) b,
    if gate_closed (node_ids t) st ot \<or> (asks_presence (node_ids t) st \<and> \<not> has_payload st ot nodes t)
    then out else out')"
proof -
  obtain i1 i2 i3 where ids: "node_ids t = (i1, i2, i3)" by (cases "node_ids t")
  have adv0: "advance 0 b = b" by (simp add: advance_def)
  show ?thesis
  proof (cases "gate_closed (node_ids t) st ot")
    case True
    then have "should_read (fn_ids n) st ot b = (False, b)"
      by (auto simp: should_read_def gate_closed_def assms(1) ids)
    then show ?thesis using True assms(2,3) skip adv0 by (cases "fn_kind n") (simp_all add: gated_def)
  next
    case open_gate: False
    show ?thesis
    proof (cases "asks_presence (node_ids t) st")
      case False
      then have "should_read (fn_ids n) st ot b = (True, b)"
        using open_gate by (auto simp: should_read_def gate_closed_def asks_presence_def assms(1) ids)
      then show ?thesis
        using False open_gate body [OF b(1,2)] b(3) assms(2,3) by (cases "fn_kind n") (simp_all add: gated_def)
    next
      case True
      let ?p = "has_payload st ot nodes t"
      have u: "unread b = ?p # (if ?p then bits else []) @ r"
        using b(3) open_gate True by (simp add: gated_def)
      then have "fits 1 b" using fits_unread [OF b(1), of 1] by simp
      then have "read_bit b = (of_bool ?p, advance 1 b)" using read_bit_law [OF b(1)] u by simp
      then have sr: "should_read (fn_ids n) st ot b = (?p, advance 1 b)"
        using open_gate True by (auto simp: should_read_def gate_closed_def asks_presence_def assms(1) ids)
      have ub: "unread (advance 1 b) = bits @ r" if ?p using u that by simp
      show ?thesis
      proof (cases ?p)
        case True
        then show ?thesis
          using sr open_gate \<open>asks_presence (node_ids t) st\<close> body [of "advance 1 b"] ub b(1,2) assms(2,3)
          by (cases "fn_kind n") (simp_all add: gated_def)
      next
        case False
        then show ?thesis
          using sr open_gate \<open>asks_presence (node_ids t) st\<close> skip assms(2,3)
          by (cases "fn_kind n") (simp_all add: gated_def)
      qed
    qed
  qed
qed

definition decode_all :: "walk_context \<Rightarrow> authored_nodes \<Rightarrow> string list \<Rightarrow> sync_node_data \<Rightarrow> sync_node_data" where
  "decode_all ctx nodes names out = fold (decode_reached ctx nodes) names out"

lemma walk_forest:
  assumes IH: "\<And>u k b rest out r. u \<in> set ts \<Longrightarrow> stops (Suc d) rest \<Longrightarrow> 2 * length (flatten (Suc d) u) \<le> k \<Longrightarrow>
      wf_buf b \<Longrightarrow> length_hack b = h \<Longrightarrow> unread b = tree_bits h st ot nodes u @ r \<Longrightarrow>
      walk k ctx (flatten (Suc d) u @ rest) b out =
        (True, rest, advance (length (tree_bits h st ot nodes u)) b, decode_all ctx nodes (tree_reached st ot nodes u) out)"
    and d: "deep_ok d (SParent ids ts)" "stops d rest"
  shows "2 * length (concat (map (flatten (Suc d)) ts)) < k \<Longrightarrow> wf_buf b \<Longrightarrow> length_hack b = h \<Longrightarrow>
    unread b = concat (map (tree_bits h st ot nodes) ts) @ r \<Longrightarrow>
    walk_children k ctx (of_nat d) (concat (map (flatten (Suc d)) ts) @ rest) b out =
      (True, rest, advance (length (concat (map (tree_bits h st ot nodes) ts))) b,
       decode_all ctx nodes (concat (map (tree_reached st ot nodes) ts)) out)"
  using IH d(1)
proof (induction ts arbitrary: k b out)
  case Nil
  then obtain j where "k = Suc j" by (cases k) auto
  then show ?case using d Nil.prems
    by (cases rest) (auto simp: stops_def of_nat_depth_less advance_def decode_all_def)
next
  case (Cons u us)
  then obtain j where k: "k = Suc j" by (cases k) auto
  obtain n ns where n: "flatten (Suc d) u = n # ns" "fn_depth n = of_nat (Suc d)"
    using flatten_Cons by blast
  have deep: "d < 256" "deep_ok (Suc d) u" "\<forall>u\<in>set us. deep_ok (Suc d) u" "Suc d < 256"
    using Cons.prems(6) by (auto, cases u, auto)
  let ?tail = "concat (map (flatten (Suc d)) us) @ rest"
  let ?b1 = "advance (length (tree_bits h st ot nodes u)) b"
  let ?out1 = "decode_all ctx nodes (tree_reached st ot nodes u) out"
  have "walk j ctx (flatten (Suc d) u @ ?tail) b out = (True, ?tail, ?b1, ?out1)"
    using Cons.prems k n(1) by (intro Cons.prems(5) stops_forest deep d(2)) auto
  moreover have "walk_children j ctx (of_nat d) ?tail ?b1 ?out1 =
      (True, rest, advance (length (concat (map (tree_bits h st ot nodes) us))) ?b1,
       decode_all ctx nodes (concat (map (tree_reached st ot nodes) us)) ?out1)"
    using Cons.prems k n(1) by (intro Cons.IH) auto
  moreover have "of_nat d < fn_depth n"
    using deep n(2) of_nat_depth_less [of d n] by (simp add: depth_of_def unsigned_of_nat take_bit_nat_eq_self del: of_nat_Suc)
  ultimately show ?case using k n(1) by (simp add: decode_all_def)
qed

lemma walk_tree:
  assumes "nodes_ok h nodes" "wc_sync_type ctx = st" "wc_obj_type ctx = ot"
  shows "deep_ok d t \<Longrightarrow> stops d rest \<Longrightarrow> 2 * length (flatten d t) \<le> k \<Longrightarrow> wf_buf b \<Longrightarrow> length_hack b = h \<Longrightarrow>
    unread b = tree_bits h st ot nodes t @ r \<Longrightarrow>
    walk k ctx (flatten d t @ rest) b out =
      (True, rest, advance (length (tree_bits h st ot nodes t)) b, decode_all ctx nodes (tree_reached st ot nodes t) out)"
proof (induction t arbitrary: d rest k b out r)
  case (SLeaf ids name mx)
  then obtain j where k: "k = Suc j" by (cases k) auto
  let ?t = "SLeaf ids name mx"
  have "walk (Suc j) ctx (d_node (of_nat d) ids name mx # rest) b out =
      (True, rest, advance (length (gated st ot nodes ?t (leaf_bits h nodes name))) b,
       if gate_closed (node_ids ?t) st ot \<or> (asks_presence (node_ids ?t) st \<and> \<not> has_payload st ot nodes ?t)
       then out else decode_reached ctx nodes name out)"
    using SLeaf.prems assms
    by (intro walk_gated [where h = h and r = r]) (simp_all add: walk_leaf_law)
  then show ?case using k by (auto simp: decode_all_def)
next
  case (SParent ids ts)
  then obtain j where k: "k = Suc j" by (cases k) auto
  let ?t = "SParent ids ts"
  let ?sub = "concat (map (flatten (Suc d)) ts)" and ?bits = "concat (map (tree_bits h st ot nodes) ts)"
  let ?out = "decode_all ctx nodes (concat (map (tree_reached st ot nodes) ts)) out"
  have "walk_children j ctx (of_nat d) (?sub @ rest) b' out = (True, rest, advance (length ?bits) b', ?out)"
    if "wf_buf b'" "length_hack b' = h" "unread b' = ?bits @ r" for b'
    using that SParent k by (intro walk_forest [OF SParent.IH]) auto
  then have "walk (Suc j) ctx (p_node (of_nat d) ids # ?sub @ rest) b out =
      (True, rest, advance (length (gated st ot nodes ?t ?bits)) b,
       if gate_closed (node_ids ?t) st ot \<or> (asks_presence (node_ids ?t) st \<and> \<not> has_payload st ot nodes ?t)
       then out else ?out)"
    using SParent.prems assms skip_children [OF SParent.prems(1,2)]
    by (intro walk_gated [where h = h and r = r]) (simp_all del: deep_ok.simps)
  then show ?case using k by (auto simp: decode_all_def)
qed

section \<open>Whole records\<close>

definition sync_type_of :: "bool \<Rightarrow> u32" where
  "sync_type_of is_create = (if is_create then 1 else 2)"

definition obj_type_of :: "bool \<Rightarrow> u32" where
  "obj_type_of is_create = (if is_create then 0 else 1)"

abbreviation lead_bits :: "bool \<Rightarrow> bool list" where
  "lead_bits is_create \<equiv> (if is_create then [] else [True])"

lemma written_bytes:
  assumes "wf_buf b" "cur_bit b \<le> max_bit b"
  obtains pad where "bits_of_bytes (take (data_length b) (mb_data b)) = written b @ pad"
proof -
  define q r where "q = cur_bit b div 8" and "r = cur_bit b mod 8"
  have "cur_bit b = 8 * q + r" "r < 8" by (simp_all add: q_def r_def)
  moreover have "data_length b = q + (if r = 0 then 0 else 1)" by (simp add: data_length_def q_def r_def)
  ultimately have le: "cur_bit b \<le> 8 * data_length b" by simp
  have "take (cur_bit b) (bits_of_bytes (take (data_length b) (mb_data b))) = written b"
    using le by (simp add: take_bits_of_bytes [symmetric] written_def min_absorb1)
  then have "bits_of_bytes (take (data_length b) (mb_data b)) =
      written b @ drop (cur_bit b) (bits_of_bytes (take (data_length b) (mb_data b)))"
    by (metis append_take_drop_id)
  then show thesis by (rule that)
qed

definition tree_buf :: "bool \<Rightarrow> mbuf" where
  "tree_buf h = with_length_hack h (mb_new TREE_SCRATCH_BYTES)"

lemma tree_buf_simps [simp]:
  "full_buf h (tree_buf h)" "cur_bit (tree_buf h) = 0" "max_bit (tree_buf h) = 32768" "wf_buf (tree_buf h)"
  by (simp_all add: tree_buf_def full_buf_def wf_buf_def with_length_hack_def mb_new_def TREE_SCRATCH_BYTES_def)

lemma write_roots_single:
  assumes "ns \<noteq> []" "wrote b bits [] (write_node (2 * length ns) st ot nodes ns b)"
  shows "if fits (length bits) b then write_roots (length ns) st ot nodes ns b = (True, append_bits bits b)
    else \<not> fst (write_roots (length ns) st ot nodes ns b)"
proof -
  obtain k where k: "length ns = Suc k" using assms(1) by (cases ns) auto
  have finished: "write_roots k st ot nodes [] b' = (True, b')" for b' by (cases k) simp_all
  obtain ok rest b' where w: "write_node (2 * length ns) st ot nodes ns b = (ok, rest, b')" by (metis surj_pair)
  have eq: "write_roots (length ns) st ot nodes ns b = (if ok then write_roots k st ot nodes rest b' else (False, b'))"
    using assms(1) by (subst k) (simp add: w)
  show ?thesis using assms(2) [unfolded w wrote_def] unfolding eq by (auto simp: finished split: if_splits)
qed

lemma record_tree:
  obtains t where "tree_for ty = flatten 0 t" "deep_ok 0 t"
    "\<forall>st ot nodes. reached st ot nodes (tree_for ty) = tree_reached st ot nodes t"
proof -
  obtain ids ts where t: "tree_for ty = flatten 0 (SParent ids ts)" "deep_ok 0 (SParent ids ts)"
    using tree_exists [OF tables_preorder] by blast
  have "reached st ot nodes (tree_for ty) = tree_reached st ot nodes (SParent ids ts)" for st ot nodes
    using reached_tree [OF t(2), of "[]" st ot nodes] t(1) by (simp add: stops_def del: tree_reached.simps)
  then show thesis using that [OF t] by blast
qed

lemma write_record:
  fixes cr :: bool
  assumes "nodes_ok h nodes" "tree_for ty = flatten 0 t" "deep_ok 0 t"
  defines "bits \<equiv> lead_bits cr @ tree_bits h (sync_type_of cr) (obj_type_of cr) nodes t"
  shows "if length bits \<le> 32768
    then write_sync_tree ty cr h nodes =
      (let b = append_bits bits (tree_buf h) in Some (take (data_length b) (mb_data b)))
    else write_sync_tree ty cr h nodes = None"
proof -
  let ?st = "sync_type_of cr" and ?ot = "obj_type_of cr"
  let ?b = "append_bits (lead_bits cr) (tree_buf h)"
  have "full_buf h ?b" using full_buf_append [of h "tree_buf h" "lead_bits cr"] by (simp add: fits_def)
  then have "wrote ?b (tree_bits h ?st ?ot nodes t) [] (write_node (2 * length (tree_for ty)) ?st ?ot nodes (tree_for ty) ?b)"
    using write_tree [OF assms(1,3), of "[]" _ ?b ?st ?ot] assms(2) by (simp add: stops_def)
  moreover have "tree_for ty \<noteq> []" using assms(2) flatten_Cons [of 0 t] by auto
  ultimately have "if fits (length (tree_bits h ?st ?ot nodes t)) ?b
      then write_roots (length (tree_for ty)) ?st ?ot nodes (tree_for ty) ?b = (True, append_bits (tree_bits h ?st ?ot nodes t) ?b)
      else \<not> fst (write_roots (length (tree_for ty)) ?st ?ot nodes (tree_for ty) ?b)"
    by (intro write_roots_single)
  moreover have "snd (write_bit True (tree_buf h)) = append_bits [True] (tree_buf h)"
    using write_bit_law [of "tree_buf h" True] by (simp add: fits_def)
  ultimately show ?thesis
    unfolding write_sync_tree_def tree_buf_def [symmetric] bits_def
    by (cases cr) (auto simp: sync_type_of_def obj_type_of_def fits_def Let_def split: if_splits prod.splits bool.splits)
qed

lemma parse_record:
  assumes "nodes_ok h nodes" "tree_for ty = flatten 0 t" "deep_ok 0 t"
    and "bits_of_bytes data = lead_bits cr @ tree_bits h (sync_type_of cr) (obj_type_of cr) nodes t @ pad"
  shows "parse_sync_tree lm ty cr data h build =
    decode_all \<lparr>wc_libm = lm, wc_sync_type = sync_type_of cr, wc_obj_type = obj_type_of cr, wc_build = build\<rparr>
      nodes (tree_reached (sync_type_of cr) (obj_type_of cr) nodes t) sync_node_default"
proof -
  let ?ctx = "\<lparr>wc_libm = lm, wc_sync_type = sync_type_of cr, wc_obj_type = obj_type_of cr, wc_build = build\<rparr>"
  define buf where "buf = with_length_hack h (from_bytes data)"
  have b: "wf_buf buf" "length_hack buf = h" "unread buf = bits_of_bytes data"
    by (simp_all add: buf_def with_length_hack_def from_bytes_def wf_buf_def unread_def)
  let ?b1 = "advance (length (lead_bits cr)) buf"
  have "walk (2 * length (tree_for ty)) ?ctx (flatten 0 t @ []) ?b1 sync_node_default =
      (True, [], advance (length (tree_bits h (sync_type_of cr) (obj_type_of cr) nodes t)) ?b1,
       decode_all ?ctx nodes (tree_reached (sync_type_of cr) (obj_type_of cr) nodes t) sync_node_default)"
    using b assms(2,4) by (intro walk_tree [OF assms(1) _ _ assms(3), where r = pad]) (simp_all add: stops_def)
  moreover have "read_bit buf = (1, advance 1 buf)" if "\<not> cr"
  proof -
    have u: "unread buf = True # tree_bits h (sync_type_of cr) (obj_type_of cr) nodes t @ pad"
      using b(3) assms(4) that by simp
    then have "fits 1 buf" using fits_unread [OF b(1), of 1] by simp
    then show ?thesis using read_bit_law [OF b(1)] u by simp
  qed
  moreover have "advance 0 buf = buf" by (simp add: advance_def)
  ultimately show ?thesis
    unfolding parse_sync_tree_def buf_def [symmetric] using assms(2)
    by (cases cr) (simp_all add: sync_type_of_def obj_type_of_def Let_def)
qed

section \<open>Nested gates\<close>

text \<open>\<open>gate_le p c\<close>: whenever the gates of a node \<open>c\<close> are open, so are those of its ancestor
  \<open>p\<close>. The tables satisfy it along every path, checked entry by entry.\<close>

definition gate_le :: "u8 \<times> u8 \<times> u8 \<Rightarrow> u8 \<times> u8 \<times> u8 \<Rightarrow> bool" where
  "gate_le p c \<longleftrightarrow> (case (p, c) of ((p1, p2, p3), (c1, c2, c3)) \<Rightarrow>
     c1 AND NOT p1 = 0 \<and> (p3 = 0 \<or> p3 = c3))"

fun gates_nested :: "flat_node list \<Rightarrow> bool" where
  "gates_nested [] = True"
| "gates_nested (n # ns) =
     (list_all (\<lambda>m. gate_le (fn_ids n) (fn_ids m)) (takeWhile (\<lambda>m. depth_of n < depth_of m) ns) \<and>
      gates_nested ns)"

fun leaves_nested :: "sync_node \<Rightarrow> bool" where
  "leaves_nested (SLeaf ids name mx) \<longleftrightarrow> True"
| "leaves_nested (SParent ids ts) \<longleftrightarrow>
     (\<forall>leaf\<in>set (concat (map leaves ts)). gate_le ids (fst leaf)) \<and> (\<forall>t\<in>set ts. leaves_nested t)"

lemma gate_le_open:
  assumes "gate_le p c" "gate_closed p st ot"
  shows "gate_closed c st ot"
proof -
  obtain p1 p2 p3 c1 c2 c3 where pc: "p = (p1, p2, p3)" "c = (c1, c2, c3)" by (metis surj_pair)
  have "bit p1 i" if "bit c1 i" for i
  proof -
    have "\<not> bit (c1 AND NOT p1) i" using assms(1) by (simp add: gate_le_def pc)
    then show ?thesis using that bit_imp_le_length [OF that] by (simp add: bit_simps)
  qed
  then have "ucast c1 AND st = 0" if "ucast p1 AND st = 0"
    using that by (auto simp: bit_eq_iff bit_simps)
  then show ?thesis using assms by (auto simp: gate_le_def gate_closed_def pc)
qed

lemma leaves_flat: "(ids, name) \<in> set (leaves t) \<longleftrightarrow> (\<exists>n\<in>set (flatten d t). fn_ids n = ids \<and> (\<exists>mx. fn_kind n = NkData name mx))"
  by (induction d t rule: flatten.induct) auto

lemma takeWhile_children:
  assumes "deep_ok d (SParent ids ts)" "stops d rest"
  shows "takeWhile (\<lambda>m. d < depth_of m) (concat (map (flatten (Suc d)) ts) @ rest) = concat (map (flatten (Suc d)) ts)"
proof -
  have "takeWhile (\<lambda>m. d < depth_of m) rest = []" using assms(2) by (cases rest) (auto simp: stops_def)
  then show ?thesis using children_deeper [of ts d] assms(1) by (subst takeWhile_append2) auto
qed

lemma nested_tree:
  "deep_ok d t \<Longrightarrow> stops d rest \<Longrightarrow> gates_nested (flatten d t @ rest) \<Longrightarrow> leaves_nested t \<and> gates_nested rest"
proof (induction t arbitrary: d rest)
  case (SParent ids ts)
  have n: "depth_of (p_node (of_nat d) ids) = d" using SParent.prems(1) by simp
  let ?sub = "concat (map (flatten (Suc d)) ts)"
  have all: "list_all (\<lambda>m. gate_le ids (fn_ids m)) ?sub" "gates_nested (?sub @ rest)"
    using SParent.prems(3) takeWhile_children [OF SParent.prems(1,2)] by (simp_all add: n)
  have "(\<forall>t\<in>set us. leaves_nested t) \<and> gates_nested rest"
    if "set us \<subseteq> set ts" "gates_nested (concat (map (flatten (Suc d)) us) @ rest)" for us
    using that
  proof (induction us)
    case (Cons u us)
    have "stops (Suc d) (concat (map (flatten (Suc d)) us) @ rest)"
      using Cons.prems SParent.prems by (intro stops_forest) auto
    then have "leaves_nested u \<and> gates_nested (concat (map (flatten (Suc d)) us) @ rest)"
      using SParent.IH [of u "Suc d"] Cons.prems SParent.prems(1) by auto
    then show ?case using Cons by simp
  qed simp
  from this [OF subset_refl all(2)] have "(\<forall>t\<in>set ts. leaves_nested t) \<and> gates_nested rest" .
  moreover have "gate_le ids i" if "(i, name) \<in> set (concat (map leaves ts))" for i name
    using that all(1) leaves_flat [of i name _ "Suc d"] by (fastforce simp: list_all_iff)
  ultimately show ?case by (auto simp del: set_concat)
qed simp

lemma leaf_reached:
  "leaves_nested t \<Longrightarrow> (ids, name) \<in> set (leaves t) \<Longrightarrow> \<not> gate_closed ids st ot \<Longrightarrow> an_contains nodes name \<Longrightarrow>
    name \<in> set (tree_reached st ot nodes t)"
proof (induction t)
  case (SParent pids ts)
  then obtain u where u: "u \<in> set ts" "(ids, name) \<in> set (leaves u)" by auto
  have "gate_le pids ids" using SParent.prems(1) u by fastforce
  then have "\<not> gate_closed pids st ot" using gate_le_open SParent.prems(3) by blast
  moreover have "has_payload st ot nodes (SParent pids ts)"
    using u SParent.prems(3,4) by (auto simp: list_ex_iff)
  moreover have "name \<in> set (tree_reached st ot nodes u)"
    using SParent.IH [OF u(1)] SParent.prems u by simp
  ultimately show ?case using u by auto
qed auto

lemma tables_nested: "gates_nested (tree_for ty)"
  by (cases ty) (simp_all add: table_defs gate_le_def depth_of_def p_node_def d_node_def)

section \<open>Size of a record\<close>

definition leaf_cost :: "authored_nodes \<Rightarrow> string \<Rightarrow> nat" where
  "leaf_cost nodes name = 16 + (case an_payload nodes name of Some (_, bits) \<Rightarrow> bits | None \<Rightarrow> 0)"

lemma leaf_bits_length: "length (leaf_bits h nodes name) \<le> leaf_cost nodes name"
  by (auto simp: leaf_bits_def leaf_cost_def eff_width_def split: option.splits)

lemma tree_bits_length:
  "length (tree_bits h st ot nodes t) \<le>
    length (flatten d t) + sum_list (map (leaf_cost nodes) (tree_reached st ot nodes t))"
proof (induction t arbitrary: d)
  case (SLeaf ids name mx)
  then show ?case using leaf_bits_length [of h nodes name] by (auto simp: gated_def)
next
  case (SParent ids ts)
  have "length (concat (map (tree_bits h st ot nodes) us)) \<le> length (concat (map (flatten (Suc d)) us)) +
      sum_list (map (leaf_cost nodes) (concat (map (tree_reached st ot nodes) us)))" if "set us \<subseteq> set ts" for us
    using that
  proof (induction us)
    case (Cons u us)
    then show ?case using SParent.IH [of u "Suc d"] by simp
  qed simp
  from this [OF subset_refl] show ?case by (auto simp: gated_def)
qed

lemma write_succeeds:
  assumes "nodes_ok h nodes"
    and "1 + length (tree_for ty) +
      sum_list (map (leaf_cost nodes) (reached (sync_type_of cr) (obj_type_of cr) nodes (tree_for ty))) \<le> 32768"
  shows "\<exists>data. write_sync_tree ty cr h nodes = Some data"
proof -
  obtain t where t: "tree_for ty = flatten 0 t" "deep_ok 0 t"
    "\<forall>st ot nodes. reached st ot nodes (tree_for ty) = tree_reached st ot nodes t" by (rule record_tree [of ty])
  have "length (lead_bits cr @ tree_bits h (sync_type_of cr) (obj_type_of cr) nodes t) \<le> 32768"
    using assms(2) tree_bits_length [of h "sync_type_of cr" "obj_type_of cr" nodes t 0] t(1,3)
    by (cases cr) simp_all
  then show ?thesis using write_record [OF assms(1) t(1,2), of cr] by (simp add: Let_def)
qed

lemma data_length_le: "8 * data_length b \<le> 8 + cur_bit b"
proof -
  have "8 * (c div 8 + (if c mod 8 = 0 then 0 else 1)) \<le> 8 + (c::nat)" for c by presburger
  then show ?thesis by (simp only: data_length_def)
qed

lemma write_length:
  assumes "nodes_ok h nodes" "write_sync_tree ty cr h nodes = Some data"
  shows "8 * length data \<le> 8 + length (tree_for ty) + 1 +
      sum_list (map (leaf_cost nodes) (reached (sync_type_of cr) (obj_type_of cr) nodes (tree_for ty)))"
proof -
  obtain t where t: "tree_for ty = flatten 0 t" "deep_ok 0 t"
    "\<forall>st ot nodes. reached st ot nodes (tree_for ty) = tree_reached st ot nodes t" by (rule record_tree [of ty])
  let ?bits = "lead_bits cr @ tree_bits h (sync_type_of cr) (obj_type_of cr) nodes t"
  let ?b = "append_bits ?bits (tree_buf h)"
  have "data = take (data_length ?b) (mb_data ?b)"
    using write_record [OF assms(1) t(1,2), of cr] assms(2) by (auto simp: Let_def split: if_splits)
  then have "8 * length data \<le> 8 * data_length ?b" by simp
  also have "\<dots> \<le> 8 + cur_bit ?b" by (rule data_length_le)
  also have "\<dots> = 8 + length ?bits" by simp
  finally show ?thesis
    using tree_bits_length [of h "sync_type_of cr" "obj_type_of cr" nodes t 0] t(1,3) by (cases cr) simp_all
qed

lemma record_roundtrip:
  assumes "nodes_ok h nodes" "write_sync_tree ty cr h nodes = Some data"
  shows "parse_sync_tree lm ty cr data h build =
    decode_all \<lparr>wc_libm = lm, wc_sync_type = sync_type_of cr, wc_obj_type = obj_type_of cr, wc_build = build\<rparr>
      nodes (reached (sync_type_of cr) (obj_type_of cr) nodes (tree_for ty)) sync_node_default"
proof -
  obtain t where t: "tree_for ty = flatten 0 t" "deep_ok 0 t"
    "\<forall>st ot nodes. reached st ot nodes (tree_for ty) = tree_reached st ot nodes t" by (rule record_tree [of ty])
  let ?bits = "lead_bits cr @ tree_bits h (sync_type_of cr) (obj_type_of cr) nodes t"
  let ?b = "append_bits ?bits (tree_buf h)"
  have len: "length ?bits \<le> 32768" and data: "data = take (data_length ?b) (mb_data ?b)"
    using write_record [OF assms(1) t(1,2), of cr] assms(2) by (auto simp: Let_def split: if_splits)
  have w: "written ?b = ?bits"
    using len by (subst written_append) (simp_all add: fits_def written_def)
  obtain pad where "bits_of_bytes data = written ?b @ pad"
    using len unfolding data by (rule_tac written_bytes [of ?b]) simp_all
  then have "bits_of_bytes data =
      lead_bits cr @ tree_bits h (sync_type_of cr) (obj_type_of cr) nodes t @ pad"
    unfolding w by simp
  then show ?thesis unfolding t(3) [rule_format] by (rule parse_record [OF assms(1) t(1,2)])
qed

section \<open>Authored payloads\<close>

lemma run_writes_law:
  assumes "list_all2 (emits h) ws xss" "wf_buf b" "length_hack b = h" "fits (length (concat xss)) b"
  shows "run_writes ws b = append_bits (concat xss) b"
  using assms
proof (induction ws xss arbitrary: b rule: list_all2_induct)
  case (Cons w ws xs xss)
  have "w b = (True, append_bits xs b)"
    using Cons.prems Cons.hyps(1) by (intro emitsD) (auto simp: fits_def)
  moreover have "run_writes ws (append_bits xs b) = append_bits (concat xss) (append_bits xs b)"
    using Cons.prems by (intro Cons.IH) simp_all
  ultimately show ?case by (simp add: run_writes_def)
qed (simp add: run_writes_def)

definition scratch_payload :: "bool list \<Rightarrow> u8 list \<times> nat" where
  "scratch_payload xs = (mb_data (append_bits xs (mb_new NODE_SCRATCH_BYTES)), length xs)"

lemma an_set_law:
  assumes "list_all2 (emits False) ws xss" "length (concat xss) \<le> 8192"
  shows "an_set name ws nodes = nodes @ [(name, scratch_payload (concat xss))]"
proof -
  have "run_writes ws (mb_new NODE_SCRATCH_BYTES) = append_bits (concat xss) (mb_new NODE_SCRATCH_BYTES)"
    using assms by (intro run_writes_law [where h = False]) (simp_all add: mb_new_def wf_buf_def fits_def NODE_SCRATCH_BYTES_def)
  then show ?thesis by (simp add: an_set_def Let_def scratch_payload_def) (simp add: mb_new_def)
qed

lemma scratch_bits:
  assumes "length xs \<le> 8192"
  shows "length (fst (scratch_payload xs)) = 1024" "snd (scratch_payload xs) = length xs"
    "take (length xs) (bits_of_bytes (fst (scratch_payload xs))) = xs"
proof -
  show "length (fst (scratch_payload xs)) = 1024" "snd (scratch_payload xs) = length xs"
    by (simp_all add: scratch_payload_def mb_new_def NODE_SCRATCH_BYTES_def append_bits_def)
  have "written (append_bits xs (mb_new NODE_SCRATCH_BYTES)) = xs"
    using assms by (subst written_append) (simp_all add: written_def mb_new_def wf_buf_def fits_def NODE_SCRATCH_BYTES_def)
  then show "take (length xs) (bits_of_bytes (fst (scratch_payload xs))) = xs"
    by (simp add: written_def scratch_payload_def) (simp add: mb_new_def)
qed

lemma view_unread:
  assumes "an_payload nodes name = Some (scratch_payload xs)" "length xs \<le> 8192"
  shows "wf_buf (leaf_view nodes name)" "length_hack (leaf_view nodes name) = False" "unread (leaf_view nodes name) = xs"
proof -
  let ?d = "replicate ((length xs + 7) div 8) (0::u8)"
  have le: "length xs \<le> 8 * length ?d" by simp
  obtain bytes where p: "scratch_payload xs = (bytes, length xs)"
    using scratch_bits(2) [OF assms(2)] by (metis prod.collapse)
  have v: "leaf_view nodes name = from_bits (put_bools 0 xs ?d) (length xs)"
    using assms(1) scratch_bits(3) [OF assms(2)] by (simp add: leaf_view_def p)
  have "take (length xs) (bits_of_bytes (put_bools 0 xs ?d)) = xs"
    using le by (subst bits_put_bools) simp_all
  then show "wf_buf (leaf_view nodes name)" "length_hack (leaf_view nodes name) = False" "unread (leaf_view nodes name) = xs"
    using le unfolding v by (simp_all add: from_bits_def wf_buf_def unread_def min_def)
qed

section \<open>Properties\<close>

text \<open>C29. The sync tree writer and reader agree on every table. Whatever nodes are authored (each
  payload within its scratch buffer and the length prefix), in both id modes, for creates and
  syncs and for all fourteen entity types: if \<open>write_sync_tree\<close> returns a payload, then
  \<open>parse_sync_tree\<close> decodes from it exactly the leaves that the gates admit, in table order,
  each from a view that holds the authored bits and nothing else.\<close>

theorem sync_tree_roundtrip:
  assumes "nodes_ok h nodes" "write_sync_tree ty is_create h nodes = Some data"
  shows "parse_sync_tree lm ty is_create data h build =
    decode_all \<lparr>wc_libm = lm, wc_sync_type = (if is_create then 1 else 2),
        wc_obj_type = (if is_create then 0 else 1), wc_build = build\<rparr> nodes
      (reached (if is_create then 1 else 2) (if is_create then 0 else 1) nodes (tree_for ty)) sync_node_default"
  using record_roundtrip [OF assms] by (simp only: sync_type_of_def obj_type_of_def)

definition sample_nodes :: authored_nodes where
  "sample_nodes = [(''CPedAIDataNode'', [0xDE, 0xAD, 0xBE, 0xEF], 32)]"

lemma sample_reached:
  "reached 2 1 sample_nodes (tree_for Ped) = [''CPedAIDataNode'', ''CPedInventoryDataNode'']"
  by code_simp

theorem sync_tree_roundtrip_witness:
  "\<exists>data. write_sync_tree Ped False True sample_nodes = Some data \<and>
    (\<forall>lm build. relationship_group (parse_sync_tree lm Ped False data True build) = Some 0xDEADBEEF)"
proof -
  have ok: "nodes_ok True sample_nodes" by (simp add: nodes_ok_def sample_nodes_def eff_width_def)
  have r: "reached (sync_type_of False) (obj_type_of False) sample_nodes (tree_for Ped) =
      [''CPedAIDataNode'', ''CPedInventoryDataNode'']"
    by (simp only: sync_type_of_def obj_type_of_def if_False sample_reached)
  have "leaf_cost sample_nodes ''CPedAIDataNode'' + leaf_cost sample_nodes ''CPedInventoryDataNode'' \<le> 64"
    by (simp add: leaf_cost_def sample_nodes_def an_payload_def)
  moreover have "length (tree_for Ped) \<le> 100" by (simp add: PED_TREE_def)
  ultimately obtain data where d: "write_sync_tree Ped False True sample_nodes = Some data"
    using write_succeeds [OF ok, of Ped False] unfolding r by auto
  have view: "wf_buf (leaf_view sample_nodes ''CPedAIDataNode'')"
      "fst (read_bits_single 32 (leaf_view sample_nodes ''CPedAIDataNode'')) = Some 0xDEADBEEF"
    by code_simp+
  have "relationship_group (parse_sync_tree lm Ped False data True build) = Some 0xDEADBEEF" for lm build
    using sync_tree_roundtrip [OF ok d, of lm build] view(2) sample_reached
    by (simp add: decode_all_def decode_reached_def decodes_def decode_leaf_def)
  with d show ?thesis by blast
qed

text \<open>No authored node is lost. In every table, a node whose own gates are open for the record
  is among the leaves that the record carries as soon as it is authored: no ancestor's gate or
  presence bit can hide it.\<close>

theorem authored_node_reached:
  assumes "n \<in> set (tree_for ty)" "fn_kind n = NkData name mx"
    and "\<not> gate_closed (fn_ids n) st ot" "an_contains nodes name"
  shows "name \<in> set (reached st ot nodes (tree_for ty))"
proof -
  obtain t where t: "tree_for ty = flatten 0 t" "deep_ok 0 t"
    "\<forall>st ot nodes. reached st ot nodes (tree_for ty) = tree_reached st ot nodes t" by (rule record_tree [of ty])
  have "leaves_nested t" using nested_tree [OF t(2), of "[]"] tables_nested [of ty] t(1) by (simp add: stops_def)
  moreover have "(fn_ids n, name) \<in> set (leaves t)" using assms(1,2) t(1) leaves_flat by fastforce
  ultimately show ?thesis using leaf_reached assms(3,4) t(3) by simp
qed

theorem authored_node_reached_witness:
  "''CPedAIDataNode'' \<in> set (reached 2 1 sample_nodes (tree_for Ped))"
proof -
  have "d_node 2 (127, 127, 1) ''CPedAIDataNode'' 9 \<in> set (tree_for Ped)" by (simp add: PED_TREE_def)
  then show ?thesis
    by (rule authored_node_reached) (simp_all add: gate_closed_def an_contains_def sample_nodes_def)
qed

end
