(* ===== verification/Sync_Factories.thy ===== *)
theory Sync_Factories
  imports Sync_Roundtrip
begin

text \<open>The entity factories of \<open>rage/sync_write.rs\<close> (\<open>author_vehicle\<close>, \<open>author_ped\<close>,
  \<open>author_object\<close>) against the leaf decoders of \<open>rage/sync_parse.rs\<close>: what a client that parses
  a server-authored create record sees, field by field, and the merge of decoded records into the
  last known state of an entity.\<close>

section \<open>Authored nodes as bit lists\<close>

definition auth :: "(string \<times> bool list) list \<Rightarrow> authored_nodes" where
  "auth = map (\<lambda>(name, xs). (name, scratch_payload xs))"

lemma auth_Nil: "auth [] = []"
  by (simp add: auth_def)

lemma auth_set:
  assumes "list_all2 (emits False) ws xss" "length (concat xss) \<le> 8192"
  shows "an_set name ws (auth ps) = auth (ps @ [(name, concat xss)])"
  using an_set_law [OF assms] by (simp add: auth_def)

lemma auth_payload: "an_payload (auth ps) name = map_option scratch_payload (map_of ps name)"
  by (induction ps) (auto simp: auth_def an_payload_def, metis surj_pair)

lemma auth_ok:
  assumes "\<forall>(name, xs)\<in>set ps. length xs < 8192"
  shows "nodes_ok h (auth ps)"
proof -
  have "(2::nat) ^ 13 \<le> 2 ^ eff_width h 13" by (simp add: eff_width_def)
  then have "length xs < 2 ^ eff_width h 13" if "(name, xs) \<in> set ps" for name xs
    using that assms by fastforce
  moreover have "length (fst (scratch_payload xs)) = 1024 \<and> snd (scratch_payload xs) = length xs"
    if "(name, xs) \<in> set ps" for name xs
    using that assms scratch_bits(1,2) [of xs] by fastforce
  ultimately show ?thesis using assms by (fastforce simp: nodes_ok_def auth_def)
qed

lemma auth_view:
  assumes "map_of ps name = Some xs" "length xs \<le> 8192"
  shows "wf_buf (leaf_view (auth ps) name)" "\<not> length_hack (leaf_view (auth ps) name)"
    "unread (leaf_view (auth ps) name) = xs"
  using view_unread [of "auth ps" name xs] assms by (simp_all add: auth_payload)

lemma reached_cong:
  assumes "\<And>name. an_contains nodes name \<longleftrightarrow> an_contains nodes' name"
  shows "reached st ot nodes ns = reached st ot nodes' ns"
proof -
  have s: "subtree_has_payload d st ot nodes ms = subtree_has_payload d st ot nodes' ms" for d ms
    by (induction ms) (auto simp: assms split: node_kind.splits)
  show ?thesis
  proof (induction ns rule: length_induct)
    case (1 ns)
    then show ?case
      using skip_subtree_length by (cases ns) (auto simp: node_present_def s assms less_Suc_eq_le split: node_kind.splits)
  qed
qed

lemma an_contains_fst: "an_contains nodes name \<longleftrightarrow> name \<in> fst ` set nodes"
  by (force simp: an_contains_def list_ex_iff)

lemma auth_reached: "reached st ot (auth ps) ns = reached st ot (map (\<lambda>name. (name, [], 0)) (map fst ps)) ns"
  by (rule reached_cong) (simp add: an_contains_fst auth_def image_image case_prod_beta)

section \<open>Fields on a leaf view\<close>

lemma field_at:
  "wf_buf b \<Longrightarrow> \<not> length_hack b \<Longrightarrow> 0 < n \<Longrightarrow> unread b = bits_be n v @ r \<Longrightarrow>
    read_bits_single n b = (Some (take_bit n v), advance n b)"
  using parsesD [OF parses_uint [of n False v], of b r] by simp

lemma bit_at: "wf_buf b \<Longrightarrow> unread b = x # r \<Longrightarrow> read_bit b = (of_bool x, advance 1 b)"
  using fits_prefix [of b "[x]" r] by (simp add: read_bit_law)

definition float_code :: "nat \<Rightarrow> fl \<Rightarrow> fl \<Rightarrow> u32" where
  "float_code n divisor v = fl_to_i32 (fl_mul F32 (fl_div F32 v divisor) (quant_max n))"

definition float_wire :: "nat \<Rightarrow> fl \<Rightarrow> fl \<Rightarrow> fl" where
  "float_wire n divisor v =
     fl_mul F32 (fl_div F32 (fl_of_int F32 (sint (take_bit n (float_code n divisor v)))) (quant_max n)) divisor"

lemma emits_field [simp]:
  "emits False (write_bits_single v n) (bits_be n v)"
  "emits False (write_bit x) [x]"
  "emits False (write_float n d y) (bits_be n (float_code n d y))"
  using emits_uint [of False] bit_codec.emits_put [of False x]
  by (simp_all add: write_float_def float_code_def)

lemma parses_float:
  "0 < n \<Longrightarrow> n \<le> 32 \<Longrightarrow> parses False (read_float n d) (bits_be n (float_code n d v)) (float_wire n d v)"
  using parses_try_read [OF parses_uint [of n False "float_code n d v"], of _ "[]" "float_wire n d v"]
  by (simp add: read_float_def float_wire_def parses_ret)

section \<open>Positions and headings on the wire\<close>

definition sector_bits :: "u32 \<times> u32 \<times> u32 \<Rightarrow> bool list" where
  "sector_bits s = (case s of (sx, sy, sz) \<Rightarrow> bits_be 10 sx @ bits_be 10 sy @ bits_be 6 sz)"

definition sector_wire :: "u32 \<times> u32 \<times> u32 \<Rightarrow> u32 \<times> u32 \<times> u32" where
  "sector_wire s = (case s of (sx, sy, sz) \<Rightarrow> (take_bit 10 sx, take_bit 10 sy, take_bit 6 sz))"

definition offset_bits :: "nat \<Rightarrow> fl \<times> fl \<times> fl \<Rightarrow> bool list" where
  "offset_bits n p = (case p of (x, y, z) \<Rightarrow>
     bits_be n (float_code n SECTOR_SIZE_XY x) @ bits_be n (float_code n SECTOR_SIZE_XY y) @
     bits_be n (float_code n SECTOR_SIZE_Z z))"

definition offset_wire :: "nat \<Rightarrow> fl \<times> fl \<times> fl \<Rightarrow> fl \<times> fl \<times> fl" where
  "offset_wire n p = (case p of (x, y, z) \<Rightarrow>
     (float_wire n SECTOR_SIZE_XY x, float_wire n SECTOR_SIZE_XY y, float_wire n SECTOR_SIZE_Z z))"

definition quat_code :: "libm \<Rightarrow> fl \<Rightarrow> compressed_quaternion" where
  "quat_code lm hdg = quat_compress (from_heading_degrees lm hdg) QUAT_BITS"

definition quat_bits :: "libm \<Rightarrow> fl \<Rightarrow> bool list" where
  "quat_bits lm hdg = (let c = quat_code lm hdg in
     bits_be 2 (cq_largest c) @ bits_be QUAT_BITS (cq_a c) @ bits_be QUAT_BITS (cq_b c) @ bits_be QUAT_BITS (cq_c c))"

definition heading_wire :: "libm \<Rightarrow> fl \<Rightarrow> fl" where
  "heading_wire lm hdg = (let c = quat_code lm hdg in
     to_heading_degrees lm (quat_decompress
       \<lparr>cq_largest = take_bit 2 (cq_largest c), cq_a = take_bit QUAT_BITS (cq_a c),
        cq_b = take_bit QUAT_BITS (cq_b c), cq_c = take_bit QUAT_BITS (cq_c c)\<rparr> QUAT_BITS))"

lemma wire_lengths [simp]:
  "length (sector_bits s) = 26" "length (offset_bits n p) = 3 * n" "length (quat_bits lm hdg) = 35"
  by (simp_all add: sector_bits_def offset_bits_def quat_bits_def QUAT_BITS_def Let_def split: prod.splits)

lemma parses_offset:
  assumes "0 < n" "n \<le> 32"
  shows "parses False (read_sector_offset n) (offset_bits n p) (offset_wire n p)"
proof (cases p)
  case (fields x y z)
  have "parses False (try_read (read_float n SECTOR_SIZE_XY) (\<lambda>x. try_read (read_float n SECTOR_SIZE_XY)
      (\<lambda>y. try_read (read_float n SECTOR_SIZE_Z) (\<lambda>z. ret (x, y, z)))))
    (bits_be n (float_code n SECTOR_SIZE_XY x) @ bits_be n (float_code n SECTOR_SIZE_XY y) @
      bits_be n (float_code n SECTOR_SIZE_Z z) @ [])
    (float_wire n SECTOR_SIZE_XY x, float_wire n SECTOR_SIZE_XY y, float_wire n SECTOR_SIZE_Z z)"
    using assms by (intro parses_try_read [OF parses_float] parses_ret refl)
  then show ?thesis using fields by (simp add: read_sector_offset_def offset_bits_def offset_wire_def)
qed

lemma parses_quat: "parses False (read_quaternion_heading lm) (quat_bits lm hdg) (heading_wire lm hdg)"
proof -
  have f: "parses False (read_bits_single n) (bits_be n v) (take_bit n v)" if "0 < n" for n v
    using parses_uint [OF that, of False] by simp
  show ?thesis
    unfolding read_quaternion_heading_def quat_bits_def heading_wire_def Let_def
    by (intro parses_try_read [OF f] parses_try_read [OF f, where ys = "[]", simplified] parses_ret)
      (simp_all add: QUAT_BITS_def)
qed

lemma sector_at:
  assumes "wf_buf b" "\<not> length_hack b" "unread b = sector_bits s"
  shows "decode_sector b out = out\<lparr>sector := Some (sector_wire s)\<rparr>"
proof -
  obtain sx sy sz where s: "s = (sx, sy, sz)" by (cases s)
  have "read_bits_single 10 b = (Some (take_bit 10 sx), advance 10 b)"
    using assms s by (intro field_at [where r = "bits_be 10 sy @ bits_be 6 sz"]) (simp_all add: sector_bits_def)
  moreover have "read_bits_single 10 (advance 10 b) = (Some (take_bit 10 sy), advance 20 b)"
    using assms s field_at [where b = "advance 10 b" and n = 10 and v = sy and r = "bits_be 6 sz"]
    by (simp add: sector_bits_def)
  moreover have "read_bits_single 6 (advance 20 b) = (Some (take_bit 6 sz), advance 26 b)"
    using assms s field_at [where b = "advance 20 b" and n = 6 and v = sz and r = "[]"]
    by (simp add: sector_bits_def)
  ultimately show ?thesis by (simp add: decode_sector_def read3_def then_read_def s sector_wire_def)
qed

section \<open>What the factories author\<close>

lemma author_position_auth:
  assumes "sector_of pos = (s, p)"
  shows "author_position pos OnSector (auth ps) =
      auth (ps @ [(''CSectorDataNode'', sector_bits s), (''CSectorPositionDataNode'', offset_bits 12 p)])"
    "author_position pos OnObject (auth ps) =
      auth (ps @ [(''CSectorDataNode'', sector_bits s), (''CObjectSectorPosNode'', True # offset_bits 20 p)])"
    "author_position pos OnPedMap (auth ps) =
      auth (ps @ [(''CSectorDataNode'', sector_bits s), (''CPedSectorPosMapNode'', offset_bits 12 p @ [False])])"
proof -
  obtain sx sy sz x y z where sp: "s = (sx, sy, sz)" "p = (x, y, z)" by (metis surj_pair)
  let ?o = "\<lambda>n. [bits_be n (float_code n SECTOR_SIZE_XY x), bits_be n (float_code n SECTOR_SIZE_XY y),
    bits_be n (float_code n SECTOR_SIZE_Z z)]"
  have s: "an_set ''CSectorDataNode'' [write_bits_single sx 10, write_bits_single sy 10, write_bits_single sz 6] (auth ps) =
      auth (ps @ [(''CSectorDataNode'', sector_bits s)])"
    by (subst auth_set [where xss = "[bits_be 10 sx, bits_be 10 sy, bits_be 6 sz]"]) (simp_all add: sp sector_bits_def)
  have o: "list_all2 (emits False) (write_offset p n) (?o n)" for n
    by (simp add: sp write_offset_def SECTOR_SIZE_XY_def SECTOR_SIZE_Z_def)
  have c: "concat (?o n) = offset_bits n p" for n by (simp add: sp offset_bits_def)
  show "author_position pos OnSector (auth ps) =
      auth (ps @ [(''CSectorDataNode'', sector_bits s), (''CSectorPositionDataNode'', offset_bits 12 p)])"
    using auth_set [OF o [of 12]] c [of 12]
    by (simp add: author_position_def assms sp(1) s [unfolded sp(1)])
  show "author_position pos OnObject (auth ps) =
      auth (ps @ [(''CSectorDataNode'', sector_bits s), (''CObjectSectorPosNode'', True # offset_bits 20 p)])"
    using auth_set [of "write_bit True # write_offset p 20" "[True] # ?o 20"] o [of 20] c [of 20]
    by (simp add: author_position_def assms sp(1) s [unfolded sp(1)])
  show "author_position pos OnPedMap (auth ps) =
      auth (ps @ [(''CSectorDataNode'', sector_bits s), (''CPedSectorPosMapNode'', offset_bits 12 p @ [False])])"
    using auth_set [of "write_offset p 12 @ [write_bit False]" "?o 12 @ [[False]]"]
      list_all2_appendI [OF o [of 12], of "[write_bit False]" "[[False]]"] c [of 12, symmetric]
    by (simp add: author_position_def assms sp(1) s [unfolded sp(1)])
qed

lemma write_quaternion_auth:
  "an_set name (pre @ write_quaternion lm hdg) (auth ps) = auth (ps @ [(name, concat xss @ quat_bits lm hdg)])"
  if "list_all2 (emits False) pre xss" "length (concat xss) \<le> 8"
proof -
  let ?c = "quat_code lm hdg"
  let ?q = "[bits_be 2 (cq_largest ?c), bits_be QUAT_BITS (cq_a ?c), bits_be QUAT_BITS (cq_b ?c), bits_be QUAT_BITS (cq_c ?c)]"
  have "list_all2 (emits False) (pre @ write_quaternion lm hdg) (xss @ ?q)"
    using that(1) by (intro list_all2_appendI) (simp_all add: write_quaternion_def Let_def quat_code_def)
  moreover have "concat ?q = quat_bits lm hdg" by (simp add: quat_bits_def Let_def)
  ultimately show ?thesis
    using auth_set [of "pre @ write_quaternion lm hdg" "xss @ ?q" name ps] that(2)
    by (simp add: QUAT_BITS_def)
qed

definition vehicle_creation_bits :: "u32 \<Rightarrow> u32 \<Rightarrow> bool list" where
  "vehicle_creation_bits mdl token =
     bits_be 32 mdl @ bits_be 4 POPTYPE_MISSION @ bits_be 16 (0::u32) @ [False] @ bits_be 19 (1000::u32) @
     bits_be 3 (2::u32) @ bits_be 32 token @ [False, False, False]"

lemma author_vehicle_auth:
  assumes "sector_of pos = (s, p)"
  shows "author_vehicle lm mdl pos hdg token = auth
    [(''CVehicleCreationDataNode'', vehicle_creation_bits mdl token), (''CAutomobileCreationDataNode'', [True]),
     (''CSectorDataNode'', sector_bits s), (''CSectorPositionDataNode'', offset_bits 12 p),
     (''CEntityOrientationDataNode'', quat_bits lm hdg)]"
proof -
  have "an_set ''CVehicleCreationDataNode''
       [write_bits_single mdl 32, write_bits_single POPTYPE_MISSION 4, write_bits_single 0 16,
        write_bit False, write_bits_single 1000 19, write_bits_single 2 3,
        write_bits_single token 32, write_bit False, write_bit False, write_bit False] (auth []) =
      auth [(''CVehicleCreationDataNode'', vehicle_creation_bits mdl token)]"
    by (subst auth_set [where xss = "[bits_be 32 mdl, bits_be 4 POPTYPE_MISSION, bits_be 16 0, [False],
          bits_be 19 1000, bits_be 3 2, bits_be 32 token, [False], [False], [False]]"])
      (simp_all add: vehicle_creation_bits_def)
  moreover have "an_set ''CAutomobileCreationDataNode'' [write_bit True] (auth ps) =
      auth (ps @ [(''CAutomobileCreationDataNode'', [True])])" for ps
    by (subst auth_set [where xss = "[[True]]"]) simp_all
  ultimately show ?thesis
    using write_quaternion_auth [of "[]" "[]" "''CEntityOrientationDataNode''" lm hdg]
    by (simp add: author_vehicle_def author_position_auth [OF assms] auth_Nil)
qed

definition ped_creation_bits :: "u32 \<Rightarrow> bool list" where
  "ped_creation_bits mdl =
     [False, False] @ bits_be 4 POPTYPE_MISSION @ bits_be 32 mdl @ bits_be 16 (0::u32) @ [False] @
     bits_be 32 NO_VOICE @ [False, True, False] @ bits_be 13 (200::u32) @ [False]"

definition object_creation_bits :: "u32 \<Rightarrow> bool \<Rightarrow> bool list" where
  "object_creation_bits mdl dynamic =
     bits_be 5 ENTITY_OWNEDBY_SCRIPT @ bits_be 32 mdl @ dynamic # replicate 5 False"

lemma author_object_auth:
  assumes "sector_of pos = (s, p)"
  shows "author_object lm mdl pos hdg dynamic = auth
    [(''CObjectCreationDataNode'', object_creation_bits mdl dynamic),
     (''CSectorDataNode'', sector_bits s), (''CObjectSectorPosNode'', True # offset_bits 20 p),
     (''CObjectOrientationDataNode'', False # quat_bits lm hdg)]"
proof -
  have "an_set ''CObjectCreationDataNode''
       ([write_bits_single ENTITY_OWNEDBY_SCRIPT 5, write_bits_single mdl 32, write_bit dynamic] @
        replicate 5 (write_bit False)) (auth []) =
      auth [(''CObjectCreationDataNode'', object_creation_bits mdl dynamic)]"
    by (subst auth_set [where xss = "[bits_be 5 ENTITY_OWNEDBY_SCRIPT, bits_be 32 mdl, [dynamic]] @ replicate 5 [False]"])
      (simp_all add: object_creation_bits_def numeral_eq_Suc)
  then show ?thesis
    using write_quaternion_auth [of "[write_bit False]" "[[False]]" "''CObjectOrientationDataNode''" lm hdg]
    by (simp add: author_object_def author_position_auth [OF assms] auth_Nil)
qed

text \<open>What a signed quantised field carries: the sign bit and the magnitude cut to the field.\<close>

definition signed_float_wire :: "nat \<Rightarrow> fl \<Rightarrow> fl \<Rightarrow> fl" where
  "signed_float_wire n divisor v =
     (let code = float_code (n - 1) divisor v;
          sign = (if sint code < 0 then 1 else 0);
          magnitude = take_bit (n - 1) (code XOR (if sint code < 0 then - 1 else 0))
      in fl_mul F32 (fl_div F32 (fl_of_int F32 (sint (sign + (magnitude XOR - sign)))) (quant_max (n - 1))) divisor)"

definition signed_float_bits :: "nat \<Rightarrow> fl \<Rightarrow> fl \<Rightarrow> bool list" where
  "signed_float_bits n divisor v =
     (let code = float_code (n - 1) divisor v
      in bits_be 1 (if sint code < 0 then 1 else 0 :: u32) @
         bits_be (n - 1) (code XOR (if sint code < 0 then - 1 else 0)))"

lemma signed_float_bits_length [simp]: "0 < n \<Longrightarrow> length (signed_float_bits n d v) = n"
  by (simp add: signed_float_bits_def Let_def)

lemma emits_signed_float: "emits False (write_signed_float n d v) (signed_float_bits n d v)"
proof -
  have "write_signed_float n d v = (let code = float_code (n - 1) d v in
      and_write (write_bits_single (if sint code < 0 then 1 else 0) 1)
        (write_bits_single (code XOR (if sint code < 0 then - 1 else 0)) (n - 1)))"
    by (rule ext) (simp only: write_signed_float_def write_signed_def float_code_def and_write_def Let_def)
  then show ?thesis
    unfolding signed_float_bits_def Let_def by (simp only:) (intro emits_and_write emits_field)
qed

lemma parses_signed_float:
  assumes "1 < n" "n \<le> 32"
  shows "parses False (read_signed_float n d) (signed_float_bits n d v) (signed_float_wire n d v)"
proof -
  let ?code = "float_code (n - 1) d v"
  let ?s = "if sint ?code < 0 then 1 else 0 :: u32"
  let ?m = "?code XOR (if sint ?code < 0 then - 1 else 0)"
  have f: "parses False (read_bits_single k) (bits_be k w) (take_bit k w)" if "0 < k" for k w
    using parses_uint [OF that, of False] by simp
  have s: "parses False (read_bits_single 1) (bits_be 1 ?s) ?s"
    using f [of 1 ?s] by (simp add: take_bit_word_fits split: if_splits)
  have "parses False (read_signed n) (bits_be 1 ?s @ bits_be (n - 1) ?m @ []) (?s + (take_bit (n - 1) ?m XOR - ?s))"
    if "read_signed n = try_read (read_bits_single 1) (\<lambda>sign. try_read (read_bits_single (n - 1))
        (\<lambda>d. ret (sign + (d XOR - sign))))"
    unfolding that by (intro parses_try_read [OF s] parses_try_read [OF f] parses_ret refl) (use assms in simp)
  then have "parses False (read_signed n) (bits_be 1 ?s @ bits_be (n - 1) ?m @ []) (?s + (take_bit (n - 1) ?m XOR - ?s))"
    using assms by (simp only: read_signed_alt) simp
  then show ?thesis
    unfolding read_signed_float_def signed_float_bits_def signed_float_wire_def Let_def append_Nil2
    by (rule parses_try_read [OF _ parses_ret [OF refl], unfolded append_Nil2])
qed

lemma author_ped_auth:
  assumes "sector_of pos = (s, p)"
  shows "author_ped mdl pos hdg = auth
    [(''CPedCreationDataNode'', ped_creation_bits mdl),
     (''CSectorDataNode'', sector_bits s), (''CPedSectorPosMapNode'', offset_bits 12 p @ [False]),
     (''CPedOrientationDataNode'', signed_float_bits 8 TAU_RADIANS (to_radians hdg) @
        signed_float_bits 8 TAU_RADIANS (to_radians hdg))]"
proof -
  have "an_set ''CPedCreationDataNode''
        [write_bit False, write_bit False, write_bits_single POPTYPE_MISSION 4,
         write_bits_single mdl 32, write_bits_single 0 16, write_bit False,
         write_bits_single NO_VOICE 32, write_bit False, write_bit True, write_bit False,
         write_bits_single 200 13, write_bit False] (auth []) =
      auth [(''CPedCreationDataNode'', ped_creation_bits mdl)]"
    by (subst auth_set [where xss = "[[False], [False], bits_be 4 POPTYPE_MISSION, bits_be 32 mdl, bits_be 16 0,
          [False], bits_be 32 NO_VOICE, [False], [True], [False], bits_be 13 200, [False]]"])
      (simp_all add: ped_creation_bits_def)
  moreover have "an_set ''CPedOrientationDataNode''
        [write_signed_float 8 TAU_RADIANS r, write_signed_float 8 TAU_RADIANS r] (auth ps) =
      auth (ps @ [(''CPedOrientationDataNode'', signed_float_bits 8 TAU_RADIANS r @ signed_float_bits 8 TAU_RADIANS r)])" for r ps
    by (subst auth_set [where xss = "[signed_float_bits 8 TAU_RADIANS r, signed_float_bits 8 TAU_RADIANS r]"])
      (simp_all add: emits_signed_float)
  ultimately show ?thesis
    by (simp add: author_ped_def Let_def author_position_auth [OF assms] auth_Nil)
qed

section \<open>Decoding the authored leaves\<close>

lemma vehicle_creation_at:
  assumes "wf_buf b" "\<not> length_hack b" "unread b = vehicle_creation_bits mdl token"
  shows "decode_vehicle_creation b out = out\<lparr>model := Some mdl, population_type := Some 7\<rparr>"
proof -
  have "read_bits_single 32 b = (Some mdl, advance 32 b)"
    using assms field_at [where b = b and n = 32 and v = mdl] by (simp add: vehicle_creation_bits_def)
  moreover have "read_bits_single 4 (advance 32 b) = (Some 7, advance 36 b)"
    using assms field_at [where b = "advance 32 b" and n = 4 and v = POPTYPE_MISSION]
    by (simp add: vehicle_creation_bits_def POPTYPE_MISSION_def)
  ultimately show ?thesis by (simp add: decode_vehicle_creation_def then_read_def)
qed

lemma ped_creation_at:
  assumes "wf_buf b" "\<not> length_hack b" "unread b = ped_creation_bits mdl"
  shows "decode_ped_creation b out = out\<lparr>population_type := Some 7, model := Some mdl\<rparr>"
proof -
  have "read_bit b = (0, advance 1 b)" "read_bit (advance 1 b) = (0, advance 2 b)"
    using assms bit_at [of b False] bit_at [of "advance 1 b" False] by (simp_all add: ped_creation_bits_def)
  moreover have "read_bits_single 4 (advance 2 b) = (Some 7, advance 6 b)"
    using assms field_at [where b = "advance 2 b" and n = 4 and v = POPTYPE_MISSION]
    by (simp add: ped_creation_bits_def POPTYPE_MISSION_def)
  moreover have "read_bits_single 32 (advance 6 b) = (Some mdl, advance 38 b)"
    using assms field_at [where b = "advance 6 b" and n = 32 and v = mdl] by (simp add: ped_creation_bits_def)
  moreover have "read_bits_single 16 (advance 38 b) = (Some 0, advance 54 b)"
    using assms field_at [where b = "advance 38 b" and n = 16 and v = 0] by (simp add: ped_creation_bits_def)
  moreover have "read_bit (advance 54 b) = (0, advance 55 b)"
    using assms bit_at [of "advance 54 b" False] by (simp add: ped_creation_bits_def)
  moreover obtain r where "read_bits_single 32 (advance 55 b) = r" by blast
  ultimately show ?thesis by (cases r) (simp add: decode_ped_creation_def then_read_def Let_def)
qed

lemma parsed_prefix:
  assumes "parses False m xs v" "wf_buf b" "\<not> length_hack b" "unread b = xs @ r"
  shows "m b = (Some v, advance (length xs) b)"
  using parsesD [OF assms(1,2) _ assms(4)] assms(3) by simp

lemma object_position_at:
  assumes "wf_buf b" "\<not> length_hack b" "unread b = True # offset_bits 20 p"
  shows "decode_object_sector_pos b out = out\<lparr>sector_position := Some (offset_wire 20 p)\<rparr>"
  using bit_at [OF assms(1,3)] parsed_prefix [OF parses_offset, of 20 "advance 1 b" p "[]"] assms
  by (simp add: decode_object_sector_pos_def then_read_def)

lemma object_orientation_at:
  assumes "wf_buf b" "\<not> length_hack b" "unread b = False # quat_bits lm hdg"
  shows "decode_object_orientation lm b out = out\<lparr>heading := Some (heading_wire lm hdg)\<rparr>"
  using bit_at [OF assms(1,3)] parsed_prefix [OF parses_quat, of "advance 1 b" lm hdg "[]"] assms
  by (simp add: decode_object_orientation_def then_read_def)

definition ped_heading_wire :: "fl \<Rightarrow> fl" where
  "ped_heading_wire hdg = normalise_degrees (to_degrees (signed_float_wire 8 TAU_RADIANS (to_radians hdg)))"

lemma ped_orientation_at:
  assumes "wf_buf b" "\<not> length_hack b"
    "unread b = signed_float_bits 8 TAU_RADIANS (to_radians hdg) @ signed_float_bits 8 TAU_RADIANS (to_radians hdg)"
  shows "decode_ped_orientation b out =
    out\<lparr>heading := Some (ped_heading_wire hdg), desired_heading := Some (ped_heading_wire hdg)\<rparr>"
  using parsed_prefix [OF parses_signed_float, of 8 b TAU_RADIANS "to_radians hdg"]
    parsed_prefix [OF parses_signed_float, of 8 "advance 8 b" TAU_RADIANS "to_radians hdg" "[]"] assms
  by (simp add: decode_ped_orientation_def then_read_def ped_heading_wire_def)

lemma auth_leaf_cost:
  assumes "\<forall>(name, xs)\<in>set ps. length xs \<le> 150"
  shows "leaf_cost (auth ps) name \<le> 166"
proof (cases "map_of ps name")
  case (Some xs)
  then have "length xs \<le> 150" using assms map_of_SomeD by fastforce
  then show ?thesis using Some scratch_bits(2) [of xs] by (simp add: leaf_cost_def auth_payload case_prod_beta)
qed (simp add: leaf_cost_def auth_payload)

lemma auth_cost:
  assumes "\<forall>(name, xs)\<in>set ps. length xs \<le> 150"
  shows "sum_list (map (leaf_cost (auth ps)) names) \<le> 166 * length names"
  using auth_leaf_cost [OF assms] by (induction names) (simp_all add: add_mono)

lemma tables_short: "length (tree_for ty) \<le> 100"
  by (cases ty) (simp_all add: table_defs)

lemma auth_record:
  assumes "\<forall>(name, xs)\<in>set ps. length xs \<le> 150" "length ps \<le> 10"
    and "reached 1 0 (map (\<lambda>name. (name, [], 0)) (map fst ps)) (tree_for ty) = names" "length names \<le> 10"
  shows "\<exists>data. write_sync_tree ty True h (auth ps) = Some data \<and> length data < 4000 \<and>
    (\<forall>lm build. parse_sync_tree lm ty True data h build =
      decode_all \<lparr>wc_libm = lm, wc_sync_type = 1, wc_obj_type = 0, wc_build = build\<rparr> (auth ps) names sync_node_default)"
proof -
  have ok: "nodes_ok h (auth ps)" using assms(1) by (intro auth_ok) fastforce
  have r: "reached (sync_type_of True) (obj_type_of True) (auth ps) (tree_for ty) = names"
    using assms(3) by (simp add: auth_reached sync_type_of_def obj_type_of_def)
  have "sum_list (map (leaf_cost (auth ps)) names) \<le> 166 * length names" by (rule auth_cost [OF assms(1)])
  moreover note tables_short [of ty]
  ultimately have small: "1 + length (tree_for ty) +
      sum_list (map (leaf_cost (auth ps)) (reached (sync_type_of True) (obj_type_of True) (auth ps) (tree_for ty))) \<le> 2000"
    using r assms(4) by simp
  then obtain data where d: "write_sync_tree ty True h (auth ps) = Some data"
    using write_succeeds [OF ok, of ty True] by auto
  with small have "length data < 4000" using write_length [OF ok, of ty True data] by simp
  then show ?thesis using d record_roundtrip [OF ok] r by (auto simp: sync_type_of_def obj_type_of_def)
qed

lemma reached_length: "length (reached st ot nodes ns) \<le> length ns"
proof (induction ns rule: length_induct)
  case (1 ns)
  then show ?case
  proof (cases ns)
    case (Cons n ms)
    have "length (reached st ot nodes ms) \<le> length ms" using 1 Cons by simp
    moreover have "length (reached st ot nodes (skip_subtree (fn_depth n) ms)) \<le> length (skip_subtree (fn_depth n) ms)"
      using 1 skip_subtree_length [of "fn_depth n" ms] Cons by simp
    ultimately show ?thesis using Cons skip_subtree_length [of "fn_depth n" ms] by (auto split: node_kind.splits)
  qed simp
qed

text \<open>Nodes of at most 150 bits can be authored for every entity type.\<close>

lemma auth_writable:
  assumes "\<forall>(name, xs)\<in>set ps. length xs \<le> 150"
  shows "\<exists>data. write_sync_tree ty True h (auth ps) = Some data \<and> length data < 4000"
proof -
  have ok: "nodes_ok h (auth ps)" using assms by (intro auth_ok) fastforce
  let ?r = "reached (sync_type_of True) (obj_type_of True) (auth ps) (tree_for ty)"
  have "sum_list (map (leaf_cost (auth ps)) ?r) \<le> 166 * length ?r" by (rule auth_cost [OF assms])
  moreover have "length ?r \<le> 100" using reached_length tables_short le_trans by blast
  ultimately have small: "1 + length (tree_for ty) + sum_list (map (leaf_cost (auth ps)) ?r) \<le> 17000"
    using tables_short [of ty] by linarith
  then obtain data where d: "write_sync_tree ty True h (auth ps) = Some data"
    using write_succeeds [OF ok, of ty True] by auto
  with small show ?thesis using write_length [OF ok, of ty True data] by auto
qed

lemma authored_writable:
  "\<exists>data. write_sync_tree ty True h (author_vehicle lm mdl pos hdg token) = Some data \<and> length data < 4000"
  "\<exists>data. write_sync_tree ty True h (author_ped mdl pos hdg) = Some data \<and> length data < 4000"
  "\<exists>data. write_sync_tree ty True h (author_object lm mdl pos hdg dynamic) = Some data \<and> length data < 4000"
proof -
  obtain s p where sp: "sector_of pos = (s, p)" by (cases "sector_of pos")
  show "\<exists>data. write_sync_tree ty True h (author_vehicle lm mdl pos hdg token) = Some data \<and> length data < 4000"
    "\<exists>data. write_sync_tree ty True h (author_ped mdl pos hdg) = Some data \<and> length data < 4000"
    "\<exists>data. write_sync_tree ty True h (author_object lm mdl pos hdg dynamic) = Some data \<and> length data < 4000"
    unfolding author_vehicle_auth [OF sp] author_ped_auth [OF sp] author_object_auth [OF sp]
    by (rule auth_writable; simp add: vehicle_creation_bits_def ped_creation_bits_def object_creation_bits_def)+
qed

lemmas decode_names = decode_all_def decode_reached_def decodes_def decode_leaf_def

lemma vehicle_record:
  "\<exists>data. write_sync_tree Automobile True h (author_vehicle lm mdl pos hdg token) = Some data \<and> length data < 4000 \<and>
    (\<forall>build. parse_sync_tree lm Automobile True data h build =
      sync_node_default\<lparr>model := Some mdl, population_type := Some 7,
        sector := Some (sector_wire (fst (sector_of pos))),
        sector_position := Some (offset_wire 12 (snd (sector_of pos))),
        heading := Some (heading_wire lm hdg)\<rparr>)"
proof -
  obtain s p where sp: "sector_of pos = (s, p)" by (cases "sector_of pos")
  let ?ps = "[(''CVehicleCreationDataNode'', vehicle_creation_bits mdl token), (''CAutomobileCreationDataNode'', [True]),
     (''CSectorDataNode'', sector_bits s), (''CSectorPositionDataNode'', offset_bits 12 p),
     (''CEntityOrientationDataNode'', quat_bits lm hdg)]"
  have l: "length (vehicle_creation_bits mdl token) = 110" by (simp add: vehicle_creation_bits_def)
  have reach: "reached 1 0 (map (\<lambda>name. (name, [], 0)) (map fst ?ps)) (tree_for Automobile) =
      [''CVehicleCreationDataNode'', ''CAutomobileCreationDataNode'', ''CSectorDataNode'',
       ''CSectorPositionDataNode'', ''CEntityOrientationDataNode'']"
    by (simp only: list.map fst_conv) code_simp
  let ?v = "leaf_view (auth ?ps)"
  have d: "decode_vehicle_creation (?v ''CVehicleCreationDataNode'') out =
        out\<lparr>model := Some mdl, population_type := Some 7\<rparr>"
      "decode_sector (?v ''CSectorDataNode'') out = out\<lparr>sector := Some (sector_wire s)\<rparr>"
      "fst (read_sector_offset 12 (?v ''CSectorPositionDataNode'')) = Some (offset_wire 12 p)"
      "fst (read_quaternion_heading lm (?v ''CEntityOrientationDataNode'')) = Some (heading_wire lm hdg)" for out
    using vehicle_creation_at [where b = "?v ''CVehicleCreationDataNode''" and mdl = mdl and token = token]
      sector_at [where b = "?v ''CSectorDataNode''" and s = s]
      parsed_prefix [OF parses_offset, where b = "?v ''CSectorPositionDataNode''" and n1 = 12 and p1 = p and r = "[]"]
      parsed_prefix [OF parses_quat, where b = "?v ''CEntityOrientationDataNode''" and lm1 = lm and hdg1 = hdg and r = "[]"]
      auth_view [of ?ps "''CVehicleCreationDataNode''"] auth_view [of ?ps "''CSectorDataNode''"]
      auth_view [of ?ps "''CSectorPositionDataNode''"] auth_view [of ?ps "''CEntityOrientationDataNode''"]
    by (simp_all add: l)
  obtain data where w: "write_sync_tree Automobile True h (auth ?ps) = Some data" "length data < 4000" and
      q: "\<And>lm build. parse_sync_tree lm Automobile True data h build = decode_all
        \<lparr>wc_libm = lm, wc_sync_type = 1, wc_obj_type = 0, wc_build = build\<rparr> (auth ?ps)
        [''CVehicleCreationDataNode'', ''CAutomobileCreationDataNode'', ''CSectorDataNode'',
         ''CSectorPositionDataNode'', ''CEntityOrientationDataNode''] sync_node_default"
    using auth_record [OF _ _ reach, of h] by (auto simp: l)
  have "parse_sync_tree lm Automobile True data h build =
      sync_node_default\<lparr>model := Some mdl, population_type := Some 7, sector := Some (sector_wire s),
        sector_position := Some (offset_wire 12 p), heading := Some (heading_wire lm hdg)\<rparr>" for build
    unfolding q by (simp add: decode_names d)
  with w show ?thesis by (auto simp: sp author_vehicle_auth [OF sp])
qed

section \<open>Properties\<close>

text \<open>A server-created vehicle reads back as it was authored. For every model, position,
  heading and token (any \<open>f32\<close> values), in both id modes and for every game build, the create
  record of \<open>author_vehicle\<close> can be written and parsing it returns exactly: the model, the mission
  population type, the sector cut to its field widths, the in-sector offset and the heading at the
  wire's resolution, and nothing else.\<close>

theorem authored_vehicle_reads_back:
  "\<exists>data. write_sync_tree Automobile True h (author_vehicle lm mdl pos hdg token) = Some data \<and>
    (\<forall>build. parse_sync_tree lm Automobile True data h build =
      sync_node_default\<lparr>model := Some mdl, population_type := Some 7,
        sector := Some (sector_wire (fst (sector_of pos))),
        sector_position := Some (offset_wire 12 (snd (sector_of pos))),
        heading := Some (heading_wire lm hdg)\<rparr>)"
  using vehicle_record [of h lm mdl pos hdg token] by blast

text \<open>A server-created ped reads back as it was authored: model, mission population type,
  sector, in-sector offset, and both headings at the resolution of the 8-bit signed angle; the
  unconditionally read inventory leaf, which is not authored, is written empty and changes
  nothing.\<close>

theorem authored_ped_reads_back:
  "\<exists>data. write_sync_tree Ped True h (author_ped mdl pos hdg) = Some data \<and>
    (\<forall>lm build. parse_sync_tree lm Ped True data h build =
      sync_node_default\<lparr>population_type := Some 7, model := Some mdl,
        heading := Some (ped_heading_wire hdg), desired_heading := Some (ped_heading_wire hdg),
        sector := Some (sector_wire (fst (sector_of pos))),
        sector_position := Some (offset_wire 12 (snd (sector_of pos)))\<rparr>)"
proof -
  obtain s p where sp: "sector_of pos = (s, p)" by (cases "sector_of pos")
  let ?h = "signed_float_bits 8 TAU_RADIANS (to_radians hdg)"
  let ?ps = "[(''CPedCreationDataNode'', ped_creation_bits mdl),
     (''CSectorDataNode'', sector_bits s), (''CPedSectorPosMapNode'', offset_bits 12 p @ [False]),
     (''CPedOrientationDataNode'', ?h @ ?h)]"
  let ?v = "leaf_view (auth ?ps)"
  have l: "length (ped_creation_bits mdl) = 104" by (simp add: ped_creation_bits_def)
  have reach: "reached 1 0 (map (\<lambda>name. (name, [], 0)) (map fst ?ps)) (tree_for Ped) =
      [''CPedCreationDataNode'', ''CPedOrientationDataNode'', ''CSectorDataNode'',
       ''CPedSectorPosMapNode'', ''CPedInventoryDataNode'']"
    by (simp only: list.map fst_conv) code_simp
  have d: "decode_ped_creation (?v ''CPedCreationDataNode'') out = out\<lparr>population_type := Some 7, model := Some mdl\<rparr>"
      "decode_sector (?v ''CSectorDataNode'') out = out\<lparr>sector := Some (sector_wire s)\<rparr>"
      "fst (read_sector_offset 12 (?v ''CPedSectorPosMapNode'')) = Some (offset_wire 12 p)"
      "decode_ped_orientation (?v ''CPedOrientationDataNode'') out =
        out\<lparr>heading := Some (ped_heading_wire hdg), desired_heading := Some (ped_heading_wire hdg)\<rparr>" for out
    using ped_creation_at [where b = "?v ''CPedCreationDataNode''" and mdl = mdl]
      sector_at [where b = "?v ''CSectorDataNode''" and s = s]
      parsed_prefix [OF parses_offset, where b = "?v ''CPedSectorPosMapNode''" and n1 = 12 and p1 = p and r = "[False]"]
      ped_orientation_at [where b = "?v ''CPedOrientationDataNode''" and hdg = hdg]
      auth_view [of ?ps "''CPedCreationDataNode''"] auth_view [of ?ps "''CSectorDataNode''"]
      auth_view [of ?ps "''CPedSectorPosMapNode''"] auth_view [of ?ps "''CPedOrientationDataNode''"]
    by (simp_all add: l)
  obtain data where w: "write_sync_tree Ped True h (auth ?ps) = Some data" and
      q: "\<And>lm build. parse_sync_tree lm Ped True data h build = decode_all
        \<lparr>wc_libm = lm, wc_sync_type = 1, wc_obj_type = 0, wc_build = build\<rparr> (auth ?ps)
        [''CPedCreationDataNode'', ''CPedOrientationDataNode'', ''CSectorDataNode'',
         ''CPedSectorPosMapNode'', ''CPedInventoryDataNode''] sync_node_default"
    using auth_record [OF _ _ reach, of h] by (auto simp: l)
  have "parse_sync_tree lm Ped True data h build =
      sync_node_default\<lparr>population_type := Some 7, model := Some mdl,
        heading := Some (ped_heading_wire hdg), desired_heading := Some (ped_heading_wire hdg),
        sector := Some (sector_wire s), sector_position := Some (offset_wire 12 p)\<rparr>" for lm build
    unfolding q by (simp add: decode_names d)
  with w show ?thesis by (auto simp: sp author_ped_auth [OF sp])
qed

text \<open>A server-created object reads back its position at the 20-bit resolution and its heading.
  Its model is not decoded: \<open>CObjectCreationDataNode\<close> is not among the leaves the parser
  understands.\<close>

theorem authored_object_reads_back:
  "\<exists>data. write_sync_tree Object True h (author_object lm mdl pos hdg dynamic) = Some data \<and>
    (\<forall>build. parse_sync_tree lm Object True data h build =
      sync_node_default\<lparr>sector := Some (sector_wire (fst (sector_of pos))),
        sector_position := Some (offset_wire 20 (snd (sector_of pos))),
        heading := Some (heading_wire lm hdg)\<rparr>)"
proof -
  obtain s p where sp: "sector_of pos = (s, p)" by (cases "sector_of pos")
  let ?ps = "[(''CObjectCreationDataNode'', object_creation_bits mdl dynamic),
     (''CSectorDataNode'', sector_bits s), (''CObjectSectorPosNode'', True # offset_bits 20 p),
     (''CObjectOrientationDataNode'', False # quat_bits lm hdg)]"
  let ?v = "leaf_view (auth ?ps)"
  have l: "length (object_creation_bits mdl dynamic) = 43" by (simp add: object_creation_bits_def)
  have reach: "reached 1 0 (map (\<lambda>name. (name, [], 0)) (map fst ?ps)) (tree_for Object) =
      [''CObjectCreationDataNode'', ''CSectorDataNode'', ''CObjectSectorPosNode'', ''CObjectOrientationDataNode'']"
    by (simp only: list.map fst_conv) code_simp
  have d: "decode_sector (?v ''CSectorDataNode'') out = out\<lparr>sector := Some (sector_wire s)\<rparr>"
      "decode_object_sector_pos (?v ''CObjectSectorPosNode'') out = out\<lparr>sector_position := Some (offset_wire 20 p)\<rparr>"
      "decode_object_orientation lm (?v ''CObjectOrientationDataNode'') out = out\<lparr>heading := Some (heading_wire lm hdg)\<rparr>" for out
    using sector_at [where b = "?v ''CSectorDataNode''" and s = s]
      object_position_at [where b = "?v ''CObjectSectorPosNode''" and p = p]
      object_orientation_at [where b = "?v ''CObjectOrientationDataNode''" and lm = lm and hdg = hdg]
      auth_view [of ?ps "''CSectorDataNode''"] auth_view [of ?ps "''CObjectSectorPosNode''"]
      auth_view [of ?ps "''CObjectOrientationDataNode''"]
    by (simp_all add: l)
  obtain data where w: "write_sync_tree Object True h (auth ?ps) = Some data" and
      q: "\<And>lm build. parse_sync_tree lm Object True data h build = decode_all
        \<lparr>wc_libm = lm, wc_sync_type = 1, wc_obj_type = 0, wc_build = build\<rparr> (auth ?ps)
        [''CObjectCreationDataNode'', ''CSectorDataNode'', ''CObjectSectorPosNode'', ''CObjectOrientationDataNode'']
        sync_node_default"
    using auth_record [OF _ _ reach, of h] by (auto simp: l)
  have "parse_sync_tree lm Object True data h build =
      sync_node_default\<lparr>sector := Some (sector_wire s), sector_position := Some (offset_wire 20 p),
        heading := Some (heading_wire lm hdg)\<rparr>" for build
    unfolding q by (simp add: decode_names d)
  with w show ?thesis by (auto simp: sp author_object_auth [OF sp])
qed

end
