(* ===== verification/Entity_State.thy ===== *)
theory Entity_State
  imports Sync_Parse
begin

text \<open>The last-known state of an entity (\<open>EntityNodeState::merge\<close> of \<open>rage/sync_parse.rs\<close>) as a
  function of the whole history of decoded records: every field is the latest value that a record
  carried, and the derived last-vehicle fields name the vehicle of the latest exit.\<close>

section \<open>Histories\<close>

definition entity_state_default :: entity_node_state where
  "entity_state_default =
     \<lparr>es_vehicle_game_state = None, es_vehicle_health = None, es_vehicle_appearance = None,
      es_vehicle_damage = None, es_ped_game_state = None, es_ped_movement = None, es_ped_tasks = None,
      es_relationship_group = None, es_source_of_damage = None, es_cause_of_death = None,
      es_population_type = None, es_is_visible = None, es_script_hash = None, es_attached_to = None,
      last_vehicle = None, last_vehicle_seat = None\<rparr>"

text \<open>The last \<open>Some\<close> of a list of optional reports.\<close>

fun latest :: "'a option list \<Rightarrow> 'a option" where
  "latest [] = None"
| "latest (x # xs) = (case latest xs of Some v \<Rightarrow> Some v | None \<Rightarrow> x)"

text \<open>An exit: a report with a vehicle whose id fits 16 bits, followed by a report without one.\<close>

definition left_vehicle :: "ped_game_state \<Rightarrow> ped_game_state \<Rightarrow> bool" where
  "left_vehicle a b \<longleftrightarrow>
     sint (cur_vehicle b) < 0 \<and> 0 \<le> sint (cur_vehicle a) \<and> sint (cur_vehicle a) < 65536"

fun exits :: "ped_game_state list \<Rightarrow> (u16 \<times> u32) list" where
  "exits (a # b # rest) =
     (if left_vehicle a b then [(ucast (cur_vehicle a), cur_vehicle_seat a)] else []) @ exits (b # rest)"
| "exits _ = []"

section \<open>One merge\<close>

lemma merge_last_vehicle_fields [simp]:
  "es_vehicle_game_state (merge_last_vehicle d s) = es_vehicle_game_state s"
  "es_vehicle_health (merge_last_vehicle d s) = es_vehicle_health s"
  "es_vehicle_appearance (merge_last_vehicle d s) = es_vehicle_appearance s"
  "es_vehicle_damage (merge_last_vehicle d s) = es_vehicle_damage s"
  "es_ped_game_state (merge_last_vehicle d s) = es_ped_game_state s"
  "es_ped_movement (merge_last_vehicle d s) = es_ped_movement s"
  "es_ped_tasks (merge_last_vehicle d s) = es_ped_tasks s"
  "es_relationship_group (merge_last_vehicle d s) = es_relationship_group s"
  "es_source_of_damage (merge_last_vehicle d s) = es_source_of_damage s"
  "es_cause_of_death (merge_last_vehicle d s) = es_cause_of_death s"
  "es_population_type (merge_last_vehicle d s) = es_population_type s"
  "es_is_visible (merge_last_vehicle d s) = es_is_visible s"
  "es_script_hash (merge_last_vehicle d s) = es_script_hash s"
  "es_attached_to (merge_last_vehicle d s) = es_attached_to s"
  by (simp_all add: merge_last_vehicle_def split: option.splits)

lemma merge_last_vehicle_exit:
  "(last_vehicle (merge_last_vehicle d s), last_vehicle_seat (merge_last_vehicle d s)) =
     (case (es_ped_game_state s, sd_ped_game_state d) of
        (Some a, Some b) \<Rightarrow>
          if left_vehicle a b then (Some (ucast (cur_vehicle a)), Some (cur_vehicle_seat a))
          else (last_vehicle s, last_vehicle_seat s)
      | _ \<Rightarrow> (last_vehicle s, last_vehicle_seat s))"
  by (auto simp: merge_last_vehicle_def left_vehicle_def split: option.splits)

section \<open>Folding a history\<close>

lemma merge_field_latest:
  assumes "\<And>d s. g (es_merge d s) = merge_field (g s) (f d)"
  shows "g (fold es_merge ds s) = (case latest (map f ds) of Some v \<Rightarrow> Some v | None \<Rightarrow> g s)"
  by (induction ds arbitrary: s) (auto simp: assms merge_field_def split: option.splits)

definition reports :: "sync_node_data list \<Rightarrow> ped_game_state list" where
  "reports ds = List.map_filter sd_ped_game_state ds"

lemma reports_simps [simp]:
  "reports [] = []"
  "reports (d # ds) = (case sd_ped_game_state d of None \<Rightarrow> reports ds | Some st \<Rightarrow> st # reports ds)"
  by (simp_all add: reports_def map_filter_simps split: option.splits)

lemma fold_exits:
  fixes s :: entity_node_state
  defines "prior \<equiv> (case es_ped_game_state s of None \<Rightarrow> [] | Some st \<Rightarrow> [st])"
  shows "(last_vehicle (fold es_merge ds s), last_vehicle_seat (fold es_merge ds s)) =
    (case exits (prior @ reports ds) of
       [] \<Rightarrow> (last_vehicle s, last_vehicle_seat s)
     | es \<Rightarrow> map_prod Some Some (last es))"
  unfolding prior_def
proof (induction ds arbitrary: s)
  case Nil
  then show ?case by (simp split: option.splits)
next
  case (Cons d ds)
  have m: "(last_vehicle (es_merge d s), last_vehicle_seat (es_merge d s)) =
      (last_vehicle (merge_last_vehicle d s), last_vehicle_seat (merge_last_vehicle d s))"
    "es_ped_game_state (es_merge d s) = merge_field (es_ped_game_state s) (sd_ped_game_state d)"
    by (simp_all add: es_merge_def Let_def)
  show ?case
    unfolding fold_Cons o_def Cons.IH m merge_last_vehicle_exit
    by (auto simp: merge_field_def split: option.splits list.splits)
qed

section \<open>Properties\<close>

text \<open>The merged state is the latest report of every field. After any sequence of decoded
  records, each field holds the value of the last record that carried it, and is \<open>None\<close> when none
  did.\<close>

theorem merged_state_is_latest:
  "es_vehicle_game_state (fold es_merge ds entity_state_default) = latest (map sd_vehicle_game_state ds) \<and>
   es_vehicle_health (fold es_merge ds entity_state_default) = latest (map sd_vehicle_health ds) \<and>
   es_vehicle_appearance (fold es_merge ds entity_state_default) = latest (map sd_vehicle_appearance ds) \<and>
   es_vehicle_damage (fold es_merge ds entity_state_default) = latest (map sd_vehicle_damage ds) \<and>
   es_ped_game_state (fold es_merge ds entity_state_default) = latest (map sd_ped_game_state ds) \<and>
   es_ped_movement (fold es_merge ds entity_state_default) = latest (map sd_ped_movement ds) \<and>
   es_ped_tasks (fold es_merge ds entity_state_default) = latest (map sd_ped_tasks ds) \<and>
   es_relationship_group (fold es_merge ds entity_state_default) = latest (map relationship_group ds) \<and>
   es_source_of_damage (fold es_merge ds entity_state_default) = latest (map source_of_damage ds) \<and>
   es_cause_of_death (fold es_merge ds entity_state_default) = latest (map cause_of_death ds) \<and>
   es_population_type (fold es_merge ds entity_state_default) = latest (map population_type ds) \<and>
   es_is_visible (fold es_merge ds entity_state_default) = latest (map is_visible ds) \<and>
   es_script_hash (fold es_merge ds entity_state_default) = latest (map script_hash ds) \<and>
   es_attached_to (fold es_merge ds entity_state_default) = latest (map attached_to ds)"
  by (intro conjI; subst merge_field_latest)
    (auto simp: es_merge_def Let_def entity_state_default_def split: option.splits)

text \<open>The derived last vehicle. After any sequence of decoded records, \<open>last_vehicle\<close> and
  \<open>last_vehicle_seat\<close> are the vehicle and seat of the latest exit in the sequence of ped reports,
  whatever other records lie between the two reports of the exit, and \<open>None\<close> when the ped never
  left a vehicle.\<close>

theorem last_vehicle_is_latest_exit:
  "(last_vehicle (fold es_merge ds entity_state_default), last_vehicle_seat (fold es_merge ds entity_state_default)) =
     (case exits (reports ds) of [] \<Rightarrow> (None, None) | es \<Rightarrow> map_prod Some Some (last es))"
proof -
  have "es_ped_game_state entity_state_default = None" "last_vehicle entity_state_default = None"
    "last_vehicle_seat entity_state_default = None" by (simp_all add: entity_state_default_def)
  then show ?thesis using fold_exits [of ds entity_state_default] by (simp split: list.splits)
qed

end
