(* ===== verification/Leaf_Bounds.thy ===== *)
theory Leaf_Bounds
  imports Sync_Parse
begin

text \<open>What any client can make the sync-tree parser of \<open>rage/sync_parse.rs\<close> return. A small
  strongest-postcondition calculus over the bit readers shows that every decoded array has the size
  its Rust type declares and every decoded id and code stays within its field, for every input.\<close>

section \<open>Postconditions of readers\<close>

text \<open>\<open>ensures m Q\<close>: on a view (no length hack), a successful \<open>m\<close> returns a value in \<open>Q\<close>.\<close>

definition view_ok :: "mbuf \<Rightarrow> bool" where
  "view_ok b \<longleftrightarrow> wf_buf b \<and> \<not> length_hack b"

definition ensures :: "'a reader \<Rightarrow> ('a \<Rightarrow> bool) \<Rightarrow> bool" where
  "ensures m Q \<longleftrightarrow> (\<forall>b v b'. view_ok b \<longrightarrow> m b = (Some v, b') \<longrightarrow> Q v \<and> view_ok b')"

lemma view_ok_reads: "reads_only m \<Longrightarrow> m b = (r, b') \<Longrightarrow> view_ok b \<Longrightarrow> view_ok b'"
  using reads_only_D [of m b r b'] by (simp add: view_ok_def wf_buf_def)

lemma ensuresD: "ensures m Q \<Longrightarrow> view_ok b \<Longrightarrow> m b = (Some v, b') \<Longrightarrow> Q v"
  by (simp add: ensures_def)

lemma ensures_weaken: "ensures m Q \<Longrightarrow> (\<And>v. Q v \<Longrightarrow> P v) \<Longrightarrow> ensures m P"
  by (auto simp: ensures_def)

named_theorems post \<open>strongest postconditions of the readers\<close>

lemma ensures_any: "reads_only m \<Longrightarrow> ensures m (\<lambda>_. True)"
  by (metis ensures_def view_ok_reads)

lemma ensures_try [post]:
  "ensures m Q \<Longrightarrow> (\<And>x. ensures (k x) (R x)) \<Longrightarrow> ensures (try_read m k) (\<lambda>y. \<exists>x. Q x \<and> R x y)"
proof -
  assume m: "ensures m Q" and k: "\<And>x. ensures (k x) (R x)"
  have "(\<exists>x. Q x \<and> R x y) \<and> view_ok b'" if v: "view_ok b" and t: "try_read m k b = (Some y, b')" for b y b'
  proof -
    obtain x b1 where "m b = (Some x, b1)" "k x b1 = (Some y, b')"
      using t by (auto simp: try_read_def split: prod.splits option.splits)
    then show ?thesis using m k [of x] v unfolding ensures_def by blast
  qed
  then show ?thesis by (simp add: ensures_def)
qed

lemma ensures_flag [post]:
  "(\<And>x. ensures (k x) (R x)) \<Longrightarrow> ensures (then_read read_bit k) (\<lambda>y. \<exists>x. R x y)"
  unfolding ensures_def then_read_def
  by (auto split: prod.splits) (metis reads_only_rb view_ok_reads)+

lemma ensures_ret [post]: "ensures (ret v) (\<lambda>x. x = v)"
  by (simp add: ensures_def)

lemma ensures_if [post]:
  "ensures m Q \<Longrightarrow> ensures k R \<Longrightarrow> ensures (if c then m else k) (\<lambda>x. Q x \<or> R x)"
  using ensures_weaken [of m Q "\<lambda>x. Q x \<or> R x"] ensures_weaken [of k R "\<lambda>x. Q x \<or> R x"] by (cases c) simp_all

lemma ensures_if_exact:
  "ensures m Q \<Longrightarrow> ensures k R \<Longrightarrow> ensures (if c then m else k) (\<lambda>x. if c then Q x else R x)"
  by simp

lemma ensures_prod [post]:
  "(\<And>a b. ensures (f a b) (R a b)) \<Longrightarrow> ensures (case x of (a, b) \<Rightarrow> f a b) (\<lambda>y. R (fst x) (snd x) y)"
  by (cases x) simp

lemma ensures_prod_app [post]:
  "(\<And>a b. ensures (f a b z) (R a b)) \<Longrightarrow> ensures ((case x of (a, b) \<Rightarrow> f a b) z) (\<lambda>y. R (fst x) (snd x) y)"
  by (cases x) simp

lemma word_of_bits_less:
  assumes "length xs \<le> n"
  shows "unat (word_of_bits xs :: u32) < 2 ^ n"
proof -
  have "take_bit n (word_of_bits xs :: u32) = word_of_bits xs"
    using assms by (intro bit_word_eqI) (auto simp: bit_word_of_bits bit_simps)
  then have "unat (word_of_bits xs :: u32) = take_bit n (unat (word_of_bits xs :: u32))"
    by (metis unsigned_take_bit_eq)
  then show ?thesis using take_bit_nat_less_exp [of n "unat (word_of_bits xs :: u32)"] by simp
qed

lemma ensures_field [post]: "ensures (read_bits_single n) (\<lambda>v. unat v < 2 ^ n)"
  unfolding ensures_def
proof (intro allI impI conjI)
  fix b v b'
  assume b: "view_ok b" "read_bits_single n b = (Some v, b')"
  then show "view_ok b'" using view_ok_reads [OF reads_only_rbs] by blast
  have "effective_len b n = n" using b by (simp add: view_ok_def effective_len_def)
  then have "v = word_of_bits (take n (unread b))"
    using b by (auto simp: view_ok_def read_bits_single_law split: if_splits)
  then show "unat v < 2 ^ n" by (simp add: word_of_bits_less)
qed

lemma ensures_map_read [post]:
  "(\<And>x. x \<in> set xs \<Longrightarrow> ensures (f x) Q) \<Longrightarrow> ensures (map_read f xs) (\<lambda>vs. length vs = length xs \<and> list_all Q vs)"
proof (induction xs)
  case (Cons x xs)
  have "ensures (map_read f (x # xs)) (\<lambda>y. \<exists>v. Q v \<and> (\<exists>vs. (length vs = length xs \<and> list_all Q vs) \<and> y = v # vs))"
    unfolding map_read.simps by (intro ensures_try ensures_ret Cons) simp_all
  then show ?case by (rule ensures_weaken) auto
qed (simp add: ensures_def)

lemma ensures_unit: "reads_only m \<Longrightarrow> ensures (m :: unit reader) (\<lambda>_. True)"
  by (rule ensures_any)

lemma ucast_le: "unat (ucast (w::u32) :: 'a::len word) \<le> unat w"
  by (simp add: unsigned_ucast_eq take_bit_nat_less_eq_self)

lemma ucast_less: "unat (w::u32) < n \<Longrightarrow> unat (ucast w :: 'a::len word) < n"
  using ucast_le le_less_trans by blast

lemma ensures_byte [post]: "ensures (byte_field n) (\<lambda>v. unat v < 2 ^ n)"
proof -
  have "ensures (byte_field n) (\<lambda>y. \<exists>v::u32. unat v < 2 ^ n \<and> y = ucast v)"
    unfolding byte_field_def by (intro post)
  then show ?thesis
    by (rule ensures_weaken) (auto intro: ucast_less)
qed

lemma reads_only_blocks [reader_intro]:
  "reads_only (skip_field n)" "reads_only m \<Longrightarrow> reads_only (opt_read c m)" "reads_only m \<Longrightarrow> reads_only (rep_read n m)"
  "reads_only (skip_bits n)" "reads_only (read_float n d)"
proof -
  show f: "reads_only (skip_field n)" unfolding skip_field_def by (intro reader_intro)
  show "reads_only m \<Longrightarrow> reads_only (opt_read c m)" unfolding opt_read_def by (intro reader_intro)
  show r: "reads_only m \<Longrightarrow> reads_only (rep_read n m)" for m n
    by (induction n) (auto intro: reader_intro)
  show "reads_only (skip_bits n)" unfolding skip_bits_def by (intro r reader_intro)
  show "reads_only (read_float n d)" unfolding read_float_def by (intro reader_intro)
qed

lemma ensures_irrelevant:
  "reads_only (if c then m else k) \<Longrightarrow> ensures (if c then m else k :: u32 reader) (\<lambda>_. True)"
  "reads_only (if c then m' else k') \<Longrightarrow> ensures (if c then m' else k' :: bool reader) (\<lambda>_. True)"
  by (rule ensures_any, assumption)+

lemmas reader_post = ensures_unit ensures_irrelevant post reader_intro

section \<open>Well-formed decoded state\<close>

definition wf_ped_tasks :: "ped_tasks \<Rightarrow> bool" where
  "wf_ped_tasks t \<longleftrightarrow> unat (script_task_stage t) < 8 \<and> length (task_types t) = 8 \<and>
     (\<forall>k\<in>set (task_types t). unat k < 1024)"

definition wf_vehicle_game_state :: "vehicle_game_state \<Rightarrow> bool" where
  "wf_vehicle_game_state s \<longleftrightarrow> unat (radio_station s) < 128 \<and> unat (lock_status s) < 32 \<and>
     unat (doors_open s) < 128 \<and> unat (light_state s) < 8 \<and>
     length (door_positions s) = 7 \<and> (\<forall>p\<in>set (door_positions s). unat p < 16)"

definition wf_vehicle_health :: "vehicle_health \<Rightarrow> bool" where
  "wf_vehicle_health s \<longleftrightarrow> length (tyre_status s) = 16 \<and> (\<forall>t\<in>set (tyre_status s). t \<le> 2) \<and>
     unat (total_repairs s) < 16"

definition wf_vehicle_appearance :: "vehicle_appearance \<Rightarrow> bool" where
  "wf_vehicle_appearance s \<longleftrightarrow> length (primary_rgb s) = 3 \<and> length (secondary_rgb s) = 3 \<and>
     length (tyre_smoke_colour s) = 3 \<and> length (neon_colour s) = 3 \<and> length (neon_sides s) = 4 \<and>
     length (plate s) = 8 \<and> (\<forall>c\<in>set (plate s). unat c < 128) \<and> unat (dirt_level s) < 32 \<and>
     unat (kit_index s) < 4"

definition wf_vehicle_damage :: "vehicle_damage \<Rightarrow> bool" where
  "wf_vehicle_damage s \<longleftrightarrow> length (windows_broken s) = 8 \<and>
     (\<not> any_window_broken s \<longrightarrow> windows_broken s = replicate 8 False)"

text \<open>A decoded ped either names a vehicle by a 13-bit id with a 5-bit seat, or neither.\<close>

definition wf_ped_game_state :: "ped_game_state \<Rightarrow> bool" where
  "wf_ped_game_state s \<longleftrightarrow> unat (arrest_state s) < 2 \<and> unat (death_state s) < 4 \<and>
     (cur_vehicle s = - 1 \<and> cur_vehicle_seat s = - 1 \<or>
      unat (cur_vehicle s) < 8192 \<and> unat (cur_vehicle_seat s) < 32)"

lemma ensures_ped_tasks: "ensures (decode_ped_tasks build) wf_ped_tasks"
  by (rule ensures_weaken, unfold decode_ped_tasks_def Let_def, (rule reader_post)+)
    (fastforce simp: wf_ped_tasks_def list_all_iff IDLE_TASK_TYPE_def intro: ucast_less split: if_splits)

lemma ensures_ped_game_state: "ensures (decode_ped_game_state build) wf_ped_game_state"
  by (rule ensures_weaken, unfold decode_ped_game_state_def, (rule reader_post)+)
    (auto simp: wf_ped_game_state_def split: if_splits)

lemma ensures_vehicle_damage: "ensures decode_vehicle_damage wf_vehicle_damage"
  by (rule ensures_weaken, unfold decode_vehicle_damage_def,
      (rule ensures_unit ensures_if_exact post reader_intro)+)
    (auto simp: wf_vehicle_damage_def list_all_iff intro!: replicate_eqI split: if_splits)

lemma ensures_vgs_locks:
  "ensures vgs_locks (\<lambda>(lock, doors, positions). unat lock < 32 \<and> unat doors < 128 \<and>
     length positions = 7 \<and> (\<forall>p\<in>set positions. unat p < 16))"
  by (rule ensures_weaken, unfold vgs_locks_def, (rule reader_post)+)
    (auto simp: list_all_iff)

lemma ensures_vgs_detail:
  "ensures (vgs_detail build) (\<lambda>(_, _, _, (lock, doors, positions), _). unat lock < 32 \<and> unat doors < 128 \<and>
     length positions = 7 \<and> (\<forall>p\<in>set positions. unat p < 16))"
  by (rule ensures_weaken, unfold vgs_detail_def, (rule ensures_vgs_locks reader_post)+)
    (auto simp: list_all_iff)

lemma ensures_vehicle_game_state: "ensures (decode_vehicle_game_state build) wf_vehicle_game_state"
  by (rule ensures_weaken, unfold decode_vehicle_game_state_def, (rule ensures_vgs_detail reader_post)+)
    (auto simp: wf_vehicle_game_state_def split: if_splits)

lemma ensures_vh_wheel: "ensures (vh_wheel build) (\<lambda>t. t \<le> 2)"
  by (rule ensures_weaken, unfold vh_wheel_def, (rule reader_post)+) auto

lemma ensures_vh_wheels:
  "ensures (vh_wheels build fine extra_fine) (\<lambda>ts. length ts = 16 \<and> (\<forall>t\<in>set ts. t \<le> 2))"
  by (rule ensures_weaken, unfold vh_wheels_def, (rule ensures_vh_wheel reader_post)+)
    (auto simp: list_all_iff dest!: in_set_takeD)

lemma ensures_vehicle_health: "ensures (decode_vehicle_health build) wf_vehicle_health"
  by (rule ensures_weaken, unfold decode_vehicle_health_def, (rule ensures_vh_wheels reader_post)+)
    (auto simp: wf_vehicle_health_def)

lemma ensures_va_rgb: "length absent = 3 \<Longrightarrow> ensures (va_rgb c absent) (\<lambda>v. length v = 3)"
  by (rule ensures_weaken, unfold va_rgb_def, (rule reader_post)+) auto

lemmas va_rgb_post = ensures_va_rgb [of "[0, 0, 0]", simplified] ensures_va_rgb [of "[255, 255, 255]", simplified]

lemma reads_only_va [reader_intro]: "reads_only va_livery" "reads_only va_emblems"
  unfolding va_livery_def va_emblems_def by (intro reader_intro)+

lemma ensures_va_body: "ensures va_body (\<lambda>(dirt, _, _, _). unat dirt < 32)"
  by (rule ensures_weaken, unfold va_body_def, (rule ensures_any [OF reads_only_va(1)] reader_post)+) auto

lemma ensures_va_mods: "ensures (va_mods kit) (\<lambda>_. True)"
  unfolding va_mods_def by (rule ensures_any, unfold byte_field_def, intro reader_intro)

lemma ensures_vehicle_appearance: "ensures (decode_vehicle_appearance build) wf_vehicle_appearance"
  by (rule ensures_weaken, unfold decode_vehicle_appearance_def,
      (rule va_rgb_post ensures_va_body ensures_va_mods reads_only_va reader_post)+)
    (auto simp: wf_vehicle_appearance_def list_all_iff)

section \<open>Every leaf decoder keeps the record well formed\<close>

definition wf_sync_data :: "sync_node_data \<Rightarrow> bool" where
  "wf_sync_data d \<longleftrightarrow>
     pred_option (\<lambda>(x, y, z). unat x < 1024 \<and> unat y < 1024 \<and> unat z < 64) (sector d) \<and>
     pred_option (\<lambda>(v, s). unat v < 8192 \<and> unat s < 32) (vehicle_seat d) \<and>
     pred_option (\<lambda>p. unat p < 16) (population_type d) \<and>
     pred_option (\<lambda>i. unat i < 8192) (source_of_damage d) \<and>
     pred_option (\<lambda>i. unat i < 8192) (attached_to d) \<and>
     pred_option wf_vehicle_game_state (sd_vehicle_game_state d) \<and>
     pred_option wf_vehicle_health (sd_vehicle_health d) \<and>
     pred_option wf_vehicle_appearance (sd_vehicle_appearance d) \<and>
     pred_option wf_vehicle_damage (sd_vehicle_damage d) \<and>
     pred_option wf_ped_game_state (sd_ped_game_state d) \<and>
     pred_option wf_ped_tasks (sd_ped_tasks d)"

lemma wf_sync_default: "wf_sync_data sync_node_default"
  by (simp add: wf_sync_data_def sync_node_default_def)

lemma ensures_opt: "ensures m P \<Longrightarrow> view_ok b \<Longrightarrow> pred_option P (fst (m b))"
  by (cases "m b"; cases "fst (m b)") (auto simp: ensures_def)

lemma field_opt: "view_ok b \<Longrightarrow> pred_option (\<lambda>v. unat v < 2 ^ n) (fst (read_bits_single n b))"
  by (rule ensures_opt [OF ensures_field])

lemma view_ok_snd: "reads_only m \<Longrightarrow> view_ok b \<Longrightarrow> view_ok (snd (m b))"
  using view_ok_reads [of m b "fst (m b)" "snd (m b)"] by simp

lemma then_read_snd: "then_read m k b = k (fst (m b)) (snd (m b))"
  by (simp add: then_read_def case_prod_beta)

lemma pred_ucast:
  "pred_option (\<lambda>v. unat v < n) x \<Longrightarrow> pred_option (\<lambda>v. unat v < n) (map_option (ucast :: u32 \<Rightarrow> 'a::len word) x)"
  by (cases x) (auto intro: ucast_less)

lemmas view_steps = view_ok_snd [OF reads_only_rbs] view_ok_snd [OF reads_only_rb]

lemma wf_decode_sector:
  assumes "wf_sync_data out" "view_ok b"
  shows "wf_sync_data (decode_sector b out)"
proof -
  let ?b1 = "snd (read_bits_single 10 b)"
  let ?b2 = "snd (read_bits_single 10 ?b1)"
  have "pred_option (\<lambda>v. unat v < 1024) (fst (read_bits_single 10 b))"
    "pred_option (\<lambda>v. unat v < 1024) (fst (read_bits_single 10 ?b1))"
    "pred_option (\<lambda>v. unat v < 64) (fst (read_bits_single 6 ?b2))"
    using field_opt [of b 10] field_opt [of ?b1 10] field_opt [of ?b2 6] view_steps assms(2) by simp_all
  then show ?thesis
    using assms(1) by (auto simp: decode_sector_def read3_def then_read_snd wf_sync_data_def split: option.splits)
qed

lemma wf_decode_creation:
  assumes "wf_sync_data out" "view_ok b"
  shows "wf_sync_data (decode_vehicle_creation b out)" "wf_sync_data (decode_ped_creation b out)"
proof -
  have "pred_option (\<lambda>v. unat v < 16) (map_option (ucast :: u32 \<Rightarrow> u8) (fst (read_bits_single 4 c)))"
    "pred_option (\<lambda>v. unat v < 8192) (fst (read_bits_single 13 c))"
    "pred_option (\<lambda>v. unat v < 32) (fst (read_bits_single 5 c))" if "view_ok c" for c
    using pred_ucast [of 16 "fst (read_bits_single 4 c)"] field_opt [OF that, of 4] field_opt [OF that, of 13]
      field_opt [OF that, of 5] by simp_all
  note f = this
  have g: "unat (ucast v :: u16) < 8192" if "fst (read_bits_single 13 c) = Some v" "view_ok c" for c v
    using f(2) [OF that(2)] that(1) by (simp add: ucast_less)
  have k: "unat (ucast v :: u8) < 32" if "fst (read_bits_single 5 c) = Some v" "view_ok c" for c v
    using f(3) [OF that(2)] that(1) by (simp add: ucast_less)
  show "wf_sync_data (decode_vehicle_creation b out)"
    using assms f view_steps by (simp add: decode_vehicle_creation_def then_read_snd wf_sync_data_def)
  show "wf_sync_data (decode_ped_creation b out)"
    using assms f view_steps
    by (simp add: decode_ped_creation_def then_read_snd wf_sync_data_def Let_def split: option.splits)
      (intro allI impI conjI; (erule g | erule k); intro view_steps assms(2))
qed

lemma wf_ped_health:
  assumes "wf_sync_data out" "view_ok b"
  shows "wf_sync_data (fst (ped_health_tail build out b))"
proof -
  let ?skip = "if is_2060 build then flag (\<lambda>has_first. flag (\<lambda>has_second.
      try_read (opt_read has_second (skip_field 13)) (\<lambda>_. opt_read (\<not> has_first) (skip_field 13)))) else ret ()"
  let ?src = "flag (\<lambda>damaged. if damaged then fld 13 (\<lambda>v. ret (ucast v :: u16)) else ret 0)"
  have skip: "reads_only ?skip" by (intro reader_intro)
  have src: "ensures ?src (\<lambda>v. unat v < 8192)"
    by (rule ensures_weaken, (rule reader_post)+) (auto intro: ucast_less)
  obtain r b1 where s: "?skip b = (r, b1)" by (cases "?skip b")
  obtain v b2 where v: "?src b1 = (v, b2)" by (cases "?src b1")
  obtain c b3 where c: "read_bits_single 32 b2 = (c, b3)" by (cases "read_bits_single 32 b2")
  have v': "unat x < 8192" if "v = Some x" for x
    using ensuresD [OF src view_ok_reads [OF skip s assms(2)]] v that by blast
  show ?thesis
    unfolding ped_health_tail_def s
    by (cases r; cases v; cases c) (use assms(1) v v' c in \<open>simp_all add: wf_sync_data_def Let_def\<close>)
qed

lemma wf_attach:
  assumes "wf_sync_data out" "view_ok b"
  shows "wf_sync_data (decode_attach b out)"
  using assms view_steps(2) pred_ucast [OF field_opt [of _ 13, simplified]]
  by (auto simp: decode_attach_def then_read_snd wf_sync_data_def)

lemma wf_decode_leaf:
  assumes "wf_sync_data out" "view_ok b"
  shows "wf_sync_data (decode_leaf lm name build b out)"
  using assms
proof -
  have health: "wf_sync_data (fst (decode_ped_health build out b))"
    unfolding decode_ped_health_def Let_def then_read_snd
    by (rule wf_ped_health) (use assms view_steps in \<open>auto simp: wf_sync_data_def then_read_snd\<close>)
  have pop: "pred_option (\<lambda>p. unat p < 16) (map_option (ucast :: u32 \<Rightarrow> u8) (fst (read_bits_single 4 b)))"
    using pred_ucast [OF field_opt [OF assms(2), of 4, simplified]] by simp
  show ?thesis
    using assms health pop wf_decode_sector [OF assms] wf_decode_creation [OF assms] wf_attach [OF assms]
      ensures_opt [OF ensures_vehicle_game_state assms(2)] ensures_opt [OF ensures_vehicle_health assms(2)]
      ensures_opt [OF ensures_vehicle_appearance assms(2)] ensures_opt [OF ensures_vehicle_damage assms(2)]
      ensures_opt [OF ensures_ped_game_state assms(2)] ensures_opt [OF ensures_ped_tasks assms(2)]
    unfolding decode_leaf_def
    by (simp add: wf_sync_data_def decode_player_sector_pos_def decode_object_sector_pos_def
        decode_object_orientation_def decode_ped_orientation_def decode_velocity_def decode_script_info_def
        then_read_snd Let_def split: option.splits)
qed

section \<open>The walk\<close>

lemma view_ok_from_bits: "view_ok (from_bits body n)"
  by (simp add: view_ok_def from_bits_def wf_buf_def)

lemma wf_walk_leaf:
  assumes "wf_sync_data out" "walk_leaf ctx name b out = (ok, b', out')"
  shows "wf_sync_data out'"
  using assms wf_decode_leaf [OF assms(1) view_ok_from_bits]
  by (auto simp: walk_leaf_def Let_def split: prod.splits option.splits if_splits bool.splits)

lemma wf_walk:
  "wf_sync_data out \<Longrightarrow> wf_sync_data (snd (snd (snd (walk k ctx ns b out))))"
  "wf_sync_data out \<Longrightarrow> wf_sync_data (snd (snd (snd (walk_children k ctx depth ns b out))))"
  by (induction k ctx ns b out and k ctx depth ns b out rule: walk_walk_children.induct)
    (auto split: prod.splits node_kind.splits bool.splits dest: wf_walk_leaf)

text \<open>Where a leaf ends does not depend on whether, by which build or by which decoder it was
  decoded.\<close>

lemma walk_leaf_framing:
  "(fst (walk_leaf ctx name b out), fst (snd (walk_leaf ctx name b out))) =
    (case read_bits_single NODE_LENGTH_BITS b of
       (None, b1) \<Rightarrow> (False, b1)
     | (Some len, b1) \<Rightarrow>
         if length (mb_data b1) * 8 < cur_bit b1 + unat len then (False, b1)
         else (True, set_current_bit (cur_bit b1 + unat len) b1))"
  by (simp add: walk_leaf_def Let_def read_bits_def set_current_bit_def split: option.splits prod.splits)

definition frame_of :: "walk_result \<Rightarrow> bool \<times> flat_node list \<times> mbuf" where
  "frame_of r = (case r of (ok, ns, b, out) \<Rightarrow> (ok, ns, b))"

lemma walk_framing:
  "wc_sync_type ctx = wc_sync_type ctx' \<Longrightarrow> wc_obj_type ctx = wc_obj_type ctx' \<Longrightarrow>
    frame_of (walk k ctx ns b out) = frame_of (walk k ctx' ns b out')"
  "wc_sync_type ctx = wc_sync_type ctx' \<Longrightarrow> wc_obj_type ctx = wc_obj_type ctx' \<Longrightarrow>
    frame_of (walk_children k ctx depth ns b out) = frame_of (walk_children k ctx' depth ns b out')"
proof (induction k ctx ns b out and k ctx depth ns b out arbitrary: out' and out' rule: walk_walk_children.induct)
  case (3 k ctx node rest b out)
  obtain r b1 where r: "should_read (fn_ids node) (wc_sync_type ctx') (wc_obj_type ctx') b = (r, b1)"
    by (cases "should_read (fn_ids node) (wc_sync_type ctx') (wc_obj_type ctx') b")
  have "(fst (walk_leaf ctx name b1 out), fst (snd (walk_leaf ctx name b1 out))) =
      (fst (walk_leaf ctx' name b1 out'), fst (snd (walk_leaf ctx' name b1 out')))" for name
    by (simp only: walk_leaf_framing)
  then show ?case
    using 3 r by (cases "fn_kind node") (auto simp: frame_of_def case_prod_beta)
next
  case (6 k ctx depth child rest b out)
  obtain ok ns b1 o1 where w: "walk k ctx (child # rest) b out = (ok, ns, b1, o1)"
    by (metis surj_pair)
  obtain ok' ns' b1' o1' where w': "walk k ctx' (child # rest) b out' = (ok', ns', b1', o1')"
    by (metis surj_pair)
  have "ok' = ok \<and> ns' = ns \<and> b1' = b1" if "depth < fn_depth child"
    using "6.IH"(1) [OF that "6.prems", of out'] w w' by (simp add: frame_of_def)
  then show ?case
    using 6 w w' by (cases ok) (auto simp: frame_of_def)
qed (simp_all add: frame_of_def)

section \<open>Properties\<close>


text \<open>Decoding cannot shift the walk. The verdict of the walk, the table entries it has left and
  its position in the record depend on the record and on the two gate values only: not on the game
  build, on what the decoders of the leaves do, or on the state decoded so far.\<close>

theorem walk_framing_independent:
  assumes "wc_sync_type ctx = wc_sync_type ctx'" "wc_obj_type ctx = wc_obj_type ctx'"
  shows "frame_of (walk k ctx ns b out) = frame_of (walk k ctx' ns b out')"
  using walk_framing(1) [OF assms] .

theorem walk_framing_independent_witness:
  "\<forall>lm. frame_of (walk 80 \<lparr>wc_libm = lm, wc_sync_type = 2, wc_obj_type = 1, wc_build = 0\<rparr> (tree_for Ped)
      (from_bytes [255, 0, 17]) sync_node_default) =
   frame_of (walk 80 \<lparr>wc_libm = lm, wc_sync_type = 2, wc_obj_type = 1, wc_build = 3717\<rparr> (tree_for Ped)
      (from_bytes [255, 0, 17]) sync_node_default)"
  by (intro allI walk_framing_independent) simp_all

end
