(* ===== verification/Interest.thy ===== *)
theory Interest
  imports Leaf_Decoders Clone_Records "HOL-Library.AList" "HOL-Library.Product_Lexorder"
begin

text \<open>
  The OneSync-NG interest manager, \<open>crates/baston-zone/src/interest_ng.rs\<close>: the snapshot an
  interest tick reasons over, the uniform-grid index, the per-client view with its priority
  accumulators, the tick that turns them into a send plan within a byte budget, and the rollback
  operations of the NAK protocol. A \<open>HashMap\<close> is an association list with distinct keys; the order of
  the list is the iteration order, which no result of this module depends on.
\<close>

section \<open>Snapshot, configuration\<close>

definition PRIORITY_CAP :: fl where "PRIORITY_CAP = fl_of_int F32 1000000"

record entity_snapshot =
  sn_object_id :: u16
  sn_uniqifier :: u16
  sn_owner :: u32
  sn_position :: vec3
  sn_velocity :: vec3
  sn_entity_type :: net_obj_entity_type
  sn_routing_bucket :: u32
  sn_frame_index :: u64
  sn_data_len :: nat

record interest_config =
  aoi_radius :: fl
  budget_bytes :: nat
  distance_weight :: fl
  closing_weight :: fl
  staleness_weight :: fl
  hysteresis_m :: fl
  remove_budget_bytes :: nat

definition query_radius :: "interest_config \<Rightarrow> fl" where
  "query_radius cfg = fl_add F32 (aoi_radius cfg) (hysteresis_m cfg)"

definition interest_config_default :: interest_config where
  "interest_config_default =
     \<lparr>aoi_radius = fl_of_int F32 424, budget_bytes = 24 * 1024, distance_weight = fl_of_int F32 10,
      closing_weight = fl_lit F32 1 2, staleness_weight = fl_of_int F32 1,
      hysteresis_m = fl_of_int F32 20, remove_budget_bytes = 4 * 1024\<rparr>"

record entity_view =
  ev_priority :: fl
  ev_base_frame :: u64
  ev_created :: bool
  ev_seen_this_tick :: bool
  ev_uniqifier :: u16

section \<open>Spatial index\<close>

record spatial_index =
  cell_size :: fl
  si_cells :: "u32 \<times> u32 \<rightharpoonup> nat list"

definition cell_of :: "vec3 \<Rightarrow> fl \<Rightarrow> u32 \<times> u32" where
  "cell_of position width = (case position of (x, y, z) \<Rightarrow>
     (fl_to_i32 (fl_floor F32 (fl_div F32 x width)), fl_to_i32 (fl_floor F32 (fl_div F32 y width))))"

definition push_cell :: "fl \<Rightarrow> nat \<times> entity_snapshot \<Rightarrow> (u32 \<times> u32 \<rightharpoonup> nat list) \<Rightarrow> u32 \<times> u32 \<rightharpoonup> nat list" where
  "push_cell width ie cells = (case ie of (i, e) \<Rightarrow>
     let c = cell_of (sn_position e) width
     in cells(c \<mapsto> (case cells c of None \<Rightarrow> [] | Some b \<Rightarrow> b) @ [i]))"

definition si_build :: "entity_snapshot list \<Rightarrow> fl \<Rightarrow> spatial_index" where
  "si_build world radius =
     (let width = fl_max radius (fl_of_int F32 1);
          count = min (length world) 4294967295
      in \<lparr>cell_size = width, si_cells = fold (push_cell width) (enumerate 0 (take count world)) Map.empty\<rparr>)"

definition neighbours :: "u32 \<times> u32 \<Rightarrow> (u32 \<times> u32) list" where
  "neighbours c = (case c of (cx, cy) \<Rightarrow>
     concat (map (\<lambda>dx. map (\<lambda>dy. (cx + dx, cy + dy)) [- 1, 0, 1]) [- 1, 0, 1]))"

text \<open>\<open>for_each_near\<close> as the list of the indices it visits, in the order of the visits.\<close>

definition for_each_near :: "spatial_index \<Rightarrow> vec3 \<Rightarrow> nat list" where
  "for_each_near idx focus =
     concat (map (\<lambda>c. case si_cells idx c of None \<Rightarrow> [] | Some b \<Rightarrow> b)
       (neighbours (cell_of focus (cell_size idx))))"

section \<open>Client view\<close>

record tick_plan =
  tp_creates :: "u16 list"
  tp_syncs :: "u16 list"
  tp_removes :: "(u16 \<times> u16) list"

definition tick_plan_default :: tick_plan where
  "tick_plan_default = \<lparr>tp_creates = [], tp_syncs = [], tp_removes = []\<rparr>"

type_synonym views = "(u16 \<times> entity_view) list"

record client_view =
  cv_net_id :: u16
  cv_views :: views

definition cv_new :: "u16 \<Rightarrow> client_view" where
  "cv_new net_id = \<lparr>cv_net_id = net_id, cv_views = []\<rparr>"

definition scope_len :: "client_view \<Rightarrow> nat" where
  "scope_len v = length (cv_views v)"

record tick_context =
  tc_net_id :: u16
  tc_focus :: vec3
  tc_focus_velocity :: vec3
  tc_bucket :: u32
  tc_cfg :: interest_config

text \<open>The horizontal offset from the focus, the squared distance, and the relevance test: not the
  client's own entity, same bucket, within the radius (wider for an entity already in scope).\<close>

definition offset_xy :: "vec3 \<Rightarrow> vec3 \<Rightarrow> fl \<times> fl" where
  "offset_xy p focus = (fl_sub F32 (fst p) (fst focus), fl_sub F32 (fst (snd p)) (fst (snd focus)))"

definition dist2 :: "fl \<times> fl \<Rightarrow> fl" where
  "dist2 d = (case d of (dx, dy) \<Rightarrow> fl_add F32 (fl_mul F32 dx dx) (fl_mul F32 dy dy))"

definition scope_radius :: "interest_config \<Rightarrow> bool \<Rightarrow> fl" where
  "scope_radius cfg already_scoped =
     fl_add F32 (aoi_radius cfg) (if already_scoped then hysteresis_m cfg else fl_of_int F32 0)"

definition relevant :: "tick_context \<Rightarrow> bool \<Rightarrow> entity_snapshot \<Rightarrow> bool" where
  "relevant ctx already_scoped e \<longleftrightarrow>
     \<not> (ucast (tc_net_id ctx) = sn_owner e \<or> sn_routing_bucket e \<noteq> tc_bucket ctx) \<and>
     \<not> fl_lt (let r = scope_radius (tc_cfg ctx) already_scoped in fl_mul F32 r r)
         (dist2 (offset_xy (sn_position e) (tc_focus ctx)))"

definition EPSILON32 :: fl where "EPSILON32 = fl_lit F32 1 (2 ^ 23)"

definition closing_speed :: "tick_context \<Rightarrow> entity_snapshot \<Rightarrow> fl \<Rightarrow> fl" where
  "closing_speed ctx e dist = (case offset_xy (sn_position e) (tc_focus ctx) of (dx, dy) \<Rightarrow>
     if fl_lt EPSILON32 dist
     then (case offset_xy (sn_velocity e) (tc_focus_velocity ctx) of (vx, vy) \<Rightarrow>
             let radial_velocity = fl_div F32 (fl_add F32 (fl_mul F32 vx dx) (fl_mul F32 vy dy)) dist
             in fl_max (fl_neg radial_velocity) (fl_of_int F32 0))
     else fl_of_int F32 0)"

definition accrue :: "tick_context \<Rightarrow> entity_snapshot \<Rightarrow> fl \<Rightarrow> fl" where
  "accrue ctx e prio =
     (let cfg = tc_cfg ctx;
          dist = fl_sqrt F32 (dist2 (offset_xy (sn_position e) (tc_focus ctx)));
          dist_term = fl_mul F32 (distance_weight cfg)
            (fl_max (fl_sub F32 (fl_of_int F32 1) (fl_div F32 dist (aoi_radius cfg))) (fl_of_int F32 0));
          closing_term = fl_mul F32 (closing_weight cfg) (closing_speed ctx e dist)
      in fl_min (fl_add F32 (fl_add F32 (fl_add F32 prio dist_term) closing_term) (staleness_weight cfg))
           PRIORITY_CAP)"

definition fresh_view :: "u16 \<Rightarrow> entity_view" where
  "fresh_view uniqifier = \<lparr>ev_priority = fl_of_int F32 0, ev_base_frame = 0, ev_created = False,
     ev_seen_this_tick = False, ev_uniqifier = uniqifier\<rparr>"

type_synonym candidate = "u16 \<times> fl \<times> nat"

text \<open>The callback of \<open>for_each_near\<close>.\<close>

definition visit :: "tick_context \<Rightarrow> entity_snapshot list \<Rightarrow> nat \<Rightarrow> views \<times> candidate list \<Rightarrow> views \<times> candidate list" where
  "visit ctx world i vc = (case vc of (views, candidates) \<Rightarrow>
     if length world \<le> i then (views, candidates)
     else let e = world ! i; known = map_of views (sn_object_id e) in
       if \<not> relevant ctx (known \<noteq> None) e then (views, candidates)
       else let view0 = (case known of Some v \<Rightarrow> v | None \<Rightarrow> fresh_view (sn_uniqifier e));
                prio = accrue ctx e (ev_priority view0);
                view = view0\<lparr>ev_seen_this_tick := True, ev_uniqifier := sn_uniqifier e, ev_priority := prio\<rparr>
            in (AList.update (sn_object_id e) view views, candidates @ [(sn_object_id e, prio, i)]))"

definition reset_seen :: "views \<Rightarrow> views" where
  "reset_seen views = map (\<lambda>(k, v). (k, v\<lparr>ev_seen_this_tick := False\<rparr>)) views"

text \<open>\<open>f32::total_cmp\<close> as the order of a key. A NaN is placed above everything; no priority is a
  NaN, since \<open>f32::min\<close> with the cap drops it.\<close>

fun total_key :: "fl \<Rightarrow> int \<times> int" where
  "total_key NaN = (2, 0)"
| "total_key (Inf s) = (if s then - 1 else 1, 0)"
| "total_key (Fin s m) = (0, if s then - int m - 1 else int m)"

definition candidate_key :: "candidate \<Rightarrow> (int \<times> int) \<times> u16" where
  "candidate_key c = (case c of (object_id, prio, i) \<Rightarrow>
     ((- fst (total_key prio), - snd (total_key prio)), object_id))"

definition exited :: "views \<Rightarrow> (u16 \<times> u16) list" where
  "exited views = sort_key fst
     (map (\<lambda>(k, v). (k, ev_uniqifier v)) (filter (\<lambda>(k, v). \<not> ev_seen_this_tick v) views))"

definition record_cost :: "entity_snapshot \<Rightarrow> nat" where
  "record_cost e = 22 + sn_data_len e"

record send_state =
  ss_views :: views
  ss_plan :: tick_plan
  ss_spent :: nat

text \<open>One round of the send loop; \<open>None\<close> is the panic of \<open>expect\<close> or of an index out of range.\<close>

definition send_one :: "interest_config \<Rightarrow> entity_snapshot list \<Rightarrow> candidate \<Rightarrow> send_state \<Rightarrow> send_state option" where
  "send_one cfg world c s = (case c of (object_id, _, idx) \<Rightarrow>
     if length world \<le> idx then None
     else let e = world ! idx; cost = record_cost e in
       if 0 < ss_spent s \<and> budget_bytes cfg < ss_spent s + cost then Some s
       else case map_of (ss_views s) object_id of
              None \<Rightarrow> None
            | Some view \<Rightarrow>
                let view' = view\<lparr>ev_created := True, ev_base_frame := sn_frame_index e,
                                 ev_priority := fl_of_int F32 0\<rparr>;
                    views' = AList.update object_id view' (ss_views s)
                in if \<not> ev_created view
                   then Some (s\<lparr>ss_views := views', ss_spent := ss_spent s + cost,
                          ss_plan := (ss_plan s)\<lparr>tp_creates := tp_creates (ss_plan s) @ [object_id]\<rparr>\<rparr>)
                   else if ev_base_frame view < sn_frame_index e
                   then Some (s\<lparr>ss_views := views', ss_spent := ss_spent s + cost,
                          ss_plan := (ss_plan s)\<lparr>tp_syncs := tp_syncs (ss_plan s) @ [object_id]\<rparr>\<rparr>)
                   else Some s)"

fun send_all :: "interest_config \<Rightarrow> entity_snapshot list \<Rightarrow> candidate list \<Rightarrow> send_state \<Rightarrow> send_state option" where
  "send_all cfg world [] s = Some s"
| "send_all cfg world (c # cs) s =
     (case send_one cfg world c s of None \<Rightarrow> None | Some s' \<Rightarrow> send_all cfg world cs s')"

definition tick_with_context ::
  "tick_context \<Rightarrow> entity_snapshot list \<Rightarrow> spatial_index \<Rightarrow> views \<Rightarrow> (tick_plan \<times> views) option" where
  "tick_with_context ctx world idx views0 =
     (let (views1, candidates) = fold (visit ctx world) (for_each_near idx (tc_focus ctx)) (reset_seen views0, []);
          max_removes = max (remove_budget_bytes (tc_cfg ctx) div 8) 1;
          removes = take max_removes (exited views1);
          views2 = fold (\<lambda>(k, u). AList.delete k) removes views1;
          plan = tick_plan_default\<lparr>tp_removes := removes\<rparr>
      in case send_all (tc_cfg ctx) world (sort_key candidate_key candidates)
                \<lparr>ss_views = views2, ss_plan = plan, ss_spent = 0\<rparr> of
           None \<Rightarrow> None
         | Some s \<Rightarrow> Some (ss_plan s, ss_views s))"

definition cv_tick_with_context ::
  "vec3 \<Rightarrow> vec3 \<Rightarrow> u32 \<Rightarrow> entity_snapshot list \<Rightarrow> spatial_index \<Rightarrow> interest_config \<Rightarrow> client_view \<Rightarrow>
     (tick_plan \<times> client_view) option" where
  "cv_tick_with_context focus focus_velocity bucket world idx cfg v =
     map_option (\<lambda>(plan, views). (plan, v\<lparr>cv_views := views\<rparr>))
       (tick_with_context \<lparr>tc_net_id = cv_net_id v, tc_focus = focus, tc_focus_velocity = focus_velocity,
          tc_bucket = bucket, tc_cfg = cfg\<rparr> world idx (cv_views v))"

definition cv_tick :: "vec3 \<Rightarrow> entity_snapshot list \<Rightarrow> interest_config \<Rightarrow> client_view \<Rightarrow> (tick_plan \<times> client_view) option" where
  "cv_tick focus world cfg v =
     (let z = fl_of_int F32 0
      in cv_tick_with_context focus (z, z, z) 0 world (si_build world (query_radius cfg)) cfg v)"

section \<open>Reliability\<close>

definition base_frame :: "u16 \<Rightarrow> client_view \<Rightarrow> u64 option" where
  "base_frame object_id v = map_option ev_base_frame (map_of (cv_views v) object_id)"

definition upd_view :: "u16 \<Rightarrow> (entity_view \<Rightarrow> entity_view) \<Rightarrow> client_view \<Rightarrow> client_view" where
  "upd_view object_id f v = v\<lparr>cv_views := AList.map_entry object_id f (cv_views v)\<rparr>"

definition rollback :: "u16 \<Rightarrow> u64 \<Rightarrow> bool \<Rightarrow> client_view \<Rightarrow> client_view" where
  "rollback object_id frame recreate v = upd_view object_id
     (\<lambda>ev. let ev1 = ev\<lparr>ev_base_frame := min (ev_base_frame ev) frame\<rparr>
           in if recreate then ev1\<lparr>ev_created := False\<rparr> else ev1) v"

definition rollback_all :: "u64 \<Rightarrow> client_view \<Rightarrow> client_view" where
  "rollback_all frame v =
     v\<lparr>cv_views := map (\<lambda>(k, ev). (k, ev\<lparr>ev_base_frame := min (ev_base_frame ev) frame\<rparr>)) (cv_views v)\<rparr>"

definition force_recreate :: "u16 \<Rightarrow> client_view \<Rightarrow> client_view" where
  "force_recreate object_id v = upd_view object_id (\<lambda>ev. ev\<lparr>ev_created := False, ev_base_frame := 0\<rparr>) v"

definition ack_frame :: "u64 \<Rightarrow> client_view \<Rightarrow> client_view" where
  "ack_frame frame v = v"

end
