(* ===== verification/Routing_Buckets.thy ===== *)
theory Routing_Buckets
  imports Prelude
begin

text \<open>
  The routing-bucket registry, \<open>crates/baston-zone/src/routing_bucket.rs\<close>: which bucket every
  player and every entity is in, and the policy of every bucket. Bucket 0 is the default and is
  never stored. The lock around the registry makes every method atomic, so a method is a function
  on the registry state. The stored maps are shown to refine total assignments of buckets.
\<close>

section \<open>Registry\<close>

datatype lockdown_mode = LockInactive | LockRelaxed | LockStrict

record bucket_policy =
  bp_lockdown :: lockdown_mode
  bp_population_enabled :: bool

definition bucket_policy_default :: bucket_policy where
  "bucket_policy_default = \<lparr>bp_lockdown = LockInactive, bp_population_enabled = True\<rparr>"

record registry_state =
  rs_players :: "u32 \<rightharpoonup> u32"
  rs_entities :: "u16 \<rightharpoonup> u32"
  rs_policies :: "u32 \<rightharpoonup> bucket_policy"

definition registry_default :: registry_state where
  "registry_default = \<lparr>rs_players = Map.empty, rs_entities = Map.empty, rs_policies = Map.empty\<rparr>"

definition unwrap_or :: "'a \<Rightarrow> 'a option \<Rightarrow> 'a" where
  "unwrap_or d x = (case x of Some v \<Rightarrow> v | None \<Rightarrow> d)"

definition player_bucket :: "u32 \<Rightarrow> registry_state \<Rightarrow> u32" where
  "player_bucket source r = unwrap_or 0 (rs_players r source)"

definition entity_bucket :: "u16 \<Rightarrow> registry_state \<Rightarrow> u32" where
  "entity_bucket object_id r = unwrap_or 0 (rs_entities r object_id)"

definition set_player_bucket :: "u32 \<Rightarrow> u32 \<Rightarrow> registry_state \<Rightarrow> registry_state" where
  "set_player_bucket source bucket r =
     (if bucket = 0 then r\<lparr>rs_players := (rs_players r)(source := None)\<rparr>
      else r\<lparr>rs_players := (rs_players r)(source \<mapsto> bucket)\<rparr>)"

definition set_entity_bucket :: "u16 \<Rightarrow> u32 \<Rightarrow> registry_state \<Rightarrow> registry_state" where
  "set_entity_bucket object_id bucket r =
     (if bucket = 0 then r\<lparr>rs_entities := (rs_entities r)(object_id := None)\<rparr>
      else r\<lparr>rs_entities := (rs_entities r)(object_id \<mapsto> bucket)\<rparr>)"

definition remove_player :: "u32 \<Rightarrow> registry_state \<Rightarrow> registry_state" where
  "remove_player source r = r\<lparr>rs_players := (rs_players r)(source := None)\<rparr>"

definition remove_entity :: "u16 \<Rightarrow> registry_state \<Rightarrow> registry_state" where
  "remove_entity object_id r = r\<lparr>rs_entities := (rs_entities r)(object_id := None)\<rparr>"

definition policy :: "u32 \<Rightarrow> registry_state \<Rightarrow> bucket_policy" where
  "policy bucket r = unwrap_or bucket_policy_default (rs_policies r bucket)"

definition set_lockdown :: "u32 \<Rightarrow> lockdown_mode \<Rightarrow> registry_state \<Rightarrow> registry_state" where
  "set_lockdown bucket lockdown r =
     r\<lparr>rs_policies := (rs_policies r)(bucket \<mapsto>
         (unwrap_or bucket_policy_default (rs_policies r bucket))\<lparr>bp_lockdown := lockdown\<rparr>)\<rparr>"

definition set_population_enabled :: "u32 \<Rightarrow> bool \<Rightarrow> registry_state \<Rightarrow> registry_state" where
  "set_population_enabled bucket enabled r =
     r\<lparr>rs_policies := (rs_policies r)(bucket \<mapsto>
         (unwrap_or bucket_policy_default (rs_policies r bucket))\<lparr>bp_population_enabled := enabled\<rparr>)\<rparr>"

definition visible :: "u32 \<Rightarrow> u16 \<Rightarrow> registry_state \<Rightarrow> bool" where
  "visible source object_id r \<longleftrightarrow> player_bucket source r = entity_bucket object_id r"

definition allows_client_create :: "u32 \<Rightarrow> registry_state \<Rightarrow> bool" where
  "allows_client_create source r \<longleftrightarrow> bp_lockdown (policy (player_bucket source r) r) \<noteq> LockStrict"

definition allows_takeover :: "u32 \<Rightarrow> u32 \<Rightarrow> u16 \<Rightarrow> registry_state \<Rightarrow> bool" where
  "allows_takeover sender target object_id r \<longleftrightarrow>
     (let bucket = entity_bucket object_id r
      in player_bucket sender r = bucket \<and> player_bucket target r = bucket)"

section \<open>Sparse tables\<close>

text \<open>Both bucket maps are sparse tables over a default: \<open>look\<close> is total, \<open>put\<close> and \<open>forget\<close> act on
  it as function updates, and the default value is never stored.\<close>

locale sparse_table =
  fixes look :: "'k \<Rightarrow> 's \<Rightarrow> 'v"
    and put :: "'k \<Rightarrow> 'v \<Rightarrow> 's \<Rightarrow> 's"
    and forget :: "'k \<Rightarrow> 's \<Rightarrow> 's"
    and stored :: "'s \<Rightarrow> 'k \<rightharpoonup> 'v"
    and dflt :: 'v
  assumes look_put: "look k (put k' v s) = (if k = k' then v else look k s)"
    and look_forget: "look k (forget k' s) = (if k = k' then dflt else look k s)"
    and stored_put: "stored (put k v s) = (stored s)(k := if v = dflt then None else Some v)"
    and stored_forget: "stored (forget k s) = (stored s)(k := None)"
begin

definition sparse :: "'s \<Rightarrow> bool" where
  "sparse s \<longleftrightarrow> (\<forall>k. stored s k \<noteq> Some dflt)"

lemma sparse_put: "sparse s \<Longrightarrow> sparse (put k v s)"
  by (simp add: sparse_def stored_put)

lemma sparse_forget: "sparse s \<Longrightarrow> sparse (forget k s)"
  by (simp add: sparse_def stored_forget)

lemma put_dflt: "look k' (put k dflt s) = look k' (forget k s)"
  by (simp add: look_put look_forget)

lemma fold_put:
  "look k (fold (\<lambda>(k', v). put k' v) kvs s) = unwrap_or (look k s) (map_of (rev kvs) k)"
  by (induction kvs arbitrary: s) (auto simp: look_put unwrap_or_def map_add_def split: option.splits)

end

interpretation players: sparse_table player_bucket set_player_bucket remove_player rs_players 0
  by unfold_locales
    (auto simp: player_bucket_def set_player_bucket_def remove_player_def unwrap_or_def)

interpretation placed: sparse_table entity_bucket set_entity_bucket remove_entity rs_entities 0
  by unfold_locales
    (auto simp: entity_bucket_def set_entity_bucket_def remove_entity_def unwrap_or_def)

lemmas bucket_looks [simp] = players.look_put players.look_forget placed.look_put placed.look_forget

lemma bucket_frame [simp]:
  "player_bucket k (set_entity_bucket i b r) = player_bucket k r"
  "player_bucket k (remove_entity i r) = player_bucket k r"
  "entity_bucket i (set_player_bucket k b r) = entity_bucket i r"
  "entity_bucket i (remove_player k r) = entity_bucket i r"
  "player_bucket k (set_lockdown b m r) = player_bucket k r"
  "entity_bucket i (set_lockdown b m r) = entity_bucket i r"
  "player_bucket k (set_population_enabled b e r) = player_bucket k r"
  "entity_bucket i (set_population_enabled b e r) = entity_bucket i r"
  by (simp_all add: player_bucket_def entity_bucket_def set_entity_bucket_def set_player_bucket_def
      remove_entity_def remove_player_def set_lockdown_def set_population_enabled_def)

lemma policy_set [simp]:
  "policy b (set_lockdown b' m r) = (if b = b' then (policy b r)\<lparr>bp_lockdown := m\<rparr> else policy b r)"
  "policy b (set_population_enabled b' e r) =
     (if b = b' then (policy b r)\<lparr>bp_population_enabled := e\<rparr> else policy b r)"
  "policy b (set_player_bucket k v r) = policy b r"
  "policy b (set_entity_bucket i v r) = policy b r"
  "policy b (remove_player k r) = policy b r"
  "policy b (remove_entity i r) = policy b r"
  by (auto simp: policy_def set_lockdown_def set_population_enabled_def unwrap_or_def
      set_player_bucket_def set_entity_bucket_def remove_player_def remove_entity_def)

section \<open>Reachable registries\<close>

datatype registry_cmd =
    RcSetPlayer u32 u32
  | RcSetEntity u16 u32
  | RcRemovePlayer u32
  | RcRemoveEntity u16
  | RcSetLockdown u32 lockdown_mode
  | RcSetPopulation u32 bool

fun registry_exec :: "registry_cmd \<Rightarrow> registry_state \<Rightarrow> registry_state" where
  "registry_exec (RcSetPlayer k b) r = set_player_bucket k b r"
| "registry_exec (RcSetEntity i b) r = set_entity_bucket i b r"
| "registry_exec (RcRemovePlayer k) r = remove_player k r"
| "registry_exec (RcRemoveEntity i) r = remove_entity i r"
| "registry_exec (RcSetLockdown b m) r = set_lockdown b m r"
| "registry_exec (RcSetPopulation b e) r = set_population_enabled b e r"

text \<open>The abstract registry: total assignments of buckets and policies.\<close>

record bucket_spec =
  sp_player :: "u32 \<Rightarrow> u32"
  sp_entity :: "u16 \<Rightarrow> u32"
  sp_policy :: "u32 \<Rightarrow> bucket_policy"

fun spec_exec :: "registry_cmd \<Rightarrow> bucket_spec \<Rightarrow> bucket_spec" where
  "spec_exec (RcSetPlayer k b) a = a\<lparr>sp_player := (sp_player a)(k := b)\<rparr>"
| "spec_exec (RcSetEntity i b) a = a\<lparr>sp_entity := (sp_entity a)(i := b)\<rparr>"
| "spec_exec (RcRemovePlayer k) a = a\<lparr>sp_player := (sp_player a)(k := 0)\<rparr>"
| "spec_exec (RcRemoveEntity i) a = a\<lparr>sp_entity := (sp_entity a)(i := 0)\<rparr>"
| "spec_exec (RcSetLockdown b m) a = a\<lparr>sp_policy := (sp_policy a)(b := (sp_policy a b)\<lparr>bp_lockdown := m\<rparr>)\<rparr>"
| "spec_exec (RcSetPopulation b e) a =
     a\<lparr>sp_policy := (sp_policy a)(b := (sp_policy a b)\<lparr>bp_population_enabled := e\<rparr>)\<rparr>"

definition bucket_abs :: "registry_state \<Rightarrow> bucket_spec" where
  "bucket_abs r = \<lparr>sp_player = (\<lambda>k. player_bucket k r), sp_entity = (\<lambda>i. entity_bucket i r),
     sp_policy = (\<lambda>b. policy b r)\<rparr>"

lemma exec_abs: "bucket_abs (registry_exec c r) = spec_exec c (bucket_abs r)"
  by (cases c) (auto simp: bucket_abs_def fun_eq_iff)

lemma exec_sparse:
  "players.sparse r \<and> placed.sparse r \<Longrightarrow>
     players.sparse (registry_exec c r) \<and> placed.sparse (registry_exec c r)"
  by (cases c) (auto simp: players.sparse_def placed.sparse_def players.stored_put placed.stored_put
      players.stored_forget placed.stored_forget set_player_bucket_def set_entity_bucket_def
      remove_player_def remove_entity_def set_lockdown_def set_population_enabled_def)

section \<open>Properties\<close>

text \<open>The registry refines total bucket assignments. After any sequence of operations the three
  lookups are those of the specification that starts with everybody in bucket 0 under the default
  policy and updates one point per operation; and the default bucket is never stored, so a registry
  holds entries of the non-default players and entities only.\<close>

theorem registry_refines_assignment:
  "bucket_abs (fold registry_exec cs registry_default) =
     fold spec_exec cs \<lparr>sp_player = (\<lambda>_. 0), sp_entity = (\<lambda>_. 0), sp_policy = (\<lambda>_. bucket_policy_default)\<rparr> \<and>
   0 \<notin> ran (rs_players (fold registry_exec cs registry_default)) \<and>
   0 \<notin> ran (rs_entities (fold registry_exec cs registry_default))"
proof -
  have "bucket_abs (fold registry_exec cs r) = fold spec_exec cs (bucket_abs r)" for r
    by (induction cs arbitrary: r) (simp_all add: exec_abs)
  moreover have "bucket_abs registry_default =
      \<lparr>sp_player = (\<lambda>_. 0), sp_entity = (\<lambda>_. 0), sp_policy = (\<lambda>_. bucket_policy_default)\<rparr>"
    by (simp add: bucket_abs_def registry_default_def player_bucket_def entity_bucket_def policy_def unwrap_or_def)
  moreover have "players.sparse r \<and> placed.sparse r \<Longrightarrow>
      players.sparse (fold registry_exec cs r) \<and> placed.sparse (fold registry_exec cs r)" for r
    by (induction cs arbitrary: r) (simp_all add: exec_sparse)
  moreover have "players.sparse registry_default \<and> placed.sparse registry_default"
    by (simp add: players.sparse_def placed.sparse_def registry_default_def)
  ultimately show ?thesis by (fastforce simp: players.sparse_def placed.sparse_def ran_def)
qed

end
