(* ===== verification/Game_State.thy ===== *)
theory Game_State
  imports Interest Routing_Buckets Packed_Stream Object_Ids Reliability Entity_State Sync_Write
begin

text \<open>
  The server-authoritative game state, \<open>crates/baston-zone/src/onesync/mod.rs\<close>: the entity
  registry, the object-id allocator with its leases, the clients with their views, server-created
  entities and their reassignment, and the outbound tick that turns the plan of the interest manager
  into packets. \<open>HashMap\<close>s are association lists with distinct keys whose order is the iteration
  order; \<open>Vec<IdState>\<close> is a list, and indexing it out of range is a panic, the value \<open>None\<close>.
\<close>

section \<open>State\<close>

definition MAX_OBJECT_ID_NATIVE :: u16 where "MAX_OBJECT_ID_NATIVE = 8191"
definition MAX_OBJECT_ID_BEYOND :: u16 where "MAX_OBJECT_ID_BEYOND = 65534"

definition squared_distance :: "vec3 \<Rightarrow> vec3 \<Rightarrow> fl" where
  "squared_distance a b = (case (a, b) of ((ax, ay, az), (bx, by', bz)) \<Rightarrow>
     let dx = fl_sub F32 ax bx; dy = fl_sub F32 ay by'; dz = fl_sub F32 az bz
     in fl_add F32 (fl_add F32 (fl_mul F32 dx dx) (fl_mul F32 dy dy)) (fl_mul F32 dz dz))"

record server_entity =
  se_object_id :: u16
  se_uniqifier :: u16
  se_owner :: u32
  se_entity_type :: net_obj_entity_type
  se_creation_token :: u32
  se_data :: "u8 list"
  se_create_data :: "u8 list"
  se_frame_index :: u64
  se_position :: vec3
  se_position_known :: bool
  se_sector :: "u32 \<times> u32 \<times> u32"
  se_sector_position :: vec3
  se_velocity :: vec3
  se_routing_bucket :: u32
  se_health :: "fl option"
  se_max_health :: "fl option"
  se_armour :: "fl option"
  se_model :: "u32 option"
  se_vehicle_seat :: "(u16 \<times> u8) option"
  se_first_owner :: u32
  se_nodes :: entity_node_state
  se_heading :: "fl option"
  se_desired_heading :: "fl option"
  se_server_owned :: bool

definition apply_sync_data :: "sync_node_data \<Rightarrow> server_entity \<Rightarrow> server_entity" where
  "apply_sync_data d e0 =
     (let e1 = (case sector d of Some s \<Rightarrow> e0\<lparr>se_sector := s\<rparr> | None \<Rightarrow> e0);
          e2 = (case sector_position d of Some p \<Rightarrow> e1\<lparr>se_sector_position := p\<rparr> | None \<Rightarrow> e1);
          e3 = (if sector d \<noteq> None \<or> sector_position d \<noteq> None
                then e2\<lparr>se_position := world_position (se_sector e2) (se_sector_position e2), se_position_known := True\<rparr>
                else e2);
          e4 = (case velocity d of Some v \<Rightarrow> e3\<lparr>se_velocity := v\<rparr> | None \<Rightarrow> e3)
      in e4\<lparr>se_health := merge_field (se_health e4) (health d),
            se_max_health := merge_field (se_max_health e4) (max_health d),
            se_armour := merge_field (se_armour e4) (armour d),
            se_model := merge_field (se_model e4) (model d),
            se_vehicle_seat := merge_field (se_vehicle_seat e4) (vehicle_seat d),
            se_heading := merge_field (se_heading e4) (heading d),
            se_desired_heading := merge_field (se_desired_heading e4) (desired_heading d),
            se_nodes := es_merge d (se_nodes e4)\<rparr>)"

record client_state =
  cs_leased :: "u16 list"
  cs_frame_index :: u64
  cs_ack_ts :: u32
  cs_view :: client_view

definition cs_new :: "u16 \<Rightarrow> client_state" where
  "cs_new net_id = \<lparr>cs_leased = [], cs_frame_index = 0, cs_ack_ts = 0, cs_view = cv_new net_id\<rparr>"

datatype id_state = IdFree | IdLeased | IdUsed

record server_game_state =
  gs_entities :: "(u16 \<times> server_entity) list"
  gs_clients :: "(u32 \<times> client_state) list"
  gs_ids :: "id_state list"
  gs_max_object_id :: u16
  gs_big_mode :: bool
  gs_length_hack :: bool
  gs_build :: game_build
  gs_frame_index :: u64
  gs_creation_token :: u32
  gs_routing :: registry_state

definition with_build :: "bool \<Rightarrow> bool \<Rightarrow> game_build \<Rightarrow> server_game_state" where
  "with_build big_mode hack build =
     (let max_object_id = (if hack then MAX_OBJECT_ID_BEYOND else MAX_OBJECT_ID_NATIVE)
      in \<lparr>gs_entities = [], gs_clients = [], gs_ids = replicate (unat max_object_id + 1) IdFree,
          gs_max_object_id = max_object_id, gs_big_mode = big_mode, gs_length_hack = hack,
          gs_build = build, gs_frame_index = 1, gs_creation_token = 0, gs_routing = registry_default\<rparr>)"

text \<open>Indexing the vector of id states; out of range is a panic.\<close>

definition ids_get :: "u16 \<Rightarrow> id_state list \<Rightarrow> id_state option" where
  "ids_get i ids = (if unat i < length ids then Some (ids ! unat i) else None)"

definition ids_set :: "u16 \<Rightarrow> id_state \<Rightarrow> id_state list \<Rightarrow> id_state list option" where
  "ids_set i st ids = (if unat i < length ids then Some (ids[unat i := st]) else None)"

section \<open>Queries\<close>

definition entity :: "u16 \<Rightarrow> server_game_state \<Rightarrow> server_entity option" where
  "entity object_id s = map_of (gs_entities s) object_id"

definition entity_count :: "server_game_state \<Rightarrow> nat" where
  "entity_count s = length (gs_entities s)"

definition server_owned_count :: "server_game_state \<Rightarrow> nat" where
  "server_owned_count s = length (filter (\<lambda>(k, e). se_server_owned e) (gs_entities s))"

definition owned_by :: "u32 \<Rightarrow> server_game_state \<Rightarrow> nat" where
  "owned_by source s = length (filter (\<lambda>(k, e). se_owner e = source) (gs_entities s))"

definition client_scope_len :: "u32 \<Rightarrow> server_game_state \<Rightarrow> nat option" where
  "client_scope_len source s = map_option (\<lambda>c. scope_len (cs_view c)) (map_of (gs_clients s) source)"

definition client_frame_index :: "u32 \<Rightarrow> server_game_state \<Rightarrow> u64 option" where
  "client_frame_index source s = map_option cs_frame_index (map_of (gs_clients s) source)"

record object_id_usage =
  ou_used :: u32
  ou_leased :: u32
  ou_free :: u32
  ou_max :: u32

fun count_state :: "id_state \<Rightarrow> u32 \<times> u32 \<Rightarrow> u32 \<times> u32" where
  "count_state IdUsed (used, leased) = (used + 1, leased)"
| "count_state IdLeased (used, leased) = (used, leased + 1)"
| "count_state IdFree (used, leased) = (used, leased)"

text \<open>The slice \<open>[1..=max]\<close> panics when the vector is shorter.\<close>

definition gs_object_id_usage :: "server_game_state \<Rightarrow> object_id_usage option" where
  "gs_object_id_usage s =
     (let m = unat (gs_max_object_id s) in
      if length (gs_ids s) \<le> m then None
      else let (used, leased) = fold count_state (drop 1 (take (m + 1) (gs_ids s))) (0, 0);
               total = ucast (gs_max_object_id s)
           in Some \<lparr>ou_used = used, ou_leased = leased, ou_free = total - used - leased, ou_max = total\<rparr>)"

definition client_sources :: "server_game_state \<Rightarrow> u32 list" where
  "client_sources s = map fst (gs_clients s)"

definition entity_ids :: "server_game_state \<Rightarrow> u16 list" where
  "entity_ids s = sort (map fst (gs_entities s))"

definition client_focus_map :: "server_game_state \<Rightarrow> u32 \<rightharpoonup> vec3 \<times> vec3" where
  "client_focus_map s = fold (\<lambda>(k, e) m.
     if se_entity_type e = Player \<and> se_position_known e then m(se_owner e \<mapsto> (se_position e, se_velocity e)) else m)
     (gs_entities s) Map.empty"

definition snapshot_entity :: "server_entity \<Rightarrow> entity_snapshot" where
  "snapshot_entity e = \<lparr>sn_object_id = se_object_id e, sn_uniqifier = se_uniqifier e, sn_owner = se_owner e,
     sn_position = se_position e, sn_velocity = se_velocity e, sn_entity_type = se_entity_type e,
     sn_routing_bucket = se_routing_bucket e, sn_frame_index = se_frame_index e, sn_data_len = length (se_data e)\<rparr>"

definition world_snapshot :: "server_game_state \<Rightarrow> entity_snapshot list" where
  "world_snapshot s = sort_key sn_object_id
     (map snapshot_entity (filter (\<lambda>e. se_position_known e \<and> se_owner e \<noteq> 0) (map snd (gs_entities s))))"

section \<open>Buckets, clock, clients\<close>

definition set_player_routing_bucket :: "u32 \<Rightarrow> u32 \<Rightarrow> server_game_state \<Rightarrow> server_game_state" where
  "set_player_routing_bucket source bucket s = s\<lparr>gs_routing := set_player_bucket source bucket (gs_routing s)\<rparr>"

definition set_entity_routing_bucket :: "u16 \<Rightarrow> u32 \<Rightarrow> server_game_state \<Rightarrow> server_game_state" where
  "set_entity_routing_bucket object_id bucket s =
     s\<lparr>gs_routing := set_entity_bucket object_id bucket (gs_routing s),
       gs_entities := AList.map_entry object_id (\<lambda>e. e\<lparr>se_routing_bucket := bucket\<rparr>) (gs_entities s)\<rparr>"

definition set_routing_bucket_lockdown :: "u32 \<Rightarrow> lockdown_mode \<Rightarrow> server_game_state \<Rightarrow> server_game_state" where
  "set_routing_bucket_lockdown bucket mode s = s\<lparr>gs_routing := set_lockdown bucket mode (gs_routing s)\<rparr>"

definition set_routing_bucket_population_enabled :: "u32 \<Rightarrow> bool \<Rightarrow> server_game_state \<Rightarrow> server_game_state" where
  "set_routing_bucket_population_enabled bucket enabled s =
     s\<lparr>gs_routing := set_population_enabled bucket enabled (gs_routing s)\<rparr>"

definition gs_tick :: "server_game_state \<Rightarrow> server_game_state" where
  "gs_tick s = s\<lparr>gs_frame_index := gs_frame_index s + 1\<rparr>"

definition add_client :: "u32 \<Rightarrow> server_game_state \<Rightarrow> server_game_state" where
  "add_client source s =
     (if map_of (gs_clients s) source = None
      then s\<lparr>gs_clients := AList.update source (cs_new (ucast source)) (gs_clients s)\<rparr> else s)"

section \<open>Object ids\<close>

lemma unat_inc: "(i::'a::len word) < m \<Longrightarrow> unat (i + 1) = Suc (unat i)"
proof -
  assume "i < m"
  moreover have "unat m < 2 ^ LENGTH('a)" by (rule unsigned_less)
  ultimately have "Suc (unat i) < 2 ^ LENGTH('a)" unfolding word_less_nat_alt by linarith
  then show ?thesis by (simp add: unat_word_ariths)
qed

function lease_loop :: "nat \<Rightarrow> u16 \<Rightarrow> u16 \<Rightarrow> id_state list \<Rightarrow> u16 list \<Rightarrow> (u16 list \<times> id_state list) option" where
  "lease_loop n max_id i ids acc =
     (if length acc < n \<and> i < max_id
      then (case ids_get i ids of
              None \<Rightarrow> None
            | Some st \<Rightarrow>
                if st = IdFree then lease_loop n max_id (i + 1) (ids[unat i := IdLeased]) (acc @ [i])
                else lease_loop n max_id (i + 1) ids acc)
      else Some (acc, ids))"
  by pat_completeness auto
termination
  by (relation "measure (\<lambda>(n, max_id, i, ids, acc). unat max_id - unat i)")
    (auto simp: unat_inc word_less_nat_alt [of _ "_ :: u16"])

declare lease_loop.simps [simp del]

definition lease_object_ids :: "u32 \<Rightarrow> nat \<Rightarrow> server_game_state \<Rightarrow> ((u16 list \<times> u8 list) \<times> server_game_state) option" where
  "lease_object_ids source n s = do {
     (granted, ids') \<leftarrow> lease_loop n (gs_max_object_id s) 1 (gs_ids s) [];
     let s1 = add_client source (s\<lparr>gs_ids := ids'\<rparr>);
     packet \<leftarrow> build_object_ids granted;
     Some ((granted, packet),
       s1\<lparr>gs_clients := AList.map_entry source (\<lambda>c. c\<lparr>cs_leased := cs_leased c @ granted\<rparr>) (gs_clients s1)\<rparr>) }"

definition gs_ids_per_request :: "server_game_state \<Rightarrow> nat" where
  "gs_ids_per_request s = ids_per_request (gs_big_mode s)"

end
