(* ===== verification/Server_Entities.thy ===== *)
theory Server_Entities
  imports Game_State
begin

text \<open>
  Entities the server creates and the lifecycle of clients, \<open>crates/baston-zone/src/onesync/mod.rs\<close>:
  allocation of server object ids, authoring, despawning, the reassignment of ownerless entities to
  the nearest player, the removal of a client, and the overrides of positions.
\<close>

section \<open>Server-created entities\<close>

lemma unat_dec: "0 < (i::'a::len word) \<Longrightarrow> unat (i - 1) = unat i - 1 \<and> 0 < unat i"
  using unat_minus_one [of i] by (auto simp: word_gt_0 unat_gt_0)

function allocate_loop :: "u16 \<Rightarrow> id_state list \<Rightarrow> u16 option option" where
  "allocate_loop i ids =
     (if 0 < i
      then (case ids_get i ids of
              None \<Rightarrow> None
            | Some st \<Rightarrow> if st = IdFree then Some (Some i) else allocate_loop (i - 1) ids)
      else Some None)"
  by pat_completeness auto
termination
  by (relation "measure (\<lambda>(i, ids). unat i)") (use unat_dec in fastforce)+

declare allocate_loop.simps [simp del]

definition allocate_server_object_id :: "server_game_state \<Rightarrow> u16 option option" where
  "allocate_server_object_id s = allocate_loop (gs_max_object_id s) (gs_ids s)"

definition author_entity :: "libm \<Rightarrow> net_obj_entity_type \<Rightarrow> u32 \<Rightarrow> vec3 \<Rightarrow> fl \<Rightarrow> bool \<Rightarrow> u32 \<Rightarrow> authored_nodes" where
  "author_entity lm ty mdl pos hdg dynamic token =
     (if ty = Ped \<or> ty = Player then author_ped mdl pos hdg
      else if is_vehicle ty then author_vehicle lm mdl pos hdg token
      else author_object lm mdl pos hdg dynamic)"

definition spawned_entity ::
  "u16 \<Rightarrow> net_obj_entity_type \<Rightarrow> u32 \<Rightarrow> vec3 \<Rightarrow> fl \<Rightarrow> u32 \<Rightarrow> u8 list \<Rightarrow> u64 \<Rightarrow> server_entity" where
  "spawned_entity object_id ty mdl pos hdg token create_data fi =
     (let z = fl_of_int F32 0; (sec, sec_pos) = sector_of pos in
      \<lparr>se_object_id = object_id, se_uniqifier = ucast token, se_owner = 0, se_entity_type = ty,
       se_creation_token = token, se_data = [], se_create_data = create_data, se_frame_index = fi,
       se_position = pos, se_position_known = True, se_sector = sec, se_sector_position = sec_pos,
       se_velocity = (z, z, z), se_routing_bucket = 0, se_health = None, se_max_health = None,
       se_armour = None, se_model = Some mdl, se_vehicle_seat = None, se_first_owner = 0,
       se_nodes = entity_state_default, se_heading = Some hdg, se_desired_heading = None,
       se_server_owned = True\<rparr>)"

text \<open>The result is whether the entity was created, and the new state; \<open>None\<close> is a panic.\<close>

definition spawn_server_entity_with_id ::
  "libm \<Rightarrow> u16 \<Rightarrow> net_obj_entity_type \<Rightarrow> u32 \<Rightarrow> vec3 \<Rightarrow> fl \<Rightarrow> bool \<Rightarrow> server_game_state \<Rightarrow>
     (bool \<times> server_game_state) option" where
  "spawn_server_entity_with_id lm object_id ty mdl pos hdg dynamic s =
     (if object_id = 0 \<or> gs_max_object_id s < object_id then Some (False, s)
      else do {
        st \<leftarrow> ids_get object_id (gs_ids s);
        if st \<noteq> IdFree then Some (False, s)
        else let token = gs_creation_token s + 1; s1 = s\<lparr>gs_creation_token := token\<rparr> in
          (case write_sync_tree ty True (gs_length_hack s) (author_entity lm ty mdl pos hdg dynamic token) of
             None \<Rightarrow> Some (False, s1)
           | Some create_data \<Rightarrow> do {
               ids' \<leftarrow> ids_set object_id IdUsed (gs_ids s);
               Some (True, s1\<lparr>gs_ids := ids', gs_entities := AList.update object_id
                 (spawned_entity object_id ty mdl pos hdg token create_data (gs_frame_index s)) (gs_entities s)\<rparr>) }) })"

definition spawn_server_entity ::
  "libm \<Rightarrow> net_obj_entity_type \<Rightarrow> u32 \<Rightarrow> vec3 \<Rightarrow> fl \<Rightarrow> bool \<Rightarrow> server_game_state \<Rightarrow>
     (u16 option \<times> server_game_state) option" where
  "spawn_server_entity lm ty mdl pos hdg dynamic s = do {
     found \<leftarrow> allocate_server_object_id s;
     (case found of
        None \<Rightarrow> Some (None, s)
      | Some object_id \<Rightarrow> do {
          (ok, s') \<leftarrow> spawn_server_entity_with_id lm object_id ty mdl pos hdg dynamic s;
          Some (if ok then Some object_id else None, s') }) }"

definition despawn_entity :: "u16 \<Rightarrow> server_game_state \<Rightarrow> (bool \<times> server_game_state) option" where
  "despawn_entity object_id s =
     (if map_of (gs_entities s) object_id = None then Some (False, s)
      else do {
        ids' \<leftarrow> ids_set object_id IdFree (gs_ids s);
        Some (True, s\<lparr>gs_entities := AList.delete object_id (gs_entities s), gs_ids := ids',
                     gs_routing := remove_entity object_id (gs_routing s)\<rparr>) })"

section \<open>Reassignment\<close>

text \<open>\<open>Iterator::min_by\<close>: the first of the minimal elements.\<close>

fun min_by :: "('a \<Rightarrow> 'k::linorder) \<Rightarrow> 'a list \<Rightarrow> 'a option" where
  "min_by key [] = None"
| "min_by key (x # xs) = Some (fold (\<lambda>b a. if key b < key a then b else a) xs x)"

definition player_positions :: "server_game_state \<Rightarrow> (u32 \<times> vec3) list" where
  "player_positions s = map (\<lambda>(k, e). (se_owner e, se_position e))
     (filter (\<lambda>(k, e). se_entity_type e = Player \<and> se_position_known e) (gs_entities s))"

definition reassign_one :: "(u32 \<times> vec3) list \<Rightarrow> server_entity \<Rightarrow> server_entity" where
  "reassign_one players e =
     (if \<not> se_server_owned e \<or> se_owner e \<noteq> 0 then e
      else case min_by (\<lambda>(_, p). total_key (squared_distance p (se_position e))) players of
             None \<Rightarrow> e
           | Some (source, _) \<Rightarrow> e\<lparr>se_owner := source\<rparr>)"

definition reassign_ownerless_server_entities :: "server_game_state \<Rightarrow> server_game_state" where
  "reassign_ownerless_server_entities s =
     (let players = player_positions s in
      if players = [] then s
      else s\<lparr>gs_entities := map (\<lambda>(k, e). (k, reassign_one players e)) (gs_entities s)\<rparr>)"

section \<open>Removing a client\<close>

fun release_leases :: "u16 list \<Rightarrow> id_state list \<Rightarrow> id_state list option" where
  "release_leases [] ids = Some ids"
| "release_leases (i # is') ids = do {
     st \<leftarrow> ids_get i ids;
     release_leases is' (if st = IdLeased then ids[unat i := IdFree] else ids) }"

definition orphan_one :: "u16 \<Rightarrow> server_game_state \<Rightarrow> server_game_state option" where
  "orphan_one k s =
     (if (case map_of (gs_entities s) k of Some e \<Rightarrow> se_server_owned e | None \<Rightarrow> False)
      then Some (s\<lparr>gs_entities := AList.map_entry k (\<lambda>e. e\<lparr>se_owner := 0\<rparr>) (gs_entities s)\<rparr>)
      else do {
        ids' \<leftarrow> ids_set k IdFree (gs_ids s);
        Some (s\<lparr>gs_entities := AList.delete k (gs_entities s), gs_ids := ids',
               gs_routing := remove_entity k (gs_routing s)\<rparr>) })"

fun orphan_all :: "u16 list \<Rightarrow> server_game_state \<Rightarrow> server_game_state option" where
  "orphan_all [] s = Some s"
| "orphan_all (k # ks) s = do { s1 \<leftarrow> orphan_one k s; orphan_all ks s1 }"

definition gs_remove_client :: "u32 \<Rightarrow> server_game_state \<Rightarrow> (u16 list \<times> server_game_state) option" where
  "gs_remove_client source s = do {
     s1 \<leftarrow> (case map_of (gs_clients s) source of
              None \<Rightarrow> Some s
            | Some st \<Rightarrow> do {
                ids' \<leftarrow> release_leases (cs_leased st) (gs_ids s);
                Some (s\<lparr>gs_clients := AList.delete source (gs_clients s), gs_ids := ids'\<rparr>) });
     let orphaned = map fst (filter (\<lambda>(k, e). se_owner e = source) (gs_entities s1));
     s2 \<leftarrow> orphan_all orphaned s1;
     Some (orphaned, s2\<lparr>gs_routing := remove_player source (gs_routing s2)\<rparr>) }"

section \<open>Overrides\<close>

definition set_entity_position :: "u16 \<Rightarrow> vec3 \<Rightarrow> server_game_state \<Rightarrow> server_game_state" where
  "set_entity_position object_id pos s = s\<lparr>gs_entities := AList.map_entry object_id
     (\<lambda>e. e\<lparr>se_position := pos, se_position_known := True\<rparr>) (gs_entities s)\<rparr>"

definition set_entity_velocity :: "u16 \<Rightarrow> vec3 \<Rightarrow> server_game_state \<Rightarrow> server_game_state" where
  "set_entity_velocity object_id v s =
     s\<lparr>gs_entities := AList.map_entry object_id (\<lambda>e. e\<lparr>se_velocity := v\<rparr>) (gs_entities s)\<rparr>"

definition seed_unknown_player_positions :: "(u32 \<rightharpoonup> vec3) \<Rightarrow> server_game_state \<Rightarrow> server_game_state" where
  "seed_unknown_player_positions focus s = s\<lparr>gs_entities := map (\<lambda>(k, e).
     (k, if se_entity_type e = Player \<and> \<not> se_position_known e
         then (case focus (se_owner e) of
                 Some pos \<Rightarrow> e\<lparr>se_position := pos, se_position_known := True\<rparr>
               | None \<Rightarrow> e)
         else e)) (gs_entities s)\<rparr>"

end
