(* ===== verification/Outbound.thy ===== *)
theory Outbound
  imports Game_State
begin

text \<open>
  The outbound side of the game state, \<open>crates/baston-zone/src/onesync/mod.rs\<close>: one client's sync
  tick, the batch tick over all clients, the encoding of a plan into packets, and the handling of
  the clients' NACK and ACK messages.
\<close>

section \<open>Encoding a plan\<close>

definition clone_of :: "u32 \<Rightarrow> u64 \<Rightarrow> u64 \<Rightarrow> server_entity \<Rightarrow> u8 list \<Rightarrow> outbound_clone" where
  "clone_of sync_type base timestamp e payload =
     \<lparr>oc_sync_type = sync_type, oc_object_id = se_object_id e, oc_owner_net_id = ucast (se_owner e),
      oc_entity_type = (if sync_type = rec_CREATE then Some (se_entity_type e) else None),
      oc_creation_token = se_creation_token e, oc_uniqifier = se_uniqifier e,
      oc_dependent_frame_index = base, oc_timestamp = ucast timestamp, oc_first_frame_update = False,
      oc_data = payload\<rparr>"

definition encode_one ::
  "lz4_api \<Rightarrow> (u16 \<times> server_entity) list \<Rightarrow> u64 \<Rightarrow> client_state \<Rightarrow> u32 \<Rightarrow> u16 \<Rightarrow> packed_writer \<Rightarrow> packed_writer" where
  "encode_one lz ents fi st sync_type object_id w =
     (case map_of ents object_id of
        None \<Rightarrow> w
      | Some e \<Rightarrow>
          let base = unwrap_or 0 (base_frame object_id (cs_view st)) in
          if sync_type = rec_CREATE then write_clone lz fi (clone_of sync_type base fi e (se_create_data e)) w
          else if se_data e = [] then w
          else write_clone lz fi (clone_of sync_type base fi e (se_data e)) w)"

definition encode_plan ::
  "lz4_api \<Rightarrow> (u16 \<times> server_entity) list \<Rightarrow> u64 \<Rightarrow> bool \<Rightarrow> client_state \<Rightarrow> tick_plan \<Rightarrow> u8 list list" where
  "encode_plan lz ents fi hack st plan =
     (if tp_creates plan = [] \<and> tp_syncs plan = [] \<and> tp_removes plan = [] then []
      else let w0 = pw_new MSG_PACKED_CLONES fi hack;
               w1 = fold (encode_one lz ents fi st rec_CREATE) (tp_creates plan) w0;
               w2 = fold (encode_one lz ents fi st rec_SYNC) (tp_syncs plan) w1;
               w3 = fold (\<lambda>(k, u). write_remove lz False k u) (tp_removes plan) w2
           in pw_finish lz w3)"

section \<open>Ticks\<close>

definition zero3 :: vec3 where "zero3 = (fl_of_int F32 0, fl_of_int F32 0, fl_of_int F32 0)"

definition tick_client ::
  "lz4_api \<Rightarrow> u32 \<Rightarrow> vec3 \<Rightarrow> interest_config \<Rightarrow> server_game_state \<Rightarrow> (u8 list list \<times> server_game_state) option" where
  "tick_client lz source focus cfg s =
     (let world = world_snapshot s; idx = si_build world (query_radius cfg) in
      case map_of (gs_clients s) source of
        None \<Rightarrow> Some ([], s)
      | Some st \<Rightarrow> do {
          (plan, v) \<leftarrow> cv_tick_with_context focus zero3 (player_bucket source (gs_routing s)) world idx cfg (cs_view st);
          let st' = st\<lparr>cs_view := v\<rparr>;
          Some (encode_plan lz (gs_entities s) (gs_frame_index s) (gs_length_hack s) st' plan,
                s\<lparr>gs_clients := AList.update source st' (gs_clients s)\<rparr>) })"

text \<open>The parallel planning pass: every client's view is ticked on its own, against the same world.\<close>

fun plan_clients :: "(u32 \<Rightarrow> client_view \<Rightarrow> (tick_plan \<times> client_view) option) \<Rightarrow> (u32 \<times> client_state) list \<Rightarrow>
    ((u32 \<times> tick_plan) list \<times> (u32 \<times> client_state) list) option" where
  "plan_clients f [] = Some ([], [])"
| "plan_clients f ((source, st) # cs) = do {
     (plan, v) \<leftarrow> f source (cs_view st);
     (plans, cs') \<leftarrow> plan_clients f cs;
     Some ((source, plan) # plans, (source, st\<lparr>cs_view := v\<rparr>) # cs') }"

definition focus_for :: "server_game_state \<Rightarrow> (u32 \<rightharpoonup> vec3) \<Rightarrow> u32 \<Rightarrow> vec3 \<times> vec3" where
  "focus_for s fallback source =
     (case client_focus_map s source of
        Some fv \<Rightarrow> fv
      | None \<Rightarrow> (unwrap_or zero3 (fallback source), zero3))"

definition tick_clients ::
  "lz4_api \<Rightarrow> (u32 \<rightharpoonup> vec3) \<Rightarrow> interest_config \<Rightarrow> server_game_state \<Rightarrow>
     ((u32 \<times> u8 list list) list \<times> server_game_state) option" where
  "tick_clients lz fallback cfg s =
     (let world = world_snapshot s; idx = si_build world (query_radius cfg) in do {
      (plans, clients') \<leftarrow> plan_clients (\<lambda>source v. case focus_for s fallback source of (focus, fvel) \<Rightarrow>
         cv_tick_with_context focus fvel (player_bucket source (gs_routing s)) world idx cfg v) (gs_clients s);
      let sorted_plans = sort_key fst plans;
      Some (filter (\<lambda>(_, packets). packets \<noteq> [])
              (List.map_filter (\<lambda>(source, plan). map_option (\<lambda>st.
                 (source, encode_plan lz (gs_entities s) (gs_frame_index s) (gs_length_hack s) st plan))
                 (map_of clients' source)) sorted_plans),
            s\<lparr>gs_clients := clients'\<rparr>) })"

section \<open>Reliability messages\<close>

definition upd_client :: "u32 \<Rightarrow> (client_view \<Rightarrow> client_view) \<Rightarrow> server_game_state \<Rightarrow> server_game_state" where
  "upd_client source f s = s\<lparr>gs_clients := AList.map_entry source
     (\<lambda>st. st\<lparr>cs_view := f (cs_view st)\<rparr>) (gs_clients s)\<rparr>"

definition apply_nack_view :: "game_state_nack \<Rightarrow> client_view \<Rightarrow> client_view" where
  "apply_nack_view nack v =
     (let v1 = (case nk_missing_frames nack of
                  Some (first, _) \<Rightarrow> rollback_all (if first = 0 then 0 else first - 1) v
                | None \<Rightarrow> v);
          v2 = fold (\<lambda>en. rollback (ie_object_id en) (ie_last_frame en) False) (nk_ignore_list nack) v1
      in fold force_recreate (nk_recreate_list nack) v2)"

definition apply_nack :: "u32 \<Rightarrow> game_state_nack \<Rightarrow> server_game_state \<Rightarrow> server_game_state" where
  "apply_nack source nack s = upd_client source (apply_nack_view nack) s"

definition apply_ack_view :: "game_state_ack \<Rightarrow> client_view \<Rightarrow> client_view" where
  "apply_ack_view ack v =
     (let v1 = ack_frame (ak_frame_index ack) v;
          v2 = fold (\<lambda>en. rollback (ie_object_id en) (ie_last_frame en) False) (ak_ignore_list ack) v1
      in fold force_recreate (ak_recreate_list ack) v2)"

definition apply_ack :: "u32 \<Rightarrow> game_state_ack \<Rightarrow> server_game_state \<Rightarrow> server_game_state" where
  "apply_ack source ack s = upd_client source (apply_ack_view ack) s"

end
