(* ===== verification/Ingest.thy ===== *)
theory Ingest
  imports Game_State
begin

text \<open>
  Inbound \<open>netClones\<close> ingestion and arbitration, \<open>crates/baston-zone/src/onesync/ingest.rs\<close>: the
  creates, syncs, removes and takeovers a client uploads, who may change which entity, and the acks
  the server answers with. \<open>None\<close> is a panic of the vector of id states.
\<close>

section \<open>Arbitration\<close>

definition created_entity ::
  "u16 \<Rightarrow> u16 \<Rightarrow> u32 \<Rightarrow> net_obj_entity_type \<Rightarrow> u32 \<Rightarrow> u64 \<Rightarrow> u32 \<Rightarrow> u8 list \<Rightarrow> server_entity option \<Rightarrow> server_entity" where
  "created_entity object_id uniqifier source ty token fi bucket payload previous =
     (let z = (fl_of_int F32 0, fl_of_int F32 0, fl_of_int F32 0) in
      \<lparr>se_object_id = object_id, se_uniqifier = uniqifier, se_owner = source, se_entity_type = ty,
       se_creation_token = token, se_data = [], se_create_data = payload, se_frame_index = fi,
       se_position = (case previous of Some e \<Rightarrow> se_position e | None \<Rightarrow> z),
       se_position_known = (case previous of Some e \<Rightarrow> se_position_known e | None \<Rightarrow> False),
       se_sector = (case previous of Some e \<Rightarrow> se_sector e | None \<Rightarrow> DEFAULT_SECTOR),
       se_sector_position = (case previous of Some e \<Rightarrow> se_sector_position e | None \<Rightarrow> z),
       se_velocity = (case previous of Some e \<Rightarrow> se_velocity e | None \<Rightarrow> z),
       se_routing_bucket = bucket,
       se_health = Option.bind previous se_health,
       se_max_health = Option.bind previous se_max_health,
       se_armour = Option.bind previous se_armour,
       se_model = Option.bind previous se_model,
       se_vehicle_seat = Option.bind previous se_vehicle_seat,
       se_first_owner = (case previous of Some e \<Rightarrow> se_first_owner e | None \<Rightarrow> source),
       se_nodes = (case previous of Some e \<Rightarrow> se_nodes e | None \<Rightarrow> entity_state_default),
       se_heading = Option.bind previous se_heading,
       se_desired_heading = Option.bind previous se_desired_heading,
       se_server_owned = False\<rparr>)"

definition apply_create ::
  "libm \<Rightarrow> u32 \<Rightarrow> u16 \<Rightarrow> u16 \<Rightarrow> net_obj_entity_type option \<Rightarrow> u32 \<Rightarrow> u8 list \<Rightarrow> server_game_state \<Rightarrow>
     bool \<times> server_game_state" where
  "apply_create lm source object_id uniqifier entity_type token payload s =
     (if \<not> allows_client_create source (gs_routing s) then (False, s)
      else let previous = map_of (gs_entities s) object_id in
        if (case previous of Some ex \<Rightarrow> se_owner ex \<noteq> source \<or> se_uniqifier ex \<noteq> uniqifier | None \<Rightarrow> False)
        then (False, s)
        else case entity_type of
               None \<Rightarrow> (False, s)
             | Some ty \<Rightarrow>
                 let bucket = player_bucket source (gs_routing s);
                     e = created_entity object_id uniqifier source ty token (gs_frame_index s) bucket payload previous;
                     decoded = parse_sync_tree lm ty True (se_data e) (gs_length_hack s) (gs_build s);
                     e' = apply_sync_data decoded e
                 in (True, s\<lparr>gs_entities := AList.update object_id e' (gs_entities s),
                            gs_routing := set_entity_bucket object_id bucket (gs_routing s)\<rparr>))"

definition apply_sync :: "libm \<Rightarrow> u32 \<Rightarrow> u16 \<Rightarrow> u16 \<Rightarrow> u8 list \<Rightarrow> server_game_state \<Rightarrow> bool \<times> server_game_state" where
  "apply_sync lm source object_id uniqifier payload s =
     (let bucket = player_bucket source (gs_routing s) in
      case map_of (gs_entities s) object_id of
        None \<Rightarrow> (False, s)
      | Some ent \<Rightarrow>
          if se_uniqifier ent \<noteq> uniqifier \<or> se_owner ent \<noteq> source \<or> bucket \<noteq> se_routing_bucket ent then (False, s)
          else if payload \<noteq> []
          then let decoded = parse_sync_tree lm (se_entity_type ent) False payload (gs_length_hack s) (gs_build s);
                   ent' = apply_sync_data decoded (ent\<lparr>se_data := payload, se_frame_index := gs_frame_index s\<rparr>)
               in (True, s\<lparr>gs_entities := AList.update object_id ent' (gs_entities s)\<rparr>)
          else (True, s))"

definition apply_remove :: "u32 \<Rightarrow> u16 \<Rightarrow> u16 \<Rightarrow> server_game_state \<Rightarrow> (bool \<times> server_game_state) option" where
  "apply_remove source object_id uniqifier s =
     (case map_of (gs_entities s) object_id of
        None \<Rightarrow> Some (False, s)
      | Some ent \<Rightarrow>
          if se_owner ent = source \<and> se_uniqifier ent = uniqifier \<and>
             player_bucket source (gs_routing s) = se_routing_bucket ent
          then do {
            ids' \<leftarrow> ids_set object_id IdFree (gs_ids s);
            Some (True, s\<lparr>gs_entities := AList.delete object_id (gs_entities s), gs_ids := ids',
                         gs_routing := remove_entity object_id (gs_routing s)\<rparr>) }
          else Some (False, s))"

definition apply_takeover :: "u32 \<Rightarrow> u16 \<Rightarrow> u16 \<Rightarrow> server_game_state \<Rightarrow> bool \<times> server_game_state" where
  "apply_takeover sender object_id target s =
     (if \<not> allows_takeover sender (ucast target) object_id (gs_routing s) then (False, s)
      else case map_of (gs_entities s) object_id of
             None \<Rightarrow> (False, s)
           | Some ent \<Rightarrow>
               if se_owner ent = sender
               then (True, s\<lparr>gs_entities := AList.update object_id (ent\<lparr>se_owner := ucast target\<rparr>) (gs_entities s)\<rparr>)
               else (False, s))"

section \<open>One payload\<close>

record ingest_outcome =
  io_ack_packets :: "u8 list list"
  io_creates :: u32
  io_syncs :: u32
  io_removes :: u32
  io_takeovers :: "(u16 \<times> u16) list"
  io_rejected_mutations :: u32

definition ingest_outcome_default :: ingest_outcome where
  "ingest_outcome_default = \<lparr>io_ack_packets = [], io_creates = 0, io_syncs = 0, io_removes = 0,
     io_takeovers = [], io_rejected_mutations = 0\<rparr>"

record ingest_state =
  in_gs :: server_game_state
  in_ack :: mbuf
  in_out :: ingest_outcome

definition reject_unless :: "bool \<Rightarrow> ingest_outcome \<Rightarrow> ingest_outcome" where
  "reject_unless ok o' = (if ok then o' else o'\<lparr>io_rejected_mutations := io_rejected_mutations o' + 1\<rparr>)"

definition client_entry :: "u32 \<Rightarrow> (client_state \<Rightarrow> client_state) \<Rightarrow> server_game_state \<Rightarrow> server_game_state" where
  "client_entry source f s =
     (let s1 = add_client source s in s1\<lparr>gs_clients := AList.map_entry source f (gs_clients s1)\<rparr>)"

fun ingest_record :: "libm \<Rightarrow> u32 \<Rightarrow> inbound_record \<Rightarrow> ingest_state \<Rightarrow> ingest_state option" where
  "ingest_record lm source (InClone is_create object_id uniqifier entity_type token payload) st =
     (if object_id = 0xFFFF then Some st
      else if is_create then
        (case apply_create lm source object_id uniqifier entity_type token payload (in_gs st) of
           (accepted, s1) \<Rightarrow> do {
             s2 \<leftarrow> (if accepted then map_option (\<lambda>ids'. s1\<lparr>gs_ids := ids'\<rparr>) (ids_set object_id IdUsed (gs_ids s1))
                    else Some s1);
             let o1 = reject_unless accepted (in_out st);
             Some (st\<lparr>in_gs := s2, in_ack := snd (write_ack_record 1 object_id uniqifier (in_ack st)),
                     in_out := o1\<lparr>io_creates := io_creates o1 + 1\<rparr>\<rparr>) })
      else
        (case apply_sync lm source object_id uniqifier payload (in_gs st) of
           (accepted, s1) \<Rightarrow>
             let o1 = reject_unless accepted (in_out st) in
             Some (st\<lparr>in_gs := s1, in_ack := snd (write_ack_record 2 object_id uniqifier (in_ack st)),
                     in_out := o1\<lparr>io_syncs := io_syncs o1 + 1\<rparr>\<rparr>)))"
| "ingest_record lm source (InRemove object_id uniqifier) st = do {
     let ack' = snd (write_ack_record 3 object_id uniqifier (in_ack st));
     (accepted, s1) \<leftarrow> apply_remove source object_id uniqifier (in_gs st);
     let o1 = reject_unless accepted (in_out st);
     Some (st\<lparr>in_gs := s1, in_ack := ack', in_out := o1\<lparr>io_removes := io_removes o1 + 1\<rparr>\<rparr>) }"
| "ingest_record lm source (InTakeover target_client object_id) st =
     (let target = (if target_client = 0 then ucast source else target_client);
          o1 = (in_out st)\<lparr>io_takeovers := io_takeovers (in_out st) @ [(object_id, target)]\<rparr>
      in case apply_takeover source object_id target (in_gs st) of
           (accepted, s1) \<Rightarrow> Some (st\<lparr>in_gs := s1, in_out := reject_unless accepted o1\<rparr>))"
| "ingest_record lm source (InTimestamp ts) st =
     (let s1 = client_entry source (\<lambda>c. if cs_ack_ts c = 0 \<or> cs_ack_ts c < ts then c\<lparr>cs_ack_ts := ts\<rparr> else c) (in_gs st);
          b1 = snd (write_bits_single 5 3 (in_ack st))
      in Some (st\<lparr>in_gs := s1, in_ack := snd (write_bits_single ts 32 b1)\<rparr>))"
| "ingest_record lm source (InIndex i) st =
     Some (st\<lparr>in_gs := client_entry source (\<lambda>c. c\<lparr>cs_frame_index := ucast i\<rparr>) (in_gs st)\<rparr>)"

fun ingest_records :: "libm \<Rightarrow> u32 \<Rightarrow> inbound_record list \<Rightarrow> ingest_state \<Rightarrow> ingest_state option" where
  "ingest_records lm source [] st = Some st"
| "ingest_records lm source (r # rs) st = do { st1 \<leftarrow> ingest_record lm source r st; ingest_records lm source rs st1 }"

definition ACK_BUF_BYTES :: nat where "ACK_BUF_BYTES = 4096"

definition ingest_clone_payload ::
  "lz4_api \<Rightarrow> libm \<Rightarrow> u32 \<Rightarrow> u8 list \<Rightarrow> server_game_state \<Rightarrow> (ingest_outcome \<times> server_game_state) option" where
  "ingest_clone_payload lz lm source payload s =
     (case decode_incoming lz payload (gs_length_hack s) of
        None \<Rightarrow> Some (ingest_outcome_default, s)
      | Some incoming \<Rightarrow> do {
          st \<leftarrow> ingest_records lm source (ip_records incoming)
            \<lparr>in_gs = add_client source s, in_ack = with_length_hack (gs_length_hack s) (mb_new ACK_BUF_BYTES),
             in_out = ingest_outcome_default\<rparr>;
          let b = snd (write_end (in_ack st));
          let used = data_length b;
          let frame = \<lparr>last_fragment = True, current_fragment = 0,
                frame_index = unwrap_or 0 (map_option cs_frame_index (map_of (gs_clients (in_gs st)) source))\<rparr>;
          let packets = (if 0 < used then [pack_frame lz MSG_PACKED_ACKS frame (take used (mb_data b))] else []);
          Some ((in_out st)\<lparr>io_ack_packets := io_ack_packets (in_out st) @ packets\<rparr>, in_gs st) })"

end
