(* ===== verification/Interest_Plan.thy ===== *)
theory Interest_Plan
  imports Interest
begin

text \<open>
  What an interest tick decides. The index is shown to visit exactly the entities of the nine cells
  around the focus, once each; the visits are put in closed form; and the send loop is shown equal to
  a greedy fill of the byte budget in priority order. The properties of the plan (budget, progress,
  recovery after a NACK, consistency with the client's copy of the world) follow from the closed form.
\<close>

section \<open>The index visits the nine cells around the focus\<close>

lemma push_cell_at:
  "push_cell w (i, e) cells c =
     (if cell_of (sn_position e) w = c then Some ((case cells c of None \<Rightarrow> [] | Some b \<Rightarrow> b) @ [i]) else cells c)"
  by (auto simp: push_cell_def Let_def)

lemma fold_push_cell:
  "fold (push_cell w) ies cells c =
     (let new = map fst (filter (\<lambda>(i, e). cell_of (sn_position e) w = c) ies)
      in if new = [] then cells c else Some ((case cells c of None \<Rightarrow> [] | Some b \<Rightarrow> b) @ new))"
proof (induction ies arbitrary: cells)
  case (Cons ie ies)
  obtain i e where "ie = (i, e)" by force
  then show ?case by (simp add: Cons.IH push_cell_at Let_def)
qed simp

definition cell_members :: "entity_snapshot list \<Rightarrow> fl \<Rightarrow> u32 \<times> u32 \<Rightarrow> nat list" where
  "cell_members world w c = filter (\<lambda>i. cell_of (sn_position (world ! i)) w = c) [0..<length world]"

lemma enumerate_filter:
  "map fst (filter (\<lambda>(i, e). P e) (enumerate 0 xs)) = filter (\<lambda>i. P (xs ! i)) [0..<length xs]"
proof -
  have "enumerate 0 xs = map (\<lambda>i. (i, xs ! i)) [0..<length xs]"
    by (rule nth_equalityI) (simp_all add: nth_enumerate_eq)
  then show ?thesis by (simp add: filter_map comp_def)
qed

lemma si_build_cells:
  assumes "length world < 2 ^ 32"
  shows "(case si_cells (si_build world r) c of None \<Rightarrow> [] | Some b \<Rightarrow> b) =
    cell_members world (cell_size (si_build world r)) c"
  using assms by (simp add: si_build_def Let_def fold_push_cell enumerate_filter cell_members_def min_absorb1)

lemma distinct_neighbours: "distinct (neighbours c)"
proof -
  have "distinct [x + (- 1), x + 0, x + (1::u32)]" for x by simp
  then show ?thesis by (cases c) (auto simp: neighbours_def)
qed

lemma near_eq:
  assumes "length world < 2 ^ 32"
  shows "for_each_near (si_build world r) focus =
    concat (map (cell_members world (cell_size (si_build world r)))
      (neighbours (cell_of focus (cell_size (si_build world r)))))"
  by (simp add: for_each_near_def si_build_cells [OF assms])

lemma set_near:
  assumes "length world < 2 ^ 32"
  shows "set (for_each_near (si_build world r) focus) =
    {i. i < length world \<and> cell_of (sn_position (world ! i)) (cell_size (si_build world r))
          \<in> set (neighbours (cell_of focus (cell_size (si_build world r))))}"
  by (auto simp: near_eq [OF assms] cell_members_def)

lemma distinct_near:
  assumes "length world < 2 ^ 32"
  shows "distinct (for_each_near (si_build world r) focus)"
proof -
  have "distinct (concat (map (cell_members world w) cs))" if "distinct cs" for w cs
    using that by (induction cs) (auto simp: cell_members_def)
  then show ?thesis by (simp add: near_eq [OF assms] distinct_neighbours)
qed

section \<open>The visits in closed form\<close>

definition prior_view :: "views \<Rightarrow> entity_snapshot \<Rightarrow> entity_view" where
  "prior_view views e =
     (case map_of views (sn_object_id e) of Some v \<Rightarrow> v | None \<Rightarrow> fresh_view (sn_uniqifier e))"

definition in_scope :: "tick_context \<Rightarrow> views \<Rightarrow> entity_snapshot \<Rightarrow> bool" where
  "in_scope ctx views e \<longleftrightarrow> relevant ctx (map_of views (sn_object_id e) \<noteq> None) e"

definition new_priority :: "tick_context \<Rightarrow> views \<Rightarrow> entity_snapshot \<Rightarrow> fl" where
  "new_priority ctx views e = accrue ctx e (ev_priority (prior_view views e))"

definition seen_view :: "tick_context \<Rightarrow> views \<Rightarrow> entity_snapshot \<Rightarrow> entity_view" where
  "seen_view ctx views e = (prior_view views e)
     \<lparr>ev_seen_this_tick := True, ev_uniqifier := sn_uniqifier e, ev_priority := new_priority ctx views e\<rparr>"

definition candidate_of :: "tick_context \<Rightarrow> views \<Rightarrow> entity_snapshot list \<Rightarrow> nat \<Rightarrow> candidate" where
  "candidate_of ctx views world i = (sn_object_id (world ! i), new_priority ctx views (world ! i), i)"

lemma visit_unfold:
  "visit ctx world i (views, cs) =
     (if i < length world \<and> in_scope ctx views (world ! i)
      then (AList.update (sn_object_id (world ! i)) (seen_view ctx views (world ! i)) views,
            cs @ [candidate_of ctx views world i])
      else (views, cs))"
  by (simp add: visit_def in_scope_def seen_view_def new_priority_def prior_view_def candidate_of_def Let_def)

lemma view_local:
  assumes "map_of views (sn_object_id e) = map_of views' (sn_object_id e)"
  shows "in_scope ctx views e = in_scope ctx views' e" "seen_view ctx views e = seen_view ctx views' e"
    "new_priority ctx views e = new_priority ctx views' e"
  using assms by (simp_all add: in_scope_def seen_view_def new_priority_def prior_view_def)

lemma fold_visit:
  assumes "distinct (map sn_object_id world)" "distinct js" "set js \<subseteq> {..<length world}"
  shows "\<exists>views'. fold (visit ctx world) js (views, cs) =
      (views', cs @ map (candidate_of ctx views world) (filter (\<lambda>i. in_scope ctx views (world ! i)) js)) \<and>
    (\<forall>k. map_of views' k = (case find (\<lambda>i. sn_object_id (world ! i) = k \<and> in_scope ctx views (world ! i)) js of
        None \<Rightarrow> map_of views k
      | Some i \<Rightarrow> Some (seen_view ctx views (world ! i)))) \<and>
    (distinct (map fst views) \<longrightarrow> distinct (map fst views'))"
  using assms(2,3)
proof (induction js arbitrary: views cs)
  case Nil
  then show ?case by simp
next
  case (Cons i js)
  let ?id = "\<lambda>i. sn_object_id (world ! i)"
  have other: "?id j \<noteq> ?id i" if "j \<in> set js" for j
  proof -
    have "j \<noteq> i" "j < length world" "i < length world" using Cons.prems that by auto
    then show ?thesis using assms(1) nth_eq_iff_index_eq [of "map sn_object_id world" j i] by simp
  qed
  show ?case
  proof (cases "in_scope ctx views (world ! i)")
    case False
    then have "visit ctx world i (views, cs) = (views, cs)" by (simp add: visit_unfold)
    then show ?thesis using Cons.IH [of views cs] Cons.prems False by simp
  next
    case True
    let ?v1 = "AList.update (?id i) (seen_view ctx views (world ! i)) views"
    have m1: "map_of ?v1 = (map_of views)(?id i \<mapsto> seen_view ctx views (world ! i))" by (simp add: update_conv')
    have loc: "in_scope ctx ?v1 (world ! j) = in_scope ctx views (world ! j)"
      "seen_view ctx ?v1 (world ! j) = seen_view ctx views (world ! j)"
      "candidate_of ctx ?v1 world j = candidate_of ctx views world j" if "j \<in> set js" for j
      using other [OF that] view_local [of ?v1 "world ! j" views ctx] by (simp_all add: m1 candidate_of_def)
    from Cons.IH [of ?v1 "cs @ [candidate_of ctx views world i]"] Cons.prems obtain views' where
      f: "fold (visit ctx world) js (?v1, cs @ [candidate_of ctx views world i]) =
        (views', (cs @ [candidate_of ctx views world i]) @
          map (candidate_of ctx ?v1 world) (filter (\<lambda>i. in_scope ctx ?v1 (world ! i)) js))"
      and m: "\<And>k. map_of views' k = (case find (\<lambda>i. ?id i = k \<and> in_scope ctx ?v1 (world ! i)) js of
        None \<Rightarrow> map_of ?v1 k | Some i \<Rightarrow> Some (seen_view ctx ?v1 (world ! i)))"
      and d: "distinct (map fst ?v1) \<longrightarrow> distinct (map fst views')"
      by auto
    have fl: "filter (\<lambda>i. in_scope ctx ?v1 (world ! i)) js = filter (\<lambda>i. in_scope ctx views (world ! i)) js"
      using loc by (auto intro: filter_cong)
    have fd: "find (\<lambda>i. ?id i = k \<and> in_scope ctx ?v1 (world ! i)) js =
        find (\<lambda>i. ?id i = k \<and> in_scope ctx views (world ! i)) js" for k
      using loc by (auto intro: find_cong)
    have none: "find (\<lambda>j. ?id j = ?id i \<and> in_scope ctx views (world ! j)) js = None"
      using other by (auto simp: find_None_iff)
    have mem: "find P js = Some j \<Longrightarrow> j \<in> set js" for P j by (auto simp: find_Some_iff)
    have "visit ctx world i (views, cs) = (?v1, cs @ [candidate_of ctx views world i])"
      using True Cons.prems by (simp add: visit_unfold)
    moreover have "map (candidate_of ctx ?v1 world) (filter (\<lambda>i. in_scope ctx views (world ! i)) js) =
        map (candidate_of ctx views world) (filter (\<lambda>i. in_scope ctx views (world ! i)) js)"
      using loc by simp
    moreover have "map_of views' k = (case find (\<lambda>i. ?id i = k \<and> in_scope ctx views (world ! i)) (i # js) of
        None \<Rightarrow> map_of views k | Some i \<Rightarrow> Some (seen_view ctx views (world ! i)))" for k
      using True none m [of k] mem loc by (auto simp: fd m1 split: option.splits)
    moreover have "distinct (map fst views) \<longrightarrow> distinct (map fst views')"
      using d by (simp add: distinct_update)
    ultimately show ?thesis using f True by (auto simp: fl)
  qed
qed

section \<open>The send loop is a greedy fill\<close>

text \<open>Take the items in order, skipping each one that would overrun the budget; the first item is
  always taken.\<close>

fun greedy :: "nat \<Rightarrow> ('a \<Rightarrow> nat) \<Rightarrow> nat \<Rightarrow> 'a list \<Rightarrow> 'a list" where
  "greedy budget cost spent [] = []"
| "greedy budget cost spent (x # xs) =
     (if 0 < spent \<and> budget < spent + cost x then greedy budget cost spent xs
      else x # greedy budget cost (spent + cost x) xs)"

definition cand_cost :: "entity_snapshot list \<Rightarrow> candidate \<Rightarrow> nat" where
  "cand_cost world c = record_cost (world ! snd (snd c))"

definition uncreated :: "views \<Rightarrow> candidate \<Rightarrow> bool" where
  "uncreated views c \<longleftrightarrow> (\<exists>v. map_of views (fst c) = Some v \<and> \<not> ev_created v)"

definition outdated :: "entity_snapshot list \<Rightarrow> views \<Rightarrow> candidate \<Rightarrow> bool" where
  "outdated world views c \<longleftrightarrow>
     (\<exists>v. map_of views (fst c) = Some v \<and> ev_created v \<and> ev_base_frame v < sn_frame_index (world ! snd (snd c)))"

abbreviation needs_send :: "entity_snapshot list \<Rightarrow> views \<Rightarrow> candidate \<Rightarrow> bool" where
  "needs_send world views c \<equiv> uncreated views c \<or> outdated world views c"

definition sent_view :: "entity_snapshot \<Rightarrow> entity_view \<Rightarrow> entity_view" where
  "sent_view e v = v\<lparr>ev_created := True, ev_base_frame := sn_frame_index e, ev_priority := fl_of_int F32 0\<rparr>"

definition apply_sent :: "entity_snapshot list \<Rightarrow> candidate list \<Rightarrow> (u16 \<rightharpoonup> entity_view) \<Rightarrow> u16 \<rightharpoonup> entity_view" where
  "apply_sent world sent m k =
     (case find (\<lambda>c. fst c = k) sent of
        None \<Rightarrow> m k
      | Some c \<Rightarrow> map_option (sent_view (world ! snd (snd c))) (m k))"

definition cand_ok :: "entity_snapshot list \<Rightarrow> views \<Rightarrow> candidate \<Rightarrow> bool" where
  "cand_ok world views c \<longleftrightarrow> snd (snd c) < length world \<and> map_of views (fst c) \<noteq> None"

lemma send_one_law:
  assumes "cand_ok world (ss_views s) c"
  shows "send_one cfg world c s =
    Some (if \<not> needs_send world (ss_views s) c \<or>
             0 < ss_spent s \<and> budget_bytes cfg < ss_spent s + cand_cost world c then s
          else \<lparr>ss_views = AList.update (fst c) (sent_view (world ! snd (snd c)) (the (map_of (ss_views s) (fst c)))) (ss_views s),
                ss_plan = (if uncreated (ss_views s) c
                  then (ss_plan s)\<lparr>tp_creates := tp_creates (ss_plan s) @ [fst c]\<rparr>
                  else (ss_plan s)\<lparr>tp_syncs := tp_syncs (ss_plan s) @ [fst c]\<rparr>),
                ss_spent = ss_spent s + cand_cost world c\<rparr>)"
  using assms
  by (cases c; cases s) (auto simp: send_one_def cand_ok_def uncreated_def outdated_def cand_cost_def sent_view_def Let_def)

lemma needs_local:
  assumes "map_of views (fst c) = map_of views' (fst c)"
  shows "uncreated views c = uncreated views' c" "outdated world views c = outdated world views' c"
    "cand_ok world views c = cand_ok world views' c"
  using assms by (simp_all add: uncreated_def outdated_def cand_ok_def)

lemma greedy_subset: "set (greedy B cost s xs) \<subseteq> set xs"
  by (induction xs arbitrary: s) auto

lemma find_key_None: "k \<notin> fst ` A \<Longrightarrow> set xs \<subseteq> A \<Longrightarrow> find (\<lambda>d. fst d = k) xs = None"
  by (induction xs) auto

lemma send_all_law:
  fixes cfg :: interest_config
  assumes "distinct (map fst cs)" "\<forall>c\<in>set cs. cand_ok world (ss_views s) c" "distinct (map fst (ss_views s))"
  defines "sent \<equiv> greedy (budget_bytes cfg) (cand_cost world) (ss_spent s) (filter (needs_send world (ss_views s)) cs)"
  shows "\<exists>s'. send_all cfg world cs s = Some s' \<and>
    ss_plan s' = (ss_plan s)\<lparr>tp_creates := tp_creates (ss_plan s) @ map fst (filter (uncreated (ss_views s)) sent),
       tp_syncs := tp_syncs (ss_plan s) @ map fst (filter (\<lambda>c. \<not> uncreated (ss_views s) c) sent)\<rparr> \<and>
    map_of (ss_views s') = apply_sent world sent (map_of (ss_views s)) \<and> distinct (map fst (ss_views s'))"
  using assms(1-3) unfolding sent_def
proof (induction cs arbitrary: s)
  case Nil
  then show ?case by (simp add: apply_sent_def fun_eq_iff)
next
  case (Cons c cs)
  have ok: "cand_ok world (ss_views s) c" using Cons.prems by simp
  note one = send_one_law [OF ok, of cfg]
  show ?case
  proof (cases "\<not> needs_send world (ss_views s) c \<or> 0 < ss_spent s \<and> budget_bytes cfg < ss_spent s + cand_cost world c")
    case True
    then have "send_one cfg world c s = Some s" using one by simp
    then show ?thesis using Cons.IH [of s] Cons.prems True by auto
  next
    case False
    define s1 where "s1 = the (send_one cfg world c s)"
    have s1: "send_one cfg world c s = Some s1" "ss_spent s1 = ss_spent s + cand_cost world c"
      "map_of (ss_views s1) = (map_of (ss_views s))(fst c \<mapsto> sent_view (world ! snd (snd c)) (the (map_of (ss_views s) (fst c))))"
      "distinct (map fst (ss_views s1))"
      "ss_plan s1 = (if uncreated (ss_views s) c
                  then (ss_plan s)\<lparr>tp_creates := tp_creates (ss_plan s) @ [fst c]\<rparr>
                  else (ss_plan s)\<lparr>tp_syncs := tp_syncs (ss_plan s) @ [fst c]\<rparr>)"
      using False one Cons.prems(3) by (auto simp: s1_def update_conv' distinct_update)
    have loc: "uncreated (ss_views s1) d = uncreated (ss_views s) d"
      "outdated world (ss_views s1) d = outdated world (ss_views s) d"
      "cand_ok world (ss_views s1) d = cand_ok world (ss_views s) d" if "d \<in> set cs" for d
    proof -
      have "fst d \<noteq> fst c" using Cons.prems(1) that by (auto simp: image_iff)
      then have "map_of (ss_views s1) (fst d) = map_of (ss_views s) (fst d)" by (simp add: s1(3))
      then show "uncreated (ss_views s1) d = uncreated (ss_views s) d"
        "outdated world (ss_views s1) d = outdated world (ss_views s) d"
        "cand_ok world (ss_views s1) d = cand_ok world (ss_views s) d" by (rule needs_local)+
    qed
    let ?sent = "greedy (budget_bytes cfg) (cand_cost world) (ss_spent s1) (filter (needs_send world (ss_views s)) cs)"
    have sub: "set ?sent \<subseteq> set cs" using greedy_subset by fastforce
    have fl: "filter (needs_send world (ss_views s1)) cs = filter (needs_send world (ss_views s)) cs"
      using loc by (intro filter_cong) auto
    have fs: "filter (uncreated (ss_views s1)) ?sent = filter (uncreated (ss_views s)) ?sent"
      "filter (\<lambda>c. \<not> uncreated (ss_views s1) c) ?sent = filter (\<lambda>c. \<not> uncreated (ss_views s) c) ?sent"
      using loc sub by (auto intro!: filter_cong)
    obtain s' where s': "send_all cfg world cs s1 = Some s'"
      "ss_plan s' = (ss_plan s1)\<lparr>tp_creates := tp_creates (ss_plan s1) @ map fst (filter (uncreated (ss_views s)) ?sent),
         tp_syncs := tp_syncs (ss_plan s1) @ map fst (filter (\<lambda>c. \<not> uncreated (ss_views s) c) ?sent)\<rparr>"
      "map_of (ss_views s') = apply_sent world ?sent (map_of (ss_views s1))" "distinct (map fst (ss_views s'))"
      using Cons.IH [of s1] Cons.prems loc s1(4) unfolding fl fs by auto
    have "find (\<lambda>d. fst d = fst c) ?sent = None"
      using Cons.prems(1) by (intro find_key_None [OF _ sub]) simp
    then have "apply_sent world ?sent (map_of (ss_views s1)) = apply_sent world (c # ?sent) (map_of (ss_views s))"
      using ok by (auto simp: apply_sent_def fun_eq_iff s1(3) cand_ok_def split: option.splits)
    then show ?thesis using s' s1 False by (auto simp: s1(2))
  qed
qed

section \<open>The tick in closed form\<close>

definition to_create :: "views \<Rightarrow> entity_snapshot \<Rightarrow> bool" where
  "to_create views e \<longleftrightarrow> \<not> ev_created (prior_view views e)"

definition to_sync :: "views \<Rightarrow> entity_snapshot \<Rightarrow> bool" where
  "to_sync views e \<longleftrightarrow> ev_created (prior_view views e) \<and> ev_base_frame (prior_view views e) < sn_frame_index e"

text \<open>The entities in scope in the order of the visits, the same by descending priority, and what is
  sent: the greedy fill over those that need sending.\<close>

definition scoped :: "tick_context \<Rightarrow> entity_snapshot list \<Rightarrow> spatial_index \<Rightarrow> views \<Rightarrow> entity_snapshot list" where
  "scoped ctx world idx views =
     filter (in_scope ctx views) (map ((!) world) (for_each_near idx (tc_focus ctx)))"

definition rank_key :: "tick_context \<Rightarrow> views \<Rightarrow> entity_snapshot \<Rightarrow> (int \<times> int) \<times> u16" where
  "rank_key ctx views e = candidate_key (sn_object_id e, new_priority ctx views e, 0)"

definition ranked :: "tick_context \<Rightarrow> entity_snapshot list \<Rightarrow> spatial_index \<Rightarrow> views \<Rightarrow> entity_snapshot list" where
  "ranked ctx world idx views = sort_key (rank_key ctx views) (scoped ctx world idx views)"

definition planned :: "tick_context \<Rightarrow> entity_snapshot list \<Rightarrow> spatial_index \<Rightarrow> views \<Rightarrow> entity_snapshot list" where
  "planned ctx world idx views = greedy (budget_bytes (tc_cfg ctx)) record_cost 0
     (filter (\<lambda>e. to_create views e \<or> to_sync views e) (ranked ctx world idx views))"

text \<open>What left the scope: the known ids with no entity in scope, by ascending id, as many as the
  removal budget allows.\<close>

definition lost :: "tick_context \<Rightarrow> entity_snapshot list \<Rightarrow> spatial_index \<Rightarrow> views \<Rightarrow> (u16 \<times> u16) list" where
  "lost ctx world idx views = take (max (remove_budget_bytes (tc_cfg ctx) div 8) 1)
     (map (\<lambda>k. (k, ev_uniqifier (the (map_of views k))))
       (sorted_list_of_set (fst ` set views - sn_object_id ` set (scoped ctx world idx views))))"

definition plan_spec :: "tick_context \<Rightarrow> entity_snapshot list \<Rightarrow> spatial_index \<Rightarrow> views \<Rightarrow> tick_plan" where
  "plan_spec ctx world idx views =
     \<lparr>tp_creates = map sn_object_id (filter (to_create views) (planned ctx world idx views)),
      tp_syncs = map sn_object_id (filter (to_sync views) (planned ctx world idx views)),
      tp_removes = lost ctx world idx views\<rparr>"

definition views_spec :: "tick_context \<Rightarrow> entity_snapshot list \<Rightarrow> spatial_index \<Rightarrow> views \<Rightarrow> u16 \<rightharpoonup> entity_view" where
  "views_spec ctx world idx views k =
     (case find (\<lambda>e. sn_object_id e = k) (planned ctx world idx views) of
        Some e \<Rightarrow> Some (sent_view e (seen_view ctx views e))
      | None \<Rightarrow>
          (case find (\<lambda>e. sn_object_id e = k) (scoped ctx world idx views) of
             Some e \<Rightarrow> Some (seen_view ctx views e)
           | None \<Rightarrow> if k \<in> fst ` set (lost ctx world idx views) then None
                     else map_option (\<lambda>v. v\<lparr>ev_seen_this_tick := False\<rparr>) (map_of views k)))"

lemma map_of_reset: "map_of (reset_seen views) k = map_option (\<lambda>v. v\<lparr>ev_seen_this_tick := False\<rparr>) (map_of views k)"
  by (induction views) (auto simp: reset_seen_def)

lemma reset_keys [simp]: "map fst (reset_seen views) = map fst views"
  by (simp add: reset_seen_def comp_def case_prod_beta)

lemma reset_local [simp]:
  "in_scope ctx (reset_seen views) e = in_scope ctx views e"
  "new_priority ctx (reset_seen views) e = new_priority ctx views e"
  "seen_view ctx (reset_seen views) e = seen_view ctx views e"
proof -
  show "in_scope ctx (reset_seen views) e = in_scope ctx views e" by (simp add: in_scope_def map_of_reset)
  have p: "prior_view (reset_seen views) e = (prior_view views e)\<lparr>ev_seen_this_tick := False\<rparr>"
    by (auto simp: prior_view_def map_of_reset fresh_view_def split: option.splits)
  then show n: "new_priority ctx (reset_seen views) e = new_priority ctx views e" by (simp add: new_priority_def)
  show "seen_view ctx (reset_seen views) e = seen_view ctx views e" unfolding seen_view_def n p by simp
qed

lemma seen_view_fields [simp]:
  "ev_seen_this_tick (seen_view ctx views e)" "ev_created (seen_view ctx views e) = ev_created (prior_view views e)"
  "ev_base_frame (seen_view ctx views e) = ev_base_frame (prior_view views e)"
  "ev_uniqifier (seen_view ctx views e) = sn_uniqifier e"
  by (simp_all add: seen_view_def)

lemma insort_key_map: "insort_key k (f x) (map f xs) = map f (insort_key (\<lambda>x. k (f x)) x xs)"
  by (induction xs) auto

lemma sort_key_map: "sort_key k (map f xs) = map f (sort_key (\<lambda>x. k (f x)) xs)"
  by (induction xs) (simp_all add: insort_key_map)

lemma greedy_map: "greedy B cost s (map f xs) = map f (greedy B (\<lambda>x. cost (f x)) s xs)"
  by (induction xs arbitrary: s) auto

lemma find_map: "find P (map f xs) = map_option f (find (\<lambda>x. P (f x)) xs)"
  by (induction xs) auto

lemma map_of_fold_delete:
  "map_of (fold (\<lambda>(k, u). AList.delete k) ks m) k = (if k \<in> fst ` set ks then None else map_of m k)"
  by (induction ks arbitrary: m) (auto simp: delete_conv' split: prod.splits)

lemma distinct_fold_delete:
  "distinct (map fst m) \<Longrightarrow> distinct (map fst (fold (\<lambda>(k, u). AList.delete k) ks m))"
  by (induction ks arbitrary: m) (auto simp: distinct_delete split: prod.splits)

lemma sort_keyed:
  assumes "distinct (map fst xs)"
  shows "sort_key fst xs = map (\<lambda>k. (k, the (map_of xs k))) (sorted_list_of_set (fst ` set xs))"
proof -
  let ?f = "\<lambda>k. (k, the (map_of xs k))"
  have "xs = map ?f (map fst xs)"
    using assms by (auto intro!: map_idI [symmetric] simp: comp_def)
  then have "sort_key fst xs = map ?f (sort (map fst xs))"
    using sort_key_map [of fst ?f "map fst xs"] by simp
  also have "sort (map fst xs) = sorted_list_of_set (fst ` set xs)"
    using assms sorted_list_of_set_sort_remdups [of "map fst xs"] by (simp add: distinct_remdups_id)
  finally show ?thesis .
qed

lemma exited_eq:
  assumes "distinct (map fst views)"
  shows "exited views = map (\<lambda>k. (k, ev_uniqifier (the (map_of views k))))
    (sorted_list_of_set {k. \<exists>v. map_of views k = Some v \<and> \<not> ev_seen_this_tick v})"
proof -
  let ?ys = "filter (\<lambda>(k, v). \<not> ev_seen_this_tick v) views"
  let ?xs = "map (\<lambda>(k, v). (k, ev_uniqifier v)) ?ys"
  have d: "distinct (map fst ?ys)" using assms by (rule distinct_map_filter)
  then have dx: "distinct (map fst ?xs)" by (simp add: comp_def case_prod_beta)
  have keys: "fst ` set ?xs = {k. \<exists>v. map_of views k = Some v \<and> \<not> ev_seen_this_tick v}"
    using assms by (force simp: image_iff)
  have "map_of ?xs k = Some (ev_uniqifier (the (map_of views k)))" if k: "k \<in> fst ` set ?xs" for k
  proof -
    obtain v where v: "(k, v) \<in> set ?ys" using k by force
    then have "map_of views k = Some v" using assms by simp
    moreover have "map_of ?xs k = Some (ev_uniqifier v)" using v dx by (intro map_of_is_SomeI) force+
    ultimately show ?thesis by simp
  qed
  then show ?thesis unfolding exited_def sort_keyed [OF dx] keys by simp
qed

text \<open>The index is usable for a snapshot when it visits valid positions, none of them twice.\<close>

definition index_ok :: "entity_snapshot list \<Rightarrow> spatial_index \<Rightarrow> bool" where
  "index_ok world idx \<longleftrightarrow>
     (\<forall>focus. distinct (for_each_near idx focus) \<and> set (for_each_near idx focus) \<subseteq> {..<length world})"

lemma index_okD:
  "index_ok world idx \<Longrightarrow> distinct (for_each_near idx focus)"
  "index_ok world idx \<Longrightarrow> set (for_each_near idx focus) \<subseteq> {..<length world}"
  by (simp_all only: index_ok_def)

lemma index_ok_build: "length world < 2 ^ 32 \<Longrightarrow> index_ok world (si_build world r)"
  using distinct_near set_near by (auto simp: index_ok_def)

lemma visits_law:
  assumes "distinct (map sn_object_id world)" "index_ok world idx" "distinct (map fst views)"
  shows "\<exists>views1. fold (visit ctx world) (for_each_near idx (tc_focus ctx)) (reset_seen views, []) =
      (views1, map (candidate_of ctx views world)
        (filter (\<lambda>i. in_scope ctx views (world ! i)) (for_each_near idx (tc_focus ctx)))) \<and>
    (\<forall>k. map_of views1 k = (case find (\<lambda>e. sn_object_id e = k) (scoped ctx world idx views) of
        None \<Rightarrow> map_of (reset_seen views) k | Some e \<Rightarrow> Some (seen_view ctx views e))) \<and>
    distinct (map fst views1)"
proof -
  let ?near = "for_each_near idx (tc_focus ctx)"
  have near: "distinct ?near" "set ?near \<subseteq> {..<length world}" using assms(2) by (rule index_okD)+
  have cand: "candidate_of ctx (reset_seen views) world = candidate_of ctx views world"
    by (simp add: candidate_of_def fun_eq_iff)
  have "find (\<lambda>e. sn_object_id e = k) (filter (in_scope ctx views) (map ((!) world) js)) = map_option ((!) world)
      (find (\<lambda>i. sn_object_id (world ! i) = k \<and> in_scope ctx views (world ! i)) js)" for k js
    by (induction js) auto
  then show ?thesis
    using fold_visit [OF assms(1) near, of ctx "reset_seen views" "[]"] assms(3)
    unfolding cand scoped_def by (force split: option.splits)
qed

lemma distinct_scoped:
  assumes "distinct (map sn_object_id world)" "index_ok world idx"
  shows "distinct (map sn_object_id (scoped ctx world idx views))"
proof -
  let ?near = "for_each_near idx (tc_focus ctx)"
  have near: "distinct ?near" "set ?near \<subseteq> {..<length world}" using assms(2) by (rule index_okD)+
  have "inj_on (\<lambda>i. sn_object_id (world ! i)) (set ?near)"
    using assms(1) near(2) nth_eq_iff_index_eq [of "map sn_object_id world"] by (auto simp: inj_on_def subset_iff)
  then have "distinct (map sn_object_id (map ((!) world) ?near))" using near(1) by (simp add: distinct_map comp_def)
  then show ?thesis unfolding scoped_def by (rule distinct_map_filter)
qed

lemma candidates_sorted:
  "sort_key candidate_key (map (candidate_of ctx views world) js) =
     map (candidate_of ctx views world) (sort_key (\<lambda>i. rank_key ctx views (world ! i)) js)"
proof -
  have "candidate_key (candidate_of ctx views world i) = rank_key ctx views (world ! i)" for i
    by (simp add: candidate_key_def candidate_of_def rank_key_def)
  then show ?thesis by (simp add: sort_key_map)
qed

lemma find_distinct: "distinct (map f xs) \<Longrightarrow> x \<in> set xs \<Longrightarrow> find (\<lambda>y. f y = f x) xs = Some x"
  by (induction xs) (auto simp: image_iff)

lemma find_none_iff: "find (\<lambda>y. f y = k) xs = None \<longleftrightarrow> k \<notin> f ` set xs"
  by (induction xs) auto

lemma find_none: "k \<notin> f ` set xs \<Longrightarrow> find (\<lambda>y. f y = k) xs = None"
  by (simp add: find_none_iff)

lemma sets_le:
  "set (ranked ctx world idx views) = set (scoped ctx world idx views)"
  "set (planned ctx world idx views) \<subseteq> set (scoped ctx world idx views)"
  using greedy_subset by (fastforce simp: ranked_def planned_def)+

lemma lost_not_scoped: "k \<in> fst ` set (lost ctx world idx views) \<Longrightarrow>
    k \<in> fst ` set views \<and> k \<notin> sn_object_id ` set (scoped ctx world idx views)"
  by (auto simp: lost_def dest!: in_set_takeD)

lemma map_filter_map:
  "(\<And>i. i \<in> set xs \<Longrightarrow> P (f i) = Q (g i)) \<Longrightarrow> (\<And>i. h (f i) = k (g i)) \<Longrightarrow>
     map h (filter P (map f xs)) = map k (filter Q (map g xs))"
  by (induction xs) auto

text \<open>The sent candidates are those of the plan.\<close>

lemma send_filter:
  assumes "\<And>i. i \<in> set js \<Longrightarrow> uncreated v2 (candidate_of ctx views world i) = to_create views (world ! i)"
    and "\<And>i. i \<in> set js \<Longrightarrow> outdated world v2 (candidate_of ctx views world i) = to_sync views (world ! i)"
  shows "greedy B (cand_cost world) 0 (filter (needs_send world v2) (map (candidate_of ctx views world) js)) =
    map (candidate_of ctx views world)
      (greedy B (\<lambda>i. record_cost (world ! i)) 0 (filter (\<lambda>i. to_create views (world ! i) \<or> to_sync views (world ! i)) js))"
proof -
  have "cand_cost world (candidate_of ctx views world i) = record_cost (world ! i)" for i
    by (simp add: cand_cost_def candidate_of_def)
  moreover have "filter (needs_send world v2) (map (candidate_of ctx views world) js) =
      map (candidate_of ctx views world) (filter (\<lambda>i. to_create views (world ! i) \<or> to_sync views (world ! i)) js)"
    unfolding filter_map comp_def using assms by (intro arg_cong [where f = "map _"] filter_cong) auto
  ultimately show ?thesis by (simp add: greedy_map)
qed

lemma exits_law:
  assumes "distinct (map sn_object_id world)" "index_ok world idx" "distinct (map fst views)"
  shows "\<exists>views1. fold (visit ctx world) (for_each_near idx (tc_focus ctx)) (reset_seen views, []) =
      (views1, map (candidate_of ctx views world)
        (filter (\<lambda>i. in_scope ctx views (world ! i)) (for_each_near idx (tc_focus ctx)))) \<and>
    distinct (map fst views1) \<and>
    take (max (remove_budget_bytes (tc_cfg ctx) div 8) 1) (exited views1) = lost ctx world idx views \<and>
    (\<forall>e\<in>set (scoped ctx world idx views). map_of views1 (sn_object_id e) = Some (seen_view ctx views e)) \<and>
    (\<forall>k. k \<notin> sn_object_id ` set (scoped ctx world idx views) \<longrightarrow> map_of views1 k = map_of (reset_seen views) k)"
proof -
  let ?E = "scoped ctx world idx views"
  obtain views1 where
    f1: "fold (visit ctx world) (for_each_near idx (tc_focus ctx)) (reset_seen views, []) =
      (views1, map (candidate_of ctx views world)
        (filter (\<lambda>i. in_scope ctx views (world ! i)) (for_each_near idx (tc_focus ctx))))"
    and m1: "\<And>k. map_of views1 k = (case find (\<lambda>e. sn_object_id e = k) ?E of
        None \<Rightarrow> map_of (reset_seen views) k | Some e \<Rightarrow> Some (seen_view ctx views e))"
    and d1: "distinct (map fst views1)" using visits_law [OF assms] by blast
  have seen: "map_of views1 (sn_object_id e) = Some (seen_view ctx views e)" if "e \<in> set ?E" for e
    using find_distinct [OF distinct_scoped [OF assms(1,2)] that] m1 by simp
  have unseen: "map_of views1 k = map_of (reset_seen views) k" if "k \<notin> sn_object_id ` set ?E" for k
    using find_none [OF that] m1 by simp
  have gone: "{k. \<exists>v. map_of views1 k = Some v \<and> \<not> ev_seen_this_tick v} =
      fst ` set views - sn_object_id ` set ?E" (is "?L = ?R")
  proof (rule set_eqI)
    fix k
    have "k \<in> fst ` set views \<longleftrightarrow> map_of views k \<noteq> None" by (simp add: map_of_eq_None_iff)
    then show "k \<in> ?L \<longleftrightarrow> k \<in> ?R"
      using seen unseen [of k] by (cases "k \<in> sn_object_id ` set ?E") (auto simp: map_of_reset)
  qed
  have "ev_uniqifier (the (map_of views1 k)) = ev_uniqifier (the (map_of views k))" if "k \<in> ?R" for k
    using that unseen [of k] weak_map_of_SomeI [of k _ views] by (fastforce simp: map_of_reset)
  then have "take (max (remove_budget_bytes (tc_cfg ctx) div 8) 1) (exited views1) = lost ctx world idx views"
    unfolding exited_eq [OF d1] gone lost_def by (intro arg_cong [where f = "take _"]) simp
  with f1 d1 seen unseen show ?thesis by blast
qed

lemma tick_law:
  assumes "distinct (map sn_object_id world)" "index_ok world idx" "distinct (map fst views)"
  shows "\<exists>views'. tick_with_context ctx world idx views = Some (plan_spec ctx world idx views, views') \<and>
    map_of views' = views_spec ctx world idx views \<and> distinct (map fst views')"
proof -
  let ?E = "scoped ctx world idx views" and ?cand = "candidate_of ctx views world"
  let ?js = "filter (\<lambda>i. in_scope ctx views (world ! i)) (for_each_near idx (tc_focus ctx))"
  let ?rs = "sort_key (\<lambda>i. rank_key ctx views (world ! i)) ?js"
  let ?ps = "greedy (budget_bytes (tc_cfg ctx)) (\<lambda>i. record_cost (world ! i)) 0
     (filter (\<lambda>i. to_create views (world ! i) \<or> to_sync views (world ! i)) ?rs)"
  let ?sent = "map ?cand ?ps"
  obtain views1 where
    f1: "fold (visit ctx world) (for_each_near idx (tc_focus ctx)) (reset_seen views, []) = (views1, map ?cand ?js)"
    and d1: "distinct (map fst views1)"
    and lost: "take (max (remove_budget_bytes (tc_cfg ctx) div 8) 1) (exited views1) = lost ctx world idx views"
    and seen: "\<And>e. e \<in> set ?E \<Longrightarrow> map_of views1 (sn_object_id e) = Some (seen_view ctx views e)"
    and unseen: "\<And>k. k \<notin> sn_object_id ` set ?E \<Longrightarrow> map_of views1 k = map_of (reset_seen views) k"
    using exits_law [OF assms, of ctx] by blast
  let ?v2 = "fold (\<lambda>(k, u). AList.delete k) (lost ctx world idx views) views1"
  have E: "?E = map ((!) world) ?js" by (simp add: scoped_def filter_map comp_def)
  have v2: "map_of ?v2 (sn_object_id (world ! i)) = Some (seen_view ctx views (world ! i))" if "i \<in> set ?js" for i
  proof -
    have e: "world ! i \<in> set ?E" using that by (auto simp: E)
    then have "sn_object_id (world ! i) \<notin> fst ` set (lost ctx world idx views)" using lost_not_scoped by blast
    then show ?thesis using seen [OF e] by (simp add: map_of_fold_delete)
  qed
  have st: "uncreated ?v2 (?cand i) = to_create views (world ! i)"
    "outdated world ?v2 (?cand i) = to_sync views (world ! i)" "cand_ok world ?v2 (?cand i)" if "i \<in> set ?js" for i
    using v2 [OF that] that index_okD(2) [OF assms(2), of "tc_focus ctx"]
    by (auto simp: uncreated_def outdated_def cand_ok_def candidate_of_def to_create_def to_sync_def)
  have "distinct (map sn_object_id (map ((!) world) ?js))"
    using distinct_scoped [OF assms(1,2), of ctx views] unfolding E .
  then have dc: "distinct (map fst (map ?cand ?rs))"
    by (simp add: distinct_map comp_def candidate_of_def)
  let ?s = "\<lparr>ss_views = ?v2, ss_plan = tick_plan_default\<lparr>tp_removes := lost ctx world idx views\<rparr>, ss_spent = 0\<rparr>"
  have sent: "greedy (budget_bytes (tc_cfg ctx)) (cand_cost world) (ss_spent ?s)
      (filter (needs_send world (ss_views ?s)) (map ?cand ?rs)) = ?sent"
    unfolding send_state.select_convs by (rule send_filter) (use st(1,2) in simp_all)
  have ps: "i \<in> set ?ps \<Longrightarrow> i \<in> set ?js" for i using greedy_subset by fastforce
  obtain s' where s': "send_all (tc_cfg ctx) world (map ?cand ?rs) ?s = Some s'"
    "ss_plan s' = (ss_plan ?s)\<lparr>tp_creates := map fst (filter (uncreated ?v2) ?sent),
       tp_syncs := map fst (filter (\<lambda>c. \<not> uncreated ?v2 c) ?sent)\<rparr>"
    "map_of (ss_views s') = apply_sent world ?sent (map_of ?v2)" "distinct (map fst (ss_views s'))"
    using send_all_law [of "map ?cand ?rs" world ?s "tc_cfg ctx", OF dc] st(3) d1 distinct_fold_delete [of views1]
    unfolding sent by (auto simp: tick_plan_default_def)
  have plan: "planned ctx world idx views = map ((!) world) ?ps"
    unfolding planned_def ranked_def E sort_key_map filter_map greedy_map comp_def ..
  have one: "(\<not> to_create views (world ! i)) = to_sync views (world ! i)" if "i \<in> set ?ps" for i
    using subsetD [OF greedy_subset that] by (auto simp: to_create_def to_sync_def)
  have "map fst (filter (uncreated ?v2) ?sent) = tp_creates (plan_spec ctx world idx views)"
    unfolding plan plan_spec_def tick_plan.select_convs
    by (rule map_filter_map) (rule st(1) [OF ps], assumption, simp add: candidate_of_def)
  moreover have "map fst (filter (\<lambda>c. \<not> uncreated ?v2 c) ?sent) = tp_syncs (plan_spec ctx world idx views)"
    unfolding plan plan_spec_def tick_plan.select_convs
    by (rule map_filter_map) (simp only: st(1) [OF ps] one, simp add: candidate_of_def)
  ultimately have "ss_plan s' = plan_spec ctx world idx views"
    using s'(2) by (simp add: tick_plan_default_def plan_spec_def)
  moreover have "map_of (ss_views s') k = views_spec ctx world idx views k" for k
  proof (cases "find (\<lambda>i. sn_object_id (world ! i) = k) ?ps")
    case None
    then have k: "map_of (ss_views s') k = map_of ?v2 k" "find (\<lambda>e. sn_object_id e = k) (planned ctx world idx views) = None"
      unfolding s'(3) apply_sent_def plan find_map by (simp_all add: candidate_of_def)
    show ?thesis
    proof (cases "find (\<lambda>e. sn_object_id e = k) ?E")
      case None
      then have "k \<notin> sn_object_id ` set ?E" by (simp only: find_none_iff not_False_eq_True)
      then show ?thesis using k None unseen by (simp add: views_spec_def map_of_fold_delete map_of_reset)
    next
      case (Some e)
      then have e: "e \<in> set ?E" "sn_object_id e = k" by (auto simp: find_Some_iff)
      then have "k \<notin> fst ` set (lost ctx world idx views)" using lost_not_scoped by blast
      then show ?thesis using k Some seen [OF e(1)] e(2) by (simp add: views_spec_def map_of_fold_delete)
    qed
  next
    case (Some i)
    then have i: "i \<in> set ?ps" "sn_object_id (world ! i) = k" by (auto simp: find_Some_iff)
    show ?thesis using Some i(2) v2 [OF ps [OF i(1)]]
      unfolding s'(3) apply_sent_def views_spec_def plan find_map by (simp add: candidate_of_def)
  qed
  ultimately show ?thesis
    using s'(1,4) unfolding tick_with_context_def f1 Let_def prod.case lost candidates_sorted
    by (auto simp: fun_eq_iff)
qed

end
