(* ===== verification/Interest_Props.thy ===== *)
theory Interest_Props
  imports Interest_Plan "HOL-Library.Multiset"
begin

text \<open>
  Properties of the interest tick (\<open>interest_ng.rs\<close>) that follow from its closed form in
  \<open>Interest_Plan\<close>: the byte budget, progress, the scope rules, recovery after a NACK, and the
  consistency of the view with the copy of the world that the client holds.
\<close>

section \<open>Greedy fill\<close>

lemma greedy_within:
  assumes "0 < spent" "spent \<le> budget"
  shows "spent + sum_list (map cost (greedy budget cost spent xs)) \<le> budget"
  using assms by (induction xs arbitrary: spent) (auto simp: add.assoc [symmetric])

lemma greedy_over: "budget < spent \<Longrightarrow> greedy budget cost spent xs = []"
  by (induction xs) auto

lemma greedy_budget:
  assumes "\<And>x. 0 < cost x"
  shows "sum_list (map cost (greedy budget cost 0 xs)) \<le> budget \<or> length (greedy budget cost 0 xs) = 1"
proof (cases xs)
  case (Cons x ys)
  then show ?thesis using greedy_within [of "cost x" budget cost ys] greedy_over [of budget "cost x" cost ys] assms [of x]
    by (cases "cost x \<le> budget") auto
qed simp

lemma greedy_first: "xs \<noteq> [] \<Longrightarrow> hd xs \<in> set (greedy budget cost 0 xs)"
  by (cases xs) auto

lemma greedy_all: "spent + sum_list (map cost xs) \<le> budget \<Longrightarrow> greedy budget cost spent xs = xs"
  by (induction xs arbitrary: spent) auto

lemma distinct_greedy: "distinct (map f xs) \<Longrightarrow> distinct (map f (greedy budget cost s xs))"
proof (induction xs arbitrary: s)
  case (Cons x xs)
  have "f ` set (greedy budget cost s' xs) \<subseteq> f ` set xs" for s' using greedy_subset by (intro image_mono)
  with Cons show ?case by auto
qed simp

section \<open>The planned entities\<close>

lemma planned_scoped: "e \<in> set (planned ctx world idx views) \<Longrightarrow> e \<in> set (scoped ctx world idx views)"
  using sets_le(2) by blast

lemma planned_needs: "e \<in> set (planned ctx world idx views) \<Longrightarrow> to_create views e \<or> to_sync views e"
  using greedy_subset unfolding planned_def by fastforce

lemma scoped_world: "index_ok world idx \<Longrightarrow> e \<in> set (scoped ctx world idx views) \<Longrightarrow> e \<in> set world \<and> in_scope ctx views e"
  using index_okD(2) [of world idx "tc_focus ctx"] by (auto simp: scoped_def)

lemma distinct_planned:
  assumes "distinct (map sn_object_id world)" "index_ok world idx"
  shows "distinct (map sn_object_id (planned ctx world idx views))"
proof -
  have "distinct (map sn_object_id (ranked ctx world idx views))"
    using distinct_scoped [OF assms, of ctx views] by (simp add: ranked_def distinct_map)
  then show ?thesis unfolding planned_def by (intro distinct_greedy distinct_map_filter)
qed

lemma plan_ids:
  "set (tp_creates (plan_spec ctx world idx views) @ tp_syncs (plan_spec ctx world idx views)) =
     sn_object_id ` set (planned ctx world idx views)"
  using planned_needs [of _ ctx world idx views] by (auto simp: plan_spec_def)

lemma mset_map_partition: "mset (map f (filter P xs) @ map f (filter (\<lambda>x. \<not> P x) xs)) = mset (map f xs)"
  by (induction xs) auto

lemma plan_split:
  "mset (map f (filter (to_create views) (planned ctx world idx views)) @
     map f (filter (to_sync views) (planned ctx world idx views))) = mset (map f (planned ctx world idx views))"
proof -
  have "filter (to_sync views) es = filter (\<lambda>e. \<not> to_create views e) es" if "\<forall>e\<in>set es. to_create views e \<or> to_sync views e" for es
    using that by (induction es) (auto simp: to_create_def to_sync_def)
  then have s: "filter (to_sync views) (planned ctx world idx views) = filter (\<lambda>e. \<not> to_create views e) (planned ctx world idx views)"
    using planned_needs by blast
  show ?thesis unfolding s by (rule mset_map_partition)
qed

text \<open>The snapshot entry of an object id.\<close>

definition snapshot_of :: "entity_snapshot list \<Rightarrow> u16 \<Rightarrow> entity_snapshot" where
  "snapshot_of world k = the (find (\<lambda>e. sn_object_id e = k) world)"

lemma snapshot_of_id: "distinct (map sn_object_id world) \<Longrightarrow> e \<in> set world \<Longrightarrow> snapshot_of world (sn_object_id e) = e"
  by (simp add: snapshot_of_def find_distinct)


section \<open>The client's copy\<close>

text \<open>The set of entities a client holds: creates add to it, removes take away.\<close>

definition mirror :: "tick_plan \<Rightarrow> u16 set \<Rightarrow> u16 set" where
  "mirror plan held = (held \<union> set (tp_creates plan)) - fst ` set (tp_removes plan)"

definition created_ids :: "views \<Rightarrow> u16 set" where
  "created_ids views = {k. \<exists>v. map_of views k = Some v \<and> ev_created v}"

text \<open>The states of a client's view together with the client's copy: ticks over any snapshot and
  focus, and the NAK operations in any order between them.\<close>

inductive client_reach :: "client_view \<Rightarrow> u16 set \<Rightarrow> bool" where
  cr_new: "client_reach (cv_new net_id) {}"
| cr_tick: "client_reach v held \<Longrightarrow> distinct (map sn_object_id world) \<Longrightarrow> length world < 2 ^ 32 \<Longrightarrow>
    cv_tick_with_context focus fvel bucket world (si_build world r) cfg v = Some (plan, v') \<Longrightarrow>
    client_reach v' (mirror plan held)"
| cr_rollback: "client_reach v held \<Longrightarrow> client_reach (rollback k frame recreate v) held"
| cr_rollback_all: "client_reach v held \<Longrightarrow> client_reach (rollback_all frame v) held"
| cr_recreate: "client_reach v held \<Longrightarrow> client_reach (force_recreate k v) held"
| cr_ack: "client_reach v held \<Longrightarrow> client_reach (ack_frame frame v) held"

definition view_inv :: "client_view \<Rightarrow> u16 set \<Rightarrow> bool" where
  "view_inv v held \<longleftrightarrow> distinct (map fst (cv_views v)) \<and> created_ids (cv_views v) \<subseteq> held \<and>
     held \<subseteq> dom (map_of (cv_views v))"

definition client_context :: "vec3 \<Rightarrow> vec3 \<Rightarrow> u32 \<Rightarrow> interest_config \<Rightarrow> client_view \<Rightarrow> tick_context" where
  "client_context focus fvel bucket cfg v = \<lparr>tc_net_id = cv_net_id v, tc_focus = focus,
     tc_focus_velocity = fvel, tc_bucket = bucket, tc_cfg = cfg\<rparr>"

lemma cv_tick_law:
  assumes "distinct (map sn_object_id world)" "length world < 2 ^ 32" "distinct (map fst (cv_views v))"
  shows "\<exists>v'. cv_tick_with_context focus fvel bucket world (si_build world r) cfg v =
      Some (plan_spec (client_context focus fvel bucket cfg v) world (si_build world r) (cv_views v), v') \<and>
    map_of (cv_views v') = views_spec (client_context focus fvel bucket cfg v) world (si_build world r) (cv_views v) \<and> distinct (map fst (cv_views v')) \<and>
    cv_net_id v' = cv_net_id v"
  using tick_law [OF assms(1) index_ok_build [OF assms(2)] assms(3), of "client_context focus fvel bucket cfg v" r]
  by (auto simp: cv_tick_with_context_def client_context_def)

lemma prior_created: "ev_created (prior_view views e) \<Longrightarrow> sn_object_id e \<in> created_ids views"
  by (auto simp: prior_view_def created_ids_def fresh_view_def split: option.splits)

lemma spec_created:
  assumes "views_spec ctx world idx views k = Some v" "ev_created v"
  shows "k \<in> created_ids views \<union> set (tp_creates (plan_spec ctx world idx views))"
proof (cases "find (\<lambda>e. sn_object_id e = k) (planned ctx world idx views)")
  case (Some e)
  then have e: "e \<in> set (planned ctx world idx views)" "sn_object_id e = k" by (auto simp: find_Some_iff)
  then show ?thesis using prior_created [of views e] by (auto simp: plan_spec_def to_create_def)
next
  case None
  show ?thesis
  proof (cases "find (\<lambda>e. sn_object_id e = k) (scoped ctx world idx views)")
    case (Some e)
    then have "sn_object_id e = k" by (auto simp: find_Some_iff)
    then show ?thesis using None Some assms prior_created [of views e] by (auto simp: views_spec_def)
  next
    case None2: None
    then show ?thesis using None assms by (auto simp: views_spec_def created_ids_def split: if_splits)
  qed
qed

lemma spec_dom:
  "dom (views_spec ctx world idx views) =
     (dom (map_of views) \<union> sn_object_id ` set (scoped ctx world idx views)) - fst ` set (lost ctx world idx views)"
proof (rule set_eqI)
  fix k
  show "k \<in> dom (views_spec ctx world idx views) \<longleftrightarrow> k \<in> (dom (map_of views) \<union> sn_object_id ` set (scoped ctx world idx views)) -
      fst ` set (lost ctx world idx views)"
  proof (cases "k \<in> sn_object_id ` set (scoped ctx world idx views)")
    case True
    then have "k \<notin> fst ` set (lost ctx world idx views)" using lost_not_scoped by blast
    moreover have "find (\<lambda>e. sn_object_id e = k) (scoped ctx world idx views) \<noteq> None" using True by (simp only: find_none_iff not_not)
    ultimately show ?thesis using True by (auto simp: views_spec_def split: option.splits)
  next
    case False
    then have "k \<notin> sn_object_id ` set (planned ctx world idx views)" using planned_scoped by blast
    then have "find (\<lambda>e. sn_object_id e = k) (scoped ctx world idx views) = None"
      "find (\<lambda>e. sn_object_id e = k) (planned ctx world idx views) = None"
      using False by (simp_all only: find_none_iff not_False_eq_True)
    then show ?thesis using False by (auto simp: views_spec_def dom_def)
  qed
qed

lemma tick_mirror:
  assumes inv: "view_inv v held" and "distinct (map sn_object_id world)" "length world < 2 ^ 32"
    and t: "cv_tick_with_context focus fvel bucket world (si_build world r) cfg v = Some (plan, v')"
  shows "view_inv v' (mirror plan held) \<and> set (tp_syncs plan) \<subseteq> held \<and>
    set (tp_creates plan) \<inter> fst ` set (tp_removes plan) = {}"
proof -
  let ?c = "client_context focus fvel bucket cfg v" and ?i = "si_build world r" and ?V = "cv_views v"
  have d: "distinct (map fst ?V)" and cr: "created_ids ?V \<subseteq> held" and dom: "held \<subseteq> dom (map_of ?V)"
    using inv by (auto simp: view_inv_def)
  have p: "plan = plan_spec ?c world ?i ?V" and m: "map_of (cv_views v') = views_spec ?c world ?i ?V"
    and d': "distinct (map fst (cv_views v'))"
    using cv_tick_law [OF assms(2,3) d, of focus fvel bucket r cfg] t by auto
  have rm: "tp_removes plan = lost ?c world ?i ?V" by (simp add: p plan_spec_def)
  have cs: "set (tp_creates plan) \<subseteq> sn_object_id ` set (scoped ?c world ?i ?V)"
    using planned_scoped by (fastforce simp: p plan_spec_def)
  have "set (tp_syncs plan) \<subseteq> created_ids ?V"
    using prior_created [of ?V] by (auto simp: p plan_spec_def to_sync_def)
  moreover have "created_ids (cv_views v') \<subseteq> mirror plan held"
  proof
    fix k assume "k \<in> created_ids (cv_views v')"
    then obtain w where w: "views_spec ?c world ?i ?V k = Some w" "ev_created w" by (auto simp: created_ids_def m)
    then have "k \<notin> fst ` set (lost ?c world ?i ?V)" using spec_dom [of ?c world ?i ?V] by auto
    then show "k \<in> mirror plan held" using spec_created [OF w] cr unfolding mirror_def rm p [symmetric] by blast
  qed
  moreover have "mirror plan held \<subseteq> dom (map_of (cv_views v'))"
    unfolding m spec_dom mirror_def rm using dom cs by blast
  moreover have "set (tp_creates plan) \<inter> fst ` set (tp_removes plan) = {}"
    using cs lost_not_scoped [of _ ?c world ?i ?V] unfolding rm by blast
  ultimately show ?thesis using cr d' by (auto simp: view_inv_def)
qed

lemma view_inv_map:
  assumes "view_inv v held" "\<And>k. map_of (cv_views v') k = map_option (g k) (map_of (cv_views v) k)"
    and "\<And>k ev. ev_created (g k ev) \<Longrightarrow> ev_created ev" "map fst (cv_views v') = map fst (cv_views v)"
  shows "view_inv v' held"
proof -
  have "created_ids (cv_views v') \<subseteq> created_ids (cv_views v)"
    using assms(3) by (auto simp: created_ids_def assms(2))
  moreover have "dom (map_of (cv_views v')) = dom (map_of (cv_views v))" by (auto simp: dom_def assms(2))
  ultimately show ?thesis using assms(1,4) unfolding view_inv_def by auto
qed

lemma map_entry_keys: "map fst (AList.map_entry k f xs) = map fst xs"
  by (induction xs) auto

lemma upd_view_inv:
  assumes "view_inv v held" "\<And>ev. ev_created (f ev) \<Longrightarrow> ev_created ev"
  shows "view_inv (upd_view k f v) held"
  using assms(1)
proof (rule view_inv_map)
  show "map_of (cv_views (upd_view k f v)) j = map_option (if j = k then f else id) (map_of (cv_views v) j)" for j
    by (auto simp: upd_view_def map_of_map_entry option.map_id split: option.splits)
qed (auto simp: assms(2) upd_view_def map_entry_keys split: if_splits)

lemma map_of_map_ev: "map_of (map (\<lambda>(k, ev). (k, g ev)) xs) j = map_option g (map_of xs j)"
  by (induction xs) auto

lemma view_inv_nak:
  assumes "view_inv v held"
  shows "view_inv (rollback k frame recreate v) held" "view_inv (rollback_all frame v) held"
    "view_inv (force_recreate k v) held" "view_inv (ack_frame frame v) held"
proof -
  show "view_inv (rollback k frame recreate v) held" "view_inv (force_recreate k v) held"
    unfolding rollback_def force_recreate_def
    by (intro upd_view_inv [OF assms]; simp add: Let_def split: if_splits)+
  show "view_inv (rollback_all frame v) held"
    using assms by (rule view_inv_map [where g = "\<lambda>_ ev. ev\<lparr>ev_base_frame := min (ev_base_frame ev) frame\<rparr>"])
      (auto simp: rollback_all_def map_of_map_ev comp_def case_prod_beta)
  show "view_inv (ack_frame frame v) held" using assms by (simp add: ack_frame_def)
qed

lemma client_reach_inv: "client_reach v held \<Longrightarrow> view_inv v held"
proof (induction rule: client_reach.induct)
  case (cr_new net_id)
  then show ?case by (simp add: view_inv_def cv_new_def created_ids_def)
next
  case (cr_tick v held world focus fvel bucket r cfg plan v')
  then show ?case using tick_mirror by blast
qed (simp_all add: view_inv_nak)

section \<open>Properties\<close>

text \<open>C7. The tick is a greedy fill. For every snapshot with distinct object ids and every view, the
  tick never panics, and its plan is the one of the specification: among the entities of the nine
  cells around the focus that are in scope and need sending, taken by descending accrued priority
  (ties by object id), each one is sent that still fits the byte budget, the first one always; an
  entity the client was never sent is created, another one synced; and the known ids with no entity
  in scope are removed by ascending id, as far as the removal budget goes. The new view holds for
  every id what the specification says.\<close>

theorem tick_is_greedy_fill:
  assumes "distinct (map sn_object_id world)" "length world < 2 ^ 32" "distinct (map fst views)"
  shows "\<exists>views'. tick_with_context ctx world (si_build world r) views =
      Some (plan_spec ctx world (si_build world r) views, views') \<and>
    map_of views' = views_spec ctx world (si_build world r) views \<and> distinct (map fst views')"
  by (rule tick_law [OF assms(1) index_ok_build [OF assms(2)] assms(3)])

definition sample_snap :: "u16 \<Rightarrow> u32 \<Rightarrow> int \<Rightarrow> u64 \<Rightarrow> entity_snapshot" where
  "sample_snap k own x frame =
     (let n = fl_of_int F32 in
      \<lparr>sn_object_id = k, sn_uniqifier = k, sn_owner = own, sn_position = (n x, n 0, n 0),
       sn_velocity = (n 0, n 0, n 0), sn_entity_type = Object, sn_routing_bucket = 0,
       sn_frame_index = frame, sn_data_len = 64\<rparr>)"

definition sample_ctx :: tick_context where
  "sample_ctx = (let n = fl_of_int F32 in
     \<lparr>tc_net_id = 1, tc_focus = (n 0, n 0, n 0), tc_focus_velocity = (n 0, n 0, n 0), tc_bucket = 0,
      tc_cfg = interest_config_default\<rparr>)"

definition sample_world :: "entity_snapshot list" where
  "sample_world = [sample_snap 10 2 10 5, sample_snap 11 2 400 5, sample_snap 12 1 5 5]"

lemma sample_world_ok: "distinct (map sn_object_id sample_world)" "length sample_world < 2 ^ 32"
  by (simp_all add: sample_world_def sample_snap_def Let_def)

theorem tick_is_greedy_fill_witness:
  "\<exists>views'. tick_with_context sample_ctx sample_world (si_build sample_world (query_radius interest_config_default)) [] =
      Some (plan_spec sample_ctx sample_world (si_build sample_world (query_radius interest_config_default)) [], views') \<and>
    map_of views' = views_spec sample_ctx sample_world (si_build sample_world (query_radius interest_config_default)) []"
  using tick_is_greedy_fill [OF sample_world_ok, of "[]" sample_ctx "query_radius interest_config_default"] by auto

text \<open>C33. The budget holds, and a tick makes progress. Whenever the tick returns a plan, the records
  planned cost at most the byte budget together, or there is only one; at most one removal per eight
  bytes of the removal budget is planned (or one, if the budget is smaller); and the entity in scope
  that comes first by priority among those that need sending is sent in this tick.\<close>

theorem plan_budget_and_progress:
  assumes "distinct (map sn_object_id world)" "length world < 2 ^ 32" "distinct (map fst views)"
    and "tick_with_context ctx world (si_build world r) views = Some (plan, views')"
  shows "(sum_list (map (\<lambda>k. record_cost (snapshot_of world k)) (tp_creates plan @ tp_syncs plan)) \<le> budget_bytes (tc_cfg ctx) \<or>
      length (tp_creates plan @ tp_syncs plan) = 1) \<and>
    length (tp_removes plan) \<le> max (remove_budget_bytes (tc_cfg ctx) div 8) 1 \<and>
    (\<forall>e es. filter (\<lambda>e. to_create views e \<or> to_sync views e) (ranked ctx world (si_build world r) views) = e # es \<longrightarrow>
       sn_object_id e \<in> set (tp_creates plan @ tp_syncs plan))"
proof -
  let ?i = "si_build world r" let ?P = "planned ctx world ?i views"
  note ok = index_ok_build [OF assms(2), of r]
  have plan: "plan = plan_spec ctx world ?i views" using tick_law [OF assms(1) ok assms(3), of ctx] assms(4) by auto
  have "mset (map (\<lambda>k. record_cost (snapshot_of world k)) (tp_creates plan @ tp_syncs plan)) =
      mset (map (\<lambda>e. record_cost (snapshot_of world (sn_object_id e))) ?P)"
    using plan_split [of "\<lambda>e. record_cost (snapshot_of world (sn_object_id e))" views ctx world ?i]
    by (simp add: plan plan_spec_def comp_def)
  also have "map (\<lambda>e. record_cost (snapshot_of world (sn_object_id e))) ?P = map record_cost ?P"
    using scoped_world [OF ok planned_scoped] snapshot_of_id [OF assms(1)] by auto
  finally have ms: "mset (map (\<lambda>k. record_cost (snapshot_of world k)) (tp_creates plan @ tp_syncs plan)) = mset (map record_cost ?P)" .
  then have "sum_list (map (\<lambda>k. record_cost (snapshot_of world k)) (tp_creates plan @ tp_syncs plan)) = sum_list (map record_cost ?P)"
    by (metis sum_mset_sum_list)
  moreover have "length (tp_creates plan @ tp_syncs plan) = length ?P" using mset_eq_length [OF ms] by simp
  moreover have "sum_list (map record_cost ?P) \<le> budget_bytes (tc_cfg ctx) \<or> length ?P = 1"
    unfolding planned_def by (rule greedy_budget) (simp add: record_cost_def)
  moreover have "length (tp_removes plan) \<le> max (remove_budget_bytes (tc_cfg ctx) div 8) 1"
    by (simp add: plan plan_spec_def lost_def)
  moreover have "sn_object_id e \<in> set (tp_creates plan @ tp_syncs plan)"
    if "filter (\<lambda>e. to_create views e \<or> to_sync views e) (ranked ctx world ?i views) = e # es" for e es
    unfolding plan plan_ids using that by (simp add: planned_def)
  ultimately show ?thesis by presburger
qed

lemma sample_tick: "\<exists>plan views'. tick_with_context sample_ctx sample_world (si_build sample_world (fl_of_int F32 444)) [] = Some (plan, views')"
  using tick_law [OF sample_world_ok(1) index_ok_build [OF sample_world_ok(2), of "fl_of_int F32 444"], of "[]" sample_ctx] by auto

theorem plan_budget_and_progress_witness:
  "\<exists>plan views'. tick_with_context sample_ctx sample_world (si_build sample_world (fl_of_int F32 444)) [] = Some (plan, views') \<and>
    (sum_list (map (\<lambda>k. record_cost (snapshot_of sample_world k)) (tp_creates plan @ tp_syncs plan)) \<le> 24576 \<or>
      length (tp_creates plan @ tp_syncs plan) = 1) \<and> length (tp_removes plan) \<le> 512"
proof -
  obtain plan views' where t: "tick_with_context sample_ctx sample_world (si_build sample_world (fl_of_int F32 444)) [] = Some (plan, views')"
    using sample_tick by blast
  have "budget_bytes (tc_cfg sample_ctx) = 24576" "max (remove_budget_bytes (tc_cfg sample_ctx) div 8) 1 = 512"
    by (simp_all add: sample_ctx_def Let_def interest_config_default_def)
  then show ?thesis using plan_budget_and_progress [OF sample_world_ok _ t] t by auto
qed

text \<open>Only entities in scope are sent. Every object id a tick creates or syncs is the id of an
  entity of the snapshot that another client owns, that is in the client's routing bucket, and whose
  horizontal distance from the focus is not beyond the interest radius, widened by the hysteresis
  margin only for an entity the client already had in view.\<close>

theorem plan_respects_scope:
  assumes "distinct (map sn_object_id world)" "length world < 2 ^ 32" "distinct (map fst views)"
    and "tick_with_context ctx world (si_build world r) views = Some (plan, views')"
    and "k \<in> set (tp_creates plan @ tp_syncs plan)"
  shows "\<exists>e\<in>set world. sn_object_id e = k \<and> sn_owner e \<noteq> ucast (tc_net_id ctx) \<and>
    sn_routing_bucket e = tc_bucket ctx \<and>
    \<not> fl_lt (let rad = scope_radius (tc_cfg ctx) (k \<in> fst ` set views) in fl_mul F32 rad rad)
        (dist2 (offset_xy (sn_position e) (tc_focus ctx)))"
proof -
  let ?i = "si_build world r"
  note ok = index_ok_build [OF assms(2), of r]
  have plan: "plan = plan_spec ctx world ?i views" using tick_law [OF assms(1) ok assms(3), of ctx] assms(4) by auto
  obtain e where e: "e \<in> set (planned ctx world ?i views)" "sn_object_id e = k"
    using assms(5) unfolding plan plan_ids by blast
  have m: "map_of views k \<noteq> None \<longleftrightarrow> k \<in> fst ` set views" by (simp add: map_of_eq_None_iff)
  have "e \<in> set world" "relevant ctx (k \<in> fst ` set views) e"
    using scoped_world [OF ok planned_scoped [OF e(1)]] unfolding in_scope_def e(2) m by auto
  with e(2) show ?thesis unfolding relevant_def by auto
qed

theorem plan_respects_scope_witness:
  "\<exists>plan views'. tick_with_context sample_ctx sample_world (si_build sample_world (fl_of_int F32 444)) [] = Some (plan, views') \<and>
    12 \<notin> set (tp_creates plan @ tp_syncs plan)"
proof -
  obtain plan views' where t: "tick_with_context sample_ctx sample_world (si_build sample_world (fl_of_int F32 444)) [] = Some (plan, views')"
    using sample_tick by blast
  have "12 \<notin> set (tp_creates plan @ tp_syncs plan)"
  proof
    assume "12 \<in> set (tp_creates plan @ tp_syncs plan)"
    from plan_respects_scope [OF sample_world_ok _ t this] show False
      by (auto simp: sample_world_def sample_snap_def sample_ctx_def Let_def)
  qed
  with t show ?thesis by blast
qed



lemma ample_budget:
  assumes "distinct (map sn_object_id world)" "index_ok world idx"
    and "sum_list (map record_cost world) \<le> budget_bytes (tc_cfg ctx)"
  shows "set (planned ctx world idx views) =
    {e \<in> set (scoped ctx world idx views). to_create views e \<or> to_sync views e}"
proof -
  let ?xs = "filter (\<lambda>e. to_create views e \<or> to_sync views e) (ranked ctx world idx views)"
  have "distinct (map sn_object_id (ranked ctx world idx views))"
    using distinct_scoped [OF assms(1,2), of ctx views] by (simp add: ranked_def distinct_map)
  then have d: "distinct ?xs" "distinct world" using assms(1) by (auto simp: distinct_map)
  have "set ?xs \<subseteq> set world" using scoped_world [OF assms(2)] by (auto simp: sets_le(1))
  then have "sum record_cost (set ?xs) \<le> sum record_cost (set world)" by (intro sum_mono2) simp_all
  then have "sum_list (map record_cost ?xs) \<le> sum_list (map record_cost world)"
    using d by (simp only: sum_list_distinct_conv_sum_set)
  then have "planned ctx world idx views = ?xs" unfolding planned_def using assms(3) by (intro greedy_all) simp
  then show ?thesis by (auto simp: sets_le(1))
qed

lemma rolled_back_needs:
  assumes "frame < sn_frame_index e"
  shows "to_create (cv_views (rollback_all frame v)) e \<or> to_sync (cv_views (rollback_all frame v)) e"
  using assms
  by (auto simp: to_create_def to_sync_def prior_view_def rollback_all_def map_of_map_ev fresh_view_def
      min_less_iff_disj split: option.splits)



section \<open>Two limits of the design\<close>

text \<open>The nine cells do not always cover the radius. With a query radius of 512 metres, an entity at
  \<open>x = 1024\<close> passes the distance test from a focus one unit in the last place below \<open>x = 512\<close>, since the
  difference rounds to 512; its cell is two columns away, and the index does not visit it.\<close>

definition edge_focus :: vec3 where
  "edge_focus = (Fin False (16777215 * 2 ^ 134), Fin False 0, Fin False 0)"

definition edge_snap :: entity_snapshot where
  "edge_snap = (sample_snap 10 2 1024 1)"

lemma index_misses_boundary_entity:
  "let r = fl_of_int F32 512 in
   \<not> fl_lt (fl_mul F32 r r) (dist2 (offset_xy (sn_position edge_snap) edge_focus)) \<and>
   for_each_near (si_build [edge_snap] r) edge_focus = []"
  by (simp add: edge_snap_def sample_snap_def edge_focus_def dist2_def offset_xy_def fl_eval for_each_near_def
      neighbours_def si_build_def push_cell_def cell_of_def fl_to_i32_def)

text \<open>A reused object id is not recreated. When an entity with a new uniqifier takes an id whose former
  entity the client was sent, the tick neither removes the old entity nor creates the new one: the
  client gets deltas of an entity it never received.\<close>

lemma reused_id_not_recreated:
  assumes "distinct (map sn_object_id world)" "length world < 2 ^ 32" "distinct (map fst views)"
    and "tick_with_context ctx world (si_build world r) views = Some (plan, views')"
    and "map_of views (sn_object_id e) = Some v" "ev_created v" "ev_uniqifier v \<noteq> sn_uniqifier e"
    and "e \<in> set (scoped ctx world (si_build world r) views)"
  shows "sn_object_id e \<notin> set (tp_creates plan) \<and> sn_object_id e \<notin> fst ` set (tp_removes plan)"
proof -
  let ?i = "si_build world r"
  note ok = index_ok_build [OF assms(2), of r]
  have plan: "plan = plan_spec ctx world ?i views" using tick_law [OF assms(1) ok assms(3), of ctx] assms(4) by auto
  have "\<not> to_create views e'" if "sn_object_id e' = sn_object_id e" for e'
    using that assms(5,6) by (simp add: to_create_def prior_view_def)
  then have "sn_object_id e \<notin> set (tp_creates plan)" by (auto simp: plan plan_spec_def)
  moreover have "sn_object_id e \<notin> fst ` set (tp_removes plan)"
    using lost_not_scoped assms(8) unfolding plan plan_spec_def tick_plan.select_convs by blast
  ultimately show ?thesis ..
qed

end
