(* ===== verification/Inbound_Bounds.thy ===== *)
theory Inbound_Bounds
  imports Packed_Stream Leaf_Bounds
begin

text \<open>
  What any client can upload. Whatever bytes a payload decompresses to, the records that
  \<open>decode_incoming\<close> (\<open>rage/packet.rs\<close>) returns name object ids within the id field of the mode and
  carry blobs shorter than 4096 bytes.
\<close>

section \<open>Postconditions with either id width\<close>

definition yields :: "bool \<Rightarrow> 'a reader \<Rightarrow> ('a \<Rightarrow> bool) \<Rightarrow> bool" where
  "yields h m Q \<longleftrightarrow> (\<forall>b v b'. wf_buf b \<longrightarrow> length_hack b = h \<longrightarrow> m b = (Some v, b') \<longrightarrow>
     Q v \<and> wf_buf b' \<and> length_hack b' = h)"

lemma yieldsD: "yields h m Q \<Longrightarrow> wf_buf b \<Longrightarrow> length_hack b = h \<Longrightarrow> m b = (Some v, b') \<Longrightarrow> Q v \<and> wf_buf b' \<and> length_hack b' = h"
  unfolding yields_def by blast

lemma yields_weaken: "yields h m Q \<Longrightarrow> (\<And>v. Q v \<Longrightarrow> P v) \<Longrightarrow> yields h m P"
  unfolding yields_def by blast

lemma yields_try: "yields h m Q \<Longrightarrow> (\<And>x. Q x \<Longrightarrow> yields h (k x) R) \<Longrightarrow> yields h (try_read m k) R"
proof -
  assume m: "yields h m Q" and k: "\<And>x. Q x \<Longrightarrow> yields h (k x) R"
  have "R y \<and> wf_buf b' \<and> length_hack b' = h"
    if b: "wf_buf b" "length_hack b = h" and t: "try_read m k b = (Some y, b')" for b y b'
  proof -
    obtain x b1 where x: "m b = (Some x, b1)" "k x b1 = (Some y, b')"
      using t by (auto simp: try_read_def split: prod.splits option.splits)
    from yieldsD [OF m b x(1)] yieldsD [OF k _ _ x(2)] show ?thesis by blast
  qed
  then show ?thesis unfolding yields_def by blast
qed

lemma yields_ret: "Q v \<Longrightarrow> yields h (ret v) Q"
  by (simp add: yields_def)

lemma yields_if: "(c \<Longrightarrow> yields h m Q) \<Longrightarrow> (\<not> c \<Longrightarrow> yields h k Q) \<Longrightarrow> yields h (if c then m else k) Q"
  by simp

lemma wf_reads: "reads_only m \<Longrightarrow> m b = (r, b') \<Longrightarrow> wf_buf b \<Longrightarrow> wf_buf b' \<and> length_hack b' = length_hack b"
  using reads_only_D [of m b r b'] by (simp add: wf_buf_def)

lemma yields_field: "yields h (read_bits_single n) (\<lambda>v. unat v < 2 ^ eff_width h n)"
  unfolding yields_def
proof (intro allI impI)
  fix b v b'
  assume b: "wf_buf b" "length_hack b = h" "read_bits_single n b = (Some v, b')"
  have "effective_len b n = eff_width h n" using b(2) by (simp add: effective_len_def eff_width_def)
  then have "v = word_of_bits (take (eff_width h n) (unread b))"
    using b by (auto simp: read_bits_single_law split: if_splits)
  then have "unat v < 2 ^ eff_width h n" by (simp add: word_of_bits_less)
  then show "unat v < 2 ^ eff_width h n \<and> wf_buf b' \<and> length_hack b' = h"
    using wf_reads [OF reads_only_rbs b(3) b(1)] b(2) by simp
qed

lemma yields_data: "yields h (read_data n) (\<lambda>d. length d = n)"
  unfolding yields_def
proof (intro allI impI)
  fix b d b'
  assume b: "wf_buf b" "length_hack b = h" "read_data n b = (Some d, b')"
  then show "length d = n \<and> wf_buf b' \<and> length_hack b' = h"
    using wf_reads [OF reads_only_blob, of "replicate n 0" "n * 8" b]
    by (cases "n = 0") (auto simp: read_data_def read_bits_law split: prod.splits if_splits)
qed

section \<open>Uploaded records\<close>

fun inbound_ok :: "bool \<Rightarrow> inbound_record \<Rightarrow> bool" where
  "inbound_ok h (InClone c i u e t d) \<longleftrightarrow> id_fits h i \<and> length d < 4096"
| "inbound_ok h (InRemove i u) \<longleftrightarrow> id_fits h i"
| "inbound_ok h (InTakeover t i) \<longleftrightarrow> id_fits h i"
| "inbound_ok h (InTimestamp t) \<longleftrightarrow> True"
| "inbound_ok h (InIndex i) \<longleftrightarrow> True"

lemma id_fits_field: "unat (v::u32) < 2 ^ eff_width h 13 \<Longrightarrow> id_fits h (ucast v)"
proof (cases h)
  case False
  assume "unat v < 2 ^ eff_width h 13"
  then have "unat (ucast v :: u16) < 8192" using False by - (rule ucast_less, simp add: eff_width_def)
  moreover have "uint (ucast v :: u16) = int (unat (ucast v :: u16))" by simp
  ultimately show ?thesis unfolding id_fits_def by linarith
qed (simp add: id_fits_def)

lemma yields_any: "reads_only m \<Longrightarrow> yields h m (\<lambda>_. True)"
  unfolding yields_def by (intro allI impI) (simp add: wf_reads [of m])

lemma yields_fail: "yields h fail Q"
  by (simp add: yields_def)

lemma yields_prod: "(\<And>a b. yields h (f a b) Q) \<Longrightarrow> yields h (case x of (a, b) \<Rightarrow> f a b) Q"
  by (cases x) simp

lemma yields_inbound: "yields h (read_inbound ty) (inbound_ok h)"
proof -
  have w12: "eff_width h 12 = 12" by (simp add: eff_width_def)
  have tok: "yields h (if c then try_read (read_bits_single 32) (\<lambda>t. try_read (read_bits_single ENTITY_TYPE_BITS) (\<lambda>y. ret (f y, t))) else ret z)
      (\<lambda>_. True)" for c :: bool and f :: "u32 \<Rightarrow> net_obj_entity_type option" and z
    by (rule yields_any) (intro reader_intro | simp)+
  show ?thesis unfolding read_inbound_def Let_def
    by (rule yields_if yields_try [OF yields_field] yields_try [OF tok] yields_try [OF yields_data]
        yields_prod yields_ret yields_fail | simp add: id_fits_field w12)+
qed

lemma decoded_ok:
  assumes "wf_buf b" "length_hack b = h"
  shows "\<forall>r\<in>set (inbound_records b). inbound_ok h r"
  using assms
proof (induction b rule: inbound_records.induct)
  case (1 b)
  show ?case
  proof (cases "is_at_end b")
    case False
    obtain o1 b1 where t: "read_bits_single 3 b = (o1, b1)" by force
    show ?thesis
    proof (cases o1)
      case (Some ty)
      obtain o2 b2 where r: "read_inbound ty b1 = (o2, b2)" by force
      have b1: "wf_buf b1" "length_hack b1 = h" using yieldsD [OF yields_field "1.prems"] t Some by auto
      show ?thesis
      proof (cases o2)
        case (Some r')
        have "inbound_ok h r'" "wf_buf b2" "length_hack b2 = h"
          using yieldsD [OF yields_inbound b1] r Some by auto
        then show ?thesis
          using "1.IH" t r Some \<open>o1 = Some ty\<close> False by (subst inbound_records.simps) auto
      qed (use t r Some False in \<open>subst inbound_records.simps, simp\<close>)
    qed (use t False in \<open>subst inbound_records.simps, simp\<close>)
  qed (subst inbound_records.simps, simp)
qed

end
