(* ===== verification/Registry_Inv.thy ===== *)
theory Registry_Inv
  imports Server_Entities Outbound Ingest Interest_Props Sync_Factories Inbound_Bounds
begin

text \<open>
  The consistency of the entity registry with the object-id allocator (\<open>onesync/mod.rs\<close>,
  \<open>onesync/ingest.rs\<close>). Every operation of the game state acts on the pair of them by one of four
  moves; each move is shown to keep the invariant, and each operation to be such a move.
\<close>

section \<open>The invariant\<close>

definition ent_ok :: "u16 \<Rightarrow> server_entity \<Rightarrow> bool" where
  "ent_ok k e \<longleftrightarrow> se_object_id e = k \<and> length (se_data e) < 4096 \<and> length (se_create_data e) < 4096"

text \<open>An id is used exactly when an entity lives under it.\<close>

definition reg_ok :: "u16 \<Rightarrow> id_state list \<Rightarrow> (u16 \<times> server_entity) list \<Rightarrow> bool" where
  "reg_ok mx ids ents \<longleftrightarrow> distinct (map fst ents) \<and> length ids = Suc (unat mx) \<and>
     (\<forall>k. map_of ents k \<noteq> None \<longleftrightarrow> unat k < length ids \<and> ids ! unat k = IdUsed) \<and>
     (\<forall>k e. map_of ents k = Some e \<longrightarrow> ent_ok k e)"

definition view_ok_upto :: "nat \<Rightarrow> client_view \<Rightarrow> bool" where
  "view_ok_upto n v \<longleftrightarrow> list_all (\<lambda>k. unat k < n) (map fst (cv_views v)) \<and> (\<exists>held. view_inv v held)"

definition client_ok :: "nat \<Rightarrow> client_state \<Rightarrow> bool" where
  "client_ok n c \<longleftrightarrow> list_all (\<lambda>i. unat i < n) (cs_leased c) \<and> view_ok_upto n (cs_view c)"

definition mode_max :: "bool \<Rightarrow> u16" where
  "mode_max hack = (if hack then MAX_OBJECT_ID_BEYOND else MAX_OBJECT_ID_NATIVE)"

definition gs_inv :: "server_game_state \<Rightarrow> bool" where
  "gs_inv s \<longleftrightarrow> reg_ok (gs_max_object_id s) (gs_ids s) (gs_entities s) \<and>
     gs_max_object_id s = mode_max (gs_length_hack s) \<and>
     distinct (map fst (gs_clients s)) \<and>
     (\<forall>k c. map_of (gs_clients s) k = Some c \<longrightarrow> client_ok (length (gs_ids s)) c)"

lemma reg_okD:
  assumes "reg_ok mx ids ents"
  shows "distinct (map fst ents)" "length ids = Suc (unat mx)"
    "map_of ents k = Some e \<Longrightarrow> unat k < length ids \<and> ids ! unat k = IdUsed \<and> ent_ok k e"
    "unat k < length ids \<Longrightarrow> ids ! unat k = IdUsed \<Longrightarrow> \<exists>e. map_of ents k = Some e"
  using assms unfolding reg_ok_def by (metis option.distinct(1), metis option.distinct(1), metis option.distinct(1), metis not_None_eq)

subsection \<open>The four moves\<close>

lemma id_at: "unat k < length ids \<Longrightarrow> ids[unat j := st] ! unat (k::u16) = (if k = j then st else ids ! unat k)"
proof (cases "k = j")
  case False
  then have "unat j \<noteq> unat k" by (metis word_unat_eq_iff)
  then show ?thesis using False by simp
qed simp

lemma reg_put:
  assumes "reg_ok mx ids ents" "unat k < length ids" "ent_ok k e"
  shows "reg_ok mx (ids[unat k := IdUsed]) (AList.update k e ents)"
  using assms unfolding reg_ok_def by (simp add: update_conv' distinct_update id_at cong: conj_cong)

lemma reg_live:
  assumes "reg_ok mx ids ents" "map_of ents k = Some e" "ent_ok k e'"
  shows "reg_ok mx ids (AList.update k e' ents)"
proof -
  have k: "unat k < length ids" "ids ! unat k = IdUsed" using reg_okD(3) [OF assms(1,2)] by auto
  then have "ids[unat k := IdUsed] = ids" by (metis list_update_id)
  then show ?thesis using reg_put [OF assms(1) k(1) assms(3)] by metis
qed

lemma reg_drop:
  assumes "reg_ok mx ids ents" "unat k < length ids"
  shows "reg_ok mx (ids[unat k := IdFree]) (AList.delete k ents)"
  using assms unfolding reg_ok_def by (auto simp: delete_conv' distinct_delete id_at cong: conj_cong split: if_splits)

lemma reg_map:
  assumes "reg_ok mx ids ents" "map fst ents' = map fst ents"
    and "\<And>k. map_of ents' k = map_option (f k) (map_of ents k)"
    and "\<And>k e. map_of ents k = Some e \<Longrightarrow> ent_ok k e \<Longrightarrow> ent_ok k (f k e)"
  shows "reg_ok mx ids ents'"
  using assms(1,2,4) unfolding reg_ok_def assms(3) by auto

lemma reg_ids:
  assumes "reg_ok mx ids ents" "length ids' = length ids"
    and "\<And>j. j < length ids \<Longrightarrow> ids' ! j = IdUsed \<longleftrightarrow> ids ! j = IdUsed"
  shows "reg_ok mx ids' ents"
  using assms(1,3) unfolding reg_ok_def assms(2) by (simp cong: conj_cong)

section \<open>Each operation keeps the invariant\<close>

lemma gs_inv_reg:
  assumes "gs_inv s" "reg_ok (gs_max_object_id s) (gs_ids s') (gs_entities s')"
    "gs_clients s' = gs_clients s" "gs_max_object_id s' = gs_max_object_id s" "gs_length_hack s' = gs_length_hack s"
  shows "gs_inv s'"
proof -
  have "length (gs_ids s') = length (gs_ids s)" using assms(1,2) by (simp add: gs_inv_def reg_ok_def)
  then show ?thesis using assms by (simp add: gs_inv_def)
qed

lemma gs_inv_clients:
  assumes "gs_inv s" "gs_ids s' = gs_ids s" "gs_entities s' = gs_entities s"
    "gs_max_object_id s' = gs_max_object_id s" "gs_length_hack s' = gs_length_hack s"
    "distinct (map fst (gs_clients s'))"
    "\<And>k c. map_of (gs_clients s') k = Some c \<Longrightarrow> client_ok (length (gs_ids s)) c"
  shows "gs_inv s'"
  using assms(1,6,7) unfolding gs_inv_def assms(2-5) by blast

lemma gs_invD:
  assumes "gs_inv s"
  shows "reg_ok (gs_max_object_id s) (gs_ids s) (gs_entities s)" "distinct (map fst (gs_clients s))"
    "map_of (gs_clients s) k = Some c \<Longrightarrow> client_ok (length (gs_ids s)) c"
    "length (gs_ids s) = Suc (unat (gs_max_object_id s))"
    "id_fits (gs_length_hack s) i \<Longrightarrow> i \<noteq> 0xFFFF \<Longrightarrow> unat i < length (gs_ids s)"
proof -
  show r: "reg_ok (gs_max_object_id s) (gs_ids s) (gs_entities s)" "distinct (map fst (gs_clients s))"
    "map_of (gs_clients s) k = Some c \<Longrightarrow> client_ok (length (gs_ids s)) c"
    using assms unfolding gs_inv_def by blast+
  show l: "length (gs_ids s) = Suc (unat (gs_max_object_id s))" using r(1) by (simp add: reg_ok_def)
  have mx: "gs_max_object_id s = mode_max (gs_length_hack s)" using assms unfolding gs_inv_def by blast
  show "unat i < length (gs_ids s)" if "id_fits (gs_length_hack s) i" "i \<noteq> 0xFFFF"
  proof (cases "gs_length_hack s")
    case True
    have "unat (0xFFFF :: u16) = 65535" by simp
    then have "unat i \<noteq> 65535" using that(2) by (metis word_unat_eq_iff)
    moreover have "unat i < 65536" using unsigned_less [of i] by simp
    ultimately show ?thesis using True mx by (simp add: l mode_max_def MAX_OBJECT_ID_BEYOND_def)
  next
    case False
    then have "uint i < 8192" using that(1) by (simp add: id_fits_def)
    moreover have "uint i = int (unat i)" by simp
    ultimately have "unat i < 8192" by linarith
    then show ?thesis using False mx by (simp add: l mode_max_def MAX_OBJECT_ID_NATIVE_def)
  qed
qed

lemma ents_map_entry:
  assumes "reg_ok mx ids ents" "\<And>e. ent_ok k e \<Longrightarrow> ent_ok k (f e)"
  shows "reg_ok mx ids (AList.map_entry k f ents)"
  using assms(1)
proof (rule reg_map)
  show "map_of (AList.map_entry k f ents) j = map_option (if j = k then f else id) (map_of ents j)" for j
    by (auto simp: map_of_map_entry option.map_id split: option.splits)
qed (auto simp: assms(2) map_entry_keys)

lemma ents_map_all:
  assumes "reg_ok mx ids ents" "\<And>k e. ent_ok k e \<Longrightarrow> ent_ok k (f e)"
  shows "reg_ok mx ids (map (\<lambda>(k, e). (k, f e)) ents)"
  using assms(1)
proof (rule reg_map)
  show "map_of (map (\<lambda>(k, e). (k, f e)) ents) j = map_option f (map_of ents j)" for j by (induction ents) auto
qed (auto simp: assms(2) comp_def case_prod_beta)

lemma apply_sync_data_ids [simp]:
  "se_object_id (apply_sync_data d e) = se_object_id e" "se_data (apply_sync_data d e) = se_data e"
  "se_create_data (apply_sync_data d e) = se_create_data e" "se_owner (apply_sync_data d e) = se_owner e"
  "se_uniqifier (apply_sync_data d e) = se_uniqifier e" "se_server_owned (apply_sync_data d e) = se_server_owned e"
  "se_routing_bucket (apply_sync_data d e) = se_routing_bucket e" "se_entity_type (apply_sync_data d e) = se_entity_type e"
  "se_first_owner (apply_sync_data d e) = se_first_owner e" "se_creation_token (apply_sync_data d e) = se_creation_token e"
  "se_frame_index (apply_sync_data d e) = se_frame_index e"
  by (simp_all add: apply_sync_data_def Let_def split: option.splits)

lemma gs_inv_init: "gs_inv (with_build big hack build)"
  by (auto simp: gs_inv_def with_build_def reg_ok_def mode_max_def Let_def simp del: replicate_Suc)

lemma gs_inv_add_client: "gs_inv s \<Longrightarrow> gs_inv (add_client source s)"
proof (cases "map_of (gs_clients s) source")
  case None
  assume inv: "gs_inv s"
  have new: "client_ok n (cs_new k)" for n k
    unfolding client_ok_def view_ok_upto_def cs_new_def by (auto simp: cv_new_def intro: client_reach_inv [OF cr_new, unfolded cv_new_def])
  show ?thesis using inv
    by (rule gs_inv_clients) (use None new gs_invD(2,3) [OF inv] in
      \<open>auto simp: add_client_def update_conv' distinct_update split: if_splits\<close>)
qed (simp add: add_client_def)

lemma gs_inv_client_entry:
  assumes "gs_inv s" "\<And>c. client_ok (length (gs_ids s)) c \<Longrightarrow> client_ok (length (gs_ids s)) (f c)"
  shows "gs_inv (s\<lparr>gs_clients := AList.map_entry source f (gs_clients s)\<rparr>)"
  using assms(1)
  by (rule gs_inv_clients)
    (use assms gs_invD(2,3) [OF assms(1)] in \<open>auto simp: map_entry_keys map_of_map_entry split: if_splits option.splits\<close>)

lemma gs_inv_routing: "gs_inv s \<Longrightarrow> gs_inv (s\<lparr>gs_routing := r\<rparr>)"
  by (auto simp: gs_inv_def)

lemma add_client_fields [simp]:
  "gs_ids (add_client k s) = gs_ids s" "gs_entities (add_client k s) = gs_entities s"
  "gs_routing (add_client k s) = gs_routing s" "gs_length_hack (add_client k s) = gs_length_hack s"
  "gs_max_object_id (add_client k s) = gs_max_object_id s" "gs_frame_index (add_client k s) = gs_frame_index s"
  "gs_build (add_client k s) = gs_build s" "gs_big_mode (add_client k s) = gs_big_mode s"
  "map_of (gs_clients (add_client k s)) k \<noteq> None"
  by (simp_all add: add_client_def update_conv')

lemma ids_set_some: "unat k < length ids \<Longrightarrow> ids_set k st ids = Some (ids[unat k := st])"
  by (simp add: ids_set_def)

lemma ids_get_some: "unat k < length ids \<Longrightarrow> ids_get k ids = Some (ids ! unat k)"
  by (simp add: ids_get_def)

subsection \<open>Server entities\<close>

lemma author_entity_writable:
  "\<exists>data. write_sync_tree ty True h (author_entity lm ty mdl pos hdg dynamic token) = Some data \<and> length data < 4000"
  unfolding author_entity_def using authored_writable by auto

lemma spawned_ok: "length d < 4096 \<Longrightarrow> ent_ok k (spawned_entity k ty mdl pos hdg token d fi)"
  by (simp add: ent_ok_def spawned_entity_def Let_def split: prod.splits)

lemma spawn_with_id_law:
  assumes "gs_inv s"
  shows "spawn_server_entity_with_id lm k ty mdl pos hdg dynamic s =
    (if k = 0 \<or> gs_max_object_id s < k \<or> gs_ids s ! unat k \<noteq> IdFree then Some (False, s)
     else Some (True, s\<lparr>gs_creation_token := gs_creation_token s + 1, gs_ids := (gs_ids s)[unat k := IdUsed],
       gs_entities := AList.update k (spawned_entity k ty mdl pos hdg (gs_creation_token s + 1)
         (the (write_sync_tree ty True (gs_length_hack s) (author_entity lm ty mdl pos hdg dynamic (gs_creation_token s + 1))))
         (gs_frame_index s)) (gs_entities s)\<rparr>))"
proof (cases "k = 0 \<or> gs_max_object_id s < k")
  case False
  then have "unat k < length (gs_ids s)" using gs_invD(4) [OF assms] by (simp add: word_le_nat_alt not_less less_Suc_eq_le)
  moreover obtain d where "write_sync_tree ty True (gs_length_hack s) (author_entity lm ty mdl pos hdg dynamic (gs_creation_token s + 1)) = Some d"
    using author_entity_writable by blast
  ultimately show ?thesis using False
    by (auto simp: spawn_server_entity_with_id_def ids_get_some ids_set_some Let_def)
qed (auto simp: spawn_server_entity_with_id_def)

lemma gs_inv_spawn:
  assumes "gs_inv s" "spawn_server_entity_with_id lm k ty mdl pos hdg dynamic s = Some (ok, s')"
  shows "gs_inv s'"
proof (cases "s' = s")
  case False
  then have c: "k \<noteq> 0 \<and> \<not> gs_max_object_id s < k \<and> gs_ids s ! unat k = IdFree"
    using assms spawn_with_id_law [OF assms(1)] by (auto split: if_splits)
  then have l: "unat k < length (gs_ids s)" using gs_invD(4) [OF assms(1)] by (simp add: word_le_nat_alt not_less less_Suc_eq_le)
  obtain d where d: "write_sync_tree ty True (gs_length_hack s) (author_entity lm ty mdl pos hdg dynamic (gs_creation_token s + 1)) = Some d" "length d < 4000"
    using author_entity_writable by blast
  from d(2) have "length d < 4096" by simp
  note put = reg_put [OF gs_invD(1) [OF assms(1)] l spawned_ok [OF this, of k ty mdl pos hdg "gs_creation_token s + 1" "gs_frame_index s"]]
  from assms(1) show ?thesis
    by (rule gs_inv_reg) (use assms(2) c d(1) put in \<open>auto simp: spawn_with_id_law [OF assms(1)]\<close>)
qed (use assms in simp)

lemma allocate_loop_law:
  assumes "unat i < length ids"
  shows "allocate_loop i ids = Some (map_option of_nat (find (\<lambda>j. ids ! j = IdFree) (rev [1..<Suc (unat i)])))"
  using assms
proof (induction i ids rule: allocate_loop.induct)
  case (1 i ids)
  show ?case
  proof (cases "0 < i")
    case True
    note u = unat_dec [OF True]
    then have up: "rev [1..<Suc (unat i)] = unat i # rev [1..<Suc (unat (i - 1))]" by (cases "unat i") auto
    have "ids_get i ids = Some (ids ! unat i)" using 1(2) by (rule ids_get_some)
    then show ?thesis using 1 True u unfolding up by (subst allocate_loop.simps) auto
  next
    case False
    then have "i = 0" by (simp add: word_gt_0)
    then show ?thesis by (subst allocate_loop.simps) simp
  qed
qed

lemma lease_loop_law:
  assumes "unat mx < length ids"
  shows "\<exists>ids'. lease_loop n mx i ids acc =
      Some (acc @ map of_nat (take (n - length acc) (filter (\<lambda>j. ids ! j = IdFree) [unat i..<unat mx])), ids') \<and>
    length ids' = length ids \<and>
    (\<forall>j. ids' ! j = (if j \<in> set (take (n - length acc) (filter (\<lambda>j. ids ! j = IdFree) [unat i..<unat mx]))
       then IdLeased else ids ! j))"
  using assms
proof (induction n mx i ids acc rule: lease_loop.induct)
  case (1 n mx i ids acc)
  show ?case
  proof (cases "length acc < n \<and> i < mx")
    case True
    then have lt: "unat i < unat mx" by (simp add: word_less_nat_alt)
    have up: "[unat i..<unat mx] = unat i # [unat (i + 1)..<unat mx]"
      using lt unat_inc [of i mx] True by (simp add: upt_conv_Cons)
    have g: "ids_get i ids = Some (ids ! unat i)" using lt 1(3) by (simp add: ids_get_some)
    show ?thesis
    proof (cases "ids ! unat i = IdFree")
      case free: True
      let ?ids = "ids[unat i := IdLeased]" and ?r = "[unat (i + 1)..<unat mx]"
      have same: "filter (\<lambda>j. ?ids ! j = IdFree) ?r = filter (\<lambda>j. ids ! j = IdFree) ?r"
        using unat_inc [of i mx] True by (intro filter_cong) auto
      have n: "n - length acc = Suc (n - length (acc @ [i]))" using True by auto
      have l: "unat i < length ids" using lt 1(3) by simp
      let ?t = "take (n - length (acc @ [i])) (filter (\<lambda>j. ids ! j = IdFree) ?r)"
      obtain ids' where ih: "lease_loop n mx (i + 1) ?ids (acc @ [i]) = Some ((acc @ [i]) @ map of_nat ?t, ids')"
        "length ids' = length ids" "\<forall>j. ids' ! j = (if j \<in> set ?t then IdLeased else ?ids ! j)"
        using "1.IH"(1) [OF True g free] 1(3) unfolding same by (auto simp del: length_append)
      have "\<forall>j. ids' ! j = (if j \<in> set (unat i # ?t) then IdLeased else ids ! j)"
        using ih(3) l by (simp add: nth_list_update)
      moreover have "take (n - length acc) (filter (\<lambda>j. ids ! j = IdFree) [unat i..<unat mx]) = unat i # ?t"
        unfolding up n using free by simp
      ultimately show ?thesis using ih(1,2) True g free by (subst lease_loop.simps) simp
    next
      case False
      then show ?thesis using "1.IH"(2) [OF True g False] 1(3) True g unfolding up by (subst lease_loop.simps) simp
    qed
  next
    case False
    then show ?thesis by (subst lease_loop.simps) (auto simp: word_less_nat_alt not_less)
  qed
qed

end
