(* ===== verification/Game_Inv.thy ===== *)
theory Game_Inv
  imports Registry_Inv
begin

text \<open>
  The effect of every operation of the game state (\<open>onesync/mod.rs\<close>, \<open>onesync/ingest.rs\<close>) in closed
  form on a consistent state, and that each one keeps the state consistent: leases, removal of a
  client, the four client mutations, whole payloads, and ticks.
\<close>

section \<open>Leases\<close>

definition grantable :: "nat \<Rightarrow> server_game_state \<Rightarrow> nat list" where
  "grantable n s = take n (filter (\<lambda>j. gs_ids s ! j = IdFree) [1..<unat (gs_max_object_id s)])"

lemma grantable_props:
  "sorted_wrt (<) (grantable n s)"
  "j \<in> set (grantable n s) \<Longrightarrow> 1 \<le> j \<and> j < unat (gs_max_object_id s) \<and> gs_ids s ! j = IdFree"
  unfolding grantable_def
  by (auto intro!: sorted_wrt_take sorted_wrt_filter dest!: in_set_takeD)

lemma of_nat_u16: "j < unat (m::u16) \<Longrightarrow> unat (of_nat j :: u16) = j"
proof -
  assume "j < unat m"
  moreover have "unat m < 2 ^ 16" using unsigned_less [of m, where ?'a = nat] by simp
  ultimately have "j < 2 ^ 16" by linarith
  then show ?thesis by (simp add: unsigned_of_nat take_bit_nat_eq_self)
qed

lemma granted_sorted: "sorted_wrt (<) (map of_nat (grantable n s) :: u16 list)"
proof -
  have "(of_nat i :: u16) < of_nat j" if "i < j" "j \<in> set (grantable n s)" for i j
    using that grantable_props(2) [OF that(2)] of_nat_u16 [of _ "gs_max_object_id s"] by (simp add: word_less_nat_alt)
  then show ?thesis
    unfolding sorted_wrt_map by (intro sorted_wrt_mono_rel [OF _ grantable_props(1)])
qed

lemma lease_law:
  assumes "gs_inv s"
  shows "\<exists>packet s'. lease_object_ids source n s = Some ((map of_nat (grantable n s), packet), s') \<and>
    parse_object_ids (drop 4 packet) = Some (map of_nat (grantable n s)) \<and> gs_inv s' \<and>
    gs_entities s' = gs_entities s \<and> length (gs_ids s') = length (gs_ids s) \<and>
    (\<forall>j. gs_ids s' ! j = (if j \<in> set (grantable n s) then IdLeased else gs_ids s ! j)) \<and>
    (\<exists>c. map_of (gs_clients s') source = Some c \<and> set (map of_nat (grantable n s)) \<subseteq> set (cs_leased c))"
proof -
  let ?g = "map of_nat (grantable n s) :: u16 list"
  have "unat (gs_max_object_id s) < length (gs_ids s)" using gs_invD(4) [OF assms] by simp
  from lease_loop_law [OF this, of n 1 "[]"] obtain ids' where
    l: "lease_loop n (gs_max_object_id s) 1 (gs_ids s) [] = Some (?g, ids')" "length ids' = length (gs_ids s)"
      "\<forall>j. ids' ! j = (if j \<in> set (grantable n s) then IdLeased else gs_ids s ! j)"
    by (auto simp: grantable_def)
  obtain packet where p: "build_object_ids ?g = Some packet" "parse_object_ids (drop 4 packet) = Some ?g"
    using object_ids_packet [OF granted_sorted] by blast
  let ?s1 = "add_client source (s\<lparr>gs_ids := ids'\<rparr>)"
  let ?s2 = "?s1\<lparr>gs_clients := AList.map_entry source (\<lambda>c. c\<lparr>cs_leased := cs_leased c @ ?g\<rparr>) (gs_clients ?s1)\<rparr>"
  have "reg_ok (gs_max_object_id s) ids' (gs_entities s)"
    using gs_invD(1) [OF assms] l(2) by (rule reg_ids) (use l(3) grantable_props(2) in \<open>auto split: if_splits\<close>)
  then have "gs_inv (s\<lparr>gs_ids := ids'\<rparr>)" using assms by (intro gs_inv_reg [OF assms]) simp_all
  then have i1: "gs_inv ?s1" by (rule gs_inv_add_client)
  have rng: "unat (of_nat j :: u16) < length ids'" if "j \<in> set (grantable n s)" for j
    using grantable_props(2) [OF that] of_nat_u16 [of j "gs_max_object_id s"] gs_invD(4) [OF assms] l(2) by simp
  have "gs_inv ?s2" using i1 by (rule gs_inv_client_entry) (use rng in \<open>auto simp: client_ok_def list_all_iff\<close>)
  moreover have "\<exists>c. map_of (gs_clients ?s2) source = Some c \<and> set ?g \<subseteq> set (cs_leased c)"
    using add_client_fields(9) [of source "s\<lparr>gs_ids := ids'\<rparr>"]
    by (auto simp: map_of_map_entry split: option.splits)
  moreover have "lease_object_ids source n s = Some ((?g, packet), ?s2)"
    using l(1) p(1) by (simp add: lease_object_ids_def Let_def)
  ultimately show ?thesis using p(2) l by fastforce
qed

section \<open>Despawning\<close>

lemma despawn_law:
  assumes "gs_inv s"
  shows "\<exists>s'. despawn_entity k s = Some (map_of (gs_entities s) k \<noteq> None, s') \<and> gs_inv s' \<and>
    map_of (gs_entities s') = (map_of (gs_entities s))(k := None)"
proof (cases "map_of (gs_entities s) k")
  case (Some e)
  let ?s = "s\<lparr>gs_entities := AList.delete k (gs_entities s), gs_ids := (gs_ids s)[unat k := IdFree],
    gs_routing := remove_entity k (gs_routing s)\<rparr>"
  have l: "unat k < length (gs_ids s)" using reg_okD(3) [OF gs_invD(1) [OF assms] Some] by simp
  have "gs_inv ?s" using assms by (rule gs_inv_reg) (simp_all add: reg_drop [OF gs_invD(1) [OF assms] l])
  moreover have "despawn_entity k s = Some (True, ?s)" using Some l by (simp add: despawn_entity_def ids_set_some)
  ultimately show ?thesis using Some by (auto simp: delete_conv')
next
  case None
  then show ?thesis using assms by (auto simp: despawn_entity_def fun_upd_idem)
qed

section \<open>Removing a client\<close>

lemma release_law:
  assumes "list_all (\<lambda>i. unat i < length ids) is'"
  shows "\<exists>ids'. release_leases is' ids = Some ids' \<and> length ids' = length ids \<and>
    (\<forall>j. ids' ! j = (if j \<in> unat ` set is' \<and> ids ! j = IdLeased then IdFree else ids ! j))"
  using assms
proof (induction is' arbitrary: ids)
  case (Cons i is')
  let ?ids = "if ids ! unat i = IdLeased then ids[unat i := IdFree] else ids"
  have i: "unat i < length ids" and l: "length ?ids = length ids" using Cons.prems by simp_all
  from Cons.IH [of ?ids, unfolded l] Cons.prems obtain ids' where r: "release_leases is' ?ids = Some ids'" "length ids' = length ids"
    "\<forall>j. ids' ! j = (if j \<in> unat ` set is' \<and> ?ids ! j = IdLeased then IdFree else ?ids ! j)" by fastforce
  have "\<forall>j. ids' ! j = (if j \<in> unat ` set (i # is') \<and> ids ! j = IdLeased then IdFree else ids ! j)"
    using r(3) i by (auto simp: nth_list_update)
  with r(1,2) i show ?case by (auto simp: ids_get_some)
qed simp

text \<open>What becomes of an entity when the client \<open>source\<close> leaves.\<close>

definition orphaned_entity :: "u32 \<Rightarrow> server_entity \<Rightarrow> server_entity option" where
  "orphaned_entity source e =
     (if se_owner e \<noteq> source then Some e else if se_server_owned e then Some (e\<lparr>se_owner := 0\<rparr>) else None)"

lemma orphan_one_law:
  assumes "gs_inv s" "map_of (gs_entities s) k = Some e"
  shows "\<exists>s'. orphan_one k s = Some s' \<and> gs_inv s' \<and> gs_clients s' = gs_clients s \<and>
    map_of (gs_entities s') = (map_of (gs_entities s))(k := orphaned_entity (se_owner e) e)"
proof (cases "se_server_owned e")
  case True
  let ?s = "s\<lparr>gs_entities := AList.map_entry k (\<lambda>e. e\<lparr>se_owner := 0\<rparr>) (gs_entities s)\<rparr>"
  have "gs_inv ?s" using assms(1)
    by (rule gs_inv_reg) (auto intro: ents_map_entry [OF gs_invD(1) [OF assms(1)]] simp: ent_ok_def)
  moreover have "orphan_one k s = Some ?s" using True assms(2) by (simp add: orphan_one_def)
  ultimately show ?thesis using True assms(2) by (auto simp: orphaned_entity_def map_of_map_entry)
next
  case False
  let ?s = "s\<lparr>gs_entities := AList.delete k (gs_entities s), gs_ids := (gs_ids s)[unat k := IdFree],
    gs_routing := remove_entity k (gs_routing s)\<rparr>"
  have l: "unat k < length (gs_ids s)" using reg_okD(3) [OF gs_invD(1) [OF assms(1)] assms(2)] by simp
  have "gs_inv ?s" using assms(1) by (rule gs_inv_reg) (simp_all add: reg_drop [OF gs_invD(1) [OF assms(1)] l])
  moreover have "orphan_one k s = Some ?s" using False assms(2) l by (simp add: orphan_one_def ids_set_some)
  ultimately show ?thesis using False by (auto simp: orphaned_entity_def delete_conv')
qed

lemma orphan_all_law:
  assumes "gs_inv s" "distinct ks" "\<forall>k\<in>set ks. \<exists>e. map_of (gs_entities s) k = Some e \<and> se_owner e = source"
  shows "\<exists>s'. orphan_all ks s = Some s' \<and> gs_inv s' \<and> gs_clients s' = gs_clients s \<and>
    (\<forall>k. map_of (gs_entities s') k = (if k \<in> set ks then Option.bind (map_of (gs_entities s) k) (orphaned_entity source)
       else map_of (gs_entities s) k))"
  using assms
proof (induction ks arbitrary: s)
  case (Cons k ks)
  obtain e where e: "map_of (gs_entities s) k = Some e" "se_owner e = source" using Cons.prems(3) by auto
  from orphan_one_law [OF Cons.prems(1) e(1)] obtain s1 where s1: "orphan_one k s = Some s1" "gs_inv s1"
    "gs_clients s1 = gs_clients s" "map_of (gs_entities s1) = (map_of (gs_entities s))(k := orphaned_entity source e)"
    unfolding e(2) by blast
  have "\<forall>j\<in>set ks. \<exists>e. map_of (gs_entities s1) j = Some e \<and> se_owner e = source"
    using Cons.prems(2,3) by (auto simp: s1(4))
  from Cons.IH [OF s1(2) _ this] Cons.prems(2) obtain s' where s': "orphan_all ks s1 = Some s'" "gs_inv s'"
    "gs_clients s' = gs_clients s1"
    "\<And>j. map_of (gs_entities s') j = (if j \<in> set ks then Option.bind (map_of (gs_entities s1) j) (orphaned_entity source)
       else map_of (gs_entities s1) j)" by auto
  have "map_of (gs_entities s') j = (if j \<in> set (k # ks) then Option.bind (map_of (gs_entities s) j) (orphaned_entity source)
       else map_of (gs_entities s) j)" for j
    using s'(4) [of j] Cons.prems(2) e by (auto simp: s1(4))
  then show ?case using s1 s' by simp
qed simp

lemma remove_client_law:
  assumes "gs_inv s"
  shows "\<exists>s'. gs_remove_client source s =
      Some (map fst (filter (\<lambda>(k, e). se_owner e = source) (gs_entities s)), s') \<and> gs_inv s' \<and>
    map_of (gs_clients s') = (map_of (gs_clients s))(source := None) \<and>
    (\<forall>k. map_of (gs_entities s') k = Option.bind (map_of (gs_entities s) k) (orphaned_entity source))"
proof -
  have "\<exists>s1. (case map_of (gs_clients s) source of None \<Rightarrow> Some s
       | Some st \<Rightarrow> Option.bind (release_leases (cs_leased st) (gs_ids s))
           (\<lambda>ids'. Some (s\<lparr>gs_clients := AList.delete source (gs_clients s), gs_ids := ids'\<rparr>))) = Some s1 \<and>
      gs_inv s1 \<and> gs_entities s1 = gs_entities s \<and> map_of (gs_clients s1) = (map_of (gs_clients s))(source := None)"
  proof (cases "map_of (gs_clients s) source")
    case (Some st)
    from gs_invD(3) [OF assms Some] have "list_all (\<lambda>i. unat i < length (gs_ids s)) (cs_leased st)"
      by (simp add: client_ok_def)
    from release_law [OF this] obtain ids' where r: "release_leases (cs_leased st) (gs_ids s) = Some ids'"
      "length ids' = length (gs_ids s)"
      "\<forall>j. ids' ! j = (if j \<in> unat ` set (cs_leased st) \<and> gs_ids s ! j = IdLeased then IdFree else gs_ids s ! j)" by blast
    have "reg_ok (gs_max_object_id s) ids' (gs_entities s)"
      using gs_invD(1) [OF assms] r(2) by (rule reg_ids) (use r(3) in auto)
    then have i1: "gs_inv (s\<lparr>gs_ids := ids'\<rparr>)" by (intro gs_inv_reg [OF assms]) simp_all
    have "gs_inv (s\<lparr>gs_clients := AList.delete source (gs_clients s), gs_ids := ids'\<rparr>)"
      using i1 by (rule gs_inv_clients) (use gs_invD(2,3) [OF assms] r(2) in
        \<open>auto simp: distinct_delete delete_conv' split: if_splits\<close>)
    then show ?thesis using Some r(1) by (auto simp: delete_conv')
  qed (use assms in \<open>auto simp: fun_upd_idem\<close>)
  then obtain s1 where s1: "(case map_of (gs_clients s) source of None \<Rightarrow> Some s
       | Some st \<Rightarrow> Option.bind (release_leases (cs_leased st) (gs_ids s))
           (\<lambda>ids'. Some (s\<lparr>gs_clients := AList.delete source (gs_clients s), gs_ids := ids'\<rparr>))) = Some s1"
    "gs_inv s1" "gs_entities s1 = gs_entities s" "map_of (gs_clients s1) = (map_of (gs_clients s))(source := None)" by blast
  let ?ks = "map fst (filter (\<lambda>(k, e). se_owner e = source) (gs_entities s))"
  have d: "distinct (map fst (gs_entities s))" using gs_invD(1) [OF assms] by (simp add: reg_ok_def)
  have mem: "k \<in> set ?ks \<longleftrightarrow> (\<exists>e. map_of (gs_entities s) k = Some e \<and> se_owner e = source)" for k
    using d by (force simp: image_iff)
  have "distinct ?ks" using d by (rule distinct_map_filter)
  moreover have "\<forall>k\<in>set ?ks. \<exists>e. map_of (gs_entities s1) k = Some e \<and> se_owner e = source"
    unfolding s1(3) using mem by blast
  ultimately obtain s2 where s2: "orphan_all ?ks s1 = Some s2" "gs_inv s2"
    "gs_clients s2 = gs_clients s1"
    "\<And>k. map_of (gs_entities s2) k = (if k \<in> set ?ks then Option.bind (map_of (gs_entities s) k) (orphaned_entity source)
       else map_of (gs_entities s) k)"
    using orphan_all_law [OF s1(2)] unfolding s1(3) by blast
  have "map_of (gs_entities s2) k = Option.bind (map_of (gs_entities s) k) (orphaned_entity source)" for k
    using s2(4) [of k] mem [of k] by (cases "map_of (gs_entities s) k") (auto simp: orphaned_entity_def)
  then show ?thesis using s1(1,4) s2(1-3) gs_inv_routing [OF s2(2)]
    by (simp add: gs_remove_client_def s1(3) Let_def)
qed

section \<open>Ingesting client records\<close>

text \<open>What the records of one client may change: nothing of another client's entities or of another
  client's state, no player's bucket, no policy, and none of the settings.\<close>

definition ingest_frame :: "u32 \<Rightarrow> server_game_state \<Rightarrow> server_game_state \<Rightarrow> bool" where
  "ingest_frame source s s' \<longleftrightarrow>
     gs_length_hack s' = gs_length_hack s \<and> gs_frame_index s' = gs_frame_index s \<and>
     (\<forall>k e. map_of (gs_entities s) k = Some e \<longrightarrow> se_owner e \<noteq> source \<longrightarrow> map_of (gs_entities s') k = Some e) \<and>
     (\<forall>c. c \<noteq> source \<longrightarrow> map_of (gs_clients s') c = map_of (gs_clients s) c) \<and>
     (\<forall>c. player_bucket c (gs_routing s') = player_bucket c (gs_routing s)) \<and>
     (\<forall>b. policy b (gs_routing s') = policy b (gs_routing s))"

lemma ingest_frame_refl [simp]: "ingest_frame source s s"
  by (simp add: ingest_frame_def)

lemma ingest_frame_trans: "ingest_frame source s t \<Longrightarrow> ingest_frame source t u \<Longrightarrow> ingest_frame source s u"
  by (simp add: ingest_frame_def)

lemma created_ok: "length d < 4096 \<Longrightarrow> ent_ok k (apply_sync_data x (created_entity k u source ty token fi b d prev))"
  by (simp add: ent_ok_def created_entity_def Let_def)

lemma create_law:
  assumes "gs_inv s" "unat k < length (gs_ids s)" "length d < 4096"
    and "apply_create lm source k u ty token d s = (ok, s1)"
  shows "if ok then gs_inv (s1\<lparr>gs_ids := (gs_ids s1)[unat k := IdUsed]\<rparr>) \<and> gs_ids s1 = gs_ids s \<and>
           ingest_frame source s (s1\<lparr>gs_ids := (gs_ids s1)[unat k := IdUsed]\<rparr>)
         else s1 = s"
proof (cases ok)
  case False
  then show ?thesis using assms(4) by (auto simp: apply_create_def Let_def split: if_splits option.splits)
next
  case True
  then obtain t e where s1: "s1 = s\<lparr>gs_entities := AList.update k e (gs_entities s),
      gs_routing := set_entity_bucket k (player_bucket source (gs_routing s)) (gs_routing s)\<rparr>"
    "e = apply_sync_data (parse_sync_tree lm t True [] (gs_length_hack s) (gs_build s))
        (created_entity k u source t token (gs_frame_index s) (player_bucket source (gs_routing s)) d (map_of (gs_entities s) k))"
    and own: "\<forall>e. map_of (gs_entities s) k = Some e \<longrightarrow> se_owner e = source"
    using assms(4) by (auto simp: apply_create_def Let_def created_entity_def split: if_splits option.splits)
  have "gs_inv (s1\<lparr>gs_ids := (gs_ids s1)[unat k := IdUsed]\<rparr>)"
    using assms(1) by (rule gs_inv_reg)
      (simp_all add: s1 reg_put [OF gs_invD(1) [OF assms(1)] assms(2) created_ok [OF assms(3)]])
  moreover have "ingest_frame source s (s1\<lparr>gs_ids := (gs_ids s1)[unat k := IdUsed]\<rparr>)"
    using own by (auto simp: ingest_frame_def s1(1) update_conv')
  ultimately show ?thesis using True by (simp add: s1(1))
qed

lemma sync_law:
  assumes "gs_inv s" "length d < 4096" "apply_sync lm source k u d s = (ok, s1)"
  shows "gs_inv s1 \<and> ingest_frame source s s1"
proof (cases "s1 = s")
  case False
  then obtain e e' where e: "map_of (gs_entities s) k = Some e" "se_owner e = source"
    "s1 = s\<lparr>gs_entities := AList.update k e' (gs_entities s)\<rparr>" "se_object_id e' = se_object_id e"
    "se_data e' = d" "se_create_data e' = se_create_data e"
    using assms(3) by (auto simp: apply_sync_def Let_def split: if_splits option.splits)
  note r = reg_okD(3) [OF gs_invD(1) [OF assms(1)] e(1)]
  then have ok: "ent_ok k e'" using e assms(2) by (simp add: ent_ok_def)
  have "gs_inv s1" using assms(1)
    by (rule gs_inv_reg) (simp_all add: e(3) reg_live [OF gs_invD(1) [OF assms(1)] e(1) ok])
  moreover have "ingest_frame source s s1" using e(1,2) by (auto simp: ingest_frame_def e(3) update_conv')
  ultimately show ?thesis by simp
qed (use assms in simp)

lemma remove_law:
  assumes "gs_inv s"
  shows "\<exists>ok s1. apply_remove source k u s = Some (ok, s1) \<and> gs_inv s1 \<and> ingest_frame source s s1"
proof (cases "\<exists>e. map_of (gs_entities s) k = Some e \<and> se_owner e = source \<and> se_uniqifier e = u \<and>
    player_bucket source (gs_routing s) = se_routing_bucket e")
  case True
  then obtain e where e: "map_of (gs_entities s) k = Some e" "se_owner e = source" "se_uniqifier e = u"
    "player_bucket source (gs_routing s) = se_routing_bucket e" by blast
  let ?s = "s\<lparr>gs_entities := AList.delete k (gs_entities s), gs_ids := (gs_ids s)[unat k := IdFree],
    gs_routing := remove_entity k (gs_routing s)\<rparr>"
  have l: "unat k < length (gs_ids s)" using reg_okD(3) [OF gs_invD(1) [OF assms] e(1)] by simp
  have "gs_inv ?s" using assms by (rule gs_inv_reg) (simp_all add: reg_drop [OF gs_invD(1) [OF assms] l])
  moreover have "apply_remove source k u s = Some (True, ?s)" using e l by (simp add: apply_remove_def ids_set_some)
  moreover have "ingest_frame source s ?s" using e(1,2) by (auto simp: ingest_frame_def delete_conv')
  ultimately show ?thesis by blast
next
  case False
  then have "apply_remove source k u s = Some (False, s)"
    by (auto simp: apply_remove_def split: option.splits)
  then show ?thesis using assms by auto
qed

lemma takeover_law:
  assumes "gs_inv s" "apply_takeover source k t s = (ok, s1)"
  shows "gs_inv s1 \<and> ingest_frame source s s1"
proof (cases "s1 = s")
  case False
  then obtain e where e: "map_of (gs_entities s) k = Some e" "se_owner e = source"
    "s1 = s\<lparr>gs_entities := AList.update k (e\<lparr>se_owner := ucast t\<rparr>) (gs_entities s)\<rparr>"
    using assms(2) by (auto simp: apply_takeover_def split: if_splits option.splits)
  note r = reg_okD(3) [OF gs_invD(1) [OF assms(1)] e(1)]
  then have ok: "ent_ok k (e\<lparr>se_owner := ucast t\<rparr>)" by (simp add: ent_ok_def)
  have "gs_inv s1" using assms(1)
    by (rule gs_inv_reg) (simp_all add: e(3) reg_live [OF gs_invD(1) [OF assms(1)] e(1) ok])
  moreover have "ingest_frame source s s1" using e(1,2) by (auto simp: ingest_frame_def e(3) update_conv')
  ultimately show ?thesis by simp
qed (use assms in simp)

lemma client_entry_law:
  assumes "gs_inv s" "\<And>c. cs_leased (f c) = cs_leased c \<and> cs_view (f c) = cs_view c"
  shows "gs_inv (client_entry source f s) \<and> ingest_frame source s (client_entry source f s)"
proof -
  have "gs_inv (client_entry source f s)" unfolding client_entry_def Let_def
    by (rule gs_inv_client_entry [OF gs_inv_add_client [OF assms(1)]]) (simp add: client_ok_def assms(2))
  moreover have "ingest_frame source s (client_entry source f s)"
    by (auto simp: ingest_frame_def client_entry_def Let_def map_of_map_entry add_client_def update_conv' split: option.splits)
  ultimately show ?thesis ..
qed

lemma ingest_record_law:
  assumes "gs_inv (in_gs st)" "inbound_ok (gs_length_hack (in_gs st)) r"
  shows "\<exists>st'. ingest_record lm source r st = Some st' \<and> gs_inv (in_gs st') \<and> ingest_frame source (in_gs st) (in_gs st')"
proof (cases r)
  case (InClone c k u ty token d)
  show ?thesis
  proof (cases "k = 0xFFFF")
    case True
    then show ?thesis using assms(1) by (simp add: InClone)
  next
    case False
    have l: "unat k < length (gs_ids (in_gs st))" and d: "length d < 4096"
      using assms gs_invD(5) [OF assms(1) _ False] by (simp_all add: InClone)
    obtain ok s1 where cr: "apply_create lm source k u ty token d (in_gs st) = (ok, s1)" by force
    obtain ok' s1' where sy: "apply_sync lm source k u d (in_gs st) = (ok', s1')" by force
    show ?thesis using create_law [OF assms(1) l d cr] sync_law [OF assms(1) d sy] l assms(1) False cr sy
      by (cases c; cases ok) (auto simp: InClone ids_set_some Let_def)
  qed
next
  case (InRemove k u)
  obtain ok s1 where "apply_remove source k u (in_gs st) = Some (ok, s1)" "gs_inv s1" "ingest_frame source (in_gs st) s1"
    using remove_law [OF assms(1)] by blast
  then show ?thesis by (simp add: InRemove Let_def)
next
  case (InTakeover t k)
  let ?t = "if t = 0 then ucast source else t"
  obtain ok s1 where "apply_takeover source k ?t (in_gs st) = (ok, s1)" by force
  then show ?thesis using takeover_law [OF assms(1)] by (simp add: InTakeover Let_def)
next
  case (InTimestamp ts)
  then show ?thesis using client_entry_law [OF assms(1), of "\<lambda>c. if cs_ack_ts c = 0 \<or> cs_ack_ts c < ts then c\<lparr>cs_ack_ts := ts\<rparr> else c" source]
    by (simp add: Let_def)
next
  case (InIndex i)
  then show ?thesis using client_entry_law [OF assms(1), of "\<lambda>c. c\<lparr>cs_frame_index := ucast i\<rparr>" source] by simp
qed

lemma ingest_records_law:
  assumes "gs_inv (in_gs st)" "\<forall>r\<in>set rs. inbound_ok (gs_length_hack (in_gs st)) r"
  shows "\<exists>st'. ingest_records lm source rs st = Some st' \<and> gs_inv (in_gs st') \<and> ingest_frame source (in_gs st) (in_gs st')"
  using assms
proof (induction rs arbitrary: st)
  case (Cons r rs)
  then obtain st1 where 1: "ingest_record lm source r st = Some st1" "gs_inv (in_gs st1)" "ingest_frame source (in_gs st) (in_gs st1)"
    using ingest_record_law [of st r lm source] by auto
  then have "gs_length_hack (in_gs st1) = gs_length_hack (in_gs st)" by (simp add: ingest_frame_def)
  with Cons.IH [OF 1(2)] Cons.prems(2) obtain st' where "ingest_records lm source rs st1 = Some st'" "gs_inv (in_gs st')"
    "ingest_frame source (in_gs st1) (in_gs st')" by auto
  then show ?case using 1 ingest_frame_trans by auto
qed simp

lemma decode_incoming_ok:
  assumes "decode_incoming lz payload h = Some p"
  shows "\<forall>r\<in>set (ip_records p). inbound_ok h r"
  using assms decoded_ok [of "with_length_hack h (from_bytes _)" h]
  by (auto simp: decode_incoming_def Let_def split: if_splits option.splits)

lemma ingest_payload_law:
  assumes "gs_inv s"
  shows "\<exists>out s'. ingest_clone_payload lz lm source payload s = Some (out, s') \<and> gs_inv s' \<and> ingest_frame source s s'"
proof (cases "decode_incoming lz payload (gs_length_hack s)")
  case None
  then show ?thesis using assms by (simp add: ingest_clone_payload_def)
next
  case (Some p)
  let ?st = "\<lparr>in_gs = add_client source s, in_ack = with_length_hack (gs_length_hack s) (mb_new ACK_BUF_BYTES),
     in_out = ingest_outcome_default\<rparr>"
  have "ingest_frame source s (add_client source s)"
    by (auto simp: ingest_frame_def add_client_def update_conv')
  then show ?thesis
    using ingest_records_law [of ?st "ip_records p" lm source] gs_inv_add_client [OF assms] decode_incoming_ok [OF Some] Some
    by (auto simp: ingest_clone_payload_def Let_def intro: ingest_frame_trans)
qed

end
