(* ===== verification/Game_Reach.thy ===== *)
theory Game_Reach
  imports Game_Inv
begin

text \<open>
  The reachable states of the game state (\<open>onesync/mod.rs\<close>): every command of its interface in any
  order, with any arguments, from the initial state, and any iteration order of its hash maps. The
  invariant holds in all of them and no command panics.
\<close>

section \<open>Ticks\<close>

lemma length_distinct_u16: "distinct (ks :: u16 list) \<Longrightarrow> length ks \<le> 65536"
proof -
  assume "distinct ks"
  then have "length ks = card (set ks)" by (simp add: distinct_card)
  also have "\<dots> \<le> card (UNIV :: u16 set)" by (rule card_mono) auto
  finally show ?thesis by (simp add: card_word)
qed

lemma distinct_map_sort: "distinct (map f (sort_key k xs)) = distinct (map f xs)"
  by (simp add: distinct_map)

lemma world_snapshot_law:
  assumes "gs_inv s"
  shows "sorted (map sn_object_id (world_snapshot s))" "distinct (map sn_object_id (world_snapshot s))"
    "length (world_snapshot s) < 2 ^ 32"
    "set (world_snapshot s) = snapshot_entity ` {e. se_position_known e \<and> se_owner e \<noteq> 0 \<and> (\<exists>k. map_of (gs_entities s) k = Some e)}"
proof -
  note r = gs_invD(1) [OF assms]
  have d: "distinct (map fst (gs_entities s))" by (rule reg_okD(1) [OF r])
  have "map (se_object_id \<circ> snd) (gs_entities s) = map fst (gs_entities s)"
    using reg_okD(3) [OF r] d by (auto simp: ent_ok_def)
  then have ids: "distinct (map se_object_id (map snd (gs_entities s)))" using d by (metis map_map)
  let ?es = "filter (\<lambda>e. se_position_known e \<and> se_owner e \<noteq> 0) (map snd (gs_entities s))"
  have "map sn_object_id (map snapshot_entity ?es) = map se_object_id ?es" by (simp add: snapshot_entity_def)
  moreover have "distinct (map se_object_id ?es)" using ids by (rule distinct_map_filter)
  ultimately have de: "distinct (map sn_object_id (map snapshot_entity ?es))" by metis
  then show dw: "distinct (map sn_object_id (world_snapshot s))"
    unfolding world_snapshot_def distinct_map_sort .
  show "sorted (map sn_object_id (world_snapshot s))" by (simp add: world_snapshot_def)
  show "length (world_snapshot s) < 2 ^ 32" using length_distinct_u16 [OF dw] by simp
  have "e \<in> snd ` set (gs_entities s) \<longleftrightarrow> (\<exists>k. map_of (gs_entities s) k = Some e)" for e
    using d by (force simp: image_iff)
  then show "set (world_snapshot s) = snapshot_entity ` {e. se_position_known e \<and> se_owner e \<noteq> 0 \<and> (\<exists>k. map_of (gs_entities s) k = Some e)}"
    by (auto simp: world_snapshot_def)
qed

lemma view_tick:
  assumes "gs_inv s" "client_ok (length (gs_ids s)) st"
  shows "\<exists>plan v. cv_tick_with_context focus fvel bucket (world_snapshot s) (si_build (world_snapshot s) r) cfg (cs_view st) = Some (plan, v) \<and>
    client_ok (length (gs_ids s)) (st\<lparr>cs_view := v\<rparr>)"
proof -
  let ?n = "length (gs_ids s)" and ?w = "world_snapshot s"
  obtain held where inv: "view_inv (cs_view st) held" and keys: "\<forall>k\<in>dom (map_of (cv_views (cs_view st))). unat k < ?n"
    using assms(2) by (auto simp: client_ok_def view_ok_upto_def list_all_iff dom_map_of_conv_image_fst)
  note w = world_snapshot_law [OF assms(1)]
  have wk: "unat (sn_object_id e) < ?n" if "e \<in> set ?w" for e
    using that reg_okD(3) [OF gs_invD(1) [OF assms(1)]] unfolding w(4) by (auto simp: snapshot_entity_def ent_ok_def)
  let ?c = "client_context focus fvel bucket cfg (cs_view st)"
  obtain plan v where t: "cv_tick_with_context focus fvel bucket ?w (si_build ?w r) cfg (cs_view st) = Some (plan, v)"
    and m: "map_of (cv_views v) = views_spec ?c ?w (si_build ?w r) (cv_views (cs_view st))"
    using cv_tick_law [OF w(2,3), of "cs_view st" focus fvel bucket r cfg] inv by (auto simp: view_inv_def)
  have "\<forall>k\<in>dom (map_of (cv_views v)). unat k < ?n"
    unfolding m spec_dom using keys wk scoped_world [OF index_ok_build [OF w(3)]] by fastforce
  then show ?thesis using t tick_mirror [OF inv w(2,3) t] assms(2)
    by (auto simp: client_ok_def view_ok_upto_def list_all_iff dom_map_of_conv_image_fst)
qed

lemma tick_client_law:
  assumes "gs_inv s"
  shows "\<exists>packets s'. tick_client lz source focus cfg s = Some (packets, s') \<and> gs_inv s' \<and> gs_entities s' = gs_entities s"
proof (cases "map_of (gs_clients s) source")
  case None
  then show ?thesis using assms by (simp add: tick_client_def Let_def)
next
  case (Some st)
  note ok = gs_invD(3) [OF assms Some]
  obtain plan v where v: "cv_tick_with_context focus zero3 (player_bucket source (gs_routing s)) (world_snapshot s)
      (si_build (world_snapshot s) (query_radius cfg)) cfg (cs_view st) = Some (plan, v)" "client_ok (length (gs_ids s)) (st\<lparr>cs_view := v\<rparr>)"
    using view_tick [OF assms ok] by blast
  have "gs_inv (s\<lparr>gs_clients := AList.update source (st\<lparr>cs_view := v\<rparr>) (gs_clients s)\<rparr>)"
    using assms by (rule gs_inv_clients) (use gs_invD(2,3) [OF assms] v(2) in
      \<open>auto simp: distinct_update update_conv' split: if_splits\<close>)
  then show ?thesis using Some v(1) by (auto simp: tick_client_def Let_def)
qed

lemma plan_clients_law:
  assumes "\<And>k st. client_ok n st \<Longrightarrow> \<exists>plan v. f k (cs_view st) = Some (plan, v) \<and> client_ok n (st\<lparr>cs_view := v\<rparr>)"
    and "\<forall>(k, st)\<in>set cs. client_ok n st"
  shows "\<exists>plans cs'. plan_clients f cs = Some (plans, cs') \<and> map fst cs' = map fst cs \<and> (\<forall>(k, st)\<in>set cs'. client_ok n st)"
  using assms(2)
proof (induction cs)
  case (Cons kc cs)
  obtain k st where kc: "kc = (k, st)" by force
  obtain plan v where 1: "f k (cs_view st) = Some (plan, v)" "client_ok n (st\<lparr>cs_view := v\<rparr>)"
    using assms(1) [of st k] Cons.prems kc by auto
  obtain plans cs' where 2: "plan_clients f cs = Some (plans, cs')" "map fst cs' = map fst cs" "\<forall>(k, st)\<in>set cs'. client_ok n st"
    using Cons by auto
  show ?case using 1 2 by (auto simp: kc)
qed simp

lemma tick_clients_law:
  assumes "gs_inv s"
  shows "\<exists>packets s'. tick_clients lz fallback cfg s = Some (packets, s') \<and> gs_inv s' \<and> gs_entities s' = gs_entities s"
proof -
  let ?f = "\<lambda>source v. case focus_for s fallback source of (focus, fvel) \<Rightarrow>
     cv_tick_with_context focus fvel (player_bucket source (gs_routing s)) (world_snapshot s)
       (si_build (world_snapshot s) (query_radius cfg)) cfg v"
  have "\<exists>plan v. ?f k (cs_view st) = Some (plan, v) \<and> client_ok (length (gs_ids s)) (st\<lparr>cs_view := v\<rparr>)"
    if "client_ok (length (gs_ids s)) st" for k st
    using view_tick [OF assms that] by (auto split: prod.splits)
  moreover have "\<forall>(k, st)\<in>set (gs_clients s). client_ok (length (gs_ids s)) st"
    using gs_invD(2,3) [OF assms] by auto
  ultimately obtain plans cs' where p: "plan_clients ?f (gs_clients s) = Some (plans, cs')"
    "map fst cs' = map fst (gs_clients s)" "\<forall>(k, st)\<in>set cs'. client_ok (length (gs_ids s)) st"
    using plan_clients_law [of "length (gs_ids s)" ?f "gs_clients s"] by blast
  have "gs_inv (s\<lparr>gs_clients := cs'\<rparr>)"
    using assms by (rule gs_inv_clients) (use gs_invD(2) [OF assms] p(2,3) in \<open>auto dest: map_of_SomeD\<close>)
  then show ?thesis using p(1) by (auto simp: tick_clients_def Let_def)
qed

section \<open>Commands\<close>

datatype gs_cmd =
    CmdIngest u32 "u8 list"
  | CmdAddClient u32
  | CmdRemoveClient u32
  | CmdLease u32 nat
  | CmdSpawn net_obj_entity_type u32 vec3 fl bool
  | CmdSpawnAt u16 net_obj_entity_type u32 vec3 fl bool
  | CmdDespawn u16
  | CmdReassign
  | CmdSetPosition u16 vec3
  | CmdSetVelocity u16 vec3
  | CmdSeed "u32 \<rightharpoonup> vec3"
  | CmdTick
  | CmdTickClient u32 vec3 interest_config
  | CmdTickClients "u32 \<rightharpoonup> vec3" interest_config
  | CmdNack u32 game_state_nack
  | CmdAck u32 game_state_ack
  | CmdPlayerBucket u32 u32
  | CmdEntityBucket u16 u32
  | CmdLockdown u32 lockdown_mode
  | CmdPopulation u32 bool

fun gs_exec :: "lz4_api \<Rightarrow> libm \<Rightarrow> gs_cmd \<Rightarrow> server_game_state \<Rightarrow> server_game_state option" where
  "gs_exec lz lm (CmdIngest source payload) s = map_option snd (ingest_clone_payload lz lm source payload s)"
| "gs_exec lz lm (CmdAddClient source) s = Some (add_client source s)"
| "gs_exec lz lm (CmdRemoveClient source) s = map_option snd (gs_remove_client source s)"
| "gs_exec lz lm (CmdLease source n) s = map_option snd (lease_object_ids source n s)"
| "gs_exec lz lm (CmdSpawn ty mdl pos hdg dynamic) s = map_option snd (spawn_server_entity lm ty mdl pos hdg dynamic s)"
| "gs_exec lz lm (CmdSpawnAt k ty mdl pos hdg dynamic) s =
     map_option snd (spawn_server_entity_with_id lm k ty mdl pos hdg dynamic s)"
| "gs_exec lz lm (CmdDespawn k) s = map_option snd (despawn_entity k s)"
| "gs_exec lz lm CmdReassign s = Some (reassign_ownerless_server_entities s)"
| "gs_exec lz lm (CmdSetPosition k p) s = Some (set_entity_position k p s)"
| "gs_exec lz lm (CmdSetVelocity k v) s = Some (set_entity_velocity k v s)"
| "gs_exec lz lm (CmdSeed focus) s = Some (seed_unknown_player_positions focus s)"
| "gs_exec lz lm CmdTick s = Some (gs_tick s)"
| "gs_exec lz lm (CmdTickClient source focus cfg) s = map_option snd (tick_client lz source focus cfg s)"
| "gs_exec lz lm (CmdTickClients fallback cfg) s = map_option snd (tick_clients lz fallback cfg s)"
| "gs_exec lz lm (CmdNack source nack) s = Some (apply_nack source nack s)"
| "gs_exec lz lm (CmdAck source ack) s = Some (apply_ack source ack s)"
| "gs_exec lz lm (CmdPlayerBucket source bucket) s = Some (set_player_routing_bucket source bucket s)"
| "gs_exec lz lm (CmdEntityBucket k bucket) s = Some (set_entity_routing_bucket k bucket s)"
| "gs_exec lz lm (CmdLockdown bucket mode) s = Some (set_routing_bucket_lockdown bucket mode s)"
| "gs_exec lz lm (CmdPopulation bucket enabled) s = Some (set_routing_bucket_population_enabled bucket enabled s)"

text \<open>A state with the same maps in another iteration order.\<close>

definition reordered :: "server_game_state \<Rightarrow> server_game_state \<Rightarrow> bool" where
  "reordered s s' \<longleftrightarrow> (\<exists>ents clients. mset ents = mset (gs_entities s) \<and> mset clients = mset (gs_clients s) \<and>
     s' = s\<lparr>gs_entities := ents, gs_clients := clients\<rparr>)"

inductive gs_reach :: "lz4_api \<Rightarrow> libm \<Rightarrow> server_game_state \<Rightarrow> bool" for lz lm where
  gr_init: "gs_reach lz lm (with_build big hack build)"
| gr_step: "gs_reach lz lm s \<Longrightarrow> gs_exec lz lm c s = Some s' \<Longrightarrow> gs_reach lz lm s'"
| gr_order: "gs_reach lz lm s \<Longrightarrow> reordered s s' \<Longrightarrow> gs_reach lz lm s'"

lemma gs_inv_reordered:
  assumes "gs_inv s" "reordered s s'"
  shows "gs_inv s'"
proof -
  obtain ents cl where e: "mset ents = mset (gs_entities s)" "mset cl = mset (gs_clients s)"
    "s' = s\<lparr>gs_entities := ents, gs_clients := cl\<rparr>" using assms(2) by (auto simp: reordered_def)
  note r = gs_invD(1) [OF assms(1)]
  have me: "map_of ents = map_of (gs_entities s)" "distinct (map fst ents)"
    using e(1) reg_okD(1) [OF r] by (metis map_of_inject_set mset_eq_imp_distinct_iff mset_eq_setD mset_map)+
  have mc: "map_of cl = map_of (gs_clients s)" "distinct (map fst cl)"
    using e(2) gs_invD(2) [OF assms(1)] by (metis map_of_inject_set mset_eq_imp_distinct_iff mset_eq_setD mset_map)+
  have "reg_ok (gs_max_object_id s) (gs_ids s) ents" using r me(2) unfolding reg_ok_def me(1) by blast
  then show ?thesis using assms(1) unfolding gs_inv_def by (simp add: e(3) mc)
qed

section \<open>No command panics\<close>

lemma gs_inv_view:
  assumes "gs_inv s" "\<And>v n. view_ok_upto n v \<Longrightarrow> view_ok_upto n (f v)"
  shows "gs_inv (upd_client source f s)"
  unfolding upd_client_def
  by (rule gs_inv_client_entry [OF assms(1)]) (auto simp: client_ok_def intro: assms(2))

lemma nak_keys:
  "map fst (cv_views (rollback k frame recreate v)) = map fst (cv_views v)"
  "map fst (cv_views (rollback_all frame v)) = map fst (cv_views v)"
  "map fst (cv_views (force_recreate k v)) = map fst (cv_views v)"
  by (simp_all add: rollback_def force_recreate_def upd_view_def map_entry_keys rollback_all_def comp_def case_prod_beta)

lemma view_ok_nak:
  assumes "view_ok_upto n v"
  shows "view_ok_upto n (rollback k frame recreate v)" "view_ok_upto n (rollback_all frame v)"
    "view_ok_upto n (force_recreate k v)" "view_ok_upto n (ack_frame frame v)"
proof -
  from assms obtain held where "view_inv v held" by (auto simp: view_ok_upto_def)
  note inv = view_inv_nak [OF this]
  show "view_ok_upto n (rollback k frame recreate v)" "view_ok_upto n (rollback_all frame v)"
    "view_ok_upto n (force_recreate k v)" "view_ok_upto n (ack_frame frame v)"
    using assms inv(1) [of k frame recreate] inv(2) [of frame] inv(3) [of k]
    unfolding view_ok_upto_def nak_keys ack_frame_def by blast+
qed

lemma view_ok_folds:
  "view_ok_upto n v \<Longrightarrow> view_ok_upto n (fold (\<lambda>en. rollback (ie_object_id en) (ie_last_frame en) False) es v)"
  "view_ok_upto n v \<Longrightarrow> view_ok_upto n (fold force_recreate ks v)"
proof -
  show "view_ok_upto n v \<Longrightarrow> view_ok_upto n (fold (\<lambda>en. rollback (ie_object_id en) (ie_last_frame en) False) es v)"
    by (induction es arbitrary: v) (simp_all add: view_ok_nak)
  show "view_ok_upto n v \<Longrightarrow> view_ok_upto n (fold force_recreate ks v)"
    by (induction ks arbitrary: v) (simp_all add: view_ok_nak)
qed

lemma nak_view_ok:
  "view_ok_upto n v \<Longrightarrow> view_ok_upto n (apply_nack_view nack v)"
  "view_ok_upto n v \<Longrightarrow> view_ok_upto n (apply_ack_view ack v)"
  unfolding apply_nack_view_def apply_ack_view_def Let_def
  by (auto intro!: view_ok_folds view_ok_nak split: option.splits)

lemma gs_inv_entities:
  assumes "gs_inv s" "reg_ok (gs_max_object_id s) (gs_ids s) ents"
  shows "gs_inv (s\<lparr>gs_entities := ents\<rparr>)"
  using assms(1) by (rule gs_inv_reg) (simp_all add: assms(2))

lemma overrides_inv:
  assumes "gs_inv s"
  shows "gs_inv (reassign_ownerless_server_entities s)" "gs_inv (set_entity_position k p s)"
    "gs_inv (set_entity_velocity k p s)" "gs_inv (seed_unknown_player_positions focus s)"
    "gs_inv (set_entity_routing_bucket k b s)" "gs_inv (gs_tick s)"
proof -
  note r = gs_invD(1) [OF assms]
  show "gs_inv (reassign_ownerless_server_entities s)"
    unfolding reassign_ownerless_server_entities_def Let_def
    using assms by (auto intro!: gs_inv_entities ents_map_all [OF r]
        simp: ent_ok_def reassign_one_def split: option.splits)
  show "gs_inv (set_entity_position k p s)" "gs_inv (set_entity_velocity k p s)"
    unfolding set_entity_position_def set_entity_velocity_def
    by (auto intro!: gs_inv_entities [OF assms] ents_map_entry [OF r] simp: ent_ok_def)
  show "gs_inv (seed_unknown_player_positions focus s)"
    unfolding seed_unknown_player_positions_def
    by (auto intro!: gs_inv_entities [OF assms] ents_map_all [OF r] simp: ent_ok_def split: option.splits)
  show "gs_inv (set_entity_routing_bucket k b s)" using assms
    by (rule gs_inv_reg) (auto simp: set_entity_routing_bucket_def ent_ok_def intro!: ents_map_entry [OF r])
  show "gs_inv (gs_tick s)" using assms by (auto simp: gs_tick_def gs_inv_def)
qed

lemma find_SomeD: "find P xs = Some x \<Longrightarrow> x \<in> set xs \<and> P x"
  by (auto simp: find_Some_iff)

lemma spawn_law:
  assumes "gs_inv s"
  shows "\<exists>r s'. spawn_server_entity lm ty mdl pos hdg dynamic s = Some (r, s') \<and> gs_inv s' \<and>
    r = map_option of_nat (find (\<lambda>j. gs_ids s ! j = IdFree) (rev [1..<Suc (unat (gs_max_object_id s))]))"
proof -
  let ?f = "find (\<lambda>j. gs_ids s ! j = IdFree) (rev [1..<Suc (unat (gs_max_object_id s))])"
  have a: "allocate_server_object_id s = Some (map_option of_nat ?f)"
    unfolding allocate_server_object_id_def using gs_invD(4) [OF assms] by (intro allocate_loop_law) simp
  show ?thesis
  proof (cases ?f)
    case None
    then show ?thesis using a assms by (simp add: spawn_server_entity_def)
  next
    case (Some j)
    let ?k = "of_nat j :: u16"
    have j: "1 \<le> j" "j \<le> unat (gs_max_object_id s)" "gs_ids s ! j = IdFree"
      using find_SomeD [OF Some] by auto
    have "unat (gs_max_object_id s) < 2 ^ 16" using unsigned_less [of "gs_max_object_id s", where ?'a = nat] by simp
    then have u: "unat ?k = j" using j(2) by (simp add: unsigned_of_nat take_bit_nat_eq_self)
    then have c: "?k \<noteq> 0" "\<not> gs_max_object_id s < ?k" using j by (auto simp: word_less_nat_alt)
    obtain s' where s': "spawn_server_entity_with_id lm ?k ty mdl pos hdg dynamic s = Some (True, s')"
      using spawn_with_id_law [OF assms, of lm ?k ty mdl pos hdg dynamic] c u j(3) by simp
    then show ?thesis using a Some gs_inv_spawn [OF assms s'] by (simp add: spawn_server_entity_def)
  qed
qed

lemma exec_total:
  assumes "gs_inv s"
  shows "\<exists>s'. gs_exec lz lm c s = Some s' \<and> gs_inv s'"
proof (cases c)
  case (CmdIngest source payload)
  then show ?thesis using ingest_payload_law [OF assms, of lz lm source payload] by auto
next
  case (CmdRemoveClient source)
  then show ?thesis using remove_client_law [OF assms, of source] by auto
next
  case (CmdLease source n)
  then show ?thesis using lease_law [OF assms, of source n] by auto
next
  case (CmdSpawn ty mdl pos hdg dynamic)
  then show ?thesis using spawn_law [OF assms, of lm ty mdl pos hdg dynamic] by auto
next
  case (CmdSpawnAt k ty mdl pos hdg dynamic)
  obtain ok s' where "spawn_server_entity_with_id lm k ty mdl pos hdg dynamic s = Some (ok, s')"
    using spawn_with_id_law [OF assms, of lm k ty mdl pos hdg dynamic] by (auto split: if_splits)
  then show ?thesis using CmdSpawnAt gs_inv_spawn [OF assms] by auto
next
  case (CmdDespawn k)
  then show ?thesis using despawn_law [OF assms, of k] by auto
next
  case (CmdTickClient source focus cfg)
  then show ?thesis using tick_client_law [OF assms, of lz source focus cfg] by auto
next
  case (CmdTickClients fallback cfg)
  then show ?thesis using tick_clients_law [OF assms, of lz fallback cfg] by auto
qed (auto simp: apply_nack_def apply_ack_def set_player_routing_bucket_def set_routing_bucket_lockdown_def
    set_routing_bucket_population_enabled_def
    intro!: overrides_inv assms gs_inv_add_client gs_inv_view nak_view_ok gs_inv_routing)

lemma reach_inv: "gs_reach lz lm s \<Longrightarrow> gs_inv s"
proof (induction rule: gs_reach.induct)
  case (gr_step s c s')
  then show ?case using exec_total [of s lz lm c] by auto
qed (auto intro: gs_inv_init gs_inv_reordered)

end
