(* ===== verification/Game_Props.thy ===== *)
theory Game_Props
  imports Game_Reach Packed_Delivery
begin

text \<open>
  Properties of the game state (\<open>onesync/mod.rs\<close>, \<open>onesync/ingest.rs\<close>) over its reachable states.
\<close>

section \<open>Consistency\<close>

text \<open>C4. The registry and the allocator agree. In every reachable state, for every sequence of
  commands, an object id is marked used exactly when an entity lives under it; every entity is stored
  under its own object id, within the id space of the mode; and every stored blob fits the 12-bit
  length field of a clone record.\<close>

theorem registry_matches_ids:
  assumes "gs_reach lz lm s"
  shows "(\<forall>k. entity k s \<noteq> None \<longleftrightarrow> unat k < length (gs_ids s) \<and> gs_ids s ! unat k = IdUsed) \<and>
    length (gs_ids s) = Suc (unat (gs_max_object_id s)) \<and>
    (\<forall>k e. entity k s = Some e \<longrightarrow> se_object_id e = k \<and> k \<le> gs_max_object_id s \<and>
       length (se_data e) < 4096 \<and> length (se_create_data e) < 4096)"
proof -
  note r = gs_invD(1) [OF reach_inv [OF assms]]
  show ?thesis using r unfolding reg_ok_def entity_def
    by (auto simp: ent_ok_def word_le_nat_alt less_Suc_eq_le)
qed

theorem registry_matches_ids_witness:
  "entity 8191 (add_client 7 (with_build True False 2060)) \<noteq> None \<longleftrightarrow>
     unat (8191::u16) < length (gs_ids (add_client 7 (with_build True False 2060))) \<and>
     gs_ids (add_client 7 (with_build True False 2060)) ! unat (8191::u16) = IdUsed"
proof -
  have "gs_reach lz lm (add_client 7 (with_build True False 2060))" for lz lm
    by (rule gr_step [OF gr_init, where c = "CmdAddClient 7"]) simp
  from registry_matches_ids [OF this]
  show "entity 8191 (add_client 7 (with_build True False 2060)) \<noteq> None \<longleftrightarrow>
     unat (8191::u16) < length (gs_ids (add_client 7 (with_build True False 2060))) \<and>
     gs_ids (add_client 7 (with_build True False 2060)) ! unat (8191::u16) = IdUsed" by blast
qed



text \<open>C6. A client changes its own entities only. Whatever payload a client uploads in a reachable
  state, every entity of another owner is left exactly as it was, and so are the state of every other
  client, every player's routing bucket, and every bucket policy.\<close>

theorem foreign_state_protected:
  assumes "gs_reach lz lm s" "ingest_clone_payload lz lm source bytes s = Some (out, s')"
  shows "(\<forall>k e. entity k s = Some e \<longrightarrow> se_owner e \<noteq> source \<longrightarrow> entity k s' = Some e) \<and>
    (\<forall>c. c \<noteq> source \<longrightarrow> map_of (gs_clients s') c = map_of (gs_clients s) c) \<and>
    (\<forall>c. player_bucket c (gs_routing s') = player_bucket c (gs_routing s)) \<and>
    (\<forall>b. policy b (gs_routing s') = policy b (gs_routing s))"
  using ingest_payload_law [OF reach_inv [OF assms(1)], of lz lm source bytes] assms(2)
  by (auto simp: ingest_frame_def entity_def)

theorem foreign_state_protected_witness:
  "\<forall>lz lm. \<exists>out s'. ingest_clone_payload lz lm 7 [1, 2, 3] (add_client 9 (with_build True False 2060)) = Some (out, s') \<and>
     map_of (gs_clients s') 9 = Some (cs_new 9)"
proof (intro allI)
  fix lz lm
  let ?s = "add_client 9 (with_build True False 2060)"
  have r: "gs_reach lz lm ?s" by (rule gr_step [OF gr_init, where c = "CmdAddClient 9"]) simp
  have i: "ingest_clone_payload lz lm 7 [1, 2, 3] ?s = Some (ingest_outcome_default, ?s)"
    by (simp add: ingest_clone_payload_def decode_incoming_def)
  have "map_of (gs_clients ?s) 9 = Some (cs_new 9)" by (simp add: add_client_def with_build_def Let_def)
  with foreign_state_protected [OF r i] i
  show "\<exists>out s'. ingest_clone_payload lz lm 7 [1, 2, 3] ?s = Some (out, s') \<and> map_of (gs_clients s') 9 = Some (cs_new 9)"
    by blast
qed

section \<open>Object ids\<close>

text \<open>C35. A lease grants fresh ids. In every reachable state a request for \<open>n\<close> ids returns the \<open>n\<close>
  lowest free ids of the client range (fewer only when no more are free), in ascending order; they
  are leased afterwards, no other id changes state, no entity changes; and the packet sent to the
  client decodes to exactly these ids.\<close>

theorem lease_grants_fresh_ids:
  assumes "gs_reach lz lm s"
  shows "\<exists>granted packet s'. lease_object_ids source n s = Some ((granted, packet), s') \<and>
    map unat granted = take n (filter (\<lambda>j. gs_ids s ! j = IdFree) [1..<unat (gs_max_object_id s)]) \<and>
    parse_object_ids (drop 4 packet) = Some granted \<and>
    (\<forall>j. gs_ids s' ! j = (if j \<in> unat ` set granted then IdLeased else gs_ids s ! j)) \<and>
    gs_entities s' = gs_entities s"
proof -
  note inv = reach_inv [OF assms]
  let ?g = "map of_nat (grantable n s) :: u16 list"
  have m: "map unat ?g = grantable n s"
    using grantable_props(2) [of _ n s] of_nat_u16 [of _ "gs_max_object_id s"] by (auto intro!: map_idI)
  then have "unat ` set ?g = set (grantable n s)" by (metis set_map)
  then show ?thesis using lease_law [OF inv, of source n] m unfolding grantable_def by auto
qed

theorem lease_grants_fresh_ids_witness:
  "\<exists>granted packet s'. lease_object_ids 5 6 (with_build True False 2060) = Some ((granted, packet), s') \<and>
     parse_object_ids (drop 4 packet) = Some granted"
  using lease_grants_fresh_ids [OF gr_init] by blast

lemma find_rev_upt:
  assumes "find P (rev [1..<Suc n]) = Some j"
  shows "1 \<le> j" "j \<le> n" "P j" "j < i \<Longrightarrow> i \<le> n \<Longrightarrow> \<not> P i"
  using assms by (induction n) (auto split: if_splits simp: le_Suc_eq)

lemma find_rev_upt_None: "find P (rev [1..<Suc n]) = None \<Longrightarrow> 1 \<le> j \<Longrightarrow> j \<le> n \<Longrightarrow> \<not> P j"
  unfolding find_None_iff by (auto simp del: upt_Suc)

text \<open>A server entity takes the highest free id. In every reachable state creating a server entity
  returns; it fails only when no id is free, changing nothing; otherwise the entity is stored under the
  highest free id, ownerless, with the create payload authored for it, and every other entity is as it
  was.\<close>

theorem spawn_takes_highest_free:
  assumes "gs_reach lz lm s"
  shows "\<exists>r s'. spawn_server_entity lm ty mdl pos hdg dynamic s = Some (r, s') \<and>
    (case r of
       None \<Rightarrow> s' = s \<and> (\<forall>j. 1 \<le> j \<and> j \<le> unat (gs_max_object_id s) \<longrightarrow> gs_ids s ! j \<noteq> IdFree)
     | Some k \<Rightarrow> k \<noteq> 0 \<and> gs_ids s ! unat k = IdFree \<and> entity k s = None \<and>
         (\<forall>j. unat k < j \<and> j \<le> unat (gs_max_object_id s) \<longrightarrow> gs_ids s ! j \<noteq> IdFree) \<and>
         (\<exists>d. write_sync_tree ty True (gs_length_hack s) (author_entity lm ty mdl pos hdg dynamic (gs_creation_token s + 1)) = Some d \<and>
            (\<forall>j. entity j s' = (if j = k then Some (spawned_entity k ty mdl pos hdg (gs_creation_token s + 1) d (gs_frame_index s))
               else entity j s))))"
proof -
  note inv = reach_inv [OF assms]
  let ?n = "unat (gs_max_object_id s)"
  let ?f = "find (\<lambda>j. gs_ids s ! j = IdFree) (rev [1..<Suc ?n])"
  have a: "allocate_server_object_id s = Some (map_option of_nat ?f)"
    unfolding allocate_server_object_id_def using gs_invD(4) [OF inv] by (intro allocate_loop_law) simp
  show ?thesis
  proof (cases ?f)
    case None
    then have "spawn_server_entity lm ty mdl pos hdg dynamic s = Some (None, s)" using a by (simp add: spawn_server_entity_def)
    then show ?thesis using find_rev_upt_None [OF None] by auto
  next
    case (Some j)
    note j = find_rev_upt [OF Some]
    let ?k = "of_nat j :: u16"
    have "?n < 2 ^ 16" using unsigned_less [of "gs_max_object_id s", where ?'a = nat] by simp
    then have u: "unat ?k = j" using j(2) by (simp add: unsigned_of_nat take_bit_nat_eq_self)
    have k: "?k \<noteq> 0" "\<not> gs_max_object_id s < ?k" using u j(1,2) by (auto simp: word_less_nat_alt)
    have none: "entity ?k s = None"
      using reg_okD(3) [OF gs_invD(1) [OF inv], of ?k] j(3) u by (cases "entity ?k s") (auto simp: entity_def)
    obtain d where d: "write_sync_tree ty True (gs_length_hack s) (author_entity lm ty mdl pos hdg dynamic (gs_creation_token s + 1)) = Some d"
      using author_entity_writable by blast
    obtain s' where s': "spawn_server_entity lm ty mdl pos hdg dynamic s = Some (Some ?k, s')"
      "gs_entities s' = AList.update ?k (spawned_entity ?k ty mdl pos hdg (gs_creation_token s + 1) d (gs_frame_index s)) (gs_entities s)"
      using spawn_with_id_law [OF inv, of lm ?k ty mdl pos hdg dynamic] a Some k j(3) u d
      by (auto simp: spawn_server_entity_def)
    have "entity i s' = (if i = ?k then Some (spawned_entity ?k ty mdl pos hdg (gs_creation_token s + 1) d (gs_frame_index s))
        else entity i s)" for i by (simp add: entity_def s'(2) update_conv')
    then show ?thesis using s'(1) k(1) j(3,4) u none d by auto
  qed
qed

theorem spawn_takes_highest_free_witness:
  "\<forall>lm :: libm. \<exists>r s'. spawn_server_entity lm Automobile 7 zero3 (Fin False 0) False (with_build True False 2060) = Some (r, s')"
  using spawn_takes_highest_free [OF gr_init] by blast

section \<open>Ownership\<close>

text \<open>Disconnecting a client. In every reachable state removing a client returns the ids of the
  entities it owned; those it created are gone, the server's own among them stay and become ownerless,
  every other entity is exactly as it was, and the client is no longer known.\<close>

theorem remove_client_effect:
  assumes "gs_reach lz lm s"
  shows "\<exists>orphaned s'. gs_remove_client source s = Some (orphaned, s') \<and>
    set orphaned = {k. \<exists>e. entity k s = Some e \<and> se_owner e = source} \<and>
    map_of (gs_clients s') = (map_of (gs_clients s))(source := None) \<and>
    (\<forall>k. entity k s' = (case entity k s of
       None \<Rightarrow> None
     | Some e \<Rightarrow> if se_owner e \<noteq> source then Some e
               else if se_server_owned e then Some (e\<lparr>se_owner := 0\<rparr>) else None))"
proof -
  note inv = reach_inv [OF assms]
  have "k \<in> fst ` set (filter (\<lambda>(k, e). se_owner e = source) (gs_entities s)) \<longleftrightarrow> (\<exists>e. entity k s = Some e \<and> se_owner e = source)" for k
    using reg_okD(1) [OF gs_invD(1) [OF inv]] by (force simp: entity_def image_iff)
  then have o: "set (map fst (filter (\<lambda>(k, e). se_owner e = source) (gs_entities s))) = {k. \<exists>e. entity k s = Some e \<and> se_owner e = source}"
    by (intro set_eqI) simp
  have b: "Option.bind m (orphaned_entity source) = (case m of None \<Rightarrow> None
     | Some e \<Rightarrow> if se_owner e \<noteq> source then Some e else if se_server_owned e then Some (e\<lparr>se_owner := 0\<rparr>) else None)" for m
    by (cases m) (simp_all add: orphaned_entity_def)
  obtain s' where "gs_remove_client source s = Some (map fst (filter (\<lambda>(k, e). se_owner e = source) (gs_entities s)), s')"
    "map_of (gs_clients s') = (map_of (gs_clients s))(source := None)"
    "\<forall>k. entity k s' = Option.bind (entity k s) (orphaned_entity source)"
    using remove_client_law [OF inv, of source] unfolding entity_def by blast
  then show ?thesis using o unfolding b by blast
qed

theorem remove_client_effect_witness:
  "\<exists>orphaned s'. gs_remove_client 7 (add_client 7 (with_build True False 2060)) = Some (orphaned, s') \<and>
     map_of (gs_clients s') 7 = None"
proof -
  have "gs_reach lz lm (add_client 7 (with_build True False 2060))" for lz lm
    by (rule gr_step [OF gr_init, where c = "CmdAddClient 7"]) simp
  from remove_client_effect [OF this, of 7] show ?thesis by auto
qed

lemma fold_min:
  fixes key :: "'a \<Rightarrow> 'k::linorder"
  defines "f \<equiv> fold (\<lambda>b a. if key b < key a then b else a)"
  shows "f xs x \<in> set (x # xs) \<and> (\<forall>y\<in>set (x # xs). key (f xs x) \<le> key y)"
  unfolding f_def by (induction xs arbitrary: x) (fastforce simp: not_less intro: order.trans less_imp_le)+

lemma min_by_least: "min_by key xs = Some x \<Longrightarrow> x \<in> set xs \<and> (\<forall>y\<in>set xs. key x \<le> key y)"
  using fold_min [where key = key] by (cases xs) auto

lemma min_by_some: "xs \<noteq> [] \<Longrightarrow> \<exists>x. min_by key xs = Some x"
  by (cases xs) auto

lemma reassigned_entity:
  "entity k (reassign_ownerless_server_entities s) = map_option (reassign_one (player_positions s)) (entity k s)"
proof -
  have "reassign_one [] = id" by (auto simp: reassign_one_def)
  moreover have "map_of (map (\<lambda>(k, e). (k, f e)) xs) k = map_option f (map_of xs k)" for f :: "server_entity \<Rightarrow> server_entity" and xs
    by (induction xs) auto
  ultimately show ?thesis by (auto simp: reassign_ownerless_server_entities_def entity_def Let_def option.map_id)
qed


definition two_entities :: server_game_state where
  "two_entities = (let e = spawned_entity 5 Automobile 7 zero3 (Fin False 0) 1 [] 0 in
     (with_build True False 2060)\<lparr>gs_entities := [(5, e),
       (6, e\<lparr>se_object_id := 6, se_entity_type := Player, se_owner := 9, se_server_owned := False\<rparr>)]\<rparr>)"

lemma two_entities_facts:
  "entity 5 two_entities = Some (spawned_entity 5 Automobile 7 zero3 (Fin False 0) 1 [] 0)"
  "player_positions two_entities = [(9, zero3)]"
  by (simp_all add: two_entities_def entity_def player_positions_def spawned_entity_def Let_def split: prod.splits)


section \<open>Limits of the arbitration\<close>

text \<open>The create payload is stored and not decoded: the parser is run on the entity's sync payload, which
  a create has just emptied. Two creates that differ in the payload only give entities that differ in
  the stored payload only, so the model, the position and every other field that the payload
  carries stay unknown until the first sync.\<close>

lemma create_payload_not_decoded:
  assumes "apply_create lm source k u ty token d s = (True, s1)" "apply_create lm source k u ty token d' s = (ok, s1')"
  shows "ok \<and> entity k s1' = map_option (\<lambda>e. e\<lparr>se_create_data := d'\<rparr>) (entity k s1)"
proof -
  have "apply_sync_data x (e\<lparr>se_create_data := c\<rparr>) = (apply_sync_data x e)\<lparr>se_create_data := c\<rparr>" for x e c
    unfolding apply_sync_data_def Let_def
    by (cases "sector x"; cases "sector_position x"; cases "velocity x") simp_all
  moreover have "created_entity k u source t token fi b d' prev = (created_entity k u source t token fi b d prev)\<lparr>se_create_data := d'\<rparr>" for t fi b prev
    by (simp add: created_entity_def Let_def)
  ultimately have "apply_sync_data x (created_entity k u source t token fi b d' prev) =
      (apply_sync_data x (created_entity k u source t token fi b d prev))\<lparr>se_create_data := d'\<rparr>" for x t fi b prev
    by metis
  moreover have "se_data (created_entity k u source t token fi b x prev) = []" for t fi b x prev
    by (simp add: created_entity_def Let_def)
  ultimately show ?thesis using assms
    by (auto simp: apply_create_def entity_def update_conv' Let_def split: if_splits option.splits)
qed

text \<open>A client create can adopt a server entity. The check on owner and uniqifier rejects a create over
  another owner's entity only; the client that simulates a server entity passes it, the entity is no
  longer the server's afterwards, and it is destroyed when that client disconnects.\<close>

lemma simulator_adopts_server_entity:
  assumes "entity k s = Some e" "se_server_owned e" "se_owner e = source" "se_uniqifier e = u"
    and "allows_client_create source (gs_routing s)"
  shows "\<exists>s1 e'. apply_create lm source k u (Some ty) token d s = (True, s1) \<and>
    entity k s1 = Some e' \<and> se_owner e' = source \<and> \<not> se_server_owned e'"
  using assms by (simp add: apply_create_def entity_def update_conv' Let_def created_entity_def)

text \<open>An object id can be granted to two clients at once. Client 1 leases id 1, creates an entity under it
  and removes it; the id is free again but stays in the list of client 1. Client 2 leases it; then
  client 1 disconnects, which frees every id of its list that is leased, and so frees the lease of
  client 2; client 3 is granted the id that client 2 still holds.\<close>

lemma lease_first:
  assumes "gs_ids s ! 1 = IdFree" "1 < length (gs_ids s)" "1 < gs_max_object_id s"
  shows "\<exists>p s'. lease_object_ids source 1 s = Some (([1], p), s') \<and>
    s' = (let s1 = add_client source (s\<lparr>gs_ids := (gs_ids s)[1 := IdLeased]\<rparr>) in
      s1\<lparr>gs_clients := AList.map_entry source (\<lambda>c. c\<lparr>cs_leased := cs_leased c @ [1]\<rparr>) (gs_clients s1)\<rparr>)"
proof -
  have "lease_loop 1 (gs_max_object_id s) 1 (gs_ids s) [] = Some ([1], (gs_ids s)[1 := IdLeased])"
    using assms by (simp add: lease_loop.simps ids_get_def)
  moreover have "build_object_ids [1] \<noteq> None" by code_simp
  ultimately show ?thesis by (auto simp: lease_object_ids_def Let_def)
qed

lemma stale_lease_double_grant:
  "\<exists>p1 s1 st p2 s2 orphaned s3 p3 s4.
    lease_object_ids 1 1 (with_build True False 2060) = Some (([1], p1), s1) \<and>
    ingest_records lm 1 [InClone True 1 5 (Some Ped) 9 [], InRemove 1 5]
      \<lparr>in_gs = s1, in_ack = mb_new ACK_BUF_BYTES, in_out = ingest_outcome_default\<rparr> = Some st \<and>
    lease_object_ids 2 1 (in_gs st) = Some (([1], p2), s2) \<and>
    gs_remove_client 1 s2 = Some (orphaned, s3) \<and>
    lease_object_ids 3 1 s3 = Some (([1], p3), s4) \<and>
    1 \<in> set (cs_leased (the (map_of (gs_clients s4) 2))) \<and>
    1 \<in> set (cs_leased (the (map_of (gs_clients s4) 3)))"
proof -
  let ?s0 = "with_build True False 2060"
  obtain p1 s1 where 1: "lease_object_ids 1 1 ?s0 = Some (([1], p1), s1)"
    "gs_ids s1 = (gs_ids ?s0)[1 := IdLeased]" "gs_entities s1 = []" "gs_routing s1 = registry_default"
    "gs_clients s1 = [(1, (cs_new 1)\<lparr>cs_leased := [1]\<rparr>)]" "gs_max_object_id s1 = 8191"
    using lease_first [of ?s0 1] by (auto simp: with_build_def Let_def MAX_OBJECT_ID_NATIVE_def add_client_def cs_new_def)
  have len: "length (gs_ids s1) = 8192" by (simp add: 1(2) with_build_def MAX_OBJECT_ID_NATIVE_def)
  obtain st where 2: "ingest_records lm 1 [InClone True 1 5 (Some Ped) 9 [], InRemove 1 5]
      \<lparr>in_gs = s1, in_ack = mb_new ACK_BUF_BYTES, in_out = ingest_outcome_default\<rparr> = Some st"
    "gs_ids (in_gs st) = (gs_ids s1)[1 := IdUsed, 1 := IdFree]" "gs_entities (in_gs st) = []"
    "gs_clients (in_gs st) = gs_clients s1" "gs_max_object_id (in_gs st) = 8191"
    using len by (simp add: apply_create_def apply_remove_def ids_set_def allows_client_create_def policy_def
        player_bucket_def set_entity_bucket_def 1 registry_default_def unwrap_or_def bucket_policy_default_def created_entity_def Let_def)
  obtain p2 s2 where 3: "lease_object_ids 2 1 (in_gs st) = Some (([1], p2), s2)"
    "gs_ids s2 = (gs_ids (in_gs st))[1 := IdLeased]" "gs_entities s2 = []" "gs_max_object_id s2 = 8191"
    "gs_clients s2 = [(1, (cs_new 1)\<lparr>cs_leased := [1]\<rparr>), (2, (cs_new 2)\<lparr>cs_leased := [1]\<rparr>)]"
    using lease_first [of "in_gs st" 2] 2 len by (auto simp: Let_def add_client_def cs_new_def 1)
  obtain s3 where 4: "gs_remove_client 1 s2 = Some ([], s3)" "gs_ids s3 = (gs_ids s2)[1 := IdFree]"
    "gs_max_object_id s3 = 8191" "gs_clients s3 = [(2, (cs_new 2)\<lparr>cs_leased := [1]\<rparr>)]"
    using len 2(2) by (simp add: gs_remove_client_def 3 ids_get_def)
  obtain p3 s4 where 5: "lease_object_ids 3 1 s3 = Some (([1], p3), s4)"
    "gs_clients s4 = [(2, (cs_new 2)\<lparr>cs_leased := [1]\<rparr>), (3, (cs_new 3)\<lparr>cs_leased := [1]\<rparr>)]"
    using lease_first [of s3 3] 2(2) 3(2) 4 len by (auto simp: Let_def add_client_def cs_new_def)
  show ?thesis
    by (intro exI conjI, rule 1(1), rule 2(1), rule 3(1), rule 4(1), rule 5(1)) (simp_all add: 5(2))
qed

end
