(* ===== verification/Game_Delivery.thy ===== *)
theory Game_Delivery
  imports Game_Reach Packed_Delivery
begin

text \<open>
  The outbound tick end to end (\<open>onesync/mod.rs\<close>, \<open>interest_ng.rs\<close>, \<open>rage/packet.rs\<close>): what a client
  decodes from the packets of one tick, in terms of the plan and of the registry.
\<close>

section \<open>A plan as a session of the packet writer\<close>

definition clone_cmd :: "(u16 \<times> server_entity) list \<Rightarrow> u64 \<Rightarrow> client_state \<Rightarrow> u32 \<Rightarrow> u16 \<Rightarrow> pw_cmd option" where
  "clone_cmd ents fi st ty k = Option.bind (map_of ents k) (\<lambda>e.
     let base = unwrap_or 0 (base_frame k (cs_view st)) in
     if ty = rec_CREATE then Some (CmdClone fi (clone_of ty base fi e (se_create_data e)))
     else if se_data e = [] then None
     else Some (CmdClone fi (clone_of ty base fi e (se_data e))))"

definition plan_cmds :: "(u16 \<times> server_entity) list \<Rightarrow> u64 \<Rightarrow> client_state \<Rightarrow> tick_plan \<Rightarrow> pw_cmd list" where
  "plan_cmds ents fi st plan =
     List.map_filter (clone_cmd ents fi st rec_CREATE) (tp_creates plan) @
     List.map_filter (clone_cmd ents fi st rec_SYNC) (tp_syncs plan) @
     map (\<lambda>(k, u). CmdRemove False k u) (tp_removes plan)"

lemma fold_encode:
  "fold (encode_one lz ents fi st ty) ks w = fold (pw_exec lz) (List.map_filter (clone_cmd ents fi st ty) ks) w"
  by (induction ks arbitrary: w)
    (auto simp: encode_one_def clone_cmd_def Let_def split: option.splits)

lemma fold_removes:
  "fold (\<lambda>(k, u). write_remove lz False k u) rs w = fold (pw_exec lz) (map (\<lambda>(k, u). CmdRemove False k u) rs) w"
  by (induction rs arbitrary: w) auto

lemma encode_plan_session:
  "encode_plan lz ents fi hack st plan =
     (if tp_creates plan = [] \<and> tp_syncs plan = [] \<and> tp_removes plan = [] then []
      else pw_session lz MSG_PACKED_CLONES fi hack (plan_cmds ents fi st plan))"
  by (simp add: encode_plan_def pw_session_def plan_cmds_def fold_encode fold_removes Let_def)

section \<open>What the client decodes\<close>

definition create_record :: "server_game_state \<Rightarrow> u16 \<Rightarrow> downlink_record" where
  "create_record s k = (let e = the (entity k s) in
     DlClone True k (ucast (se_owner e)) (Some (se_entity_type e)) (se_creation_token e) (se_uniqifier e)
       (se_frame_index e) (ucast (gs_frame_index s)) (se_create_data e))"

definition sync_record :: "server_game_state \<Rightarrow> u16 \<Rightarrow> downlink_record" where
  "sync_record s k = (let e = the (entity k s) in
     DlClone False k (ucast (se_owner e)) None 0 (se_uniqifier e)
       (se_frame_index e) (ucast (gs_frame_index s)) (se_data e))"

definition plan_records :: "server_game_state \<Rightarrow> tick_plan \<Rightarrow> downlink_record list" where
  "plan_records s plan = map (create_record s) (tp_creates plan) @
     map (sync_record s) (filter (\<lambda>k. se_data (the (entity k s)) \<noteq> []) (tp_syncs plan)) @
     map (\<lambda>(k, u). DlRemove False k u) (tp_removes plan)"

text \<open>The entities of a plan live in the registry, and the view's baseline is their own frame.\<close>

lemma planned_entity:
  assumes "gs_inv s" "distinct (map fst (cv_views v))"
    and t: "cv_tick_with_context focus fvel bucket (world_snapshot s) (si_build (world_snapshot s) r) cfg v = Some (plan, v')"
    and k: "k \<in> set (tp_creates plan @ tp_syncs plan)"
  shows "\<exists>e. map_of (gs_entities s) k = Some e \<and> base_frame k v' = Some (se_frame_index e)"
proof -
  note w = world_snapshot_law [OF assms(1)]
  let ?w = "world_snapshot s" and ?c = "client_context focus fvel bucket cfg v"
  let ?i = "si_build ?w r"
  note ok = index_ok_build [OF w(3), of r]
  have p: "plan = plan_spec ?c ?w ?i (cv_views v)" and m: "map_of (cv_views v') = views_spec ?c ?w ?i (cv_views v)"
    using cv_tick_law [OF w(2,3) assms(2), of focus fvel bucket r cfg] t by auto
  obtain x where x: "x \<in> set (planned ?c ?w ?i (cv_views v))" "sn_object_id x = k"
    using k unfolding p plan_ids by blast
  have "find (\<lambda>e. sn_object_id e = k) (planned ?c ?w ?i (cv_views v)) = Some x"
    using find_distinct [OF distinct_planned [OF w(2) ok] x(1)] x(2) by simp
  then have "base_frame k v' = Some (sn_frame_index x)"
    by (simp add: base_frame_def m views_spec_def sent_view_def)
  moreover obtain e j where e: "x = snapshot_entity e" "map_of (gs_entities s) j = Some e"
    using scoped_world [OF ok planned_scoped [OF x(1)]] unfolding w(4) by auto
  moreover have "j = k" using reg_okD(3) [OF gs_invD(1) [OF assms(1)] e(2)] x(2) by (simp add: e(1) ent_ok_def snapshot_entity_def)
  ultimately show ?thesis by (auto simp: snapshot_entity_def)
qed

lemma in_map_filter: "y \<in> set (List.map_filter f xs) \<longleftrightarrow> (\<exists>x\<in>set xs. f x = Some y)"
  by (induction xs) (auto split: option.splits)

lemma map_filter_some:
  "(\<And>k. k \<in> set ks \<Longrightarrow> f k = Some (g k)) \<Longrightarrow> List.map_filter f ks = map g ks"
  by (induction ks) auto

lemma map_filter_guard:
  "(\<And>k. k \<in> set ks \<Longrightarrow> f k = (if P k then Some (g k) else None)) \<Longrightarrow> List.map_filter f ks = map g (filter P ks)"
  by (induction ks) auto

lemma plan_cmds_records:
  assumes "\<forall>k\<in>set (tp_creates plan @ tp_syncs plan). \<exists>e. map_of (gs_entities s) k = Some e \<and>
      se_object_id e = k \<and> base_frame k (cs_view st) = Some (se_frame_index e)"
  shows "map (\<lambda>cmd. view_out (cmd_record cmd)) (plan_cmds (gs_entities s) (gs_frame_index s) st plan) = plan_records s plan"
proof -
  let ?cmd = "\<lambda>ty d k. CmdClone (gs_frame_index s) (clone_of ty (se_frame_index (the (entity k s))) (gs_frame_index s)
      (the (entity k s)) (d (the (entity k s))))"
  have 1: "List.map_filter (clone_cmd (gs_entities s) (gs_frame_index s) st rec_CREATE) (tp_creates plan) =
      map (?cmd rec_CREATE se_create_data) (tp_creates plan)"
    using assms by (intro map_filter_some) (auto simp: clone_cmd_def entity_def unwrap_or_def Let_def dest!: bspec)
  have 2: "List.map_filter (clone_cmd (gs_entities s) (gs_frame_index s) st rec_SYNC) (tp_syncs plan) =
      map (?cmd rec_SYNC se_data) (filter (\<lambda>k. se_data (the (entity k s)) \<noteq> []) (tp_syncs plan))"
    using assms by (intro map_filter_guard) (auto simp: clone_cmd_def entity_def unwrap_or_def Let_def rec_CREATE_def rec_SYNC_def dest!: bspec)
  have id: "se_object_id (the (entity k s)) = k" if "k \<in> set (tp_creates plan @ tp_syncs plan)" for k
    using assms that by (auto simp: entity_def dest!: bspec)
  show ?thesis unfolding plan_cmds_def plan_records_def 1 2
    using id by (auto simp: clone_of_def create_record_def sync_record_def rec_CREATE_def rec_SYNC_def Let_def)
qed

text \<open>Everything a plan names fits the fields of a record.\<close>

lemma plan_cmds_valid:
  assumes "gs_inv s" "\<not> gs_length_hack s" "\<forall>k\<in>set (tp_creates plan @ tp_syncs plan). map_of (gs_entities s) k \<noteq> None"
    and "\<forall>k\<in>fst ` set (tp_removes plan). unat k < length (gs_ids s)"
  shows "\<forall>cmd\<in>set (plan_cmds (gs_entities s) fi st plan). valid_out False (cmd_record cmd)"
proof -
  have n: "length (gs_ids s) = 8192"
    using assms(1,2) reg_okD(2) [OF gs_invD(1) [OF assms(1)]]
    by (simp add: gs_inv_def mode_max_def MAX_OBJECT_ID_NATIVE_def)
  have fits: "id_fits False k" if "unat k < 8192" for k
  proof -
    have "uint k = int (unat k)" by simp
    then show ?thesis using that unfolding id_fits_def by linarith
  qed
  have "valid_out False (cmd_record cmd)"
    if cl: "clone_cmd (gs_entities s) fi st ty k = Some cmd" "ty = rec_CREATE \<or> ty = rec_SYNC" for ty k cmd
  proof -
    obtain e where e: "map_of (gs_entities s) k = Some e" using cl(1) unfolding clone_cmd_def bind_eq_Some_conv by blast
    with reg_okD(3) [OF gs_invD(1) [OF assms(1)] e] that show ?thesis
      by (auto simp: clone_cmd_def clone_of_def ent_ok_def n Let_def split: if_splits intro: fits)
  qed
  moreover have "id_fits False k" if "(k, u) \<in> set (tp_removes plan)" for k u
    using assms(4) that n by (force intro: fits)
  ultimately show ?thesis by (auto simp: plan_cmds_def in_map_filter)
qed

lemma removes_known:
  assumes "gs_inv s" "map_of (gs_clients s) source = Some st"
    and "cv_tick_with_context focus fvel bucket (world_snapshot s) (si_build (world_snapshot s) r) cfg (cs_view st) = Some (plan, v')"
  shows "\<forall>k\<in>fst ` set (tp_removes plan). unat k < length (gs_ids s)"
proof -
  note w = world_snapshot_law [OF assms(1)]
  note ok = gs_invD(3) [OF assms(1,2)]
  then have "distinct (map fst (cv_views (cs_view st)))" by (auto simp: client_ok_def view_ok_upto_def view_inv_def)
  from cv_tick_law [OF w(2,3) this, of focus fvel bucket r cfg] assms(3)
  have "tp_removes plan = lost (client_context focus fvel bucket cfg (cs_view st)) (world_snapshot s)
      (si_build (world_snapshot s) r) (cv_views (cs_view st))" by (auto simp: plan_spec_def)
  then have "fst ` set (tp_removes plan) \<subseteq> fst ` set (cv_views (cs_view st))" using lost_not_scoped by (metis subsetI)
  then show ?thesis using ok by (force simp: client_ok_def view_ok_upto_def list_all_iff)
qed

section \<open>Delivery\<close>

text \<open>C3. A tick reaches the client. In every reachable state in 13-bit id mode, with any focus and
  configuration, the tick of a connected client returns, and the packets it produces all decode at the
  client, under the server's frame index, to exactly the records of the interest plan besides
  timestamps: a create with the current owner, type, token and create payload for every entity the plan
  creates, then the last sync payload of every entity it syncs that has one, then the removals. Each
  entity the plan names lives in the registry. LZ4 satisfies its block contract.\<close>

theorem tick_client_delivers:
  assumes "gs_reach lz lm s" "lz4_spec lz" "\<not> gs_length_hack s" "uint (gs_frame_index s) < 2 ^ 56"
    and "map_of (gs_clients s) source = Some st"
  shows "\<exists>plan v packets s' ds.
    cv_tick_with_context focus zero3 (player_bucket source (gs_routing s)) (world_snapshot s)
      (si_build (world_snapshot s) (query_radius cfg)) cfg (cs_view st) = Some (plan, v) \<and>
    tick_client lz source focus cfg s = Some (packets, s') \<and>
    map_of (gs_clients s') source = Some (st\<lparr>cs_view := v\<rparr>) \<and>
    map (decode_downlink lz) packets = map Some ds \<and>
    filter (\<lambda>r. \<not> dl_is_timestamp r) (concat (map dp_records ds)) = plan_records s plan \<and>
    (\<forall>d\<in>set ds. frame_index (dp_frame d) = gs_frame_index s) \<and>
    (\<forall>k\<in>set (tp_creates plan @ tp_syncs plan). entity k s \<noteq> None)"
proof -
  note inv = reach_inv [OF assms(1)]
  note ok = gs_invD(3) [OF inv assms(5)]
  obtain plan v where t: "cv_tick_with_context focus zero3 (player_bucket source (gs_routing s)) (world_snapshot s)
      (si_build (world_snapshot s) (query_radius cfg)) cfg (cs_view st) = Some (plan, v)"
    using view_tick [OF inv ok] by blast
  have "distinct (map fst (cv_views (cs_view st)))" using ok by (auto simp: client_ok_def view_ok_upto_def view_inv_def)
  note planned = planned_entity [OF inv this t]
  let ?st = "st\<lparr>cs_view := v\<rparr>" and ?cmds = "\<lambda>st. plan_cmds (gs_entities s) (gs_frame_index s) st plan"
  have ents: "\<forall>k\<in>set (tp_creates plan @ tp_syncs plan). \<exists>e. map_of (gs_entities s) k = Some e \<and>
      se_object_id e = k \<and> base_frame k (cs_view ?st) = Some (se_frame_index e)"
    using planned reg_okD(3) [OF gs_invD(1) [OF inv]] by (fastforce simp: ent_ok_def)
  then have live: "\<forall>k\<in>set (tp_creates plan @ tp_syncs plan). map_of (gs_entities s) k \<noteq> None" by fastforce
  note valid = plan_cmds_valid [OF inv assms(3) live removes_known [OF inv assms(5) t]]
  from session_delivers [OF assms(2) valid [of "gs_frame_index s" ?st] assms(4), of MSG_PACKED_CLONES] obtain ds where
    ds: "map (decode_downlink lz) (pw_session lz MSG_PACKED_CLONES (gs_frame_index s) False (?cmds ?st)) = map Some ds"
      "filter (\<lambda>r. \<not> dl_is_timestamp r) (concat (map dp_records ds)) = plan_records s plan"
      "\<forall>i<length ds. frame_index (dp_frame (ds ! i)) = gs_frame_index s"
    unfolding plan_cmds_records [OF ents] by auto
  let ?none = "tp_creates plan = [] \<and> tp_syncs plan = [] \<and> tp_removes plan = []"
  let ?ds = "if ?none then [] else ds"
  have "map (decode_downlink lz) (encode_plan lz (gs_entities s) (gs_frame_index s) (gs_length_hack s) ?st plan) = map Some ?ds \<and>
     filter (\<lambda>r. \<not> dl_is_timestamp r) (concat (map dp_records ?ds)) = plan_records s plan \<and>
     (\<forall>d\<in>set ?ds. frame_index (dp_frame d) = gs_frame_index s)"
    using ds assms(3) by (auto simp: encode_plan_session plan_records_def in_set_conv_nth)
  moreover have "tick_client lz source focus cfg s =
      Some (encode_plan lz (gs_entities s) (gs_frame_index s) (gs_length_hack s) ?st plan,
        s\<lparr>gs_clients := AList.update source ?st (gs_clients s)\<rparr>)"
    using t assms(5) by (simp add: tick_client_def Let_def)
  ultimately show ?thesis using t live by (fastforce simp: entity_def update_conv')
qed

theorem tick_client_delivers_witness:
  "\<exists>plan packets s' ds. tick_client stored_lz4 7 zero3 interest_config_default (add_client 7 (with_build True False 2060)) = Some (packets, s') \<and>
     map (decode_downlink stored_lz4) packets = map Some ds \<and>
     filter (\<lambda>r. \<not> dl_is_timestamp r) (concat (map dp_records ds)) =
       plan_records (add_client 7 (with_build True False 2060)) plan"
proof -
  let ?s = "add_client 7 (with_build True False 2060)"
  have r: "gs_reach stored_lz4 lm ?s" for lm
    by (rule gr_step [OF gr_init, where c = "CmdAddClient 7"]) simp
  have "\<not> gs_length_hack ?s" "uint (gs_frame_index ?s) < 2 ^ 56" "map_of (gs_clients ?s) 7 = Some (cs_new 7)"
    by (simp_all add: add_client_def with_build_def Let_def)
  from tick_client_delivers [OF r stored_lz4_spec this] show ?thesis by blast
qed

end
