(* ===== verification/Voice_Pds.thy ===== *)
theory Voice_Pds
  imports Byte_Cursor
begin

text \<open>
  The variable-length integers of the voice protocol, \<open>crates/baston-voice/src/pds.rs\<close>: the reader
  over a byte slice and the minimal encoder. A \<open>PdsReader\<close> is a slice with a position, the byte
  cursor of \<open>Byte_Cursor\<close>.
\<close>

section \<open>The reader\<close>

type_synonym pds_reader = byte_reader

definition pds_new :: "u8 list \<Rightarrow> pds_reader" where
  "pds_new buf = rd_new buf"

definition pds_offset :: "pds_reader \<Rightarrow> nat" where
  "pds_offset r = rd_off r"

definition pds_remaining :: "pds_reader \<Rightarrow> u8 list" where
  "pds_remaining r = drop (min (rd_off r) (length (rd_buf r))) (rd_buf r)"

definition next_byte :: "u8 byte_parser" where
  "next_byte = rd_u8"

definition read_raw_byte :: "u8 byte_parser" where
  "read_raw_byte = next_byte"

text \<open>\<open>v = (v << 8) | self.next_byte()? as u64\<close>, \<open>n\<close> times.\<close>

fun read_be :: "nat \<Rightarrow> u64 \<Rightarrow> u64 byte_parser" where
  "read_be 0 v r = Some (v, r)"
| "read_be (Suc n) v r = do { (b, r1) \<leftarrow> next_byte r; read_be n (push_bit 8 v OR ucast b) r1 }"

lemma next_byte_progress:
  "next_byte r = Some (b, r1) \<Longrightarrow> rd_buf r1 = rd_buf r \<and> rd_off r < rd_off r1 \<and> rd_off r1 \<le> length (rd_buf r)"
  by (auto simp: next_byte_def rd_u8_def split: if_splits)

function read_u64 :: "u64 byte_parser" where
  "read_u64 r = (case next_byte r of
     None \<Rightarrow> None
   | Some (b0, r0) \<Rightarrow>
       let v0 = ucast b0 :: u64 in
       if v0 AND 0x80 = 0 then Some (v0, r0)
       else if v0 AND 0xC0 = 0x80 then do {
         (b1, r1) \<leftarrow> next_byte r0;
         Some (push_bit 8 (v0 AND 0x3F) OR ucast b1, r1) }
       else if v0 AND 0xE0 = 0xC0 then do {
         (b1, r1) \<leftarrow> next_byte r0;
         (b2, r2) \<leftarrow> next_byte r1;
         Some (push_bit 16 (v0 AND 0x1F) OR push_bit 8 (ucast b1) OR ucast b2, r2) }
       else if v0 AND 0xF0 = 0xE0 then do {
         (b1, r1) \<leftarrow> next_byte r0;
         (b2, r2) \<leftarrow> next_byte r1;
         (b3, r3) \<leftarrow> next_byte r2;
         Some (push_bit 24 (v0 AND 0x0F) OR push_bit 16 (ucast b1) OR push_bit 8 (ucast b2) OR ucast b3, r3) }
       else if v0 AND 0xFC = 0xF0 then read_be 4 0 r0
       else if v0 AND 0xFC = 0xF4 then read_be 8 0 r0
       else if v0 AND 0xFC = 0xF8 then do { (_, r1) \<leftarrow> read_u64 r0; Some (0, r1) }
       else Some (0 - ((v0 AND 0x03) + 1), r0))"
  by pat_completeness auto
termination
  by (relation "measure (\<lambda>r. length (rd_buf r) - rd_off r)") (use next_byte_progress in fastforce)+

declare read_u64.simps [simp del]

definition read_u32 :: "u32 byte_parser" where
  "read_u32 r = map_option (\<lambda>(v, r1). (ucast v, r1)) (read_u64 r)"

section \<open>The writer\<close>

definition to_be_bytes :: "nat \<Rightarrow> 'a::len word \<Rightarrow> u8 list" where
  "to_be_bytes n w = rev (to_le_bytes n w)"

definition write_u64 :: "u64 \<Rightarrow> u8 list" where
  "write_u64 v =
     (if v < 0x80 then [ucast v]
      else if v < 0x4000 then [0x80 OR ucast (drop_bit 8 v), ucast (v AND 0xFF)]
      else if v < 0x200000 then [0xC0 OR ucast (drop_bit 16 v), ucast (drop_bit 8 v), ucast (v AND 0xFF)]
      else if v < 0x10000000 then
        [0xE0 OR ucast (drop_bit 24 v), ucast (drop_bit 16 v), ucast (drop_bit 8 v), ucast (v AND 0xFF)]
      else if v < 0x100000000 then 0xF0 # to_be_bytes 4 (ucast v :: u32)
      else 0xF4 # to_be_bytes 8 v)"

section \<open>Round trip\<close>

definition from_be_bytes :: "u8 list \<Rightarrow> 'a::len word" where
  "from_be_bytes bs = foldl (\<lambda>v b. push_bit 8 v OR ucast b) 0 bs"

lemma from_be_rev: "from_be_bytes bs = from_le_bytes (rev bs)"
  by (induction bs rule: rev_induct) (simp_all add: from_be_bytes_def or.commute)

lemma from_to_be_bytes [simp]: "from_be_bytes (to_be_bytes n (w::'a::len word)) = (take_bit (8 * n) w :: 'a word)"
  by (simp add: from_be_rev to_be_bytes_def)

lemma length_to_be_bytes [simp]: "length (to_be_bytes n w) = n"
  by (simp add: to_be_bytes_def)

lemma consumes_byte: "consumes next_byte [b] b"
  unfolding next_byte_def by (rule consumes_u8)

lemma consumes_be: "consumes (read_be (length bs) v) bs (foldl (\<lambda>v b. push_bit 8 v OR ucast b) v bs)"
proof (induction bs arbitrary: v)
  case Nil
  have "read_be 0 v = (\<lambda>r. Some (v, r))" by (rule ext) simp
  then show ?case by (simp add: consumes_ret)
next
  case (Cons b bs)
  have "read_be (Suc (length bs)) v = (\<lambda>r. do { (x, r1) \<leftarrow> next_byte r; read_be (length bs) (push_bit 8 v OR ucast x) r1 })"
    by (rule ext) simp
  then show ?case using consumes_bind [OF consumes_byte Cons.IH] by simp
qed

definition varint_tail :: "u8 \<Rightarrow> u64 byte_parser" where
  "varint_tail b0 r0 =
      (let v0 = ucast b0 :: u64 in
       if v0 AND 0x80 = 0 then Some (v0, r0)
       else if v0 AND 0xC0 = 0x80 then do {
         (b1, r1) \<leftarrow> next_byte r0;
         Some (push_bit 8 (v0 AND 0x3F) OR ucast b1, r1) }
       else if v0 AND 0xE0 = 0xC0 then do {
         (b1, r1) \<leftarrow> next_byte r0;
         (b2, r2) \<leftarrow> next_byte r1;
         Some (push_bit 16 (v0 AND 0x1F) OR push_bit 8 (ucast b1) OR ucast b2, r2) }
       else if v0 AND 0xF0 = 0xE0 then do {
         (b1, r1) \<leftarrow> next_byte r0;
         (b2, r2) \<leftarrow> next_byte r1;
         (b3, r3) \<leftarrow> next_byte r2;
         Some (push_bit 24 (v0 AND 0x0F) OR push_bit 16 (ucast b1) OR push_bit 8 (ucast b2) OR ucast b3, r3) }
       else if v0 AND 0xFC = 0xF0 then read_be 4 0 r0
       else if v0 AND 0xFC = 0xF4 then read_be 8 0 r0
       else if v0 AND 0xFC = 0xF8 then do { (_, r1) \<leftarrow> read_u64 r0; Some (0, r1) }
       else Some (0 - ((v0 AND 0x03) + 1), r0))"

lemma read_u64_step: "read_u64 = (\<lambda>r. do { (b0, r0) \<leftarrow> next_byte r; varint_tail b0 r0 })"
proof (rule ext)
  fix r
  show "read_u64 r = do { (b0, r0) \<leftarrow> next_byte r; varint_tail b0 r0 }"
    by (subst read_u64.simps) (simp add: varint_tail_def split: option.split)
qed

text \<open>The prefixes of the leading byte, by enumeration.\<close>

lemma word_nat_inverse: "word_of_nat (unat w) = w"
  by simp

lemma byte_enum: "list_all (\<lambda>n. P (word_of_nat n)) [0..<k] \<Longrightarrow> unat (b::u8) < k \<Longrightarrow> P b"
  using word_nat_inverse [of b] by (metis list_all_iff atLeast0LessThan lessThan_iff set_upt)

lemma lead_1: "unat (b::u8) < 128 \<Longrightarrow> (ucast b :: u64) AND 0x80 = 0"
  by (rule byte_enum [where k = 128]) (code_simp, assumption)

lemma lead_2:
  "unat (b::u8) < 64 \<Longrightarrow> (let v = ucast (0x80 OR b) :: u64 in
     v AND 0x80 \<noteq> 0 \<and> v AND 0xC0 = 0x80 \<and> v AND 0x3F = ucast b)"
  by (rule byte_enum [where k = 64]) (code_simp, assumption)

lemma lead_3:
  "unat (b::u8) < 32 \<Longrightarrow> (let v = ucast (0xC0 OR b) :: u64 in
     v AND 0x80 \<noteq> 0 \<and> v AND 0xC0 \<noteq> 0x80 \<and> v AND 0xE0 = 0xC0 \<and> v AND 0x1F = ucast b)"
  by (rule byte_enum [where k = 32]) (code_simp, assumption)

lemma lead_4:
  "unat (b::u8) < 16 \<Longrightarrow> (let v = ucast (0xE0 OR b) :: u64 in
     v AND 0x80 \<noteq> 0 \<and> v AND 0xC0 \<noteq> 0x80 \<and> v AND 0xE0 \<noteq> 0xC0 \<and> v AND 0xF0 = 0xE0 \<and> v AND 0x0F = ucast b)"
  by (rule byte_enum [where k = 16]) (code_simp, assumption)

lemma unat_top:
  assumes "(v::u64) < of_nat m" "m = 2 ^ k * l" "m < 2 ^ 64" "l \<le> 256"
  shows "unat (ucast (drop_bit k v) :: u8) < l"
proof -
  have "unat v < m" using assms(1,3) by (simp add: word_less_nat_alt unsigned_of_nat take_bit_nat_eq_self)
  then have "unat (drop_bit k v) < l"
    unfolding unat_drop_bit_eq assms(2) by (simp add: drop_bit_nat_def less_mult_imp_div_less mult.commute)
  then show ?thesis using assms(4) by (simp add: unsigned_ucast_eq take_bit_nat_eq_self)
qed

lemma low_byte: "(ucast (v AND 0xFF) :: u8) = ucast (v::u64)"
proof (rule bit_word_eqI)
  fix i assume "i < LENGTH(8)"
  have e: "v AND 0xFF = take_bit 8 v" by (simp add: take_bit_eq_mask mask_eq_exp_minus_1)
  show "bit (ucast (v AND 0xFF) :: u8) i = bit (ucast v :: u8) i"
    unfolding e using \<open>i < LENGTH(8)\<close> by (simp add: bit_simps)
qed

lemma be_bytes_split:
  "to_be_bytes (Suc 0) v = [ucast v]"
  "to_be_bytes 2 v = [ucast (drop_bit 8 v), ucast v]"
  "to_be_bytes 3 v = [ucast (drop_bit 16 v), ucast (drop_bit 8 v), ucast v]"
  "to_be_bytes 4 v = [ucast (drop_bit 24 v), ucast (drop_bit 16 v), ucast (drop_bit 8 v), ucast v]"
  by (simp_all add: to_be_bytes_def to_le_bytes_def upt_rec)

lemma be_bytes_fit:
  assumes "(v::u64) < of_nat m" "m < 2 ^ 64" "m \<le> 2 ^ (8 * n)"
  shows "from_be_bytes (to_be_bytes n v) = v"
proof -
  have "unat v < m" using assms(1,2) by (simp add: word_less_nat_alt unsigned_of_nat take_bit_nat_eq_self)
  then have "unat v < 2 ^ (8 * n)" using assms(3) by linarith
  then have "take_bit (8 * n) v = v" unfolding take_bit_word_fits by (metis of_nat_less_iff of_nat_power of_nat_numeral uint_nat)
  then show ?thesis by simp
qed

lemma consumes_next:
  "consumes (k x) ys y \<Longrightarrow> consumes (\<lambda>r. do { (x, r1) \<leftarrow> next_byte r; k x r1 }) (x # ys) y"
  using consumes_bind [OF consumes_byte] by fastforce

lemma consumes_lead: "consumes (varint_tail b) bs v \<Longrightarrow> consumes read_u64 (b # bs) v"
  unfolding read_u64_step by (rule consumes_next)

lemma consumes_varint: "consumes read_u64 (write_u64 v) v"
proof -
  consider "v < 0x80" | "\<not> v < 0x80" "v < 0x4000" | "\<not> v < 0x4000" "v < 0x200000" | "\<not> v < 0x200000" "v < 0x10000000"
    | "\<not> v < 0x10000000" "v < 0x100000000" | "\<not> v < 0x100000000" by blast
  moreover have up: "\<not> v < 0x4000 \<Longrightarrow> \<not> v < 0x80" "\<not> v < 0x200000 \<Longrightarrow> \<not> v < 0x4000"
    "\<not> v < 0x10000000 \<Longrightarrow> \<not> v < 0x200000" "\<not> v < 0x100000000 \<Longrightarrow> \<not> v < 0x10000000"
    by (simp_all add: word_less_nat_alt)
  ultimately show ?thesis
  proof cases
    case 1
    have "(ucast (ucast v :: u8) :: u64) AND 0x80 = 0" using unat_top [of v "0x80" 0 128] 1 by (intro lead_1) simp
    then have "varint_tail (ucast v) = (\<lambda>r. Some (ucast (ucast v :: u8), r))"
      by (simp only: varint_tail_def Let_def if_True simp_thms fun_eq_iff)
    moreover have "ucast (ucast v :: u8) = v" using be_bytes_fit [of v "0x80" 1] 1 by (simp add: be_bytes_split from_be_bytes_def)
    ultimately have "consumes (varint_tail (ucast v)) [] v" by (simp add: consumes_ret)
    then show ?thesis using 1 by (simp add: write_u64_def consumes_lead)
  next
    case 2
    let ?b = "ucast (drop_bit 8 v) :: u8"
    have b: "unat ?b < 64" by (rule unat_top [where m = "0x4000"]) (use 2(2) in simp_all)
    have "varint_tail (0x80 OR ?b) = (\<lambda>r. do { (b1, r1) \<leftarrow> next_byte r; Some (push_bit 8 (ucast ?b) OR ucast b1, r1) })"
      using lead_2 [of ?b] b by (simp only: varint_tail_def Let_def if_True if_False simp_thms fun_eq_iff)
    moreover have "push_bit 8 (ucast ?b) OR ucast (ucast v :: u8) = v"
      using be_bytes_fit [of v "0x4000" 2] 2(2) by (simp add: be_bytes_split from_be_bytes_def)
    ultimately have "consumes (varint_tail (0x80 OR ?b)) [ucast v] v" by (simp only:) (intro consumes_next consumes_ret)
    then show ?thesis using 2 by (simp add: write_u64_def low_byte consumes_lead)
  next
    case 3
    let ?b = "ucast (drop_bit 16 v) :: u8"
    have b: "unat ?b < 32" by (rule unat_top [where m = "0x200000"]) (use 3(2) in simp_all)
    have "varint_tail (0xC0 OR ?b) = (\<lambda>r. do { (b1, r1) \<leftarrow> next_byte r; (b2, r2) \<leftarrow> next_byte r1;
        Some (push_bit 16 (ucast ?b) OR push_bit 8 (ucast b1) OR ucast b2, r2) })"
      using lead_3 [of ?b] b by (simp only: varint_tail_def Let_def if_True if_False simp_thms fun_eq_iff)
    moreover have "push_bit 16 (ucast ?b) OR push_bit 8 (ucast (ucast (drop_bit 8 v) :: u8)) OR ucast (ucast v :: u8) = v"
      using be_bytes_fit [of v "0x200000" 3] 3(2) by (simp add: be_bytes_split from_be_bytes_def push_bit_or or.assoc)
    ultimately have "consumes (varint_tail (0xC0 OR ?b)) [ucast (drop_bit 8 v), ucast v] v"
      by (simp only:) (intro consumes_next consumes_ret)
    then show ?thesis using 3 up by (simp add: write_u64_def low_byte consumes_lead)
  next
    case 4
    let ?b = "ucast (drop_bit 24 v) :: u8"
    have b: "unat ?b < 16" by (rule unat_top [where m = "0x10000000"]) (use 4(2) in simp_all)
    have "varint_tail (0xE0 OR ?b) = (\<lambda>r. do { (b1, r1) \<leftarrow> next_byte r; (b2, r2) \<leftarrow> next_byte r1; (b3, r3) \<leftarrow> next_byte r2;
        Some (push_bit 24 (ucast ?b) OR push_bit 16 (ucast b1) OR push_bit 8 (ucast b2) OR ucast b3, r3) })"
      using lead_4 [of ?b] b by (simp only: varint_tail_def Let_def if_True if_False simp_thms fun_eq_iff)
    moreover have "push_bit 24 (ucast ?b) OR push_bit 16 (ucast (ucast (drop_bit 16 v) :: u8)) OR
        push_bit 8 (ucast (ucast (drop_bit 8 v) :: u8)) OR ucast (ucast v :: u8) = v"
      using be_bytes_fit [of v "0x10000000" 4] 4(2) by (simp add: be_bytes_split from_be_bytes_def push_bit_or or.assoc)
    ultimately have "consumes (varint_tail (0xE0 OR ?b)) [ucast (drop_bit 16 v), ucast (drop_bit 8 v), ucast v] v"
      by (simp only:) (intro consumes_next consumes_ret)
    then show ?thesis using 4 up by (simp add: write_u64_def low_byte consumes_lead)
  next
    case 5
    have "(to_be_bytes 4 (ucast v :: u32)) = to_be_bytes 4 v"
      unfolding be_bytes_split by (auto intro!: bit_word_eqI simp: bit_simps)
    moreover have "from_be_bytes (to_be_bytes 4 v) = v" using be_bytes_fit [of v "0x100000000" 4] 5(2) by simp
    moreover have "varint_tail 0xF0 = read_be 4 0" by (simp add: varint_tail_def fun_eq_iff)
    ultimately show ?thesis using 5 up consumes_be [of "to_be_bytes 4 v" 0]
      by (simp add: write_u64_def consumes_lead from_be_bytes_def)
  next
    case 6
    have "from_be_bytes (to_be_bytes 8 v) = v" by (simp add: take_bit_word_eq_self)
    moreover have "varint_tail 0xF4 = read_be 8 0" by (simp add: varint_tail_def fun_eq_iff)
    ultimately show ?thesis using 6 up consumes_be [of "to_be_bytes 8 v" 0]
      by (simp add: write_u64_def consumes_lead from_be_bytes_def)
  qed
qed

section \<open>Locality\<close>

text \<open>A successful run moves the cursor forward and depends only on the bytes before the place where
  it stops.\<close>

definition local_at :: "'a byte_parser \<Rightarrow> u8 list \<Rightarrow> nat \<Rightarrow> bool" where
  "local_at m buf off \<longleftrightarrow> (\<forall>v r. m \<lparr>rd_buf = buf, rd_off = off\<rparr> = Some (v, r) \<longrightarrow>
     (\<exists>k. off \<le> k \<and> k \<le> length buf \<and> r = \<lparr>rd_buf = buf, rd_off = k\<rparr> \<and>
       (\<forall>buf'. take k buf' = take k buf \<longrightarrow> m \<lparr>rd_buf = buf', rd_off = off\<rparr> = Some (v, \<lparr>rd_buf = buf', rd_off = k\<rparr>))))"

definition local_parser :: "'a byte_parser \<Rightarrow> bool" where
  "local_parser m \<longleftrightarrow> (\<forall>buf off. off \<le> length buf \<longrightarrow> local_at m buf off)"

lemma local_atD:
  assumes "local_at m buf off" "m \<lparr>rd_buf = buf, rd_off = off\<rparr> = Some (v, r)"
  shows "\<exists>k. off \<le> k \<and> k \<le> length buf \<and> r = \<lparr>rd_buf = buf, rd_off = k\<rparr> \<and>
    (\<forall>buf'. take k buf' = take k buf \<longrightarrow> m \<lparr>rd_buf = buf', rd_off = off\<rparr> = Some (v, \<lparr>rd_buf = buf', rd_off = k\<rparr>))"
  using assms unfolding local_at_def by blast

lemma local_atI: "local_parser m \<Longrightarrow> off \<le> length buf \<Longrightarrow> local_at m buf off"
  by (simp add: local_parser_def)

lemma local_run:
  assumes "local_parser m" "m r = Some (v, r1)" "rd_off r \<le> length (rd_buf r)"
  shows "rd_buf r1 = rd_buf r \<and> rd_off r \<le> rd_off r1 \<and> rd_off r1 \<le> length (rd_buf r)"
proof -
  obtain buf off where r: "r = \<lparr>rd_buf = buf, rd_off = off\<rparr>" by (cases r) auto
  then show ?thesis using local_atD [OF local_atI [OF assms(1)], of off buf v r1] assms(2,3) by auto
qed

lemma local_stable: "local_parser m \<Longrightarrow> stable_parser m"
  unfolding stable_parser_def
proof (intro allI impI)
  fix buf off t v r
  assume "local_parser m" "off \<le> length buf" and run: "m \<lparr>rd_buf = buf, rd_off = off\<rparr> = Some (v, r)"
  from local_atD [OF local_atI [OF this(1,2)] run] obtain k where k: "k \<le> length buf" "r = \<lparr>rd_buf = buf, rd_off = k\<rparr>"
    "\<forall>buf'. take k buf' = take k buf \<longrightarrow> m \<lparr>rd_buf = buf', rd_off = off\<rparr> = Some (v, \<lparr>rd_buf = buf', rd_off = k\<rparr>)" by blast
  then show "\<exists>k. r = \<lparr>rd_buf = buf, rd_off = k\<rparr> \<and> k \<le> length buf \<and>
      m \<lparr>rd_buf = buf @ t, rd_off = off\<rparr> = Some (v, \<lparr>rd_buf = buf @ t, rd_off = k\<rparr>)" by simp
qed

lemma local_ret [reader_intro]: "local_parser (\<lambda>r. Some (x, r))" "local_parser (\<lambda>r. None)"
  by (auto simp: local_parser_def local_at_def)

lemma local_at_bind:
  assumes "local_at m buf off" "\<And>x j. m \<lparr>rd_buf = buf, rd_off = off\<rparr> = Some (x, \<lparr>rd_buf = buf, rd_off = j\<rparr>) \<Longrightarrow> j \<le> length buf \<Longrightarrow> local_at (g x) buf j"
  shows "local_at (\<lambda>r. do { (x, r1) \<leftarrow> m r; g x r1 }) buf off"
  unfolding local_at_def
proof (intro allI impI)
  fix v r
  assume "do { (x, r1) \<leftarrow> m \<lparr>rd_buf = buf, rd_off = off\<rparr>; g x r1 } = Some (v, r)"
  then obtain x r1 where m: "m \<lparr>rd_buf = buf, rd_off = off\<rparr> = Some (x, r1)" and g: "g x r1 = Some (v, r)"
    by (auto split: bind_splits)
  from local_atD [OF assms(1) m] obtain j where j: "off \<le> j" "j \<le> length buf" "r1 = \<lparr>rd_buf = buf, rd_off = j\<rparr>"
    "\<And>buf'. take j buf' = take j buf \<Longrightarrow> m \<lparr>rd_buf = buf', rd_off = off\<rparr> = Some (x, \<lparr>rd_buf = buf', rd_off = j\<rparr>)" by blast
  from local_atD [OF assms(2) [OF m [unfolded j(3)] j(2)] g [unfolded j(3)]] obtain k where
    k: "j \<le> k" "k \<le> length buf" "r = \<lparr>rd_buf = buf, rd_off = k\<rparr>"
    "\<And>buf'. take k buf' = take k buf \<Longrightarrow> g x \<lparr>rd_buf = buf', rd_off = j\<rparr> = Some (v, \<lparr>rd_buf = buf', rd_off = k\<rparr>)" by blast
  have "do { (x, r1) \<leftarrow> m \<lparr>rd_buf = buf', rd_off = off\<rparr>; g x r1 } = Some (v, \<lparr>rd_buf = buf', rd_off = k\<rparr>)"
    if t: "take k buf' = take k buf" for buf'
  proof -
    have "take j buf' = take j buf" using t k(1) by (metis min.absorb1 take_take)
    from j(4) [OF this] k(4) [OF t] show ?thesis by (simp only: bind.bind_lunit prod.case)
  qed
  moreover have "off \<le> k" using j(1) k(1) by simp
  ultimately show "\<exists>k. off \<le> k \<and> k \<le> length buf \<and> r = \<lparr>rd_buf = buf, rd_off = k\<rparr> \<and>
      (\<forall>buf'. take k buf' = take k buf \<longrightarrow>
        do { (x, r1) \<leftarrow> m \<lparr>rd_buf = buf', rd_off = off\<rparr>; g x r1 } = Some (v, \<lparr>rd_buf = buf', rd_off = k\<rparr>))"
    using k(2,3) by blast
qed

lemma local_bind [reader_intro]:
  "local_parser m \<Longrightarrow> (\<And>x. local_parser (g x)) \<Longrightarrow> local_parser (\<lambda>r. do { (x, r1) \<leftarrow> m r; g x r1 })"
  unfolding local_parser_def by (blast intro: local_at_bind)

lemma local_if [reader_intro]: "local_parser m \<Longrightarrow> local_parser m' \<Longrightarrow> local_parser (if c then m else m')"
  by simp

lemma take_Suc_nth: "take (Suc k) xs = take (Suc k) ys \<Longrightarrow> k < length ys \<Longrightarrow> k < length xs \<and> xs ! k = ys ! k"
proof -
  assume e: "take (Suc k) xs = take (Suc k) ys" and k: "k < length ys"
  from arg_cong [OF e, of length] k have "k < length xs" by simp
  moreover from arg_cong [OF e, of "\<lambda>zs. zs ! k"] have "xs ! k = ys ! k" by simp
  ultimately show ?thesis ..
qed

lemma local_byte [reader_intro]: "local_parser next_byte"
  unfolding local_parser_def local_at_def next_byte_def rd_u8_def
  by (auto split: if_splits dest: take_Suc_nth intro!: exI [of _ "Suc _"])

lemma local_be [reader_intro]: "local_parser (read_be n v)"
proof (induction n arbitrary: v)
  case 0
  have "read_be 0 v = (\<lambda>r. Some (v, r))" by (rule ext) simp
  then show ?case by (simp add: local_ret)
next
  case (Suc n)
  have "read_be (Suc n) v = (\<lambda>r. do { (x, r1) \<leftarrow> next_byte r; read_be n (push_bit 8 v OR ucast x) r1 })" by (rule ext) simp
  then show ?case using local_bind [OF local_byte Suc.IH] by simp
qed

text \<open>The step of the varint reader without the recursive form, which fails instead.\<close>

definition varint_flat :: "u8 \<Rightarrow> u64 byte_parser" where
  "varint_flat b0 =
      (let v0 = ucast b0 :: u64 in
       if v0 AND 0x80 = 0 then (\<lambda>r0. Some (v0, r0))
       else if v0 AND 0xC0 = 0x80 then (\<lambda>r0. do {
         (b1, r1) \<leftarrow> next_byte r0;
         Some (push_bit 8 (v0 AND 0x3F) OR ucast b1, r1) })
       else if v0 AND 0xE0 = 0xC0 then (\<lambda>r0. do {
         (b1, r1) \<leftarrow> next_byte r0;
         (b2, r2) \<leftarrow> next_byte r1;
         Some (push_bit 16 (v0 AND 0x1F) OR push_bit 8 (ucast b1) OR ucast b2, r2) })
       else if v0 AND 0xF0 = 0xE0 then (\<lambda>r0. do {
         (b1, r1) \<leftarrow> next_byte r0;
         (b2, r2) \<leftarrow> next_byte r1;
         (b3, r3) \<leftarrow> next_byte r2;
         Some (push_bit 24 (v0 AND 0x0F) OR push_bit 16 (ucast b1) OR push_bit 8 (ucast b2) OR ucast b3, r3) })
       else if v0 AND 0xFC = 0xF0 then read_be 4 0
       else if v0 AND 0xFC = 0xF4 then read_be 8 0
       else if v0 AND 0xFC = 0xF8 then (\<lambda>r0. None)
       else (\<lambda>r0. Some (0 - ((v0 AND 0x03) + 1), r0)))"

lemma local_flat: "local_parser (varint_flat b)"
  unfolding varint_flat_def Let_def by (intro reader_intro)

lemma tail_cases:
  "varint_tail b = varint_flat b \<or> varint_tail b = (\<lambda>r. do { (_, r1) \<leftarrow> read_u64 r; Some (0, r1) })"
  by (simp add: varint_tail_def varint_flat_def Let_def fun_eq_iff)

lemma local_at_u64: "off \<le> length buf \<Longrightarrow> local_at read_u64 buf off"
proof (induction "length buf - off" arbitrary: off rule: less_induct)
  case less
  have "local_at (varint_tail b) buf j"
    if "next_byte \<lparr>rd_buf = buf, rd_off = off\<rparr> = Some (b, \<lparr>rd_buf = buf, rd_off = j\<rparr>)" "j \<le> length buf" for b j
  proof -
    have "length buf - j < length buf - off" using next_byte_progress [OF that(1)] by auto
    from local_at_bind [OF less.hyps [OF this that(2)] local_atI [OF local_ret(1)], of "\<lambda>_. 0 :: u64"]
    show ?thesis using tail_cases [of b] local_atI [OF local_flat that(2), of b] by auto
  qed
  then show ?case unfolding read_u64_step by (intro local_at_bind local_atI [OF local_byte less.prems])
qed

lemma local_u64 [reader_intro]: "local_parser read_u64"
  by (simp add: local_parser_def local_at_u64)

lemma read_u64_progress:
  assumes "read_u64 r = Some (v, r1)"
  shows "rd_buf r1 = rd_buf r \<and> rd_off r < rd_off r1 \<and> rd_off r1 \<le> length (rd_buf r)"
proof -
  obtain b r0 where b: "next_byte r = Some (b, r0)" "varint_tail b r0 = Some (v, r1)"
    using assms by (auto simp: read_u64_step split: bind_splits)
  have "local_parser (varint_tail b)" using tail_cases [of b] local_flat [of b]
    local_bind [OF local_u64 local_ret(1), of "\<lambda>_. 0 :: u64"] by auto
  from local_run [OF this b(2)] next_byte_progress [OF b(1)] show ?thesis by auto
qed

section \<open>Properties\<close>

text \<open>Integers survive the wire, whatever follows. For every 64-bit value, reading its encoding returns
  the value and stops behind it; every truncation of the encoding is refused; and the encoding has
  the shortest of the six sizes that fits.\<close>

theorem varint_roundtrip:
  "read_u64 (pds_new (write_u64 v @ post)) = Some (v, \<lparr>rd_buf = write_u64 v @ post, rd_off = length (write_u64 v)\<rparr>) \<and>
   (\<forall>k<length (write_u64 v). read_u64 (pds_new (take k (write_u64 v))) = None) \<and>
   length (write_u64 v) = (if v < 2 ^ 7 then 1 else if v < 2 ^ 14 then 2 else if v < 2 ^ 21 then 3
     else if v < 2 ^ 28 then 4 else if v < 2 ^ 32 then 5 else 9)"
proof -
  have "length (write_u64 v) = (if v < 2 ^ 7 then 1 else if v < 2 ^ 14 then 2 else if v < 2 ^ 21 then 3
     else if v < 2 ^ 28 then 4 else if v < 2 ^ 32 then 5 else 9)" by (simp add: write_u64_def)
  then show ?thesis unfolding pds_new_def
    using consumes_start [OF consumes_varint] truncated_fails [OF consumes_varint local_stable [OF local_u64]] by blast
qed

theorem varint_roundtrip_witness:
  "read_u64 (pds_new (write_u64 300 @ [7])) = Some (300, \<lparr>rd_buf = write_u64 300 @ [7], rd_off = length (write_u64 300)\<rparr>) \<and>
   read_u64 (pds_new (take 1 (write_u64 300))) = None"
proof -
  have "(1::nat) < length (write_u64 300)" by (simp add: write_u64_def)
  then show ?thesis using varint_roundtrip [of 300 "[7]"] by blast
qed

end
