(* ===== verification/Voice_Packet.thy ===== *)
theory Voice_Packet
  imports Voice_Pds
begin

text \<open>
  Decrypted voice packets, \<open>crates/baston-voice/src/voice.rs\<close> with the header enumerations of
  \<open>crates/baston-voice/src/lib.rs\<close>: parsing an inbound packet far enough to find the positional block,
  and the outbound forms with the block kept, stripped or rewritten. Coordinates are only copied, so
  an \<open>f32\<close> is its bit pattern.
\<close>

section \<open>The header byte\<close>

definition PROTOCOL_VERSION :: u32 where
  "PROTOCOL_VERSION = push_bit 16 1 OR push_bit 8 4"

datatype voice_packet_type = CeltAlpha | VPing | Speex | CeltBeta | Opus

definition packet_type_from_bits :: "u8 \<Rightarrow> voice_packet_type option" where
  "packet_type_from_bits bits = (let b = bits AND 0x07 in
     if b = 0 then Some CeltAlpha else if b = 1 then Some VPing else if b = 2 then Some Speex
     else if b = 3 then Some CeltBeta else if b = 4 then Some Opus else None)"

datatype voice_target_kind = VtNormal | VtWhisper u8 | VtLoopback

definition target_from_bits :: "u8 \<Rightarrow> voice_target_kind" where
  "target_from_bits bits = (let b = bits AND 0x1F in
     if b = 0 then VtNormal else if b = 31 then VtLoopback else VtWhisper b)"

fun target_to_bits :: "voice_target_kind \<Rightarrow> u8" where
  "target_to_bits VtNormal = 0"
| "target_to_bits VtLoopback = 31"
| "target_to_bits (VtWhisper n) = n AND 0x1F"

section \<open>Packets\<close>

type_synonym f32_bits = u32

record voice_packet =
  vp_codec :: voice_packet_type
  vp_target :: voice_target_kind
  vp_payload :: "u8 list"
  vp_audio_end :: nat
  vp_position :: "(f32_bits \<times> f32_bits \<times> f32_bits) option"

definition has_position :: "voice_packet \<Rightarrow> bool" where
  "has_position p \<longleftrightarrow> vp_position p \<noteq> None"

text \<open>The slice \<open>payload[..audio_end]\<close>; \<open>None\<close> is the panic of an end past the payload.\<close>

definition without_position :: "voice_packet \<Rightarrow> u8 list option" where
  "without_position p = slice_get (vp_payload p) 0 (vp_audio_end p)"

definition position_bytes :: "f32_bits \<times> f32_bits \<times> f32_bits \<Rightarrow> u8 list" where
  "position_bytes pos = (case pos of (x, y, z) \<Rightarrow> to_be_bytes 4 x @ to_be_bytes 4 y @ to_be_bytes 4 z)"

definition with_rewritten_position :: "f32_bits \<times> f32_bits \<times> f32_bits \<Rightarrow> voice_packet \<Rightarrow> u8 list option" where
  "with_rewritten_position pos p = map_option (\<lambda>audio. audio @ position_bytes pos) (without_position p)"

definition encode_outbound :: "u64 \<Rightarrow> voice_packet \<Rightarrow> bool \<Rightarrow> u8 list option" where
  "encode_outbound session p with_pos = do {
     body \<leftarrow> (if with_pos then slice_get (vp_payload p) 1 (length (vp_payload p))
             else slice_get (vp_payload p) 1 (min (vp_audio_end p) (length (vp_payload p))));
     (case vp_payload p of
        [] \<Rightarrow> None
      | header # _ \<Rightarrow> Some (header # write_u64 session @ body)) }"

section \<open>Parsing\<close>

fun skip :: "nat \<Rightarrow> unit byte_parser" where
  "skip 0 r = Some ((), r)"
| "skip (Suc n) r = do { (_, r1) \<leftarrow> read_raw_byte r; skip n r1 }"

definition decode_position :: "u8 list \<Rightarrow> (f32_bits \<times> f32_bits \<times> f32_bits) option" where
  "decode_position xs =
     (if length xs \<noteq> 12 then None
      else Some (from_be_bytes (take 4 xs), from_be_bytes (take 4 (drop 4 xs)), from_be_bytes (take 4 (drop 8 xs))))"

lemma local_skip [reader_intro]: "local_parser (skip n)"
proof (induction n)
  case 0
  have "skip 0 = (\<lambda>r. Some ((), r))" by (rule ext) simp
  then show ?case by (simp add: local_ret)
next
  case (Suc n)
  have "skip (Suc n) = (\<lambda>r. do { (_, r1) \<leftarrow> next_byte r; skip n r1 })" by (rule ext) (simp add: read_raw_byte_def)
  then show ?case using local_bind [OF local_byte Suc.IH] by simp
qed

lemma frame_progress:
  assumes "read_u64 r = Some (v, r1)" "skip n r1 = Some (u, r2)"
  shows "rd_buf r2 = rd_buf r \<and> rd_off r < rd_off r2 \<and> rd_off r2 \<le> length (rd_buf r)"
proof -
  note p = read_u64_progress [OF assms(1)]
  from local_run [OF local_skip assms(2)] p show ?thesis by auto
qed

text \<open>CELT and Speex: a sequence of frames, each with its length and a continuation bit.\<close>

function celt_frames :: "unit byte_parser" where
  "celt_frames r = (case read_u64 r of
     None \<Rightarrow> None
   | Some (v, r1) \<Rightarrow>
       let h = ucast v :: u8 in
       (case skip (unat (h AND 0x7F)) r1 of
          None \<Rightarrow> None
        | Some (_, r2) \<Rightarrow> if h AND 0x80 = 0 then Some ((), r2) else celt_frames r2))"
  by pat_completeness auto
termination
  by (relation "measure (\<lambda>r. length (rd_buf r) - rd_off r)")
    (use frame_progress in fastforce)+

declare celt_frames.simps [simp del]

definition parse :: "u8 list \<Rightarrow> voice_packet option" where
  "parse bytes = (case bytes of
     [] \<Rightarrow> None
   | header # body \<Rightarrow> do {
       codec \<leftarrow> packet_type_from_bits (drop_bit 5 header);
       let target = target_from_bits (header AND 0x1F);
       (_, r) \<leftarrow> read_u64 (pds_new body);
       (case codec of
          VPing \<Rightarrow> Some \<lparr>vp_codec = codec, vp_target = target, vp_payload = bytes,
             vp_audio_end = min (1 + pds_offset r) (length bytes), vp_position = None\<rparr>
        | _ \<Rightarrow> do {
            (_, r1) \<leftarrow> (if codec = Opus
               then do { (hdr, r1) \<leftarrow> read_u64 r; skip (unat (hdr AND 0x1FFF)) r1 }
               else celt_frames r);
            let audio_end = 1 + pds_offset r1;
            Some \<lparr>vp_codec = codec, vp_target = target, vp_payload = bytes, vp_audio_end = audio_end,
              vp_position = decode_position (drop (min audio_end (length bytes)) bytes)\<rparr> }) })"

section \<open>What the parser guarantees\<close>

definition frame_header :: "u8 byte_parser" where
  "frame_header = (\<lambda>r. do { (v, r1) \<leftarrow> read_u64 r; (\<lambda>r. do { (_, r2) \<leftarrow> skip (unat ((ucast v :: u8) AND 0x7F)) r; Some (ucast v, r2) }) r1 })"

lemma celt_step:
  "celt_frames = (\<lambda>r. do { (h, r1) \<leftarrow> frame_header r; (if h AND 0x80 = 0 then (\<lambda>r. Some ((), r)) else celt_frames) r1 })"
proof (rule ext)
  fix r
  show "celt_frames r = do { (h, r1) \<leftarrow> frame_header r; (if h AND 0x80 = 0 then (\<lambda>r. Some ((), r)) else celt_frames) r1 }"
    by (subst celt_frames.simps) (auto simp: frame_header_def Let_def split: option.split bind_split)
qed

lemma local_header [reader_intro]: "local_parser frame_header"
  unfolding frame_header_def by (intro reader_intro)

lemma local_at_celt: "off \<le> length buf \<Longrightarrow> local_at celt_frames buf off"
proof (induction "length buf - off" arbitrary: off rule: less_induct)
  case less
  have "local_at (if h AND 0x80 = 0 then (\<lambda>r. Some ((), r)) else celt_frames) buf j"
    if "frame_header \<lparr>rd_buf = buf, rd_off = off\<rparr> = Some (h, \<lparr>rd_buf = buf, rd_off = j\<rparr>)" "j \<le> length buf" for h j
  proof -
    obtain v r1 u where "read_u64 \<lparr>rd_buf = buf, rd_off = off\<rparr> = Some (v, r1)"
      "skip (unat ((ucast v :: u8) AND 0x7F)) r1 = Some (u, \<lparr>rd_buf = buf, rd_off = j\<rparr>)"
      using \<open>frame_header _ = _\<close> by (auto simp: frame_header_def split: bind_splits)
    from frame_progress [OF this] have "length buf - j < length buf - off" by auto
    from less.hyps [OF this that(2)] show ?thesis using local_atI [OF local_ret(1) [of "()"] that(2)] by simp
  qed
  then show ?case by (subst celt_step) (intro local_at_bind local_atI [OF local_header less.prems])
qed

lemma local_celt [reader_intro]: "local_parser celt_frames"
  by (simp add: local_parser_def local_at_celt)

definition audio_frames :: "voice_packet_type \<Rightarrow> unit byte_parser" where
  "audio_frames codec = (\<lambda>r. do { (_, r1) \<leftarrow> read_u64 r;
     (if codec = Opus then (\<lambda>r. do { (hdr, r1) \<leftarrow> read_u64 r; skip (unat (hdr AND 0x1FFF)) r1 }) else celt_frames) r1 })"

lemma local_audio: "local_parser (audio_frames codec)"
  unfolding audio_frames_def by (intro reader_intro)

lemma parse_cases:
  assumes "parse bytes = Some p"
  obtains (ping) header body where "bytes = header # body" "packet_type_from_bits (drop_bit 5 header) = Some VPing"
      "vp_codec p = VPing" "vp_payload p = bytes" "1 < vp_audio_end p" "vp_audio_end p \<le> length bytes" "vp_position p = None"
  | (voice) header body codec k where "bytes = header # body" "packet_type_from_bits (drop_bit 5 header) = Some codec" "codec \<noteq> VPing"
      "audio_frames codec (pds_new body) = Some ((), \<lparr>rd_buf = body, rd_off = k\<rparr>)" "k \<le> length body"
      "\<And>t. audio_frames codec (pds_new (take k body @ t)) = Some ((), \<lparr>rd_buf = take k body @ t, rd_off = k\<rparr>)"
      "p = \<lparr>vp_codec = codec, vp_target = target_from_bits (header AND 0x1F), vp_payload = bytes, vp_audio_end = Suc k,
        vp_position = decode_position (drop k body)\<rparr>"
proof -
  obtain header body codec v r where b: "bytes = header # body" "packet_type_from_bits (drop_bit 5 header) = Some codec"
    "read_u64 (pds_new body) = Some (v, r)"
    using assms by (auto simp: parse_def Let_def split: list.splits bind_splits)
  note pr = read_u64_progress [OF b(3), unfolded pds_new_def rd_new_def]
  show ?thesis
  proof (cases "codec = VPing")
    case True
    then show ?thesis using assms b pr by (intro ping) (auto simp: parse_def pds_offset_def)
  next
    case False
    then obtain r1 where a: "audio_frames codec (pds_new body) = Some ((), r1)"
      and p: "p = \<lparr>vp_codec = codec, vp_target = target_from_bits (header AND 0x1F), vp_payload = bytes,
        vp_audio_end = Suc (rd_off r1), vp_position = decode_position (drop (min (Suc (rd_off r1)) (length bytes)) bytes)\<rparr>"
      using assms b by (auto simp: parse_def audio_frames_def pds_offset_def Let_def
          split: voice_packet_type.splits bind_splits if_splits)
    from local_atD [OF local_atI [OF local_audio], of 0 body codec "()" r1] a obtain k where
      k: "k \<le> length body" "r1 = \<lparr>rd_buf = body, rd_off = k\<rparr>"
      "\<forall>buf'. take k buf' = take k body \<longrightarrow> audio_frames codec \<lparr>rd_buf = buf', rd_off = 0\<rparr> = Some ((), \<lparr>rd_buf = buf', rd_off = k\<rparr>)"
      by (auto simp: pds_new_def rd_new_def)
    have "audio_frames codec (pds_new (take k body @ t)) = Some ((), \<lparr>rd_buf = take k body @ t, rd_off = k\<rparr>)" for t
      using k(1) spec [OF k(3), of "take k body @ t"] by (simp add: pds_new_def rd_new_def min_def)
    then show ?thesis using b(1,2) False a k p by (intro voice) (auto simp: min_def)
  qed
qed

lemma bit_beyond: "8 \<le> i \<Longrightarrow> bit (b::u8) i \<longleftrightarrow> False"
  using bit_imp_le_length [of b i] by auto

lemma be_word_bytes:
  "length bs = 4 \<Longrightarrow> to_be_bytes 4 (from_be_bytes bs :: u32) = bs"
proof -
  assume "length bs = 4"
  then obtain a b c d where "bs = [a, b, c, d]" by (auto simp: eval_nat_numeral length_Suc_conv)
  then show ?thesis unfolding be_bytes_split from_be_bytes_def
    by (auto intro!: bit_word_eqI simp: bit_simps bit_beyond)
qed

lemma position_roundtrip:
  "decode_position (position_bytes pos) = Some pos"
  "decode_position xs = Some pos' \<Longrightarrow> length xs = 12 \<and> position_bytes pos' = xs"
proof -
  have full: "from_be_bytes (to_be_bytes 4 w) = w" for w :: u32 by (simp add: take_bit_word_eq_self)
  show "decode_position (position_bytes pos) = Some pos"
    by (cases pos) (simp add: decode_position_def position_bytes_def full del: from_to_be_bytes)
  assume d: "decode_position xs = Some pos'"
  then have l: "length xs = 12" by (simp add: decode_position_def split: if_splits)
  have "take 4 xs @ take 4 (drop 4 xs) @ take 4 (drop 8 xs) = xs"
    using l take_add [of 4 4 xs] take_add [of 8 4 xs] by simp
  then show "length xs = 12 \<and> position_bytes pos' = xs"
    using d l by (auto simp: decode_position_def position_bytes_def be_word_bytes)
qed

lemma parse_voice:
  assumes "packet_type_from_bits (drop_bit 5 header) = Some codec" "codec \<noteq> VPing"
    and "audio_frames codec (pds_new body) = Some ((), \<lparr>rd_buf = body, rd_off = k\<rparr>)"
  shows "parse (header # body) = Some \<lparr>vp_codec = codec, vp_target = target_from_bits (header AND 0x1F),
    vp_payload = header # body, vp_audio_end = Suc k, vp_position = decode_position (drop (min k (length body)) body)\<rparr>"
proof -
  obtain v r where r: "read_u64 (pds_new body) = Some (v, r)"
    "(if codec = Opus then do { (hdr, r1) \<leftarrow> read_u64 r; skip (unat (hdr AND 0x1FFF)) r1 } else celt_frames r) =
      Some ((), \<lparr>rd_buf = body, rd_off = k\<rparr>)"
    using assms(3) by (auto simp: audio_frames_def split: bind_splits if_splits)
  show ?thesis using assms(1,2) r(2) unfolding parse_def list.case
    by (cases codec) (simp_all add: r(1) pds_offset_def Let_def del: bind_assoc)
qed

text \<open>C38. Forwarding a voice packet. Whatever bytes a client sends as a voice packet, when they parse, the
  payload splits into the audio part and the rest; no slice of the forwarding code panics; the
  outbound packet is the header byte, the speaker's session and the body, with the rest kept or cut
  off; a position is reported only for a rest of exactly its twelve bytes; and a packet whose
  position was rewritten parses to the same packet with the new position.\<close>

theorem voice_forwarding:
  assumes "parse bytes = Some p"
  shows "\<exists>audio rest. bytes = audio @ rest \<and> audio \<noteq> [] \<and> without_position p = Some audio \<and>
    encode_outbound session p True = Some (hd bytes # write_u64 session @ tl bytes) \<and>
    encode_outbound session p False = Some (hd bytes # write_u64 session @ tl audio) \<and>
    (\<forall>pos. vp_position p = Some pos \<longrightarrow> rest = position_bytes pos \<and> length rest = 12) \<and>
    (vp_codec p \<noteq> VPing \<longrightarrow> (\<exists>out. with_rewritten_position pos p = Some out \<and>
       parse out = Some (p\<lparr>vp_payload := out, vp_position := Some pos\<rparr>)))"
  using assms
proof (cases rule: parse_cases)
  case (ping header body)
  then show ?thesis
    by (intro exI [of _ "take (vp_audio_end p) bytes"] exI [of _ "drop (vp_audio_end p) bytes"])
      (auto simp: without_position_def encode_outbound_def slice_get_def drop_Cons' take_Cons' min_def)
next
  case (voice header body codec k)
  let ?out = "header # take k body @ position_bytes pos"
  have "parse ?out = Some (p\<lparr>vp_payload := ?out, vp_position := Some pos\<rparr>)"
    using parse_voice [OF voice(2,3,6)] voice(5) by (simp add: voice(1,7) min_def position_roundtrip(1))
  moreover have "without_position p = Some (header # take k body)" using voice(5) by (simp add: without_position_def slice_get_def voice(1,7))
  ultimately have "\<exists>out. with_rewritten_position pos p = Some out \<and> parse out = Some (p\<lparr>vp_payload := out, vp_position := Some pos\<rparr>)"
    by (simp add: with_rewritten_position_def)
  moreover have "encode_outbound session p True = Some (header # write_u64 session @ body)"
    "encode_outbound session p False = Some (header # write_u64 session @ take k body)"
    using voice(5) by (simp_all add: encode_outbound_def slice_get_def voice(1,7))
  moreover have "\<forall>pos. vp_position p = Some pos \<longrightarrow> drop k body = position_bytes pos \<and> length (drop k body) = 12"
    using position_roundtrip(2) [of "drop k body"] unfolding voice(7) voice_packet.select_convs by metis
  ultimately show ?thesis using \<open>without_position p = _\<close>
    by (intro exI [of _ "header # take k body"] exI [of _ "drop k body"]) (simp add: voice(1))
qed

theorem voice_forwarding_witness:
  "\<exists>p out. parse [0x80, 7, 2, 0xAA, 0xBB] = Some p \<and> with_rewritten_position (1, 2, 3) p = Some out \<and>
     parse out = Some (p\<lparr>vp_payload := out, vp_position := Some (1, 2, 3)\<rparr>)"
proof -
  have "map_option vp_codec (parse [0x80, 7, 2, 0xAA, 0xBB]) = Some Opus" by code_simp
  then obtain p where p: "parse [0x80, 7, 2, 0xAA, 0xBB] = Some p" "vp_codec p = Opus" by blast
  from voice_forwarding [OF p(1), of 9 "(1, 2, 3)"] p(2) show ?thesis using p(1) by auto
qed

end
