(* ===== verification/Voice_State.thy ===== *)
theory Voice_State
  imports Voice_Packet "HOL-Library.AList"
begin

text \<open>
  The voice server's bookkeeping: whisper targets (\<open>crates/baston-voice/src/target.rs\<close>), sessions and
  the parsing of user names (\<open>session.rs\<close>), channels (\<open>channel.rs\<close>). A \<open>BTreeMap\<close> is an association list
  in increasing key order, a \<open>BTreeSet\<close> an increasing list, a \<open>HashMap\<close> an association list with distinct
  keys.
\<close>

section \<open>Ordered maps\<close>

fun bt_insert :: "'k::linorder \<Rightarrow> 'v \<Rightarrow> ('k \<times> 'v) list \<Rightarrow> ('k \<times> 'v) list" where
  "bt_insert k v [] = [(k, v)]"
| "bt_insert k v ((k', v') # m) =
     (if k < k' then (k, v) # (k', v') # m else if k = k' then (k, v) # m else (k', v') # bt_insert k v m)"

definition bt_remove :: "'k \<Rightarrow> ('k \<times> 'v) list \<Rightarrow> ('k \<times> 'v) list" where
  "bt_remove k m = filter (\<lambda>(k', v). k' \<noteq> k) m"

definition bt_wf :: "('k::linorder \<times> 'v) list \<Rightarrow> bool" where
  "bt_wf m \<longleftrightarrow> sorted_wrt (<) (map fst m)"

lemma bt_wf_Nil [simp]: "bt_wf []"
  by (simp add: bt_wf_def)

lemma bt_wf_Cons: "bt_wf ((k, v) # m) \<longleftrightarrow> (\<forall>k'\<in>fst ` set m. k < k') \<and> bt_wf m"
  by (simp add: bt_wf_def)

lemma keys_bt_insert [simp]: "fst ` set (bt_insert k v m) = insert k (fst ` set m)"
  by (induction m rule: bt_insert.induct) auto

lemma bt_wf_insert [intro]: "bt_wf m \<Longrightarrow> bt_wf (bt_insert k v m)"
  by (induction k v m rule: bt_insert.induct) (auto simp: bt_wf_Cons)

lemma map_of_bt_insert [simp]: "bt_wf m \<Longrightarrow> map_of (bt_insert k v m) = (map_of m)(k \<mapsto> v)"
  by (induction k v m rule: bt_insert.induct) (auto simp: bt_wf_Cons fun_eq_iff)

lemma bt_wf_filter [intro]: "bt_wf m \<Longrightarrow> bt_wf (filter P m)"
  by (induction m) (auto simp: bt_wf_Cons)

lemma bt_wf_remove [intro]: "bt_wf m \<Longrightarrow> bt_wf (bt_remove k m)"
  by (simp add: bt_remove_def bt_wf_filter)

lemma map_of_bt_remove [simp]: "map_of (bt_remove k m) = (map_of m)(k := None)"
  by (induction m) (auto simp: bt_remove_def)

lemma keys_map_entry [simp]: "map fst (AList.map_entry k f m) = map fst m"
  by (induction m) auto

lemma bt_wf_map_entry [intro]: "bt_wf m \<Longrightarrow> bt_wf (AList.map_entry k f m)"
  by (simp add: bt_wf_def)

lemma bt_wf_distinct [dest]: "bt_wf m \<Longrightarrow> distinct (map fst m)"
  by (induction m) (auto simp: bt_wf_def)

section \<open>Decimal numbers in texts\<close>

text \<open>\<open>str::parse::<u32>\<close>: an optional plus sign and at least one digit, below two to the thirty-two.\<close>

definition is_digit :: "char \<Rightarrow> bool" where
  "is_digit c \<longleftrightarrow> 48 \<le> (of_char c :: nat) \<and> (of_char c :: nat) \<le> 57"

definition digit_value :: "char \<Rightarrow> int" where
  "digit_value c = int (of_char c) - 48"

definition parse_u32 :: "string \<Rightarrow> u32 option" where
  "parse_u32 s =
     (let ds = (case s of [] \<Rightarrow> [] | c # r \<Rightarrow> if c = CHR ''+'' then r else s) in
      if ds = [] \<or> \<not> list_all is_digit ds then None
      else let v = foldl (\<lambda>v c. 10 * v + digit_value c) 0 ds in if v < 4294967296 then Some (of_int v) else None)"

text \<open>\<open>{id}\<close> of a format string.\<close>

fun show_nat :: "nat \<Rightarrow> string" where
  "show_nat n = (if n < 10 then [char_of (48 + n)] else show_nat (n div 10) @ [char_of (48 + n mod 10)])"

declare show_nat.simps [simp del]

section \<open>Whisper targets\<close>

record channel_target =
  ct_channel_id :: u32
  ct_links :: bool
  ct_children :: bool

record voice_target =
  vt_sessions :: "u32 list"
  vt_channels :: "channel_target list"

type_synonym target_registry = "(u8 \<times> voice_target) list"

definition MIN_TARGET_ID :: u8 where "MIN_TARGET_ID = 1"
definition MAX_TARGET_ID :: u8 where "MAX_TARGET_ID = 30"

definition tr_set :: "u8 \<Rightarrow> voice_target \<Rightarrow> target_registry \<Rightarrow> target_registry" where
  "tr_set i t r = (if MIN_TARGET_ID \<le> i \<and> i \<le> MAX_TARGET_ID then bt_insert i t r else r)"

definition tr_clear :: "u8 \<Rightarrow> target_registry \<Rightarrow> target_registry" where
  "tr_clear i r = bt_remove i r"

definition tr_clear_all :: "target_registry \<Rightarrow> target_registry" where
  "tr_clear_all r = []"

definition tr_get :: "u8 \<Rightarrow> target_registry \<Rightarrow> voice_target option" where
  "tr_get i r = map_of r i"

section \<open>Sessions\<close>

text \<open>A user name \<open>[netId]\<close>, with anything after the bracket.\<close>

definition parse_netid :: "string \<Rightarrow> u32 option" where
  "parse_netid username =
     (case username of
        [] \<Rightarrow> None
      | c # inner \<Rightarrow> if c \<noteq> CHR ''['' then None
                   else if CHR '']'' \<in> set inner then parse_u32 (takeWhile (\<lambda>c. c \<noteq> CHR '']'') inner) else None)"

record voice_session =
  vs_id :: u32
  vs_name :: string
  vs_mute :: bool
  vs_self_deaf :: bool
  vs_deaf :: bool
  vs_context :: "u8 list option"
  vs_targets :: target_registry

definition vs_new :: "u32 \<Rightarrow> string \<Rightarrow> voice_session" where
  "vs_new i name = \<lparr>vs_id = i, vs_name = name, vs_mute = False, vs_self_deaf = False, vs_deaf = False,
     vs_context = None, vs_targets = []\<rparr>"

definition can_speak :: "voice_session \<Rightarrow> bool" where
  "can_speak s \<longleftrightarrow> \<not> vs_mute s"

definition can_hear :: "voice_session \<Rightarrow> bool" where
  "can_hear s \<longleftrightarrow> \<not> vs_deaf s \<and> \<not> vs_self_deaf s"

type_synonym session_registry = "(u32 \<times> voice_session) list"

definition sr_insert :: "u32 \<Rightarrow> string \<Rightarrow> session_registry \<Rightarrow> session_registry" where
  "sr_insert netid name r = (if map_of r netid = None then AList.update netid (vs_new netid name) r else r)"

definition sr_get :: "u32 \<Rightarrow> session_registry \<Rightarrow> voice_session option" where
  "sr_get i r = map_of r i"

definition sr_update :: "u32 \<Rightarrow> (voice_session \<Rightarrow> voice_session) \<Rightarrow> session_registry \<Rightarrow> session_registry" where
  "sr_update i f r = AList.map_entry i f r"

definition sr_remove :: "u32 \<Rightarrow> session_registry \<Rightarrow> voice_session option \<times> session_registry" where
  "sr_remove i r = (map_of r i, AList.delete i r)"

definition sr_len :: "session_registry \<Rightarrow> nat" where
  "sr_len r = length r"

definition sr_is_empty :: "session_registry \<Rightarrow> bool" where
  "sr_is_empty r \<longleftrightarrow> r = []"

definition contexts_match :: "u32 \<Rightarrow> u32 \<Rightarrow> session_registry \<Rightarrow> bool" where
  "contexts_match a b r =
     (case (sr_get a r, sr_get b r) of
        (Some sa, Some sb) \<Rightarrow> (case (vs_context sa, vs_context sb) of (Some ca, Some cb) \<Rightarrow> ca = cb | _ \<Rightarrow> False)
      | _ \<Rightarrow> False)"

section \<open>Channels\<close>

definition ROOT_CHANNEL :: u32 where "ROOT_CHANNEL = 0"

record channel =
  ch_id :: u32
  ch_name :: string
  ch_parent :: u32
  ch_temporary :: bool
  ch_members :: "u32 list"
  ch_listeners :: "u32 list"

type_synonym channel_store = "(u32 \<times> channel) list"

definition new_channel :: "u32 \<Rightarrow> string \<Rightarrow> bool \<Rightarrow> channel" where
  "new_channel i name temporary = \<lparr>ch_id = i, ch_name = name, ch_parent = ROOT_CHANNEL,
     ch_temporary = temporary, ch_members = [], ch_listeners = []\<rparr>"

definition game_channel_name :: "u32 \<Rightarrow> string" where
  "game_channel_name i = ''Game Channel '' @ show_nat (unat i)"

definition cst_new :: channel_store where
  "cst_new = bt_insert ROOT_CHANNEL (new_channel ROOT_CHANNEL ''Root'' False) []"

definition or_insert_channel :: "u32 \<Rightarrow> bool \<Rightarrow> channel_store \<Rightarrow> channel_store" where
  "or_insert_channel i temporary s =
     (if map_of s i = None then bt_insert i (new_channel i (game_channel_name i) temporary) s else s)"

definition create_game_channel :: "u32 \<Rightarrow> channel_store \<Rightarrow> channel_store" where
  "create_game_channel i s = or_insert_channel i False s"

definition channel_exists :: "u32 \<Rightarrow> channel_store \<Rightarrow> bool" where
  "channel_exists i s \<longleftrightarrow> map_of s i \<noteq> None"

definition cst_get :: "u32 \<Rightarrow> channel_store \<Rightarrow> channel option" where
  "cst_get i s = map_of s i"

definition cst_iter :: "channel_store \<Rightarrow> channel list" where
  "cst_iter s = map snd s"

definition gc_temporary :: "u32 \<Rightarrow> channel_store \<Rightarrow> channel_store" where
  "gc_temporary i s =
     (if i = ROOT_CHANNEL then s
      else case map_of s i of
             None \<Rightarrow> s
           | Some ch \<Rightarrow> if ch_temporary ch \<and> ch_members ch = [] \<and> ch_listeners ch = [] then bt_remove i s else s)"

definition leave :: "u32 \<Rightarrow> channel_store \<Rightarrow> u32 option \<times> channel_store" where
  "leave session s =
     (case find (\<lambda>(k, ch). session \<in> set (ch_members ch)) s of
        None \<Rightarrow> (None, s)
      | Some (k, ch) \<Rightarrow>
          (Some (ch_id ch), gc_temporary (ch_id ch)
             (AList.map_entry k (\<lambda>ch. ch\<lparr>ch_members := removeAll session (ch_members ch)\<rparr>) s)))"

definition join :: "u32 \<Rightarrow> u32 \<Rightarrow> channel_store \<Rightarrow> u32 option \<times> channel_store" where
  "join session channel_id s =
     (let (previous, s1) = leave session s;
          s2 = or_insert_channel channel_id True s1
      in (previous, AList.map_entry channel_id (\<lambda>ch. ch\<lparr>ch_members := insort_insert session (ch_members ch)\<rparr>) s2))"

definition set_listening :: "u32 \<Rightarrow> u32 \<Rightarrow> bool \<Rightarrow> channel_store \<Rightarrow> channel_store" where
  "set_listening session channel_id listening s =
     AList.map_entry channel_id (\<lambda>ch. ch\<lparr>ch_listeners :=
       (if listening then insort_insert session (ch_listeners ch) else removeAll session (ch_listeners ch))\<rparr>) s"

definition drop_session :: "u32 \<Rightarrow> channel_store \<Rightarrow> channel_store" where
  "drop_session session s =
     map (\<lambda>(k, ch). (k, ch\<lparr>ch_listeners := removeAll session (ch_listeners ch)\<rparr>)) (snd (leave session s))"

section \<open>Each session is in at most one channel\<close>

definition in_channel :: "channel_store \<Rightarrow> u32 \<Rightarrow> u32 \<Rightarrow> bool" where
  "in_channel s k x \<longleftrightarrow> (\<exists>ch. map_of s k = Some ch \<and> x \<in> set (ch_members ch))"

text \<open>The channel of a session: the abstract view of the store.\<close>

definition location :: "channel_store \<Rightarrow> u32 \<Rightarrow> u32 option" where
  "location s x = map_option fst (find (\<lambda>(k, ch). x \<in> set (ch_members ch)) s)"

definition channel_ok :: "u32 \<Rightarrow> channel \<Rightarrow> bool" where
  "channel_ok k ch \<longleftrightarrow> ch_id ch = k \<and> sorted (ch_members ch) \<and> distinct (ch_members ch) \<and>
     sorted (ch_listeners ch) \<and> distinct (ch_listeners ch)"

definition store_shape :: "channel_store \<Rightarrow> bool" where
  "store_shape s \<longleftrightarrow> bt_wf s \<and> (\<forall>k ch. map_of s k = Some ch \<longrightarrow> channel_ok k ch) \<and>
     (\<exists>root. map_of s ROOT_CHANNEL = Some root \<and> \<not> ch_temporary root)"

definition channels_wf :: "channel_store \<Rightarrow> bool" where
  "channels_wf s \<longleftrightarrow> store_shape s \<and> (\<forall>a b x. in_channel s a x \<longrightarrow> in_channel s b x \<longrightarrow> a = b)"

lemma find_keyed:
  assumes "distinct (map fst m)"
  shows "find (\<lambda>(k, v). P k v) m = Some (k, v) \<Longrightarrow> map_of m k = Some v \<and> P k v"
    and "find (\<lambda>(k, v). P k v) m = None \<longleftrightarrow> (\<forall>k v. map_of m k = Some v \<longrightarrow> \<not> P k v)"
  using assms by (auto simp: find_Some_iff find_None_iff intro!: map_of_is_SomeI dest: map_of_SomeD) (metis nth_mem)

lemma location_iff:
  assumes "channels_wf s"
  shows "location s x = Some k \<longleftrightarrow> in_channel s k x"
proof -
  have d: "distinct (map fst s)" using assms by (auto simp: channels_wf_def store_shape_def)
  show ?thesis
  proof (cases "find (\<lambda>(k, ch). x \<in> set (ch_members ch)) s")
    case None
    then show ?thesis using find_keyed(2) [OF d, of "\<lambda>k ch. x \<in> set (ch_members ch)"]
      by (auto simp: location_def in_channel_def)
  next
    case (Some kc)
    obtain k' ch where kc: "kc = (k', ch)" by force
    have "in_channel s k' x"
      using find_keyed(1) [OF d, of "\<lambda>k ch. x \<in> set (ch_members ch)"] Some kc by (auto simp: in_channel_def)
    then show ?thesis using Some kc assms by (auto simp: location_def channels_wf_def)
  qed
qed

lemma location_ofI:
  assumes "store_shape s" "\<And>x k. in_channel s k x \<longleftrightarrow> f x = Some k"
  shows "channels_wf s" "location s = f"
proof -
  show *: "channels_wf s" using assms by (auto simp: channels_wf_def)
  show "location s = f"
  proof
    fix x
    have "location s x = Some k \<longleftrightarrow> f x = Some k" for k using location_iff [OF *, of x k] assms(2) [of k x] by blast
    then show "location s x = f x" by (metis option.exhaust)
  qed
qed

lemma in_channel_map_entry:
  "in_channel (AList.map_entry k f s) a x \<longleftrightarrow>
     (if a = k then \<exists>ch. map_of s k = Some ch \<and> x \<in> set (ch_members (f ch)) else in_channel s a x)"
  by (auto simp: in_channel_def map_of_map_entry split: option.splits)

lemma store_shape_map_entry:
  "store_shape s \<Longrightarrow> (\<And>ch. channel_ok k ch \<Longrightarrow> channel_ok k (f ch)) \<Longrightarrow> (\<And>ch. ch_temporary (f ch) = ch_temporary ch) \<Longrightarrow>
   store_shape (AList.map_entry k f s)"
  by (auto simp: store_shape_def map_of_map_entry split: option.splits if_splits)

lemma in_channel_gc [simp]: "in_channel (gc_temporary k s) = in_channel s"
  by (auto simp: fun_eq_iff in_channel_def gc_temporary_def split: option.splits)

lemma store_shape_gc: "store_shape s \<Longrightarrow> store_shape (gc_temporary k s)"
  by (auto simp: store_shape_def gc_temporary_def split: option.splits)

lemma in_channel_or_insert: "store_shape s \<Longrightarrow> in_channel (or_insert_channel k t s) = in_channel s"
  by (auto simp: fun_eq_iff in_channel_def or_insert_channel_def new_channel_def store_shape_def)

lemma store_shape_or_insert: "store_shape s \<Longrightarrow> store_shape (or_insert_channel k t s)"
  by (auto simp: store_shape_def or_insert_channel_def new_channel_def channel_ok_def)

lemma or_insert_present: "store_shape s \<Longrightarrow> map_of (or_insert_channel k t s) k \<noteq> None"
  by (auto simp: store_shape_def or_insert_channel_def)

lemma channel_ok_members:
  "channel_ok k ch \<Longrightarrow> channel_ok k (ch\<lparr>ch_members := removeAll x (ch_members ch)\<rparr>)"
  "channel_ok k ch \<Longrightarrow> channel_ok k (ch\<lparr>ch_members := insort_insert x (ch_members ch)\<rparr>)"
  "channel_ok k ch \<Longrightarrow> channel_ok k (ch\<lparr>ch_listeners := removeAll x (ch_listeners ch)\<rparr>)"
  "channel_ok k ch \<Longrightarrow> channel_ok k (ch\<lparr>ch_listeners := insort_insert x (ch_listeners ch)\<rparr>)"
  by (simp_all add: channel_ok_def sorted_insort_insert distinct_insort_insert removeAll_filter_not_eq
      sorted_filter [where f = "\<lambda>x. x", simplified])

lemma leave_refines:
  assumes wf: "channels_wf s"
  shows "fst (leave x s) = location s x" "channels_wf (snd (leave x s))"
    "location (snd (leave x s)) = (location s)(x := None)"
proof -
  have shape: "store_shape s" using wf by (simp add: channels_wf_def)
  then have d: "distinct (map fst s)" by (auto simp: store_shape_def)
  have *: "fst (leave x s) = location s x \<and> channels_wf (snd (leave x s)) \<and>
      location (snd (leave x s)) = (location s)(x := None)"
  proof (cases "find (\<lambda>(k, ch). x \<in> set (ch_members ch)) s")
    case None
    then show ?thesis using wf by (auto simp: leave_def location_def fun_eq_iff)
  next
    case (Some kc)
    obtain k ch where kc: "kc = (k, ch)" by force
    then have ch: "map_of s k = Some ch" "x \<in> set (ch_members ch)" and k: "location s x = Some k"
      using find_keyed(1) [OF d, of "\<lambda>k ch. x \<in> set (ch_members ch)" k ch] Some by (auto simp: location_def)
    have i: "ch_id ch = k" using shape ch by (auto simp: store_shape_def channel_ok_def)
    let ?s = "AList.map_entry k (\<lambda>ch. ch\<lparr>ch_members := removeAll x (ch_members ch)\<rparr>) s"
    have post: "leave x s = (Some k, gc_temporary k ?s)" by (simp add: leave_def Some kc i)
    have "store_shape (gc_temporary k ?s)"
      by (intro store_shape_gc store_shape_map_entry shape channel_ok_members) simp_all
    moreover have "in_channel (gc_temporary k ?s) b y \<longleftrightarrow> ((location s)(x := None)) y = Some b" for b y
    proof (cases "b = k")
      case True
      then show ?thesis using location_iff [OF wf, of y k]
        unfolding in_channel_gc in_channel_map_entry by (auto simp: in_channel_def)
    next
      case False
      then show ?thesis using location_iff [OF wf, of y b] k by (auto simp: in_channel_map_entry)
    qed
    ultimately show ?thesis using location_ofI [of "gc_temporary k ?s" "(location s)(x := None)"] post k by simp
  qed
  then show "fst (leave x s) = location s x" "channels_wf (snd (leave x s))"
    "location (snd (leave x s)) = (location s)(x := None)" by blast+
qed

lemma join_refines:
  assumes wf: "channels_wf s"
  shows "fst (join x k s) = location s x" "channels_wf (snd (join x k s))"
    "location (snd (join x k s)) = (location s)(x \<mapsto> k)"
proof -
  define s1 where "s1 = snd (leave x s)"
  define s2 where "s2 = or_insert_channel k True s1"
  let ?s = "AList.map_entry k (\<lambda>ch. ch\<lparr>ch_members := insort_insert x (ch_members ch)\<rparr>) s2"
  have join: "join x k s = (location s x, ?s)"
    using leave_refines(1) [OF wf, of x] by (simp add: join_def s2_def s1_def case_prod_beta Let_def)
  have s1: "channels_wf s1" "location s1 = (location s)(x := None)" using leave_refines [OF wf] by (simp_all add: s1_def)
  then have shape: "store_shape s2" "in_channel s2 = in_channel s1"
    using store_shape_or_insert in_channel_or_insert by (auto simp: s2_def channels_wf_def)
  have "map_of s2 k \<noteq> None" using s1 or_insert_present by (auto simp: s2_def channels_wf_def)
  then have "in_channel ?s b y \<longleftrightarrow> ((location s)(x \<mapsto> k)) y = Some b" for b y
    using location_iff [OF s1(1), of y b, folded shape(2)] unfolding in_channel_map_entry
    by (cases "b = k") (auto simp: s1(2) set_insort_insert in_channel_def)
  moreover have "store_shape ?s" by (intro store_shape_map_entry shape channel_ok_members) simp_all
  ultimately show "fst (join x k s) = location s x" "channels_wf (snd (join x k s))"
    "location (snd (join x k s)) = (location s)(x \<mapsto> k)"
    using location_ofI [of ?s "(location s)(x \<mapsto> k)"] join by simp_all
qed

lemma set_listening_refines:
  assumes "channels_wf s"
  shows "channels_wf (set_listening x k b s)" "location (set_listening x k b s) = location s"
proof -
  have "in_channel (set_listening x k b s) a y \<longleftrightarrow> location s y = Some a" for a y
    unfolding location_iff [OF assms] set_listening_def in_channel_map_entry by (simp add: in_channel_def)
  moreover have "store_shape (set_listening x k b s)"
    unfolding set_listening_def
    by (rule store_shape_map_entry) (use assms in \<open>auto simp: channels_wf_def intro: channel_ok_members\<close>)
  ultimately show "channels_wf (set_listening x k b s)" "location (set_listening x k b s) = location s"
    using location_ofI by blast+
qed

lemma create_game_channel_refines:
  assumes "channels_wf s"
  shows "channels_wf (create_game_channel k s)" "location (create_game_channel k s) = location s"
  using assms location_ofI [of "create_game_channel k s" "location s"] location_iff [OF assms]
  by (simp_all add: create_game_channel_def channels_wf_def store_shape_or_insert in_channel_or_insert)

lemma map_of_map_values: "map_of (map (\<lambda>(k, v). (k, f v)) m) k = map_option f (map_of m k)"
  by (induction m) auto

lemma drop_session_refines:
  assumes "channels_wf s"
  shows "channels_wf (drop_session x s)" "location (drop_session x s) = (location s)(x := None)"
proof -
  note wf = leave_refines [OF assms, of x]
  have m: "map_of (drop_session x s) k =
      map_option (\<lambda>ch. ch\<lparr>ch_listeners := removeAll x (ch_listeners ch)\<rparr>) (map_of (snd (leave x s)) k)" for k
    by (simp add: drop_session_def map_of_map_values)
  have "map fst (drop_session x s) = map fst (snd (leave x s))"
    by (simp add: drop_session_def case_prod_beta comp_def)
  then have "store_shape (drop_session x s)"
    using wf(2) by (auto simp: store_shape_def channels_wf_def m bt_wf_def intro: channel_ok_members)
  moreover have "in_channel (drop_session x s) b y \<longleftrightarrow> ((location s)(x := None)) y = Some b" for b y
    using location_iff [OF wf(2), of y b] by (auto simp: in_channel_def m wf(3))
  ultimately show "channels_wf (drop_session x s)" "location (drop_session x s) = (location s)(x := None)"
    using location_ofI by blast+
qed

lemma cst_new_refines: "channels_wf cst_new" "location cst_new = (\<lambda>x. None)"
  by (auto simp: channels_wf_def store_shape_def cst_new_def new_channel_def channel_ok_def in_channel_def
      location_def bt_wf_def split: if_splits)

text \<open>Operations of the store and what each does to the abstract view.\<close>

datatype channel_op = OpJoin u32 u32 | OpLeave u32 | OpListen u32 u32 bool | OpCreate u32 | OpDrop u32

fun run_op :: "channel_op \<Rightarrow> channel_store \<Rightarrow> channel_store" where
  "run_op (OpJoin x k) s = snd (join x k s)"
| "run_op (OpLeave x) s = snd (leave x s)"
| "run_op (OpListen x k b) s = set_listening x k b s"
| "run_op (OpCreate k) s = create_game_channel k s"
| "run_op (OpDrop x) s = drop_session x s"

fun spec_op :: "channel_op \<Rightarrow> (u32 \<rightharpoonup> u32) \<Rightarrow> (u32 \<rightharpoonup> u32)" where
  "spec_op (OpJoin x k) m = m(x \<mapsto> k)"
| "spec_op (OpLeave x) m = m(x := None)"
| "spec_op (OpListen x k b) m = m"
| "spec_op (OpCreate k) m = m"
| "spec_op (OpDrop x) m = m(x := None)"

lemmas channel_refines =
  leave_refines join_refines set_listening_refines create_game_channel_refines drop_session_refines cst_new_refines

lemma run_op_refines: "channels_wf s \<Longrightarrow> channels_wf (run_op c s) \<and> location (run_op c s) = spec_op c (location s)"
  by (cases c) (simp_all add: channel_refines)

lemma run_ops_refine:
  "channels_wf s \<Longrightarrow> channels_wf (fold run_op cs s) \<and> location (fold run_op cs s) = fold spec_op cs (location s)"
  by (induction cs arbitrary: s) (simp_all add: run_op_refines)

text \<open>C37. The channel store refines a partial map from sessions to channels: after any sequence of joins,
  departures, listening changes, creations and disconnects on a fresh store, the store is well formed (so a
  session is a member of at most one channel and the permanent root exists), the member sets say exactly
  what the map says, and a join or departure returns the channel the map held.\<close>

theorem channel_store_refines:
  "channels_wf (fold run_op cs cst_new) \<and>
   location (fold run_op cs cst_new) = fold spec_op cs (\<lambda>x. None) \<and>
   (\<forall>x k. in_channel (fold run_op cs cst_new) k x \<longleftrightarrow> fold spec_op cs (\<lambda>x. None) x = Some k) \<and>
   (\<forall>x k. fst (join x k (fold run_op cs cst_new)) = fold spec_op cs (\<lambda>x. None) x \<and>
          fst (leave x (fold run_op cs cst_new)) = fold spec_op cs (\<lambda>x. None) x)"
proof -
  have *: "channels_wf (fold run_op cs cst_new)" "location (fold run_op cs cst_new) = fold spec_op cs (\<lambda>x. None)"
    using run_ops_refine [OF cst_new_refines(1), of cs] by (simp_all add: cst_new_refines)
  then show ?thesis
    using location_iff [OF *(1)] leave_refines(1) [OF *(1)] join_refines(1) [OF *(1)] by simp
qed

text \<open>A temporary channel outlives its last member while somebody listens, and the disconnect of the
  listener does not collect it.\<close>

lemma temporary_channel_kept:
  "let s = drop_session 1 (snd (leave 2 (set_listening 1 500 True (snd (join 2 500 cst_new)))))
   in map_option (\<lambda>ch. (ch_temporary ch, ch_members ch, ch_listeners ch)) (cst_get 500 s) = Some (True, [], [])"
  by code_simp

section \<open>User names\<close>

lemma of_char_digit: "d < 10 \<Longrightarrow> of_char (char_of (48 + d) :: char) = (48 + d :: nat)"
  by (simp add: of_char_of)

lemma show_nat_spec:
  "list_all is_digit (show_nat n) \<and> show_nat n \<noteq> [] \<and> foldl (\<lambda>v c. 10 * v + digit_value c) 0 (show_nat n) = int n"
proof (induction n rule: show_nat.induct)
  case (1 n)
  show ?case
  proof (cases "n < 10")
    case True
    then have "show_nat n = [char_of (48 + n)]" by (simp add: show_nat.simps)
    then show ?thesis using True of_char_digit [of n] by (simp add: is_digit_def digit_value_def)
  next
    case False
    then have IH: "list_all is_digit (show_nat (n div 10))"
      "foldl (\<lambda>v c. 10 * v + digit_value c) 0 (show_nat (n div 10)) = int (n div 10)" using 1 by auto
    have d: "of_char (char_of (48 + n mod 10) :: char) = (48 + n mod 10 :: nat)" by (rule of_char_digit) simp
    have "show_nat n = show_nat (n div 10) @ [char_of (48 + n mod 10)]"
      using False by (subst show_nat.simps) simp
    moreover have "is_digit (char_of (48 + n mod 10))" "digit_value (char_of (48 + n mod 10)) = int (n mod 10)"
      using mod_less_divisor [of 10 n] by (auto simp: is_digit_def digit_value_def d)
    moreover have "10 * int (n div 10) + int (n mod 10) = int n" by (simp add: zdiv_int zmod_int)
    ultimately show ?thesis using IH by simp
  qed
qed

lemma digit_not_special: "is_digit c \<Longrightarrow> c \<noteq> CHR ''+'' \<and> c \<noteq> CHR '']''"
  by (auto simp: is_digit_def)

text \<open>The user name a client authenticates with, the bracketed decimal net id and any text after it,
  parses back to that net id.\<close>

theorem netid_roundtrip: "parse_netid (''['' @ show_nat (unat n) @ '']'' @ rest) = Some n"
proof -
  note sp = show_nat_spec [of "unat n"]
  have tw: "takeWhile (\<lambda>c. c \<noteq> CHR '']'') (show_nat (unat n) @ CHR '']'' # rest) = show_nat (unat n)"
    using sp digit_not_special by (subst takeWhile_append2) (auto simp: list_all_iff)
  obtain c r where c: "show_nat (unat n) = c # r" "c \<noteq> CHR ''+''"
    using sp digit_not_special by (cases "show_nat (unat n)") auto
  have "uint n < 4294967296" using uint_lt2p [of n] by simp
  then show ?thesis using sp c tw by (simp add: parse_netid_def parse_u32_def Let_def)
qed

end
