(* ===== verification/Voice_Router.thy ===== *)
theory Voice_Router
  imports Voice_State
begin

text \<open>
  Resolving a voice packet into its recipients, \<open>crates/baston-voice/src/router.rs\<close>. The area-of-interest
  oracle, a trait object in the code, is an argument.
\<close>

section \<open>The router\<close>

record recipient =
  rc_session :: u32
  rc_with_position :: bool

type_synonym aoi_oracle = "u32 \<Rightarrow> u32 \<Rightarrow> bool option"

definition no_culling :: aoi_oracle where
  "no_culling speaker listener = None"

definition can_deliver :: "u32 \<Rightarrow> u32 \<Rightarrow> session_registry \<Rightarrow> aoi_oracle \<Rightarrow> bool \<Rightarrow> bool" where
  "can_deliver speaker listener sessions aoi apply_aoi =
     (case sr_get listener sessions of
        None \<Rightarrow> False
      | Some s \<Rightarrow> if \<not> can_hear s then False
                 else if apply_aoi then (case aoi speaker listener of Some audible \<Rightarrow> audible | None \<Rightarrow> True)
                 else True)"

definition make_recipient :: "u32 \<Rightarrow> voice_packet \<Rightarrow> session_registry \<Rightarrow> u32 \<Rightarrow> recipient" where
  "make_recipient speaker packet sessions listener =
     \<lparr>rc_session = listener, rc_with_position = has_position packet \<and> contexts_match speaker listener sessions\<rparr>"

fun dedup_by_session :: "recipient list \<Rightarrow> recipient list" where
  "dedup_by_session (a # b # v) =
     (if rc_session a = rc_session b then dedup_by_session (a # v) else a # dedup_by_session (b # v))"
| "dedup_by_session v = v"

definition dedup :: "recipient list \<Rightarrow> recipient list" where
  "dedup v = dedup_by_session (sort_key rc_session v)"

definition channel_audience :: "channel \<Rightarrow> u32 list" where
  "channel_audience ch = ch_members ch @ ch_listeners ch"

text \<open>The set of a whisper target, in the order of a \<open>BTreeSet\<close>.\<close>

definition whisper_set :: "voice_target option \<Rightarrow> channel_store \<Rightarrow> u32 list" where
  "whisper_set target channels =
     (case target of
        None \<Rightarrow> []
      | Some t \<Rightarrow>
          fold (\<lambda>ct set. case cst_get (ct_channel_id ct) channels of
                           None \<Rightarrow> set
                         | Some ch \<Rightarrow> fold insort_insert (channel_audience ch) set)
            (vt_channels t) (fold insort_insert (vt_sessions t) []))"

definition resolve :: "u32 \<Rightarrow> voice_packet \<Rightarrow> session_registry \<Rightarrow> channel_store \<Rightarrow> aoi_oracle \<Rightarrow> recipient list" where
  "resolve speaker packet sessions channels aoi =
     (case sr_get speaker sessions of
        None \<Rightarrow> []
      | Some s \<Rightarrow>
          if \<not> can_speak s then []
          else case vp_target packet of
            VtLoopback \<Rightarrow> [\<lparr>rc_session = speaker, rc_with_position = False\<rparr>]
          | VtNormal \<Rightarrow>
              (case map_option ch_id (find (\<lambda>c. speaker \<in> set (ch_members c)) (cst_iter channels)) of
                 None \<Rightarrow> []
               | Some channel_id \<Rightarrow>
                   dedup (case cst_get channel_id channels of
                     None \<Rightarrow> []
                   | Some ch \<Rightarrow>
                       map (make_recipient speaker packet sessions)
                         (filter (\<lambda>listener. listener \<noteq> speaker \<and> can_deliver speaker listener sessions aoi True)
                            (channel_audience ch))))
          | VtWhisper i \<Rightarrow>
              map (make_recipient speaker packet sessions)
                (filter (\<lambda>listener. listener \<noteq> speaker \<and> can_deliver speaker listener sessions aoi False)
                   (whisper_set (tr_get i (vs_targets s)) channels)))"

section \<open>The recipients of a packet\<close>

text \<open>The sessions a packet is addressed to.\<close>

definition addressed :: "u32 \<Rightarrow> voice_target_kind \<Rightarrow> session_registry \<Rightarrow> channel_store \<Rightarrow> u32 \<Rightarrow> bool" where
  "addressed speaker target sessions channels l =
     (case target of
        VtLoopback \<Rightarrow> False
      | VtNormal \<Rightarrow> (\<exists>k ch. location channels speaker = Some k \<and> map_of channels k = Some ch \<and>
                       l \<in> set (ch_members ch) \<union> set (ch_listeners ch))
      | VtWhisper i \<Rightarrow>
          (\<exists>s t. map_of sessions speaker = Some s \<and> map_of (vs_targets s) i = Some t \<and>
             (l \<in> set (vt_sessions t) \<or>
              (\<exists>ct\<in>set (vt_channels t). \<exists>ch. map_of channels (ct_channel_id ct) = Some ch \<and>
                 l \<in> set (ch_members ch) \<union> set (ch_listeners ch)))))"

lemma dedup_by_session_props:
  assumes "sorted (map rc_session v)"
  shows "sorted_wrt (<) (map rc_session (dedup_by_session v))"
    "rc_session ` set (dedup_by_session v) = rc_session ` set v" "set (dedup_by_session v) \<subseteq> set v"
  using assms
proof (induction v rule: dedup_by_session.induct)
  case (1 a b v)
  {
    case 1
    then show ?case using "1.IH" by (cases "rc_session a = rc_session b") (force simp: image_iff)+
  next
    case 2
    then show ?case using "1.IH" by (cases "rc_session a = rc_session b") auto
  next
    case 3
    then show ?case using "1.IH" by (cases "rc_session a = rc_session b") auto
  }
qed auto

lemma dedup_props:
  "sorted_wrt (<) (map rc_session (dedup v))" "rc_session ` set (dedup v) = rc_session ` set v" "set (dedup v) \<subseteq> set v"
  using dedup_by_session_props [of "sort_key rc_session v"] by (simp_all add: dedup_def)

lemma fold_insort_insert:
  "sorted s \<Longrightarrow> distinct s \<Longrightarrow>
   sorted (fold insort_insert xs s) \<and> distinct (fold insort_insert xs s) \<and> set (fold insort_insert xs s) = set xs \<union> set s"
  for s :: "'a::linorder list"
  by (induction xs arbitrary: s) (auto simp: sorted_insort_insert distinct_insort_insert set_insort_insert)

lemma whisper_set_props:
  "sorted (whisper_set (Some t) channels) \<and> distinct (whisper_set (Some t) channels) \<and>
   set (whisper_set (Some t) channels) = set (vt_sessions t) \<union>
     {l. \<exists>ct\<in>set (vt_channels t). \<exists>ch. map_of channels (ct_channel_id ct) = Some ch \<and> l \<in> set (channel_audience ch)}"
proof -
  let ?f = "\<lambda>ct set. case cst_get (ct_channel_id ct) channels of
                 None \<Rightarrow> set | Some ch \<Rightarrow> fold insort_insert (channel_audience ch) set"
  have "sorted s \<Longrightarrow> distinct s \<Longrightarrow> sorted (fold ?f cts s) \<and> distinct (fold ?f cts s) \<and>
      set (fold ?f cts s) = set s \<union>
        {l. \<exists>ct\<in>set cts. \<exists>ch. map_of channels (ct_channel_id ct) = Some ch \<and> l \<in> set (channel_audience ch)}"
    for cts s
  proof (induction cts arbitrary: s)
    case (Cons ct cts)
    have "sorted (?f ct s) \<and> distinct (?f ct s) \<and>
        set (?f ct s) = set s \<union> {l. \<exists>ch. map_of channels (ct_channel_id ct) = Some ch \<and> l \<in> set (channel_audience ch)}"
      using Cons.prems fold_insort_insert [of s] by (auto simp: cst_get_def split: option.splits)
    then show ?case using Cons.IH [of "?f ct s"] by auto
  qed auto
  from this [of "fold insort_insert (vt_sessions t) []" "vt_channels t"] show ?thesis
    using fold_insort_insert [of "[] :: u32 list" "vt_sessions t"] by (simp add: whisper_set_def)
qed

lemma speaker_channel:
  assumes "channels_wf channels"
  shows "map_option ch_id (find (\<lambda>c. x \<in> set (ch_members c)) (cst_iter channels)) = location channels x"
proof -
  have "find (\<lambda>c. P c) (map snd m) = map_option snd (find (\<lambda>(k, c). P c) m)" for P and m :: channel_store
    by (induction m) auto
  moreover have "ch_id ch = k" if "find (\<lambda>(k, ch). x \<in> set (ch_members ch)) channels = Some (k, ch)" for k ch
  proof -
    have "map_of channels k = Some ch"
      using that assms find_keyed(1) [of channels "\<lambda>k ch. x \<in> set (ch_members ch)" k ch]
      by (auto simp: channels_wf_def store_shape_def)
    then show ?thesis using assms by (auto simp: channels_wf_def store_shape_def channel_ok_def)
  qed
  ultimately show ?thesis
    by (cases "find (\<lambda>(k, ch). x \<in> set (ch_members ch)) channels") (auto simp: cst_iter_def location_def)
qed

lemma make_recipient_session [simp]: "rc_session (make_recipient sp p ss l) = l" "rc_session \<circ> make_recipient sp p ss = id"
  by (auto simp: make_recipient_def fun_eq_iff)

definition hears :: "u32 \<Rightarrow> u32 \<Rightarrow> voice_target_kind \<Rightarrow> session_registry \<Rightarrow> aoi_oracle \<Rightarrow> bool" where
  "hears speaker l target sessions aoi \<longleftrightarrow>
     (\<exists>s. map_of sessions l = Some s \<and> \<not> vs_deaf s \<and> \<not> vs_self_deaf s) \<and>
     (target = VtNormal \<longrightarrow> aoi speaker l \<noteq> Some False)"

lemma can_deliver_hears:
  "can_deliver speaker l sessions aoi (target = VtNormal) = hears speaker l target sessions aoi"
  by (auto simp: can_deliver_def hears_def sr_get_def can_hear_def split: option.splits)

text \<open>What a list of recipients must be for a packet with these listeners.\<close>

definition delivers_to :: "recipient list \<Rightarrow> u32 \<Rightarrow> voice_packet \<Rightarrow> session_registry \<Rightarrow> u32 set \<Rightarrow> bool" where
  "delivers_to rs speaker packet sessions ls \<longleftrightarrow>
     sorted_wrt (<) (map rc_session rs) \<and> rc_session ` set rs = ls \<and>
     (\<forall>r\<in>set rs. rc_with_position r = (has_position packet \<and> contexts_match speaker (rc_session r) sessions))"

lemma delivers_to_dedup:
  "delivers_to (dedup (map (make_recipient speaker packet sessions) ls)) speaker packet sessions (set ls)"
  using dedup_props [of "map (make_recipient speaker packet sessions) ls"]
  by (auto simp: delivers_to_def image_comp comp_def) (auto simp: make_recipient_def dest!: subsetD)

lemma delivers_to_sorted:
  "sorted ls \<Longrightarrow> distinct ls \<Longrightarrow>
   delivers_to (map (make_recipient speaker packet sessions) ls) speaker packet sessions (set ls)"
  by (auto simp: delivers_to_def image_comp comp_def strict_sorted_iff make_recipient_def)

lemma resolve_talk:
  assumes "channels_wf channels" "map_of sessions speaker = Some s" "\<not> vs_mute s" "vp_target packet \<noteq> VtLoopback"
  shows "delivers_to (resolve speaker packet sessions channels aoi) speaker packet sessions
    {l. l \<noteq> speaker \<and> addressed speaker (vp_target packet) sessions channels l \<and>
        hears speaker l (vp_target packet) sessions aoi}"
proof (cases "vp_target packet")
  case VtNormal
  note hear = can_deliver_hears [of speaker _ sessions aoi VtNormal, simplified]
  show ?thesis
  proof (cases "location channels speaker")
    case None
    then show ?thesis using assms VtNormal speaker_channel [OF assms(1), of speaker]
      by (simp add: resolve_def sr_get_def can_speak_def delivers_to_def addressed_def)
  next
    case (Some k)
    then obtain ch where ch: "map_of channels k = Some ch"
      using location_iff [OF assms(1), of speaker k] by (auto simp: in_channel_def)
    have "resolve speaker packet sessions channels aoi = dedup (map (make_recipient speaker packet sessions)
        (filter (\<lambda>l. l \<noteq> speaker \<and> hears speaker l VtNormal sessions aoi) (channel_audience ch)))"
      unfolding resolve_def speaker_channel [OF assms(1)]
      using assms VtNormal Some ch by (simp add: sr_get_def can_speak_def cst_get_def hear)
    moreover have "set (filter (\<lambda>l. l \<noteq> speaker \<and> hears speaker l VtNormal sessions aoi) (channel_audience ch)) =
        {l. l \<noteq> speaker \<and> addressed speaker (vp_target packet) sessions channels l \<and> hears speaker l VtNormal sessions aoi}"
      using Some ch VtNormal by (auto simp: addressed_def channel_audience_def)
    ultimately show ?thesis
      using delivers_to_dedup [of speaker packet sessions
          "filter (\<lambda>l. l \<noteq> speaker \<and> hears speaker l VtNormal sessions aoi) (channel_audience ch)"]
      unfolding VtNormal by simp
  qed
next
  case (VtWhisper i)
  note hear = can_deliver_hears [of speaker _ sessions aoi "VtWhisper i", simplified]
  let ?ws = "whisper_set (map_of (vs_targets s) i) channels"
  let ?ls = "filter (\<lambda>l. l \<noteq> speaker \<and> hears speaker l (VtWhisper i) sessions aoi) ?ws"
  have ws: "sorted ?ws \<and> distinct ?ws \<and> set ?ws = {l. addressed speaker (VtWhisper i) sessions channels l}"
    using whisper_set_props [of _ channels] assms(2)
    by (cases "map_of (vs_targets s) i") (auto simp: addressed_def whisper_set_def channel_audience_def)
  have "resolve speaker packet sessions channels aoi = map (make_recipient speaker packet sessions) ?ls"
    using assms VtWhisper by (simp add: resolve_def sr_get_def can_speak_def tr_get_def hear)
  moreover have "sorted ?ls" "distinct ?ls" using ws by (auto intro: sorted_filter [where f = "\<lambda>x. x", simplified])
  moreover have "set ?ls = {l. l \<noteq> speaker \<and> addressed speaker (vp_target packet) sessions channels l \<and>
      hears speaker l (vp_target packet) sessions aoi}" using ws VtWhisper by auto
  ultimately show ?thesis using delivers_to_sorted [of ?ls] by simp
qed (use assms in simp)

text \<open>C12. A session that is unknown or muted reaches nobody, and a loopback packet only its speaker.
  Otherwise the recipients are, each once and in increasing session order, exactly the sessions the packet
  is addressed to (the members and listeners of the speaker's channel, or the sessions and channels of the
  whisper target) other than the speaker, that exist and are not deaf and, for normal talk, that the area of
  interest does not exclude; a recipient gets the position exactly when the packet has one and both sessions
  have the same positional context.\<close>

theorem resolve_exact:
  assumes "channels_wf channels"
  shows "case map_of sessions speaker of
      None \<Rightarrow> resolve speaker packet sessions channels aoi = []
    | Some s \<Rightarrow>
        if vs_mute s then resolve speaker packet sessions channels aoi = []
        else if vp_target packet = VtLoopback
        then resolve speaker packet sessions channels aoi = [\<lparr>rc_session = speaker, rc_with_position = False\<rparr>]
        else delivers_to (resolve speaker packet sessions channels aoi) speaker packet sessions
               {l. l \<noteq> speaker \<and> addressed speaker (vp_target packet) sessions channels l \<and>
                   hears speaker l (vp_target packet) sessions aoi}"
  using resolve_talk [OF assms]
  by (auto simp: resolve_def sr_get_def can_speak_def split: option.split)

definition sample_sessions :: session_registry where
  "sample_sessions = sr_insert 3 ''[3]'' (sr_insert 2 ''[2]'' (sr_insert 1 ''[1]'' []))"

definition sample_channels :: channel_store where
  "sample_channels = fold run_op [OpJoin 1 0, OpJoin 2 0, OpCreate 9, OpJoin 3 9, OpListen 3 0 True] cst_new"

definition sample_packet :: voice_packet where
  "sample_packet = \<lparr>vp_codec = Opus, vp_target = VtNormal, vp_payload = [1, 2], vp_audio_end = 2, vp_position = None\<rparr>"

theorem resolve_exact_witness:
  "map rc_session (resolve 1 sample_packet sample_sessions sample_channels no_culling) = [2, 3] \<and>
   delivers_to (resolve 1 sample_packet sample_sessions sample_channels no_culling) 1 sample_packet sample_sessions
     {l. l \<noteq> 1 \<and> addressed 1 VtNormal sample_sessions sample_channels l \<and> hears 1 l VtNormal sample_sessions no_culling}"
proof -
  have wf: "channels_wf sample_channels"
    using run_ops_refine [OF cst_new_refines(1)] by (simp add: sample_channels_def del: fold.simps)
  have s: "map_of sample_sessions 1 = Some (vs_new 1 ''[1]'')" by code_simp
  have "map rc_session (resolve 1 sample_packet sample_sessions sample_channels no_culling) = [2, 3]" by code_simp
  with resolve_exact [OF wf, where sessions = sample_sessions and speaker = 1 and packet = sample_packet and aoi = no_culling] s show ?thesis
    by (simp add: vs_new_def sample_packet_def)
qed

end
