(* ===== verification/Voice_Crypto.thy ===== *)
theory Voice_Crypto
  imports Voice_Pds
begin

text \<open>
  The voice transport cipher, \<open>crates/baston-voice/src/crypto.rs\<close>: OCB2 over a block cipher, and the
  per-peer state with its rolling nonces and replay history. AES is the \<open>aes\<close> crate: its two block
  functions are the parameter \<open>aes_api\<close>, whose contract \<open>aes_spec\<close> says that they keep the block size
  and that decryption inverts encryption. A block \<open>[u8; 16]\<close> is a list of sixteen bytes.
\<close>

definition BLOCK :: nat where "BLOCK = 16"

lemmas block_size [simp] = BLOCK_def

record aes_api =
  aes_encrypt_block :: "u8 list \<Rightarrow> u8 list \<Rightarrow> u8 list"
  aes_decrypt_block :: "u8 list \<Rightarrow> u8 list \<Rightarrow> u8 list"

definition aes_spec :: "aes_api \<Rightarrow> bool" where
  "aes_spec aes \<longleftrightarrow> (\<forall>key b. length key = 16 \<longrightarrow> length b = 16 \<longrightarrow>
     length (aes_encrypt_block aes key b) = 16 \<and>
     aes_decrypt_block aes key (aes_encrypt_block aes key b) = b)"

section \<open>Blocks\<close>

definition times2 :: "u8 list \<Rightarrow> u8 list" where
  "times2 block =
     (let carry = drop_bit 7 (block ! 0);
          out = map (\<lambda>i. push_bit 1 (block ! i) OR (if i + 1 < BLOCK then drop_bit 7 (block ! (i + 1)) else 0)) [0..<BLOCK]
      in if carry = 1 then out[BLOCK - 1 := (out ! (BLOCK - 1)) XOR 0x87] else out)"

definition xor_block :: "u8 list \<Rightarrow> u8 list \<Rightarrow> u8 list" where
  "xor_block a b = map (\<lambda>(x, y). x XOR y) (zip a b)"

definition times3 :: "u8 list \<Rightarrow> u8 list" where
  "times3 block = xor_block block (times2 block)"

section \<open>OCB2\<close>

text \<open>The loop over full blocks while more than one block is left; its state is the offset \<open>delta\<close>, the
  checksum, the input left and the output so far.\<close>

function enc_blocks :: "aes_api \<Rightarrow> u8 list \<Rightarrow> u8 list \<Rightarrow> u8 list \<Rightarrow> u8 list \<Rightarrow> u8 list \<Rightarrow>
    u8 list \<times> u8 list \<times> u8 list \<times> u8 list" where
  "enc_blocks aes key delta checksum plain out =
     (if BLOCK < length plain
      then let d = times2 delta; chunk = take BLOCK plain;
               tmp = aes_encrypt_block aes key (xor_block d chunk)
           in enc_blocks aes key d (xor_block checksum chunk) (drop BLOCK plain) (out @ xor_block d tmp)
      else (delta, checksum, plain, out))"
  by pat_completeness auto
termination
  by (relation "measure (\<lambda>(aes, key, delta, checksum, plain, out). length plain)") auto

function dec_blocks :: "aes_api \<Rightarrow> u8 list \<Rightarrow> u8 list \<Rightarrow> u8 list \<Rightarrow> u8 list \<Rightarrow> u8 list \<Rightarrow>
    u8 list \<times> u8 list \<times> u8 list \<times> u8 list" where
  "dec_blocks aes key delta checksum cipher out =
     (if BLOCK < length cipher
      then let d = times2 delta; chunk = take BLOCK cipher;
               tmp = aes_decrypt_block aes key (xor_block d chunk); p = xor_block d tmp
           in dec_blocks aes key d (xor_block checksum p) (drop BLOCK cipher) (out @ p)
      else (delta, checksum, cipher, out))"
  by pat_completeness auto
termination
  by (relation "measure (\<lambda>(aes, key, delta, checksum, cipher, out). length cipher)") auto

declare enc_blocks.simps [simp del] dec_blocks.simps [simp del]

text \<open>The block that encrypts to the pad of the final, possibly partial block: its bit length.\<close>

definition length_block :: "nat \<Rightarrow> u8 list" where
  "length_block len = replicate 8 0 @ to_be_bytes 8 (of_nat len * 8 :: u64)"

text \<open>Ciphertext and tag.\<close>

definition ocb_encrypt :: "aes_api \<Rightarrow> u8 list \<Rightarrow> u8 list \<Rightarrow> u8 list \<Rightarrow> u8 list \<times> u8 list" where
  "ocb_encrypt aes key plain nonce =
     (case enc_blocks aes key (aes_encrypt_block aes key nonce) (replicate BLOCK 0) plain [] of
        (delta0, checksum0, rest, out) \<Rightarrow>
          let len = length rest;
              delta = times2 delta0;
              pad = aes_encrypt_block aes key (xor_block (length_block len) delta);
              last = rest @ drop len pad;
              checksum = xor_block checksum0 last;
              cipher_last = xor_block pad last
          in (out @ take len cipher_last, aes_encrypt_block aes key (xor_block (times3 delta) checksum)))"

text \<open>Plaintext and tag.\<close>

definition ocb_decrypt :: "aes_api \<Rightarrow> u8 list \<Rightarrow> u8 list \<Rightarrow> u8 list \<Rightarrow> u8 list \<times> u8 list" where
  "ocb_decrypt aes key cipher nonce =
     (case dec_blocks aes key (aes_encrypt_block aes key nonce) (replicate BLOCK 0) cipher [] of
        (delta0, checksum0, rest, out) \<Rightarrow>
          let len = length rest;
              delta = times2 delta0;
              pad = aes_encrypt_block aes key (xor_block (length_block len) delta);
              last = xor_block (take len pad) rest @ drop len pad;
              checksum = xor_block checksum0 last
          in (out @ take len last, aes_encrypt_block aes key (xor_block (times3 delta) checksum)))"

section \<open>Peer state\<close>

record crypt_state =
  ct_key :: "u8 list"
  ct_encrypt_iv :: "u8 list"
  ct_decrypt_iv :: "u8 list"
  ct_decrypt_history :: "u8 list"
  ct_good :: u32
  ct_late :: u32
  ct_lost :: u32

definition ct_new :: "u8 list \<Rightarrow> u8 list \<Rightarrow> u8 list \<Rightarrow> crypt_state" where
  "ct_new key encrypt_iv decrypt_iv =
     \<lparr>ct_key = key, ct_encrypt_iv = encrypt_iv, ct_decrypt_iv = decrypt_iv,
      ct_decrypt_history = replicate 256 0, ct_good = 0, ct_late = 0, ct_lost = 0\<rparr>"

text \<open>The increment and the decrement of a byte string, least significant byte first, with the early
  exit of the loops.\<close>

fun inc_bytes :: "u8 list \<Rightarrow> u8 list" where
  "inc_bytes [] = []"
| "inc_bytes (b # bs) = (if b + 1 \<noteq> 0 then (b + 1) # bs else (b + 1) # inc_bytes bs)"

fun dec_bytes :: "u8 list \<Rightarrow> u8 list" where
  "dec_bytes [] = []"
| "dec_bytes (b # bs) = (if b \<noteq> 0 then (b - 1) # bs else (b - 1) # dec_bytes bs)"

definition ct_encrypt :: "aes_api \<Rightarrow> u8 list \<Rightarrow> crypt_state \<Rightarrow> u8 list \<times> crypt_state" where
  "ct_encrypt aes source c =
     (let iv = inc_bytes (ct_encrypt_iv c);
          (cipher, tag) = ocb_encrypt aes (ct_key c) source iv
      in ((iv ! 0) # take 3 tag @ cipher, c\<lparr>ct_encrypt_iv := iv\<rparr>))"

text \<open>The nonce recovered from the first byte of a packet: \<open>None\<close> refuses the packet; otherwise the
  nonce, whether it is for this packet only, and the change of the late and lost counters.\<close>

definition recover_iv :: "u8 \<Rightarrow> crypt_state \<Rightarrow> (u8 list \<times> bool \<times> u32 \<times> int) option" where
  "recover_iv ivbyte c =
     (let iv = ct_decrypt_iv c; iv0 = iv ! 0; rest = tl iv in
      if ucast ((ucast iv0 + 1 :: u16) AND 0xFF) = ivbyte then
        (if iv0 < ivbyte then Some (ivbyte # rest, False, 0, 0)
         else if ivbyte < iv0 then Some (ivbyte # inc_bytes rest, False, 0, 0)
         else None)
      else
        let diff0 = uint ivbyte - uint iv0;
            diff = (if 128 < diff0 then diff0 - 256 else if diff0 < - 128 then diff0 + 256 else diff0);
            found =
              (if ivbyte < iv0 \<and> - 30 < diff \<and> diff < 0 then Some (ivbyte # rest, True, 1, - 1)
               else if iv0 < ivbyte \<and> - 30 < diff \<and> diff < 0 then Some (ivbyte # dec_bytes rest, True, 1, - 1)
               else if iv0 < ivbyte \<and> 0 < diff then Some (ivbyte # rest, False, 0, uint (ivbyte - iv0 - 1))
               else if ivbyte < iv0 \<and> 0 < diff
               then Some (ivbyte # inc_bytes rest, False, 0, 256 - uint iv0 + uint ivbyte - 1)
               else None)
        in case found of
             None \<Rightarrow> None
           | Some (iv', restore, late, lost) \<Rightarrow>
               if ct_decrypt_history c ! unat (iv' ! 0) = iv' ! 1 then None
               else Some (iv', restore, late, lost))"

definition ct_decrypt :: "aes_api \<Rightarrow> u8 list \<Rightarrow> crypt_state \<Rightarrow> u8 list option \<times> crypt_state" where
  "ct_decrypt aes source c =
     (if length source < 4 then (None, c)
      else case recover_iv (source ! 0) c of
             None \<Rightarrow> (None, c)
           | Some (iv, restore, late, lost) \<Rightarrow>
               (case ocb_decrypt aes (ct_key c) (drop 4 source) iv of
                  (plain, tag) \<Rightarrow>
                    if take 3 tag \<noteq> take 3 (drop 1 source) then (None, c)
                    else (Some plain,
                      c\<lparr>ct_decrypt_iv := (if restore then ct_decrypt_iv c else iv),
                        ct_decrypt_history := (ct_decrypt_history c)[unat (iv ! 0) := iv ! 1],
                        ct_good := ct_good c + 1, ct_late := ct_late c + late,
                        ct_lost := (if 0 < lost then ct_lost c + word_of_int lost else ct_lost c)\<rparr>)))"

section \<open>Block facts\<close>

lemma length_xor_block [simp]: "length (xor_block a b) = min (length a) (length b)"
  by (simp add: xor_block_def)

lemma xor_block_cancel [simp]: "length a = length b \<Longrightarrow> xor_block a (xor_block a b) = b"
  by (induction a b rule: list_induct2) (simp_all add: xor_block_def flip: xor.assoc)

lemma xor_block_append: "length a = length c \<Longrightarrow> xor_block (a @ b) (c @ d) = xor_block a c @ xor_block b d"
  by (simp add: xor_block_def)

lemma length_times2 [simp]: "length (times2 b) = 16"
  by (simp add: times2_def Let_def)

lemma length_times3 [simp]: "length b = 16 \<Longrightarrow> length (times3 b) = 16"
  by (simp add: times3_def)

lemma length_length_block [simp]: "length (length_block n) = 16"
  by (simp add: length_block_def)

lemma aes_length [simp]:
  "aes_spec aes \<Longrightarrow> length key = 16 \<Longrightarrow> length b = 16 \<Longrightarrow> length (aes_encrypt_block aes key b) = 16"
  unfolding aes_spec_def by blast

lemma aes_inverse [simp]:
  "aes_spec aes \<Longrightarrow> length key = 16 \<Longrightarrow> length b = 16 \<Longrightarrow>
   aes_decrypt_block aes key (aes_encrypt_block aes key b) = b"
  unfolding aes_spec_def by blast

section \<open>OCB2 round trip\<close>

text \<open>What the block loop of the encryption leaves, and that the loop of the decryption undoes it from
  the same offset and checksum, whatever final block follows.\<close>

definition dec_undoes :: "aes_api \<Rightarrow> u8 list \<Rightarrow> u8 list \<Rightarrow> u8 list \<Rightarrow> u8 list \<Rightarrow> u8 list \<Rightarrow>
    u8 list \<Rightarrow> nat \<Rightarrow> u8 list \<Rightarrow> bool" where
  "dec_undoes aes key delta checksum plain delta' checksum' n cs \<longleftrightarrow>
     (\<forall>t out. length t = n \<longrightarrow>
        dec_blocks aes key delta checksum (cs @ t) out = (delta', checksum', t, out @ take (length cs) plain))"

lemma dec_undoesD:
  "dec_undoes aes key delta checksum plain delta' checksum' n cs \<Longrightarrow> length t = n \<Longrightarrow>
   dec_blocks aes key delta checksum (cs @ t) out = (delta', checksum', t, out @ take (length cs) plain)"
  unfolding dec_undoes_def by blast

lemma dec_undoesI:
  "(\<And>t out. length t = n \<Longrightarrow>
     dec_blocks aes key delta checksum (cs @ t) out = (delta', checksum', t, out @ take (length cs) plain)) \<Longrightarrow>
   dec_undoes aes key delta checksum plain delta' checksum' n cs"
  unfolding dec_undoes_def by blast

definition blocks_inverted :: "aes_api \<Rightarrow> u8 list \<Rightarrow> u8 list \<Rightarrow> u8 list \<Rightarrow> u8 list \<Rightarrow> u8 list \<Rightarrow>
    u8 list \<Rightarrow> u8 list \<Rightarrow> u8 list \<Rightarrow> bool" where
  "blocks_inverted aes key delta checksum plain delta' checksum' rest cs \<longleftrightarrow>
     length delta' = 16 \<and> length checksum' = 16 \<and> length rest \<le> 16 \<and> length plain = length cs + length rest \<and>
     rest = drop (length cs) plain \<and> (plain \<noteq> [] \<longrightarrow> rest \<noteq> []) \<and>
     dec_undoes aes key delta checksum plain delta' checksum' (length rest) cs"

lemma enc_blocks_inverted:
  assumes "aes_spec aes" "length key = 16"
  shows "length delta = 16 \<Longrightarrow> length checksum = 16 \<Longrightarrow>
    \<exists>delta' checksum' rest cs.
      enc_blocks aes key delta checksum plain out = (delta', checksum', rest, out @ cs) \<and>
      blocks_inverted aes key delta checksum plain delta' checksum' rest cs"
  using assms
proof (induction aes key delta checksum plain out rule: enc_blocks.induct)
  case (1 aes key delta checksum plain out)
  show ?case
  proof (cases "BLOCK < length plain")
    case False
    then show ?thesis
      using 1 by (simp add: enc_blocks.simps [of aes key] dec_blocks.simps [of aes key] blocks_inverted_def dec_undoes_def)
  next
    case True
    define d where "d = times2 delta"
    define chunk where "chunk = take BLOCK plain"
    define c where "c = xor_block d (aes_encrypt_block aes key (xor_block d chunk))"
    have len [simp]: "length d = 16" "length chunk = 16" "length c = 16"
      using True 1 by (simp_all add: d_def chunk_def c_def)
    obtain delta' checksum' rest cs where
      enc: "enc_blocks aes key d (xor_block checksum chunk) (drop BLOCK plain) (out @ c) =
              (delta', checksum', rest, (out @ c) @ cs)" and
      inv: "blocks_inverted aes key d (xor_block checksum chunk) (drop BLOCK plain) delta' checksum' rest cs"
      using 1(1) [OF True d_def chunk_def refl] 1(2-) by (auto simp: c_def)
    have rest: "rest \<noteq> []" "length cs + 16 < length plain"
      using inv True by (auto simp: blocks_inverted_def)
    have step: "dec_blocks aes key delta checksum ((c @ cs) @ t) out2 =
        dec_blocks aes key d (xor_block checksum chunk) (cs @ t) (out2 @ chunk)"
      if "length t = length rest" for t out2
      using that rest(1) 1(2-)
      by (subst dec_blocks.simps) (simp add: Let_def d_def [symmetric], simp add: c_def)
    have "dec_undoes aes key delta checksum plain delta' checksum' (length rest) (c @ cs)"
    proof (rule dec_undoesI)
      fix t out2 :: "u8 list"
      assume t: "length t = length rest"
      have "dec_undoes aes key d (xor_block checksum chunk) (drop BLOCK plain) delta' checksum' (length rest) cs"
        using inv unfolding blocks_inverted_def by blast
      from dec_undoesD [OF this t, of "out2 @ chunk"]
      show "dec_blocks aes key delta checksum ((c @ cs) @ t) out2 =
          (delta', checksum', t, out2 @ take (length (c @ cs)) plain)"
        unfolding step [OF t] using take_add [of 16 "length cs" plain] by (simp add: chunk_def)
    qed
    then have "blocks_inverted aes key delta checksum plain delta' checksum' rest (c @ cs)"
      using inv True rest by (auto simp: blocks_inverted_def add.commute)
    moreover have "enc_blocks aes key delta checksum plain out = (delta', checksum', rest, out @ c @ cs)"
      using True enc by (subst enc_blocks.simps) (simp add: Let_def d_def chunk_def c_def)
    ultimately show ?thesis by blast
  qed
qed

text \<open>Under the block cipher's contract, decrypting an OCB2 ciphertext under the nonce it was
  encrypted under returns the plaintext, whatever its length, and the tag the encryption computed; the
  ciphertext has the length of the plaintext.\<close>

theorem ocb_inverse:
  assumes "aes_spec aes" "length key = 16" "length nonce = 16"
  shows "ocb_decrypt aes key (fst (ocb_encrypt aes key plain nonce)) nonce =
           (plain, snd (ocb_encrypt aes key plain nonce)) \<and>
         length (fst (ocb_encrypt aes key plain nonce)) = length plain"
proof -
  define z where "z = aes_encrypt_block aes key nonce"
  obtain d c rest cs where
    enc: "enc_blocks aes key z (replicate BLOCK 0) plain [] = (d, c, rest, [] @ cs)" and
    inv: "blocks_inverted aes key z (replicate BLOCK 0) plain d c rest cs"
    using enc_blocks_inverted [OF assms(1,2), of z "replicate BLOCK 0" plain "[]"] assms by (auto simp: z_def)
  define pad where "pad = aes_encrypt_block aes key (xor_block (length_block (length rest)) (times2 d))"
  define t where "t = take (length rest) (xor_block pad (rest @ drop (length rest) pad))"
  have inv_len [simp]: "length d = 16" "length c = 16" "length rest \<le> 16"
    and plain: "take (length cs) plain @ rest = plain" "length plain = length cs + length rest"
    and undo: "dec_undoes aes key z (replicate BLOCK 0) plain d c (length rest) cs"
    using inv unfolding blocks_inverted_def by (blast, blast, blast, metis append_take_drop_id, blast, blast)
  have len [simp]: "length pad = 16" using assms by (simp add: pad_def)
  have "xor_block pad (rest @ drop (length rest) pad) =
      xor_block (take (length rest) pad) rest @ xor_block (drop (length rest) pad) (drop (length rest) pad)"
    by (metis append_take_drop_id len inv_len(3) length_take min.absorb2 xor_block_append)
  then have t: "t = xor_block (take (length rest) pad) rest" and lt: "length t = length rest"
    by (simp_all add: t_def)
  have dec: "dec_blocks aes key z (replicate BLOCK 0) (cs @ t) [] = (d, c, t, take (length cs) plain)"
    using dec_undoesD [OF undo lt, of "[]"] by simp
  have rest_back: "xor_block (take (length rest) pad) t = rest" by (simp add: t)
  have E: "ocb_encrypt aes key plain nonce = (cs @ t,
      aes_encrypt_block aes key (xor_block (times3 (times2 d)) (xor_block c (rest @ drop (length rest) pad))))"
    using enc by (simp add: ocb_encrypt_def z_def [symmetric] Let_def pad_def [symmetric] t_def)
  have "ocb_decrypt aes key (cs @ t) nonce = (plain,
      aes_encrypt_block aes key (xor_block (times3 (times2 d)) (xor_block c (rest @ drop (length rest) pad))))"
    using dec by (simp add: ocb_decrypt_def z_def [symmetric] Let_def lt pad_def [symmetric] rest_back plain)
  then show ?thesis by (simp add: E lt plain)
qed

lemma ocb_tag_length:
  assumes "aes_spec aes" "length key = 16" "length nonce = 16"
  shows "length (snd (ocb_encrypt aes key plain nonce)) = 16"
proof -
  define z where "z = aes_encrypt_block aes key nonce"
  obtain d c rest cs where
    enc: "enc_blocks aes key z (replicate BLOCK 0) plain [] = (d, c, rest, [] @ cs)" and
    len: "length d = 16" "length c = 16" "length rest \<le> 16"
    using enc_blocks_inverted [OF assms(1,2), of z "replicate BLOCK 0" plain "[]"] assms
    unfolding blocks_inverted_def by (auto simp: z_def)
  then show ?thesis using assms by (simp add: ocb_encrypt_def z_def [symmetric] Let_def)
qed

section \<open>Nonces as counters\<close>

text \<open>The number a nonce stands for, least significant byte first.\<close>

fun nonce_val :: "u8 list \<Rightarrow> int" where
  "nonce_val [] = 0"
| "nonce_val (b # bs) = uint b + 256 * nonce_val bs"

lemma length_inc_dec [simp]: "length (inc_bytes bs) = length bs" "length (dec_bytes bs) = length bs"
  by (induction bs) auto

lemma nonce_val_bounds: "0 \<le> nonce_val bs \<and> nonce_val bs < 256 ^ length bs"
proof (induction bs)
  case (Cons b bs)
  then show ?case using uint_lt2p [of b] by simp
qed simp

lemma nonce_val_inj: "length a = length b \<Longrightarrow> nonce_val a = nonce_val b \<Longrightarrow> a = b"
proof (induction a b rule: list_induct2)
  case (Cons x xs y ys)
  have "uint x mod 256 = uint y mod 256" "uint x div 256 + nonce_val xs = uint y div 256 + nonce_val ys"
    using arg_cong [OF Cons(3), of "\<lambda>v. v mod 256"] arg_cong [OF Cons(3), of "\<lambda>v. v div 256"]
    by simp_all
  then show ?case using Cons(2) uint_lt2p [of x] uint_lt2p [of y] by (simp add: word_uint_eq_iff)
qed simp

text \<open>A low byte in front of a counter that wraps is a counter that wraps one byte higher.\<close>

lemma byte_mod:
  fixes y a m :: int
  assumes "0 \<le> y" "y < 256" "0 < m"
  shows "y + 256 * (a mod m) = (y + 256 * a) mod (256 * m)"
  using assms by (simp add: zmod_zmult2_eq)

lemma uint_succ_u8: "uint (b + 1 :: u8) = (if uint b = 255 then 0 else uint b + 1)"
  using uint_lt2p [of b] by (simp add: uint_word_ariths)

lemma uint_pred_u8: "uint (b - 1 :: u8) = (if uint b = 0 then 255 else uint b - 1)"
proof (cases "uint b = 0")
  case False
  then have "0 < uint b" using uint_ge_0 [of b] by linarith
  then show ?thesis using uint_lt2p [of b] by (simp add: uint_word_ariths mod_pos_pos_trivial)
qed (simp add: uint_word_ariths)

lemma int_and_255: "(v :: int) AND 255 = v mod 256"
  using take_bit_eq_mask [of 8 v] by (simp add: mask_eq_exp_minus_1 take_bit_eq_mod)

lemma next_iv_byte: "ucast ((ucast (b :: u8) + 1 :: u16) AND 0xFF) = b + 1"
  by transfer (simp add: take_bit_and int_and_255, simp add: take_bit_eq_mod mod_simps)

lemma nonce_val_inc: "nonce_val (inc_bytes bs) = (nonce_val bs + 1) mod 256 ^ length bs"
proof (induction bs)
  case (Cons b bs)
  have *: "b + 1 = 0 \<longleftrightarrow> uint b = 255"
    using uint_succ_u8 [of b] by (simp add: word_uint_eq_iff) (use uint_ge_0 [of b] in linarith)
  show ?case
  proof (cases "b + 1 = 0")
    case True
    then have "uint b = 255" by (simp add: *)
    then show ?thesis
      using Cons True byte_mod [of 0 "256 ^ length bs" "nonce_val bs + 1"] by (simp add: algebra_simps)
  next
    case False
    then have "uint (b + 1) = uint b + 1" "uint b < 255"
      using uint_succ_u8 [of b] uint_lt2p [of b] unfolding * by simp_all
    then show ?thesis using False nonce_val_bounds [of bs] by (simp add: algebra_simps mod_pos_pos_trivial)
  qed
qed simp

lemma nonce_val_dec: "nonce_val (dec_bytes bs) = (nonce_val bs - 1) mod 256 ^ length bs"
proof (induction bs)
  case (Cons b bs)
  have *: "b = 0 \<longleftrightarrow> uint b = 0" by (simp add: word_uint_eq_iff)
  show ?case
  proof (cases "b = 0")
    case True
    then show ?thesis
      using Cons byte_mod [of 255 "256 ^ length bs" "nonce_val bs - 1"] uint_pred_u8 [of b] by (simp add: algebra_simps)
  next
    case False
    then have "0 < uint b" using uint_ge_0 [of b] unfolding * by linarith
    then show ?thesis
      using False uint_lt2p [of b] nonce_val_bounds [of bs] uint_pred_u8 [of b] by (simp add: mod_pos_pos_trivial)
  qed
qed simp

lemma nonce_val_low: "bs \<noteq> [] \<Longrightarrow> uint (bs ! 0) = nonce_val bs mod 256"
  using uint_lt2p [of "bs ! 0"] by (cases bs) simp_all

lemma unat_lt2p_u8: "unat (b :: u8) < 256"
  using unsigned_less [of b, where 'a = nat] by simp

section \<open>Which nonce a packet is opened under\<close>

definition crypt_wf :: "crypt_state \<Rightarrow> bool" where
  "crypt_wf c \<longleftrightarrow> length (ct_key c) = 16 \<and> length (ct_encrypt_iv c) = 16 \<and> length (ct_decrypt_iv c) = 16 \<and>
     length (ct_decrypt_history c) = 256"

text \<open>Replacing the low byte of a nonce, with or without a carry, shifts its number.\<close>

lemma nonce_val_low_byte:
  assumes "length bs = 15"
  shows "nonce_val (y # bs) = (nonce_val (x # bs) + (uint y - uint x)) mod 256 ^ 16"
    "nonce_val (y # inc_bytes bs) = (nonce_val (x # bs) + (uint y - uint x + 256)) mod 256 ^ 16"
    "nonce_val (y # dec_bytes bs) = (nonce_val (x # bs) + (uint y - uint x - 256)) mod 256 ^ 16"
proof -
  define L where "L = nonce_val bs"
  have L: "0 \<le> L" "L < 256 ^ 15" using nonce_val_bounds [of bs] assms by (simp_all add: L_def)
  have y: "0 \<le> uint y" "uint y < 256" using uint_lt2p [of y] by simp_all
  have "nonce_val (y # inc_bytes bs) = (uint y + 256 * (L + 1)) mod 256 ^ 16"
    "nonce_val (y # dec_bytes bs) = (uint y + 256 * (L - 1)) mod 256 ^ 16"
    using byte_mod [OF y, of "256 ^ 15"] by (simp_all add: assms L_def nonce_val_inc nonce_val_dec)
  moreover have "uint y + 256 * L = (uint y + 256 * L) mod 256 ^ 16" using y L by (simp add: mod_pos_pos_trivial)
  ultimately show "nonce_val (y # bs) = (nonce_val (x # bs) + (uint y - uint x)) mod 256 ^ 16"
    "nonce_val (y # inc_bytes bs) = (nonce_val (x # bs) + (uint y - uint x + 256)) mod 256 ^ 16"
    "nonce_val (y # dec_bytes bs) = (nonce_val (x # bs) + (uint y - uint x - 256)) mod 256 ^ 16"
    by (simp_all add: L_def algebra_simps)
qed

lemma length_16E:
  assumes "length xs = 16"
  obtains x bs where "xs = x # bs" "length bs = 15"
  using assms by (auto simp: length_Suc_conv numeral_eq_Suc)

text \<open>A recovered nonce is at most 128 ahead of the receiver's, or at most 29 behind it and then not the
  one recorded for its low byte.\<close>

lemma recover_iv_window:
  assumes "recover_iv y c = Some (iv, restore, late, lost)" "length (ct_decrypt_iv c) = 16"
  shows "length iv = 16 \<and> iv ! 0 = y \<and>
    (\<exists>d. nonce_val iv = (nonce_val (ct_decrypt_iv c) + d) mod 256 ^ 16 \<and>
       (if restore then - 29 \<le> d \<and> d \<le> - 1 \<and> ct_decrypt_history c ! unat (iv ! 0) \<noteq> iv ! 1
        else 1 \<le> d \<and> d \<le> 128))"
proof -
  obtain x bs where iv: "ct_decrypt_iv c = x # bs" "length bs = 15" using assms(2) by (rule length_16E)
  have xy: "0 \<le> uint x" "uint x < 256" "0 \<le> uint y" "uint y < 256" using uint_lt2p [of x] uint_lt2p [of y] by simp_all
  let ?d = "uint y - uint x"
  note A = nonce_val_low_byte [OF iv(2), of y x, folded iv(1)]
  let ?fresh = "ct_decrypt_history c ! unat (iv ! 0) \<noteq> iv ! 1"
  have succ: "y = x + 1 \<Longrightarrow> ?d = 1 \<or> ?d = - 255" using uint_succ_u8 [of x] by auto
  have "length iv = 16 \<and> iv ! 0 = y \<and>
     (iv = y # bs \<and> (if restore then - 29 \<le> ?d \<and> ?d \<le> - 1 \<and> ?fresh else 1 \<le> ?d \<and> ?d \<le> 128) \<or>
      iv = y # inc_bytes bs \<and> \<not> restore \<and> 1 \<le> ?d + 256 \<and> ?d + 256 \<le> 128 \<or>
      iv = y # dec_bytes bs \<and> restore \<and> - 29 \<le> ?d - 256 \<and> ?d - 256 \<le> - 1 \<and> ?fresh)"
    using assms(1) succ iv xy
    by (auto simp: recover_iv_def Let_def iv next_iv_byte word_less_def split: if_splits)
      (use xy in linarith)+
  then show ?thesis using A by (elim conjE disjE) metis+
qed

section \<open>No nonce is accepted twice\<close>

text \<open>The nonces under which a receiver accepts the packets of a sequence.\<close>

definition accepted_nonce :: "aes_api \<Rightarrow> u8 list \<Rightarrow> crypt_state \<Rightarrow> u8 list option" where
  "accepted_nonce aes pkt c =
     (case fst (ct_decrypt aes pkt c) of None \<Rightarrow> None | Some _ \<Rightarrow> map_option fst (recover_iv (pkt ! 0) c))"

fun accepted_nonces :: "aes_api \<Rightarrow> u8 list list \<Rightarrow> crypt_state \<Rightarrow> u8 list list" where
  "accepted_nonces aes [] c = []"
| "accepted_nonces aes (p # ps) c =
     (case accepted_nonce aes p c of None \<Rightarrow> [] | Some iv \<Rightarrow> [iv]) @ accepted_nonces aes ps (snd (ct_decrypt aes p c))"

lemma ct_decrypt_refused: "fst (ct_decrypt aes pkt c) = None \<Longrightarrow> snd (ct_decrypt aes pkt c) = c"
  by (auto simp: ct_decrypt_def split: option.splits prod.splits if_splits)

lemma ct_decrypt_accepted:
  assumes "fst (ct_decrypt aes pkt c) = Some m"
  obtains iv restore late lost where "recover_iv (pkt ! 0) c = Some (iv, restore, late, lost)"
    "accepted_nonce aes pkt c = Some iv"
    "snd (ct_decrypt aes pkt c) =
      c\<lparr>ct_decrypt_iv := (if restore then ct_decrypt_iv c else iv),
        ct_decrypt_history := (ct_decrypt_history c)[unat (iv ! 0) := iv ! 1],
        ct_good := ct_good c + 1, ct_late := ct_late c + late,
        ct_lost := (if 0 < lost then ct_lost c + word_of_int lost else ct_lost c)\<rparr>"
  using assms by (auto simp: ct_decrypt_def accepted_nonce_def split: option.splits prod.splits if_splits)

text \<open>A nonce at a position of the stream that starts at number \<open>base\<close>.\<close>

definition nonce_at :: "int \<Rightarrow> int \<Rightarrow> u8 list \<Rightarrow> bool" where
  "nonce_at base q iv \<longleftrightarrow> length iv = 16 \<and> nonce_val iv = (base + q) mod 256 ^ 16"

lemma nonce_at_low: "nonce_at base q iv \<Longrightarrow> uint (iv ! 0) = (base + q) mod 256"
  by (subst nonce_val_low) (auto simp: nonce_at_def mod_mod_cancel)

lemma nonce_at_unique: "nonce_at base q iv \<Longrightarrow> nonce_at base q iv' \<Longrightarrow> iv = iv'"
  by (auto simp: nonce_at_def intro: nonce_val_inj)

lemma nonce_at_inj:
  "nonce_at base q iv \<Longrightarrow> nonce_at base q' iv \<Longrightarrow> \<bar>q - q'\<bar> < 256 ^ 16 \<Longrightarrow> q = q'"
  using mod_eq_dvd_iff [of "base + q" "256 ^ 16" "base + q'"] zdvd_imp_le [of "256 ^ 16" "\<bar>q - q'\<bar>"]
  by (auto simp: nonce_at_def)

lemma nonce_slots_differ:
  assumes "nonce_at base q iv" "nonce_at base q' iv'" "q \<noteq> q'" "\<bar>q - q'\<bar> < 256"
  shows "iv ! 0 \<noteq> iv' ! 0"
proof
  assume "iv ! 0 = iv' ! 0"
  then have "(base + q) mod 256 = (base + q') mod 256" using nonce_at_low assms(1,2) by metis
  then have "256 dvd q - q'" by (simp add: mod_eq_dvd_iff)
  then show False using assms(3,4) zdvd_imp_le [of 256 "\<bar>q - q'\<bar>"] by auto
qed

text \<open>The receiver stands at position \<open>pos\<close>; no accepted position is ahead of it, and those still inside
  the late window are the ones recorded for their low byte.\<close>

definition replay_inv :: "int \<Rightarrow> int \<Rightarrow> int set \<Rightarrow> crypt_state \<Rightarrow> bool" where
  "replay_inv base pos acc c \<longleftrightarrow> crypt_wf c \<and> nonce_at base pos (ct_decrypt_iv c) \<and>
     (\<forall>q\<in>acc. q \<le> pos \<and> (pos - 29 \<le> q \<longrightarrow>
        (\<exists>iv. nonce_at base q iv \<and> ct_decrypt_history c ! unat (iv ! 0) = iv ! 1)))"

lemma replay_inv_step:
  assumes inv: "replay_inv base pos acc c" and ok: "fst (ct_decrypt aes pkt c) = Some m"
  obtains iv q pos' where "accepted_nonce aes pkt c = Some iv" "nonce_at base q iv" "q \<notin> acc"
    "pos - 29 \<le> q" "pos \<le> pos'" "q \<le> pos'" "pos' \<le> pos + 128" "replay_inv base pos' (insert q acc) (snd (ct_decrypt aes pkt c))"
proof -
  obtain iv restore late lost where rec: "recover_iv (pkt ! 0) c = Some (iv, restore, late, lost)" and
    acc: "accepted_nonce aes pkt c = Some iv" and
    post: "snd (ct_decrypt aes pkt c) =
      c\<lparr>ct_decrypt_iv := (if restore then ct_decrypt_iv c else iv),
        ct_decrypt_history := (ct_decrypt_history c)[unat (iv ! 0) := iv ! 1],
        ct_good := ct_good c + 1, ct_late := ct_late c + late,
        ct_lost := (if 0 < lost then ct_lost c + word_of_int lost else ct_lost c)\<rparr>"
    using ct_decrypt_accepted [OF ok] by metis
  have wf: "length (ct_decrypt_iv c) = 16" "length (ct_decrypt_history c) = 256" and at: "nonce_at base pos (ct_decrypt_iv c)"
    using inv by (simp_all add: replay_inv_def crypt_wf_def)
  obtain d where len: "length iv = 16" and
    d: "nonce_val iv = (nonce_val (ct_decrypt_iv c) + d) mod 256 ^ 16" and
    win: "if restore then - 29 \<le> d \<and> d \<le> - 1 \<and> ct_decrypt_history c ! unat (iv ! 0) \<noteq> iv ! 1
          else 1 \<le> d \<and> d \<le> 128"
    using recover_iv_window [OF rec wf(1)] by blast
  define q where "q = pos + d"
  have q: "nonce_at base q iv"
    using at d len by (simp add: nonce_at_def q_def mod_simps add.assoc)
  have new: "q \<notin> acc"
  proof
    assume "q \<in> acc"
    then have *: "q \<le> pos" "pos - 29 \<le> q \<Longrightarrow> \<exists>iv. nonce_at base q iv \<and> ct_decrypt_history c ! unat (iv ! 0) = iv ! 1"
      using inv by (auto simp: replay_inv_def)
    then show False using win nonce_at_unique [OF q] by (auto simp: q_def split: if_splits)
  qed
  define pos' where "pos' = (if restore then pos else q)"
  have bounds: "pos - 29 \<le> q" "pos \<le> pos'" "q \<le> pos'" "pos' \<le> pos + 128"
    using win by (auto simp: q_def pos'_def split: if_splits)
  have "replay_inv base pos' (insert q acc) (snd (ct_decrypt aes pkt c))"
  proof -
    have "\<exists>iv'. nonce_at base p iv' \<and> (ct_decrypt_history c)[unat (iv ! 0) := iv ! 1] ! unat (iv' ! 0) = iv' ! 1"
      if p: "p \<in> insert q acc" "pos' - 29 \<le> p" for p
    proof (cases "p = q")
      case True
      then show ?thesis using q wf(2) unat_lt2p_u8 [of "iv ! 0"] by (intro exI [of _ iv]) simp
    next
      case False
      then obtain iv' where iv': "nonce_at base p iv'" "ct_decrypt_history c ! unat (iv' ! 0) = iv' ! 1" and "p \<le> pos"
        using p inv bounds by (auto simp: replay_inv_def)
      then have "iv ! 0 \<noteq> iv' ! 0" using nonce_slots_differ [OF q iv'(1)] False p bounds by auto
      then have "unat (iv ! 0) \<noteq> unat (iv' ! 0)" by (simp add: word_unat_eq_iff)
      then show ?thesis using iv' by (intro exI [of _ iv']) simp
    qed
    then show ?thesis
      using inv bounds q at by (auto simp: replay_inv_def post crypt_wf_def pos'_def len)
  qed
  then show ?thesis using that acc q new bounds by blast
qed

lemma accepted_positions:
  "replay_inv base pos acc c \<Longrightarrow>
   \<exists>qs. list_all2 (nonce_at base) qs (accepted_nonces aes pkts c) \<and> distinct qs \<and> set qs \<inter> acc = {} \<and>
        (\<forall>q\<in>set qs. pos - 29 \<le> q \<and> q \<le> pos + 128 * int (length pkts))"
proof (induction pkts arbitrary: pos acc c)
  case (Cons p ps)
  show ?case
  proof (cases "fst (ct_decrypt aes p c)")
    case None
    then show ?thesis
      using Cons.IH [OF Cons.prems] ct_decrypt_refused [OF None] by (force simp: accepted_nonce_def)
  next
    case (Some m)
    obtain iv q pos' where st: "accepted_nonce aes p c = Some iv" "nonce_at base q iv" "q \<notin> acc"
      "pos - 29 \<le> q" "pos \<le> pos'" "q \<le> pos'" "pos' \<le> pos + 128"
      "replay_inv base pos' (insert q acc) (snd (ct_decrypt aes p c))"
      using replay_inv_step [OF Cons.prems Some] by metis
    obtain qs where "list_all2 (nonce_at base) qs (accepted_nonces aes ps (snd (ct_decrypt aes p c)))"
      "distinct qs" "set qs \<inter> insert q acc = {}"
      "\<forall>q\<in>set qs. pos' - 29 \<le> q \<and> q \<le> pos' + 128 * int (length ps)"
      using Cons.IH [OF st(8)] by blast
    then show ?thesis using st by (intro exI [of _ "q # qs"]) fastforce
  qed
qed simp

lemma distinct_along:
  "list_all2 P qs ivs \<Longrightarrow> distinct qs \<Longrightarrow> (\<And>q q' iv. q \<in> set qs \<Longrightarrow> q' \<in> set qs \<Longrightarrow> P q iv \<Longrightarrow> P q' iv \<Longrightarrow> q = q') \<Longrightarrow>
   distinct ivs"
proof (induction rule: list_all2_induct)
  case (Cons q qs iv ivs)
  have "iv \<notin> set ivs"
  proof
    assume "iv \<in> set ivs"
    then obtain q' where "q' \<in> set qs" "P q' iv" using Cons(2) unfolding list_all2_conv_all_nth by (metis in_set_conv_nth)
    then show False using Cons by auto
  qed
  then show ?case using Cons by auto
qed simp

text \<open>C11. Whatever packets a receiver is given, replayed, reordered or forged, it never accepts two of
  them under the same nonce, as long as the sequence is too short for the 128-bit nonce counter to come
  round (each packet moves it by at most 128).\<close>

theorem no_nonce_accepted_twice:
  assumes "crypt_wf c" "30 + 128 * int (length pkts) < 2 ^ 128"
  shows "distinct (accepted_nonces aes pkts c)"
proof -
  have "replay_inv (nonce_val (ct_decrypt_iv c)) 0 {} c"
    using assms(1) nonce_val_bounds [of "ct_decrypt_iv c"] by (simp add: replay_inv_def crypt_wf_def nonce_at_def mod_pos_pos_trivial)
  then obtain qs where *: "list_all2 (nonce_at (nonce_val (ct_decrypt_iv c))) qs (accepted_nonces aes pkts c)" "distinct qs"
    "\<forall>q\<in>set qs. 0 - 29 \<le> q \<and> q \<le> 0 + 128 * int (length pkts)"
    using accepted_positions by blast
  have "q = q'" if "q \<in> set qs" "q' \<in> set qs" "nonce_at (nonce_val (ct_decrypt_iv c)) q iv"
    "nonce_at (nonce_val (ct_decrypt_iv c)) q' iv" for q q' iv
  proof -
    have "- 29 \<le> q" "q \<le> 128 * int (length pkts)" "- 29 \<le> q'" "q' \<le> 128 * int (length pkts)"
      using *(3) that(1,2) by auto
    then have "\<bar>q - q'\<bar> < 256 ^ 16" using assms(2) by simp
    then show ?thesis by (rule nonce_at_inj [OF that(3,4)])
  qed
  then show ?thesis using distinct_along [OF *(1,2)] by blast
qed

section \<open>A concrete cipher\<close>

text \<open>A block function that satisfies the contract, to evaluate the model on: the exclusive or with the
  key.\<close>

definition xor_cipher :: aes_api where
  "xor_cipher = \<lparr>aes_encrypt_block = xor_block, aes_decrypt_block = xor_block\<rparr>"

lemma xor_cipher_spec [simp]: "aes_spec xor_cipher"
  by (simp add: aes_spec_def xor_cipher_def)

definition sample_sender :: crypt_state where
  "sample_sender = ct_new (map word_of_nat [1..<17]) (map word_of_nat [250..<266]) (replicate 16 7)"

definition sample_receiver :: crypt_state where
  "sample_receiver = ct_new (map word_of_nat [1..<17]) (replicate 16 7) (map word_of_nat [250..<266])"

lemma sample_wf [simp]: "crypt_wf sample_sender" "crypt_wf sample_receiver"
  by (simp_all add: crypt_wf_def sample_sender_def sample_receiver_def ct_new_def)

theorem no_nonce_accepted_twice_witness:
  "let p = fst (ct_encrypt xor_cipher [1, 2, 3] sample_sender)
   in length (accepted_nonces xor_cipher [p, p] sample_receiver) = 1 \<and>
      distinct (accepted_nonces xor_cipher [p, p] sample_receiver)"
proof -
  have "length (accepted_nonces xor_cipher [p, p] sample_receiver) = 1"
    if "p = fst (ct_encrypt xor_cipher [1, 2, 3] sample_sender)" for p
    unfolding that by code_simp
  then show ?thesis
    using no_nonce_accepted_twice [OF sample_wf(2), of "[p, p]" xor_cipher for p] by (simp add: Let_def)
qed

section \<open>Packets that are opened\<close>

text \<open>The nonce \<open>d\<close> ahead of the receiver's is recovered from its low byte.\<close>

lemma recover_iv_ahead:
  assumes "length (ct_decrypt_iv c) = 16" "length iv = 16"
    and "nonce_val iv = (nonce_val (ct_decrypt_iv c) + d) mod 256 ^ 16" "1 \<le> d" "d \<le> 127"
    and "d = 1 \<or> ct_decrypt_history c ! unat (iv ! 0) \<noteq> iv ! 1"
  shows "recover_iv (iv ! 0) c = Some (iv, False, 0, d - 1)"
proof -
  obtain x bs where x: "ct_decrypt_iv c = x # bs" "length bs = 15" using assms(1) by (rule length_16E)
  obtain y cs where y: "iv = y # cs" using assms(2) by (rule length_16E)
  have bounds: "0 \<le> uint x" "uint x < 256" "0 \<le> uint y" "uint y < 256" using uint_lt2p [of x] uint_lt2p [of y] by simp_all
  have "uint y = nonce_val iv mod 256" using nonce_val_low [of iv] y by simp
  also have "\<dots> = (uint x + d + 256 * nonce_val bs) mod 256" by (simp add: assms(3) x mod_mod_cancel ac_simps)
  also have "\<dots> = (uint x + d) mod 256" by (rule mod_mult_self2)
  finally have low: "uint y = (uint x + d) mod 256" .
  consider (near) "uint y = uint x + d" | (wrap) "uint y = uint x + d - 256"
  proof (cases "uint x + d < 256")
    case True
    then show ?thesis using low bounds assms(4) near by (simp add: mod_pos_pos_trivial)
  next
    case False
    then have "uint y = uint x + d - 256"
      using low bounds assms(5) mod_pos_geq [of 256 "uint x + d"] mod_pos_pos_trivial [of "uint x + d - 256" 256]
      by linarith
    then show ?thesis by (rule wrap)
  qed
  then show ?thesis
  proof cases
    case near
    have "iv = y # bs"
      using assms(2,3) nonce_val_low_byte(1) [OF x(2), of y x] near by (intro nonce_val_inj) (simp_all add: x)
    then show ?thesis using near assms(4-6) bounds x uint_succ_u8 [of x]
      by (auto simp: recover_iv_def Let_def next_iv_byte word_less_def word_uint_eq_iff uint_word_ariths mod_pos_pos_trivial split: if_splits)
  next
    case wrap
    have "iv = y # inc_bytes bs"
      using assms(2,3) nonce_val_low_byte(2) [OF x(2), of y x] wrap by (intro nonce_val_inj) (simp_all add: x)
    then show ?thesis using wrap assms(4-6) bounds x uint_succ_u8 [of x]
      by (auto simp: recover_iv_def Let_def next_iv_byte word_less_def word_uint_eq_iff split: if_splits)
  qed
qed

text \<open>A sender and a receiver share the key, and the sender's nonce is \<open>d - 1\<close> packets ahead of the
  receiver's, those packets having been lost. Then the sender's next packet is opened: it gives back the
  message, moves the receiver to the sender's nonce, counts it as good and the packets before it as lost.
  For the next packet in order this holds unconditionally; after a loss of up to 126 packets the nonce must
  not be the one recorded for its low byte.\<close>

lemma crypt_packet_opens:
  assumes "aes_spec aes" "crypt_wf s" "crypt_wf r" "ct_key s = ct_key r" "1 \<le> d" "d \<le> 127"
    and "nonce_val (ct_encrypt_iv s) = (nonce_val (ct_decrypt_iv r) + (d - 1)) mod 2 ^ 128"
    and "ct_encrypt aes msg s = (pkt, s')"
    and "d = 1 \<or> ct_decrypt_history r ! unat (ct_encrypt_iv s' ! 0) \<noteq> ct_encrypt_iv s' ! 1"
  shows "length pkt = length msg + 4 \<and> (\<exists>r'. ct_decrypt aes pkt r = (Some msg, r') \<and> crypt_wf s' \<and> crypt_wf r' \<and>
      ct_decrypt_iv r' = ct_encrypt_iv s' \<and> ct_key r' = ct_key s' \<and>
      ct_good r' = ct_good r + 1 \<and> ct_lost r' = ct_lost r + word_of_int (d - 1))"
proof -
  define iv where "iv = inc_bytes (ct_encrypt_iv s)"
  obtain cipher tag where enc: "ocb_encrypt aes (ct_key r) msg iv = (cipher, tag)" by fastforce
  have len: "length iv = 16" "length (ct_key r) = 16" "length (ct_decrypt_iv r) = 16"
    using assms by (simp_all add: iv_def crypt_wf_def)
  have pkt: "pkt = (iv ! 0) # take 3 tag @ cipher" and s': "s' = s\<lparr>ct_encrypt_iv := iv\<rparr>"
    using assms(4,8) enc by (simp_all add: ct_encrypt_def Let_def iv_def [symmetric])
  have tag: "length tag = 16" using enc ocb_tag_length [OF assms(1) len(2,1)] by (metis snd_conv)
  have dec: "ocb_decrypt aes (ct_key r) cipher iv = (msg, tag)" and cl: "length cipher = length msg"
    using ocb_inverse [OF assms(1) len(2,1), of msg] enc by simp_all
  have "nonce_val iv = (nonce_val (ct_decrypt_iv r) + d) mod 256 ^ 16"
    using assms(2,7) by (simp add: iv_def nonce_val_inc crypt_wf_def mod_simps)
  then have rec: "recover_iv (iv ! 0) r = Some (iv, False, 0, d - 1)"
    using recover_iv_ahead [OF len(3,1)] assms(5,6,9) s' by simp
  have "ct_decrypt aes pkt r = (Some msg, r\<lparr>ct_decrypt_iv := iv,
      ct_decrypt_history := (ct_decrypt_history r)[unat (iv ! 0) := iv ! 1],
      ct_good := ct_good r + 1, ct_late := ct_late r + 0,
      ct_lost := (if 0 < d - 1 then ct_lost r + word_of_int (d - 1) else ct_lost r)\<rparr>)"
    using tag by (simp add: ct_decrypt_def pkt rec dec)
  then show ?thesis using assms tag len s' cl by (auto simp: pkt crypt_wf_def)
qed

text \<open>The replay history starts as zeros, so a receiver whose nonce has second byte zero takes the first
  packet after a loss for a replay.\<close>

lemma unseen_packet_refused:
  assumes "uint x + 1 < uint y" "uint y - uint x \<le> 128"
  shows "recover_iv y (ct_new key eiv (x # 0 # bs)) = None"
proof -
  have "x + 1 \<noteq> y" using assms(1) uint_succ_u8 [of x] uint_ge_0 [of x] by (cases "uint x = 255") auto
  then show ?thesis
    using assms by (simp add: recover_iv_def ct_new_def Let_def next_iv_byte word_less_def unat_lt2p_u8)
qed

end
