(* ===== verification/Voice_Framing.thy ===== *)
theory Voice_Framing
  imports Voice_Pds
begin

text \<open>
  The frames of the voice control channel, \<open>crates/baston-voice/src/framing.rs\<close>: the message type table,
  the six-byte preamble and the size limit. The protobuf coding of a message (the \<open>prost\<close> crate) is an
  argument: its encoder gives the payload bytes, its decoder a message or an error.
\<close>

section \<open>Frames\<close>

definition PREAMBLE_SIZE :: nat where "PREAMBLE_SIZE = 6"
definition MAX_MSGSIZE :: nat where "MAX_MSGSIZE = 8192 - PREAMBLE_SIZE"

datatype message_type =
    MtVersion | MtUdpTunnel | MtAuthenticate | MtPing | MtReject | MtServerSync | MtChannelRemove
  | MtChannelState | MtUserRemove | MtUserState | MtBanList | MtTextMessage | MtPermissionDenied | MtAcl
  | MtQueryUsers | MtCryptSetup | MtContextActionModify | MtContextAction | MtUserList | MtVoiceTarget
  | MtPermissionQuery | MtCodecVersion | MtUserStats | MtRequestBlob | MtServerConfig | MtSuggestConfig

text \<open>The discriminants of the enumeration.\<close>

fun tag :: "message_type \<Rightarrow> u16" where
  "tag MtVersion = 0" | "tag MtUdpTunnel = 1" | "tag MtAuthenticate = 2" | "tag MtPing = 3"
| "tag MtReject = 4" | "tag MtServerSync = 5" | "tag MtChannelRemove = 6" | "tag MtChannelState = 7"
| "tag MtUserRemove = 8" | "tag MtUserState = 9" | "tag MtBanList = 10" | "tag MtTextMessage = 11"
| "tag MtPermissionDenied = 12" | "tag MtAcl = 13" | "tag MtQueryUsers = 14" | "tag MtCryptSetup = 15"
| "tag MtContextActionModify = 16" | "tag MtContextAction = 17" | "tag MtUserList = 18"
| "tag MtVoiceTarget = 19" | "tag MtPermissionQuery = 20" | "tag MtCodecVersion = 21"
| "tag MtUserStats = 22" | "tag MtRequestBlob = 23" | "tag MtServerConfig = 24" | "tag MtSuggestConfig = 25"

definition from_u16 :: "u16 \<Rightarrow> message_type option" where
  "from_u16 = map_of
     [(0, MtVersion), (1, MtUdpTunnel), (2, MtAuthenticate), (3, MtPing), (4, MtReject), (5, MtServerSync),
      (6, MtChannelRemove), (7, MtChannelState), (8, MtUserRemove), (9, MtUserState), (10, MtBanList),
      (11, MtTextMessage), (12, MtPermissionDenied), (13, MtAcl), (14, MtQueryUsers), (15, MtCryptSetup),
      (16, MtContextActionModify), (17, MtContextAction), (18, MtUserList), (19, MtVoiceTarget),
      (20, MtPermissionQuery), (21, MtCodecVersion), (22, MtUserStats), (23, MtRequestBlob),
      (24, MtServerConfig), (25, MtSuggestConfig)]"

datatype frame_error = TooLarge nat | UnknownType u16 | Decode message_type

record preamble =
  pre_ty :: u16
  pre_len :: u32

definition preamble_parse :: "u8 list \<Rightarrow> preamble option" where
  "preamble_parse buf =
     (if length buf < PREAMBLE_SIZE then None
      else Some \<lparr>pre_ty = from_be_bytes [buf ! 0, buf ! 1],
                 pre_len = from_be_bytes [buf ! 2, buf ! 3, buf ! 4, buf ! 5]\<rparr>)"

definition frame_len :: "preamble \<Rightarrow> nat" where
  "frame_len p = PREAMBLE_SIZE + unat (pre_len p)"

definition frame_encode :: "('m \<Rightarrow> u8 list) \<Rightarrow> message_type \<Rightarrow> 'm \<Rightarrow> frame_error + u8 list" where
  "frame_encode encode ty msg =
     (let len = length (encode msg) in
      if MAX_MSGSIZE < len then Inl (TooLarge len)
      else Inr (to_be_bytes 2 (tag ty) @ to_be_bytes 4 (of_nat len :: u32) @ encode msg))"

text \<open>The size test on integers, for evaluation.\<close>

lemma frame_encode_code [code]:
  "frame_encode encode ty msg =
     (let len = length (encode msg) in
      if 8186 < int len then Inl (TooLarge len)
      else Inr (to_be_bytes 2 (tag ty) @ to_be_bytes 4 (of_nat len :: u32) @ encode msg))"
  by (simp add: frame_encode_def MAX_MSGSIZE_def PREAMBLE_SIZE_def)

definition frame_decode :: "(u8 list \<Rightarrow> 'm option) \<Rightarrow> message_type \<Rightarrow> u8 list \<Rightarrow> frame_error + 'm" where
  "frame_decode decode ty payload = (case decode payload of None \<Rightarrow> Inl (Decode ty) | Some m \<Rightarrow> Inr m)"

section \<open>The read loop\<close>

text \<open>What \<open>run_client\<close> reads from a connection that delivers the given bytes and then ends: the messages it
  hands to the handler, in order. A frame with an unknown tag is skipped, an oversized or truncated one
  ends the connection.\<close>

function client_frames :: "u8 list \<Rightarrow> (message_type \<times> u8 list) list" where
  "client_frames stream =
     (case preamble_parse (take PREAMBLE_SIZE stream) of
        None \<Rightarrow> []
      | Some pre \<Rightarrow>
          if MAX_MSGSIZE < unat (pre_len pre) then []
          else if length stream < frame_len pre then []
          else let payload = take (unat (pre_len pre)) (drop PREAMBLE_SIZE stream);
                   rest = drop (frame_len pre) stream
               in case from_u16 (pre_ty pre) of
                    None \<Rightarrow> client_frames rest
                  | Some ty \<Rightarrow> (ty, payload) # client_frames rest)"
  by pat_completeness auto
termination
  by (relation "measure length") (auto simp: preamble_parse_def PREAMBLE_SIZE_def frame_len_def split: if_splits)

declare client_frames.simps [simp del]

lemma from_u16_tag [simp]: "from_u16 (tag ty) = Some ty"
  by (cases ty) (simp_all add: from_u16_def)

lemma tag_from_u16: "from_u16 v = Some ty \<Longrightarrow> tag ty = v"
  by (auto simp: from_u16_def split: if_splits)

lemma list_of_length:
  "length xs = 2 \<Longrightarrow> xs = [xs ! 0, xs ! 1]"
  "length ys = 4 \<Longrightarrow> ys = [ys ! 0, ys ! 1, ys ! 2, ys ! 3]"
  by (auto simp: list_eq_iff_nth_eq less_Suc_eq numeral_eq_Suc)

lemma preamble_of_frame:
  assumes "length a = 2" "length b = 4"
  shows "preamble_parse (a @ b @ c) = Some \<lparr>pre_ty = from_be_bytes a, pre_len = from_be_bytes b\<rparr>"
  using assms list_of_length(1) [of a] list_of_length(2) [of b]
  by (simp add: preamble_parse_def PREAMBLE_SIZE_def nth_append)

text \<open>A frame at the head of the stream is read as one message.\<close>

lemma client_frames_frame:
  assumes "frame_encode encode ty msg = Inr frame"
  shows "client_frames (frame @ stream) = (ty, encode msg) # client_frames stream"
proof -
  have len: "length (encode msg) \<le> 8186" and
    frame: "frame = to_be_bytes 2 (tag ty) @ to_be_bytes 4 (of_nat (length (encode msg)) :: u32) @ encode msg"
    using assms by (auto simp: frame_encode_def Let_def MAX_MSGSIZE_def PREAMBLE_SIZE_def split: if_splits)
  have u: "unat (of_nat (length (encode msg)) :: u32) = length (encode msg)"
    using len by (simp add: unsigned_of_nat take_bit_nat_eq_self)
  have p: "preamble_parse (take PREAMBLE_SIZE (frame @ stream)) =
      Some \<lparr>pre_ty = tag ty, pre_len = of_nat (length (encode msg))\<rparr>"
    using preamble_of_frame [of "to_be_bytes 2 (tag ty)" "to_be_bytes 4 (of_nat (length (encode msg)) :: u32)" "[]"]
    by (simp add: frame PREAMBLE_SIZE_def)
  show ?thesis
    using len by (subst client_frames.simps, subst p) (simp add: u frame frame_len_def MAX_MSGSIZE_def PREAMBLE_SIZE_def)
qed

text \<open>Any sequence of messages whose payloads fit the size limit, framed and sent back to back, is read
  by the control loop as exactly these messages in order, however the bytes after them continue; and
  reading always ends.\<close>

theorem control_stream_roundtrip:
  assumes "list_all2 (\<lambda>(ty, msg) frame. frame_encode encode ty msg = Inr frame) msgs frames"
  shows "client_frames (concat frames @ stream) = map (\<lambda>(ty, msg). (ty, encode msg)) msgs @ client_frames stream"
  using assms by (induction rule: list_all2_induct) (auto simp: client_frames_frame)

theorem control_stream_roundtrip_witness:
  "client_frames ([0, 3, 0, 0, 0, 2, 7, 8] @ [0, 1, 0, 0, 0, 0] @ [0, 99]) = [(MtPing, [7, 8]), (MtUdpTunnel, [])]"
proof -
  have "client_frames (concat [[0, 3, 0, 0, 0, 2, 7, 8], [0, 1, 0, 0, 0, 0]] @ [0, 99]) =
      map (\<lambda>(ty, msg). (ty, id msg)) [(MtPing, [7, 8]), (MtUdpTunnel, [])] @ client_frames [0, 99]"
    by (rule control_stream_roundtrip) (simp add: frame_encode_def, code_simp)
  moreover have "client_frames [0, 99] = []" by code_simp
  ultimately show ?thesis by simp
qed

end
