(* ===== verification/Voice_Server.thy ===== *)
theory Voice_Server
  imports Voice_Router Voice_Crypto Voice_Framing
begin

text \<open>
  The voice server's shared state and everything that changes it under its lock:
  \<open>crates/baston-voice/src/server/mod.rs\<close> (the state, the handle of the script natives, the routing of one
  datagram), \<open>server/control.rs\<close> (the control messages of a client and its teardown) and \<open>server/udp.rs\<close>
  (identifying and opening a datagram, the probe reply). What a handler sends is the list it returns beside
  the new state. Arguments: the block cipher, the protobuf coding, the random key material of a login and
  the name of the operating system. An overall \<open>None\<close> is a panic.
\<close>

section \<open>Messages\<close>

record pb_user_state =
  us_session :: "u32 option"
  us_name :: "string option"
  us_channel_id :: "u32 option"
  us_mute :: "bool option"
  us_deaf :: "bool option"
  us_self_mute :: "bool option"
  us_self_deaf :: "bool option"
  us_plugin_context :: "u8 list option"
  us_listening_channel_add :: "u32 list"
  us_listening_channel_remove :: "u32 list"

definition user_state_default :: pb_user_state where
  "user_state_default = \<lparr>us_session = None, us_name = None, us_channel_id = None, us_mute = None, us_deaf = None,
     us_self_mute = None, us_self_deaf = None, us_plugin_context = None, us_listening_channel_add = [],
     us_listening_channel_remove = []\<rparr>"

text \<open>The messages the server sends, with the fields it sets.\<close>

datatype control_msg =
    PbVersion u32 string string
  | PbUdpTunnel "u8 list"
  | PbPing "u64 option" u32 u32 u32 u32
  | PbReject string
  | PbServerSync u32 u32 string u64
  | PbChannelState u32 "u32 option" string bool
  | PbUserRemove u32
  | PbUserState pb_user_state
  | PbCryptSetup "u8 list option" "u8 list option" "u8 list option"
  | PbPermissionQuery "u32 option" u32 bool
  | PbCodecVersion int int bool bool

text \<open>One entry of a \<open>VoiceTarget\<close> message: sessions, channel, links, children.\<close>

record pb_target =
  pt_session :: "u32 list"
  pt_channel_id :: "u32 option"
  pt_links :: "bool option"
  pt_children :: "bool option"

record prost_api =
  pb_encode :: "control_msg \<Rightarrow> u8 list"
  pb_authenticate :: "u8 list \<Rightarrow> string option option"
  pb_ping :: "u8 list \<Rightarrow> u64 option option"
  pb_user_state :: "u8 list \<Rightarrow> pb_user_state option"
  pb_voice_target :: "u8 list \<Rightarrow> (u32 option \<times> pb_target list) option"
  pb_udp_tunnel :: "u8 list \<Rightarrow> u8 list option"
  pb_crypt_setup :: "u8 list \<Rightarrow> u8 list option option"
  pb_permission_query :: "u8 list \<Rightarrow> u32 option option"
  host_os :: string

section \<open>State\<close>

type_synonym sock_addr = nat
type_synonym position = "f32_bits \<times> f32_bits \<times> f32_bits"

record voice_state =
  st_sessions :: session_registry
  st_channels :: channel_store
  st_control_tx :: "(u32 \<times> nat) list"
  st_crypt :: "(u32 \<times> crypt_state) list"
  st_udp_addr :: "(u32 \<times> sock_addr) list"
  st_addr_index :: "(sock_addr \<times> u32) list"
  st_proximity :: "(u32 \<times> position) list"

text \<open>Bytes queued to the writer of a control connection, or a datagram.\<close>

datatype voice_out = OutControl nat "u8 list" | OutUdp sock_addr "u8 list"

definition st_new :: voice_state where
  "st_new = \<lparr>st_sessions = [], st_channels = cst_new, st_control_tx = [], st_crypt = [], st_udp_addr = [],
     st_addr_index = [], st_proximity = []\<rparr>"

definition send_control :: "u32 \<Rightarrow> u8 list \<Rightarrow> voice_state \<Rightarrow> voice_out list" where
  "send_control session frame st =
     (case map_of (st_control_tx st) session of None \<Rightarrow> [] | Some tx \<Rightarrow> [OutControl tx frame])"

definition broadcast_control :: "u8 list \<Rightarrow> u32 option \<Rightarrow> voice_state \<Rightarrow> voice_out list" where
  "broadcast_control frame except st =
     map (\<lambda>(session, tx). OutControl tx frame) (filter (\<lambda>(session, tx). Some session \<noteq> except) (st_control_tx st))"

text \<open>A message framed and broadcast when it fits.\<close>

definition broadcast_msg :: "prost_api \<Rightarrow> message_type \<Rightarrow> control_msg \<Rightarrow> u32 option \<Rightarrow> voice_state \<Rightarrow> voice_out list" where
  "broadcast_msg pb ty msg except st =
     (case frame_encode (pb_encode pb) ty msg of Inl e \<Rightarrow> [] | Inr frame \<Rightarrow> broadcast_control frame except st)"

section \<open>Teardown and the handle\<close>

text \<open>\<open>teardown\<close> of a closed connection and \<open>on_player_dropped\<close> of the handle have the same body.\<close>

definition teardown :: "prost_api \<Rightarrow> u32 \<Rightarrow> voice_state \<Rightarrow> voice_state \<times> voice_out list" where
  "teardown pb netid st =
     (case sr_remove netid (st_sessions st) of
        (None, _) \<Rightarrow> (st, [])
      | (Some _, sessions) \<Rightarrow>
          let st1 = st\<lparr>st_sessions := sessions, st_channels := drop_session netid (st_channels st),
                st_crypt := AList.delete netid (st_crypt st),
                st_control_tx := AList.delete netid (st_control_tx st),
                st_proximity := AList.delete netid (st_proximity st)\<rparr>;
              st2 = (case map_of (st_udp_addr st1) netid of
                       None \<Rightarrow> st1
                     | Some addr \<Rightarrow> st1\<lparr>st_udp_addr := AList.delete netid (st_udp_addr st1),
                                       st_addr_index := AList.delete addr (st_addr_index st1)\<rparr>)
          in (st2, broadcast_msg pb MtUserRemove (PbUserRemove netid) None st2))"

definition on_player_dropped :: "prost_api \<Rightarrow> u32 \<Rightarrow> voice_state \<Rightarrow> voice_state \<times> voice_out list" where
  "on_player_dropped pb netid st = teardown pb netid st"

text \<open>The announcement of a channel the server just created.\<close>

definition announce_channel :: "channel_store \<Rightarrow> u32 \<Rightarrow> control_msg" where
  "announce_channel channels i =
     (case cst_get i channels of
        Some ch \<Rightarrow> PbChannelState (ch_id ch) (Some (ch_parent ch)) (ch_name ch) False
      | None \<Rightarrow> PbChannelState i (Some ROOT_CHANNEL) [] False)"

definition create_channel :: "prost_api \<Rightarrow> u32 \<Rightarrow> voice_state \<Rightarrow> voice_state \<times> voice_out list" where
  "create_channel pb i st =
     (if channel_exists i (st_channels st) then (st, [])
      else let st1 = st\<lparr>st_channels := create_game_channel i (st_channels st)\<rparr>
           in (st1, broadcast_msg pb MtChannelState (announce_channel (st_channels st1) i) None st1))"

definition vh_channel_exists :: "u32 \<Rightarrow> voice_state \<Rightarrow> bool" where
  "vh_channel_exists i st = channel_exists i (st_channels st)"

definition set_player_muted :: "prost_api \<Rightarrow> u32 \<Rightarrow> bool \<Rightarrow> voice_state \<Rightarrow> voice_state \<times> voice_out list" where
  "set_player_muted pb netid muted st =
     (case sr_get netid (st_sessions st) of
        None \<Rightarrow> (st, [])
      | Some _ \<Rightarrow>
          let st1 = st\<lparr>st_sessions := sr_update netid (\<lambda>s. s\<lparr>vs_mute := muted\<rparr>) (st_sessions st)\<rparr>
          in (st1, broadcast_msg pb MtUserState
                (PbUserState (user_state_default\<lparr>us_session := Some netid, us_mute := Some muted\<rparr>)) None st1))"

definition is_player_muted :: "u32 \<Rightarrow> voice_state \<Rightarrow> bool" where
  "is_player_muted netid st = (case sr_get netid (st_sessions st) of None \<Rightarrow> False | Some s \<Rightarrow> vs_mute s)"

definition set_proximity_override :: "u32 \<Rightarrow> position option \<Rightarrow> voice_state \<Rightarrow> voice_state" where
  "set_proximity_override netid position st =
     st\<lparr>st_proximity := (case position of Some p \<Rightarrow> AList.update netid p (st_proximity st)
                                       | None \<Rightarrow> AList.delete netid (st_proximity st))\<rparr>"

definition proximity_override :: "u32 \<Rightarrow> voice_state \<Rightarrow> position" where
  "proximity_override netid st = (case map_of (st_proximity st) netid of None \<Rightarrow> (0, 0, 0) | Some p \<Rightarrow> p)"

section \<open>Routing a datagram\<close>

text \<open>One recipient of the routing loop.\<close>

definition deliver :: "aes_api \<Rightarrow> prost_api \<Rightarrow> u32 \<Rightarrow> voice_packet \<Rightarrow> recipient \<Rightarrow> voice_state \<Rightarrow>
    (voice_state \<times> voice_out list) option" where
  "deliver aes pb speaker packet r st =
     do { out \<leftarrow> encode_outbound (ucast speaker) packet (rc_with_position r);
          Some (case (map_of (st_udp_addr st) (rc_session r), map_of (st_crypt st) (rc_session r)) of
             (Some addr, Some crypt) \<Rightarrow>
               (case ct_encrypt aes out crypt of
                  (encrypted, crypt') \<Rightarrow> (st\<lparr>st_crypt := AList.update (rc_session r) crypt' (st_crypt st)\<rparr>, [OutUdp addr encrypted]))
           | _ \<Rightarrow>
               (case frame_encode (pb_encode pb) MtUdpTunnel (PbUdpTunnel out) of
                  Inl e \<Rightarrow> (st, [])
                | Inr frame \<Rightarrow> (st, send_control (rc_session r) frame st))) }"

fun deliver_all :: "aes_api \<Rightarrow> prost_api \<Rightarrow> u32 \<Rightarrow> voice_packet \<Rightarrow> recipient list \<Rightarrow> voice_state \<Rightarrow>
    (voice_state \<times> voice_out list) option" where
  "deliver_all aes pb speaker packet [] st = Some (st, [])"
| "deliver_all aes pb speaker packet (r # rs) st =
     do { (st1, outs1) \<leftarrow> deliver aes pb speaker packet r st;
          (st2, outs2) \<leftarrow> deliver_all aes pb speaker packet rs st1;
          Some (st2, outs1 @ outs2) }"

definition route_voice :: "aes_api \<Rightarrow> prost_api \<Rightarrow> u32 \<Rightarrow> u8 list \<Rightarrow> voice_state \<Rightarrow>
    (voice_state \<times> voice_out list) option" where
  "route_voice aes pb speaker datagram st =
     (case parse datagram of
        None \<Rightarrow> Some (st, [])
      | Some packet \<Rightarrow>
          deliver_all aes pb speaker packet
            (resolve speaker packet (st_sessions st) (st_channels st) no_culling) st)"

section \<open>Control messages\<close>

record client_conn =
  cn_session :: "u32 option"
  cn_out_tx :: nat

definition conn_send :: "prost_api \<Rightarrow> message_type \<Rightarrow> control_msg \<Rightarrow> client_conn \<Rightarrow> voice_out list" where
  "conn_send pb ty msg cn =
     (case frame_encode (pb_encode pb) ty msg of Inl e \<Rightarrow> [] | Inr frame \<Rightarrow> [OutControl (cn_out_tx cn) frame])"

definition frame_ok :: "frame_error + u8 list \<Rightarrow> u8 list list" where
  "frame_ok r = (case r of Inl e \<Rightarrow> [] | Inr frame \<Rightarrow> [frame])"

definition channel_frames :: "prost_api \<Rightarrow> voice_state \<Rightarrow> u8 list list" where
  "channel_frames pb st =
     concat (map (\<lambda>ch. frame_ok (frame_encode (pb_encode pb) MtChannelState
       (PbChannelState (ch_id ch) (if ch_id ch \<noteq> ROOT_CHANNEL then Some (ch_parent ch) else None)
          (ch_name ch) (ch_temporary ch)))) (cst_iter (st_channels st)))"

definition user_frames :: "prost_api \<Rightarrow> voice_state \<Rightarrow> u8 list list" where
  "user_frames pb st =
     concat (map (\<lambda>ch. concat (map (\<lambda>member.
       (case sr_get member (st_sessions st) of
          None \<Rightarrow> []
        | Some sess \<Rightarrow> frame_ok (frame_encode (pb_encode pb) MtUserState (PbUserState
            (user_state_default\<lparr>us_session := Some (vs_id sess), us_name := Some (vs_name sess),
               us_channel_id := Some (ch_id ch), us_mute := Some (vs_mute sess), us_deaf := Some (vs_deaf sess),
               us_self_deaf := Some (vs_self_deaf sess)\<rparr>))))) (ch_members ch))) (cst_iter (st_channels st)))"

text \<open>The key and the two nonces drawn at a login; \<open>None\<close> when the generator fails.\<close>

type_synonym login_random = "(u8 list \<times> u8 list \<times> u8 list) option"

definition handle_authenticate :: "prost_api \<Rightarrow> login_random \<Rightarrow> u8 list \<Rightarrow> client_conn \<Rightarrow> voice_state \<Rightarrow>
    bool \<times> client_conn \<times> voice_state \<times> voice_out list" where
  "handle_authenticate pb rnd payload cn st =
     (case frame_decode (pb_authenticate pb) MtAuthenticate payload of
        Inl e \<Rightarrow> (False, cn, st, [])
      | Inr auth \<Rightarrow>
          let username = (case auth of None \<Rightarrow> [] | Some u \<Rightarrow> u) in
          case parse_netid username of
            None \<Rightarrow> (False, cn, st,
              conn_send pb MtReject (PbReject (''expected a FiveM '' @ [CHR 0x22] @ ''[netId]'' @ [CHR 0x22] @ '' username'')) cn)
          | Some netid \<Rightarrow>
              (case rnd of
                 None \<Rightarrow> (False, cn, st, [])
               | Some (key, server_nonce, client_nonce) \<Rightarrow>
                   let st1 = st\<lparr>st_sessions := sr_insert netid username (st_sessions st),
                         st_channels := snd (join netid ROOT_CHANNEL (st_channels st)),
                         st_crypt := AList.update netid (ct_new key server_nonce client_nonce) (st_crypt st),
                         st_control_tx := AList.update netid (cn_out_tx cn) (st_control_tx st)\<rparr>;
                       news = broadcast_msg pb MtUserState (PbUserState (user_state_default\<lparr>us_session := Some netid,
                         us_name := Some username, us_channel_id := Some ROOT_CHANNEL\<rparr>)) (Some netid) st1;
                       burst = conn_send pb MtCryptSetup (PbCryptSetup (Some key) (Some client_nonce) (Some server_nonce)) cn @
                         conn_send pb MtCodecVersion (PbCodecVersion (- 2147483637) 0 True True) cn @
                         map (OutControl (cn_out_tx cn)) (channel_frames pb st1) @
                         map (OutControl (cn_out_tx cn)) (user_frames pb st1) @
                         conn_send pb MtServerSync (PbServerSync netid 128000 ''BASTON voice'' 0x0f07ffff) cn
                   in (True, cn\<lparr>cn_session := Some netid\<rparr>, st1, news @ burst)))"

definition handle_user_state :: "prost_api \<Rightarrow> pb_user_state \<Rightarrow> client_conn \<Rightarrow> voice_state \<Rightarrow> voice_state \<times> voice_out list" where
  "handle_user_state pb us cn st =
     (case cn_session cn of
        None \<Rightarrow> (st, [])
      | Some netid \<Rightarrow>
          let echo0 = user_state_default\<lparr>us_session := Some netid\<rparr>;
              present = sr_get netid (st_sessions st) \<noteq> None;
              echo1 = (if present \<and> us_self_mute us \<noteq> None then echo0\<lparr>us_self_mute := us_self_mute us\<rparr> else echo0);
              echo2 = (if present \<and> us_self_deaf us \<noteq> None then echo1\<lparr>us_self_deaf := us_self_deaf us\<rparr> else echo1);
              sessions = sr_update netid (\<lambda>s.
                let s1 = (case us_self_deaf us of None \<Rightarrow> s | Some v \<Rightarrow> s\<lparr>vs_self_deaf := v\<rparr>)
                in case us_plugin_context us of None \<Rightarrow> s1 | Some ctx \<Rightarrow> s1\<lparr>vs_context := Some ctx\<rparr>) (st_sessions st);
              st1 = st\<lparr>st_sessions := sessions\<rparr>;
              (st2, echo3, announce) =
                (case us_channel_id us of
                   None \<Rightarrow> (st1, echo2, [])
                 | Some channel_id \<Rightarrow>
                     let fresh = \<not> channel_exists channel_id (st_channels st1);
                         channels = (if fresh then create_game_channel channel_id (st_channels st1) else st_channels st1)
                     in (st1\<lparr>st_channels := snd (join netid channel_id channels)\<rparr>,
                         echo2\<lparr>us_channel_id := Some channel_id\<rparr>,
                         if fresh then frame_ok (frame_encode (pb_encode pb) MtChannelState
                           (announce_channel channels channel_id)) else []));
              channels3 = fold (\<lambda>c. set_listening netid c True) (us_listening_channel_add us) (st_channels st2);
              channels4 = fold (\<lambda>c. set_listening netid c False) (us_listening_channel_remove us) channels3;
              st3 = st2\<lparr>st_channels := channels4\<rparr>
          in (st3, concat (map (\<lambda>f. broadcast_control f None st3) announce) @
                   broadcast_msg pb MtUserState (PbUserState echo3) None st3))"

definition target_of_msg :: "pb_target list \<Rightarrow> voice_target" where
  "target_of_msg ts =
     \<lparr>vt_sessions = concat (map pt_session ts),
      vt_channels = List.map_filter (\<lambda>t. map_option (\<lambda>c. \<lparr>ct_channel_id = c,
        ct_links = (pt_links t = Some True), ct_children = (pt_children t = Some True)\<rparr>) (pt_channel_id t)) ts\<rparr>"

definition handle_voice_target :: "u32 option \<times> pb_target list \<Rightarrow> client_conn \<Rightarrow> voice_state \<Rightarrow> voice_state" where
  "handle_voice_target vt cn st =
     (case cn_session cn of
        None \<Rightarrow> st
      | Some netid \<Rightarrow>
          (case fst vt of
             None \<Rightarrow> st
           | Some i \<Rightarrow>
               if 255 < unat i then st
               else let id8 = ucast i;
                        upd = (if snd vt = [] then tr_clear id8 else tr_set id8 (target_of_msg (snd vt)))
                    in st\<lparr>st_sessions := sr_update netid (\<lambda>s. s\<lparr>vs_targets := upd (vs_targets s)\<rparr>) (st_sessions st)\<rparr>))"

text \<open>A \<open>CryptSetup\<close> message: adopt the client's nonce, or answer with the server's.\<close>

definition handle_crypt_setup :: "prost_api \<Rightarrow> u8 list option \<Rightarrow> client_conn \<Rightarrow> voice_state \<Rightarrow> voice_state \<times> voice_out list" where
  "handle_crypt_setup pb client_nonce cn st =
     (case cn_session cn of
        None \<Rightarrow> (st, [])
      | Some netid \<Rightarrow>
          (case client_nonce of
             Some nonce \<Rightarrow>
               if length nonce = 16
               then (st\<lparr>st_crypt := AList.map_entry netid (\<lambda>c. c\<lparr>ct_decrypt_iv := nonce\<rparr>) (st_crypt st)\<rparr>, [])
               else (st, (case map_of (st_crypt st) netid of
                            None \<Rightarrow> []
                          | Some c \<Rightarrow> conn_send pb MtCryptSetup (PbCryptSetup None None (Some (ct_encrypt_iv c))) cn))
           | None \<Rightarrow> (st, (case map_of (st_crypt st) netid of
                            None \<Rightarrow> []
                          | Some c \<Rightarrow> conn_send pb MtCryptSetup (PbCryptSetup None None (Some (ct_encrypt_iv c))) cn))))"

text \<open>One control message: whether the connection stays open, the connection, the state and what is sent.\<close>

definition handle_message :: "aes_api \<Rightarrow> prost_api \<Rightarrow> login_random \<Rightarrow> message_type \<Rightarrow> u8 list \<Rightarrow> client_conn \<Rightarrow> voice_state \<Rightarrow>
    (bool \<times> client_conn \<times> voice_state \<times> voice_out list) option" where
  "handle_message aes pb rnd ty payload cn st =
     (case ty of
        MtVersion \<Rightarrow> Some (True, cn, st, conn_send pb MtVersion (PbVersion PROTOCOL_VERSION ''baston-voice'' (host_os pb)) cn)
      | MtAuthenticate \<Rightarrow> Some (handle_authenticate pb rnd payload cn st)
      | MtPing \<Rightarrow>
          (case frame_decode (pb_ping pb) ty payload of
             Inl e \<Rightarrow> Some (True, cn, st, [])
           | Inr timestamp \<Rightarrow>
               let (good, late, lost) =
                     (case Option.bind (cn_session cn) (map_of (st_crypt st)) of
                        None \<Rightarrow> (0, 0, 0) | Some c \<Rightarrow> (ct_good c, ct_late c, ct_lost c))
               in Some (True, cn, st, conn_send pb MtPing (PbPing timestamp good late lost 0) cn))
      | MtUserState \<Rightarrow>
          (case frame_decode (pb_user_state pb) ty payload of
             Inl e \<Rightarrow> Some (True, cn, st, [])
           | Inr us \<Rightarrow> Some (True, cn, handle_user_state pb us cn st))
      | MtVoiceTarget \<Rightarrow>
          (case frame_decode (pb_voice_target pb) ty payload of
             Inl e \<Rightarrow> Some (True, cn, st, [])
           | Inr vt \<Rightarrow> Some (True, cn, handle_voice_target vt cn st, []))
      | MtUdpTunnel \<Rightarrow>
          (case cn_session cn of
             None \<Rightarrow> Some (True, cn, st, [])
           | Some speaker \<Rightarrow>
               (case frame_decode (pb_udp_tunnel pb) ty payload of
                  Inl e \<Rightarrow> Some (True, cn, st, [])
                | Inr packet \<Rightarrow> map_option (\<lambda>r. (True, cn, r)) (route_voice aes pb speaker packet st)))
      | MtCryptSetup \<Rightarrow>
          (case cn_session cn of
             None \<Rightarrow> Some (True, cn, st, [])
           | Some _ \<Rightarrow>
               (case frame_decode (pb_crypt_setup pb) ty payload of
                  Inl e \<Rightarrow> Some (True, cn, st, [])
                | Inr nonce \<Rightarrow> Some (True, cn, handle_crypt_setup pb nonce cn st)))
      | MtPermissionQuery \<Rightarrow>
          (case frame_decode (pb_permission_query pb) ty payload of
             Inl e \<Rightarrow> Some (True, cn, st, [])
           | Inr channel_id \<Rightarrow> Some (True, cn, st,
               conn_send pb MtPermissionQuery (PbPermissionQuery channel_id 0x0f07ffff False) cn))
      | _ \<Rightarrow> Some (True, cn, st, []))"

section \<open>Datagrams\<close>

definition MAX_DATAGRAM :: nat where "MAX_DATAGRAM = 1024"

text \<open>The flow of a session is bound to an address.\<close>

definition bind_flow :: "u32 \<Rightarrow> sock_addr \<Rightarrow> voice_state \<Rightarrow> voice_state" where
  "bind_flow session peer st =
     (let index = (case map_of (st_udp_addr st) session of
                     None \<Rightarrow> st_addr_index st | Some old \<Rightarrow> AList.delete old (st_addr_index st))
      in st\<lparr>st_udp_addr := AList.update session peer (st_udp_addr st), st_addr_index := AList.update peer session index\<rparr>)"

definition set_crypt :: "u32 \<Rightarrow> crypt_state \<Rightarrow> voice_state \<Rightarrow> voice_state" where
  "set_crypt session c st = st\<lparr>st_crypt := AList.update session c (st_crypt st)\<rparr>"

fun try_sessions :: "aes_api \<Rightarrow> sock_addr \<Rightarrow> u8 list \<Rightarrow> u32 list \<Rightarrow> voice_state \<Rightarrow> (u32 \<times> u8 list) option \<times> voice_state" where
  "try_sessions aes peer datagram [] st = (None, st)"
| "try_sessions aes peer datagram (session # ss) st =
     (case map_of (st_crypt st) session of
        None \<Rightarrow> try_sessions aes peer datagram ss st
      | Some c \<Rightarrow>
          (case ct_decrypt aes datagram c of
             (None, c') \<Rightarrow> try_sessions aes peer datagram ss (set_crypt session c' st)
           | (Some plain, c') \<Rightarrow> (Some (session, plain), bind_flow session peer (set_crypt session c' st))))"

definition decrypt_from :: "aes_api \<Rightarrow> sock_addr \<Rightarrow> u8 list \<Rightarrow> voice_state \<Rightarrow> (u32 \<times> u8 list) option \<times> voice_state" where
  "decrypt_from aes peer datagram st =
     (case map_of (st_addr_index st) peer of
        Some session \<Rightarrow>
          (case map_of (st_crypt st) session of
             None \<Rightarrow> (None, st)
           | Some c \<Rightarrow>
               (case ct_decrypt aes datagram c of
                  (plain, c') \<Rightarrow> (map_option (Pair session) plain, set_crypt session c' st)))
      | None \<Rightarrow> try_sessions aes peer datagram (map fst (st_crypt st)) st)"

definition ping_probe_reply :: "u8 list \<Rightarrow> voice_state \<Rightarrow> u8 list" where
  "ping_probe_reply ident st =
     to_be_bytes 4 PROTOCOL_VERSION @ ident @ to_be_bytes 4 (of_nat (sr_len (st_sessions st)) :: u32) @
     to_be_bytes 4 (128 :: u32) @ to_be_bytes 4 (128000 :: u32)"

text \<open>The echo of an encrypted ping.\<close>

definition echo_ping :: "aes_api \<Rightarrow> sock_addr \<Rightarrow> u32 \<Rightarrow> u8 list \<Rightarrow> voice_state \<Rightarrow> voice_state \<times> voice_out list" where
  "echo_ping aes peer speaker plain st =
     (case map_of (st_crypt st) speaker of
        None \<Rightarrow> (st, [])
      | Some c \<Rightarrow> (case ct_encrypt aes plain c of (echo, c') \<Rightarrow> (set_crypt speaker c' st, [OutUdp peer echo])))"

definition is_ping :: "u8 list \<Rightarrow> bool" where
  "is_ping plain = (case plain of [] \<Rightarrow> False | b # _ \<Rightarrow> packet_type_from_bits (drop_bit 5 b) = Some VPing)"

text \<open>One turn of the receive loop with no other holder of the lock between its sections.\<close>

definition recv_datagram :: "aes_api \<Rightarrow> prost_api \<Rightarrow> sock_addr \<Rightarrow> u8 list \<Rightarrow> voice_state \<Rightarrow> (voice_state \<times> voice_out list) option" where
  "recv_datagram aes pb peer datagram st =
     (if length datagram = 12 \<and> take 4 datagram = [0, 0, 0, 0]
      then Some (st, [OutUdp peer (ping_probe_reply (drop 4 datagram) st)])
      else case decrypt_from aes peer datagram st of
             (None, st1) \<Rightarrow> Some (st1, [])
           | (Some (speaker, plain), st1) \<Rightarrow>
               if is_ping plain then Some (echo_ping aes peer speaker plain st1)
               else route_voice aes pb speaker plain st1)"

end
