(* ===== verification/Voice_Reach.thy ===== *)
theory Voice_Reach
  imports Voice_Server
begin

text \<open>
  The voice server over any sequence of lock sections: an invariant of its shared state, that no handler
  panics, and that what one client says reaches another.
\<close>

section \<open>Steps and the invariant\<close>

text \<open>A random draw fills sixteen-byte arrays.\<close>

definition rnd_ok :: "login_random \<Rightarrow> bool" where
  "rnd_ok rnd = (case rnd of None \<Rightarrow> True
     | Some (key, sn, cn) \<Rightarrow> length key = 16 \<and> length sn = 16 \<and> length cn = 16)"

text \<open>One lock section, of whatever connection, socket or script call. The two sections of a received
  datagram are steps of their own, since others may run between them.\<close>

inductive voice_step :: "aes_api \<Rightarrow> prost_api \<Rightarrow> voice_state \<Rightarrow> voice_state \<Rightarrow> bool" for aes pb where
  control: "rnd_ok rnd \<Longrightarrow> handle_message aes pb rnd ty payload cn st = Some (keep, cn', st', outs) \<Longrightarrow> voice_step aes pb st st'"
| closed: "teardown pb netid st = (st', outs) \<Longrightarrow> voice_step aes pb st st'"
| dropped: "on_player_dropped pb netid st = (st', outs) \<Longrightarrow> voice_step aes pb st st'"
| created: "create_channel pb i st = (st', outs) \<Longrightarrow> voice_step aes pb st st'"
| muted: "set_player_muted pb netid m st = (st', outs) \<Longrightarrow> voice_step aes pb st st'"
| proximity: "voice_step aes pb st (set_proximity_override netid p st)"
| opened: "decrypt_from aes peer datagram st = (res, st') \<Longrightarrow> voice_step aes pb st st'"
| echoed: "echo_ping aes peer speaker plain st = (st', outs) \<Longrightarrow> voice_step aes pb st st'"
| routed: "route_voice aes pb speaker plain st = Some (st', outs) \<Longrightarrow> voice_step aes pb st st'"

inductive voice_reachable :: "aes_api \<Rightarrow> prost_api \<Rightarrow> voice_state \<Rightarrow> bool" for aes pb where
  start: "voice_reachable aes pb st_new"
| step: "voice_reachable aes pb st \<Longrightarrow> voice_step aes pb st st' \<Longrightarrow> voice_reachable aes pb st'"

inductive_cases voice_stepE: "voice_step aes pb st st'"

text \<open>Two finite maps that invert each other.\<close>

definition inverse_maps :: "('a \<rightharpoonup> 'b) \<Rightarrow> ('b \<rightharpoonup> 'a) \<Rightarrow> bool" where
  "inverse_maps f g \<longleftrightarrow> (\<forall>s a. f s = Some a \<longleftrightarrow> g a = Some s)"

lemma inverse_unbind:
  assumes "inverse_maps f g"
  shows "inverse_maps (f(s := None)) (case f s of None \<Rightarrow> g | Some a \<Rightarrow> g(a := None))"
proof (cases "f s")
  case None
  then show ?thesis using assms unfolding inverse_maps_def by (simp add: fun_upd_idem)
next
  case (Some a)
  have J: "f x = Some b \<longleftrightarrow> g b = Some x" for x b using assms by (simp add: inverse_maps_def)
  have "(f(s := None)) x = Some b \<longleftrightarrow> (g(a := None)) b = Some x" for x b
  proof (cases "x = s")
    case True
    then show ?thesis using Some J [of s b] by auto
  next
    case False
    then show ?thesis using Some J [of x b] J [of s a] by auto
  qed
  then show ?thesis using Some by (simp add: inverse_maps_def)
qed

lemma inverse_bind:
  assumes "inverse_maps f g" "f s = None" "g a = None"
  shows "inverse_maps (f(s \<mapsto> a)) (g(a \<mapsto> s))"
  unfolding inverse_maps_def
proof (intro allI)
  fix x b
  have "f x = Some b \<longleftrightarrow> g b = Some x" using assms(1) by (simp add: inverse_maps_def)
  then show "(f(s \<mapsto> a)) x = Some b \<longleftrightarrow> (g(a \<mapsto> s)) b = Some x" using assms(2,3) by auto
qed

definition index_inverse :: "voice_state \<Rightarrow> bool" where
  "index_inverse st \<longleftrightarrow> inverse_maps (map_of (st_udp_addr st)) (map_of (st_addr_index st))"

definition voice_inv :: "voice_state \<Rightarrow> bool" where
  "voice_inv st \<longleftrightarrow>
     channels_wf (st_channels st) \<and> distinct (map fst (st_sessions st)) \<and>
     dom (map_of (st_crypt st)) = dom (map_of (st_sessions st)) \<and>
     dom (map_of (st_control_tx st)) = dom (map_of (st_sessions st)) \<and>
     dom (map_of (st_udp_addr st)) \<subseteq> dom (map_of (st_sessions st)) \<and>
     (\<forall>s c. map_of (st_crypt st) s = Some c \<longrightarrow> crypt_wf c) \<and>
     index_inverse st"

lemma st_new_inv: "voice_inv st_new"
  by (simp add: voice_inv_def st_new_def cst_new_refines index_inverse_def inverse_maps_def)

section \<open>Preservation\<close>

lemma crypt_wf_encrypt: "crypt_wf c \<Longrightarrow> crypt_wf (snd (ct_encrypt aes m c))"
  by (auto simp: ct_encrypt_def Let_def crypt_wf_def split: prod.splits)

lemma crypt_wf_decrypt: "crypt_wf c \<Longrightarrow> crypt_wf (snd (ct_decrypt aes m c))"
proof (cases "fst (ct_decrypt aes m c)")
  case None
  then show "crypt_wf c \<Longrightarrow> ?thesis" using ct_decrypt_refused by metis
next
  case (Some p)
  assume wf: "crypt_wf c"
  from Some obtain iv restore late lost where rec: "recover_iv (m ! 0) c = Some (iv, restore, late, lost)" and
    post: "snd (ct_decrypt aes m c) =
      c\<lparr>ct_decrypt_iv := (if restore then ct_decrypt_iv c else iv),
        ct_decrypt_history := (ct_decrypt_history c)[unat (iv ! 0) := iv ! 1],
        ct_good := ct_good c + 1, ct_late := ct_late c + late,
        ct_lost := (if 0 < lost then ct_lost c + word_of_int lost else ct_lost c)\<rparr>"
    by (rule ct_decrypt_accepted)
  then show ?thesis using wf recover_iv_window [OF rec] by (auto simp: crypt_wf_def)
qed

text \<open>A change that leaves the keys of every table alone.\<close>

lemma set_crypt_inv:
  "voice_inv st \<Longrightarrow> map_of (st_crypt st) s \<noteq> None \<Longrightarrow> crypt_wf c \<Longrightarrow> voice_inv (set_crypt s c st)"
  by (auto simp: voice_inv_def set_crypt_def update_conv' index_inverse_def)

lemma bind_flow_inv:
  assumes inv: "voice_inv st" and fresh: "map_of (st_addr_index st) peer = None" and s: "map_of (st_crypt st) s \<noteq> None"
  shows "voice_inv (bind_flow s peer st)"
proof -
  let ?g = "case map_of (st_udp_addr st) s of None \<Rightarrow> map_of (st_addr_index st)
    | Some old \<Rightarrow> (map_of (st_addr_index st))(old := None)"
  have "inverse_maps ((map_of (st_udp_addr st))(s := None)) ?g"
    using inv by (intro inverse_unbind) (simp add: voice_inv_def index_inverse_def)
  moreover have "?g peer = None" using fresh by (simp split: option.splits)
  ultimately have "inverse_maps ((map_of (st_udp_addr st))(s := None, s \<mapsto> peer)) (?g(peer \<mapsto> s))"
    by (intro inverse_bind) simp_all
  moreover have "map_of (st_addr_index (bind_flow s peer st)) = ?g(peer \<mapsto> s)"
    "map_of (st_udp_addr (bind_flow s peer st)) = (map_of (st_udp_addr st))(s := None, s \<mapsto> peer)"
    by (simp_all add: bind_flow_def update_conv' delete_conv' split: option.splits)
  ultimately have "index_inverse (bind_flow s peer st)" by (simp add: index_inverse_def)
  then show ?thesis
    using inv s by (auto simp: voice_inv_def bind_flow_def Let_def update_conv')
qed

lemma try_sessions_inv:
  "voice_inv st \<Longrightarrow> map_of (st_addr_index st) peer = None \<Longrightarrow> voice_inv (snd (try_sessions aes peer datagram ss st))"
proof (induction aes peer datagram ss st rule: try_sessions.induct)
  case (2 aes peer datagram session ss st)
  show ?case
  proof (cases "map_of (st_crypt st) session")
    case None
    then show ?thesis using 2 by simp
  next
    case (Some c)
    obtain r c' where d: "ct_decrypt aes datagram c = (r, c')" by force
    have wf: "crypt_wf c'" using 2(3) Some crypt_wf_decrypt [of c aes datagram] d by (auto simp: voice_inv_def)
    then have inv: "voice_inv (set_crypt session c' st)" using 2(3) Some by (intro set_crypt_inv) auto
    show ?thesis
    proof (cases r)
      case None
      then show ?thesis using 2 Some d inv by (simp add: set_crypt_def)
    next
      case (Some p)
      have "voice_inv (bind_flow session peer (set_crypt session c' st))"
        using inv 2(4) by (intro bind_flow_inv) (auto simp: set_crypt_def update_conv')
      then show ?thesis using Some \<open>map_of (st_crypt st) session = Some c\<close> d by simp
    qed
  qed
qed simp

lemma decrypt_from_inv: "voice_inv st \<Longrightarrow> voice_inv (snd (decrypt_from aes peer datagram st))"
  using crypt_wf_decrypt
  by (auto simp: decrypt_from_def try_sessions_inv split: option.splits prod.splits)
    (metis set_crypt_inv snd_conv option.distinct(1) voice_inv_def)

lemma deliver_inv:
  assumes "voice_inv st" "deliver aes pb speaker packet r st = Some (st', outs)"
  shows "voice_inv st'"
proof -
  have "st' = st \<or> (\<exists>c m. map_of (st_crypt st) (rc_session r) = Some c \<and> st' = set_crypt (rc_session r) (snd (ct_encrypt aes m c)) st)"
    using assms(2) unfolding deliver_def
    by (auto simp: set_crypt_def split: bind_splits option.splits prod.splits sum.splits) (metis snd_conv)+
  then show ?thesis
  proof (elim disjE exE conjE)
    fix c m
    assume *: "map_of (st_crypt st) (rc_session r) = Some c" "st' = set_crypt (rc_session r) (snd (ct_encrypt aes m c)) st"
    then have "crypt_wf c" using assms(1) by (auto simp: voice_inv_def)
    then show ?thesis using * assms(1) by (auto intro: set_crypt_inv crypt_wf_encrypt)
  qed (use assms in simp)
qed

lemma deliver_all_inv:
  "deliver_all aes pb speaker packet rs st = Some (st', outs) \<Longrightarrow> voice_inv st \<Longrightarrow> voice_inv st'"
proof (induction rs arbitrary: st outs)
  case (Cons r rs)
  then obtain st1 outs1 outs2 where "deliver aes pb speaker packet r st = Some (st1, outs1)"
    "deliver_all aes pb speaker packet rs st1 = Some (st', outs2)"
    by (auto split: bind_splits)
  then show ?case using Cons deliver_inv by blast
qed simp

lemma route_voice_inv: "route_voice aes pb speaker d st = Some (st', outs) \<Longrightarrow> voice_inv st \<Longrightarrow> voice_inv st'"
  by (auto simp: route_voice_def split: option.splits dest: deliver_all_inv)


lemma echo_ping_inv: "voice_inv st \<Longrightarrow> voice_inv (fst (echo_ping aes peer speaker plain st))"
proof (cases "map_of (st_crypt st) speaker")
  case (Some c)
  assume inv: "voice_inv st"
  then have "crypt_wf (snd (ct_encrypt aes plain c))" using Some crypt_wf_encrypt by (auto simp: voice_inv_def)
  then have "voice_inv (set_crypt speaker (snd (ct_encrypt aes plain c)) st)" using inv Some by (simp add: set_crypt_inv)
  then show ?thesis using Some by (simp add: echo_ping_def case_prod_beta)
qed (simp add: echo_ping_def)

lemma teardown_cases:
  obtains "map_of (st_sessions st) netid = None" "fst (teardown pb netid st) = st"
  | s where "map_of (st_sessions st) netid = Some s"
    "st_sessions (fst (teardown pb netid st)) = AList.delete netid (st_sessions st)"
    "st_channels (fst (teardown pb netid st)) = drop_session netid (st_channels st)"
    "map_of (st_crypt (fst (teardown pb netid st))) = (map_of (st_crypt st))(netid := None)"
    "map_of (st_control_tx (fst (teardown pb netid st))) = (map_of (st_control_tx st))(netid := None)"
    "map_of (st_udp_addr (fst (teardown pb netid st))) = (map_of (st_udp_addr st))(netid := None)"
    "map_of (st_addr_index (fst (teardown pb netid st))) =
       (case map_of (st_udp_addr st) netid of None \<Rightarrow> map_of (st_addr_index st)
        | Some a \<Rightarrow> (map_of (st_addr_index st))(a := None))"
  by (cases "map_of (st_sessions st) netid"; cases "map_of (st_udp_addr st) netid")
    (auto simp: teardown_def sr_remove_def Let_def delete_conv' fun_upd_idem)

lemma teardown_inv:
  assumes inv: "voice_inv st"
  shows "voice_inv (fst (teardown pb netid st))"
proof (cases rule: teardown_cases [of st netid pb])
  case 1
  then show ?thesis using inv by simp
next
  case (2 s)
  have "index_inverse (fst (teardown pb netid st))"
    unfolding index_inverse_def 2 using inv by (intro inverse_unbind) (simp add: voice_inv_def index_inverse_def)
  then show ?thesis using inv 2 drop_session_refines(1)
    by (auto simp: voice_inv_def delete_conv' distinct_delete)
qed

text \<open>Changes of the channels alone, and of sessions under the same keys.\<close>

lemma channels_inv: "voice_inv st \<Longrightarrow> channels_wf c \<Longrightarrow> voice_inv (st\<lparr>st_channels := c\<rparr>)"
  by (simp add: voice_inv_def index_inverse_def)

lemma dom_map_entry: "dom (map_of (AList.map_entry k f m)) = dom (map_of m)"
  by (auto simp: map_of_map_entry split: option.splits if_splits)

lemma sr_update_inv: "voice_inv st \<Longrightarrow> voice_inv (st\<lparr>st_sessions := sr_update k f (st_sessions st)\<rparr>)"
  by (simp add: voice_inv_def index_inverse_def sr_update_def dom_map_entry)

lemma resync_inv:
  "voice_inv st \<Longrightarrow> length nonce = 16 \<Longrightarrow>
   voice_inv (st\<lparr>st_crypt := AList.map_entry k (\<lambda>c. c\<lparr>ct_decrypt_iv := nonce\<rparr>) (st_crypt st)\<rparr>)"
  by (auto simp: voice_inv_def index_inverse_def dom_map_entry)
    (auto simp: map_of_map_entry crypt_wf_def split: option.splits if_splits)

lemma listening_wf: "channels_wf c \<Longrightarrow> channels_wf (fold (\<lambda>k. set_listening x k b) ks c)"
  by (induction ks arbitrary: c) (simp_all add: set_listening_refines)

lemma handle_user_state_inv: "voice_inv st \<Longrightarrow> voice_inv (fst (handle_user_state pb us cn st))"
proof (cases "cn_session cn")
  case (Some netid)
  assume inv: "voice_inv st"
  then have "channels_wf (st_channels st)" by (simp add: voice_inv_def)
  then have wf: "channels_wf (case us_channel_id us of None \<Rightarrow> st_channels st
      | Some k \<Rightarrow> snd (join netid k (if \<not> channel_exists k (st_channels st) then create_game_channel k (st_channels st) else st_channels st)))"
    by (auto simp: channel_refines split: option.splits)
  show ?thesis using inv wf Some unfolding handle_user_state_def
    by (auto simp: Let_def split: option.splits prod.splits intro!: channels_inv listening_wf sr_update_inv)
qed (simp add: handle_user_state_def)

lemma handle_voice_target_inv: "voice_inv st \<Longrightarrow> voice_inv (handle_voice_target vt cn st)"
  by (auto simp: handle_voice_target_def Let_def sr_update_inv split: option.splits)

lemma handle_crypt_setup_inv: "voice_inv st \<Longrightarrow> voice_inv (fst (handle_crypt_setup pb n cn st))"
  by (auto simp: handle_crypt_setup_def resync_inv split: option.splits)

lemma login_inv:
  assumes "voice_inv st" "length key = 16" "length sn = 16" "length cn = 16"
  shows "voice_inv (st\<lparr>st_sessions := sr_insert netid name (st_sessions st),
     st_channels := snd (join netid ROOT_CHANNEL (st_channels st)),
     st_crypt := AList.update netid (ct_new key sn cn) (st_crypt st),
     st_control_tx := AList.update netid tx (st_control_tx st)\<rparr>)"
  using assms
  by (auto simp: voice_inv_def join_refines index_inverse_def sr_insert_def update_conv' distinct_update
      crypt_wf_def ct_new_def split: if_splits)

lemma handle_authenticate_inv:
  "voice_inv st \<Longrightarrow> rnd_ok rnd \<Longrightarrow> voice_inv (fst (snd (snd (handle_authenticate pb rnd payload cn st))))"
  by (auto simp: handle_authenticate_def Let_def rnd_ok_def login_inv split: sum.splits option.splits prod.splits)

lemma handle_message_inv:
  assumes "voice_inv st" "rnd_ok rnd" "handle_message aes pb rnd ty payload cn st = Some (keep, cn', st', outs)"
  shows "voice_inv st'"
proof (cases "ty = MtAuthenticate")
  case True
  then show ?thesis using assms handle_authenticate_inv [of st rnd pb payload cn] by (simp add: handle_message_def)
next
  case False
  have "st' = st \<or> (\<exists>us. st' = fst (handle_user_state pb us cn st)) \<or> (\<exists>vt. st' = handle_voice_target vt cn st) \<or>
      (\<exists>n. st' = fst (handle_crypt_setup pb n cn st)) \<or> (\<exists>s p os. route_voice aes pb s p st = Some (st', os))"
    using False assms(3)
    by (cases ty) (auto simp: handle_message_def Let_def split: sum.splits option.splits prod.splits, (metis fst_conv)+)
  then show ?thesis
    using assms(1) handle_user_state_inv handle_voice_target_inv handle_crypt_setup_inv route_voice_inv by blast
qed

lemma voice_step_inv: "voice_step aes pb st st' \<Longrightarrow> voice_inv st \<Longrightarrow> voice_inv st'"
proof (induction rule: voice_step.induct)
  case (created i st st' outs)
  then have "channels_wf (create_game_channel i (st_channels st))" by (simp add: voice_inv_def create_game_channel_refines)
  then show ?case using created by (auto simp: create_channel_def Let_def channels_inv split: if_splits)
next
  case (muted netid m st st' outs)
  then show ?case by (auto simp: set_player_muted_def Let_def sr_update_inv split: option.splits)
next
  case (proximity st netid p)
  then show ?case by (simp add: set_proximity_override_def voice_inv_def index_inverse_def)
qed (metis handle_message_inv teardown_inv on_player_dropped_def decrypt_from_inv echo_ping_inv route_voice_inv fst_conv snd_conv)+

section \<open>No panic\<close>

lemma encode_outbound_total:
  assumes "parse bytes = Some p"
  obtains out where "encode_outbound s p b = Some out"
  using assms
proof (cases rule: parse_cases)
  case (ping header body)
  then show thesis using that by (cases b) (auto simp: encode_outbound_def slice_get_def)
next
  case (voice header body codec k)
  then show thesis using that by (cases b) (auto simp: encode_outbound_def slice_get_def)
qed

lemma deliver_all_total: "parse bytes = Some p \<Longrightarrow> deliver_all aes pb speaker p rs st \<noteq> None"
proof (induction rs arbitrary: st)
  case (Cons r rs)
  obtain out where "encode_outbound (ucast speaker) p (rc_with_position r) = Some out"
    using encode_outbound_total [OF Cons.prems] by metis
  then obtain st1 outs where "deliver aes pb speaker p r st = Some (st1, outs)" unfolding deliver_def by force
  then show ?case using Cons.IH [OF Cons.prems, of st1] by auto
qed simp

lemma route_voice_total: "route_voice aes pb speaker datagram st \<noteq> None"
  using deliver_all_total by (auto simp: route_voice_def split: option.splits)

lemma handle_message_total: "handle_message aes pb rnd ty payload cn st \<noteq> None"
  using route_voice_total by (cases ty) (auto simp: handle_message_def Let_def split: sum.splits option.splits prod.splits)

lemma recv_datagram_total: "recv_datagram aes pb peer datagram st \<noteq> None"
  using route_voice_total by (auto simp: recv_datagram_def split: option.splits prod.splits)

text \<open>C10. In every state the voice server can reach, whatever connections, datagrams and script calls arrive
  and however their lock sections interleave: a session is in at most one channel and the root channel
  exists; the sessions, their crypt states and their control writers have the same keys; every crypt state
  has a sixteen-byte key and nonces and a full replay table; the address of each session and the index from
  addresses to sessions are inverse to each other and belong to known sessions; and neither a control message
  nor a datagram makes the server panic.\<close>

theorem voice_server_consistent:
  assumes "voice_reachable aes pb st"
  shows "(\<forall>a b x. in_channel (st_channels st) a x \<longrightarrow> in_channel (st_channels st) b x \<longrightarrow> a = b) \<and>
    channel_exists ROOT_CHANNEL (st_channels st) \<and>
    dom (map_of (st_crypt st)) = dom (map_of (st_sessions st)) \<and>
    dom (map_of (st_control_tx st)) = dom (map_of (st_sessions st)) \<and>
    (\<forall>s c. map_of (st_crypt st) s = Some c \<longrightarrow> crypt_wf c) \<and>
    (\<forall>s a. map_of (st_udp_addr st) s = Some a \<longleftrightarrow> map_of (st_addr_index st) a = Some s) \<and>
    dom (map_of (st_udp_addr st)) \<subseteq> dom (map_of (st_sessions st)) \<and>
    (\<forall>rnd ty payload cn. handle_message aes pb rnd ty payload cn st \<noteq> None) \<and>
    (\<forall>peer datagram. recv_datagram aes pb peer datagram st \<noteq> None)"
proof -
  have "voice_inv st" using assms by induction (auto intro: st_new_inv voice_step_inv)
  then show ?thesis
    by (auto simp: voice_inv_def channels_wf_def store_shape_def channel_exists_def index_inverse_def inverse_maps_def
        handle_message_total recv_datagram_total)
qed

section \<open>From a speaker to a listener\<close>

lemma deliver_other:
  assumes "deliver aes pb speaker packet r st = Some (st', outs)" "rc_session r \<noteq> x"
  shows "map_of (st_crypt st') x = map_of (st_crypt st) x" "st_udp_addr st' = st_udp_addr st"
  using assms unfolding deliver_def
  by (auto simp: update_conv' split: bind_splits option.splits prod.splits sum.splits)

lemma deliver_udp_addr: "deliver aes pb speaker packet r st = Some (st', outs) \<Longrightarrow> st_udp_addr st' = st_udp_addr st"
  unfolding deliver_def by (auto split: bind_splits option.splits prod.splits sum.splits)

lemma deliver_all_other:
  "deliver_all aes pb speaker packet rs st = Some (st', outs) \<Longrightarrow> x \<notin> rc_session ` set rs \<Longrightarrow>
   map_of (st_crypt st') x = map_of (st_crypt st) x"
  by (induction rs arbitrary: st outs) (auto split: bind_splits, metis deliver_other(1))

lemma deliver_here:
  assumes "deliver aes pb speaker packet r st = Some (st', outs)"
    and "map_of (st_udp_addr st) (rc_session r) = Some addr" "map_of (st_crypt st) (rc_session r) = Some c"
  shows "\<exists>out pkt c'. encode_outbound (ucast speaker) packet (rc_with_position r) = Some out \<and>
    ct_encrypt aes out c = (pkt, c') \<and> outs = [OutUdp addr pkt] \<and> map_of (st_crypt st') (rc_session r) = Some c'"
  using assms unfolding deliver_def by (auto simp: update_conv' split: bind_splits prod.splits)

lemma deliver_all_reaches:
  "deliver_all aes pb speaker packet rs st = Some (st', outs) \<Longrightarrow> distinct (map rc_session rs) \<Longrightarrow> r \<in> set rs \<Longrightarrow>
   map_of (st_udp_addr st) (rc_session r) = Some addr \<Longrightarrow> map_of (st_crypt st) (rc_session r) = Some c \<Longrightarrow>
   \<exists>out pkt c'. encode_outbound (ucast speaker) packet (rc_with_position r) = Some out \<and>
     ct_encrypt aes out c = (pkt, c') \<and> OutUdp addr pkt \<in> set outs \<and> map_of (st_crypt st') (rc_session r) = Some c'"
proof (induction rs arbitrary: st outs)
  case (Cons q rs)
  obtain st1 outs1 outs2 where q: "deliver aes pb speaker packet q st = Some (st1, outs1)" and
    rs: "deliver_all aes pb speaker packet rs st1 = Some (st', outs2)" and outs: "outs = outs1 @ outs2"
    using Cons.prems(1) by (auto split: bind_splits)
  show ?case
  proof (cases "q = r")
    case True
    then have "rc_session r \<notin> rc_session ` set rs" using Cons.prems(2) by auto
    then show ?thesis
      using deliver_here [OF q] deliver_all_other [OF rs] Cons.prems(4,5) True outs by fastforce
  next
    case False
    then have r: "r \<in> set rs" "rc_session q \<noteq> rc_session r" using Cons.prems(2,3) by (auto simp: rev_image_eqI)
    then show ?thesis
      using Cons.IH [OF rs _ r(1)] deliver_other [OF q r(2)] Cons.prems outs by fastforce
  qed
qed simp

lemma resolve_distinct:
  assumes "channels_wf channels"
  shows "distinct (map rc_session (resolve speaker packet sessions channels aoi))"
proof (cases "map_of sessions speaker")
  case (Some s)
  show ?thesis
  proof (cases "vs_mute s \<or> vp_target packet = VtLoopback")
    case True
    then show ?thesis using Some by (auto simp: resolve_def sr_get_def can_speak_def)
  next
    case False
    then have "sorted_wrt (<) (map rc_session (resolve speaker packet sessions channels aoi))"
      using resolve_talk [OF assms Some] by (simp add: delivers_to_def)
    then show ?thesis by (simp add: strict_sorted_iff)
  qed
qed (simp add: resolve_def sr_get_def)

lemma reachable_inv: "voice_reachable aes pb st \<Longrightarrow> voice_inv st"
  by (induction rule: voice_reachable.induct) (auto intro: st_new_inv voice_step_inv)


section \<open>A session of two clients\<close>

text \<open>A coding of messages to evaluate the server on: a login carries the user name itself.\<close>

definition toy_prost :: prost_api where
  "toy_prost = \<lparr>pb_encode = (\<lambda>m. case m of PbUdpTunnel out \<Rightarrow> out | _ \<Rightarrow> [1]), pb_authenticate = (\<lambda>p. Some (Some (map (char_of \<circ> unat) p))),
     pb_ping = (\<lambda>p. Some None), pb_user_state = (\<lambda>p. None), pb_voice_target = (\<lambda>p. None), pb_udp_tunnel = Some,
     pb_crypt_setup = (\<lambda>p. Some (Some p)), pb_permission_query = (\<lambda>p. None), host_os = ''linux''\<rparr>"

definition after_message :: "aes_api \<Rightarrow> prost_api \<Rightarrow> login_random \<Rightarrow> message_type \<Rightarrow> u8 list \<Rightarrow> client_conn \<Rightarrow> voice_state \<Rightarrow> voice_state" where
  "after_message aes pb rnd ty payload cn st = fst (snd (snd (the (handle_message aes pb rnd ty payload cn st))))"

lemma after_message_reachable:
  assumes "voice_reachable aes pb st" "rnd_ok rnd"
  shows "voice_reachable aes pb (after_message aes pb rnd ty payload cn st)"
proof -
  obtain keep cn' st' outs where "handle_message aes pb rnd ty payload cn st = Some (keep, cn', st', outs)"
    using handle_message_total [of aes pb rnd ty payload cn st] by (cases "handle_message aes pb rnd ty payload cn st") auto
  then show ?thesis using assms by (auto simp: after_message_def intro: voice_reachable.step voice_step.control)
qed

definition demo_login :: "u8 list \<Rightarrow> nat \<Rightarrow> voice_state \<Rightarrow> voice_state" where
  "demo_login name conn st = after_message xor_cipher toy_prost
     (Some (replicate 16 (of_nat conn), replicate 16 5, replicate 16 9)) MtAuthenticate name
     \<lparr>cn_session = None, cn_out_tx = conn\<rparr> st"

text \<open>Clients 1 and 2 log in, and client 2 sends a ping datagram from address 77.\<close>

definition demo_client :: crypt_state where
  "demo_client = ct_new (replicate 16 2) (replicate 16 9) (replicate 16 5)"

definition demo_state :: voice_state where
  "demo_state = snd (decrypt_from xor_cipher 77 (fst (ct_encrypt xor_cipher [0x20, 1] demo_client))
     (demo_login [91, 50, 93] 2 (demo_login [91, 49, 93] 1 st_new)))"

lemma demo_reachable: "voice_reachable xor_cipher toy_prost demo_state"
  unfolding demo_state_def demo_login_def
  by (rule voice_reachable.step [OF _ voice_step.opened [OF prod.collapse [symmetric]]],
      (rule after_message_reachable)+) (auto simp: rnd_ok_def intro: voice_reachable.start)

lemma demo_facts:
  "map_of (st_udp_addr demo_state) 2 = Some 77"
  "map_option ct_key (map_of (st_crypt demo_state) 2) = Some (ct_key demo_client)"
  "map_option (nonce_val \<circ> ct_encrypt_iv) (map_of (st_crypt demo_state) 2) = Some (nonce_val (ct_decrypt_iv demo_client))"
  "nonce_val (ct_decrypt_iv demo_client) < 2 ^ 128 \<and> 0 \<le> nonce_val (ct_decrypt_iv demo_client)"
  by code_simp+

theorem voice_server_consistent_witness:
  "map_of (st_addr_index demo_state) 77 = Some 2 \<and> dom (map_of (st_crypt demo_state)) = dom (map_of (st_sessions demo_state))"
  using voice_server_consistent [OF demo_reachable] demo_facts(1) by blast


section \<open>Sessions and connections\<close>

text \<open>A teardown is by session number: the connection that closes need not be the one that serves the
  session. After a reconnect (two logins under one number) the close of the old connection takes the session,
  the crypt state and the writer of the new one.\<close>

lemma stale_close_drops_session:
  "let st = fst (teardown toy_prost 1 (demo_login [91, 49, 93] 2 (demo_login [91, 49, 93] 1 st_new)))
   in (st_sessions st, st_crypt st, st_control_tx st) = ([], [], [])"
  by code_simp

text \<open>A connection whose session was already dropped can still join a channel, and its close leaves the
  membership behind.\<close>

lemma member_without_session:
  assumes "channels_wf (st_channels st)" "map_of (st_sessions st) netid = None" "cn_session cn = Some netid"
    and "us_channel_id us = Some k" "us_listening_channel_add us = []" "us_listening_channel_remove us = []"
    and "handle_user_state pb us cn st = (st', outs)"
  shows "map_of (st_sessions st') netid = None" "location (st_channels (fst (teardown pb netid st'))) netid = Some k"
proof -
  have ses: "map_of (st_sessions st') netid = None"
    using assms by (auto simp: handle_user_state_def Let_def sr_update_def map_of_map_entry split: prod.splits if_splits)
  have "location (st_channels st') netid = Some k"
    using assms by (auto simp: handle_user_state_def Let_def join_refines create_game_channel_refines split: prod.splits if_splits)
  then show "map_of (st_sessions st') netid = None" "location (st_channels (fst (teardown pb netid st'))) netid = Some k"
    using ses by (simp_all add: teardown_def sr_remove_def)
qed

end
