(* ===== verification/Quadtree.thy ===== *)
theory Quadtree
  imports Ieee "HOL-Library.Multiset"
begin

text \<open>
  Zone bounds (\<open>crates/baston-protocol/src/spatial.rs\<close>, without the parsing of the environment variable) and the
  region quadtree over them (\<open>crates/baston-gateway/src/quadtree.rs\<close>). Coordinates are the IEEE single floats of
  theory \<open>Ieee\<close>, NaN and infinities included. The children of a node are the empty list before it is split
  and its four quadrants after.
\<close>

section \<open>Bounds\<close>

record aabb =
  x_min :: fl
  y_min :: fl
  x_max :: fl
  y_max :: fl

definition aabb_new :: "fl \<Rightarrow> fl \<Rightarrow> fl \<Rightarrow> fl \<Rightarrow> aabb" where
  "aabb_new x0 y0 x1 y1 = \<lparr>x_min = x0, y_min = y0, x_max = x1, y_max = y1\<rparr>"

definition aabb_contains :: "aabb \<Rightarrow> fl \<Rightarrow> fl \<Rightarrow> bool" where
  "aabb_contains b x y \<longleftrightarrow> fl_le (x_min b) x \<and> fl_lt x (x_max b) \<and> fl_le (y_min b) y \<and> fl_lt y (y_max b)"

definition aabb_intersects :: "aabb \<Rightarrow> aabb \<Rightarrow> bool" where
  "aabb_intersects a b \<longleftrightarrow> fl_lt (x_min a) (x_max b) \<and> fl_lt (x_min b) (x_max a) \<and>
     fl_lt (y_min a) (y_max b) \<and> fl_lt (y_min b) (y_max a)"

definition distance_to_edge :: "aabb \<Rightarrow> fl \<Rightarrow> fl \<Rightarrow> fl" where
  "distance_to_edge b x y =
     (let dx = fl_min (fl_sub F32 x (x_min b)) (fl_sub F32 (x_max b) x);
          dy = fl_min (fl_sub F32 y (y_min b)) (fl_sub F32 (y_max b) y)
      in fl_min dx dy)"

definition aabb_center :: "aabb \<Rightarrow> fl \<times> fl" where
  "aabb_center b = (fl_div F32 (fl_add F32 (x_min b) (x_max b)) (fl_of_int F32 2),
                    fl_div F32 (fl_add F32 (y_min b) (y_max b)) (fl_of_int F32 2))"

section \<open>Nodes\<close>

definition MAX_DEPTH :: nat where "MAX_DEPTH = 8"
definition NODE_CAPACITY :: nat where "NODE_CAPACITY = 4"

type_synonym qitem = "string \<times> aabb"

datatype qnode = Node (nd_bounds: aabb) (nd_items: "qitem list") (nd_children: "qnode list") (nd_depth: nat)

definition node_new :: "aabb \<Rightarrow> nat \<Rightarrow> qnode" where
  "node_new bounds depth = Node bounds [] [] depth"

definition quadrants :: "aabb \<Rightarrow> aabb list" where
  "quadrants b =
     (case aabb_center b of (cx, cy) \<Rightarrow>
       [aabb_new (x_min b) (y_min b) cx cy, aabb_new cx (y_min b) (x_max b) cy,
        aabb_new (x_min b) cy cx (y_max b), aabb_new cx cy (x_max b) (y_max b)])"

text \<open>Whether bounds fit entirely in a quadrant.\<close>

definition fits :: "aabb \<Rightarrow> aabb \<Rightarrow> bool" where
  "fits b q \<longleftrightarrow> fl_le (x_min q) (x_min b) \<and> fl_le (x_max b) (x_max q) \<and>
     fl_le (y_min q) (y_min b) \<and> fl_le (y_max b) (y_max q)"

text \<open>\<open>position\<close> of the first element that satisfies a test.\<close>

fun position_of :: "('a \<Rightarrow> bool) \<Rightarrow> 'a list \<Rightarrow> nat option" where
  "position_of P [] = None"
| "position_of P (x # xs) = (if P x then Some 0 else map_option Suc (position_of P xs))"

text \<open>The second half of \<open>Node::insert\<close>: into the first child that holds the bounds, or here.\<close>

definition place :: "(string \<Rightarrow> aabb \<Rightarrow> qnode \<Rightarrow> qnode) \<Rightarrow> string \<Rightarrow> aabb \<Rightarrow> qnode \<Rightarrow> qnode" where
  "place ins i b n =
     (case position_of (\<lambda>c. fits b (nd_bounds c)) (nd_children n) of
        Some k \<Rightarrow> Node (nd_bounds n) (nd_items n) ((nd_children n)[k := ins i b (nd_children n ! k)]) (nd_depth n)
      | None \<Rightarrow> Node (nd_bounds n) (nd_items n @ [(i, b)]) (nd_children n) (nd_depth n))"

text \<open>\<open>Node::insert\<close>. A full node is split first; the items it re-inserts into itself meet a node that has
  children, so they are only placed. The first argument bounds the levels below: a node is split only above
  the maximal depth.\<close>

fun node_insert :: "nat \<Rightarrow> string \<Rightarrow> aabb \<Rightarrow> qnode \<Rightarrow> qnode" where
  "node_insert 0 i b n = n"
| "node_insert (Suc k) i b n =
     (let n1 = (if nd_children n = [] \<and> NODE_CAPACITY \<le> length (nd_items n) \<and> nd_depth n < MAX_DEPTH
                then fold (\<lambda>(ii, ib). place (node_insert k) ii ib) (nd_items n)
                       (Node (nd_bounds n) [] (map (\<lambda>q. node_new q (nd_depth n + 1)) (quadrants (nd_bounds n))) (nd_depth n))
                else n)
      in place (node_insert k) i b n1)"

text \<open>\<open>Node::remove\<close>: whether the id was found, and the node without its first occurrence. \<open>any\<close> stops at
  the first child that reports success.\<close>

fun node_remove :: "string \<Rightarrow> qnode \<Rightarrow> bool \<times> qnode"
  and children_remove :: "string \<Rightarrow> qnode list \<Rightarrow> bool \<times> qnode list" where
  "node_remove i (Node bounds items children depth) =
     (case position_of (\<lambda>(iid, b). iid = i) items of
        Some pos \<Rightarrow> (True, Node bounds (take pos items @ drop (Suc pos) items) children depth)
      | None \<Rightarrow> (case children_remove i children of (found, cs) \<Rightarrow> (found, Node bounds items cs depth)))"
| "children_remove i [] = (False, [])"
| "children_remove i (c # cs) =
     (case node_remove i c of
        (True, c') \<Rightarrow> (True, c' # cs)
      | (False, c') \<Rightarrow> (case children_remove i cs of (found, cs') \<Rightarrow> (found, c' # cs')))"

fun node_query_point :: "fl \<Rightarrow> fl \<Rightarrow> qnode \<Rightarrow> string list" where
  "node_query_point x y (Node bounds items children depth) =
     map fst (filter (\<lambda>(i, b). aabb_contains b x y) items) @
     concat (map (\<lambda>c. if aabb_contains (nd_bounds c) x y then node_query_point x y c else []) children)"

fun node_query_aabb :: "aabb \<Rightarrow> qnode \<Rightarrow> string list" where
  "node_query_aabb area (Node bounds items children depth) =
     map fst (filter (\<lambda>(i, b). aabb_intersects b area) items) @
     concat (map (\<lambda>c. if aabb_intersects (nd_bounds c) area then node_query_aabb area c else []) children)"

section \<open>The tree\<close>

type_synonym quad_tree = qnode

definition qt_new :: "aabb \<Rightarrow> quad_tree" where
  "qt_new bounds = node_new bounds 0"

definition qt_gta_v :: quad_tree where
  "qt_gta_v = qt_new (aabb_new (fl_of_int F32 (- 4000)) (fl_of_int F32 (- 4000)) (fl_of_int F32 4000) (fl_of_int F32 4000))"

definition qt_remove :: "string \<Rightarrow> quad_tree \<Rightarrow> bool \<times> quad_tree" where
  "qt_remove zone_id t = node_remove zone_id t"

definition qt_insert :: "string \<Rightarrow> aabb \<Rightarrow> quad_tree \<Rightarrow> quad_tree" where
  "qt_insert zone_id bounds t = node_insert (Suc MAX_DEPTH) zone_id bounds (snd (qt_remove zone_id t))"

definition qt_query_point :: "fl \<Rightarrow> fl \<Rightarrow> quad_tree \<Rightarrow> string option" where
  "qt_query_point x y t = (case node_query_point x y t of [] \<Rightarrow> None | z # zs \<Rightarrow> Some z)"

definition qt_query_aabb :: "aabb \<Rightarrow> quad_tree \<Rightarrow> string list" where
  "qt_query_aabb area t = node_query_aabb area t"

section \<open>Contents and well-formedness\<close>

fun contents :: "qnode \<Rightarrow> qitem list" where
  "contents (Node bounds items children depth) = items @ concat (map contents children)"

fun node_wf :: "nat \<Rightarrow> qnode \<Rightarrow> bool" where
  "node_wf d (Node bounds items children depth) \<longleftrightarrow> depth = d \<and> d \<le> MAX_DEPTH \<and> (children \<noteq> [] \<longrightarrow> d < MAX_DEPTH) \<and>
     (\<forall>c\<in>set children. node_wf (Suc d) c \<and> (\<forall>(i, b)\<in>set (contents c). fits b (nd_bounds c)))"

lemma fl_mixed_trans:
  "fl_le x y \<Longrightarrow> fl_lt y z \<Longrightarrow> fl_lt x z" "fl_lt x y \<Longrightarrow> fl_le y z \<Longrightarrow> fl_lt x z"
  by (cases x; cases y; cases z; auto)+

lemma fits_contains: "fits b q \<Longrightarrow> aabb_contains b x y \<Longrightarrow> aabb_contains q x y"
  unfolding fits_def aabb_contains_def by (meson fl_le_trans fl_mixed_trans)

lemma fits_intersects: "fits b q \<Longrightarrow> aabb_intersects b a \<Longrightarrow> aabb_intersects q a"
  unfolding fits_def aabb_intersects_def by (meson fl_mixed_trans)

text \<open>A query is a scan of the contents: the subtrees it does not enter hold nothing it looks for.\<close>

lemma pruned_scan:
  assumes "\<And>c. c \<in> set cs \<Longrightarrow> q c = map fst (filter P (contents c))"
    and "\<And>c i b. c \<in> set cs \<Longrightarrow> (i, b) \<in> set (contents c) \<Longrightarrow> P (i, b) \<Longrightarrow> T c"
  shows "concat (map (\<lambda>c. if T c then q c else []) cs) = map fst (filter P (concat (map contents cs)))"
  using assms
proof (induction cs)
  case (Cons c cs)
  have "filter P (contents c) = []" if "\<not> T c" using Cons.prems(2) [of c] that by (auto simp: filter_empty_conv)
  then show ?case using Cons by (auto simp: filter_concat)
qed simp

lemma node_query_point_scan:
  "node_wf d n \<Longrightarrow> node_query_point x y n = map fst (filter (\<lambda>(i, b). aabb_contains b x y) (contents n))"
proof (induction n arbitrary: d)
  case (Node bounds items children depth)
  have "concat (map (\<lambda>c. if aabb_contains (nd_bounds c) x y then node_query_point x y c else []) children) =
      map fst (filter (\<lambda>(i, b). aabb_contains b x y) (concat (map contents children)))"
    by (rule pruned_scan) (use Node fits_contains in \<open>fastforce+\<close>)
  then show ?case by simp
qed

lemma node_query_aabb_scan:
  "node_wf d n \<Longrightarrow> node_query_aabb area n = map fst (filter (\<lambda>(i, b). aabb_intersects b area) (contents n))"
proof (induction n arbitrary: d)
  case (Node bounds items children depth)
  have "concat (map (\<lambda>c. if aabb_intersects (nd_bounds c) area then node_query_aabb area c else []) children) =
      map fst (filter (\<lambda>(i, b). aabb_intersects b area) (concat (map contents children)))"
    by (rule pruned_scan) (use Node fits_intersects in \<open>fastforce+\<close>)
  then show ?case by simp
qed

section \<open>Insertion\<close>

lemma position_of_Some: "position_of P xs = Some k \<Longrightarrow> k < length xs \<and> P (xs ! k)"
  by (induction xs arbitrary: k) (auto split: if_splits)

lemma position_of_None: "position_of P xs = None \<longleftrightarrow> (\<forall>x\<in>set xs. \<not> P x)"
  by (induction xs) auto

text \<open>What inserting an item into a node at a depth must do.\<close>

definition inserts :: "nat \<Rightarrow> (string \<Rightarrow> aabb \<Rightarrow> qnode \<Rightarrow> qnode) \<Rightarrow> bool" where
  "inserts d ins \<longleftrightarrow> (\<forall>i b n. node_wf d n \<longrightarrow> node_wf d (ins i b n) \<and> nd_bounds (ins i b n) = nd_bounds n \<and>
     mset (contents (ins i b n)) = add_mset (i, b) (mset (contents n)))"

lemma insertsD:
  assumes "inserts d ins" "node_wf d n"
  shows "node_wf d (ins i b n)" "nd_bounds (ins i b n) = nd_bounds n"
    "mset (contents (ins i b n)) = add_mset (i, b) (mset (contents n))"
  using assms unfolding inserts_def by blast+

lemma concat_update:
  "k < length cs \<Longrightarrow> mset (f c) = add_mset x (mset (f (cs ! k))) \<Longrightarrow>
   mset (concat (map f (cs[k := c]))) = add_mset x (mset (concat (map f cs)))"
  by (induction cs arbitrary: k) (auto simp: less_Suc_eq_0_disj nth_Cons split: nat.splits)

lemma place_inserts:
  assumes ins: "inserts (Suc d) ins" and wf: "node_wf d n"
  shows "node_wf d (place ins i b n)" "nd_bounds (place ins i b n) = nd_bounds n"
    "mset (contents (place ins i b n)) = add_mset (i, b) (mset (contents n))"
    "nd_children n \<noteq> [] \<Longrightarrow> nd_children (place ins i b n) \<noteq> []"
proof -
  obtain bounds items children depth where n: "n = Node bounds items children depth" by (cases n)
  have *: "node_wf d (place ins i b n) \<and> nd_bounds (place ins i b n) = nd_bounds n \<and>
    mset (contents (place ins i b n)) = add_mset (i, b) (mset (contents n)) \<and>
    (nd_children n \<noteq> [] \<longrightarrow> nd_children (place ins i b n) \<noteq> [])"
  proof (cases "position_of (\<lambda>c. fits b (nd_bounds c)) children")
    case None
    then show ?thesis using wf by (simp add: place_def n)
  next
    case (Some k)
    then have k: "k < length children" "fits b (nd_bounds (children ! k))" by (auto dest: position_of_Some)
    have c: "node_wf (Suc d) (children ! k)" "\<forall>(i, b)\<in>set (contents (children ! k)). fits b (nd_bounds (children ! k))"
      using wf k(1) by (auto simp: n)
    note I = insertsD [OF ins c(1), of i b]
    have "set (contents (ins i b (children ! k))) = insert (i, b) (set (contents (children ! k)))"
      using arg_cong [OF I(3), of set_mset] by simp
    then have "\<forall>(i', b')\<in>set (contents (ins i b (children ! k))). fits b' (nd_bounds (ins i b (children ! k)))"
      using c(2) k(2) I(2) by auto
    then have "\<forall>c\<in>set (children[k := ins i b (children ! k)]). node_wf (Suc d) c \<and> (\<forall>(i, b)\<in>set (contents c). fits b (nd_bounds c))"
      using wf I(1) set_update_subset_insert [of children k] by (fastforce simp: n)
    then show ?thesis
      using wf concat_update [OF k(1), of contents "ins i b (children ! k)" "(i, b)"] I(3) Some k by (auto simp: place_def n)
  qed
  then show "node_wf d (place ins i b n)" "nd_bounds (place ins i b n) = nd_bounds n"
    "mset (contents (place ins i b n)) = add_mset (i, b) (mset (contents n))"
    "nd_children n \<noteq> [] \<Longrightarrow> nd_children (place ins i b n) \<noteq> []" by blast+
qed

lemma fold_place_inserts:
  assumes ins: "inserts (Suc d) ins"
  shows "node_wf d n \<Longrightarrow> node_wf d (fold (\<lambda>(i, b). place ins i b) its n) \<and>
    nd_bounds (fold (\<lambda>(i, b). place ins i b) its n) = nd_bounds n \<and>
    mset (contents (fold (\<lambda>(i, b). place ins i b) its n)) = mset its + mset (contents n)"
proof (induction its arbitrary: n)
  case (Cons it its)
  obtain i b where it: "it = (i, b)" by force
  show ?case using Cons.IH [of "place ins i b n"] place_inserts [OF ins Cons.prems, of i b] by (simp add: it)
qed simp

text \<open>With one unit per level left, and one more, an insertion adds its item and nothing else.\<close>

lemma node_insert_inserts: "MAX_DEPTH < d + k \<Longrightarrow> inserts d (node_insert k)"
proof (induction k arbitrary: d)
  case 0
  have "\<not> node_wf d n" for n using 0 by (cases n) auto
  then show ?case by (simp add: inserts_def)
next
  case (Suc k)
  then have ins: "inserts (Suc d) (node_insert k)" by simp
  show ?case unfolding inserts_def
  proof (intro allI impI)
    fix i b n
    assume wf: "node_wf d n"
    obtain bounds items children depth where n: "n = Node bounds items children depth" by (cases n)
    let ?split = "children = [] \<and> NODE_CAPACITY \<le> length items \<and> depth < MAX_DEPTH"
    let ?fresh = "Node bounds [] (map (\<lambda>q. node_new q (depth + 1)) (quadrants bounds)) depth"
    let ?n1 = "if ?split then fold (\<lambda>(ii, ib). place (node_insert k) ii ib) items ?fresh else n"
    have fresh: "?split \<Longrightarrow> node_wf d ?fresh \<and> contents ?fresh = []"
      using wf by (auto simp: n node_new_def comp_def)
    have n1: "node_wf d ?n1 \<and> nd_bounds ?n1 = bounds \<and> mset (contents ?n1) = mset (contents n)"
    proof (cases ?split)
      case True
      then have f: "node_wf d ?fresh" "contents ?fresh = []" using fresh by blast+
      have "?n1 = fold (\<lambda>(ii, ib). place (node_insert k) ii ib) items ?fresh" by (rule if_P [OF True])
      moreover have "contents n = items" using True by (simp add: n)
      ultimately show ?thesis using fold_place_inserts [OF ins f(1), of items] f(2) by (simp only:) simp
    next
      case False
      then show ?thesis using wf by (simp only: if_False) (simp add: n)
    qed
    have eq: "node_insert (Suc k) i b n = place (node_insert k) i b ?n1" by (simp add: n Let_def del: fold.simps)
    show "node_wf d (node_insert (Suc k) i b n) \<and> nd_bounds (node_insert (Suc k) i b n) = nd_bounds n \<and>
       mset (contents (node_insert (Suc k) i b n)) = add_mset (i, b) (mset (contents n))"
      using place_inserts [OF ins, of ?n1 i b] n1 unfolding eq by (simp add: n)
  qed
qed

section \<open>Removal\<close>

fun drop_key :: "string \<Rightarrow> qitem list \<Rightarrow> qitem list" where
  "drop_key i [] = []"
| "drop_key i ((j, b) # its) = (if j = i then its else (j, b) # drop_key i its)"

lemma drop_key_absent: "i \<notin> fst ` set its \<Longrightarrow> drop_key i its = its"
  by (induction i its rule: drop_key.induct) auto

lemma drop_key_append: "drop_key i (xs @ ys) = (if i \<in> fst ` set xs then drop_key i xs @ ys else xs @ drop_key i ys)"
  by (induction i xs rule: drop_key.induct) (auto simp: drop_key_absent)

lemma set_drop_key: "set (drop_key i its) \<subseteq> set its"
  by (induction i its rule: drop_key.induct) auto

lemma position_drop_key:
  "position_of (\<lambda>(j, b). j = i) its = Some k \<Longrightarrow> i \<in> fst ` set its \<and> take k its @ drop (Suc k) its = drop_key i its"
  "position_of (\<lambda>(j, b). j = i) its = None \<longleftrightarrow> i \<notin> fst ` set its"
  by (induction its arbitrary: k) (auto split: if_splits)

definition child_ok :: "nat \<Rightarrow> qnode \<Rightarrow> bool" where
  "child_ok d c \<longleftrightarrow> node_wf d c \<and> (\<forall>(i, b)\<in>set (contents c). fits b (nd_bounds c))"

lemma node_wf_children:
  "node_wf d (Node bounds items children depth) \<longleftrightarrow> depth = d \<and> d \<le> MAX_DEPTH \<and> (children \<noteq> [] \<longrightarrow> d < MAX_DEPTH) \<and>
     list_all (child_ok (Suc d)) children"
  by (auto simp: child_ok_def list_all_iff)

lemma child_ok_removed:
  "child_ok d c \<Longrightarrow> node_wf d c' \<Longrightarrow> contents c' = drop_key i (contents c) \<Longrightarrow> nd_bounds c' = nd_bounds c \<Longrightarrow> child_ok d c'"
  using set_drop_key [of i "contents c"] by (auto simp: child_ok_def)

lemma node_remove_contents:
  "node_remove i n = (found, n') \<Longrightarrow> found = (i \<in> fst ` set (contents n)) \<and> contents n' = drop_key i (contents n) \<and>
     nd_bounds n' = nd_bounds n \<and> (node_wf d n \<longrightarrow> node_wf d n')"
  "children_remove i cs = (found, cs') \<Longrightarrow> found = (i \<in> fst ` set (concat (map contents cs))) \<and>
     concat (map contents cs') = drop_key i (concat (map contents cs)) \<and> (cs' = [] \<longleftrightarrow> cs = []) \<and>
     (list_all (child_ok d) cs \<longrightarrow> list_all (child_ok d) cs')"
proof (induction i n and i cs arbitrary: found n' d and found cs' d rule: node_remove_children_remove.induct)
  case (1 i bounds items children depth)
  show ?case
  proof (cases "position_of (\<lambda>(iid, b). iid = i) items")
    case (Some pos)
    then show ?thesis using 1(2) position_drop_key(1) [OF Some] by (auto simp: drop_key_append)
  next
    case None
    obtain f cs where cs: "children_remove i children = (f, cs)" by force
    have i: "i \<notin> fst ` set items" using None by (simp add: position_drop_key(2))
    show ?thesis using 1(1) [OF None cs, of "Suc d"] 1(2) None cs i
      by (auto simp: drop_key_append image_Un node_wf_children simp del: node_wf.simps)
  qed
next
  case (3 i c cs)
  obtain f c' where c: "node_remove i c = (f, c')" by force
  note c' = 3(1) [OF c, of d]
  have ok: "child_ok d c \<Longrightarrow> child_ok d c'" using c' child_ok_removed [of d c c' i] by (auto simp: child_ok_def)
  show ?case
  proof (cases f)
    case True
    then have "found" "cs' = c' # cs" using 3(3) c by auto
    then show ?thesis using c' ok True by (simp add: drop_key_append image_Un)
  next
    case False
    obtain g ds where ds: "children_remove i cs = (g, ds)" by force
    have p: "found = g" "cs' = c' # ds" using 3(3) c False ds by auto
    have f: "f = False" using False by simp
    note cs = 3(2) [OF c [symmetric] f ds, of d]
    have i: "i \<notin> fst ` set (contents c)" "contents c' = contents c" using c' False by (simp_all add: drop_key_absent)
    then show ?thesis using cs ok p by (simp add: drop_key_append image_Un)
  qed
qed simp

section \<open>The tree is an index of a map\<close>

datatype qt_op = QtInsert string aabb | QtRemove string

fun qt_run :: "qt_op \<Rightarrow> quad_tree \<Rightarrow> quad_tree" where
  "qt_run (QtInsert z b) t = qt_insert z b t"
| "qt_run (QtRemove z) t = snd (qt_remove z t)"

fun qt_spec :: "qt_op \<Rightarrow> (string \<rightharpoonup> aabb) \<Rightarrow> (string \<rightharpoonup> aabb)" where
  "qt_spec (QtInsert z b) m = m(z \<mapsto> b)"
| "qt_spec (QtRemove z) m = m(z := None)"

text \<open>The tree holds each zone of the map once and nothing else.\<close>

definition qt_holds :: "quad_tree \<Rightarrow> (string \<rightharpoonup> aabb) \<Rightarrow> bool" where
  "qt_holds t m \<longleftrightarrow> node_wf 0 t \<and> distinct (map fst (contents t)) \<and> map_of (contents t) = m"

lemma distinct_drop_key: "distinct (map fst its) \<Longrightarrow> distinct (map fst (drop_key i its)) \<and> i \<notin> fst ` set (drop_key i its)"
proof (induction i its rule: drop_key.induct)
  case (2 i j b its)
  then show ?case using set_drop_key [of i its] by auto
qed simp

lemma map_of_drop_key: "distinct (map fst its) \<Longrightarrow> map_of (drop_key i its) = (map_of its)(i := None)"
  by (induction i its rule: drop_key.induct) (auto simp: fun_eq_iff map_of_eq_None_iff)

lemma map_of_mset:
  assumes "mset xs = mset ys" "distinct (map fst xs)"
  shows "distinct (map fst ys) \<and> map_of xs = map_of ys"
proof -
  have d: "distinct (map fst ys)" using assms by (metis mset_eq_imp_distinct_iff mset_map)
  moreover have "set xs = set ys" using assms(1) by (metis set_mset_mset)
  ultimately show ?thesis using assms(2) by (metis map_of_inject_set)
qed

lemma qt_remove_holds:
  assumes "qt_holds t m"
  shows "qt_holds (snd (qt_remove z t)) (m(z := None))" "fst (qt_remove z t) \<longleftrightarrow> m z \<noteq> None"
    "z \<notin> fst ` set (contents (snd (qt_remove z t)))"
proof -
  obtain f t' where r: "node_remove z t = (f, t')" by force
  note R = node_remove_contents(1) [OF r, of 0]
  show "qt_holds (snd (qt_remove z t)) (m(z := None))" "z \<notin> fst ` set (contents (snd (qt_remove z t)))"
    using assms R distinct_drop_key [of "contents t" z] map_of_drop_key [of "contents t" z]
    by (auto simp: qt_holds_def qt_remove_def r)
  show "fst (qt_remove z t) \<longleftrightarrow> m z \<noteq> None"
    using assms R map_of_eq_None_iff [of "contents t" z] by (auto simp: qt_holds_def qt_remove_def r simp del: not_None_eq)
qed

lemma qt_insert_holds:
  assumes "qt_holds t m"
  shows "qt_holds (qt_insert z b t) (m(z \<mapsto> b))"
proof -
  define t1 where "t1 = snd (qt_remove z t)"
  have t1: "qt_holds t1 (m(z := None))" "z \<notin> fst ` set (contents t1)" using qt_remove_holds [OF assms, of z] by (simp_all add: t1_def)
  have "inserts 0 (node_insert (Suc MAX_DEPTH))" by (rule node_insert_inserts) simp
  note I = insertsD [OF this, of t1 z b]
  have wf: "node_wf 0 t1" using t1 by (simp add: qt_holds_def)
  have "mset (contents (qt_insert z b t)) = mset ((z, b) # contents t1)"
    using I(3) [OF wf] by (simp add: qt_insert_def t1_def [symmetric] del: node_insert.simps)
  then have "distinct (map fst (contents (qt_insert z b t))) \<and> map_of ((z, b) # contents t1) = map_of (contents (qt_insert z b t))"
    using t1 by (intro map_of_mset) (auto simp: qt_holds_def)
  then show ?thesis
    using t1(1) I(1) [OF wf] by (auto simp: qt_holds_def qt_insert_def t1_def [symmetric] simp del: node_insert.simps)
qed

lemma qt_new_holds: "qt_holds (qt_new b) (\<lambda>z. None)"
  by (simp add: qt_holds_def qt_new_def node_new_def)

lemma qt_query_holds:
  assumes "qt_holds t m"
  shows "case qt_query_point x y t of
      None \<Rightarrow> \<forall>z b. m z = Some b \<longrightarrow> \<not> aabb_contains b x y
    | Some z \<Rightarrow> \<exists>b. m z = Some b \<and> aabb_contains b x y"
    "distinct (qt_query_aabb area t)" "set (qt_query_aabb area t) = {z. \<exists>b. m z = Some b \<and> aabb_intersects b area}"
proof -
  have h: "node_wf 0 t" "distinct (map fst (contents t))" "m z = Some b \<longleftrightarrow> (z, b) \<in> set (contents t)" for z b
    using assms by (auto simp: qt_holds_def)
  have "node_query_point x y t = map fst (filter (\<lambda>(i, b). aabb_contains b x y) (contents t))"
    by (rule node_query_point_scan [OF h(1)])
  then show "case qt_query_point x y t of
      None \<Rightarrow> \<forall>z b. m z = Some b \<longrightarrow> \<not> aabb_contains b x y
    | Some z \<Rightarrow> \<exists>b. m z = Some b \<and> aabb_contains b x y"
  proof (cases "filter (\<lambda>(i, b). aabb_contains b x y) (contents t)")
    case Nil
    then show ?thesis using \<open>node_query_point x y t = _\<close> by (auto simp: qt_query_point_def h(3) filter_empty_conv)
  next
    case (Cons ib its)
    obtain z b where ib: "ib = (z, b)" by force
    have "(z, b) \<in> set (contents t) \<and> aabb_contains b x y" using arg_cong [OF Cons, of set] ib by auto
    then show ?thesis using \<open>node_query_point x y t = _\<close> Cons ib by (auto simp: qt_query_point_def h(3))
  qed
  have q: "qt_query_aabb area t = map fst (filter (\<lambda>(i, b). aabb_intersects b area) (contents t))"
    unfolding qt_query_aabb_def by (rule node_query_aabb_scan [OF h(1)])
  show "distinct (qt_query_aabb area t)" unfolding q using h(2) by (rule distinct_map_filter)
  show "set (qt_query_aabb area t) = {z. \<exists>b. m z = Some b \<and> aabb_intersects b area}"
    by (force simp: q h(3))
qed

lemma qt_run_holds: "qt_holds t m \<Longrightarrow> qt_holds (fold qt_run ops t) (fold qt_spec ops m)"
proof (induction ops arbitrary: t m)
  case (Cons c ops)
  have "qt_holds (qt_run c t) (qt_spec c m)" using Cons.prems by (cases c) (auto simp: qt_insert_holds qt_remove_holds)
  then show ?case using Cons.IH by simp
qed simp

section \<open>The index as an interface\<close>

text \<open>What the zone registry needs of a spatial index, and what follows for a table kept beside it.\<close>

locale zone_index =
  fixes holds :: "'t \<Rightarrow> (string \<rightharpoonup> aabb) \<Rightarrow> bool"
    and ins :: "string \<Rightarrow> aabb \<Rightarrow> 't \<Rightarrow> 't" and del :: "string \<Rightarrow> 't \<Rightarrow> 't"
    and point :: "fl \<Rightarrow> fl \<Rightarrow> 't \<Rightarrow> string option"
  assumes ins_holds: "holds t m \<Longrightarrow> holds (ins z b t) (m(z \<mapsto> b))"
    and del_holds: "holds t m \<Longrightarrow> holds (del z t) (m(z := None))"
    and point_sound: "holds t m \<Longrightarrow> point x y t = Some z \<Longrightarrow> \<exists>b. m z = Some b \<and> aabb_contains b x y"
    and point_complete: "holds t m \<Longrightarrow> point x y t = None \<Longrightarrow> m z = Some b \<Longrightarrow> \<not> aabb_contains b x y"
begin

lemma del_all_holds: "holds t m \<Longrightarrow> holds (fold del zs t) (\<lambda>z. if z \<in> set zs then None else m z)"
proof (induction zs arbitrary: t m)
  case (Cons z zs)
  have "holds (fold del zs (del z t)) (\<lambda>y. if y \<in> set zs then None else (m(z := None)) y)"
    by (rule Cons.IH [OF del_holds [OF Cons.prems]])
  moreover have "(\<lambda>y. if y \<in> set zs then None else (m(z := None)) y) = (\<lambda>y. if y \<in> set (z # zs) then None else m y)"
    by (auto simp: fun_eq_iff)
  ultimately show ?case by simp
qed simp

lemma deleted_not_found: "holds t m \<Longrightarrow> z \<in> set zs \<Longrightarrow> point x y (fold del zs t) \<noteq> Some z"
  using point_sound [OF del_all_holds, of t m x y zs z] by auto

end

interpretation qt: zone_index qt_holds qt_insert "\<lambda>z t. snd (qt_remove z t)" qt_query_point
proof
  fix t m x y z b
  assume h: "qt_holds t m"
  show "qt_holds (qt_insert z b t) (m(z \<mapsto> b))" by (rule qt_insert_holds [OF h])
  show "qt_holds (snd (qt_remove z t)) (m(z := None))" by (rule qt_remove_holds [OF h])
  show "qt_query_point x y t = Some z \<Longrightarrow> \<exists>b. m z = Some b \<and> aabb_contains b x y"
    using qt_query_holds(1) [OF h, of x y] by simp
  show "qt_query_point x y t = None \<Longrightarrow> m z = Some b \<Longrightarrow> \<not> aabb_contains b x y"
    using qt_query_holds(1) [OF h, of x y] by simp
qed

text \<open>C14. The quadtree is an exact index of the zones. After any sequence of insertions, re-insertions and
  removals, whatever the bounds (nested, degenerate, infinite or NaN) and however often nodes were split: every
  zone is held once with the bounds of its last insertion, a removal reports whether the zone was held, a point
  query returns a zone whose bounds contain the point and fails only when there is none, and an area query
  returns exactly the zones that intersect the area, each once.\<close>

theorem quadtree_refines_map:
  "let t = fold qt_run ops (qt_new b); m = fold qt_spec ops (\<lambda>z. None) in
    distinct (map fst (contents t)) \<and> map_of (contents t) = m \<and>
    (fst (qt_remove z t) \<longleftrightarrow> m z \<noteq> None) \<and>
    (case qt_query_point x y t of
       None \<Rightarrow> (\<nexists>z b. m z = Some b \<and> aabb_contains b x y)
     | Some z \<Rightarrow> (\<exists>b. m z = Some b \<and> aabb_contains b x y)) \<and>
    distinct (qt_query_aabb area t) \<and>
    set (qt_query_aabb area t) = {z. \<exists>b. m z = Some b \<and> aabb_intersects b area}"
proof -
  have h: "qt_holds (fold qt_run ops (qt_new b)) (fold qt_spec ops (\<lambda>z. None))"
    by (rule qt_run_holds [OF qt_new_holds])
  then show ?thesis
    using qt_remove_holds(2) [OF h, of z] qt_query_holds(1) [OF h, of x y] qt_query_holds(2,3) [OF h, of area]
    by (auto simp: qt_holds_def Let_def split: option.splits)
qed

end
