(* ===== verification/Zone_Registry.thy ===== *)
theory Zone_Registry
  imports Quadtree Prelude "HOL-Library.AList" "HOL-Library.Char_ord" "HOL-Library.List_Lexorder"
begin

text \<open>
  The gateway's registry of live zones (\<open>crates/baston-gateway/src/zone_registry.rs\<close>) and its routing table
  (\<open>connection_router.rs\<close>). A \<open>HashMap\<close> or \<open>DashMap\<close> is an association list with distinct keys; the time of
  a call, in milliseconds, is an argument, and so is the test of \<open>tonic\<close> for a valid address. The gRPC clients
  of the entries are not modelled. An operation that takes the two locks of the registry one after the other
  is two definitions and their composition, since other calls may run between them.
\<close>

section \<open>Zones\<close>

record zone_entry =
  ze_zone_id :: string
  ze_bounds :: aabb
  ze_grpc_addr :: string
  ze_max_players :: u32
  ze_player_count :: u32
  ze_entity_count :: u32
  ze_last_heartbeat :: nat
  ze_registered_at :: nat

record zone_registry =
  zr_zones :: "(string \<times> zone_entry) list"
  zr_quadtree :: quad_tree
  zr_zone_timeout :: nat

definition zr_new :: "nat \<Rightarrow> zone_registry" where
  "zr_new zone_timeout = \<lparr>zr_zones = [], zr_quadtree = qt_gta_v, zr_zone_timeout = zone_timeout\<rparr>"

fun starts_with :: "string \<Rightarrow> string \<Rightarrow> bool" where
  "starts_with [] s = True"
| "starts_with (p # ps) [] = False"
| "starts_with (p # ps) (c # s) = (p = c \<and> starts_with ps s)"

definition normalize_grpc_uri :: "string \<Rightarrow> string" where
  "normalize_grpc_uri addr =
     (if starts_with ''http://'' addr \<or> starts_with ''https://'' addr then addr else ''http://'' @ addr)"

definition register_entry :: "nat \<Rightarrow> string \<Rightarrow> aabb \<Rightarrow> string \<Rightarrow> u32 \<Rightarrow> zone_registry \<Rightarrow> zone_registry" where
  "register_entry now zone_id bounds grpc_addr max_players r =
     r\<lparr>zr_zones := AList.update zone_id
        \<lparr>ze_zone_id = zone_id, ze_bounds = bounds, ze_grpc_addr = grpc_addr, ze_max_players = max_players,
         ze_player_count = 0, ze_entity_count = 0, ze_last_heartbeat = now, ze_registered_at = now\<rparr> (zr_zones r)\<rparr>"

definition register_index :: "string \<Rightarrow> aabb \<Rightarrow> zone_registry \<Rightarrow> zone_registry" where
  "register_index zone_id bounds r = r\<lparr>zr_quadtree := qt_insert zone_id bounds (zr_quadtree r)\<rparr>"

definition register_zone :: "(string \<Rightarrow> bool) \<Rightarrow> nat \<Rightarrow> string \<Rightarrow> aabb \<Rightarrow> string \<Rightarrow> u32 \<Rightarrow> zone_registry \<Rightarrow>
    bool \<times> zone_registry" where
  "register_zone valid_uri now zone_id bounds grpc_addr max_players r =
     (if \<not> valid_uri (normalize_grpc_uri grpc_addr) then (False, r)
      else (True, register_index zone_id bounds (register_entry now zone_id bounds grpc_addr max_players r)))"

definition zr_heartbeat :: "nat \<Rightarrow> string \<Rightarrow> u32 \<Rightarrow> u32 \<Rightarrow> zone_registry \<Rightarrow> bool \<times> zone_registry" where
  "zr_heartbeat now zone_id player_count entity_count r =
     (case map_of (zr_zones r) zone_id of
        None \<Rightarrow> (False, r)
      | Some _ \<Rightarrow> (True, r\<lparr>zr_zones := AList.map_entry zone_id
          (\<lambda>e. e\<lparr>ze_last_heartbeat := now, ze_player_count := player_count, ze_entity_count := entity_count\<rparr>) (zr_zones r)\<rparr>))"

definition evict_entries :: "nat \<Rightarrow> zone_registry \<Rightarrow> string list \<times> zone_registry" where
  "evict_entries now r =
     (let dead = map fst (filter (\<lambda>(i, z). zr_zone_timeout r < now - ze_last_heartbeat z) (zr_zones r))
      in (dead, r\<lparr>zr_zones := fold AList.delete dead (zr_zones r)\<rparr>))"

definition evict_index :: "string list \<Rightarrow> zone_registry \<Rightarrow> zone_registry" where
  "evict_index dead r = r\<lparr>zr_quadtree := fold (\<lambda>i t. snd (qt_remove i t)) dead (zr_quadtree r)\<rparr>"

definition evict_silent_zones :: "nat \<Rightarrow> zone_registry \<Rightarrow> string list \<times> zone_registry" where
  "evict_silent_zones now r = (case evict_entries now r of (dead, r1) \<Rightarrow> (dead, evict_index dead r1))"

definition remove_zone :: "string \<Rightarrow> zone_registry \<Rightarrow> bool \<times> zone_registry" where
  "remove_zone zone_id r =
     (if map_of (zr_zones r) zone_id = None then (False, r)
      else (True, evict_index [zone_id] (r\<lparr>zr_zones := AList.delete zone_id (zr_zones r)\<rparr>)))"

definition find_zone_for_coords :: "fl \<Rightarrow> fl \<Rightarrow> zone_registry \<Rightarrow> string option" where
  "find_zone_for_coords x y r = qt_query_point x y (zr_quadtree r)"

definition find_zones_in_aabb :: "aabb \<Rightarrow> zone_registry \<Rightarrow> string list" where
  "find_zones_in_aabb area r = qt_query_aabb area (zr_quadtree r)"

text \<open>\<open>min_by_key\<close>: the first of the least elements.\<close>

fun min_by_key :: "('a \<Rightarrow> 'k::linorder) \<Rightarrow> 'a list \<Rightarrow> 'a option" where
  "min_by_key f [] = None"
| "min_by_key f (x # xs) = (case min_by_key f xs of None \<Rightarrow> Some x | Some y \<Rightarrow> if f x \<le> f y then Some x else Some y)"

definition find_least_loaded_zone_excluding :: "string option \<Rightarrow> zone_registry \<Rightarrow> string option" where
  "find_least_loaded_zone_excluding exclude r =
     map_option ze_zone_id (min_by_key ze_player_count
       (filter (\<lambda>z. Some (ze_zone_id z) \<noteq> exclude) (map snd (zr_zones r))))"

definition find_least_loaded_zone :: "zone_registry \<Rightarrow> string option" where
  "find_least_loaded_zone r = find_least_loaded_zone_excluding None r"

definition survivors :: "string option \<Rightarrow> zone_registry \<Rightarrow> (string \<times> u32) list" where
  "survivors exclude r =
     sort_key fst (map (\<lambda>z. (ze_zone_id z, ze_max_players z))
       (filter (\<lambda>z. Some (ze_zone_id z) \<noteq> exclude) (map snd (zr_zones r))))"

definition zone_grpc_addr :: "string \<Rightarrow> zone_registry \<Rightarrow> string option" where
  "zone_grpc_addr zone_id r = map_option ze_grpc_addr (map_of (zr_zones r) zone_id)"

definition zone_bounds :: "string \<Rightarrow> zone_registry \<Rightarrow> aabb option" where
  "zone_bounds zone_id r = map_option ze_bounds (map_of (zr_zones r) zone_id)"

definition zr_contains :: "string \<Rightarrow> zone_registry \<Rightarrow> bool" where
  "zr_contains zone_id r \<longleftrightarrow> map_of (zr_zones r) zone_id \<noteq> None"

section \<open>Routes\<close>

type_synonym connection_router = "(u32 \<times> string) list"

definition cr_assign :: "u32 \<Rightarrow> string \<Rightarrow> connection_router \<Rightarrow> connection_router" where
  "cr_assign source zone_id t = AList.update source zone_id t"

definition zone_of :: "u32 \<Rightarrow> connection_router \<Rightarrow> string option" where
  "zone_of source t = map_of t source"

definition commit_handoff :: "u32 \<Rightarrow> string \<Rightarrow> connection_router \<Rightarrow> string option \<times> connection_router" where
  "commit_handoff source to_zone t = (map_of t source, AList.update source to_zone t)"

definition commit_batch :: "(u32 \<times> string) list \<Rightarrow> connection_router \<Rightarrow> connection_router" where
  "commit_batch assignments t = fold (\<lambda>(source, zone). AList.update source zone) assignments t"

definition cr_remove :: "u32 \<Rightarrow> connection_router \<Rightarrow> string option \<times> connection_router" where
  "cr_remove source t = (map_of t source, AList.delete source t)"

definition players_in_zone :: "string \<Rightarrow> connection_router \<Rightarrow> u32 list" where
  "players_in_zone zone_id t = map fst (filter (\<lambda>(s, z). z = zone_id) t)"

definition count_in_zone :: "string \<Rightarrow> connection_router \<Rightarrow> nat" where
  "count_in_zone zone_id t = length (filter (\<lambda>(s, z). z = zone_id) t)"

section \<open>Registry and index agree\<close>

text \<open>Entries are stored under their own id, and the index holds the bounds of exactly the registered zones.\<close>

definition entries_ok :: "(string \<times> zone_entry) list \<Rightarrow> bool" where
  "entries_ok zs \<longleftrightarrow> (\<forall>i z. map_of zs i = Some z \<longrightarrow> ze_zone_id z = i)"

lemma entries_ok_update [simp]: "entries_ok zs \<Longrightarrow> ze_zone_id z = i \<Longrightarrow> entries_ok (AList.update i z zs)"
  by (auto simp: entries_ok_def update_conv')

lemma entries_ok_map_entry [simp]: "entries_ok zs \<Longrightarrow> (\<And>z. ze_zone_id (f z) = ze_zone_id z) \<Longrightarrow> entries_ok (AList.map_entry i f zs)"
  by (auto simp: entries_ok_def map_of_map_entry split: option.splits)

lemma entries_ok_delete [simp]: "entries_ok zs \<Longrightarrow> entries_ok (AList.delete i zs)"
  by (auto simp: entries_ok_def delete_conv')

definition table_wf :: "zone_registry \<Rightarrow> bool" where
  "table_wf r \<longleftrightarrow> distinct (map fst (zr_zones r)) \<and> entries_ok (zr_zones r)"

definition registry_wf :: "zone_registry \<Rightarrow> bool" where
  "registry_wf r \<longleftrightarrow> distinct (map fst (zr_zones r)) \<and> entries_ok (zr_zones r) \<and>
     qt_holds (zr_quadtree r) (\<lambda>i. zone_bounds i r)"

text \<open>The table keeps its own half of the invariant across every lock section.\<close>

lemma table_wf_sections:
  assumes "table_wf r"
  shows "table_wf (register_entry now i b a m r)" "table_wf (register_index i b r)"
    "table_wf (snd (zr_heartbeat now i p e r))" "table_wf (snd (evict_entries now r))" "table_wf (evict_index ids r)"
proof -
  have keys: "map fst (AList.map_entry k f m) = map fst m" for k f and m :: "(string \<times> zone_entry) list"
    by (induction m) auto
  have del: "distinct (map fst zs) \<Longrightarrow> entries_ok zs \<Longrightarrow>
      distinct (map fst (fold AList.delete ids zs)) \<and> entries_ok (fold AList.delete ids zs)" for ids zs
    by (induction ids arbitrary: zs) (simp_all add: distinct_delete)
  show "table_wf (register_entry now i b a m r)" "table_wf (register_index i b r)"
    "table_wf (snd (zr_heartbeat now i p e r))" "table_wf (snd (evict_entries now r))" "table_wf (evict_index ids r)"
    using assms del by (simp_all add: table_wf_def register_entry_def register_index_def zr_heartbeat_def
        evict_entries_def evict_index_def distinct_update keys Let_def split: option.split)
qed

lemma zr_new_wf: "registry_wf (zr_new t)"
  by (simp add: registry_wf_def entries_ok_def zr_new_def zone_bounds_def qt_gta_v_def qt_new_holds)

lemma register_zone_wf: "registry_wf r \<Longrightarrow> registry_wf (snd (register_zone v now i b a m r))"
proof -
  assume wf: "registry_wf r"
  have "qt_holds (qt_insert i b (zr_quadtree r)) ((\<lambda>j. zone_bounds j r)(i \<mapsto> b))"
    using wf by (intro qt_insert_holds) (simp add: registry_wf_def)
  moreover have "(\<lambda>j. zone_bounds j r)(i \<mapsto> b) = (\<lambda>j. zone_bounds j (register_index i b (register_entry now i b a m r)))"
    by (auto simp: zone_bounds_def register_index_def register_entry_def update_conv' fun_eq_iff)
  ultimately show ?thesis
    using wf by (auto simp: register_zone_def registry_wf_def register_index_def register_entry_def distinct_update)
qed

lemma map_entry_fst: "map fst (AList.map_entry k f m) = map fst m"
  by (induction m) auto

lemma zr_heartbeat_wf: "registry_wf r \<Longrightarrow> registry_wf (snd (zr_heartbeat now i p e r))"
proof (cases "map_of (zr_zones r) i")
  case (Some z)
  assume wf: "registry_wf r"
  have "zone_bounds j (snd (zr_heartbeat now i p e r)) = zone_bounds j r" for j
    using Some by (auto simp: zone_bounds_def zr_heartbeat_def map_of_map_entry)
  then show ?thesis
    using wf Some by (simp add: registry_wf_def zr_heartbeat_def map_entry_fst)
qed (simp add: zr_heartbeat_def)

text \<open>Dropping a set of zones from the table and then from the index.\<close>

lemma drop_zones_wf:
  assumes "registry_wf r"
  shows "registry_wf (evict_index ids (r\<lparr>zr_zones := fold AList.delete ids (zr_zones r)\<rparr>))"
  using assms
proof (induction ids arbitrary: r)
  case (Cons i ids)
  let ?r = "r\<lparr>zr_zones := AList.delete i (zr_zones r), zr_quadtree := snd (qt_remove i (zr_quadtree r))\<rparr>"
  have "qt_holds (snd (qt_remove i (zr_quadtree r))) ((\<lambda>j. zone_bounds j r)(i := None))"
    using Cons.prems by (intro qt_remove_holds) (simp add: registry_wf_def)
  moreover have "(\<lambda>j. zone_bounds j r)(i := None) = (\<lambda>j. zone_bounds j ?r)"
    by (auto simp: zone_bounds_def delete_conv' fun_eq_iff)
  ultimately have "registry_wf ?r"
    using Cons.prems by (simp add: registry_wf_def distinct_delete)
  from Cons.IH [OF this] show ?case by (simp add: evict_index_def)
qed (simp add: evict_index_def)

lemma evict_silent_zones_wf: "registry_wf r \<Longrightarrow> registry_wf (snd (evict_silent_zones now r))"
  using drop_zones_wf by (simp add: evict_silent_zones_def evict_entries_def Let_def)

lemma remove_zone_wf: "registry_wf r \<Longrightarrow> registry_wf (snd (remove_zone i r))"
  using drop_zones_wf [of r "[i]"] by (simp add: remove_zone_def)

text \<open>Lookups by coordinates name registered zones.\<close>

lemma find_zone_registered:
  assumes "registry_wf r"
  shows "find_zone_for_coords x y r = Some z \<Longrightarrow> \<exists>e. map_of (zr_zones r) z = Some e \<and> aabb_contains (ze_bounds e) x y"
    and "find_zone_for_coords x y r = None \<Longrightarrow> map_of (zr_zones r) z = Some e \<Longrightarrow> \<not> aabb_contains (ze_bounds e) x y"
  using assms qt.point_sound [of "zr_quadtree r" "\<lambda>i. zone_bounds i r" x y z]
    qt.point_complete [of "zr_quadtree r" "\<lambda>i. zone_bounds i r" x y z "ze_bounds e"]
  by (auto simp: registry_wf_def find_zone_for_coords_def zone_bounds_def)

text \<open>The two locks of an eviction are taken one after the other: a zone that registers again between them is
  taken out of the index by the second section. It is registered and its heartbeats are accepted, but no
  lookup by coordinates finds it.\<close>

lemma evict_races_registration:
  assumes "registry_wf r" "evict_entries now r = (dead, r1)" "a \<in> set dead" "valid (normalize_grpc_uri addr)"
    and "register_zone valid now' a b addr n r1 = (ok, r2)"
  shows "zr_contains a (evict_index dead r2) \<and> fst (zr_heartbeat now'' a p e (evict_index dead r2)) \<and>
    find_zone_for_coords x y (evict_index dead r2) \<noteq> Some a"
proof -
  have r2: "r2 = register_index a b (register_entry now' a b addr n r1)" using assms by (simp add: register_zone_def)
  have "qt_holds (zr_quadtree r1) (\<lambda>i. zone_bounds i r)"
    using assms(1,2) by (auto simp: registry_wf_def evict_entries_def Let_def)
  then have "qt_holds (zr_quadtree r2) ((\<lambda>i. zone_bounds i r)(a \<mapsto> b))"
    by (simp add: r2 register_index_def register_entry_def qt_insert_holds)
  from qt.deleted_not_found [OF this assms(3), of x y]
  have "find_zone_for_coords x y (evict_index dead r2) \<noteq> Some a"
    by (simp add: find_zone_for_coords_def evict_index_def)
  then show ?thesis
    by (simp add: zr_contains_def zr_heartbeat_def evict_index_def r2 register_index_def register_entry_def update_conv')
qed

section \<open>Loads\<close>

lemma min_by_key_least: "min_by_key f xs = Some x \<Longrightarrow> x \<in> set xs \<and> (\<forall>y\<in>set xs. f x \<le> f y)"
proof (induction xs arbitrary: x)
  case (Cons a xs)
  show ?case
  proof (cases "min_by_key f xs")
    case None
    then show ?thesis using Cons.prems by (cases xs) (auto split: option.splits if_splits)
  next
    case (Some m)
    then show ?thesis using Cons.IH [OF Some] Cons.prems by (auto split: if_splits)
  qed
qed simp

lemma min_by_key_None: "min_by_key f xs = None \<longleftrightarrow> xs = []"
  by (cases xs) (auto split: option.splits)

lemma least_loaded_registered:
  assumes "table_wf r" "find_least_loaded_zone_excluding ex r = Some z"
  shows "zr_contains z r \<and> Some z \<noteq> ex"
proof -
  obtain e where m: "min_by_key ze_player_count (filter (\<lambda>z. Some (ze_zone_id z) \<noteq> ex) (map snd (zr_zones r))) = Some e"
    and z: "ze_zone_id e = z"
    using assms(2) by (auto simp: find_least_loaded_zone_excluding_def)
  then have e: "e \<in> set (filter (\<lambda>z. Some (ze_zone_id z) \<noteq> ex) (map snd (zr_zones r)))" "ze_zone_id e = z"
    using min_by_key_least [OF m] by blast+
  then obtain i where "(i, e) \<in> set (zr_zones r)" by auto
  then have "map_of (zr_zones r) i = Some e" using assms(1) by (simp add: table_wf_def)
  then show ?thesis using e assms(1) by (auto simp: table_wf_def entries_ok_def zr_contains_def)
qed

lemma survivors_registered:
  assumes "table_wf r"
  shows "distinct (map fst (survivors ex r))"
    and "z \<in> fst ` set (survivors ex r) \<longleftrightarrow> zr_contains z r \<and> Some z \<noteq> ex"
proof -
  let ?zs = "filter (\<lambda>z. Some (ze_zone_id z) \<noteq> ex) (map snd (zr_zones r))"
  have wf: "distinct (map fst (zr_zones r))" "entries_ok (zr_zones r)" using assms by (simp_all add: table_wf_def)
  have own: "ze_zone_id e = i" if "(i, e) \<in> set (zr_zones r)" for i e
    using that wf by (auto simp: entries_ok_def)
  then have "map ze_zone_id (map snd (zr_zones r)) = map fst (zr_zones r)" by auto
  then have "distinct (map ze_zone_id ?zs)" using wf(1) by (metis distinct_map_filter)
  moreover have "mset (map fst (survivors ex r)) = mset (map ze_zone_id ?zs)"
    by (simp add: survivors_def multiset.map_comp comp_def)
  ultimately show "distinct (map fst (survivors ex r))" by (metis mset_eq_imp_distinct_iff)
  have "fst ` set (survivors ex r) = ze_zone_id ` set ?zs" by (simp add: survivors_def image_comp comp_def)
  also have "\<dots> = {z. z \<in> fst ` set (zr_zones r) \<and> Some z \<noteq> ex}" using own by force
  also have "\<dots> = {z. zr_contains z r \<and> Some z \<noteq> ex}"
    by (simp add: zr_contains_def map_of_eq_None_iff del: not_None_eq)
  finally show "z \<in> fst ` set (survivors ex r) \<longleftrightarrow> zr_contains z r \<and> Some z \<noteq> ex" by auto
qed

end
