(* ===== verification/Gateway_Mesh.thy ===== *)
theory Gateway_Mesh
  imports Zone_Registry
begin

text \<open>
  The gateway side of the zone federation, \<open>crates/baston-gateway/src/mesh.rs\<close>: routing of new players,
  recovery of a failed zone, draining, and the two handoff calls of the zones. The result of a call to a zone
  is an argument. The registration of recovered players in their new zone, a burst of such calls that changes
  nothing here, is not modelled.
\<close>

section \<open>Routing\<close>

record gateway_mesh =
  gm_registry :: zone_registry
  gm_router :: connection_router

definition route_new_player :: "u32 \<Rightarrow> (fl \<times> fl) option \<Rightarrow> gateway_mesh \<Rightarrow> string option \<times> gateway_mesh" where
  "route_new_player source spawn g =
     (let zone = (case spawn of
            Some (x, y) \<Rightarrow> (case find_zone_for_coords x y (gm_registry g) of
                              Some z \<Rightarrow> Some z
                            | None \<Rightarrow> find_least_loaded_zone (gm_registry g))
          | None \<Rightarrow> find_least_loaded_zone (gm_registry g))
      in case zone of
           None \<Rightarrow> (None, g)
         | Some z \<Rightarrow> (Some z, g\<lparr>gm_router := cr_assign source z (gm_router g)\<rparr>))"

section \<open>Recovery of a zone\<close>

text \<open>The index of the first least loaded zone with room; a load is the count, the capacity and the zone.\<close>

type_synonym zone_load = "nat \<times> nat \<times> string"

fun least_open :: "zone_load list \<Rightarrow> nat option" where
  "least_open [] = None"
| "least_open ((held, capacity, zone) # ls) =
     (case least_open ls of
        None \<Rightarrow> if held < capacity then Some 0 else None
      | Some k \<Rightarrow> if held < capacity \<and> held \<le> fst (ls ! k) then Some 0 else Some (Suc k))"

fun rebalance_loop :: "u32 list \<Rightarrow> zone_load list \<Rightarrow> (u32 \<times> string) list \<times> u32 list" where
  "rebalance_loop [] load = ([], [])"
| "rebalance_loop (source # rest) load =
     (case least_open load of
        Some k \<Rightarrow>
          (case load ! k of
             (held, capacity, zone) \<Rightarrow>
               (case rebalance_loop rest (load[k := (held + 1, capacity, zone)]) of
                  (assignments, unplaceable) \<Rightarrow> ((source, zone) # assignments, unplaceable)))
      | None \<Rightarrow>
          (case rebalance_loop rest load of (assignments, unplaceable) \<Rightarrow> (assignments, source # unplaceable)))"

definition plan_rebalance :: "u32 list \<Rightarrow> (string \<times> u32) list \<Rightarrow> connection_router \<Rightarrow> (u32 \<times> string) list \<times> u32 list" where
  "plan_rebalance orphaned surv router =
     (if surv = [] then ([], orphaned)
      else rebalance_loop orphaned (map (\<lambda>(zone, max_players). (count_in_zone zone router, unat max_players, zone)) surv))"

text \<open>The rerouted players, the kicked ones and the new state.\<close>

definition handle_zone_failure :: "string \<Rightarrow> gateway_mesh \<Rightarrow> (u32 \<times> string) list \<times> u32 list \<times> gateway_mesh" where
  "handle_zone_failure failed_zone g =
     (let orphaned = players_in_zone failed_zone (gm_router g);
          surv = survivors (Some failed_zone) (gm_registry g);
          (assignments, unplaceable) = plan_rebalance orphaned surv (gm_router g);
          router1 = fold (\<lambda>source t. snd (cr_remove source t)) unplaceable (gm_router g)
      in (assignments, unplaceable, g\<lparr>gm_router := commit_batch assignments router1\<rparr>))"

text \<open>Draining stops at the first player for whom no other zone is left.\<close>

fun drain_loop :: "string \<Rightarrow> u32 list \<Rightarrow> gateway_mesh \<Rightarrow> nat \<times> gateway_mesh" where
  "drain_loop zone_id [] g = (0, g)"
| "drain_loop zone_id (source # rest) g =
     (case find_least_loaded_zone_excluding (Some zone_id) (gm_registry g) of
        None \<Rightarrow> (0, g)
      | Some fallback \<Rightarrow>
          (case drain_loop zone_id rest (g\<lparr>gm_router := snd (commit_handoff source fallback (gm_router g))\<rparr>) of
             (moved, g') \<Rightarrow> (moved + 1, g')))"

definition drain_zone :: "string \<Rightarrow> gateway_mesh \<Rightarrow> nat \<times> gateway_mesh" where
  "drain_zone zone_id g = drain_loop zone_id (players_in_zone zone_id (gm_router g)) g"

section \<open>Handoffs\<close>

text \<open>The outcome of asking the target zone to prepare.\<close>

datatype prepare_result = Prepared bool string | PrepareFailed string | PrepareTimeout

record prepare_response =
  pr_ready :: bool
  pr_target_zone :: string
  pr_message :: string
  pr_target_zone_grpc :: string

definition resolve_target :: "string \<Rightarrow> string \<Rightarrow> fl \<Rightarrow> fl \<Rightarrow> zone_registry \<Rightarrow> string option" where
  "resolve_target from_zone target_zone x y r =
     (if target_zone = []
      then (case find_zone_for_coords x y r of None \<Rightarrow> None | Some z \<Rightarrow> if z \<noteq> from_zone then Some z else None)
      else if zr_contains target_zone r then Some target_zone else None)"

definition prepare_handoff :: "(string \<Rightarrow> prepare_result) \<Rightarrow> string \<Rightarrow> string \<Rightarrow> fl \<Rightarrow> fl \<Rightarrow> gateway_mesh \<Rightarrow> prepare_response" where
  "prepare_handoff call from_zone target_zone x y g =
     (case resolve_target from_zone target_zone x y (gm_registry g) of
        None \<Rightarrow> \<lparr>pr_ready = False, pr_target_zone = [], pr_message = ''no live zone covers the target coordinates'',
                pr_target_zone_grpc = []\<rparr>
      | Some target \<Rightarrow>
          let grpc = (case zone_grpc_addr target (gm_registry g) of None \<Rightarrow> [] | Some a \<Rightarrow> a) in
          if \<not> zr_contains target (gm_registry g)
          then \<lparr>pr_ready = False, pr_target_zone = target, pr_message = ''target zone has no gRPC client'',
                pr_target_zone_grpc = []\<rparr>
          else case call target of
                 Prepared ready message \<Rightarrow> \<lparr>pr_ready = ready, pr_target_zone = target, pr_message = message,
                    pr_target_zone_grpc = grpc\<rparr>
               | PrepareFailed status \<Rightarrow> \<lparr>pr_ready = False, pr_target_zone = target, pr_message = status, pr_target_zone_grpc = []\<rparr>
               | PrepareTimeout \<Rightarrow> \<lparr>pr_ready = False, pr_target_zone = target, pr_message = ''prepare timeout'',
                    pr_target_zone_grpc = []\<rparr>)"

text \<open>Whether the commit was accepted, the new state, and whether the commit hook ran.\<close>

definition confirm_handoff :: "u32 \<Rightarrow> string \<Rightarrow> gateway_mesh \<Rightarrow> bool \<times> gateway_mesh" where
  "confirm_handoff player_id to_zone g =
     (if \<not> zr_contains to_zone (gm_registry g) then (False, g)
      else (True, g\<lparr>gm_router := snd (commit_handoff player_id to_zone (gm_router g))\<rparr>))"

section \<open>Registration and heartbeat calls\<close>

text \<open>A request without bounds is refused as an invalid argument (\<open>None\<close>); a negative capacity counts as zero.\<close>

definition grpc_register_zone :: "(string \<Rightarrow> bool) \<Rightarrow> nat \<Rightarrow> string \<Rightarrow> aabb option \<Rightarrow> string \<Rightarrow> u32 \<Rightarrow> gateway_mesh \<Rightarrow>
    bool option \<times> gateway_mesh" where
  "grpc_register_zone valid_uri now zone_id bounds grpc_addr max_players g =
     (case bounds of
        None \<Rightarrow> (None, g)
      | Some b \<Rightarrow>
          (case register_zone valid_uri now zone_id b grpc_addr (if sint max_players < 0 then 0 else max_players) (gm_registry g) of
             (ok, r) \<Rightarrow> (Some ok, g\<lparr>gm_registry := r\<rparr>)))"

definition grpc_heartbeat :: "nat \<Rightarrow> string \<Rightarrow> u32 \<Rightarrow> u32 \<Rightarrow> gateway_mesh \<Rightarrow> bool \<times> gateway_mesh" where
  "grpc_heartbeat now zone_id player_count entity_count g =
     (case zr_heartbeat now zone_id player_count entity_count (gm_registry g) of
        (known, r) \<Rightarrow> (known, g\<lparr>gm_registry := r\<rparr>))"

section \<open>The balance of a recovery\<close>

lemma least_open_None: "least_open ls = None \<longleftrightarrow> (\<forall>l\<in>set ls. fst (snd l) \<le> fst l)"
  by (induction ls rule: least_open.induct) (auto split: option.splits if_splits)

lemma least_open_Some:
  "least_open ls = Some k \<Longrightarrow> k < length ls \<and> fst (ls ! k) < fst (snd (ls ! k)) \<and>
     (\<forall>j<length ls. fst (ls ! j) < fst (snd (ls ! j)) \<longrightarrow> fst (ls ! k) \<le> fst (ls ! j))"
proof (induction ls arbitrary: k rule: least_open.induct)
  case (2 held capacity zone ls)
  show ?case
  proof (cases "least_open ls")
    case None
    then have "\<forall>j<length ls. fst (snd (ls ! j)) \<le> fst (ls ! j)"
      unfolding least_open_None by simp
    then show ?thesis using 2(2) None by (auto simp: nth_Cons split: if_splits nat.splits)
  next
    case (Some m)
    then show ?thesis using 2(1) [OF Some] 2(2) by (auto simp: nth_Cons split: if_splits nat.splits)
  qed
qed simp

text \<open>How many of the assignments go to a zone.\<close>

definition placed_in :: "string \<Rightarrow> (u32 \<times> string) list \<Rightarrow> nat" where
  "placed_in zone assignments = length (filter (\<lambda>(s, z). z = zone) assignments)"

lemma placed_in_simps [simp]:
  "placed_in z [] = 0" "placed_in z ((s, z') # as) = (if z' = z then Suc (placed_in z as) else placed_in z as)"
  by (simp_all add: placed_in_def)

definition zname :: "zone_load \<Rightarrow> string" where "zname l = snd (snd l)"
definition zcap :: "zone_load \<Rightarrow> nat" where "zcap l = fst (snd l)"

text \<open>The load of a zone after the assignments.\<close>

definition final_load :: "zone_load list \<Rightarrow> (u32 \<times> string) list \<Rightarrow> nat \<Rightarrow> nat" where
  "final_load load as j = fst (load ! j) + placed_in (zname (load ! j)) as"

definition balanced :: "zone_load list \<Rightarrow> (u32 \<times> string) list \<Rightarrow> u32 list \<Rightarrow> bool" where
  "balanced load as us \<longleftrightarrow>
     snd ` set as \<subseteq> set (map zname load) \<and>
     (\<forall>j<length load. placed_in (zname (load ! j)) as \<noteq> 0 \<longrightarrow> final_load load as j \<le> zcap (load ! j)) \<and>
     (us \<noteq> [] \<longrightarrow> (\<forall>j<length load. zcap (load ! j) \<le> final_load load as j)) \<and>
     (\<forall>i<length load. \<forall>j<length load. placed_in (zname (load ! i)) as \<noteq> 0 \<longrightarrow>
        final_load load as i \<le> final_load load as j + 1 \<or> zcap (load ! j) \<le> final_load load as j)"

lemma balanced_step:
  assumes k: "least_open load = Some k" "load ! k = (c, cap, z)" and d: "distinct (map zname load)"
    and b: "balanced (load[k := (c + 1, cap, z)]) as us"
  shows "balanced load ((source, z) # as) us"
proof -
  let ?load = "load[k := (c + 1, cap, z)]"
  note kk = least_open_Some [OF k(1)]
  have same: "zname (?load ! j) = zname (load ! j)" "zcap (?load ! j) = zcap (load ! j)" if "j < length load" for j
    using that k(2) by (cases "j = k"; simp add: zname_def zcap_def)+
  have mine: "zname (load ! j) = z \<longleftrightarrow> j = k" if "j < length load" for j
  proof -
    have "zname (load ! k) = z" using k(2) by (simp add: zname_def)
    then show ?thesis using d that kk by (metis length_map nth_eq_iff_index_eq nth_map)
  qed
  have fin: "final_load load ((source, z) # as) j = final_load ?load as j" if "j < length load" for j
    using that mine [OF that] same [OF that] k(2) kk by (cases "j = k") (auto simp: final_load_def)
  have low: "c \<le> fst (load ! j) \<or> zcap (load ! j) \<le> fst (load ! j)" if "j < length load" for j
    using kk that k(2) by (cases "fst (load ! j) < zcap (load ! j)") (auto simp: zcap_def)
  have ge: "fst (load ! j) \<le> final_load ?load as j" if "j < length load" for j
    using that k(2) by (cases "j = k") (auto simp: final_load_def)
  have "map zname ?load = map zname load" using same by (intro nth_equalityI) (auto simp del: nth_list_update)
  moreover have "z \<in> set (map zname load)" using mine kk by (metis length_map nth_map nth_mem)
  ultimately have 1: "snd ` set ((source, z) # as) \<subseteq> set (map zname load)" using b by (auto simp: balanced_def)
  have 2: "final_load load ((source, z) # as) j \<le> zcap (load ! j)"
    if j: "j < length load" "placed_in (zname (load ! j)) ((source, z) # as) \<noteq> 0" for j
  proof (cases "placed_in (zname (load ! j)) as = 0")
    case True
    then have "j = k" using j mine [OF j(1)] by (auto split: if_splits)
    then show ?thesis using True kk k(2) fin [OF j(1)] same [OF j(1)] by (simp add: final_load_def zcap_def)
  next
    case False
    then show ?thesis using b j fin [OF j(1)] same [OF j(1)] by (auto simp: balanced_def)
  qed
  have 3: "zcap (load ! j) \<le> final_load load ((source, z) # as) j" if "us \<noteq> []" "j < length load" for j
    using b that fin [OF that(2)] same [OF that(2)] by (auto simp: balanced_def)
  have 4: "final_load load ((source, z) # as) i \<le> final_load load ((source, z) # as) j + 1 \<or>
      zcap (load ! j) \<le> final_load load ((source, z) # as) j"
    if ij: "i < length load" "j < length load" "placed_in (zname (load ! i)) ((source, z) # as) \<noteq> 0" for i j
  proof (cases "placed_in (zname (load ! i)) as = 0")
    case True
    then have "i = k" using ij mine [OF ij(1)] by (auto split: if_splits)
    then have "final_load ?load as i = c + 1" using True kk same [OF ij(1)] by (simp add: final_load_def)
    then show ?thesis using low [OF ij(2)] ge [OF ij(2)] fin [OF ij(1)] fin [OF ij(2)] by linarith
  next
    case False
    then have "final_load ?load as i \<le> final_load ?load as j + 1 \<or> zcap (?load ! j) \<le> final_load ?load as j"
      using b ij same [OF ij(1)] by (auto simp: balanced_def)
    then show ?thesis using fin [OF ij(1)] fin [OF ij(2)] same [OF ij(2)] by simp
  qed
  show ?thesis using 1 2 3 4 unfolding balanced_def by blast
qed

lemma rebalance_loop_balanced:
  "rebalance_loop orphans load = (as, us) \<Longrightarrow> distinct (map zname load) \<Longrightarrow>
   balanced load as us \<and> mset (map fst as) + mset us = mset orphans"
proof (induction orphans arbitrary: load as us)
  case (Cons source rest)
  show ?case
  proof (cases "least_open load")
    case None
    obtain us' where us: "rebalance_loop rest load = (as, us')" "us = source # us'"
      using Cons.prems(1) None by (auto split: prod.splits)
    have "zcap (load ! j) \<le> fst (load ! j)" if "j < length load" for j
      using None nth_mem [OF that] by (auto simp: least_open_None zcap_def)
    then have "\<forall>j<length load. zcap (load ! j) \<le> final_load load as j" by (auto simp: final_load_def intro: trans_le_add1)
    then show ?thesis using Cons.IH [OF us(1) Cons.prems(2)] us(2) by (auto simp: balanced_def)
  next
    case (Some k)
    note k = least_open_Some [OF Some]
    obtain c cap z where l: "load ! k = (c, cap, z)" by (metis prod_cases3)
    let ?load = "load[k := (c + 1, cap, z)]"
    obtain as' where as: "rebalance_loop rest ?load = (as', us)" "as = (source, z) # as'"
      using Cons.prems(1) Some l by (auto split: prod.splits)
    have "zname (?load ! j) = zname (load ! j)" if "j < length load" for j
      using l that by (cases "j = k") (auto simp: zname_def)
    then have "map zname ?load = map zname load" by (intro nth_equalityI) (auto simp del: nth_list_update)
    then have IH: "balanced ?load as' us \<and> mset (map fst as') + mset us = mset rest"
      using Cons.IH [OF as(1)] Cons.prems(2) by simp
    then show ?thesis using balanced_step [OF Some l Cons.prems(2)] as(2) by auto
  qed
qed (auto simp: balanced_def)

section \<open>Routes after a recovery\<close>

lemma count_in_zone_card:
  assumes "distinct (map fst t)"
  shows "count_in_zone z t = card {p. map_of t p = Some z}"
proof -
  have "{p. map_of t p = Some z} = fst ` set (filter (\<lambda>(s, y). y = z) t)" using assms by force
  moreover have "distinct (map fst (filter (\<lambda>(s, y). y = z) t))" using assms by (rule distinct_map_filter)
  ultimately show ?thesis by (metis count_in_zone_def distinct_card length_map set_map)
qed

lemma placed_in_card: "distinct (map fst as) \<Longrightarrow> placed_in z as = card {p. map_of as p = Some z}"
  using count_in_zone_card [of as z] by (simp add: placed_in_def count_in_zone_def)

lemma set_players_in_zone: "distinct (map fst t) \<Longrightarrow> set (players_in_zone z t) = {p. map_of t p = Some z}"
  by (force simp: players_in_zone_def)

lemma commit_batch_routes:
  "distinct (map fst as) \<Longrightarrow> map_of (commit_batch as t) = map_of t ++ map_of as"
proof (induction as arbitrary: t)
  case (Cons a as)
  obtain s z where a: "a = (s, z)" by force
  have "map_of (commit_batch as (AList.update s z t)) = (map_of t)(s \<mapsto> z) ++ map_of as"
    using Cons by (simp add: a update_conv')
  moreover have "(map_of t)(s \<mapsto> z) ++ map_of as = map_of t ++ (map_of as)(s \<mapsto> z)"
  proof -
    have "map_of as s = None" using Cons.prems by (simp add: a map_of_eq_None_iff)
    then show ?thesis by (auto simp: map_add_def fun_eq_iff split: option.splits)
  qed
  moreover have "commit_batch (a # as) t = commit_batch as (AList.update s z t)" by (simp add: commit_batch_def a)
  ultimately show ?case unfolding a map_of.simps fst_conv snd_conv by (simp only: a)
qed (simp add: commit_batch_def)

lemma distinct_commit_batch: "distinct (map fst t) \<Longrightarrow> distinct (map fst (commit_batch as t))"
  by (induction as arbitrary: t) (auto simp: commit_batch_def distinct_update)

lemma remove_all_routes:
  "map_of (fold (\<lambda>p t. snd (cr_remove p t)) ks t) = (\<lambda>p. if p \<in> set ks then None else map_of t p)"
  by (induction ks arbitrary: t) (auto simp: cr_remove_def delete_conv' fun_eq_iff)

lemma distinct_remove_all: "distinct (map fst t) \<Longrightarrow> distinct (map fst (fold (\<lambda>p t. snd (cr_remove p t)) ks t))"
  by (induction ks arbitrary: t) (auto simp: cr_remove_def distinct_delete)

lemma plan_rebalance_balanced:
  assumes "plan_rebalance orphans surv t = (as, us)" "distinct (map fst surv)"
  shows "balanced (map (\<lambda>(zone, n). (count_in_zone zone t, unat n, zone)) surv) as us \<and>
    mset (map fst as) + mset us = mset orphans"
proof (cases "surv = []")
  case True
  then show ?thesis using assms by (auto simp: plan_rebalance_def balanced_def)
next
  case False
  have "distinct (map zname (map (\<lambda>(zone, n). (count_in_zone zone t, unat n, zone)) surv))"
    using assms(2) by (simp add: comp_def zname_def case_prod_beta)
  then show ?thesis using assms False rebalance_loop_balanced by (simp add: plan_rebalance_def)
qed

text \<open>The whole effect of a recovery on the routing table.\<close>

lemma zone_failure_effect:
  assumes wf: "table_wf (gm_registry g)" and d: "distinct (map fst (gm_router g))"
    and h: "handle_zone_failure z g = (as, ks, g')"
  shows "mset (map fst as) + mset ks = mset (players_in_zone z (gm_router g))"
    and "distinct (map fst as)"
    and "map_of (gm_router g') = (\<lambda>p. case map_of as p of Some y \<Rightarrow> Some y
           | None \<Rightarrow> if p \<in> set ks then None else map_of (gm_router g) p)"
    and "balanced (map (\<lambda>(y, n). (count_in_zone y (gm_router g), unat n, y)) (survivors (Some z) (gm_registry g))) as ks"
    and "distinct (map fst (gm_router g'))"
proof -
  let ?orphans = "players_in_zone z (gm_router g)"
  have p: "plan_rebalance ?orphans (survivors (Some z) (gm_registry g)) (gm_router g) = (as, ks)"
    and g': "gm_router g' = commit_batch as (fold (\<lambda>p t. snd (cr_remove p t)) ks (gm_router g))"
    using h by (auto simp: handle_zone_failure_def Let_def split: prod.splits)
  note b = plan_rebalance_balanced [OF p survivors_registered(1) [OF wf]]
  then show "mset (map fst as) + mset ks = mset ?orphans"
    "balanced (map (\<lambda>(y, n). (count_in_zone y (gm_router g), unat n, y)) (survivors (Some z) (gm_registry g))) as ks" by blast+
  have "distinct ?orphans" unfolding players_in_zone_def using d by (rule distinct_map_filter)
  moreover have "mset (map fst as @ ks) = mset ?orphans" using b by simp
  ultimately have "distinct (map fst as @ ks)" by (metis mset_eq_imp_distinct_iff)
  then show das: "distinct (map fst as)" by simp
  show "map_of (gm_router g') = (\<lambda>p. case map_of as p of Some y \<Rightarrow> Some y
           | None \<Rightarrow> if p \<in> set ks then None else map_of (gm_router g) p)"
    by (simp add: g' commit_batch_routes [OF das] remove_all_routes map_add_def)
  show "distinct (map fst (gm_router g'))" by (simp add: g' distinct_commit_batch distinct_remove_all d)
qed

lemma recovered_count:
  assumes wf: "table_wf (gm_registry g)" and d: "distinct (map fst (gm_router g))"
    and h: "handle_zone_failure z g = (as, ks, g')" and y: "y \<noteq> z"
  shows "count_in_zone y (gm_router g') = count_in_zone y (gm_router g) + placed_in y as"
proof -
  note E = zone_failure_effect [OF wf d h]
  have orph: "set (map fst as) \<union> set ks = {p. map_of (gm_router g) p = Some z}"
    using arg_cong [OF E(1), of set_mset] set_players_in_zone [OF d, of z] by simp
  have "{p. map_of (gm_router g') p = Some y} = {p. map_of (gm_router g) p = Some y} \<union> {p. map_of as p = Some y}"
  proof (intro set_eqI)
    fix p
    have 1: "p \<in> fst ` set as \<Longrightarrow> map_of (gm_router g) p = Some z" "p \<in> set ks \<Longrightarrow> map_of (gm_router g) p = Some z"
      using orph by auto
    have 2: "map_of as p \<noteq> None \<Longrightarrow> p \<in> fst ` set as" by (simp add: map_of_eq_None_iff)
    have 3: "map_of (gm_router g') p = (case map_of as p of Some y \<Rightarrow> Some y
           | None \<Rightarrow> if p \<in> set ks then None else map_of (gm_router g) p)" unfolding E(3) by (rule refl)
    show "p \<in> {p. map_of (gm_router g') p = Some y} \<longleftrightarrow>
        p \<in> {p. map_of (gm_router g) p = Some y} \<union> {p. map_of as p = Some y}"
      unfolding mem_Collect_eq Un_iff 3 using 1 2 y by (cases "map_of as p"; cases "p \<in> set ks") auto
  qed
  moreover have "map_of (gm_router g) p = Some z" if "map_of as p = Some y" for p
  proof -
    have "p \<in> set (map fst as)" using map_of_SomeD [OF that] by force
    then show ?thesis using orph by blast
  qed
  then have "{p. map_of (gm_router g) p = Some y} \<inter> {p. map_of as p = Some y} = {}" using y by fastforce
  moreover have "finite {p. map_of t p = Some y}" for t :: connection_router
    by (rule finite_subset [OF _ finite_dom_map_of [of t]]) auto
  ultimately show ?thesis
    by (simp add: count_in_zone_card [OF d] count_in_zone_card [OF E(5)] placed_in_card [OF E(2)] card_Un_disjoint)
qed

section \<open>Reachable meshes\<close>

text \<open>
  One step is one lock section of the registry, or one call that only moves routes, so that the sections of
  different calls may interleave.
\<close>

inductive mesh_step :: "gateway_mesh \<Rightarrow> gateway_mesh \<Rightarrow> bool" where
  enter: "mesh_step g (g\<lparr>gm_registry := register_entry now i b a n (gm_registry g)\<rparr>)"
| index: "mesh_step g (g\<lparr>gm_registry := register_index i b (gm_registry g)\<rparr>)"
| beat: "mesh_step g (g\<lparr>gm_registry := snd (zr_heartbeat now i p e (gm_registry g))\<rparr>)"
| evict: "mesh_step g (g\<lparr>gm_registry := snd (evict_entries now (gm_registry g))\<rparr>)"
| unindex: "mesh_step g (g\<lparr>gm_registry := evict_index ids (gm_registry g)\<rparr>)"
| drop: "mesh_step g (g\<lparr>gm_registry := snd (remove_zone i (gm_registry g))\<rparr>)"
| route: "mesh_step g (snd (route_new_player s spawn g))"
| leave: "mesh_step g (g\<lparr>gm_router := snd (cr_remove s (gm_router g))\<rparr>)"
| fail: "mesh_step g (snd (snd (handle_zone_failure z g)))"
| drain: "mesh_step g (snd (drain_zone z g))"
| confirm: "mesh_step g (snd (confirm_handoff s z g))"

definition mesh_reachable :: "nat \<Rightarrow> gateway_mesh \<Rightarrow> bool" where
  "mesh_reachable timeout g \<longleftrightarrow> mesh_step\<^sup>*\<^sup>* \<lparr>gm_registry = zr_new timeout, gm_router = []\<rparr> g"

definition mesh_wf :: "gateway_mesh \<Rightarrow> bool" where
  "mesh_wf g \<longleftrightarrow> table_wf (gm_registry g) \<and> distinct (map fst (gm_router g))"

lemma drain_loop_wf: "mesh_wf g \<Longrightarrow> mesh_wf (snd (drain_loop z ps g))"
proof (induction z ps g rule: drain_loop.induct)
  case (2 z s ps g)
  show ?case
  proof (cases "find_least_loaded_zone_excluding (Some z) (gm_registry g)")
    case (Some y)
    have "mesh_wf (g\<lparr>gm_router := snd (commit_handoff s y (gm_router g))\<rparr>)"
      using 2(2) by (simp add: mesh_wf_def commit_handoff_def distinct_update)
    from 2(1) [OF Some this] show ?thesis by (simp add: Some case_prod_beta)
  qed (use 2(2) in simp)
qed simp

lemma handle_zone_failure_wf: "mesh_wf g \<Longrightarrow> mesh_wf (snd (snd (handle_zone_failure z g)))"
  by (simp add: mesh_wf_def handle_zone_failure_def Let_def distinct_commit_batch distinct_remove_all split: prod.split)

lemma mesh_step_wf: "mesh_step g g' \<Longrightarrow> mesh_wf g \<Longrightarrow> mesh_wf g'"
proof (induction rule: mesh_step.induct)
  case (drop g i)
  have "table_wf (gm_registry g\<lparr>zr_zones := AList.delete i (zr_zones (gm_registry g))\<rparr>)"
    using drop by (simp add: mesh_wf_def table_wf_def distinct_delete)
  then show ?case using drop by (simp add: mesh_wf_def remove_zone_def table_wf_sections)
next
  case (route g s spawn)
  then show ?case
    by (auto simp: mesh_wf_def route_new_player_def Let_def cr_assign_def distinct_update split: option.split)
next
  case (drain g z)
  then show ?case by (simp add: drain_zone_def drain_loop_wf)
qed (simp_all add: mesh_wf_def table_wf_sections cr_remove_def distinct_delete confirm_handoff_def commit_handoff_def
    distinct_update handle_zone_failure_wf [unfolded mesh_wf_def])

lemma mesh_reachable_wf: "mesh_reachable t g \<Longrightarrow> mesh_wf g"
  unfolding mesh_reachable_def
proof (induction rule: rtranclp_induct)
  case base
  show ?case by (simp add: mesh_wf_def table_wf_def zr_new_def entries_ok_def)
next
  case (step g g')
  then show ?case by (blast intro: mesh_step_wf)
qed

text \<open>What the balance of the plan says of the zones by name.\<close>

lemma survivors_capacity:
  assumes "table_wf r" "(y, n) \<in> set (survivors ex r)"
  shows "\<exists>e. map_of (zr_zones r) y = Some e \<and> ze_max_players e = n"
proof -
  obtain i e where e: "(i, e) \<in> set (zr_zones r)" "ze_zone_id e = y" "ze_max_players e = n"
    using assms(2) by (auto simp: survivors_def)
  then have "map_of (zr_zones r) i = Some e" using assms(1) by (simp add: table_wf_def)
  then show ?thesis using e assms(1) unfolding table_wf_def entries_ok_def by blast
qed

definition zone_capacity :: "string \<Rightarrow> zone_registry \<Rightarrow> nat" where
  "zone_capacity z r = (case map_of (zr_zones r) z of None \<Rightarrow> 0 | Some e \<Rightarrow> unat (ze_max_players e))"

definition has_room :: "string \<Rightarrow> gateway_mesh \<Rightarrow> bool" where
  "has_room z g \<longleftrightarrow> count_in_zone z (gm_router g) < zone_capacity z (gm_registry g)"

lemma recovery_balance:
  assumes wf: "table_wf (gm_registry g)" and d: "distinct (map fst (gm_router g))"
    and h: "handle_zone_failure z g = (as, ks, g')"
  shows "(p, y) \<in> set as \<Longrightarrow> y \<noteq> z \<and> zr_contains y (gm_registry g) \<and>
           count_in_zone y (gm_router g') \<le> zone_capacity y (gm_registry g)"
    and "ks \<noteq> [] \<Longrightarrow> zr_contains y (gm_registry g) \<Longrightarrow> y \<noteq> z \<Longrightarrow>
           zone_capacity y (gm_registry g) \<le> count_in_zone y (gm_router g')"
    and "(p, y) \<in> set as \<Longrightarrow> zr_contains x (gm_registry g) \<Longrightarrow> x \<noteq> z \<Longrightarrow>
           count_in_zone x (gm_router g') < zone_capacity x (gm_registry g) \<Longrightarrow>
           count_in_zone y (gm_router g') \<le> count_in_zone x (gm_router g') + 1"
proof -
  let ?surv = "survivors (Some z) (gm_registry g)"
  let ?load = "map (\<lambda>(y, n). (count_in_zone y (gm_router g), unat n, y)) ?surv"
  note B = zone_failure_effect(4) [OF wf d h, unfolded balanced_def]
  have B2: "j < length ?load \<Longrightarrow> placed_in (zname (?load ! j)) as \<noteq> 0 \<Longrightarrow> final_load ?load as j \<le> zcap (?load ! j)"
    and B3: "ks \<noteq> [] \<Longrightarrow> j < length ?load \<Longrightarrow> zcap (?load ! j) \<le> final_load ?load as j"
    and B4: "i < length ?load \<Longrightarrow> j < length ?load \<Longrightarrow> placed_in (zname (?load ! i)) as \<noteq> 0 \<Longrightarrow>
        final_load ?load as i \<le> final_load ?load as j + 1 \<or> zcap (?load ! j) \<le> final_load ?load as j" for i j
    using B by blast+
  note S = survivors_registered(2) [OF wf, where ex = "Some z"]
  have at: "\<exists>j<length ?load. zname (?load ! j) = x \<and> zcap (?load ! j) = zone_capacity x (gm_registry g) \<and>
      final_load ?load as j = count_in_zone x (gm_router g')" if zx: "zr_contains x (gm_registry g)" "x \<noteq> z" for x
  proof -
    obtain n where n: "(x, n) \<in> set ?surv" using zx S [of x] by auto
    then obtain j where j: "j < length ?surv" "?surv ! j = (x, n)" by (metis in_set_conv_nth)
    have "zone_capacity x (gm_registry g) = unat n"
      using survivors_capacity [OF wf n] by (auto simp: zone_capacity_def)
    then show ?thesis
      using j recovered_count [OF wf d h zx(2)] by (intro exI [of _ j]) (simp add: zname_def zcap_def final_load_def)
  qed
  have into: "zr_contains y (gm_registry g) \<and> y \<noteq> z \<and> placed_in y as \<noteq> 0" if "(p, y) \<in> set as" for p y
  proof -
    have "y \<in> set (map zname ?load)" using conjunct1 [OF B] imageI [OF that, of snd] by auto
    moreover have "map zname ?load = map fst ?surv" by (simp add: comp_def zname_def case_prod_beta)
    ultimately have "y \<in> fst ` set ?surv" by simp
    moreover have "placed_in y as \<noteq> 0" using that by (auto simp: placed_in_def filter_empty_conv)
    ultimately show ?thesis using S [of y] by simp
  qed
  show "y \<noteq> z \<and> zr_contains y (gm_registry g) \<and>
           count_in_zone y (gm_router g') \<le> zone_capacity y (gm_registry g)" if in_as: "(p, y) \<in> set as"
  proof -
    note y = into [OF in_as]
    obtain j where j: "j < length ?load" "zname (?load ! j) = y" "zcap (?load ! j) = zone_capacity y (gm_registry g)"
      "final_load ?load as j = count_in_zone y (gm_router g')" using at y by blast
    then show ?thesis using y B2 [of j] by simp
  qed
  show "zone_capacity y (gm_registry g) \<le> count_in_zone y (gm_router g')"
    if "ks \<noteq> []" and y: "zr_contains y (gm_registry g)" "y \<noteq> z"
  proof -
    obtain j where "j < length ?load" "zcap (?load ! j) = zone_capacity y (gm_registry g)"
      "final_load ?load as j = count_in_zone y (gm_router g')" using at [OF y] by blast
    then show ?thesis using B3 [of j] \<open>ks \<noteq> []\<close> by simp
  qed
  show "count_in_zone y (gm_router g') \<le> count_in_zone x (gm_router g') + 1"
    if in_as: "(p, y) \<in> set as" and x: "zr_contains x (gm_registry g)" "x \<noteq> z"
      and room: "count_in_zone x (gm_router g') < zone_capacity x (gm_registry g)"
  proof -
    note y = into [OF in_as]
    obtain i where i: "i < length ?load" "zname (?load ! i) = y"
      "final_load ?load as i = count_in_zone y (gm_router g')" using at y by blast
    obtain j where j: "j < length ?load" "zcap (?load ! j) = zone_capacity x (gm_registry g)"
      "final_load ?load as j = count_in_zone x (gm_router g')" using at [OF x] by blast
    show ?thesis using B4 [of i j] i j y room by simp
  qed
qed

text \<open>C13. Recovery of a failed zone, from every reachable gateway, whatever the interleaving of the registry's lock
  sections before it. Each player of the failed zone is either rerouted or kicked, once. Nobody is routed to
  the failed zone afterwards; a rerouted player is routed to the zone announced for it, a kicked one has no
  route, and nobody else moves. The new zones are registered and are never filled past their capacity, a
  player is kicked only when no other zone has room, and a zone that received a player holds at most one more
  than any zone that still has room.
\<close>

theorem zone_failure_recovered:
  assumes "mesh_reachable t g" and "handle_zone_failure z g = (as, ks, g')"
  shows "mset (map fst as) + mset ks = mset (players_in_zone z (gm_router g)) \<and>
    (\<forall>p. zone_of p (gm_router g') =
       (if zone_of p (gm_router g) \<noteq> Some z then zone_of p (gm_router g)
        else if p \<in> set ks then None else map_of as p)) \<and>
    (\<forall>p. zone_of p (gm_router g') \<noteq> Some z) \<and>
    (\<forall>(p, y) \<in> set as. zr_contains y (gm_registry g) \<and> count_in_zone y (gm_router g') \<le> zone_capacity y (gm_registry g)) \<and>
    (ks \<noteq> [] \<longrightarrow> (\<forall>y. zr_contains y (gm_registry g) \<and> y \<noteq> z \<longrightarrow> \<not> has_room y g')) \<and>
    (\<forall>(p, y) \<in> set as. \<forall>x. zr_contains x (gm_registry g) \<and> x \<noteq> z \<and> has_room x g' \<longrightarrow>
       count_in_zone y (gm_router g') \<le> count_in_zone x (gm_router g') + 1)"
proof -
  have wf: "table_wf (gm_registry g)" "distinct (map fst (gm_router g))"
    using mesh_reachable_wf [OF assms(1)] by (simp_all add: mesh_wf_def)
  note E = zone_failure_effect [OF wf assms(2)] and R = recovery_balance [OF wf assms(2)]
  have reg: "gm_registry g' = gm_registry g"
    using assms(2) by (auto simp: handle_zone_failure_def Let_def split: prod.splits)
  have orph: "p \<in> fst ` set as \<or> p \<in> set ks \<longleftrightarrow> map_of (gm_router g) p = Some z" for p
    using arg_cong [OF E(1), of set_mset] set_players_in_zone [OF wf(2), of z] by auto
  have disj: "p \<in> set ks \<Longrightarrow> p \<notin> fst ` set as" for p
  proof -
    have "distinct (players_in_zone z (gm_router g))" unfolding players_in_zone_def using wf(2) by (rule distinct_map_filter)
    then have "distinct (map fst as @ ks)" using E(1) by (metis mset_append mset_eq_imp_distinct_iff)
    then show "p \<in> set ks \<Longrightarrow> p \<notin> fst ` set as" by auto
  qed
  have at: "map_of (gm_router g') p = (if map_of (gm_router g) p \<noteq> Some z then map_of (gm_router g) p
      else if p \<in> set ks then None else map_of as p)" for p
  proof -
    have 3: "map_of (gm_router g') p = (case map_of as p of Some y \<Rightarrow> Some y
           | None \<Rightarrow> if p \<in> set ks then None else map_of (gm_router g) p)" unfolding E(3) by (rule refl)
    have 4: "map_of as p = None \<longleftrightarrow> p \<notin> fst ` set as" by (rule map_of_eq_None_iff)
    show ?thesis
    proof (cases "p \<in> fst ` set as")
      case True
      then obtain y where "map_of as p = Some y" using 4 by auto
      then show ?thesis unfolding 3 using True orph [of p] disj [of p] by auto
    next
      case False
      then have "map_of as p = None" using 4 by blast
      then show ?thesis unfolding 3 using False orph [of p] by auto
    qed
  qed
  have gone: "map_of (gm_router g') p \<noteq> Some z" for p
    using R(1) [of p z] map_of_SomeD [of as p z] unfolding at by (auto split: if_splits)
  have reg': "has_room x g' \<longleftrightarrow> count_in_zone x (gm_router g') < zone_capacity x (gm_registry g)" for x
    by (simp add: has_room_def reg)
  show ?thesis
    using E(1) gone R at by (auto simp: zone_of_def reg' not_less)
qed

text \<open>Two zones with room for one player each; the two players of the first are left by its failure.\<close>

definition demo_mesh :: gateway_mesh where
  "demo_mesh =
     (let r = register_entry 0 ''b'' (aabb_new (Fin False 0) (Fin False 0) (Fin False 0) (Fin False 0)) [] 1
                (register_entry 0 ''a'' (aabb_new (Fin False 0) (Fin False 0) (Fin False 0) (Fin False 0)) [] 9 (zr_new 9))
      in snd (route_new_player 2 None (snd (route_new_player 1 None \<lparr>gm_registry = r, gm_router = []\<rparr>))))"

lemma demo_mesh_reachable: "mesh_reachable 9 demo_mesh"
proof -
  let ?r1 = "register_entry 0 ''a'' (aabb_new (Fin False 0) (Fin False 0) (Fin False 0) (Fin False 0)) [] 9 (zr_new 9)"
  let ?r2 = "register_entry 0 ''b'' (aabb_new (Fin False 0) (Fin False 0) (Fin False 0) (Fin False 0)) [] 1 ?r1"
  let ?g = "\<lambda>r. \<lparr>gm_registry = r, gm_router = []\<rparr>"
  have "mesh_step (?g (zr_new 9)) (?g ?r1)" using mesh_step.enter [of "?g (zr_new 9)"] by simp
  moreover have "mesh_step (?g ?r1) (?g ?r2)" using mesh_step.enter [of "?g ?r1"] by simp
  ultimately have "mesh_step\<^sup>*\<^sup>* (?g (zr_new 9)) (?g ?r2)" by simp
  then have "mesh_step\<^sup>*\<^sup>* (?g (zr_new 9)) (snd (route_new_player 1 None (?g ?r2)))"
    by (rule rtranclp.rtrancl_into_rtrancl) (rule mesh_step.route)
  then show ?thesis
    unfolding mesh_reachable_def demo_mesh_def Let_def by (rule rtranclp.rtrancl_into_rtrancl) (rule mesh_step.route)
qed

theorem zone_failure_recovered_witness:
  "mesh_reachable 9 demo_mesh \<and> players_in_zone ''a'' (gm_router demo_mesh) = [1, 2] \<and>
   (\<exists>g'. handle_zone_failure ''a'' demo_mesh = ([(1, ''b'')], [2], g') \<and>
      zone_of 1 (gm_router g') = Some ''b'' \<and> zone_of 2 (gm_router g') = None \<and> \<not> has_room ''b'' g')"
proof -
  have o: "players_in_zone ''a'' (gm_router demo_mesh) = [1, 2]"
    by (simp add: demo_mesh_def Let_def route_new_player_def find_least_loaded_zone_def
        find_least_loaded_zone_excluding_def register_entry_def zr_new_def cr_assign_def players_in_zone_def)
  have c: "zr_contains ''b'' (gm_registry demo_mesh)"
    by (simp add: demo_mesh_def Let_def route_new_player_def find_least_loaded_zone_def
        find_least_loaded_zone_excluding_def register_entry_def zr_new_def cr_assign_def zr_contains_def)
  obtain g' where h: "handle_zone_failure ''a'' demo_mesh = ([(1, ''b'')], [2], g')"
    by (simp add: demo_mesh_def Let_def route_new_player_def find_least_loaded_zone_def survivors_def
        find_least_loaded_zone_excluding_def register_entry_def zr_new_def cr_assign_def players_in_zone_def
        handle_zone_failure_def plan_rebalance_def count_in_zone_def)
  have z: "zone_of 1 (gm_router demo_mesh) = Some ''a''" "zone_of 2 (gm_router demo_mesh) = Some ''a''"
    by (simp_all add: demo_mesh_def Let_def route_new_player_def find_least_loaded_zone_def zone_of_def
        find_least_loaded_zone_excluding_def register_entry_def zr_new_def cr_assign_def)
  note R = zone_failure_recovered [OF demo_mesh_reachable h]
  have "zone_of 1 (gm_router g') = Some ''b''" "zone_of 2 (gm_router g') = None" "\<not> has_room ''b'' g'"
    using R z c by simp_all
  then show ?thesis using demo_mesh_reachable h o by blast
qed

end
