(* ===== verification/Zone_Entities.thy ===== *)
theory Zone_Entities
  imports Ieee "HOL-Library.AList"
begin

text \<open>
  The entities of a zone and their dirty queue (\<open>crates/baston-protocol/src/entity.rs\<close>,
  \<open>crates/baston-zone/src/entity_manager.rs\<close>) and the world the gateway rebuilds from the published batches
  (\<open>merge_batch\<close> of \<open>crates/baston-gateway/src/state_aggregator.rs\<close>). A \<open>DashMap\<close> or \<open>HashMap\<close> is an
  association list with distinct keys. A batch is published whole: its bincode encoding and the NATS transport
  are not modelled.
\<close>

unbundle bit_operations_syntax

section \<open>Entities\<close>

type_synonym entity_id = "128 word"
type_synonym pos3 = "fl \<times> fl \<times> fl"

datatype entity_type = EtPlayer | EtVehicle | EtPed | EtObject

datatype entity_extra =
    ExPlayer bool "entity_id option"  \<comment> \<open>is_in_vehicle, vehicle_id\<close>
  | ExVehicle fl fl u8  \<comment> \<open>speed, engine_health, doors_open\<close>
  | ExPed bool u32  \<comment> \<open>is_fleeing, current_weapon\<close>
  | ExObject bool  \<comment> \<open>is_static\<close>

record entity_state =
  es_id :: entity_id
  es_type :: entity_type
  es_owner :: "u32 option"
  es_model :: u32
  es_coords :: pos3
  es_heading :: fl
  es_velocity :: pos3
  es_health :: fl
  es_armour :: fl
  es_extra :: entity_extra

definition DF_COORDS :: u32 where "DF_COORDS = 1"
definition DF_HEADING :: u32 where "DF_HEADING = 2"
definition DF_VELOCITY :: u32 where "DF_VELOCITY = 4"
definition DF_HEALTH :: u32 where "DF_HEALTH = 8"
definition DF_ARMOUR :: u32 where "DF_ARMOUR = 16"
definition DF_EXTRA :: u32 where "DF_EXTRA = 32"
definition DF_CREATED :: u32 where "DF_CREATED = 64"
definition DF_DELETED :: u32 where "DF_DELETED = 128"
definition DF_all :: u32 where "DF_all = 255"

text \<open>\<open>DirtyFlags::contains\<close> for one flag.\<close>

definition has_flag :: "u32 \<Rightarrow> u32 \<Rightarrow> bool" where "has_flag fs f \<longleftrightarrow> fs AND f = f"

record dirty_entity =
  de_id :: entity_id
  de_fields :: u32
  de_state :: entity_state

record entity_update =
  eu_coords :: "pos3 option"
  eu_heading :: "fl option"
  eu_velocity :: "pos3 option"
  eu_health :: "fl option"
  eu_armour :: "fl option"
  eu_extra :: "entity_extra option"

text \<open>The equality of floats, of their arrays and of the derived \<open>PartialEq\<close>: NaN is not equal to itself and
  the two zeros are equal.\<close>

definition fl_eq :: "fl \<Rightarrow> fl \<Rightarrow> bool" where "fl_eq x y \<longleftrightarrow> fl_le x y \<and> fl_le y x"

fun pos_eq :: "pos3 \<Rightarrow> pos3 \<Rightarrow> bool" where
  "pos_eq (x, y, z) (x', y', z') = (fl_eq x x' \<and> fl_eq y y' \<and> fl_eq z z')"

fun extra_eq :: "entity_extra \<Rightarrow> entity_extra \<Rightarrow> bool" where
  "extra_eq (ExVehicle s e d) (ExVehicle s' e' d') = (fl_eq s s' \<and> fl_eq e e' \<and> d = d')"
| "extra_eq x y = (x = y)"

definition distance3d :: "pos3 \<Rightarrow> pos3 \<Rightarrow> fl" where
  "distance3d a b =
     (case (a, b) of ((ax, ay, az), (bx, by1, bz)) \<Rightarrow>
        let dx = fl_sub F32 ax bx; dy = fl_sub F32 ay by1; dz = fl_sub F32 az bz
        in fl_sqrt F32 (fl_add F32 (fl_add F32 (fl_mul F32 dx dx) (fl_mul F32 dy dy)) (fl_mul F32 dz dz)))"

section \<open>The entity manager\<close>

record entity_manager =
  em_entities :: "(entity_id \<times> entity_state) list"
  em_dirty :: "(entity_id \<times> dirty_entity) list"

definition em_new :: entity_manager where "em_new = \<lparr>em_entities = [], em_dirty = []\<rparr>"

definition mark_dirty :: "entity_id \<Rightarrow> u32 \<Rightarrow> entity_state \<Rightarrow> entity_manager \<Rightarrow> entity_manager" where
  "mark_dirty i flags st m =
     (case map_of (em_dirty m) i of
        Some pending \<Rightarrow>
          if has_flag (de_fields pending) DF_DELETED then m
          else m\<lparr>em_dirty := AList.update i (pending\<lparr>de_fields := de_fields pending OR flags, de_state := st\<rparr>) (em_dirty m)\<rparr>
      | None \<Rightarrow> m\<lparr>em_dirty := AList.update i \<lparr>de_id = i, de_fields = flags, de_state = st\<rparr> (em_dirty m)\<rparr>)"

definition spawn_entity :: "entity_state \<Rightarrow> entity_manager \<Rightarrow> entity_manager" where
  "spawn_entity st m =
     mark_dirty (es_id st) (DF_all AND NOT DF_DELETED) st (m\<lparr>em_entities := AList.update (es_id st) st (em_entities m)\<rparr>)"

definition em_remove_entity :: "entity_id \<Rightarrow> entity_manager \<Rightarrow> entity_state option \<times> entity_manager" where
  "em_remove_entity i m =
     (case map_of (em_entities m) i of
        None \<Rightarrow> (None, m)
      | Some st \<Rightarrow> (Some st, m\<lparr>em_entities := AList.delete i (em_entities m),
          em_dirty := AList.update i \<lparr>de_id = i, de_fields = DF_DELETED, de_state = st\<rparr> (em_dirty m)\<rparr>))"

text \<open>One field of an update: written, and its flag set, when it differs.\<close>

definition upd_field :: "('v \<Rightarrow> 'v \<Rightarrow> bool) \<Rightarrow> (entity_state \<Rightarrow> 'v) \<Rightarrow> (('v \<Rightarrow> 'v) \<Rightarrow> entity_state \<Rightarrow> entity_state) \<Rightarrow> u32 \<Rightarrow>
    'v option \<Rightarrow> entity_state \<times> u32 \<Rightarrow> entity_state \<times> u32" where
  "upd_field eqv sel upd flag v sf =
     (case v of None \<Rightarrow> sf
      | Some x \<Rightarrow> if eqv (sel (fst sf)) x then sf else (upd (\<lambda>_. x) (fst sf), snd sf OR flag))"

definition apply_update :: "entity_update \<Rightarrow> entity_state \<Rightarrow> entity_state \<times> u32" where
  "apply_update u st =
     upd_field extra_eq es_extra es_extra_update DF_EXTRA (eu_extra u)
      (upd_field fl_eq es_armour es_armour_update DF_ARMOUR (eu_armour u)
       (upd_field fl_eq es_health es_health_update DF_HEALTH (eu_health u)
        (upd_field pos_eq es_velocity es_velocity_update DF_VELOCITY (eu_velocity u)
         (upd_field fl_eq es_heading es_heading_update DF_HEADING (eu_heading u)
          (upd_field pos_eq es_coords es_coords_update DF_COORDS (eu_coords u) (st, 0))))))"

definition update_entity :: "entity_id \<Rightarrow> entity_update \<Rightarrow> entity_manager \<Rightarrow> u32 \<times> entity_manager" where
  "update_entity i u m =
     (case map_of (em_entities m) i of
        None \<Rightarrow> (0, m)
      | Some st \<Rightarrow>
          let (st', flags) = apply_update u st; m' = m\<lparr>em_entities := AList.update i st' (em_entities m)\<rparr>
          in (flags, if flags \<noteq> 0 then mark_dirty i flags st' m' else m'))"

definition set_network_owner :: "entity_id \<Rightarrow> u32 option \<Rightarrow> entity_manager \<Rightarrow> bool \<times> entity_manager" where
  "set_network_owner i owner m =
     (case map_of (em_entities m) i of
        None \<Rightarrow> (False, m)
      | Some st \<Rightarrow>
          if es_owner st = owner then (True, m)
          else (True, mark_dirty i DF_EXTRA (st\<lparr>es_owner := owner\<rparr>)
            (m\<lparr>em_entities := AList.update i (st\<lparr>es_owner := owner\<rparr>) (em_entities m)\<rparr>)))"

definition flush_dirty :: "entity_manager \<Rightarrow> dirty_entity list \<times> entity_manager" where
  "flush_dirty m = (map snd (em_dirty m), m\<lparr>em_dirty := []\<rparr>)"

definition em_get :: "entity_id \<Rightarrow> entity_manager \<Rightarrow> entity_state option" where
  "em_get i m = map_of (em_entities m) i"

definition snapshot_filtered :: "(entity_state \<Rightarrow> bool) \<Rightarrow> entity_manager \<Rightarrow> entity_state list" where
  "snapshot_filtered predicate m = filter predicate (map snd (em_entities m))"

definition em_snapshot :: "entity_manager \<Rightarrow> entity_state list" where
  "em_snapshot m = map snd (em_entities m)"

definition entities_owned_by :: "u32 \<Rightarrow> entity_manager \<Rightarrow> entity_state list" where
  "entities_owned_by source m = filter (\<lambda>e. es_owner e = Some source) (map snd (em_entities m))"

definition em_count :: "entity_manager \<Rightarrow> nat" where
  "em_count m = length (em_entities m)"

section \<open>The aggregated world\<close>

type_synonym world_state = "(entity_id \<times> entity_state) list"

definition merge_batch :: "dirty_entity list \<Rightarrow> world_state \<Rightarrow> world_state" where
  "merge_batch batch w =
     fold (\<lambda>d w. if has_flag (de_fields d) DF_DELETED then AList.delete (de_id d) w
                 else AList.update (de_id d) (de_state d) w) batch w"

section \<open>The published stream\<close>

text \<open>
  The operations of a zone, and a publication: the queue is drained and its batch merged by the gateway. A run
  returns the manager and the gateway's world.
\<close>

datatype em_op =
    EmSpawn entity_state
  | EmRemove entity_id
  | EmUpdate entity_id entity_update
  | EmOwner entity_id "u32 option"
  | EmPublish

fun em_step :: "em_op \<Rightarrow> entity_manager \<times> world_state \<Rightarrow> entity_manager \<times> world_state" where
  "em_step (EmSpawn st) (m, w) = (spawn_entity st m, w)"
| "em_step (EmRemove i) (m, w) = (snd (em_remove_entity i m), w)"
| "em_step (EmUpdate i u) (m, w) = (snd (update_entity i u m), w)"
| "em_step (EmOwner i owner) (m, w) = (snd (set_network_owner i owner m), w)"
| "em_step EmPublish (m, w) = (case flush_dirty m of (batch, m') \<Rightarrow> (m', merge_batch batch w))"

definition em_run :: "em_op list \<Rightarrow> entity_manager \<times> world_state \<Rightarrow> entity_manager \<times> world_state" where
  "em_run ops s = fold em_step ops s"

text \<open>The deletion of an entity is waiting to be published.\<close>

definition deletion_pending :: "entity_id \<Rightarrow> entity_manager \<Rightarrow> bool" where
  "deletion_pending i m \<longleftrightarrow>
     (case map_of (em_dirty m) i of None \<Rightarrow> False | Some d \<Rightarrow> has_flag (de_fields d) DF_DELETED)"

text \<open>No entity is spawned again before its deletion was published.\<close>

fun spawns_published :: "em_op list \<Rightarrow> entity_manager \<times> world_state \<Rightarrow> bool" where
  "spawns_published [] s = True"
| "spawns_published (c # cs) s =
     ((case c of EmSpawn st \<Rightarrow> \<not> deletion_pending (es_id st) (fst s) | _ \<Rightarrow> True) \<and> spawns_published cs (em_step c s))"

section \<open>The world is the entity map\<close>

text \<open>
  The queue explains the difference between the entities and the world the gateway has: an entity that is not
  queued is the same in both, a queued deletion is of a dead entity, and any other entry carries the state of a
  live one.
\<close>

definition mirrored_at :: "entity_manager \<Rightarrow> world_state \<Rightarrow> entity_id \<Rightarrow> bool" where
  "mirrored_at m w i \<longleftrightarrow>
     (case map_of (em_dirty m) i of
        None \<Rightarrow> map_of w i = map_of (em_entities m) i
      | Some d \<Rightarrow> de_id d = i \<and>
          map_of (em_entities m) i = (if has_flag (de_fields d) DF_DELETED then None else Some (de_state d)))"

definition mirrored :: "entity_manager \<times> world_state \<Rightarrow> bool" where
  "mirrored s \<longleftrightarrow> distinct (map fst (em_dirty (fst s))) \<and> (\<forall>i. mirrored_at (fst s) (snd s) i)"

lemma has_flag_deleted: "has_flag fs DF_DELETED \<longleftrightarrow> bit fs 7"
proof -
  have "DF_DELETED = 2 ^ 7" by (simp add: DF_DELETED_def)
  then have "bit DF_DELETED n \<longleftrightarrow> n = 7" for n unfolding \<open>DF_DELETED = 2 ^ 7\<close> bit_exp_iff by auto
  then show ?thesis unfolding has_flag_def by (auto simp: bit_eq_iff [of "fs AND DF_DELETED"] bit_and_iff dest: spec [of _ 7])
qed

lemma upd_field_not_deleted:
  "\<not> bit (snd sf) 7 \<Longrightarrow> \<not> bit flag 7 \<Longrightarrow> \<not> bit (snd (upd_field eqv sel upd flag v sf)) 7"
  by (simp add: upd_field_def bit_or_iff split: option.split)

lemma apply_update_not_deleted: "\<not> bit (snd (apply_update u st)) 7"
  unfolding apply_update_def by (intro upd_field_not_deleted)
    (simp_all add: DF_EXTRA_def DF_ARMOUR_def DF_HEALTH_def DF_VELOCITY_def DF_HEADING_def DF_COORDS_def)

lemma upd_field_zero:
  "(snd sf = 0 \<Longrightarrow> fst sf = st) \<Longrightarrow> flag \<noteq> 0 \<Longrightarrow> snd (upd_field eqv sel upd flag v sf) = 0 \<Longrightarrow>
   fst (upd_field eqv sel upd flag v sf) = st"
  by (auto simp: upd_field_def or_eq_0_iff split: option.splits if_splits)

lemma apply_update_zero: "snd (apply_update u st) = 0 \<Longrightarrow> fst (apply_update u st) = st"
  unfolding apply_update_def
  by (erule upd_field_zero [rotated 2], erule upd_field_zero [rotated 2], erule upd_field_zero [rotated 2],
      erule upd_field_zero [rotated 2], erule upd_field_zero [rotated 2], erule upd_field_zero [rotated 2])
    (simp_all add: DF_EXTRA_def DF_ARMOUR_def DF_HEALTH_def DF_VELOCITY_def DF_HEADING_def DF_COORDS_def)

lemma mark_dirty_entities [simp]: "em_entities (mark_dirty i flags st m) = em_entities m"
  by (simp add: mark_dirty_def split: option.split)

lemma mark_dirty_mirrored:
  assumes "distinct (map fst (em_dirty m))" "\<And>j. j \<noteq> i \<Longrightarrow> mirrored_at m w j"
    and "map_of (em_entities m) i = Some st" "\<not> deletion_pending i m" "\<not> bit flags 7"
    and "\<And>d. map_of (em_dirty m) i = Some d \<Longrightarrow> de_id d = i"
  shows "mirrored (mark_dirty i flags st m, w)"
proof -
  obtain d where d: "em_dirty (mark_dirty i flags st m) = AList.update i d (em_dirty m)" "de_id d = i" "de_state d = st"
      "\<not> bit (de_fields d) 7"
  proof (cases "map_of (em_dirty m) i")
    case None
    then show ?thesis using that assms(5) by (simp add: mark_dirty_def)
  next
    case (Some p)
    then have "\<not> bit (de_fields p) 7" using assms(4) by (simp add: deletion_pending_def has_flag_deleted)
    then show ?thesis using that Some assms(5) assms(6) [OF Some]
      by (simp add: mark_dirty_def has_flag_deleted bit_or_iff)
  qed
  have "mirrored_at (mark_dirty i flags st m) w j" for j
    using assms(2) [of j] assms(3) d by (auto simp: mirrored_at_def has_flag_deleted update_conv' split: option.splits if_splits)
  then show ?thesis using assms(1) by (simp add: mirrored_def d distinct_update)
qed

lemma mirrored_atD:
  assumes "mirrored_at m w i" "map_of (em_entities m) i = Some st"
  shows "\<not> deletion_pending i m" "map_of (em_dirty m) i = Some d \<Longrightarrow> de_id d = i"
  using assms by (auto simp: mirrored_at_def deletion_pending_def split: option.splits if_splits)

text \<open>Replacing the state of an entity and queueing it.\<close>

lemma queue_state_mirrored:
  assumes inv: "mirrored (m, w)" and "\<not> deletion_pending i m" "\<not> bit flags 7"
  shows "mirrored (mark_dirty i flags st (m\<lparr>em_entities := AList.update i st (em_entities m)\<rparr>), w)"
proof (rule mark_dirty_mirrored)
  show "mirrored_at (m\<lparr>em_entities := AList.update i st (em_entities m)\<rparr>) w j" if "j \<noteq> i" for j
  proof -
    have "mirrored_at m w j" using inv by (simp add: mirrored_def)
    then show ?thesis using that by (auto simp: mirrored_at_def update_conv' split: option.splits if_splits)
  qed
  have at: "mirrored_at m w i" using inv by (simp add: mirrored_def)
  show "de_id d = i" if "map_of (em_dirty (m\<lparr>em_entities := AList.update i st (em_entities m)\<rparr>)) i = Some d" for d
    using at that by (simp add: mirrored_at_def)
  show "\<not> deletion_pending i (m\<lparr>em_entities := AList.update i st (em_entities m)\<rparr>)"
    using assms(2) by (simp add: deletion_pending_def)
qed (use assms in \<open>simp_all add: mirrored_def update_conv'\<close>)

lemma DF_spawn_not_deleted: "\<not> bit (DF_all AND NOT DF_DELETED) 7"
  by (simp add: DF_all_def DF_DELETED_def bit_and_iff bit_not_iff)

lemma merge_batch_absent:
  "i \<notin> de_id ` set ds \<Longrightarrow> map_of (merge_batch ds w) i = map_of w i"
  by (induction ds arbitrary: w) (auto simp: merge_batch_def update_conv' delete_conv')

lemma merge_batch_present:
  "distinct (map de_id ds) \<Longrightarrow> d \<in> set ds \<Longrightarrow>
   map_of (merge_batch ds w) (de_id d) = (if has_flag (de_fields d) DF_DELETED then None else Some (de_state d))"
proof (induction ds arbitrary: w)
  case (Cons e ds)
  let ?w = "if has_flag (de_fields e) DF_DELETED then AList.delete (de_id e) w else AList.update (de_id e) (de_state e) w"
  have step: "merge_batch (e # ds) w = merge_batch ds ?w" by (simp add: merge_batch_def)
  show ?case
  proof (cases "d = e")
    case True
    then have "de_id d \<notin> de_id ` set ds" using Cons.prems by simp
    from merge_batch_absent [OF this, of ?w] show ?thesis unfolding step using True by (simp add: update_conv' delete_conv')
  next
    case False
    then show ?thesis unfolding step using Cons by simp
  qed
qed simp

lemma publish_mirrored:
  assumes "mirrored (m, w)"
  shows "map_of (merge_batch (fst (flush_dirty m)) w) i = map_of (em_entities m) i"
proof -
  have d: "distinct (map fst (em_dirty m))" and at: "mirrored_at m w j" for j using assms by (auto simp: mirrored_def)
  have own: "de_id e = j" if "(j, e) \<in> set (em_dirty m)" for j e
    using at [of j] d that by (simp add: mirrored_at_def)
  then have keys: "map de_id (map snd (em_dirty m)) = map fst (em_dirty m)" by auto
  show ?thesis
  proof (cases "map_of (em_dirty m) i")
    case None
    then have "i \<notin> set (map de_id (map snd (em_dirty m)))" unfolding keys by (simp add: map_of_eq_None_iff)
    then have "i \<notin> de_id ` set (map snd (em_dirty m))" by (simp add: image_image)
    from merge_batch_absent [OF this, of w] show ?thesis using at [of i] None by (simp add: mirrored_at_def flush_dirty_def)
  next
    case (Some e)
    then have e: "e \<in> set (map snd (em_dirty m))" by (force dest: map_of_SomeD)
    have "distinct (map de_id (map snd (em_dirty m)))" unfolding keys by (rule d)
    from merge_batch_present [OF this e, of w] show ?thesis
      using at [of i] Some by (simp add: mirrored_at_def flush_dirty_def)
  qed
qed

lemma em_step_mirrored:
  assumes "mirrored s" "\<And>st. c = EmSpawn st \<Longrightarrow> \<not> deletion_pending (es_id st) (fst s)"
  shows "mirrored (em_step c s)"
proof -
  obtain m w where s: "s = (m, w)" by force
  have inv: "mirrored (m, w)" "\<And>i. mirrored_at m w i" using assms(1) by (auto simp: s mirrored_def)
  show ?thesis
  proof (cases c)
    case (EmSpawn st)
    then show ?thesis using assms(2) [OF EmSpawn] queue_state_mirrored [OF inv(1) _ DF_spawn_not_deleted]
      by (simp add: s spawn_entity_def)
  next
    case (EmRemove i)
    show ?thesis
    proof (cases "map_of (em_entities m) i")
      case (Some st)
      let ?d = "\<lparr>de_id = i, de_fields = DF_DELETED, de_state = st\<rparr>"
      let ?m = "m\<lparr>em_entities := AList.delete i (em_entities m), em_dirty := AList.update i ?d (em_dirty m)\<rparr>"
      have "mirrored_at ?m w j" for j
        using inv(2) [of j] by (auto simp: mirrored_at_def update_conv' delete_conv' has_flag_def split: option.splits if_splits)
      then show ?thesis using inv(1) Some by (simp add: EmRemove s em_remove_entity_def mirrored_def distinct_update)
    qed (use inv in \<open>simp add: EmRemove s em_remove_entity_def\<close>)
  next
    case (EmUpdate i u)
    show ?thesis
    proof (cases "map_of (em_entities m) i")
      case (Some st)
      note nd = mirrored_atD(1) [OF inv(2) Some]
      show ?thesis
      proof (cases "snd (apply_update u st) = 0")
        case True
        have "mirrored_at (m\<lparr>em_entities := AList.update i st (em_entities m)\<rparr>) w j" for j
          using inv(2) [of j] Some by (auto simp: mirrored_at_def update_conv' split: option.splits)
        then have "mirrored (m\<lparr>em_entities := AList.update i st (em_entities m)\<rparr>, w)"
          using inv(1) by (simp add: mirrored_def)
        then show ?thesis using True apply_update_zero [OF True] Some
          by (simp add: EmUpdate s update_entity_def Let_def case_prod_beta)
      next
        case False
        then show ?thesis using Some queue_state_mirrored [OF inv(1) nd apply_update_not_deleted]
          by (simp add: EmUpdate s update_entity_def Let_def case_prod_beta)
      qed
    qed (use inv in \<open>simp add: EmUpdate s update_entity_def\<close>)
  next
    case (EmOwner i owner)
    show ?thesis
    proof (cases "map_of (em_entities m) i")
      case (Some st)
      have "\<not> bit DF_EXTRA 7" by (simp add: DF_EXTRA_def)
      from queue_state_mirrored [OF inv(1) mirrored_atD(1) [OF inv(2) Some] this] show ?thesis
        using Some inv by (simp add: EmOwner s set_network_owner_def)
    qed (use inv in \<open>simp add: EmOwner s set_network_owner_def\<close>)
  next
    case EmPublish
    then show ?thesis using publish_mirrored [OF inv(1)]
      by (simp add: s mirrored_def mirrored_at_def case_prod_beta) (simp add: flush_dirty_def)
  qed
qed

lemma em_run_mirrored: "mirrored s \<Longrightarrow> spawns_published ops s \<Longrightarrow> mirrored (em_run ops s)"
proof (induction ops arbitrary: s)
  case (Cons c ops)
  have "mirrored (em_step c s)" using Cons.prems by (intro em_step_mirrored) auto
  then show ?case using Cons by (simp add: em_run_def)
qed (simp add: em_run_def)

lemma em_new_mirrored: "mirrored (em_new, [])"
  by (simp add: mirrored_def mirrored_at_def em_new_def)

text \<open>
  An entity that is spawned again while its deletion waits is live, but only the deletion is published: the
  gateway never hears of it until the entity changes.
\<close>

lemma respawn_not_published:
  assumes "mirrored (m, w)" "deletion_pending (es_id st) m"
  shows "\<exists>m' w'. em_run (EmSpawn st # replicate (Suc n) EmPublish) (m, w) = (m', w') \<and>
    em_get (es_id st) m' = Some st \<and> map_of w' (es_id st) = None"
proof -
  let ?i = "es_id st"
  have sp: "spawn_entity st m = m\<lparr>em_entities := AList.update ?i st (em_entities m)\<rparr>"
    using assms(2) by (auto simp: spawn_entity_def mark_dirty_def deletion_pending_def split: option.splits)
  have none: "map_of (em_entities m) ?i = None"
    using mirrored_atD(1) [of m w ?i] assms by (cases "map_of (em_entities m) ?i") (auto simp: mirrored_def)
  have gone: "map_of (merge_batch (map snd (em_dirty m)) w) ?i = None"
    using publish_mirrored [OF assms(1), of ?i] none by (simp add: flush_dirty_def)
  have idle: "em_run (replicate k EmPublish) (m1, w1) = (m1, w1)" if "em_dirty m1 = []" for k m1 w1
  proof -
    have "em_step EmPublish (m1, w1) = (m1, w1)" using that by (cases m1) (simp add: flush_dirty_def merge_batch_def)
    then show ?thesis by (induction k) (simp_all add: em_run_def)
  qed
  let ?m = "m\<lparr>em_entities := AList.update ?i st (em_entities m), em_dirty := []\<rparr>"
  let ?w = "merge_batch (map snd (em_dirty m)) w"
  have "em_run (EmSpawn st # replicate (Suc n) EmPublish) (m, w) = em_run (replicate n EmPublish) (?m, ?w)"
    by (simp add: em_run_def sp flush_dirty_def)
  also have "\<dots> = (?m, ?w)" by (rule idle) simp
  finally show ?thesis using gone by (simp add: em_get_def update_conv')
qed


definition demo_entity :: entity_state where
  "demo_entity = \<lparr>es_id = 5, es_type = EtVehicle, es_owner = None, es_model = 1, es_coords = (Fin False 0, Fin False 0, Fin False 0),
     es_heading = Fin False 0, es_velocity = (Fin False 0, Fin False 0, Fin False 0), es_health = Fin False 0,
     es_armour = Fin False 0, es_extra = ExObject False\<rparr>"


end
