(* ===== verification/State_Messages.thy ===== *)
theory State_Messages
  imports Zone_Entities
begin

text \<open>
  The state messages between clients, zones and the gateway, \<open>crates/baston-protocol/src/udp/state.rs\<close>: the
  report of a client, its reading from the arguments of a net event, and the operations of a snapshot. A value
  of \<open>serde_json\<close> is a datatype with the three forms of its numbers; the bincode payloads are not modelled.
\<close>

section \<open>Reports\<close>

record client_update =
  cu_entity_id :: "entity_id option"
  cu_type :: entity_type
  cu_model :: u32
  cu_coords :: pos3
  cu_heading :: fl
  cu_velocity :: pos3
  cu_health :: fl
  cu_armour :: fl
  cu_extra :: "entity_extra option"

datatype json =
    JNull
  | JBool bool
  | JPosInt u64
  | JNegInt int
  | JFloat fl
  | JStr string
  | JArr "json list"
  | JObj "(string \<times> json) list"

fun json_nth :: "json \<Rightarrow> nat \<Rightarrow> json option" where
  "json_nth (JArr xs) i = (if i < length xs then Some (xs ! i) else None)"
| "json_nth _ i = None"

fun json_key :: "json \<Rightarrow> string \<Rightarrow> json option" where
  "json_key (JObj kvs) k = map_of kvs k"
| "json_key _ k = None"

fun json_f64 :: "json \<Rightarrow> fl option" where
  "json_f64 (JPosInt n) = Some (fl_of_int F64 (uint n))"
| "json_f64 (JNegInt i) = Some (fl_of_int F64 i)"
| "json_f64 (JFloat x) = Some x"
| "json_f64 _ = None"

fun json_u64 :: "json \<Rightarrow> u64 option" where
  "json_u64 (JPosInt n) = Some n"
| "json_u64 _ = None"

text \<open>\<open>as f32\<close>: a magnitude in units of the finer format is rounded once to the coarser one.\<close>

fun f64_to_f32 :: "fl \<Rightarrow> fl" where
  "f64_to_f32 (Fin s n) = mk_fl F32 s n (2 ^ (unit_exp F64 - unit_exp F32))"
| "f64_to_f32 x = x"

definition json_vec3 :: "json \<Rightarrow> pos3 option" where
  "json_vec3 v =
     (case (Option.bind (json_nth v 0) json_f64, Option.bind (json_nth v 1) json_f64, Option.bind (json_nth v 2) json_f64) of
        (Some x, Some y, Some z) \<Rightarrow> Some (f64_to_f32 x, f64_to_f32 y, f64_to_f32 z)
      | _ \<Rightarrow> None)"

definition vzero :: pos3 where "vzero = (Fin False 0, Fin False 0, Fin False 0)"

definition client_state_update_from_json :: "json \<Rightarrow> client_update option" where
  "client_state_update_from_json args =
     Option.bind (json_nth args 0) (\<lambda>obj.
     Option.bind (Option.bind (json_key obj ''model'') json_u64) (\<lambda>model.
     Option.bind (Option.bind (json_key obj ''coords'') json_vec3) (\<lambda>coords.
     Option.bind (Option.bind (json_key obj ''heading'') json_f64) (\<lambda>heading.
       Some \<lparr>cu_entity_id = None, cu_type = EtPlayer, cu_model = ucast model, cu_coords = coords,
             cu_heading = f64_to_f32 heading,
             cu_velocity = (case Option.bind (json_key obj ''velocity'') json_vec3 of Some v \<Rightarrow> v | None \<Rightarrow> vzero),
             cu_health = f64_to_f32 (case Option.bind (json_key obj ''health'') json_f64 of Some h \<Rightarrow> h | None \<Rightarrow> fl_of_int F64 100),
             cu_armour = f64_to_f32 (case Option.bind (json_key obj ''armour'') json_f64 of Some a \<Rightarrow> a | None \<Rightarrow> Fin False 0),
             cu_extra = None\<rparr>))))"

section \<open>Snapshots\<close>

record entity_delta =
  ed_id :: entity_id
  ed_coords :: "pos3 option"
  ed_heading :: "fl option"
  ed_velocity :: "pos3 option"
  ed_health :: "fl option"
  ed_armour :: "fl option"
  ed_extra :: "entity_extra option"
  ed_owner :: "u32 option option"

datatype entity_op = OpUpsert dirty_entity | OpDelta entity_delta | OpDelete entity_id

record snapshot_msg =
  sm_tick :: u64
  sm_ops :: "entity_op list"

end
