(* ===== verification/Mesh_Forward.thy ===== *)
theory Mesh_Forward
  imports State_Messages Gateway_Mesh "HOL-Library.Sublist"
begin

text \<open>
  Forwarding of client state to the zones, \<open>crates/baston-gateway/src/mesh_forward.rs\<close>: one shard's task,
  message by message. The time of a message, in milliseconds, is an argument; a publication is recorded with
  the zone it goes to; between two messages other tasks may change the routing table in any way. Failures of
  the encoder, of NATS and of the release call to a zone, which change no state here, are not modelled.
\<close>

section \<open>The forwarder\<close>

definition HANDOFF_HOLD :: nat where "HANDOFF_HOLD = 50"
definition MAX_FORWARD_SHARDS :: nat where "MAX_FORWARD_SHARDS = 8"

definition shard_count :: "nat option \<Rightarrow> nat" where
  "shard_count parallelism = max 1 (min MAX_FORWARD_SHARDS (case parallelism of Some n \<Rightarrow> n | None \<Rightarrow> 4))"

definition shard_of :: "nat \<Rightarrow> u32 \<Rightarrow> nat" where
  "shard_of shards source = unat source mod shards"

datatype forward_msg =
    FwUpdate u32 client_update
  | FwBeginHold u32
  | FwFlushHold u32
  | FwDropped u32

record forwarder =
  fw_holds :: "(u32 \<times> nat \<times> client_update list) list"
  fw_homed :: "u32 list"
  fw_mesh :: gateway_mesh
  fw_out :: "(string \<times> u32 \<times> client_update) list"

definition fw_new :: "gateway_mesh \<Rightarrow> forwarder" where
  "fw_new g = \<lparr>fw_holds = [], fw_homed = [], fw_mesh = g, fw_out = []\<rparr>"

definition fw_publish :: "u32 \<Rightarrow> client_update \<Rightarrow> forwarder \<Rightarrow> forwarder" where
  "fw_publish source u f =
     (case zone_of source (gm_router (fw_mesh f)) of
        None \<Rightarrow> f
      | Some zone \<Rightarrow> f\<lparr>fw_out := fw_out f @ [(zone, source, u)]\<rparr>)"

definition rehome :: "u32 \<Rightarrow> client_update \<Rightarrow> forwarder \<Rightarrow> forwarder" where
  "rehome source u f =
     (if source \<in> set (fw_homed f) then f
      else let f1 = f\<lparr>fw_homed := source # fw_homed f\<rparr>; (x, y, z) = cu_coords u in
           case find_zone_for_coords x y (gm_registry (fw_mesh f)) of
             None \<Rightarrow> f1
           | Some correct \<Rightarrow>
               if zone_of source (gm_router (fw_mesh f)) \<noteq> Some correct
               then f1\<lparr>fw_mesh := (fw_mesh f)\<lparr>gm_router := cr_assign source correct (gm_router (fw_mesh f))\<rparr>\<rparr>
               else f1)"

definition release_in_zone :: "u32 \<Rightarrow> gateway_mesh \<Rightarrow> gateway_mesh" where
  "release_in_zone source g =
     (case zone_of source (gm_router g) of
        None \<Rightarrow> g
      | Some zone \<Rightarrow> g\<lparr>gm_router := snd (cr_remove source (gm_router g))\<rparr>)"

fun fw_run_msg :: "nat \<Rightarrow> forward_msg \<Rightarrow> forwarder \<Rightarrow> forwarder" where
  "fw_run_msg now (FwUpdate source u) f =
     (let f1 = rehome source u f in
      case map_of (fw_holds f1) source of
        Some (started, buf) \<Rightarrow>
          if now - started < HANDOFF_HOLD
          then f1\<lparr>fw_holds := AList.update source (started, buf @ [u]) (fw_holds f1)\<rparr>
          else fw_publish source u (fold (fw_publish source) buf (f1\<lparr>fw_holds := AList.delete source (fw_holds f1)\<rparr>))
      | None \<Rightarrow> fw_publish source u f1)"
| "fw_run_msg now (FwBeginHold source) f = f\<lparr>fw_holds := AList.update source (now, []) (fw_holds f)\<rparr>"
| "fw_run_msg now (FwFlushHold source) f =
     (case map_of (fw_holds f) source of
        None \<Rightarrow> f
      | Some (started, buf) \<Rightarrow> fold (fw_publish source) buf (f\<lparr>fw_holds := AList.delete source (fw_holds f)\<rparr>))"
| "fw_run_msg now (FwDropped source) f =
     f\<lparr>fw_holds := AList.delete source (fw_holds f), fw_homed := removeAll source (fw_homed f),
       fw_mesh := release_in_zone source (fw_mesh f)\<rparr>"

section \<open>Runs\<close>

text \<open>A run interleaves the messages of the shard with arbitrary changes of the mesh by other tasks.\<close>

datatype fw_event = FwMsg nat forward_msg | FwMeshChange gateway_mesh

fun fw_step :: "fw_event \<Rightarrow> forwarder \<Rightarrow> forwarder" where
  "fw_step (FwMsg now msg) f = fw_run_msg now msg f"
| "fw_step (FwMeshChange g) f = f\<lparr>fw_mesh := g\<rparr>"

definition fw_run :: "fw_event list \<Rightarrow> forwarder \<Rightarrow> forwarder" where
  "fw_run es f = fold fw_step es f"

text \<open>What was published for a player, what is held for it, and what it sent.\<close>

definition published_for :: "u32 \<Rightarrow> forwarder \<Rightarrow> client_update list" where
  "published_for s f = map (\<lambda>(z, p, u). u) (filter (\<lambda>(z, p, u). p = s) (fw_out f))"

definition held_for :: "u32 \<Rightarrow> forwarder \<Rightarrow> client_update list" where
  "held_for s f = (case map_of (fw_holds f) s of None \<Rightarrow> [] | Some (started, buf) \<Rightarrow> buf)"

fun updates_of :: "u32 \<Rightarrow> fw_event \<Rightarrow> client_update list" where
  "updates_of s (FwMsg now (FwUpdate p u)) = (if p = s then [u] else [])"
| "updates_of s _ = []"

text \<open>No update of the player is lost in a step: it has a route when one is published, and no hold or
  disconnection discards a buffer.\<close>

fun keeps_all :: "u32 \<Rightarrow> fw_event \<Rightarrow> forwarder \<Rightarrow> bool" where
  "keeps_all s (FwMsg now (FwUpdate p u)) f = (p = s \<longrightarrow> zone_of s (gm_router (fw_mesh (rehome s u f))) \<noteq> None)"
| "keeps_all s (FwMsg now (FwFlushHold p)) f = (p = s \<longrightarrow> zone_of s (gm_router (fw_mesh f)) \<noteq> None)"
| "keeps_all s (FwMsg now (FwBeginHold p)) f = (p = s \<longrightarrow> held_for s f = [])"
| "keeps_all s (FwMsg now (FwDropped p)) f = (p = s \<longrightarrow> held_for s f = [])"
| "keeps_all s (FwMeshChange g) f = True"

fun undisturbed :: "u32 \<Rightarrow> fw_event list \<Rightarrow> forwarder \<Rightarrow> bool" where
  "undisturbed s [] f = True"
| "undisturbed s (e # es) f = (keeps_all s e f \<and> undisturbed s es (fw_step e f))"

section \<open>Order\<close>

lemma fw_publish_simps [simp]:
  "fw_holds (fw_publish p u f) = fw_holds f" "fw_mesh (fw_publish p u f) = fw_mesh f"
  by (simp_all add: fw_publish_def split: option.split)

lemma fold_publish_simps [simp]:
  "fw_holds (fold (fw_publish p) us f) = fw_holds f" "fw_mesh (fold (fw_publish p) us f) = fw_mesh f"
  by (induction us arbitrary: f) simp_all

lemma rehome_simps [simp]: "fw_holds (rehome p u f) = fw_holds f" "fw_out (rehome p u f) = fw_out f"
  by (auto simp: rehome_def Let_def split: option.split prod.split)

lemma published_publish:
  "published_for s (fw_publish p u f) =
   published_for s f @ (if p = s \<and> zone_of s (gm_router (fw_mesh f)) \<noteq> None then [u] else [])"
  by (auto simp: published_for_def fw_publish_def split: option.split)

lemma published_fold:
  "published_for s (fold (fw_publish p) us f) =
   published_for s f @ (if p = s \<and> zone_of s (gm_router (fw_mesh f)) \<noteq> None then us else [])"
  by (induction us arbitrary: f) (auto simp: published_publish)

lemma published_cong: "fw_out f = fw_out g \<Longrightarrow> published_for s f = published_for s g"
  by (simp add: published_for_def)

definition seen_for :: "u32 \<Rightarrow> forwarder \<Rightarrow> client_update list" where
  "seen_for s f = published_for s f @ held_for s f"

lemma fw_step_seen:
  "subseq (seen_for s (fw_step e f)) (seen_for s f @ updates_of s e) \<and>
   (keeps_all s e f \<longrightarrow> seen_for s (fw_step e f) = seen_for s f @ updates_of s e)"
proof (cases e)
  case (FwMeshChange g)
  then show ?thesis by (simp add: seen_for_def published_for_def held_for_def)
next
  case (FwMsg now msg)
  have out: "published_for s (f\<lparr>fw_holds := h\<rparr>) = published_for s f" for h f by (simp add: published_for_def)
  show ?thesis
  proof (cases msg)
    case (FwUpdate p u)
    let ?f = "rehome p u f"
    have pub: "published_for s ?f = published_for s f" by (rule published_cong) simp
    consider (free) "map_of (fw_holds f) p = None"
      | (hold) started buf where "map_of (fw_holds f) p = Some (started, buf)" "now - started < HANDOFF_HOLD"
      | (late) started buf where "map_of (fw_holds f) p = Some (started, buf)" "\<not> now - started < HANDOFF_HOLD"
      by (cases "map_of (fw_holds f) p") auto
    then show ?thesis
    proof cases
      case free
      then have "fw_step e f = fw_publish p u ?f" by (simp add: FwMsg FwUpdate)
      then show ?thesis using free
        by (auto simp: FwMsg FwUpdate seen_for_def held_for_def published_publish pub)
    next
      case hold
      then have "fw_step e f = ?f\<lparr>fw_holds := AList.update p (started, buf @ [u]) (fw_holds f)\<rparr>"
        by (simp add: FwMsg FwUpdate)
      then show ?thesis using hold
        by (auto simp: FwMsg FwUpdate seen_for_def held_for_def out pub update_conv')
    next
      case late
      then have "fw_step e f = fw_publish p u (fold (fw_publish p) buf (?f\<lparr>fw_holds := AList.delete p (fw_holds f)\<rparr>))"
        by (simp add: FwMsg FwUpdate)
      then show ?thesis using late
        by (auto simp: FwMsg FwUpdate seen_for_def held_for_def published_publish published_fold out pub delete_conv')
    qed
  next
    case (FwBeginHold p)
    then show ?thesis
      by (auto simp: FwMsg seen_for_def held_for_def out update_conv' split: option.split)
  next
    case (FwFlushHold p)
    then show ?thesis
      by (auto simp: FwMsg seen_for_def held_for_def published_fold out delete_conv' split: option.split)
  next
    case (FwDropped p)
    then show ?thesis
      by (auto simp: FwMsg seen_for_def held_for_def published_for_def delete_conv' split: option.split)
  qed
qed

lemma fw_run_seen:
  "subseq (seen_for s (fw_run es f)) (seen_for s f @ concat (map (updates_of s) es)) \<and>
   (undisturbed s es f \<longrightarrow> seen_for s (fw_run es f) = seen_for s f @ concat (map (updates_of s) es))"
proof (induction es arbitrary: f)
  case (Cons e es)
  note st = fw_step_seen [of s e f] and IH = Cons.IH [of "fw_step e f"]
  have "subseq (seen_for s (fw_step e f) @ concat (map (updates_of s) es))
      ((seen_for s f @ updates_of s e) @ concat (map (updates_of s) es))"
    using st by (intro list_emb_append_mono) auto
  then show ?case using st IH by (auto simp: fw_run_def intro: subseq_order.trans)
qed (simp add: fw_run_def)

text \<open>A handoff that is committed while an earlier hold of the player is still open discards what that hold
  buffered: a rollback of a crossing does this when it follows within the hold.\<close>

lemma second_hold_discards:
  assumes "held_for s f \<noteq> []"
  shows "held_for s (fw_run_msg now (FwBeginHold s) f) = []"
    and "published_for s (fw_run_msg now (FwBeginHold s) f) = published_for s f"
  by (simp_all add: held_for_def update_conv' published_for_def)


text \<open>An update on each side of the start of a hold, and the flush.\<close>

definition demo_update :: client_update where
  "demo_update = \<lparr>cu_entity_id = None, cu_type = EtPlayer, cu_model = 7, cu_coords = vzero, cu_heading = Fin False 0,
     cu_velocity = vzero, cu_health = Fin False 0, cu_armour = Fin False 0, cu_extra = None\<rparr>"

definition demo_route :: gateway_mesh where
  "demo_route = \<lparr>gm_registry = zr_new 9, gm_router = [(1, ''a'')]\<rparr>"

definition demo_handoff :: "fw_event list" where
  "demo_handoff = [FwMsg 0 (FwUpdate 1 demo_update), FwMsg 1 (FwBeginHold 1),
     FwMsg 2 (FwUpdate 1 (demo_update\<lparr>cu_model := 8\<rparr>)), FwMsg 56 (FwFlushHold 1)]"


end
