(* ===== verification/Player_Directory.thy ===== *)
theory Player_Directory
  imports Prelude "HOL-Library.AList" "HOL-Library.Sublist"
begin

text \<open>
  The directory of connected players, \<open>crates/baston-protocol/src/players.rs\<close>: source ids, connection tokens and
  identifiers. A \<open>DashMap\<close> is an association list; the source counter is 32 bits wide and wraps. The gauge
  of online players is not modelled.
\<close>

section \<open>The directory\<close>

record player_info =
  pi_source :: u32
  pi_name :: string
  pi_identifiers :: "string list"

record player_directory =
  pd_players :: "(u32 \<times> player_info) list"
  pd_tokens :: "(string \<times> u32) list"
  pd_next_source :: u32

definition pd_new :: player_directory where
  "pd_new = \<lparr>pd_players = [], pd_tokens = [], pd_next_source = 1\<rparr>"

definition bind_token :: "string \<Rightarrow> u32 \<Rightarrow> player_directory \<Rightarrow> player_directory" where
  "bind_token token source d = d\<lparr>pd_tokens := AList.update token source (pd_tokens d)\<rparr>"

definition source_for_token :: "string \<Rightarrow> player_directory \<Rightarrow> u32 option" where
  "source_for_token token d = map_of (pd_tokens d) token"

definition allocate_source :: "player_directory \<Rightarrow> u32 \<times> player_directory" where
  "allocate_source d = (pd_next_source d, d\<lparr>pd_next_source := pd_next_source d + 1\<rparr>)"

definition pd_insert :: "player_info \<Rightarrow> player_directory \<Rightarrow> player_directory" where
  "pd_insert p d = d\<lparr>pd_players := AList.update (pi_source p) p (pd_players d)\<rparr>"

definition pd_get :: "u32 \<Rightarrow> player_directory \<Rightarrow> player_info option" where
  "pd_get source d = map_of (pd_players d) source"

definition pd_remove :: "u32 \<Rightarrow> player_directory \<Rightarrow> player_info option \<times> player_directory" where
  "pd_remove source d =
     (pd_get source d, d\<lparr>pd_tokens := filter (\<lambda>(t, s). s \<noteq> source) (pd_tokens d), pd_players := AList.delete source (pd_players d)\<rparr>)"

definition identifier_by_type :: "u32 \<Rightarrow> string \<Rightarrow> player_directory \<Rightarrow> string option" where
  "identifier_by_type source id_type d =
     Option.bind (pd_get source d) (\<lambda>p. List.find (prefix (id_type @ '':'')) (pi_identifiers p))"

definition pd_exists :: "u32 \<Rightarrow> player_directory \<Rightarrow> bool" where
  "pd_exists source d \<longleftrightarrow> pd_get source d \<noteq> None"

definition identifier_count :: "u32 \<Rightarrow> player_directory \<Rightarrow> nat" where
  "identifier_count source d = (case pd_get source d of None \<Rightarrow> 0 | Some p \<Rightarrow> length (pi_identifiers p))"

definition identifier_at :: "u32 \<Rightarrow> nat \<Rightarrow> player_directory \<Rightarrow> string option" where
  "identifier_at source i d =
     Option.bind (pd_get source d) (\<lambda>p. if i < length (pi_identifiers p) then Some (pi_identifiers p ! i) else None)"

text \<open>\<open>trim_start_matches\<close> takes the prefix off as often as it occurs.\<close>

function trim_start_matches :: "string \<Rightarrow> string \<Rightarrow> string" where
  "trim_start_matches pre s = (if pre \<noteq> [] \<and> prefix pre s then trim_start_matches pre (drop (length pre) s) else s)"
  by pat_completeness auto
termination
  by (relation "measure (\<lambda>(pre, s). length s)") (auto simp: prefix_def)

declare trim_start_matches.simps [simp del]

definition endpoint :: "u32 \<Rightarrow> player_directory \<Rightarrow> string option" where
  "endpoint source d = map_option (trim_start_matches ''ip:'') (identifier_by_type source ''ip'' d)"

definition guid :: "u32 \<Rightarrow> player_directory \<Rightarrow> string option" where
  "guid source d = (case identifier_by_type source ''license'' d of Some i \<Rightarrow> Some i | None \<Rightarrow> identifier_at source 0 d)"

definition pd_sources :: "player_directory \<Rightarrow> u32 list" where
  "pd_sources d = map fst (pd_players d)"

definition pd_count :: "player_directory \<Rightarrow> nat" where
  "pd_count d = length (pd_players d)"

section \<open>Sources and tokens\<close>

text \<open>A removed player's tokens stop working at once, and no other token is touched.\<close>

lemma removed_tokens:
  assumes "distinct (map fst (pd_tokens d))"
  shows "source_for_token t (snd (pd_remove s d)) = (if source_for_token t d = Some s then None else source_for_token t d)"
proof -
  have "map_of (filter (\<lambda>(t, s'). s' \<noteq> s) ts) t = (if map_of ts t = Some s then None else map_of ts t)"
    if "distinct (map fst ts)" for ts :: "(string \<times> u32) list"
    using that
  proof (induction ts)
    case (Cons a ts)
    then have "fst a = t \<Longrightarrow> map_of ts t = None" by (auto simp: map_of_eq_None_iff)
    then show ?case using Cons by (cases a) auto
  qed simp
  then show ?thesis using assms by (simp add: source_for_token_def pd_remove_def)
qed

text \<open>The sources handed out are the consecutive numbers from one, so they are all different and none is zero before
  the counter wraps.\<close>

fun allocate_many :: "nat \<Rightarrow> player_directory \<Rightarrow> u32 list" where
  "allocate_many 0 d = []"
| "allocate_many (Suc n) d = (case allocate_source d of (s, d') \<Rightarrow> s # allocate_many n d')"

lemma allocate_many_consecutive: "allocate_many n d = map (\<lambda>i. pd_next_source d + of_nat i) [0..<n]"
proof (induction n arbitrary: d)
  case (Suc n)
  have "[0..<Suc n] = 0 # map Suc [0..<n]" by (simp only: map_Suc_upt upt_rec [of 0 "Suc n"] zero_less_Suc if_True)
  then have "map (\<lambda>i. pd_next_source d + of_nat i) [0..<Suc n] =
      pd_next_source d # map (\<lambda>i. pd_next_source d + 1 + of_nat i) [0..<n]"
    by (simp only: list.map map_map o_def of_nat_Suc add.assoc) simp
  then show ?case using Suc [of "d\<lparr>pd_next_source := pd_next_source d + 1\<rparr>"] by (simp add: allocate_source_def del: upt_Suc)
qed simp

lemma sources_distinct:
  assumes "n < 2 ^ 32"
  shows "distinct (allocate_many n pd_new) \<and> 0 \<notin> set (allocate_many n pd_new)"
proof -
  have inj: "(1 :: u32) + of_nat i = 1 + of_nat k \<longleftrightarrow> i = k" if "i < n" "k < n" for i k
    using that assms of_nat_inverse [of i "1 + of_nat i :: u32"] by (simp add: word_of_nat_eq_iff take_bit_nat_eq_self)
  have "(1 :: u32) + of_nat i \<noteq> 0" if "i < n" for i
  proof
    assume "(1 :: u32) + of_nat i = 0"
    then have "(of_nat (Suc i) :: u32) = of_nat 0" by simp
    then show False using that assms by (simp only: word_of_nat_eq_iff) (simp add: take_bit_nat_eq_self)
  qed
  then show ?thesis using inj by (auto simp: allocate_many_consecutive pd_new_def distinct_map inj_on_def)
qed

end
