(* ===== verification/State_Ingest.thy ===== *)
theory State_Ingest
  imports State_Messages Player_Directory
begin

text \<open>
  Ingestion of client state by a zone (\<open>crates/baston-zone/src/state_ingest.rs\<close>), the reassignment of network
  owners (\<open>ownership.rs\<close>), and the transfer of a player's state to another zone: the snapshot
  (\<open>crates/baston-protocol/src/player_snapshot.rs\<close>, \<open>build_snapshot\<close> of \<open>boundary_loop.rs\<close>), its restoration, and
  the release that follows (the hooks of \<open>bin/baston-zone.rs\<close>). Times are in nanoseconds and arguments; a fresh
  entity id is an argument.
\<close>

section \<open>Ingestion\<close>

datatype reject_reason = Teleport | NotOwner | UnknownEntity

record state_ingest =
  si_em :: entity_manager
  si_player_entities :: "(u32 \<times> entity_id) list"
  si_last_accepted :: "(entity_id \<times> nat \<times> pos3) list"
  si_subscribers :: "u32 list"
  si_max_speed :: fl

definition si_new :: "entity_manager \<Rightarrow> fl \<Rightarrow> state_ingest" where
  "si_new m v = \<lparr>si_em = m, si_player_entities = [], si_last_accepted = [], si_subscribers = [], si_max_speed = v\<rparr>"

definition player_entity :: "u32 \<Rightarrow> state_ingest \<Rightarrow> entity_id option" where
  "player_entity source s = map_of (si_player_entities s) source"

definition player_kinematics :: "state_ingest \<Rightarrow> (u32 \<times> pos3 \<times> pos3) list" where
  "player_kinematics s =
     List.map_filter (\<lambda>(source, i). map_option (\<lambda>st. (source, es_coords st, es_velocity st)) (em_get i (si_em s)))
       (si_player_entities s)"

definition si_player_positions :: "state_ingest \<Rightarrow> (u32 \<times> pos3) list" where
  "si_player_positions s =
     List.map_filter (\<lambda>(source, i). map_option (\<lambda>st. (source, es_coords st)) (em_get i (si_em s))) (si_player_entities s)"

text \<open>\<open>Duration::as_secs_f32\<close>.\<close>

definition as_secs_f32 :: "nat \<Rightarrow> fl" where
  "as_secs_f32 ns =
     fl_add F32 (fl_of_int F32 (int (ns div 10 ^ 9))) (fl_div F32 (fl_of_int F32 (int (ns mod 10 ^ 9))) (fl_of_int F32 (10 ^ 9)))"

text \<open>The entity a report creates.\<close>

definition reported_entity :: "u32 \<Rightarrow> entity_id \<Rightarrow> entity_type \<Rightarrow> entity_extra \<Rightarrow> client_update \<Rightarrow> entity_state" where
  "reported_entity source i ty dflt u =
     \<lparr>es_id = i, es_type = ty, es_owner = Some source, es_model = cu_model u, es_coords = cu_coords u,
      es_heading = cu_heading u, es_velocity = cu_velocity u, es_health = cu_health u, es_armour = cu_armour u,
      es_extra = (case cu_extra u of Some x \<Rightarrow> x | None \<Rightarrow> dflt)\<rparr>"

definition spawn_owned_entity :: "nat \<Rightarrow> u32 \<Rightarrow> entity_id \<Rightarrow> client_update \<Rightarrow> state_ingest \<Rightarrow> state_ingest" where
  "spawn_owned_entity now source i u s =
     s\<lparr>si_em := spawn_entity (reported_entity source i (cu_type u) (ExObject False) u) (si_em s),
       si_last_accepted := AList.update i (now, cu_coords u) (si_last_accepted s)\<rparr>"

definition spawn_player_entity :: "nat \<Rightarrow> entity_id \<Rightarrow> u32 \<Rightarrow> client_update \<Rightarrow> state_ingest \<Rightarrow> state_ingest" where
  "spawn_player_entity now i source u s =
     s\<lparr>si_em := spawn_entity (reported_entity source i EtPlayer (ExPlayer False None) u) (si_em s),
       si_player_entities := AList.update source i (si_player_entities s),
       si_last_accepted := AList.update i (now, cu_coords u) (si_last_accepted s)\<rparr>"

definition implausible :: "nat \<Rightarrow> entity_id \<Rightarrow> client_update \<Rightarrow> state_ingest \<Rightarrow> bool" where
  "implausible now i u s =
     (case map_of (si_last_accepted s) i of
        None \<Rightarrow> False
      | Some (at, from) \<Rightarrow>
          let dt = fl_max (as_secs_f32 (now - at)) (fl_lit F32 5 100)
          in fl_lt (si_max_speed s) (fl_div F32 (distance3d from (cu_coords u)) dt))"

text \<open>Mounting a vehicle transfers its ownership to the reporting player.\<close>

definition mount_vehicle :: "u32 \<Rightarrow> client_update \<Rightarrow> entity_manager \<Rightarrow> entity_manager" where
  "mount_vehicle source u m =
     (case cu_extra u of
        Some (ExPlayer True (Some vehicle)) \<Rightarrow>
          (case em_get vehicle m of
             None \<Rightarrow> m
           | Some v \<Rightarrow> if es_owner v \<noteq> Some source then snd (set_network_owner vehicle (Some source) m) else m)
      | _ \<Rightarrow> m)"

definition full_update :: "client_update \<Rightarrow> entity_update" where
  "full_update u = \<lparr>eu_coords = Some (cu_coords u), eu_heading = Some (cu_heading u), eu_velocity = Some (cu_velocity u),
     eu_health = Some (cu_health u), eu_armour = Some (cu_armour u), eu_extra = cu_extra u\<rparr>"

definition accept_update :: "nat \<Rightarrow> u32 \<Rightarrow> entity_id \<Rightarrow> client_update \<Rightarrow> state_ingest \<Rightarrow> (reject_reason + entity_id) \<times> state_ingest" where
  "accept_update now source i u s =
     (if implausible now i u s then (Inl Teleport, s)
      else (Inr i, s\<lparr>si_last_accepted := AList.update i (now, cu_coords u) (si_last_accepted s),
        si_em := snd (update_entity i (full_update u) (mount_vehicle source u (si_em s)))\<rparr>))"

definition si_apply :: "nat \<Rightarrow> entity_id \<Rightarrow> u32 \<Rightarrow> client_update \<Rightarrow> state_ingest \<Rightarrow> (reject_reason + entity_id) \<times> state_ingest" where
  "si_apply now fresh source u s =
     (case cu_entity_id u of
        None \<Rightarrow>
          (case map_of (si_player_entities s) source of
             Some i \<Rightarrow> accept_update now source i u s
           | None \<Rightarrow> (Inr fresh, spawn_player_entity now fresh source u s))
      | Some i \<Rightarrow>
          (case em_get i (si_em s) of
             None \<Rightarrow> if cu_type u \<noteq> EtPlayer then (Inr i, spawn_owned_entity now source i u s) else (Inl UnknownEntity, s)
           | Some st \<Rightarrow> if es_owner st \<noteq> Some source then (Inl NotOwner, s) else accept_update now source i u s))"

definition mark_snapshot_subscriber :: "u32 \<Rightarrow> state_ingest \<Rightarrow> state_ingest" where
  "mark_snapshot_subscriber source s = s\<lparr>si_subscribers := List.insert source (si_subscribers s)\<rparr>"

definition is_snapshot_subscriber :: "u32 \<Rightarrow> state_ingest \<Rightarrow> bool" where
  "is_snapshot_subscriber source s \<longleftrightarrow> source \<in> set (si_subscribers s)"

definition si_on_player_dropped :: "u32 \<Rightarrow> state_ingest \<Rightarrow> state_ingest" where
  "si_on_player_dropped source s =
     (let s1 = (case map_of (si_player_entities s) source of
                  None \<Rightarrow> s
                | Some i \<Rightarrow> s\<lparr>si_player_entities := AList.delete source (si_player_entities s),
                    si_em := snd (em_remove_entity i (si_em s)), si_last_accepted := AList.delete i (si_last_accepted s)\<rparr>)
      in s1\<lparr>si_subscribers := removeAll source (si_subscribers s1)\<rparr>)"

section \<open>Network owners\<close>

text \<open>\<open>min_by\<close> with incomparable values counted equal: the first of the least.\<close>

fun nearest_player :: "pos3 \<Rightarrow> (u32 \<times> pos3) list \<Rightarrow> (u32 \<times> pos3) option" where
  "nearest_player c [] = None"
| "nearest_player c (p # ps) =
     Some (fold (\<lambda>q best. if fl_lt (distance3d (snd q) c) (distance3d (snd best) c) then q else best) ps p)"

definition assign_network_owner :: "entity_state \<Rightarrow> (u32 \<times> pos3) list \<Rightarrow> u32 option" where
  "assign_network_owner e players = map_option fst (nearest_player (es_coords e) players)"

definition owner_scan_one :: "(u32 \<times> pos3) list \<Rightarrow> entity_state \<Rightarrow> entity_manager \<times> (entity_id \<times> u32 option) list \<Rightarrow>
    entity_manager \<times> (entity_id \<times> u32 option) list" where
  "owner_scan_one players e ml =
     (let connected = map fst players;
          owner_connected = (case es_owner e of None \<Rightarrow> False | Some p \<Rightarrow> p \<in> set connected);
          best = assign_network_owner e players
      in if \<not> owner_connected \<or> best \<noteq> es_owner e then
           (if best = es_owner e then ml
            else case set_network_owner (es_id e) best (fst ml) of
                   (True, m) \<Rightarrow> (m, snd ml @ [(es_id e, best)])
                 | (False, m) \<Rightarrow> (m, snd ml))
         else ml)"

text \<open>One pass, with the notifications of changed owners.\<close>

definition owner_scan :: "state_ingest \<Rightarrow> entity_manager \<times> (entity_id \<times> u32 option) list" where
  "owner_scan s =
     fold (owner_scan_one (si_player_positions s)) (snapshot_filtered (\<lambda>e. es_type e \<noteq> EtPlayer) (si_em s)) (si_em s, [])"

section \<open>Handing a player over\<close>

record player_snapshot =
  ps_source :: u32
  ps_name :: string
  ps_identifiers :: "string list"
  ps_coords :: pos3
  ps_heading :: fl
  ps_velocity :: pos3
  ps_health :: fl
  ps_armour :: fl
  ps_current_weapon :: u32
  ps_player_entity :: "entity_state option"
  ps_owned :: "entity_state list"
  ps_script_state :: "(string \<times> string) list"

definition build_snapshot :: "player_info option \<Rightarrow> (string \<times> string) list \<Rightarrow> u32 \<Rightarrow> pos3 \<Rightarrow> pos3 \<Rightarrow> state_ingest \<Rightarrow> player_snapshot" where
  "build_snapshot info script source coords velocity s =
     (let ped_id = player_entity source s;
          ped = Option.bind ped_id (\<lambda>i. em_get i (si_em s))
      in \<lparr>ps_source = source,
          ps_name = (case info of Some p \<Rightarrow> pi_name p | None \<Rightarrow> []),
          ps_identifiers = (case info of Some p \<Rightarrow> pi_identifiers p | None \<Rightarrow> []),
          ps_coords = coords,
          ps_heading = (case ped of Some e \<Rightarrow> es_heading e | None \<Rightarrow> Fin False 0),
          ps_velocity = velocity,
          ps_health = (case ped of Some e \<Rightarrow> es_health e | None \<Rightarrow> fl_of_int F32 200),
          ps_armour = (case ped of Some e \<Rightarrow> es_armour e | None \<Rightarrow> Fin False 0),
          ps_current_weapon = 0,
          ps_player_entity = ped,
          ps_owned = filter (\<lambda>e. Some (es_id e) \<noteq> ped_id) (entities_owned_by source (si_em s)),
          ps_script_state = script\<rparr>)"

definition restore_player_state :: "nat \<Rightarrow> player_snapshot \<Rightarrow> state_ingest \<Rightarrow> entity_id option \<times> state_ingest" where
  "restore_player_state now snap s =
     (let s1 = s\<lparr>si_em := fold spawn_entity (ps_owned snap) (si_em s)\<rparr>
      in case ps_player_entity snap of
           None \<Rightarrow> (None, s1)
         | Some ped \<Rightarrow> (Some (es_id ped), s1\<lparr>si_em := spawn_entity ped (si_em s1),
             si_player_entities := AList.update (ps_source snap) (es_id ped) (si_player_entities s1),
             si_last_accepted := AList.update (es_id ped) (now, ps_coords snap) (si_last_accepted s1)\<rparr>))"

text \<open>The release of a player: everything it owns, its ped and its entries.\<close>

definition release_player_state :: "u32 \<Rightarrow> state_ingest \<Rightarrow> state_ingest" where
  "release_player_state source s =
     si_on_player_dropped source
       (s\<lparr>si_em := fold (\<lambda>e m. snd (em_remove_entity (es_id e) m)) (entities_owned_by source (si_em s)) (si_em s)\<rparr>)"

section \<open>Lookups\<close>

named_theorems em_lookup

lemma em_get_mark [simp]: "em_get i (mark_dirty j f st m) = em_get i m"
  by (simp add: em_get_def)

lemma em_get_spawn [em_lookup]: "em_get i (spawn_entity st m) = (if i = es_id st then Some st else em_get i m)"
  by (simp add: spawn_entity_def) (simp add: em_get_def update_conv')

lemma em_get_remove [em_lookup]: "em_get i (snd (em_remove_entity j m)) = (if i = j then None else em_get i m)"
  by (auto simp: em_remove_entity_def em_get_def delete_conv' split: option.split)

lemma em_get_owner [em_lookup]:
  "em_get i (snd (set_network_owner j owner m)) =
   (if i = j then map_option (es_owner_update (\<lambda>_. owner)) (em_get i m) else em_get i m)"
proof (cases "map_of (em_entities m) j")
  case (Some st)
  have "st\<lparr>es_owner := es_owner st\<rparr> = st" by simp
  then show ?thesis using Some
    by (auto simp: set_network_owner_def) (auto simp: em_get_def update_conv')
qed (auto simp: set_network_owner_def em_get_def)

lemma em_get_update [em_lookup]:
  "em_get i (snd (update_entity j u m)) =
   (if i = j then map_option (\<lambda>st. fst (apply_update u st)) (em_get i m) else em_get i m)"
  by (cases "map_of (em_entities m) j")
    (auto simp: update_entity_def Let_def case_prod_beta em_get_def update_conv')

lemma owner_set_known: "fst (set_network_owner j owner m) = (em_get j m \<noteq> None)"
  by (auto simp: set_network_owner_def em_get_def split: option.split)

lemma apply_update_frame:
  "es_id (fst (apply_update u st)) = es_id st" "es_owner (fst (apply_update u st)) = es_owner st"
  "es_type (fst (apply_update u st)) = es_type st"
  by (simp_all add: apply_update_def upd_field_def split: option.split)

lemma em_get_mount [em_lookup]:
  "em_get i (mount_vehicle source u m) =
   (if cu_extra u = Some (ExPlayer True (Some i)) then map_option (es_owner_update (\<lambda>_. Some source)) (em_get i m)
    else em_get i m)"
proof -
  have same: "map_option (es_owner_update (\<lambda>_. Some source)) (em_get i m) = em_get i m"
    if "em_get i m = None \<or> (\<exists>v. em_get i m = Some v \<and> es_owner v = Some source)"
    using that by (auto simp: option.map_id)
  show ?thesis
    by (auto simp: mount_vehicle_def em_lookup same split: option.split entity_extra.split bool.split)
qed

text \<open>Every entity is stored once, under its own id.\<close>

definition entities_keyed :: "entity_manager \<Rightarrow> bool" where
  "entities_keyed m \<longleftrightarrow> distinct (map fst (em_entities m)) \<and> (\<forall>i st. em_get i m = Some st \<longrightarrow> es_id st = i)"

lemma entities_keyed_ops:
  assumes "entities_keyed m"
  shows "entities_keyed (spawn_entity st m)" "entities_keyed (snd (em_remove_entity i m))"
    "entities_keyed (snd (update_entity i u m))" "entities_keyed (snd (set_network_owner i owner m))"
    "entities_keyed (m\<lparr>em_dirty := d\<rparr>)"
proof -
  have d: "distinct (map fst (em_entities m))" and k: "\<And>i st. em_get i m = Some st \<Longrightarrow> es_id st = i"
    using assms by (auto simp: entities_keyed_def)
  show "entities_keyed (spawn_entity st m)"
    using k by (auto simp: entities_keyed_def em_lookup split: if_splits) (simp add: spawn_entity_def distinct_update d)
  show "entities_keyed (snd (em_remove_entity i m))"
    using k by (auto simp: entities_keyed_def em_lookup split: if_splits)
      (simp add: em_remove_entity_def distinct_delete d split: option.split)
  show "entities_keyed (snd (update_entity i u m))"
    using k by (auto simp: entities_keyed_def em_lookup apply_update_frame split: if_splits)
      (simp add: update_entity_def Let_def case_prod_beta distinct_update d split: option.split)
  show "entities_keyed (snd (set_network_owner i owner m))"
    using k by (auto simp: entities_keyed_def em_lookup split: if_splits)
      (simp add: set_network_owner_def distinct_update d split: option.split)
  show "entities_keyed (m\<lparr>em_dirty := d\<rparr>)" using assms by (simp add: entities_keyed_def em_get_def)
qed

lemma em_run_keyed: "entities_keyed (fst s) \<Longrightarrow> entities_keyed (fst (em_run ops s))"
proof (induction ops arbitrary: s)
  case (Cons c ops)
  have "entities_keyed (fst (em_step c s))"
    using Cons.prems by (cases s; cases c) (simp_all add: entities_keyed_ops flush_dirty_def)
  then show ?case using Cons by (simp add: em_run_def)
qed (simp add: em_run_def)

lemma em_reached_keyed: "em_run ops (em_new, []) = (m, w) \<Longrightarrow> entities_keyed m"
  using em_run_keyed [of "(em_new, [])" ops] by (simp add: entities_keyed_def em_new_def em_get_def)

section \<open>Reports and foreign entities\<close>

lemma accept_update_lookup:
  assumes "accept_update now source j u s = (r, s')"
  shows "(\<forall>e. r = Inl e \<longrightarrow> s' = s) \<and> (i \<noteq> j \<longrightarrow>
    em_get i (si_em s') = em_get i (si_em s) \<or> em_get i (si_em s') = em_get i (mount_vehicle source u (si_em s)))"
  using assms by (auto simp: accept_update_def em_lookup split: if_splits)

text \<open>C20. A client's report touches no foreign entity. Whatever a client reports, an entity that belongs to
  somebody else and is not the client's own ped stays in the world with every field unchanged, except that the
  report may make the client the owner of the entity it says it is mounted on; a rejected report changes
  nothing at all. The id of a new ped is assumed fresh.\<close>

theorem reports_protect_foreign:
  assumes "em_get fresh (si_em s) = None" and "si_apply now fresh source u s = (r, s')"
    and "em_get i (si_em s) = Some st" "es_owner st \<noteq> Some source" "player_entity source s \<noteq> Some i"
  shows "(\<exists>st'. em_get i (si_em s') = Some st' \<and> st'\<lparr>es_owner := es_owner st\<rparr> = st \<and>
      (es_owner st' = es_owner st \<or> es_owner st' = Some source \<and> cu_extra u = Some (ExPlayer True (Some i)))) \<and>
    (\<forall>e. r = Inl e \<longrightarrow> s' = s)"
proof -
  have mounted: "\<exists>st'. em_get i (mount_vehicle source u (si_em s)) = Some st' \<and> st'\<lparr>es_owner := es_owner st\<rparr> = st \<and>
      (es_owner st' = es_owner st \<or> es_owner st' = Some source \<and> cu_extra u = Some (ExPlayer True (Some i)))"
    using assms(3) by (simp add: em_lookup)
  have via: ?thesis if "accept_update now source j u s = (r, s')" "j \<noteq> i" for j
    using accept_update_lookup [OF that(1), of i] that(2) assms(3) mounted by auto
  have ne: "i \<noteq> fresh" using assms(1,3) by auto
  show ?thesis
  proof (cases "cu_entity_id u")
    case None
    show ?thesis
    proof (cases "map_of (si_player_entities s) source")
      case None
      then show ?thesis using assms ne \<open>cu_entity_id u = None\<close>
        by (auto simp: si_apply_def spawn_player_entity_def em_lookup reported_entity_def)
    next
      case (Some j)
      then show ?thesis using via [of j] assms \<open>cu_entity_id u = None\<close> by (auto simp: si_apply_def player_entity_def)
    qed
  next
    case (Some j)
    show ?thesis
    proof (cases "em_get j (si_em s)")
      case None
      then have "i \<noteq> j" using assms(3) by auto
      then show ?thesis using assms Some None
        by (auto simp: si_apply_def spawn_owned_entity_def em_lookup reported_entity_def split: if_splits)
    next
      case (Some st')
      then show ?thesis using via [of j] assms \<open>cu_entity_id u = Some j\<close>
        by (cases "i = j") (auto simp: si_apply_def split: if_splits)
    qed
  qed
qed

text \<open>
  The transfer does not ask what is mounted: naming another player's ped as the vehicle makes the reporting
  client its owner, and from then on its reports about that ped are not refused.
\<close>

lemma mount_takes_any_entity:
  assumes "player_entity source s = Some own" "cu_entity_id u = None" "cu_extra u = Some (ExPlayer True (Some victim))"
    and "\<not> implausible now own u s" "em_get victim (si_em s) = Some st" "victim \<noteq> own"
    and "si_apply now fresh source u s = (r, s')" "cu_entity_id u' = Some victim"
  shows "r = Inr own \<and> em_get victim (si_em s') = Some (st\<lparr>es_owner := Some source\<rparr>) \<and>
    fst (si_apply now' fresh' source u' s') \<noteq> Inl NotOwner"
proof -
  have s': "s' = s\<lparr>si_last_accepted := AList.update own (now, cu_coords u) (si_last_accepted s),
      si_em := snd (update_entity own (full_update u) (mount_vehicle source u (si_em s)))\<rparr>" and r: "r = Inr own"
    using assms by (auto simp: si_apply_def accept_update_def player_entity_def)
  have "em_get victim (si_em s') = Some (st\<lparr>es_owner := Some source\<rparr>)" using assms by (simp add: s' em_lookup)
  then show ?thesis using r assms(8) by (simp add: si_apply_def accept_update_def)
qed

definition ped_at :: "entity_id \<Rightarrow> u32 \<Rightarrow> entity_state" where
  "ped_at i p = demo_entity\<lparr>es_id := i, es_type := EtPlayer, es_owner := Some p\<rparr>"

definition two_players :: state_ingest where
  "two_players = \<lparr>si_em = spawn_entity (ped_at 5 1) (spawn_entity (ped_at 6 2) em_new),
     si_player_entities = [(1, 5), (2, 6)], si_last_accepted = [], si_subscribers = [], si_max_speed = Fin False 9\<rparr>"

definition still_report :: client_update where
  "still_report = \<lparr>cu_entity_id = None, cu_type = EtPlayer, cu_model = 7, cu_coords = vzero, cu_heading = Fin False 0,
     cu_velocity = vzero, cu_health = Fin False 3, cu_armour = Fin False 0, cu_extra = None\<rparr>"

theorem reports_protect_foreign_witness:
  "em_get 9 (si_em two_players) = None \<and> em_get 6 (si_em two_players) = Some (ped_at 6 2) \<and>
   (\<exists>s'. si_apply 0 9 1 still_report two_players = (Inr 5, s') \<and>
     (\<exists>st'. em_get 6 (si_em s') = Some st' \<and> st'\<lparr>es_owner := Some 2\<rparr> = ped_at 6 2 \<and> es_owner st' = Some 2))"
proof -
  have f: "em_get 9 (si_em two_players) = None" "em_get 6 (si_em two_players) = Some (ped_at 6 2)"
    by (simp_all add: two_players_def em_lookup ped_at_def demo_entity_def) (simp add: em_get_def em_new_def)
  obtain s' where a: "si_apply 0 9 1 still_report two_players = (Inr 5, s')"
    by (auto simp: si_apply_def still_report_def two_players_def accept_update_def implausible_def)
  have p: "es_owner (ped_at 6 2) \<noteq> Some 1" "player_entity 1 two_players \<noteq> Some 6" "es_owner (ped_at 6 2) = Some 2"
    by (simp_all add: ped_at_def player_entity_def two_players_def)
  have c: "cu_extra still_report = None" by (simp add: still_report_def)
  show ?thesis using reports_protect_foreign [OF f(1) a f(2) p(1,2)] f a p(3) c by auto
qed

section \<open>The ownership scan\<close>

definition scanned :: "(u32 \<times> pos3) list \<Rightarrow> entity_state \<Rightarrow> entity_state" where
  "scanned players e = (if es_type e = EtPlayer then e else e\<lparr>es_owner := assign_network_owner e players\<rparr>)"

lemma owner_scan_one_lookup:
  assumes "em_get (es_id e) m = Some e" "es_type e \<noteq> EtPlayer"
  shows "em_get i (fst (owner_scan_one players e (m, l))) =
      (if i = es_id e then Some (scanned players e) else em_get i m)"
    and "assign_network_owner e players = es_owner e \<Longrightarrow> owner_scan_one players e (m, l) = (m, l)"
proof -
  let ?best = "assign_network_owner e players"
  have set: "set_network_owner (es_id e) ?best m = (True, snd (set_network_owner (es_id e) ?best m))"
    using owner_set_known [of "es_id e" ?best m] assms(1) by (metis option.distinct(1) prod.collapse)
  show "assign_network_owner e players = es_owner e \<Longrightarrow> owner_scan_one players e (m, l) = (m, l)"
    by (simp add: owner_scan_one_def Let_def)
  show "em_get i (fst (owner_scan_one players e (m, l))) = (if i = es_id e then Some (scanned players e) else em_get i m)"
  proof (cases "?best = es_owner e")
    case True
    have "e\<lparr>es_owner := es_owner e\<rparr> = e" by simp
    then show ?thesis using True assms by (auto simp: owner_scan_one_def Let_def scanned_def)
  next
    case False
    obtain m' where m': "set_network_owner (es_id e) ?best m = (True, m')" using set by blast
    then have "em_get i m' = (if i = es_id e then map_option (es_owner_update (\<lambda>_. ?best)) (em_get i m) else em_get i m)"
      using em_get_owner [of i "es_id e" ?best m] by simp
    then show ?thesis using False assms m' by (simp add: owner_scan_one_def Let_def scanned_def)
  qed
qed

lemma owner_scan_fold:
  assumes "distinct (map es_id es)" "\<And>e. e \<in> set es \<Longrightarrow> em_get (es_id e) m = Some e \<and> es_type e \<noteq> EtPlayer"
    and "\<And>i e. em_get i m = Some e \<Longrightarrow> es_id e = i"
  shows "em_get i (fst (fold (owner_scan_one players) es (m, l))) =
      (case em_get i m of None \<Rightarrow> None | Some e \<Rightarrow> Some (if e \<in> set es then scanned players e else e))"
  using assms
proof (induction es arbitrary: m l)
  case (Cons e es)
  obtain m' l' where st: "owner_scan_one players e (m, l) = (m', l')" by force
  have look: "em_get i m' = (if i = es_id e then Some (scanned players e) else em_get i m)" for i
    using owner_scan_one_lookup(1) [of e m i players l] Cons.prems(2) [of e] st by simp
  have "em_get (es_id x) m' = Some x \<and> es_type x \<noteq> EtPlayer" if "x \<in> set es" for x
  proof -
    have "es_id x \<noteq> es_id e" using Cons.prems(1) that by (metis distinct.simps(2) image_eqI image_set list.simps(9))
    then show ?thesis using Cons.prems(2) [of x] that look [of "es_id x"] by simp
  qed
  moreover have "es_id x = j" if "em_get j m' = Some x" for j x
    using that look [of j] Cons.prems(3) [of j x] by (auto simp: scanned_def split: if_splits)
  ultimately have IH: "em_get i (fst (fold (owner_scan_one players) es (m', l'))) =
      (case em_get i m' of None \<Rightarrow> None | Some x \<Rightarrow> Some (if x \<in> set es then scanned players x else x))"
    using Cons.prems(1) by (intro Cons.IH) simp_all
  have id: "es_id (scanned players e) = es_id e" by (simp add: scanned_def)
  have "es_id e \<notin> es_id ` set es" using Cons.prems(1) by simp
  then have new: "scanned players e \<notin> set es" unfolding id [symmetric] by blast
  show ?case
  proof (cases "i = es_id e")
    case True
    then show ?thesis using IH look [of i] Cons.prems(2) [of e] new st by simp
  next
    case False
    have "x \<noteq> e" if "em_get i m = Some x" "x \<in> set (e # es)" for x
      using False that Cons.prems(3) [of i x] by auto
    then show ?thesis using IH look [of i] False st Cons.prems(2) [of e] by (auto split: option.split)
  qed
qed (simp split: option.split)

lemma snapshot_entities:
  assumes "entities_keyed m"
  shows "e \<in> set (map snd (em_entities m)) \<longleftrightarrow> em_get (es_id e) m = Some e"
    and "distinct (map es_id (map snd (em_entities m)))"
proof -
  have d: "distinct (map fst (em_entities m))" and k: "\<And>i st. em_get i m = Some st \<Longrightarrow> es_id st = i"
    using assms by (auto simp: entities_keyed_def)
  have own: "es_id st = i" if "(i, st) \<in> set (em_entities m)" for i st
    using k [of i st] that d by (simp add: em_get_def)
  then have ids: "map es_id (map snd (em_entities m)) = map fst (em_entities m)" by auto
  show "distinct (map es_id (map snd (em_entities m)))" unfolding ids by (rule d)
  show "e \<in> set (map snd (em_entities m)) \<longleftrightarrow> em_get (es_id e) m = Some e"
  proof
    assume "e \<in> set (map snd (em_entities m))"
    then obtain i where i: "(i, e) \<in> set (em_entities m)" by auto
    then show "em_get (es_id e) m = Some e" using own [OF i] d by (simp add: em_get_def)
  next
    assume "em_get (es_id e) m = Some e"
    then have "(es_id e, e) \<in> set (em_entities m)" unfolding em_get_def by (rule map_of_SomeD)
    then show "e \<in> set (map snd (em_entities m))" by force
  qed
qed

lemma owner_scan_keyed: "entities_keyed m \<Longrightarrow> entities_keyed (fst (fold (owner_scan_one players) es (m, l)))"
proof (induction es arbitrary: m l)
  case (Cons e es)
  obtain m1 l1 where st: "owner_scan_one players e (m, l) = (m1, l1)" by force
  have "m1 = m \<or> m1 = snd (set_network_owner (es_id e) (assign_network_owner e players) m)"
    using st by (auto simp: owner_scan_one_def Let_def split: if_splits prod.splits bool.splits)
  then show ?case using Cons.IH [of m1 l1] entities_keyed_ops(4) [OF Cons.prems] Cons.prems by (auto simp: st)
qed simp

lemma nearest_player_least:
  assumes "nearest_player c ps = Some p" "\<And>q. q \<in> set ps \<Longrightarrow> \<not> is_nan (distance3d (snd q) c)"
  shows "p \<in> set ps \<and> (\<forall>q \<in> set ps. fl_le (distance3d (snd p) c) (distance3d (snd q) c))"
proof -
  let ?d = "\<lambda>q. distance3d (snd q) c" and ?f = "fold (\<lambda>q best. if fl_lt (distance3d (snd q) c) (distance3d (snd best) c) then q else best)"
  have least: "?f qs x \<in> set (x # qs) \<and> (\<forall>q \<in> set (x # qs). fl_le (?d (?f qs x)) (?d q))"
    if "\<And>q. q \<in> set (x # qs) \<Longrightarrow> \<not> is_nan (?d q)" for x qs
    using that
  proof (induction qs arbitrary: x)
    case (Cons y qs)
    let ?x = "if fl_lt (?d y) (?d x) then y else x"
    have le: "fl_le (?d ?x) (?d x)" "fl_le (?d ?x) (?d y)"
      using Cons.prems [of x] Cons.prems [of y] fl_le_total [of "?d y" "?d x"] fl_lt_iff_not_le [of "?d y" "?d x"] by (auto simp: fl_le_refl)
    have "?f qs ?x \<in> set (?x # qs) \<and> (\<forall>q \<in> set (?x # qs). fl_le (?d (?f qs ?x)) (?d q))"
    proof (rule Cons.IH)
      show "\<not> is_nan (?d q)" if "q \<in> set (?x # qs)" for q using Cons.prems [of q] that by (auto split: if_splits)
    qed
    then show ?case using le by (auto intro: fl_le_trans split: if_splits)
  qed (simp add: fl_le_refl)
  obtain x qs where ps: "ps = x # qs" "p = ?f qs x" using assms(1) by (cases ps) simp_all
  show ?thesis unfolding ps by (rule least) (use assms(2) ps(1) in blast)
qed

lemma positions_scanned:
  assumes "\<And>i. em_get i m = map_option (scanned ps) (em_get i (si_em s))"
  shows "si_player_positions (s\<lparr>si_em := m\<rparr>) = si_player_positions s"
proof -
  have "map_option (\<lambda>st. (p, es_coords st)) (em_get i m) = map_option (\<lambda>st. (p, es_coords st)) (em_get i (si_em s))" for p i
    unfolding assms by (cases "em_get i (si_em s)") (simp_all add: scanned_def)
  then have "(\<lambda>(p, i). map_option (\<lambda>st. (p, es_coords st)) (em_get i m)) =
      (\<lambda>(p, i). map_option (\<lambda>st. (p, es_coords st)) (em_get i (si_em s)))"
    by (intro ext) (simp add: case_prod_beta)
  from arg_cong [OF this, of "\<lambda>f. List.map_filter f (si_player_entities s)"] show ?thesis
    by (simp add: si_player_positions_def)
qed

text \<open>C22. The ownership scan gives every entity that is not a player's ped to the nearest connected player
  (nobody when none is connected), whoever owned it, and changes nothing else. The owner it chooses is a
  connected player and no other is closer, as long as the distances are numbers. The scan is stable: a second
  one changes and announces nothing.\<close>

theorem owner_scan_exact:
  assumes "em_run ops (em_new, []) = (si_em s, w)" and "owner_scan s = (m, changed)"
  shows "em_get i m = map_option (scanned (si_player_positions s)) (em_get i (si_em s)) \<and>
    (\<forall>e p. em_get i m = Some e \<and> es_type e \<noteq> EtPlayer \<and> es_owner e = Some p \<and>
        (\<forall>q \<in> set (si_player_positions s). \<not> is_nan (distance3d (snd q) (es_coords e))) \<longrightarrow>
       (\<exists>c. (p, c) \<in> set (si_player_positions s) \<and>
         (\<forall>q \<in> set (si_player_positions s). fl_le (distance3d c (es_coords e)) (distance3d (snd q) (es_coords e))))) \<and>
    owner_scan (s\<lparr>si_em := m\<rparr>) = (m, [])"
proof -
  let ?ps = "si_player_positions s" and ?es = "snapshot_filtered (\<lambda>e. es_type e \<noteq> EtPlayer) (si_em s)"
  note keyed = em_reached_keyed [OF assms(1)]
  note S = snapshot_entities [OF keyed]
  have mem: "e \<in> set ?es \<longleftrightarrow> em_get (es_id e) (si_em s) = Some e \<and> es_type e \<noteq> EtPlayer" for e
    using S(1) [of e] by (auto simp: snapshot_filtered_def)
  have "distinct (map es_id ?es)" unfolding snapshot_filtered_def using S(2) by (rule distinct_map_filter)
  have key: "em_get i (si_em s) = Some e \<Longrightarrow> es_id e = i" for i e using keyed by (simp add: entities_keyed_def)
  from owner_scan_fold [OF \<open>distinct (map es_id ?es)\<close>, of "si_em s" _ ?ps "[]"] mem key
  have look: "em_get i m = (case em_get i (si_em s) of None \<Rightarrow> None | Some e \<Rightarrow> Some (if e \<in> set ?es then scanned ?ps e else e))" for i
    using assms(2) by (simp add: owner_scan_def)
  have exact: "em_get i m = map_option (scanned ?ps) (em_get i (si_em s))" for i
    using look [of i] mem key [of i] by (auto simp: scanned_def split: option.split)
  have best: "es_owner e = assign_network_owner e ?ps" if e: "em_get j m = Some e" "es_type e \<noteq> EtPlayer" for e j
  proof -
    obtain e0 where "e = scanned ?ps e0" using e(1) exact [of j] by auto
    then show ?thesis using e(2) by (cases "es_type e0 = EtPlayer") (simp_all add: scanned_def assign_network_owner_def)
  qed
  have idle: "owner_scan_one ?ps e (m, l) = (m, l)" if e: "e \<in> set (snapshot_filtered (\<lambda>e. es_type e \<noteq> EtPlayer) m)" for e l
  proof -
    have "entities_keyed m" using owner_scan_keyed [OF keyed] assms(2) by (metis fst_conv owner_scan_def)
    then have get: "em_get (es_id e) m = Some e" and np: "es_type e \<noteq> EtPlayer"
      using snapshot_entities(1) [of m e] e by (auto simp: snapshot_filtered_def)
    show ?thesis using owner_scan_one_lookup(2) [OF get np] best [OF get np] by simp
  qed
  have "fold (owner_scan_one ?ps) es (m, []) = (m, [])" if "set es \<subseteq> set (snapshot_filtered (\<lambda>e. es_type e \<noteq> EtPlayer) m)" for es
    using that by (induction es) (simp_all add: idle)
  then have stable: "owner_scan (s\<lparr>si_em := m\<rparr>) = (m, [])"
    using positions_scanned [of m ?ps s, OF exact] by (simp add: owner_scan_def)
  have near: "\<exists>c. (p, c) \<in> set ?ps \<and> (\<forall>q \<in> set ?ps. fl_le (distance3d c (es_coords e)) (distance3d (snd q) (es_coords e)))"
    if e: "em_get i m = Some e" "es_type e \<noteq> EtPlayer" "es_owner e = Some p"
      "\<forall>q \<in> set ?ps. \<not> is_nan (distance3d (snd q) (es_coords e))" for e p
  proof -
    have "map_option fst (nearest_player (es_coords e) ?ps) = Some p"
      using best [OF e(1,2)] e(3) by (simp add: assign_network_owner_def)
    then obtain q where "nearest_player (es_coords e) ?ps = Some q" "fst q = p" by auto
    then show ?thesis using nearest_player_least [of "es_coords e" ?ps q] e(4) by (cases q) auto
  qed
  show ?thesis using exact [of i] near stable by blast
qed

definition parked :: state_ingest where
  "parked = \<lparr>si_em = fst (em_run [EmSpawn (ped_at 6 2), EmSpawn demo_entity] (em_new, [])),
     si_player_entities = [(2, 6)], si_last_accepted = [], si_subscribers = [], si_max_speed = Fin False 9\<rparr>"

theorem owner_scan_exact_witness:
  "\<exists>m changed. owner_scan parked = (m, changed) \<and> em_get 5 m = Some (demo_entity\<lparr>es_owner := Some 2\<rparr>) \<and>
     owner_scan (parked\<lparr>si_em := m\<rparr>) = (m, [])"
proof -
  obtain m changed where r: "owner_scan parked = (m, changed)" by force
  have run: "em_run [EmSpawn (ped_at 6 2), EmSpawn demo_entity] (em_new, []) =
      (si_em parked, snd (em_run [EmSpawn (ped_at 6 2), EmSpawn demo_entity] (em_new, [])))"
    by (simp add: parked_def)
  have five: "em_get 5 (si_em parked) = Some demo_entity"
    by (simp add: parked_def em_run_def em_lookup ped_at_def demo_entity_def)
  have six: "em_get 6 (si_em parked) = Some (ped_at 6 2)"
    by (simp add: parked_def em_run_def em_lookup ped_at_def demo_entity_def)
  have "si_player_positions parked = [(2, es_coords (ped_at 6 2))]"
  proof -
    have "si_player_entities parked = [(2, 6)]" by (simp add: parked_def)
    then show ?thesis using six by (simp add: si_player_positions_def map_filter_simps)
  qed
  then have "map_option (scanned (si_player_positions parked)) (em_get 5 (si_em parked)) = Some (demo_entity\<lparr>es_owner := Some 2\<rparr>)"
    by (simp add: five scanned_def assign_network_owner_def) (simp add: demo_entity_def)
  then show ?thesis using owner_scan_exact [OF run r, of 5] r by auto
qed

section \<open>The transfer of a player\<close>

lemma em_get_spawn_all:
  "distinct (map es_id es) \<Longrightarrow>
   em_get i (fold spawn_entity es m) = (case map_of (map (\<lambda>e. (es_id e, e)) es) i of None \<Rightarrow> em_get i m | Some e \<Rightarrow> Some e)"
proof (induction es arbitrary: m)
  case (Cons e es)
  have "map_of (map (\<lambda>e. (es_id e, e)) es) (es_id e) = None"
    using Cons.prems by (simp add: map_of_eq_None_iff image_image)
  then show ?case using Cons.IH [of "spawn_entity e m"] Cons.prems by (auto simp: em_lookup split: option.split)
qed simp

lemma em_get_remove_all:
  "em_get i (fold (\<lambda>e m. snd (em_remove_entity (es_id e) m)) es m) = (if i \<in> es_id ` set es then None else em_get i m)"
  by (induction es arbitrary: m) (auto simp: em_lookup)

text \<open>What belongs to a player in a zone: the entities it owns and its ped.\<close>

definition belongs :: "u32 \<Rightarrow> entity_id \<Rightarrow> state_ingest \<Rightarrow> bool" where
  "belongs source i s \<longleftrightarrow>
     (case em_get i (si_em s) of None \<Rightarrow> False | Some e \<Rightarrow> es_owner e = Some source \<or> player_entity source s = Some i)"

lemma owned_mem:
  assumes "entities_keyed (si_em s)"
  shows "e \<in> set (entities_owned_by source (si_em s)) \<longleftrightarrow> em_get (es_id e) (si_em s) = Some e \<and> es_owner e = Some source"
    and "distinct (map es_id (entities_owned_by source (si_em s)))"
proof -
  show "distinct (map es_id (entities_owned_by source (si_em s)))"
    unfolding entities_owned_by_def using snapshot_entities(2) [OF assms] by (rule distinct_map_filter)
qed (use snapshot_entities(1) [OF assms] in \<open>auto simp: entities_owned_by_def\<close>)

lemma restored_lookup:
  assumes keyed: "entities_keyed (si_em a)"
    and snap: "snap = build_snapshot info script source coords vel a"
  shows "em_get i (si_em (snd (restore_player_state now snap b))) =
    (if belongs source i a then em_get i (si_em a) else em_get i (si_em b))"
proof -
  let ?own = "ps_owned snap"
  have own: "?own = filter (\<lambda>e. Some (es_id e) \<noteq> player_entity source a) (entities_owned_by source (si_em a))"
    by (simp add: snap build_snapshot_def Let_def)
  have d: "distinct (map es_id ?own)" unfolding own using owned_mem(2) [OF keyed] by (rule distinct_map_filter)
  have mem: "e \<in> set ?own \<longleftrightarrow> em_get (es_id e) (si_em a) = Some e \<and> es_owner e = Some source \<and>
      player_entity source a \<noteq> Some (es_id e)" for e
    using owned_mem(1) [OF keyed] by (auto simp: own)
  have key: "em_get j (si_em a) = Some e \<Longrightarrow> es_id e = j" for j e using keyed by (simp add: entities_keyed_def)
  have at: "map_of (map (\<lambda>e. (es_id e, e)) ?own) j = (case em_get j (si_em a) of None \<Rightarrow> None
      | Some e \<Rightarrow> if es_owner e = Some source \<and> player_entity source a \<noteq> Some j then Some e else None)" for j
  proof -
    have dd: "distinct (map fst (map (\<lambda>e. (es_id e, e)) ?own))" using d by (simp add: comp_def)
    have "map_of (map (\<lambda>e. (es_id e, e)) ?own) j = Some e \<longleftrightarrow> es_id e = j \<and> e \<in> set ?own" for e
      unfolding map_of_eq_Some_iff [OF dd] by auto
    then have iff: "map_of (map (\<lambda>e. (es_id e, e)) ?own) j = Some e \<longleftrightarrow>
        em_get j (si_em a) = Some e \<and> es_owner e = Some source \<and> player_entity source a \<noteq> Some j" for e
      using mem [of e] key [of j e] by auto
    show ?thesis
      by (cases "map_of (map (\<lambda>e. (es_id e, e)) ?own) j")
        (use iff in \<open>auto split: option.split\<close>)
  qed
  note all = em_get_spawn_all [OF d, of i "si_em b"]
  have ped: "ps_player_entity snap = Option.bind (player_entity source a) (\<lambda>j. em_get j (si_em a))" "ps_source snap = source"
    by (simp_all add: snap build_snapshot_def Let_def)
  show ?thesis
  proof (cases "ps_player_entity snap")
    case None
    then have "player_entity source a = Some i \<Longrightarrow> em_get i (si_em a) = None" using ped by auto
    then show ?thesis using None all at [of i]
      by (auto simp: restore_player_state_def Let_def belongs_def split: option.splits)
  next
    case (Some e)
    then obtain j where j: "player_entity source a = Some j" "em_get j (si_em a) = Some e" "es_id e = j"
      using ped key by (auto simp: bind_eq_Some_conv)
    then show ?thesis using Some all at [of i]
      by (auto simp: restore_player_state_def Let_def belongs_def em_lookup split: option.splits)
  qed
qed

lemma released_lookup:
  assumes keyed: "entities_keyed (si_em a)"
  shows "em_get i (si_em (release_player_state source a)) = (if belongs source i a then None else em_get i (si_em a))"
proof -
  let ?es = "entities_owned_by source (si_em a)"
  let ?m = "fold (\<lambda>e m. snd (em_remove_entity (es_id e) m)) ?es (si_em a)"
  have key: "em_get j (si_em a) = Some e \<Longrightarrow> es_id e = j" for j e using keyed by (simp add: entities_keyed_def)
  have "i \<in> es_id ` set ?es \<longleftrightarrow> (\<exists>e. em_get i (si_em a) = Some e \<and> es_owner e = Some source)"
  proof
    assume "i \<in> es_id ` set ?es"
    then obtain e where "e \<in> set ?es" "i = es_id e" by blast
    then show "\<exists>e. em_get i (si_em a) = Some e \<and> es_owner e = Some source" using owned_mem(1) [OF keyed] by blast
  next
    assume "\<exists>e. em_get i (si_em a) = Some e \<and> es_owner e = Some source"
    then obtain e where e: "em_get i (si_em a) = Some e" "es_owner e = Some source" by blast
    have "i = es_id e" using key [OF e(1)] by simp
    moreover have "e \<in> set ?es" using e unfolding owned_mem(1) [OF keyed] \<open>i = es_id e\<close> by blast
    ultimately show "i \<in> es_id ` set ?es" by (rule image_eqI)
  qed
  then have m: "em_get i ?m = (if \<exists>e. em_get i (si_em a) = Some e \<and> es_owner e = Some source then None else em_get i (si_em a))"
    by (simp add: em_get_remove_all)
  show ?thesis
    by (cases "map_of (si_player_entities a) source")
      (use m in \<open>auto simp: release_player_state_def si_on_player_dropped_def Let_def em_lookup belongs_def player_entity_def
        split: option.splits if_splits\<close>)
qed

text \<open>C21. A player crosses with everything it owns. The snapshot of a player built in one zone and restored in
  another gives the other zone the player's ped and every entity the player owns, each under its id and with
  its whole state, registers the ped as the player's, and leaves the other entities there alone; the release in
  the first zone then removes exactly these entities and nothing else. So no entity is lost, changed or left
  in both zones, provided the release follows the restoration with no change in between.\<close>

theorem crossing_moves_entities:
  assumes "em_run ops (em_new, []) = (si_em a, w)"
    and "restore_player_state now (build_snapshot info script source coords vel a) b = (ped, b')"
  shows "em_get i (si_em b') = (if belongs source i a then em_get i (si_em a) else em_get i (si_em b)) \<and>
    em_get i (si_em (release_player_state source a)) = (if belongs source i a then None else em_get i (si_em a)) \<and>
    (\<forall>j e. player_entity source a = Some j \<and> em_get j (si_em a) = Some e \<longrightarrow>
       ped = Some j \<and> player_entity source b' = Some j) \<and>
    player_entity source (release_player_state source a) = None"
proof -
  note keyed = em_reached_keyed [OF assms(1)]
  have b': "b' = snd (restore_player_state now (build_snapshot info script source coords vel a) b)"
    "ped = fst (restore_player_state now (build_snapshot info script source coords vel a) b)" using assms(2) by simp_all
  have "ped = Some j \<and> player_entity source b' = Some j"
    if j: "player_entity source a = Some j" "em_get j (si_em a) = Some e" for j e
  proof -
    have "es_id e = j" using keyed j(2) by (simp add: entities_keyed_def)
    then show ?thesis using j
      by (simp add: b' restore_player_state_def build_snapshot_def Let_def) (simp add: player_entity_def update_conv')
  qed
  moreover have "player_entity source (release_player_state source a) = None"
    by (simp add: release_player_state_def si_on_player_dropped_def Let_def player_entity_def delete_conv' split: option.split)
  ultimately show ?thesis using restored_lookup [OF keyed refl] released_lookup [OF keyed] b' by blast
qed

theorem crossing_moves_entities_witness:
  "\<exists>ped b'. restore_player_state 0 (build_snapshot None [] 2 vzero vzero parked) (si_new em_new (Fin False 9)) = (ped, b') \<and>
     em_get 6 (si_em b') = Some (ped_at 6 2) \<and> player_entity 2 b' = Some 6 \<and>
     em_get 6 (si_em (release_player_state 2 parked)) = None \<and> em_get 5 (si_em (release_player_state 2 parked)) = Some demo_entity"
proof -
  obtain ped b' where r: "restore_player_state 0 (build_snapshot None [] 2 vzero vzero parked) (si_new em_new (Fin False 9)) = (ped, b')"
    by force
  have run: "em_run [EmSpawn (ped_at 6 2), EmSpawn demo_entity] (em_new, []) =
      (si_em parked, snd (em_run [EmSpawn (ped_at 6 2), EmSpawn demo_entity] (em_new, [])))"
    by (simp add: parked_def)
  have five: "em_get 5 (si_em parked) = Some demo_entity" and six: "em_get 6 (si_em parked) = Some (ped_at 6 2)"
    by (simp_all add: parked_def em_run_def em_lookup ped_at_def demo_entity_def)
  have pe: "player_entity 2 parked = Some 6" by (simp add: player_entity_def parked_def)
  have "belongs 2 6 parked" "\<not> belongs 2 5 parked"
    using five six pe by (simp_all add: belongs_def) (simp add: demo_entity_def)
  then show ?thesis
    using crossing_moves_entities [OF run r, of 6] crossing_moves_entities [OF run r, of 5] r five six pe by auto
qed

section \<open>The crossing in the published stream\<close>

lemma publish_queued:
  assumes "mirrored (m, w0)" "map_of (em_dirty m) i = Some d"
  shows "map_of (merge_batch (fst (flush_dirty m)) w) i = map_of (em_entities m) i"
proof -
  have d: "distinct (map fst (em_dirty m))" and at: "mirrored_at m w0 j" for j using assms(1) by (auto simp: mirrored_def)
  have own: "de_id e = j" if "(j, e) \<in> set (em_dirty m)" for j e
    using at [of j] d that by (simp add: mirrored_at_def)
  then have keys: "map de_id (map snd (em_dirty m)) = map fst (em_dirty m)" by auto
  have mem: "d \<in> set (map snd (em_dirty m))" using map_of_SomeD [OF assms(2)] by force
  have "distinct (map de_id (map snd (em_dirty m)))" unfolding keys by (rule d)
  from merge_batch_present [OF this mem, of w] show ?thesis
    using at [of i] assms(2) by (simp add: mirrored_at_def flush_dirty_def)
qed

lemma removals_mirrored: "mirrored (m, w) \<Longrightarrow> mirrored (fold (\<lambda>e m. snd (em_remove_entity (es_id e) m)) es m, w)"
proof (induction es arbitrary: m)
  case (Cons e es)
  have "mirrored (em_step (EmRemove (es_id e)) (m, w))" using Cons.prems by (rule em_step_mirrored) simp
  then show ?case using Cons.IH by simp
qed simp

lemma release_mirrored: "mirrored (si_em a, w) \<Longrightarrow> mirrored (si_em (release_player_state source a), w)"
proof -
  assume "mirrored (si_em a, w)"
  then have m: "mirrored (fold (\<lambda>e m. snd (em_remove_entity (es_id e) m)) (entities_owned_by source (si_em a)) (si_em a), w)"
    by (rule removals_mirrored)
  have "mirrored (em_step (EmRemove i) (fold (\<lambda>e m. snd (em_remove_entity (es_id e) m)) (entities_owned_by source (si_em a)) (si_em a), w))" for i
    using m by (rule em_step_mirrored) simp
  then show ?thesis using m
    by (simp add: release_player_state_def si_on_player_dropped_def Let_def split: option.split)
qed

text \<open>
  The gateway merges the batches of all zones into one world by entity id. Ids are kept across a crossing, and
  the first zone's release comes after the activation in the second: when its deletions are published after the
  second zone's creations, they erase the restored entities from the world, although they are live, and an
  entity that does not change stays erased.
\<close>

lemma crossing_erased_from_world:
  assumes "em_run ops (em_new, []) = (si_em a, w0)" "em_dirty (si_em a) = []" "belongs source i a"
    and "restore_player_state now (build_snapshot info script source coords vel a) b = (ped, b')"
  shows "em_get i (si_em b') \<noteq> None \<and>
    map_of (merge_batch (fst (flush_dirty (si_em (release_player_state source a))))
      (merge_batch (fst (flush_dirty (si_em b'))) w)) i = None"
proof -
  note keyed = em_reached_keyed [OF assms(1)]
  have live: "em_get i (si_em a) \<noteq> None" using assms(3) by (auto simp: belongs_def split: option.splits)
  have "mirrored (si_em a, em_entities (si_em a))" using assms(2) by (simp add: mirrored_def mirrored_at_def)
  then have m: "mirrored (si_em (release_player_state source a), em_entities (si_em a))" by (rule release_mirrored)
  have gone: "em_get i (si_em (release_player_state source a)) = None" using released_lookup [OF keyed] assms(3) by simp
  have "mirrored_at (si_em (release_player_state source a)) (em_entities (si_em a)) i" using m by (simp add: mirrored_def)
  then obtain d where "map_of (em_dirty (si_em (release_player_state source a))) i = Some d"
    using gone live by (cases "map_of (em_dirty (si_em (release_player_state source a))) i")
      (auto simp: mirrored_at_def em_get_def)
  from publish_queued [OF m this] gone have "map_of (merge_batch (fst (flush_dirty (si_em (release_player_state source a)))) w') i = None" for w'
    by (simp add: em_get_def)
  moreover have "em_get i (si_em b') \<noteq> None"
    using restored_lookup [OF keyed refl, of i now info script source coords vel b] assms(3,4) live by simp
  ultimately show ?thesis by blast
qed

end
