(* ===== verification/State_Aggregator.thy ===== *)
theory State_Aggregator
  imports State_Ingest
begin

text \<open>
  The per-client snapshots of the gateway, \<open>crates/baston-gateway/src/state_aggregator.rs\<close>, and the client that
  consumes them, \<open>consume_snapshot\<close> of \<open>crates/baston-loadtest/src/client.rs\<close>. A \<open>HashMap\<close> or \<open>DashMap\<close> is an
  association list, a \<open>HashSet\<close> a list; the time of a tick, in milliseconds, is an argument. Cell indices are
  32-bit words that wrap, as a release build does. The latency statistics of the client are not modelled.
\<close>

section \<open>The snapshot of a tick\<close>

definition update_rate_for_distance :: "fl \<Rightarrow> nat" where
  "update_rate_for_distance dist =
     (let d = uint (fl_to_u32 dist) in if d \<le> 99 then 50 else if d \<le> 299 then 100 else 500)"

text \<open>Per known entity, when and what was last sent.\<close>

type_synonym client_tracker = "(entity_id \<times> nat \<times> entity_state) list"

definition changed :: "('v \<Rightarrow> 'v \<Rightarrow> bool) \<Rightarrow> 'v \<Rightarrow> 'v \<Rightarrow> 'v option" where
  "changed eqv old new = (if eqv old new then None else Some new)"

definition build_delta :: "entity_state \<Rightarrow> entity_state \<Rightarrow> entity_delta option" where
  "build_delta baseline current =
     (let d = \<lparr>ed_id = es_id current,
               ed_coords = changed pos_eq (es_coords baseline) (es_coords current),
               ed_heading = changed fl_eq (es_heading baseline) (es_heading current),
               ed_velocity = changed pos_eq (es_velocity baseline) (es_velocity current),
               ed_health = changed fl_eq (es_health baseline) (es_health current),
               ed_armour = changed fl_eq (es_armour baseline) (es_armour current),
               ed_extra = changed extra_eq (es_extra baseline) (es_extra current),
               ed_owner = changed (=) (es_owner baseline) (es_owner current)\<rparr>
      in if ed_coords d = None \<and> ed_heading d = None \<and> ed_velocity d = None \<and> ed_health d = None \<and>
            ed_armour d = None \<and> ed_extra d = None \<and> ed_owner d = None
         then None else Some d)"

definition created_op :: "entity_state \<Rightarrow> entity_op" where
  "created_op st = OpUpsert \<lparr>de_id = es_id st, de_fields = DF_all AND NOT DF_DELETED, de_state = st\<rparr>"

definition in_view :: "u32 \<Rightarrow> pos3 \<Rightarrow> fl \<Rightarrow> entity_state \<Rightarrow> bool" where
  "in_view viewer center radius st \<longleftrightarrow> es_owner st \<noteq> Some viewer \<and> \<not> fl_lt radius (distance3d center (es_coords st))"

type_synonym tick_state = "entity_op list \<times> entity_id list \<times> client_tracker"

definition visit_candidate :: "nat \<Rightarrow> u32 \<Rightarrow> pos3 \<Rightarrow> fl \<Rightarrow> entity_state \<Rightarrow> tick_state \<Rightarrow> tick_state" where
  "visit_candidate now viewer center radius st = (\<lambda>(ops, visible, sent).
     if \<not> in_view viewer center radius st then (ops, visible, sent)
     else let visible' = es_id st # visible in
       case map_of sent (es_id st) of
         Some (last_at, baseline) \<Rightarrow>
           if now - last_at < update_rate_for_distance (distance3d center (es_coords st)) then (ops, visible', sent)
           else (case build_delta baseline st of
                   None \<Rightarrow> (ops, visible', sent)
                 | Some d \<Rightarrow> (ops @ [OpDelta d], visible', AList.update (es_id st) (now, st) sent))
       | None \<Rightarrow> (ops @ [created_op st], visible', AList.update (es_id st) (now, st) sent))"

definition compute_client_ops_from :: "nat \<Rightarrow> entity_state list \<Rightarrow> u32 \<Rightarrow> pos3 \<Rightarrow> fl \<Rightarrow> client_tracker \<Rightarrow>
    entity_op list \<times> client_tracker" where
  "compute_client_ops_from now candidates viewer center radius sent =
     (case fold (visit_candidate now viewer center radius) candidates ([], [], sent) of
        (ops, visible, sent1) \<Rightarrow>
          (ops @ map OpDelete (filter (\<lambda>i. i \<notin> set visible) (map fst sent1)), filter (\<lambda>(i, e). i \<in> set visible) sent1))"

definition compute_client_ops :: "nat \<Rightarrow> world_state \<Rightarrow> u32 \<Rightarrow> pos3 \<Rightarrow> fl \<Rightarrow> client_tracker \<Rightarrow> entity_op list \<times> client_tracker" where
  "compute_client_ops now world viewer center radius sent =
     compute_client_ops_from now (map snd world) viewer center radius sent"

section \<open>The grid\<close>

record spatial_grid =
  sg_cell :: fl
  sg_cells :: "((u32 \<times> u32) \<times> entity_state list) list"

definition grid_key :: "fl \<Rightarrow> pos3 \<Rightarrow> u32 \<times> u32" where
  "grid_key cell c = (case c of (x, y, z) \<Rightarrow>
     (fl_to_i32 (fl_floor F32 (fl_div F32 x cell)), fl_to_i32 (fl_floor F32 (fl_div F32 y cell))))"

definition sg_push :: "fl \<Rightarrow> entity_state \<Rightarrow> ((u32 \<times> u32) \<times> entity_state list) list \<Rightarrow> ((u32 \<times> u32) \<times> entity_state list) list" where
  "sg_push cell st cells =
     (let k = grid_key cell (es_coords st)
      in AList.update k ((case map_of cells k of None \<Rightarrow> [] | Some es \<Rightarrow> es) @ [st]) cells)"

definition sg_build :: "world_state \<Rightarrow> fl \<Rightarrow> spatial_grid" where
  "sg_build world aoi_radius =
     (let cell = fl_mul F32 (fl_max aoi_radius (fl_of_int F32 1)) (fl_lit F32 105 100)
      in \<lparr>sg_cell = cell, sg_cells = fold (sg_push cell) (map snd world) []\<rparr>)"

definition sg_block :: "u32 \<times> u32 \<Rightarrow> (u32 \<times> u32) list" where
  "sg_block c = concat (map (\<lambda>dx. map (\<lambda>dy. (fst c + dx, snd c + dy)) [- 1, 0, 1]) [- 1, 0, 1])"

definition sg_candidates :: "pos3 \<Rightarrow> spatial_grid \<Rightarrow> entity_state list" where
  "sg_candidates center g =
     concat (map (\<lambda>k. case map_of (sg_cells g) k of None \<Rightarrow> [] | Some es \<Rightarrow> es) (sg_block (grid_key (sg_cell g) center)))"

section \<open>Pushing\<close>

datatype push_plane = ControlPlane | SyncPlane

record aggregator =
  ag_world :: world_state
  ag_trackers :: "(u32 \<times> client_tracker) list"
  ag_aoi_radius :: fl

definition is_delta :: "entity_op \<Rightarrow> bool" where
  "is_delta op = (case op of OpDelta _ \<Rightarrow> True | _ \<Rightarrow> False)"

text \<open>The packet of a client, with the plane it is sent on, and the new state.\<close>

definition push_to_client :: "nat \<Rightarrow> u32 \<Rightarrow> u64 \<Rightarrow> spatial_grid \<Rightarrow> state_ingest \<Rightarrow> aggregator \<Rightarrow>
    (push_plane \<times> snapshot_msg) option \<times> aggregator" where
  "push_to_client now source tick grid ingest a =
     (if \<not> is_snapshot_subscriber source ingest then (None, a)
      else case player_entity source ingest of
        None \<Rightarrow> (None, a)
      | Some e \<Rightarrow>
          (case em_get e (si_em ingest) of
             None \<Rightarrow> (None, a)
           | Some st \<Rightarrow>
               let center = es_coords st;
                   tracker = (case map_of (ag_trackers a) source of None \<Rightarrow> [] | Some t \<Rightarrow> t);
                   (ops, tracker') = compute_client_ops_from now (sg_candidates center grid) source center (ag_aoi_radius a) tracker;
                   a' = a\<lparr>ag_trackers := AList.update source tracker' (ag_trackers a)\<rparr>
               in if ops = [] then (None, a')
                  else (Some (if \<exists>op \<in> set ops. \<not> is_delta op then ControlPlane else SyncPlane,
                          \<lparr>sm_tick = tick, sm_ops = ops\<rparr>), a')))"

fun push_all :: "nat \<Rightarrow> u64 \<Rightarrow> spatial_grid \<Rightarrow> state_ingest \<Rightarrow> u32 list \<Rightarrow> aggregator \<Rightarrow>
    (u32 \<times> push_plane \<times> snapshot_msg) list \<times> aggregator" where
  "push_all now tick grid ingest [] a = ([], a)"
| "push_all now tick grid ingest (source # rest) a =
     (case push_to_client now source tick grid ingest a of
        (p, a1) \<Rightarrow> (case push_all now tick grid ingest rest a1 of
          (ps, a2) \<Rightarrow> ((case p of None \<Rightarrow> [] | Some x \<Rightarrow> [(source, x)]) @ ps, a2)))"

text \<open>One round of the push loop over the connected sources.\<close>

definition push_round :: "nat \<Rightarrow> u64 \<Rightarrow> u32 list \<Rightarrow> state_ingest \<Rightarrow> aggregator \<Rightarrow>
    (u32 \<times> push_plane \<times> snapshot_msg) list \<times> aggregator" where
  "push_round now tick sources ingest a =
     (case push_all now tick (sg_build (ag_world a) (ag_aoi_radius a)) ingest sources a of
        (ps, a1) \<Rightarrow> (ps, a1\<lparr>ag_trackers := filter (\<lambda>(s, t). s \<in> set sources) (ag_trackers a1)\<rparr>))"

section \<open>The client\<close>

record snapshot_client =
  lc_known :: "entity_id list"
  lc_deleted :: "entity_id list"
  lc_stamps :: "(entity_id \<times> fl \<times> fl) list"
  lc_desyncs :: nat

definition lc_new :: snapshot_client where
  "lc_new = \<lparr>lc_known = [], lc_deleted = [], lc_stamps = [], lc_desyncs = 0\<rparr>"

fun consume_op :: "entity_op \<Rightarrow> snapshot_client \<Rightarrow> snapshot_client" where
  "consume_op (OpUpsert dirty) c =
     (let i = de_id dirty; is_create = has_flag (de_fields dirty) DF_CREATED in
      if \<not> is_create \<and> i \<in> set (lc_deleted c) then c\<lparr>lc_desyncs := lc_desyncs c + 1\<rparr>
      else c\<lparr>lc_deleted := (if is_create then removeAll i (lc_deleted c) else lc_deleted c),
             lc_known := List.insert i (lc_known c),
             lc_stamps := AList.update i (es_health (de_state dirty), es_armour (de_state dirty)) (lc_stamps c)\<rparr>)"
| "consume_op (OpDelta d) c =
     (let i = ed_id d in
      if i \<in> set (lc_deleted c) \<or> i \<notin> set (lc_known c) then c\<lparr>lc_desyncs := lc_desyncs c + 1\<rparr>
      else let (h, a) = (case map_of (lc_stamps c) i of None \<Rightarrow> (Fin False 0, Fin False 0) | Some ha \<Rightarrow> ha)
           in c\<lparr>lc_stamps := AList.update i (case ed_health d of Some x \<Rightarrow> x | None \<Rightarrow> h,
                  case ed_armour d of Some x \<Rightarrow> x | None \<Rightarrow> a) (lc_stamps c)\<rparr>)"
| "consume_op (OpDelete i) c =
     c\<lparr>lc_desyncs := (if i \<in> set (lc_known c) then lc_desyncs c else lc_desyncs c + 1),
       lc_known := removeAll i (lc_known c), lc_stamps := AList.delete i (lc_stamps c),
       lc_deleted := List.insert i (lc_deleted c)\<rparr>"

definition consume_snapshot :: "entity_op list \<Rightarrow> snapshot_client \<Rightarrow> snapshot_client" where
  "consume_snapshot ops c = fold consume_op ops c"

section \<open>Values up to float equality\<close>

definition fl_sim :: "fl \<Rightarrow> fl \<Rightarrow> bool" where "fl_sim x y \<longleftrightarrow> x = y \<or> fl_eq x y"
definition pos_sim :: "pos3 \<Rightarrow> pos3 \<Rightarrow> bool" where "pos_sim a b \<longleftrightarrow> a = b \<or> pos_eq a b"

text \<open>Two states that differ in no field a delta carries.\<close>

definition state_sim :: "entity_state \<Rightarrow> entity_state \<Rightarrow> bool" where
  "state_sim a b \<longleftrightarrow> pos_sim (es_coords a) (es_coords b) \<and> fl_sim (es_heading a) (es_heading b) \<and>
     pos_sim (es_velocity a) (es_velocity b) \<and> fl_sim (es_health a) (es_health b) \<and> fl_sim (es_armour a) (es_armour b) \<and>
     (es_extra a = es_extra b \<or> extra_eq (es_extra a) (es_extra b)) \<and> es_owner a = es_owner b"

lemma fl_sim_refl [simp]: "fl_sim x x"
  by (simp add: fl_sim_def)

lemma fl_sim_trans: "fl_sim x y \<Longrightarrow> fl_sim y z \<Longrightarrow> fl_sim x z"
  by (auto simp: fl_sim_def fl_eq_def intro: fl_le_trans)

lemma state_sim_refl [simp]: "state_sim a a"
  by (simp add: state_sim_def pos_sim_def)

lemma build_delta_None: "build_delta a b = None \<Longrightarrow> state_sim a b"
  by (auto simp: build_delta_def Let_def changed_def state_sim_def pos_sim_def fl_sim_def split: if_splits)

lemma build_delta_Some:
  "build_delta a b = Some d \<Longrightarrow> ed_id d = es_id b \<and> ed_health d = changed fl_eq (es_health a) (es_health b) \<and>
     ed_armour d = changed fl_eq (es_armour a) (es_armour b)"
  by (auto simp: build_delta_def Let_def split: if_splits)

text \<open>What a receiver has after a delta is what the sender had.\<close>

lemma changed_sim:
  assumes "fl_sim h (f a)"
  shows "fl_sim (case changed fl_eq (f a) (f b) of Some x \<Rightarrow> x | None \<Rightarrow> h) (f b)"
  using assms by (auto simp: changed_def fl_sim_def fl_eq_def intro: fl_le_trans)

section \<open>Tracker and client in step\<close>

definition in_step :: "client_tracker \<Rightarrow> snapshot_client \<Rightarrow> bool" where
  "in_step sent c \<longleftrightarrow> lc_desyncs c = 0 \<and> set (lc_known c) = dom (map_of sent) \<and> set (lc_known c) \<inter> set (lc_deleted c) = {} \<and>
     (\<forall>i t st. map_of sent i = Some (t, st) \<longrightarrow>
       (\<exists>h a. map_of (lc_stamps c) i = Some (h, a) \<and> fl_sim h (es_health st) \<and> fl_sim a (es_armour st)))"

lemma in_stepD:
  assumes "in_step sent c" "map_of sent i = Some (t, st)"
  shows "i \<in> set (lc_known c)" "i \<notin> set (lc_deleted c)"
    and "\<exists>h a. map_of (lc_stamps c) i = Some (h, a) \<and> fl_sim h (es_health st) \<and> fl_sim a (es_armour st)"
  using assms by (auto simp: in_step_def dom_def)

lemma consume_created:
  assumes "in_step sent c"
  shows "in_step (AList.update (es_id st) (now, st) sent) (consume_op (created_op st) c)"
proof -
  have f: "has_flag (DF_all AND NOT DF_DELETED) DF_CREATED" by (simp add: has_flag_def DF_all_def DF_DELETED_def DF_CREATED_def)
  show ?thesis using assms by (auto simp: in_step_def created_op_def Let_def f update_conv' split: if_splits)
qed

lemma consume_delta:
  assumes "in_step sent c" "map_of sent (es_id st) = Some (t, b)" "build_delta b st = Some d"
  shows "in_step (AList.update (es_id st) (now, st) sent) (consume_op (OpDelta d) c)"
proof -
  obtain h a where ha: "map_of (lc_stamps c) (es_id st) = Some (h, a)" "fl_sim h (es_health b)" "fl_sim a (es_armour b)"
    using in_stepD(3) [OF assms(1,2)] by blast
  note d = build_delta_Some [OF assms(3)] and k = in_stepD(1,2) [OF assms(1,2)]
  have "es_id st \<in> dom (map_of sent)" using assms(2) by blast
  then have dom: "insert (es_id st) (dom (map_of sent)) = dom (map_of sent)" by blast
  let ?h = "case ed_health d of Some x \<Rightarrow> x | None \<Rightarrow> h" and ?a = "case ed_armour d of Some x \<Rightarrow> x | None \<Rightarrow> a"
  have sim: "fl_sim ?h (es_health st)" "fl_sim ?a (es_armour st)"
    using changed_sim [where f = es_health, OF ha(2), of st] changed_sim [where f = es_armour, OF ha(3), of st] d by simp_all
  have c': "consume_op (OpDelta d) c = c\<lparr>lc_stamps := AList.update (es_id st) (?h, ?a) (lc_stamps c)\<rparr>"
    using k d ha(1) by (simp add: Let_def)
  show ?thesis unfolding c' using assms(1) sim dom by (auto simp: in_step_def update_conv' split: if_splits)
qed

lemma visit_in_step:
  assumes "in_step sent (consume_snapshot ops c)" "visit_candidate now v ctr r st (ops, vis, sent) = (ops', vis', sent')"
  shows "in_step sent' (consume_snapshot ops' c)"
    and "set vis' = set vis \<union> (if in_view v ctr r st then {es_id st} else {})"
    and "dom (map_of sent') = dom (map_of sent) \<union> (if in_view v ctr r st then {es_id st} else {})"
proof -
  have snoc: "consume_snapshot (ops @ [x]) c = consume_op x (consume_snapshot ops c)" for x by (simp add: consume_snapshot_def)
  show "in_step sent' (consume_snapshot ops' c)"
    using assms consume_created [OF assms(1)] consume_delta [OF assms(1)]
    by (auto simp: visit_candidate_def Let_def snoc split: if_splits option.splits)
  show "set vis' = set vis \<union> (if in_view v ctr r st then {es_id st} else {})"
    using assms(2) by (auto simp: visit_candidate_def Let_def split: if_splits option.splits)
  show "dom (map_of sent') = dom (map_of sent) \<union> (if in_view v ctr r st then {es_id st} else {})"
    using assms(2) by (auto simp: visit_candidate_def Let_def update_conv' split: if_splits option.splits)
qed

lemma fold_candidates:
  assumes "in_step sent (consume_snapshot ops c)"
    and "fold (visit_candidate now v ctr r) sts (ops, vis, sent) = (ops', vis', sent')"
  shows "in_step sent' (consume_snapshot ops' c) \<and> set vis' = set vis \<union> es_id ` {st \<in> set sts. in_view v ctr r st} \<and>
    dom (map_of sent') = dom (map_of sent) \<union> es_id ` {st \<in> set sts. in_view v ctr r st}"
  using assms
proof (induction sts arbitrary: ops vis sent)
  case (Cons st sts)
  obtain o1 v1 s1 where st: "visit_candidate now v ctr r st (ops, vis, sent) = (o1, v1, s1)" by (metis prod_cases3)
  note V = visit_in_step [OF Cons.prems(1) st]
  have "es_id ` {x \<in> set (st # sts). in_view v ctr r x} =
      (if in_view v ctr r st then {es_id st} else {}) \<union> es_id ` {x \<in> set sts. in_view v ctr r x}" by auto
  then show ?case using Cons.IH [OF V(1)] Cons.prems(2) V(2,3) st by (simp add: Un_assoc)
qed simp

lemma visit_distinct:
  "distinct (map fst sent) \<Longrightarrow> distinct (map fst (snd (snd (visit_candidate now v ctr r st (ops, vis, sent)))))"
  by (auto simp: visit_candidate_def Let_def distinct_update split: option.split)

lemma fold_visit_distinct:
  "distinct (map fst (snd (snd s))) \<Longrightarrow> distinct (map fst (snd (snd (fold (visit_candidate now v ctr r) sts s))))"
proof (induction sts arbitrary: s)
  case (Cons st sts)
  obtain ops vis sent where "s = (ops, vis, sent)" by (metis prod_cases3)
  then show ?case using Cons visit_distinct [of sent now v ctr r st ops vis] by simp
qed simp

lemma map_of_filter_keys: "map_of (filter (\<lambda>(i, e). P i) xs) i = (if P i then map_of xs i else None)"
  by (induction xs) auto

lemma consume_deletes:
  assumes "in_step sent c" "distinct (map fst sent)"
  shows "in_step (filter (\<lambda>(i, e). i \<in> V) sent) (consume_snapshot (map OpDelete (filter (\<lambda>i. i \<notin> V) (map fst sent))) c)"
proof -
  have "set gone \<subseteq> dom (map_of sent) \<Longrightarrow> distinct gone \<Longrightarrow>
      in_step (filter (\<lambda>(i, e). i \<notin> set gone) sent) (consume_snapshot (map OpDelete gone) c)" for gone
  proof (induction gone rule: rev_induct)
    case (snoc i gone)
    let ?sent = "filter (\<lambda>(i, e). i \<notin> set gone) sent"
    have step: "in_step ?sent (consume_snapshot (map OpDelete gone) c)" using snoc by simp
    have "i \<in> dom (map_of ?sent)" using snoc.prems by (auto simp: map_of_filter_keys)
    then have known: "i \<in> set (lc_known (consume_snapshot (map OpDelete gone) c))" using step by (simp add: in_step_def)
    have look: "map_of (filter (\<lambda>(j, e). j \<notin> set (gone @ [i])) sent) j = (if j = i then None else map_of ?sent j)" for j
      by (simp add: map_of_filter_keys)
    have "consume_snapshot (map OpDelete (gone @ [i])) c = consume_op (OpDelete i) (consume_snapshot (map OpDelete gone) c)"
      by (simp add: consume_snapshot_def)
    then show ?case using step known unfolding in_step_def look
      by (auto simp: dom_def look delete_conv' split: if_splits)
  qed (simp add: assms(1) consume_snapshot_def case_prod_beta)
  from this [of "filter (\<lambda>i. i \<notin> V) (map fst sent)"]
  have "in_step (filter (\<lambda>(i, e). i \<notin> set (filter (\<lambda>i. i \<notin> V) (map fst sent))) sent)
      (consume_snapshot (map OpDelete (filter (\<lambda>i. i \<notin> V) (map fst sent))) c)"
    using assms(2) by (auto simp: dom_map_of_conv_image_fst)
  moreover have "filter (\<lambda>(i, e). i \<notin> set (filter (\<lambda>i. i \<notin> V) (map fst sent))) sent = filter (\<lambda>(i, e). i \<in> V) sent"
    by (rule filter_cong) force+
  ultimately show ?thesis by (simp only:)
qed

lemma tick_in_step:
  assumes "in_step sent c" "distinct (map fst sent)"
    and "compute_client_ops_from now cands v ctr r sent = (ops, sent')"
  shows "in_step sent' (consume_snapshot ops c) \<and> distinct (map fst sent') \<and>
    dom (map_of sent') = es_id ` {st \<in> set cands. in_view v ctr r st}"
proof -
  obtain o1 vis s1 where f: "fold (visit_candidate now v ctr r) cands ([], [], sent) = (o1, vis, s1)" by (metis prod_cases3)
  have "in_step sent (consume_snapshot [] c)" using assms(1) by (simp add: consume_snapshot_def)
  note F = fold_candidates [OF this f]
  have d: "distinct (map fst s1)" using fold_visit_distinct [of "([], [], sent)"] assms(2) f by (metis snd_conv)
  have ops: "ops = o1 @ map OpDelete (filter (\<lambda>i. i \<notin> set vis) (map fst s1))" and s': "sent' = filter (\<lambda>(i, e). i \<in> set vis) s1"
    using assms(3) f by (simp_all add: compute_client_ops_from_def)
  have "in_step sent' (consume_snapshot ops c)"
    using consume_deletes [OF _ d, of _ "set vis"] F unfolding s' ops by (simp add: consume_snapshot_def)
  moreover have "distinct (map fst sent')" unfolding s' using d by (rule distinct_map_filter)
  moreover have "dom (map_of sent') = es_id ` {st \<in> set cands. in_view v ctr r st}"
  proof -
    have "dom (map_of sent') = dom (map_of s1) \<inter> set vis" by (auto simp: s' map_of_filter_keys split: if_splits)
    then show ?thesis using F by auto
  qed
  ultimately show ?thesis by blast
qed

section \<open>Fresh states\<close>

lemma visit_other: "i \<noteq> es_id st \<Longrightarrow> map_of (snd (snd (visit_candidate now v ctr r st (ops, vis, sent)))) i = map_of sent i"
  by (auto simp: visit_candidate_def Let_def update_conv' split: option.split)

lemma fold_visit_other:
  "i \<notin> es_id ` set sts \<Longrightarrow> map_of (snd (snd (fold (visit_candidate now v ctr r) sts s))) i = map_of (snd (snd s)) i"
proof (induction sts arbitrary: s)
  case (Cons st sts)
  obtain ops vis sent where "s = (ops, vis, sent)" by (metis prod_cases3)
  then show ?case using Cons visit_other [of i st now v ctr r ops vis sent] by simp
qed simp

definition up_to_date :: "nat \<Rightarrow> pos3 \<Rightarrow> entity_state \<Rightarrow> client_tracker \<Rightarrow> bool" where
  "up_to_date now ctr st sent \<longleftrightarrow> (\<exists>t b. map_of sent (es_id st) = Some (t, b) \<and>
     (state_sim b st \<or> now - t < update_rate_for_distance (distance3d ctr (es_coords st))))"

lemma visit_up_to_date:
  assumes "in_view v ctr r st"
  shows "up_to_date now ctr st (snd (snd (visit_candidate now v ctr r st (ops, vis, sent))))"
  using assms build_delta_None
  by (auto simp: visit_candidate_def Let_def up_to_date_def update_conv' split: option.split)

lemma fold_up_to_date:
  assumes "distinct (map es_id sts)" "st \<in> set sts" "in_view v ctr r st"
  shows "up_to_date now ctr st (snd (snd (fold (visit_candidate now v ctr r) sts s)))"
proof -
  obtain xs ys where sts: "sts = xs @ st # ys" using assms(2) by (meson split_list)
  then have new: "es_id st \<notin> es_id ` set ys" using assms(1) by simp
  obtain ops vis sent where s: "fold (visit_candidate now v ctr r) xs s = (ops, vis, sent)" by (metis prod_cases3)
  show ?thesis
    using visit_up_to_date [OF assms(3), of now ops vis sent] fold_visit_other [OF new, of now v ctr r]
    by (simp add: sts s up_to_date_def)
qed

section \<open>The client's view\<close>

text \<open>One tick for a client: the time, the candidates, the viewpoint and the radius. The client applies the
  operations it is sent.\<close>

type_synonym view_tick = "nat \<times> entity_state list \<times> pos3 \<times> fl"

definition tick_both :: "u32 \<Rightarrow> view_tick \<Rightarrow> client_tracker \<times> snapshot_client \<Rightarrow> client_tracker \<times> snapshot_client" where
  "tick_both viewer = (\<lambda>(now, cands, center, radius) (sent, c).
     case compute_client_ops_from now cands viewer center radius sent of (ops, sent') \<Rightarrow> (sent', consume_snapshot ops c))"

lemma ticks_in_step:
  "in_step sent c \<Longrightarrow> distinct (map fst sent) \<Longrightarrow> fold (tick_both v) ticks (sent, c) = (sent', c') \<Longrightarrow>
   in_step sent' c' \<and> distinct (map fst sent')"
proof (induction ticks arbitrary: sent c)
  case (Cons t ticks)
  obtain now cands ctr r where t: "t = (now, cands, ctr, r)" by (metis prod_cases4)
  obtain ops s1 where o: "compute_client_ops_from now cands v ctr r sent = (ops, s1)" by force
  note T = tick_in_step [OF Cons.prems(1,2) o]
  have "fold (tick_both v) ticks (s1, consume_snapshot ops c) = (sent', c')"
    using Cons.prems(3) by (simp add: t tick_both_def o)
  then show ?case using Cons.IH T by blast
qed simp

text \<open>
  A packet of deltas goes over the unreliable plane, and the tracker takes its states for delivered. When it is
  lost nothing sends them again: as long as the entity does not change there is nothing to send.
\<close>

lemma lost_delta_not_resent:
  assumes "map_of sent (es_id st) = Some (t, st)" "pos_eq (es_coords st) (es_coords st)" "fl_eq (es_heading st) (es_heading st)"
    "pos_eq (es_velocity st) (es_velocity st)" "fl_eq (es_health st) (es_health st)" "fl_eq (es_armour st) (es_armour st)"
    "extra_eq (es_extra st) (es_extra st)"
  shows "fst (visit_candidate now v ctr r st (ops, vis, sent)) = ops \<and> snd (snd (visit_candidate now v ctr r st (ops, vis, sent))) = sent"
proof -
  have "build_delta st st = None" using assms(2-) by (simp add: build_delta_def changed_def Let_def)
  then show ?thesis using assms(1) by (auto simp: visit_candidate_def Let_def)
qed

text \<open>C17. The gateway's tracker and the snapshot client stay in step. Over any sequence of ticks, whatever the
  world, the viewpoint and the times, a client that applies every snapshot counts no desynchronisation: no
  delta or deletion of an entity it does not know. After a tick it knows exactly the candidates in its area of
  interest that it does not own itself, the health and armour it holds are those the tracker believes it has,
  and what the tracker holds for an entity is its current state unless the entity's update interval is still
  running.\<close>

theorem snapshots_keep_client_in_step:
  assumes "fold (tick_both viewer) ticks ([], lc_new) = (sent, c)"
    and "tick_both viewer (now, cands, center, radius) (sent, c) = (sent', c')" and "distinct (map es_id cands)"
  shows "lc_desyncs c' = 0 \<and> set (lc_known c') = es_id ` {st \<in> set cands. in_view viewer center radius st} \<and>
    (\<forall>st \<in> set cands. in_view viewer center radius st \<longrightarrow>
      (\<exists>t b h a. map_of sent' (es_id st) = Some (t, b) \<and> map_of (lc_stamps c') (es_id st) = Some (h, a) \<and>
        fl_sim h (es_health b) \<and> fl_sim a (es_armour b) \<and>
        (state_sim b st \<or> now - t < update_rate_for_distance (distance3d center (es_coords st)))))"
proof -
  have "in_step [] lc_new" by (simp add: in_step_def lc_new_def)
  from ticks_in_step [OF this _ assms(1)] have S: "in_step sent c" "distinct (map fst sent)" by simp_all
  obtain ops where o: "compute_client_ops_from now cands viewer center radius sent = (ops, sent')" "c' = consume_snapshot ops c"
    using assms(2) by (auto simp: tick_both_def split: prod.splits)
  note T = tick_in_step [OF S o(1)]
  have step: "in_step sent' c'" and dom: "dom (map_of sent') = es_id ` {st \<in> set cands. in_view viewer center radius st}"
    using T o(2) by simp_all
  have fresh: "up_to_date now center st sent'" if st: "st \<in> set cands" "in_view viewer center radius st" for st
  proof -
    obtain o1 vis s1 where f: "fold (visit_candidate now viewer center radius) cands ([], [], sent) = (o1, vis, s1)" by (metis prod_cases3)
    have s': "sent' = filter (\<lambda>(i, e). i \<in> set vis) s1" using o(1) f by (simp add: compute_client_ops_from_def)
    have "es_id st \<in> dom (map_of sent')" using dom st by blast
    then have "es_id st \<in> set vis" by (auto simp: s' map_of_filter_keys split: if_splits)
    then have "map_of sent' (es_id st) = map_of s1 (es_id st)" by (simp add: s' map_of_filter_keys)
    moreover have "up_to_date now center st s1" using fold_up_to_date [OF assms(3) st, of now "([], [], sent)"] f by simp
    ultimately show ?thesis by (simp add: up_to_date_def)
  qed
  have "\<exists>t b h a. map_of sent' (es_id st) = Some (t, b) \<and> map_of (lc_stamps c') (es_id st) = Some (h, a) \<and>
        fl_sim h (es_health b) \<and> fl_sim a (es_armour b) \<and>
        (state_sim b st \<or> now - t < update_rate_for_distance (distance3d center (es_coords st)))"
    if "st \<in> set cands" "in_view viewer center radius st" for st
    using fresh [OF that] in_stepD(3) [OF step] unfolding up_to_date_def by metis
  moreover have "lc_desyncs c' = 0" "set (lc_known c') = es_id ` {st \<in> set cands. in_view viewer center radius st}"
    using step dom by (simp_all add: in_step_def)
  ultimately show ?thesis by blast
qed

theorem snapshots_keep_client_in_step_witness:
  "\<exists>sent c sent' c'. fold (tick_both 1) [(0, [demo_entity], vzero, Inf False)] ([], lc_new) = (sent, c) \<and>
     tick_both 1 (50, [ped_at 6 2], vzero, Inf False) (sent, c) = (sent', c') \<and> lc_desyncs c' = 0 \<and> set (lc_known c') = {6}"
proof -
  obtain sent c where a: "fold (tick_both 1) [(0, [demo_entity], vzero, Inf False)] ([], lc_new) = (sent, c)" by force
  obtain sent' c' where b: "tick_both 1 (50, [ped_at 6 2], vzero, Inf False) (sent, c) = (sent', c')" by force
  have inf: "\<not> fl_lt (Inf False) x" for x by (cases x) simp_all
  have v: "in_view 1 vzero (Inf False) (ped_at 6 2)" by (simp add: in_view_def inf ped_at_def)
  have "{st \<in> set [ped_at 6 2]. in_view 1 vzero (Inf False) st} = {ped_at 6 2}" using v by auto
  then show ?thesis using snapshots_keep_client_in_step [OF a b] a b by (auto simp: ped_at_def)
qed

end
