(* ===== verification/Topo_Sort.thy ===== *)
theory Topo_Sort
  imports "HOL-Library.AList" "HOL-Library.Char_ord" "HOL-Library.List_Lexorder" "HOL-Library.Multiset"
begin

text \<open>
  The start order of resources, \<open>crates/baston-zone/src/resource_loader/topo.rs\<close>: Kahn's algorithm over the
  dependency map. A \<open>HashMap\<close> is an association list in its iteration order. The loop is a total function: its
  termination is proved from the sum of the waiting counts, and a panic (the missing entry of \<open>expect\<close>, the
  underflow of a count) is \<open>None\<close>.
\<close>

section \<open>The sort\<close>

type_synonym dep_graph = "(string \<times> string list) list"

datatype zone_error = UnknownDependency string string | CyclicDependency "string list"

definition unknown_dependency :: "dep_graph \<Rightarrow> (string \<times> string) option" where
  "unknown_dependency resources =
     (case concat (map (\<lambda>(name, deps). map (Pair name) (filter (\<lambda>dep. map_of resources dep = None) deps)) resources) of
        [] \<Rightarrow> None | e # _ \<Rightarrow> Some e)"

definition count_dependency :: "string \<Rightarrow> string \<Rightarrow> (string \<times> nat) list \<times> (string \<times> string list) list \<Rightarrow>
    (string \<times> nat) list \<times> (string \<times> string list) list" where
  "count_dependency name dep = (\<lambda>(in_degree, dependents).
     (AList.map_default name 1 Suc in_degree, AList.map_default dep [name] (\<lambda>l. l @ [name]) dependents))"

definition count_resource :: "string \<times> string list \<Rightarrow> (string \<times> nat) list \<times> (string \<times> string list) list \<Rightarrow>
    (string \<times> nat) list \<times> (string \<times> string list) list" where
  "count_resource = (\<lambda>(name, deps) (in_degree, dependents).
     fold (count_dependency name) deps (AList.map_default name 0 id in_degree, dependents))"

definition dependency_counts :: "dep_graph \<Rightarrow> (string \<times> nat) list \<times> (string \<times> string list) list" where
  "dependency_counts resources = fold count_resource resources ([], [])"

text \<open>The dependents of a started resource: the new counts and the resources that became ready.\<close>

fun relax :: "string list \<Rightarrow> (string \<times> nat) list \<Rightarrow> string list \<Rightarrow> ((string \<times> nat) list \<times> string list) option" where
  "relax [] in_degree newly_ready = Some (in_degree, newly_ready)"
| "relax (dependent # rest) in_degree newly_ready =
     (case map_of in_degree dependent of
        None \<Rightarrow> None
      | Some 0 \<Rightarrow> None
      | Some (Suc deg) \<Rightarrow>
          relax rest (AList.update dependent deg in_degree) (if deg = 0 then newly_ready @ [dependent] else newly_ready))"

definition degree_sum :: "(string \<times> nat) list \<Rightarrow> nat" where
  "degree_sum in_degree = sum_list (map snd in_degree)"

lemma degree_sum_update: "map_of d k = Some (Suc n) \<Longrightarrow> Suc (degree_sum (AList.update k n d)) = degree_sum d"
  by (induction d) (auto simp: degree_sum_def)

lemma relax_sum:
  "relax ds d new = Some (d', new') \<Longrightarrow> degree_sum d' + length new' \<le> degree_sum d + length new"
  by (induction ds d new rule: relax.induct)
    (auto split: option.splits nat.splits if_splits dest!: degree_sum_update)

function (sequential) topo_loop :: "(string \<times> string list) list \<Rightarrow> (string \<times> nat) list \<Rightarrow> string list \<Rightarrow> string list \<Rightarrow>
    ((string \<times> nat) list \<times> string list) option" where
  "topo_loop dependents in_degree [] ordered = Some (in_degree, ordered)"
| "topo_loop dependents in_degree (name # ready) ordered =
     (case relax (case map_of dependents name of None \<Rightarrow> [] | Some ds \<Rightarrow> ds) in_degree [] of
        None \<Rightarrow> None
      | Some (in_degree', newly_ready) \<Rightarrow> topo_loop dependents in_degree' (ready @ sort newly_ready) (ordered @ [name]))"
  by pat_completeness auto
termination
  by (relation "measure (\<lambda>(dts, d, ready, ordered). degree_sum d + length ready)") (auto dest: relax_sum)

definition topo_sort :: "dep_graph \<Rightarrow> (zone_error + string list) option" where
  "topo_sort resources =
     (case unknown_dependency resources of
        Some (name, dep) \<Rightarrow> Some (Inl (UnknownDependency name dep))
      | None \<Rightarrow>
          (case dependency_counts resources of
             (in_degree, dependents) \<Rightarrow>
               (case topo_loop dependents in_degree (sort (map fst (filter (\<lambda>(n, deg). deg = 0) in_degree))) [] of
                  None \<Rightarrow> None
                | Some (in_degree', ordered) \<Rightarrow>
                    if length ordered \<noteq> length resources
                    then Some (Inl (CyclicDependency (sort (map fst (filter (\<lambda>(n, deg). 0 < deg) in_degree')))))
                    else Some (Inr ordered))))"

section \<open>Counts\<close>

lemma map_of_map_default:
  "map_of (AList.map_default k v f xs) = (map_of xs)(k \<mapsto> (case map_of xs k of None \<Rightarrow> v | Some x \<Rightarrow> f x))"
  by (induction xs) (auto simp: fun_eq_iff)

lemma distinct_map_default: "distinct (map fst xs) \<Longrightarrow> distinct (map fst (AList.map_default k v f xs))"
proof (induction xs)
  case (Cons x xs)
  have "fst ` set (AList.map_default k v f xs) = insert k (fst ` set xs)"
  proof -
    have "dom (map_of (AList.map_default k v f xs)) = insert k (dom (map_of xs))" by (auto simp: map_of_map_default)
    then show ?thesis by (simp add: dom_map_of_conv_image_fst)
  qed
  then show ?case using Cons by (cases x) auto
qed simp

text \<open>Who waits on whom, as the lookups of the two tables.\<close>

definition waits :: "(string \<times> string list) list \<Rightarrow> string \<Rightarrow> string list" where
  "waits dependents d = (case map_of dependents d of None \<Rightarrow> [] | Some ds \<Rightarrow> ds)"

lemma count_deps:
  assumes "fold (count_dependency name) deps (d0, t0) = (d, t)" "map_of d0 name = Some k"
  shows "map_of d = (map_of d0)(name \<mapsto> k + length deps)"
    and "count_list (waits t x) n = count_list (waits t0 x) n + (if n = name then count_list deps x else 0)"
    and "distinct (map fst d0) \<Longrightarrow> distinct (map fst d)"
proof -
  have "map_of d = (map_of d0)(name \<mapsto> k + length deps) \<and>
      count_list (waits t x) n = count_list (waits t0 x) n + (if n = name then count_list deps x else 0) \<and>
      (distinct (map fst d0) \<longrightarrow> distinct (map fst d))"
    using assms
  proof (induction deps arbitrary: d0 t0 k)
    case (Cons a deps)
    let ?d = "AList.map_default name 1 Suc d0" and ?t = "AList.map_default a [name] (\<lambda>l. l @ [name]) t0"
    have d: "map_of ?d = (map_of d0)(name \<mapsto> Suc k)" using Cons.prems(2) by (simp add: map_of_map_default)
    have t: "waits ?t y = waits t0 y @ (if y = a then [name] else [])" for y
      by (simp add: waits_def map_of_map_default split: option.split)
    have "fold (count_dependency name) deps (?d, ?t) = (d, t)" using Cons.prems(1) by (simp add: count_dependency_def [of name a])
    moreover have "map_of ?d name = Some (Suc k)" unfolding d by simp
    ultimately have IH: "map_of d = (map_of ?d)(name \<mapsto> Suc k + length deps)"
      "count_list (waits t x) n = count_list (waits ?t x) n + (if n = name then count_list deps x else 0)"
      "distinct (map fst ?d) \<longrightarrow> distinct (map fst d)" using Cons.IH by blast+
    have "map_of d = (map_of d0)(name \<mapsto> k + length (a # deps))" unfolding IH(1) d by simp
    moreover have "count_list (waits t x) n = count_list (waits t0 x) n + (if n = name then count_list (a # deps) x else 0)"
      unfolding IH(2) t by (cases "x = a"; cases "n = name") simp_all
    moreover have "distinct (map fst d0) \<longrightarrow> distinct (map fst d)"
    proof
      assume "distinct (map fst d0)"
      then have "distinct (map fst ?d)" by (rule distinct_map_default)
      with IH(3) show "distinct (map fst d)" by (rule mp)
    qed
    ultimately show ?case by (intro conjI)
  qed (auto simp: fun_eq_iff)
  then show "map_of d = (map_of d0)(name \<mapsto> k + length deps)"
    and "count_list (waits t x) n = count_list (waits t0 x) n + (if n = name then count_list deps x else 0)"
    and "distinct (map fst d0) \<Longrightarrow> distinct (map fst d)" by blast+
qed

text \<open>What the tables say after the resources of a prefix were counted.\<close>

definition counted :: "dep_graph \<Rightarrow> (string \<times> nat) list \<times> (string \<times> string list) list \<Rightarrow> bool" where
  "counted rs s \<longleftrightarrow> distinct (map fst (fst s)) \<and>
     (\<forall>n. map_of (fst s) n = map_option length (map_of rs n)) \<and>
     (\<forall>x n. count_list (waits (snd s) x) n = (case map_of rs n of None \<Rightarrow> 0 | Some deps \<Rightarrow> count_list deps x))"

lemma counted_step:
  assumes "counted rs (d0, t0)" "name \<notin> fst ` set rs"
  shows "counted (rs @ [(name, deps)]) (count_resource (name, deps) (d0, t0))"
proof -
  have none: "map_of rs name = None" using assms(2) by (simp add: map_of_eq_None_iff)
  let ?d = "AList.map_default name 0 id d0"
  obtain d t where f: "fold (count_dependency name) deps (?d, t0) = (d, t)" by force
  have k: "map_of ?d name = Some 0"
    using assms(1) none by (simp add: map_of_map_default counted_def)
  note C = count_deps [OF f k]
  have d: "map_of d n = map_option length (map_of (rs @ [(name, deps)]) n)" for n
    using C(1) assms(1) none by (auto simp: counted_def map_of_map_default map_add_def split: option.split)
  have t: "count_list (waits t x) n = (case map_of (rs @ [(name, deps)]) n of None \<Rightarrow> 0 | Some deps \<Rightarrow> count_list deps x)" for x n
    using C(2) [of x n] assms(1) none by (auto simp: counted_def map_add_def split: option.split)
  have "distinct (map fst d)" using C(3) assms(1) by (simp add: counted_def distinct_map_default)
  then show ?thesis using d t f by (simp add: counted_def count_resource_def)
qed

lemma dependency_counts_counted: "distinct (map fst rs) \<Longrightarrow> counted rs (dependency_counts rs)"
proof (induction rs rule: rev_induct)
  case (snoc r rs)
  obtain name deps where r: "r = (name, deps)" by force
  obtain d0 t0 where s: "dependency_counts rs = (d0, t0)" by force
  have "counted (rs @ [r]) (count_resource r (d0, t0))"
    unfolding r using snoc s by (intro counted_step) (auto simp: r)
  then show ?case using s by (simp add: dependency_counts_def)
qed (simp add: counted_def dependency_counts_def waits_def)

section \<open>The loop\<close>

lemma relax_effect:
  assumes "\<And>n. n \<in> set ds \<Longrightarrow> \<exists>k. map_of d n = Some k \<and> count_list ds n \<le> k"
  shows "\<exists>d' new'. relax ds d new = Some (d', new @ new') \<and>
    (\<forall>n. map_of d' n = map_option (\<lambda>k. k - count_list ds n) (map_of d n)) \<and> distinct new' \<and>
    (\<forall>n. n \<in> set new' \<longleftrightarrow> n \<in> set ds \<and> map_of d n = Some (count_list ds n)) \<and>
    (distinct (map fst d) \<longrightarrow> distinct (map fst d'))"
  using assms
proof (induction ds arbitrary: d new)
  case (Cons a ds)
  obtain k where k: "map_of d a = Some (Suc k)" "count_list ds a \<le> k"
    using Cons.prems [of a] by (auto dest: Suc_le_D)
  let ?d = "AList.update a k d" and ?new = "if k = 0 then new @ [a] else new"
  have d1: "map_of ?d n = (if n = a then Some k else map_of d n)" for n by (simp add: update_conv')
  have "\<exists>j. map_of ?d n = Some j \<and> count_list ds n \<le> j" if "n \<in> set ds" for n
    using Cons.prems [of n] that k by (cases "n = a") (simp_all add: d1)
  from Cons.IH [OF this, of ?new] obtain d' new' where
    r: "relax ds ?d ?new = Some (d', ?new @ new')"
    and look: "\<And>n. map_of d' n = map_option (\<lambda>k. k - count_list ds n) (map_of ?d n)"
    and dist: "distinct new'" and mem: "\<And>n. n \<in> set new' \<longleftrightarrow> n \<in> set ds \<and> map_of ?d n = Some (count_list ds n)"
    and dk: "distinct (map fst ?d) \<longrightarrow> distinct (map fst d')" by blast
  let ?new' = "if k = 0 then a # new' else new'"
  have a: "a \<notin> set new'" if "k = 0" using mem [of a] that d1 [of a] k(2) by (auto simp: count_list_0_iff)
  have 1: "relax (a # ds) d new = Some (d', new @ ?new')" using k(1) r by simp
  have 2: "map_of d' n = map_option (\<lambda>k. k - count_list (a # ds) n) (map_of d n)" for n
    using look [of n] k(1) by (cases "n = a") (simp_all add: d1)
  have 3: "distinct ?new'" using dist a by simp
  have 4: "n \<in> set ?new' \<longleftrightarrow> n \<in> set (a # ds) \<and> map_of d n = Some (count_list (a # ds) n)" for n
  proof (cases "n = a")
    case True
    then show ?thesis using mem [of a] k d1 [of a] count_list_0_iff [of ds a] by auto
  next
    case False
    then show ?thesis using mem [of n] d1 [of n] by auto
  qed
  have 5: "distinct (map fst d) \<longrightarrow> distinct (map fst d')" using dk by (simp add: distinct_update)
  show ?case using 1 2 3 4 5 by blast
qed (simp add: option.map_ident)

definition deps_of :: "dep_graph \<Rightarrow> string \<Rightarrow> string list" where
  "deps_of rs n = (case map_of rs n of None \<Rightarrow> [] | Some ds \<Rightarrow> ds)"

text \<open>Every element of a list has its dependencies before it.\<close>

definition dep_ordered :: "dep_graph \<Rightarrow> string list \<Rightarrow> bool" where
  "dep_ordered rs xs \<longleftrightarrow> distinct xs \<and> (\<forall>i<length xs. set (deps_of rs (xs ! i)) \<subseteq> set (take i xs))"

definition topo_inv :: "dep_graph \<Rightarrow> (string \<times> nat) list \<Rightarrow> string list \<Rightarrow> string list \<Rightarrow> bool" where
  "topo_inv rs d ready ordered \<longleftrightarrow> distinct (map fst d) \<and> distinct (ordered @ ready) \<and>
     (\<forall>n. map_of d n = map_option (\<lambda>ds. length (filter (\<lambda>x. x \<notin> set ordered) ds)) (map_of rs n)) \<and>
     (\<forall>n. n \<in> set (ordered @ ready) \<longleftrightarrow> map_of d n = Some 0) \<and> dep_ordered rs ordered"

lemma filter_insert_count:
  "a \<notin> S \<Longrightarrow> length (filter (\<lambda>x. x \<notin> insert a S) ds) = length (filter (\<lambda>x. x \<notin> S) ds) - count_list ds a \<and>
   count_list ds a \<le> length (filter (\<lambda>x. x \<notin> S) ds)"
  by (induction ds) auto

lemma dep_ordered_snoc: "dep_ordered rs xs \<Longrightarrow> x \<notin> set xs \<Longrightarrow> set (deps_of rs x) \<subseteq> set xs \<Longrightarrow> dep_ordered rs (xs @ [x])"
  by (auto simp: dep_ordered_def nth_append less_Suc_eq)

lemma topo_inv_step:
  assumes inv: "topo_inv rs d (name # ready) ordered"
    and wc: "\<And>n. count_list ws n = count_list (deps_of rs n) name"
  shows "\<exists>d' new. relax ws d [] = Some (d', new) \<and> topo_inv rs d' (ready @ sort new) (ordered @ [name])"
proof -
  have fresh: "name \<notin> set ordered" and dist: "distinct (ordered @ name # ready)" and dk: "distinct (map fst d)"
    and zero: "map_of d name = Some 0" and ord: "dep_ordered rs ordered"
    and look: "\<And>n. map_of d n = map_option (\<lambda>ds. length (filter (\<lambda>x. x \<notin> set ordered) ds)) (map_of rs n)"
    and zeros: "\<And>n. n \<in> set (ordered @ name # ready) \<longleftrightarrow> map_of d n = Some 0"
    using inv by (auto simp: topo_inv_def)
  have bound: "\<exists>k. map_of d n = Some k \<and> count_list ws n \<le> k" if "n \<in> set ws" for n
  proof -
    have "count_list (deps_of rs n) name \<noteq> 0" using that wc [of n] by (metis count_list_0_iff)
    then obtain ds where "map_of rs n = Some ds" by (auto simp: deps_of_def split: option.splits)
    then show ?thesis using look [of n] wc [of n] filter_insert_count [OF fresh, of ds] by (simp add: deps_of_def)
  qed
  obtain d' new where r: "relax ws d [] = Some (d', new)"
    and look': "\<And>n. map_of d' n = map_option (\<lambda>k. k - count_list ws n) (map_of d n)" and dn: "distinct new"
    and mem: "\<And>n. n \<in> set new \<longleftrightarrow> n \<in> set ws \<and> map_of d n = Some (count_list ws n)" and dk': "distinct (map fst d')"
    using relax_effect [of ws d "[]"] bound dk by auto
  have pos: "n \<in> set new \<Longrightarrow> map_of d n \<noteq> Some 0" for n using mem [of n] by (auto simp: count_list_0_iff)
  have disj: "distinct ((ordered @ [name]) @ ready @ sort new)" using dist dn pos zeros by auto
  have look2: "map_of d' n = map_option (\<lambda>ds. length (filter (\<lambda>x. x \<notin> set (ordered @ [name])) ds)) (map_of rs n)" for n
  proof (cases "map_of rs n")
    case (Some ds)
    then show ?thesis using look [of n] look' [of n] wc [of n] filter_insert_count [OF fresh, of ds] by (simp add: deps_of_def)
  qed (simp add: look look')
  have zeros2: "n \<in> set ((ordered @ [name]) @ ready @ sort new) \<longleftrightarrow> map_of d' n = Some 0" for n
  proof -
    have "n \<in> set ((ordered @ [name]) @ ready @ sort new) \<longleftrightarrow> map_of d n = Some 0 \<or> n \<in> set new" using zeros [of n] by auto
    also have "\<dots> \<longleftrightarrow> map_of d' n = Some 0"
    proof (cases "n \<in> set ws")
      case True
      then show ?thesis using bound [OF True] mem [of n] look' [of n] by auto
    next
      case False
      then have "count_list ws n = 0" by (simp add: count_list_0_iff)
      then show ?thesis using False mem [of n] look' [of n] by (auto simp: option.map_ident)
    qed
    finally show ?thesis .
  qed
  have "set (deps_of rs name) \<subseteq> set ordered"
    using zero look [of name] by (auto simp: deps_of_def filter_empty_conv split: option.splits)
  then have "dep_ordered rs (ordered @ [name])" using ord fresh by (intro dep_ordered_snoc)
  then show ?thesis using r disj look2 zeros2 dk' by (auto simp: topo_inv_def)
qed

lemma topo_loop_inv:
  assumes "topo_inv rs d ready ordered" "\<And>x n. count_list (waits t x) n = count_list (deps_of rs n) x"
  shows "\<exists>d' ordered'. topo_loop t d ready ordered = Some (d', ordered') \<and> topo_inv rs d' [] ordered'"
  using assms
proof (induction t d ready ordered rule: topo_loop.induct)
  case (2 t d name ready ordered)
  obtain d' new where r: "relax (waits t name) d [] = Some (d', new)"
    and inv: "topo_inv rs d' (ready @ sort new) (ordered @ [name])"
    using topo_inv_step [OF 2(2), of "waits t name"] 2(3) by blast
  show ?case using 2(1) [OF r [unfolded waits_def] refl inv 2(3)] r by (simp add: waits_def)
qed auto

lemma topo_invD:
  assumes "topo_inv rs d [] ordered"
  shows "map_of d n = map_option (\<lambda>ds. length (filter (\<lambda>x. x \<notin> set ordered) ds)) (map_of rs n)"
    and "n \<in> set ordered \<longleftrightarrow> map_of d n = Some 0" and "distinct ordered" "distinct (map fst d)" "dep_ordered rs ordered"
  using assms unfolding topo_inv_def append_Nil2 by blast+

lemma dep_ordered_complete:
  assumes inv: "topo_inv rs d [] ordered" and rs: "distinct (map fst rs)"
  shows "set ordered \<subseteq> fst ` set rs" "length ordered = length rs \<longleftrightarrow> set ordered = fst ` set rs"
    and "n \<in> fst ` set (filter (\<lambda>(n, deg). 0 < deg) d) \<longleftrightarrow> n \<in> fst ` set rs \<and> n \<notin> set ordered"
proof -
  note look = topo_invD(1) [OF inv] and zeros = topo_invD(2) [OF inv] and d = topo_invD(3,4) [OF inv]
  have key: "n \<in> fst ` set rs \<longleftrightarrow> (\<exists>k. map_of d n = Some k)" for n
  proof -
    have "n \<in> fst ` set rs \<longleftrightarrow> (\<exists>ds. map_of rs n = Some ds)" using map_of_eq_None_iff [of rs n] by (metis not_None_eq)
    then show ?thesis unfolding look by simp
  qed
  show sub: "set ordered \<subseteq> fst ` set rs"
  proof
    fix m assume "m \<in> set ordered"
    then have "map_of d m = Some 0" by (simp only: zeros)
    then show "m \<in> fst ` set rs" unfolding key by blast
  qed
  have "card (set ordered) = length ordered" "card (fst ` set rs) = length rs"
    using distinct_card [OF d(1)] distinct_card [OF rs] by simp_all
  then show "length ordered = length rs \<longleftrightarrow> set ordered = fst ` set rs"
    using sub card_subset_eq [of "fst ` set rs" "set ordered"] by auto
  have "n \<in> fst ` set (filter (\<lambda>(n, deg). 0 < deg) d) \<longleftrightarrow> (\<exists>k>0. (n, k) \<in> set d)" by force
  also have "\<dots> \<longleftrightarrow> (\<exists>k>0. map_of d n = Some k)" using d(2) by simp
  also have "\<dots> \<longleftrightarrow> n \<in> fst ` set rs \<and> n \<notin> set ordered" unfolding key zeros by auto
  finally show "n \<in> fst ` set (filter (\<lambda>(n, deg). 0 < deg) d) \<longleftrightarrow> n \<in> fst ` set rs \<and> n \<notin> set ordered" .
qed

lemma topo_inv_start:
  assumes "counted rs (d, t)"
  shows "topo_inv rs d (sort (map fst (filter (\<lambda>(n, deg). deg = 0) d))) []"
proof -
  have d: "distinct (map fst d)" and look: "\<And>n. map_of d n = map_option length (map_of rs n)"
    using assms by (auto simp: counted_def)
  have "distinct (map fst (filter (\<lambda>(n, deg). deg = 0) d))" using d by (rule distinct_map_filter)
  moreover have "n \<in> fst ` set (filter (\<lambda>(n, deg). deg = 0) d) \<longleftrightarrow> map_of d n = Some 0" for n
  proof -
    have "n \<in> fst ` set (filter (\<lambda>(n, deg). deg = 0) d) \<longleftrightarrow> (n, 0) \<in> set d" by force
    then show ?thesis using d by simp
  qed
  ultimately show ?thesis using d look by (simp add: topo_inv_def dep_ordered_def)
qed

section \<open>Correctness\<close>

lemma unknown_mem:
  assumes "distinct (map fst rs)"
  shows "(n, x) \<in> set (concat (map (\<lambda>(name, deps). map (Pair name) (filter (\<lambda>dep. map_of rs dep = None) deps)) rs)) \<longleftrightarrow>
    n \<in> fst ` set rs \<and> x \<in> set (deps_of rs n) \<and> x \<notin> fst ` set rs" (is "_ \<in> set ?bad \<longleftrightarrow> _")
proof -
  have "(n, x) \<in> set ?bad \<longleftrightarrow> (\<exists>deps. (n, deps) \<in> set rs \<and> x \<in> set deps \<and> map_of rs x = None)" by auto
  also have "\<dots> \<longleftrightarrow> (\<exists>deps. map_of rs n = Some deps \<and> x \<in> set deps \<and> map_of rs x = None)" using assms by simp
  also have "\<dots> \<longleftrightarrow> n \<in> fst ` set rs \<and> x \<in> set (deps_of rs n) \<and> x \<notin> fst ` set rs"
    using map_of_eq_None_iff [of rs n] map_of_eq_None_iff [of rs x] by (cases "map_of rs n") (auto simp: deps_of_def)
  finally show ?thesis .
qed

lemma unknown_dependency_cases:
  assumes "distinct (map fst rs)"
  obtains (unknown) n x where "unknown_dependency rs = Some (n, x)" "n \<in> fst ` set rs" "x \<in> set (deps_of rs n)" "x \<notin> fst ` set rs"
  | (known) "unknown_dependency rs = None" "\<And>n. n \<in> fst ` set rs \<Longrightarrow> set (deps_of rs n) \<subseteq> fst ` set rs"
proof -
  define bad where "bad = concat (map (\<lambda>(name, deps). map (Pair name) (filter (\<lambda>dep. map_of rs dep = None) deps)) rs)"
  have u: "unknown_dependency rs = (case bad of [] \<Rightarrow> None | e # _ \<Rightarrow> Some e)" by (simp only: unknown_dependency_def bad_def)
  note mem = unknown_mem [OF assms, folded bad_def]
  show thesis
  proof (cases bad)
    case (Cons e rest)
    obtain n x where e: "e = (n, x)" by force
    then have "(n, x) \<in> set bad" using Cons by simp
    then show thesis using unknown [of n x] u Cons e mem [of n x] by simp
  next
    case Nil
    then have "x \<in> fst ` set rs" if "n \<in> fst ` set rs" "x \<in> set (deps_of rs n)" for n x using mem [of n x] that by simp
    then have "\<And>n. n \<in> fst ` set rs \<Longrightarrow> set (deps_of rs n) \<subseteq> fst ` set rs" by blast
    then show thesis using known u Nil by simp
  qed
qed

text \<open>What is left waiting when the loop stops early.\<close>

definition cyclic_report :: "dep_graph \<Rightarrow> string list \<Rightarrow> bool" where
  "cyclic_report rs names \<longleftrightarrow> names \<noteq> [] \<and> sorted names \<and> distinct names \<and> set names \<subseteq> fst ` set rs \<and>
     (\<forall>n \<in> set names. \<exists>dep \<in> set (deps_of rs n). dep \<in> set names)"

lemma stopped_early:
  assumes inv: "topo_inv rs d [] ordered" and rs: "distinct (map fst rs)" and "length ordered \<noteq> length rs"
    and known: "\<And>n. n \<in> fst ` set rs \<Longrightarrow> set (deps_of rs n) \<subseteq> fst ` set rs"
  shows "cyclic_report rs (sort (map fst (filter (\<lambda>(n, deg). 0 < deg) d)))" (is "cyclic_report rs ?names")
proof -
  note C = dep_ordered_complete [OF inv rs]
  have names: "n \<in> set ?names \<longleftrightarrow> n \<in> fst ` set rs \<and> n \<notin> set ordered" for n using C(3) [of n] by simp
  have "\<exists>dep \<in> set (deps_of rs n). dep \<in> set ?names" if n: "n \<in> set ?names" for n
  proof -
    have nn: "n \<in> fst ` set rs" "n \<notin> set ordered" using n names by blast+
    obtain ds where ds: "map_of rs n = Some ds" using nn(1) map_of_eq_None_iff [of rs n] by (cases "map_of rs n") auto
    then have "map_of d n = Some (length (filter (\<lambda>x. x \<notin> set ordered) ds))" "map_of d n \<noteq> Some 0"
      using topo_invD(1,2) [OF inv, of n] nn(2) by simp_all
    then obtain x where "x \<in> set ds" "x \<notin> set ordered" by (auto simp: filter_empty_conv)
    then show ?thesis using known [OF nn(1)] ds names [of x] by (auto simp: deps_of_def)
  qed
  moreover have "?names \<noteq> []"
  proof
    assume "?names = []"
    then have "fst ` set rs \<subseteq> set ordered" using names by (metis empty_iff empty_set subsetI)
    then show False using C(1,2) assms(3) by auto
  qed
  moreover have "distinct ?names" using topo_invD(4) [OF inv] by (simp add: distinct_map_filter)
  moreover have "set ?names \<subseteq> fst ` set rs" "sorted ?names" using names by (blast, simp)
  ultimately show ?thesis unfolding cyclic_report_def by blast
qed

text \<open>C18. The start order. For every dependency map the sort returns: the loop terminates and neither the
  lookup nor the decrement of a count panics. It reports an unknown dependency exactly when there is one, and
  names it. Otherwise it returns an order of all resources in which every dependency comes before its
  dependents, or reports a cycle: a sorted, non-empty list of resources of which each depends on another one of
  the list, so that no such order exists.\<close>

theorem topo_sort_correct:
  assumes "distinct (map fst rs)"
  shows "\<exists>r. topo_sort rs = Some r \<and>
    (case r of
       Inr order \<Rightarrow> distinct order \<and> set order = fst ` set rs \<and> dep_ordered rs order
     | Inl (UnknownDependency name dep) \<Rightarrow> name \<in> fst ` set rs \<and> dep \<in> set (deps_of rs name) \<and> dep \<notin> fst ` set rs
     | Inl (CyclicDependency names) \<Rightarrow> names \<noteq> [] \<and> sorted names \<and> distinct names \<and> set names \<subseteq> fst ` set rs \<and>
         (\<forall>n \<in> set names. \<exists>dep \<in> set (deps_of rs n). dep \<in> set names)) \<and>
    ((\<exists>name dep. r = Inl (UnknownDependency name dep)) \<longleftrightarrow> (\<exists>n \<in> fst ` set rs. \<not> set (deps_of rs n) \<subseteq> fst ` set rs))"
  using assms
proof (cases rule: unknown_dependency_cases)
  case (unknown n x)
  then show ?thesis by (auto simp: topo_sort_def)
next
  case known
  obtain d t where c: "dependency_counts rs = (d, t)" by force
  have ct: "counted rs (d, t)" using dependency_counts_counted [OF assms] c by simp
  then have "count_list (waits t x) n = count_list (deps_of rs n) x" for x n
    by (auto simp: counted_def deps_of_def split: option.split)
  from topo_loop_inv [OF topo_inv_start [OF ct] this] obtain d' ordered where
    l: "topo_loop t d (sort (map fst (filter (\<lambda>(n, deg). deg = 0) d))) [] = Some (d', ordered)"
    and inv: "topo_inv rs d' [] ordered" by blast
  show ?thesis
  proof (cases "length ordered = length rs")
    case True
    have ts: "topo_sort rs = Some (Inr ordered)" using known(1) c l True by (simp add: topo_sort_def)
    then show ?thesis using dep_ordered_complete(2) [OF inv assms] True topo_invD(3,5) [OF inv] known(2) by auto
  next
    case False
    have "\<exists>names. topo_sort rs = Some (Inl (CyclicDependency names)) \<and> cyclic_report rs names"
      using stopped_early [OF inv assms False known(2)] known(1) c l False by (auto simp: topo_sort_def)
    then show ?thesis using known(2) unfolding cyclic_report_def by auto
  qed
qed

theorem topo_sort_correct_witness:
  "topo_sort [(''c'', [''b'']), (''a'', []), (''b'', [''a'', ''a''])] = Some (Inr [''a'', ''b'', ''c'']) \<and>
   dep_ordered [(''c'', [''b'']), (''a'', []), (''b'', [''a'', ''a''])] [''a'', ''b'', ''c''] \<and>
   topo_sort [(''a'', [''b'']), (''b'', [''a'']), (''c'', [])] = Some (Inl (CyclicDependency [''a'', ''b'']))"
proof -
  let ?rs = "[(''c'', [''b'']), (''a'', []), (''b'', [''a'', ''a''])]"
  have d: "distinct (map fst ?rs)" by simp
  have "topo_sort ?rs = Some (Inr [''a'', ''b'', ''c''])" by code_simp
  moreover have "topo_sort [(''a'', [''b'']), (''b'', [''a'']), (''c'', [])] = Some (Inl (CyclicDependency [''a'', ''b'']))" by code_simp
  ultimately show ?thesis using topo_sort_correct [OF d] by auto
qed

end
