(* ===== verification/Handoff.thy ===== *)
theory Handoff
  imports State_Ingest Gateway_Mesh
begin

text \<open>
  The crossing of a zone boundary, zone side: detection (\<open>crates/baston-zone/src/boundary_detector.rs\<close>), the
  handoff bookkeeping (\<open>handoff_manager.rs\<close>), the ghosts of prepared players (\<open>mesh.rs\<close>), and the scan that drives
  them (\<open>boundary_loop.rs\<close>), composed with the gateway's commit. A remote call ends answered, with its reply
  lost, or with the request lost; the two losses look the same to the caller. Times are in milliseconds and
  arguments. The concurrency of the scan's calls and the collection of script state are not modelled.
\<close>

section \<open>Detection\<close>

definition MIN_APPROACH_SPEED :: fl where "MIN_APPROACH_SPEED = fl_lit F32 5 10"

datatype boundary_direction = West | East | South | North

record handoff_candidate =
  hc_player_id :: u32
  hc_crossing_ms :: u64
  hc_direction :: boundary_direction
  hc_predicted :: "fl \<times> fl"
  hc_distance :: fl

record boundary_detector =
  bd_bounds :: aabb
  bd_margin :: fl

definition distance_to_boundary :: "pos3 \<Rightarrow> boundary_detector \<Rightarrow> fl" where
  "distance_to_boundary coords d = distance_to_edge (bd_bounds d) (fst coords) (fst (snd coords))"

definition fl_to_u64 :: "fl \<Rightarrow> u64" where
  "fl_to_u64 x = word_of_int (fl_to_int F32 0 (2 ^ 64 - 1) x)"

text \<open>The first of the nearest edges; incomparable distances count as equal.\<close>

definition nearest_edge :: "(fl \<times> boundary_direction \<times> fl) list \<Rightarrow> (fl \<times> boundary_direction \<times> fl) option" where
  "nearest_edge es = (case es of [] \<Rightarrow> None | e # rest \<Rightarrow> Some (fold (\<lambda>b a. if fl_lt (fst b) (fst a) then b else a) rest e))"

definition check_player :: "u32 \<Rightarrow> pos3 \<Rightarrow> pos3 \<Rightarrow> boundary_detector \<Rightarrow> handoff_candidate option" where
  "check_player player_id coords velocity d =
     (let x = fst coords; y = fst (snd coords); vx = fst velocity; vy = fst (snd velocity); b = bd_bounds d in
      if fl_le (bd_margin d) (distance_to_boundary coords d) then None
      else Option.bind (nearest_edge
          [(fl_sub F32 x (x_min b), West, fl_neg vx), (fl_sub F32 (x_max b) x, East, vx),
           (fl_sub F32 y (y_min b), South, fl_neg vy), (fl_sub F32 (y_max b) y, North, vy)]) (\<lambda>(edge_dist, direction, outward_speed).
        if fl_lt outward_speed MIN_APPROACH_SPEED then None
        else let eta_secs = fl_div F32 (fl_max edge_dist (Fin False 0)) outward_speed;
                 overshoot = fl_add F32 eta_secs (fl_of_int F32 1)
             in Some \<lparr>hc_player_id = player_id,
                      hc_crossing_ms = fl_to_u64 (fl_mul F32 eta_secs (fl_of_int F32 1000)),
                      hc_direction = direction,
                      hc_predicted = (fl_add F32 x (fl_mul F32 vx overshoot), fl_add F32 y (fl_mul F32 vy overshoot)),
                      hc_distance = edge_dist\<rparr>))"

section \<open>The handoff manager\<close>

definition PREPARE_TIMEOUT :: nat where "PREPARE_TIMEOUT = 2000"

datatype handoff_state =
    PreparationRequested string nat  \<comment> \<open>target zone, when requested\<close>
  | ReadyToTransfer string string  \<comment> \<open>target zone, its address\<close>
  | Transferring

record handoff_manager =
  hm_zone :: string
  hm_pending :: "(u32 \<times> handoff_state) list"
  hm_cooldowns :: "(u32 \<times> nat) list"
  hm_cooldown :: nat

definition hm_new :: "string \<Rightarrow> nat \<Rightarrow> handoff_manager" where
  "hm_new zone_id cooldown_secs = \<lparr>hm_zone = zone_id, hm_pending = [], hm_cooldowns = [], hm_cooldown = 1000 * cooldown_secs\<rparr>"

definition hm_state_of :: "u32 \<Rightarrow> handoff_manager \<Rightarrow> handoff_state option" where
  "hm_state_of p m = map_of (hm_pending m) p"

definition in_cooldown :: "nat \<Rightarrow> u32 \<Rightarrow> handoff_manager \<Rightarrow> bool" where
  "in_cooldown now p m = (case map_of (hm_cooldowns m) p of None \<Rightarrow> False | Some t \<Rightarrow> now - t < hm_cooldown m)"

definition hm_cancel :: "nat \<Rightarrow> u32 \<Rightarrow> handoff_manager \<Rightarrow> handoff_manager" where
  "hm_cancel now p m =
     (if map_of (hm_pending m) p \<noteq> None
      then m\<lparr>hm_pending := AList.delete p (hm_pending m), hm_cooldowns := AList.update p now (hm_cooldowns m)\<rparr> else m)"

definition hm_forget :: "u32 \<Rightarrow> handoff_manager \<Rightarrow> handoff_manager" where
  "hm_forget p m = m\<lparr>hm_pending := AList.delete p (hm_pending m), hm_cooldowns := AList.delete p (hm_cooldowns m)\<rparr>"

definition prune_expired :: "nat \<Rightarrow> handoff_manager \<Rightarrow> handoff_manager" where
  "prune_expired now m =
     m\<lparr>hm_cooldowns := filter (\<lambda>(p, t). now - t < hm_cooldown m) (hm_cooldowns m),
       hm_pending := filter (\<lambda>(p, st). case st of PreparationRequested _ at \<Rightarrow> now - at < PREPARE_TIMEOUT * 2 | _ \<Rightarrow> True) (hm_pending m)\<rparr>"

text \<open>A preparation: the guard and the entry before the call, and what the reply (\<open>None\<close>: an error or a
  timeout) does.\<close>

definition request_begin :: "nat \<Rightarrow> u32 \<Rightarrow> handoff_manager \<Rightarrow> bool \<times> handoff_manager" where
  "request_begin now p m =
     (if map_of (hm_pending m) p \<noteq> None \<or> in_cooldown now p m then (False, m)
      else (True, m\<lparr>hm_pending := AList.update p (PreparationRequested [] now) (hm_pending m)\<rparr>))"

definition request_finish :: "nat \<Rightarrow> u32 \<Rightarrow> prepare_response option \<Rightarrow> handoff_manager \<Rightarrow> string option \<times> handoff_manager" where
  "request_finish now p reply m =
     (case reply of
        Some resp \<Rightarrow>
          if pr_ready resp
          then (Some (pr_target_zone resp),
                m\<lparr>hm_pending := AList.update p (ReadyToTransfer (pr_target_zone resp) (pr_target_zone_grpc resp)) (hm_pending m)\<rparr>)
          else (None, hm_cancel now p m)
      | None \<Rightarrow> (None, hm_cancel now p m))"

definition request_handoff :: "nat \<Rightarrow> nat \<Rightarrow> u32 \<Rightarrow> prepare_response option \<Rightarrow> handoff_manager \<Rightarrow> string option \<times> handoff_manager" where
  "request_handoff now later p reply m =
     (case request_begin now p m of (False, m1) \<Rightarrow> (None, m1) | (True, m1) \<Rightarrow> request_finish later p reply m1)"

definition confirm_begin :: "u32 \<Rightarrow> handoff_manager \<Rightarrow> (string \<times> string) option \<times> handoff_manager" where
  "confirm_begin p m =
     (case hm_state_of p m of
        Some (ReadyToTransfer target_zone target_grpc) \<Rightarrow>
          (Some (target_zone, target_grpc), m\<lparr>hm_pending := AList.update p Transferring (hm_pending m)\<rparr>)
      | _ \<Rightarrow> (None, m))"

definition confirm_finish :: "nat \<Rightarrow> u32 \<Rightarrow> bool option \<Rightarrow> handoff_manager \<Rightarrow> bool \<times> handoff_manager" where
  "confirm_finish now p reply m =
     (if reply = Some True
      then (True, m\<lparr>hm_pending := AList.delete p (hm_pending m), hm_cooldowns := AList.update p now (hm_cooldowns m)\<rparr>)
      else (False, hm_cancel now p m))"

section \<open>Ghosts\<close>

datatype ghost_state = GhostPending player_snapshot nat | GhostActive

record zone_proc =
  zp_id :: string
  zp_bounds :: aabb
  zp_ingest :: state_ingest
  zp_ghosts :: "(u32 \<times> ghost_state) list"
  zp_handoff :: handoff_manager

text \<open>The decoded snapshot is an argument; \<open>None\<close> is a refused request.\<close>

definition prepare_for_player :: "nat \<Rightarrow> u32 \<Rightarrow> player_snapshot option \<Rightarrow> zone_proc \<Rightarrow> bool option \<times> zone_proc" where
  "prepare_for_player now p snapshot z =
     (case snapshot of
        None \<Rightarrow> (None, z)
      | Some snap \<Rightarrow>
          if ps_source snap \<noteq> p then (None, z)
          else (Some True, z\<lparr>zp_ghosts := AList.update p (GhostPending snap now) (zp_ghosts z)\<rparr>))"

definition activate_player :: "nat \<Rightarrow> u32 \<Rightarrow> zone_proc \<Rightarrow> bool \<times> zone_proc" where
  "activate_player now p z =
     (case map_of (zp_ghosts z) p of
        None \<Rightarrow> (False, z)
      | Some GhostActive \<Rightarrow> (False, z\<lparr>zp_ghosts := AList.delete p (zp_ghosts z)\<rparr>)
      | Some (GhostPending snap at) \<Rightarrow>
          (True, z\<lparr>zp_ingest := snd (restore_player_state now snap (zp_ingest z)),
                   zp_ghosts := AList.update p GhostActive (zp_ghosts z)\<rparr>))"

definition zp_release_player :: "u32 \<Rightarrow> zone_proc \<Rightarrow> zone_proc" where
  "zp_release_player p z =
     z\<lparr>zp_ghosts := AList.delete p (zp_ghosts z), zp_handoff := hm_forget p (zp_handoff z),
       zp_ingest := release_player_state p (zp_ingest z)\<rparr>"

definition ghost_expiry :: nat where "ghost_expiry = 30000"

definition expire_stale_ghosts :: "nat \<Rightarrow> nat \<Rightarrow> zone_proc \<Rightarrow> zone_proc" where
  "expire_stale_ghosts now max_age z =
     z\<lparr>zp_ghosts := filter (\<lambda>(p, g). case g of GhostPending _ at \<Rightarrow> now - at \<le> max_age | GhostActive \<Rightarrow> True) (zp_ghosts z)\<rparr>"

section \<open>The scan\<close>

text \<open>The decisions of a scan: whom to prepare, with the predicted point, and whose crossing to complete.\<close>

definition scan_player :: "nat \<Rightarrow> boundary_detector \<Rightarrow> u32 \<times> pos3 \<times> pos3 \<Rightarrow>
    (u32 \<times> pos3 \<times> pos3 \<times> fl \<times> fl) list \<times> u32 list \<times> zone_proc \<Rightarrow> (u32 \<times> pos3 \<times> pos3 \<times> fl \<times> fl) list \<times> u32 list \<times> zone_proc" where
  "scan_player now det = (\<lambda>(source, coords, velocity) (prep, comp, z).
     let candidate = check_player source coords velocity det;
         crossed = (\<not> aabb_contains (zp_bounds z) (fst coords) (fst (snd coords)))
     in case hm_state_of source (zp_handoff z) of
          None \<Rightarrow> (case candidate of
                     Some c \<Rightarrow> (prep @ [(source, coords, velocity, hc_predicted c)], comp, z)
                   | None \<Rightarrow> (prep, comp, z))
        | Some (ReadyToTransfer _ _) \<Rightarrow>
            if crossed then (prep, comp @ [source], z)
            else if candidate = None then (prep, comp, z\<lparr>zp_handoff := hm_cancel now source (zp_handoff z)\<rparr>)
            else (prep, comp, z)
        | _ \<Rightarrow> (prep, comp, z))"

definition scan_decisions :: "nat \<Rightarrow> boundary_detector \<Rightarrow> zone_proc \<Rightarrow>
    (u32 \<times> pos3 \<times> pos3 \<times> fl \<times> fl) list \<times> u32 list \<times> zone_proc" where
  "scan_decisions now det z =
     (let z1 = z\<lparr>zp_handoff := prune_expired now (zp_handoff z)\<rparr>
      in fold (scan_player now det) (player_kinematics (zp_ingest z1)) ([], [], z1))"

definition ZONE_RESOLVE_CELL_M :: fl where "ZONE_RESOLVE_CELL_M = fl_of_int F32 64"

definition resolution_cell :: "pos3 \<Rightarrow> u32 \<times> u32" where
  "resolution_cell c = (fl_to_i32 (fl_floor F32 (fl_div F32 (fst c) ZONE_RESOLVE_CELL_M)),
     fl_to_i32 (fl_floor F32 (fl_div F32 (fst (snd c)) ZONE_RESOLVE_CELL_M)))"

definition resolution_cell_centre :: "u32 \<times> u32 \<Rightarrow> fl \<times> fl" where
  "resolution_cell_centre cell =
     (fl_mul F32 (fl_add F32 (fl_of_int F32 (sint (fst cell))) (fl_lit F32 5 10)) ZONE_RESOLVE_CELL_M,
      fl_mul F32 (fl_add F32 (fl_of_int F32 (sint (snd cell))) (fl_lit F32 5 10)) ZONE_RESOLVE_CELL_M)"

text \<open>The zones resolved per cell, and whether the publication of an entity succeeds, are arguments.\<close>

definition departed_entities :: "zone_proc \<Rightarrow> entity_state list" where
  "departed_entities z =
     (let local_players = map fst (player_kinematics (zp_ingest z))
      in snapshot_filtered (\<lambda>e. es_type e \<noteq> EtPlayer \<and>
           \<not> aabb_contains (zp_bounds z) (fst (es_coords e)) (fst (snd (es_coords e))) \<and>
           \<not> (case es_owner e of None \<Rightarrow> False | Some o' \<Rightarrow> o' \<in> set local_players)) (si_em (zp_ingest z)))"

definition hand_off_entity :: "(u32 \<times> u32 \<Rightarrow> string option) \<Rightarrow> (entity_id \<Rightarrow> bool) \<Rightarrow> entity_state \<Rightarrow>
    (string \<times> entity_state) list \<times> zone_proc \<Rightarrow> (string \<times> entity_state) list \<times> zone_proc" where
  "hand_off_entity zone_of_cell published e = (\<lambda>(out, z).
     case zone_of_cell (resolution_cell (es_coords e)) of
       None \<Rightarrow> (out, z)
     | Some target \<Rightarrow>
         if target = zp_id z \<or> \<not> published (es_id e) then (out, z)
         else (out @ [(target, e\<lparr>es_owner := None\<rparr>)],
               z\<lparr>zp_ingest := (zp_ingest z)\<lparr>si_em := snd (em_remove_entity (es_id e) (si_em (zp_ingest z)))\<rparr>\<rparr>))"

definition scan_entities :: "(u32 \<times> u32 \<Rightarrow> string option) \<Rightarrow> (entity_id \<Rightarrow> bool) \<Rightarrow> zone_proc \<Rightarrow>
    (string \<times> entity_state) list \<times> zone_proc" where
  "scan_entities zone_of_cell published z = fold (hand_off_entity zone_of_cell published) (departed_entities z) ([], z)"

section \<open>Completing a crossing\<close>

datatype delivery = Answered | ReplyLost | RequestLost

definition call :: "delivery \<Rightarrow> ('s \<Rightarrow> 'r \<times> 's) \<Rightarrow> 's \<Rightarrow> 'r option \<times> 's" where
  "call d f s =
     (case d of
        Answered \<Rightarrow> (Some (fst (f s)), snd (f s))
      | ReplyLost \<Rightarrow> (None, snd (f s))
      | RequestLost \<Rightarrow> (None, s))"

record crossing =
  cx_gateway :: gateway_mesh
  cx_here :: zone_proc
  cx_there :: zone_proc

definition rollback_crossing :: "delivery \<Rightarrow> u32 \<Rightarrow> zone_proc \<Rightarrow> gateway_mesh \<Rightarrow> bool \<times> gateway_mesh" where
  "rollback_crossing d p z g =
     (case call d (confirm_handoff p (hm_zone (zp_handoff z))) g of (r, g') \<Rightarrow> (r = Some True, g'))"

text \<open>\<open>complete_handoff\<close> of a player that crossed, with the outcomes of its calls: the commit, the activation
  and the rollback; \<open>reachable\<close> tells whether a client for the target's address can be made.\<close>

definition complete_handoff :: "delivery \<Rightarrow> delivery \<Rightarrow> delivery \<Rightarrow> (string \<Rightarrow> bool) \<Rightarrow> nat \<Rightarrow> u32 \<Rightarrow> crossing \<Rightarrow> crossing" where
  "complete_handoff d1 d2 d3 reachable now p x =
     (case confirm_begin p (zp_handoff (cx_here x)) of
        (None, m1) \<Rightarrow> x\<lparr>cx_here := (cx_here x)\<lparr>zp_handoff := m1\<rparr>\<rparr>
      | (Some (target_zone, target_grpc), m1) \<Rightarrow>
          (case call d1 (confirm_handoff p target_zone) (cx_gateway x) of
             (r1, g1) \<Rightarrow>
               (case confirm_finish now p r1 m1 of
                  (False, m2) \<Rightarrow> x\<lparr>cx_gateway := g1, cx_here := (cx_here x)\<lparr>zp_handoff := m2\<rparr>\<rparr>
                | (True, m2) \<Rightarrow>
                    let here = (cx_here x)\<lparr>zp_handoff := m2\<rparr> in
                    (case (if reachable target_grpc then call d2 (activate_player now p) (cx_there x) else (None, cx_there x)) of
                       (r2, there) \<Rightarrow>
                         if r2 = Some True
                         then x\<lparr>cx_gateway := g1, cx_here := here\<lparr>zp_ingest := release_player_state p (zp_ingest here)\<rparr>, cx_there := there\<rparr>
                         else x\<lparr>cx_gateway := snd (rollback_crossing d3 p here g1), cx_here := here, cx_there := there\<rparr>))))"

section \<open>A crossing never loses the player\<close>

definition live_in :: "u32 \<Rightarrow> zone_proc \<Rightarrow> bool" where
  "live_in p z \<longleftrightarrow> player_entity p (zp_ingest z) \<noteq> None"

definition routed_to :: "u32 \<Rightarrow> crossing \<Rightarrow> string option" where
  "routed_to p x = map_of (gm_router (cx_gateway x)) p"

text \<open>The ghost of a prepared player carries that player's ped.\<close>

definition ghost_of :: "u32 \<Rightarrow> zone_proc \<Rightarrow> bool" where
  "ghost_of p z = (case map_of (zp_ghosts z) p of
     Some (GhostPending snap at) \<Rightarrow> ps_source snap = p \<and> ps_player_entity snap \<noteq> None | _ \<Rightarrow> True)"

named_theorems crossing_simps

lemma commit_routes [crossing_simps]:
  "gm_registry (snd (confirm_handoff p z g)) = gm_registry g"
  "fst (confirm_handoff p z g) = zr_contains z (gm_registry g)"
  "map_of (gm_router (snd (confirm_handoff p z g))) q =
     (if q = p \<and> zr_contains z (gm_registry g) then Some z else map_of (gm_router g) q)"
  by (simp_all add: confirm_handoff_def commit_handoff_def update_conv')

lemma call_state [crossing_simps]: "snd (call d f s) = (if d = RequestLost then s else snd (f s))"
  by (simp add: call_def split: delivery.split)

lemma call_reply [crossing_simps]: "fst (call d f s) = (if d = Answered then Some (fst (f s)) else None)"
  by (simp add: call_def split: delivery.split)

lemma activated_live:
  assumes "ghost_of p z" "\<not> live_in p z"
  shows "live_in p (snd (activate_player now p z)) \<longleftrightarrow> fst (activate_player now p z)"
    and "fst (activate_player now p z) \<longleftrightarrow> (\<exists>snap at. map_of (zp_ghosts z) p = Some (GhostPending snap at))"
  using assms by (auto simp: activate_player_def live_in_def ghost_of_def restore_player_state_def player_entity_def Let_def
      update_conv' split: option.splits ghost_state.splits)

lemma activate_id [crossing_simps]: "zp_id (snd (activate_player now p z)) = zp_id z"
  by (simp add: activate_player_def split: option.split ghost_state.split)

lemma released_gone [crossing_simps]: "player_entity p (release_player_state p s) = None"
  by (simp add: release_player_state_def si_on_player_dropped_def Let_def player_entity_def delete_conv' split: option.split)

text \<open>The bookkeeping of a confirmed, refused or failed crossing: the entry is gone and the cooldown runs.\<close>

lemma confirm_closes:
  assumes "hm_state_of p m = Some (ReadyToTransfer zone addr)" "confirm_begin p m = (r, m1)"
  shows "r = Some (zone, addr) \<and> hm_state_of p (snd (confirm_finish now p reply m1)) = None \<and>
    map_of (hm_cooldowns (snd (confirm_finish now p reply m1))) p = Some now \<and>
    hm_zone (snd (confirm_finish now p reply m1)) = hm_zone m"
  using assms by (auto simp: confirm_begin_def confirm_finish_def hm_cancel_def hm_state_of_def update_conv' delete_conv')

lemma complete_handoff_cases:
  assumes x'_def: "x' = complete_handoff d1 d2 d3 reachable now p x"
    and "hm_state_of p (zp_handoff (cx_here x)) = Some (ReadyToTransfer zone addr)"
  obtains
    (refused) m g where "\<not> (d1 = Answered \<and> zr_contains zone (gm_registry (cx_gateway x)))"
      "g = snd (call d1 (confirm_handoff p zone) (cx_gateway x))" "hm_state_of p m = None" "map_of (hm_cooldowns m) p = Some now"
      "x' = x\<lparr>cx_gateway := g, cx_here := (cx_here x)\<lparr>zp_handoff := m\<rparr>\<rparr>"
  | (released) m where "d1 = Answered" "zr_contains zone (gm_registry (cx_gateway x))" "reachable addr" "d2 = Answered"
      "fst (activate_player now p (cx_there x))" "hm_state_of p m = None" "map_of (hm_cooldowns m) p = Some now"
      "x' = x\<lparr>cx_gateway := snd (confirm_handoff p zone (cx_gateway x)),
         cx_here := (cx_here x)\<lparr>zp_handoff := m, zp_ingest := release_player_state p (zp_ingest (cx_here x))\<rparr>,
         cx_there := snd (activate_player now p (cx_there x))\<rparr>"
  | (rolled_back) m there where "d1 = Answered" "zr_contains zone (gm_registry (cx_gateway x))"
      "\<not> (reachable addr \<and> d2 = Answered \<and> fst (activate_player now p (cx_there x)))"
      "there = (if reachable addr \<and> d2 \<noteq> RequestLost then snd (activate_player now p (cx_there x)) else cx_there x)"
      "hm_state_of p m = None" "map_of (hm_cooldowns m) p = Some now"
      "x' = x\<lparr>cx_gateway := snd (call d3 (confirm_handoff p (hm_zone (zp_handoff (cx_here x)))) (snd (confirm_handoff p zone (cx_gateway x)))),
         cx_here := (cx_here x)\<lparr>zp_handoff := m\<rparr>, cx_there := there\<rparr>"
proof -
  obtain r m1 where b: "confirm_begin p (zp_handoff (cx_here x)) = (r, m1)" by force
  obtain r1 g1 where k: "call d1 (confirm_handoff p zone) (cx_gateway x) = (r1, g1)" by force
  obtain ok m where f: "confirm_finish now p r1 m1 = (ok, m)" by force
  have c: "r = Some (zone, addr)" "hm_state_of p m = None" "map_of (hm_cooldowns m) p = Some now"
    "hm_zone m = hm_zone (zp_handoff (cx_here x))"
    using confirm_closes [OF assms(2) b, of now r1] f by simp_all
  have g1: "r1 = fst (call d1 (confirm_handoff p zone) (cx_gateway x))"
    "g1 = snd (call d1 (confirm_handoff p zone) (cx_gateway x))" by (simp_all add: k)
  have ok: "ok \<longleftrightarrow> d1 = Answered \<and> zr_contains zone (gm_registry (cx_gateway x))"
    using f by (auto simp: g1 confirm_finish_def crossing_simps split: if_splits)
  note x' = x'_def complete_handoff_def b c(1) k
  show thesis
  proof (cases ok)
    case False
    then have "x' = x\<lparr>cx_gateway := g1, cx_here := (cx_here x)\<lparr>zp_handoff := m\<rparr>\<rparr>" using f by (simp add: x')
    then show thesis using refused c(2,3) False ok g1(2) by blast
  next
    case True
    then have g: "g1 = snd (confirm_handoff p zone (cx_gateway x))" using ok by (simp add: g1 crossing_simps)
    define act where "act = (if reachable addr then call d2 (activate_player now p) (cx_there x) else (None, cx_there x))"
    have x: "x' = (if fst act = Some True
        then x\<lparr>cx_gateway := snd (confirm_handoff p zone (cx_gateway x)),
          cx_here := (cx_here x)\<lparr>zp_handoff := m, zp_ingest := release_player_state p (zp_ingest (cx_here x))\<rparr>,
          cx_there := snd act\<rparr>
        else x\<lparr>cx_gateway := snd (call d3 (confirm_handoff p (hm_zone (zp_handoff (cx_here x)))) (snd (confirm_handoff p zone (cx_gateway x)))),
          cx_here := (cx_here x)\<lparr>zp_handoff := m\<rparr>, cx_there := snd act\<rparr>)"
      using True f c(4) by (simp add: x' act_def [symmetric] rollback_crossing_def g [symmetric] split_def Let_def)
    have act: "snd act = (if reachable addr \<and> d2 \<noteq> RequestLost then snd (activate_player now p (cx_there x)) else cx_there x)"
      "fst act = Some True \<longleftrightarrow> reachable addr \<and> d2 = Answered \<and> fst (activate_player now p (cx_there x))"
      by (simp_all add: act_def crossing_simps)
    show thesis
    proof (cases "fst act = Some True")
      case True
      then show thesis using released [OF _ _ _ _ _ c(2,3)] \<open>ok\<close> x act ok by simp
    next
      case False
      then have "x' = x\<lparr>cx_gateway := snd (call d3 (confirm_handoff p (hm_zone (zp_handoff (cx_here x)))) (snd (confirm_handoff p zone (cx_gateway x)))),
          cx_here := (cx_here x)\<lparr>zp_handoff := m\<rparr>, cx_there := snd act\<rparr>" using x by simp
      then show thesis using rolled_back [OF _ _ _ act(1) c(2,3)] \<open>ok\<close> False act(2) ok by blast
    qed
  qed
qed

text \<open>C16. A player who crosses a boundary is never lost, whatever calls fail on the way. When a prepared player
  leaves its zone, the zone commits the new route at the gateway, wakes the ghost in the target zone and only
  then releases its own copy. The player moves (route and live ped in the target, released here) exactly
  when both calls are answered, the target is registered and reachable and it still holds the ghost. In every
  other case the player stays live here; its route leads here as well unless the reply of the commit or
  the request of the rollback was lost, and it is not live in the target unless the reply of the activation
  was lost. The bookkeeping entry is closed and the cooldown started in every case.\<close>

theorem crossing_never_loses_player:
  assumes "routed_to p x = Some (zp_id (cx_here x))" "live_in p (cx_here x)" "\<not> live_in p (cx_there x)" "ghost_of p (cx_there x)"
    and "hm_state_of p (zp_handoff (cx_here x)) = Some (ReadyToTransfer (zp_id (cx_there x)) addr)"
    and "hm_zone (zp_handoff (cx_here x)) = zp_id (cx_here x)" "zr_contains (zp_id (cx_here x)) (gm_registry (cx_gateway x))"
  shows "let x' = complete_handoff d1 d2 d3 reachable now p x;
             moves = (d1 = Answered \<and> d2 = Answered \<and> zr_contains (zp_id (cx_there x)) (gm_registry (cx_gateway x)) \<and>
               reachable addr \<and> (\<exists>snap at. map_of (zp_ghosts (cx_there x)) p = Some (GhostPending snap at)))
         in (moves \<longrightarrow> routed_to p x' = Some (zp_id (cx_there x')) \<and> live_in p (cx_there x') \<and> \<not> live_in p (cx_here x')) \<and>
            (\<not> moves \<longrightarrow> live_in p (cx_here x') \<and>
              (d1 \<noteq> ReplyLost \<and> d3 \<noteq> RequestLost \<longrightarrow> routed_to p x' = Some (zp_id (cx_here x'))) \<and>
              (d2 \<noteq> ReplyLost \<longrightarrow> \<not> live_in p (cx_there x'))) \<and>
            hm_state_of p (zp_handoff (cx_here x')) = None \<and> map_of (hm_cooldowns (zp_handoff (cx_here x'))) p = Some now"
proof -
  note act = activated_live [OF assms(4,3), of now]
  obtain x' where x': "x' = complete_handoff d1 d2 d3 reachable now p x" by blast
  show ?thesis
    using x' assms(5)
  proof (cases rule: complete_handoff_cases)
    case (refused m g)
    then show ?thesis using assms unfolding Let_def x' [symmetric] refused(5)
      by (cases d1) (auto simp: routed_to_def live_in_def crossing_simps)
  next
    case (released m)
    then show ?thesis using act unfolding Let_def x' [symmetric] released(8)
      by (simp add: routed_to_def live_in_def crossing_simps)
  next
    case (rolled_back m there)
    have "live_in p there \<longrightarrow> d2 = ReplyLost" using rolled_back(3,4) act assms(3)
      by (cases d2) (auto split: if_splits)
    then show ?thesis using rolled_back(1-3,5,6) act assms unfolding Let_def x' [symmetric] rolled_back(7)
      by (auto simp: routed_to_def live_in_def crossing_simps)
  qed
qed

definition zone_a :: zone_proc where
  "zone_a = \<lparr>zp_id = ''a'', zp_bounds = \<lparr>x_min = Fin False 0, y_min = Fin False 0, x_max = Fin False 1, y_max = Fin False 1\<rparr>,
     zp_ingest = parked, zp_ghosts = [],
     zp_handoff = (hm_new ''a'' 10)\<lparr>hm_pending := [(2, ReadyToTransfer ''b'' ''addr'')]\<rparr>\<rparr>"

definition zone_b :: zone_proc where
  "zone_b = \<lparr>zp_id = ''b'', zp_bounds = \<lparr>x_min = Fin False 1, y_min = Fin False 0, x_max = Fin False 2, y_max = Fin False 1\<rparr>,
     zp_ingest = si_new em_new (Fin False 9), zp_ghosts = [(2, GhostPending (build_snapshot None [] 2 vzero vzero parked) 0)],
     zp_handoff = hm_new ''b'' 10\<rparr>"

definition two_zones :: crossing where
  "two_zones = \<lparr>cx_gateway = \<lparr>gm_registry = (zr_new 0)\<lparr>zr_zones := map (\<lambda>z. (z, snd (hd (zr_zones (gm_registry demo_mesh))))) [''a'', ''b'']\<rparr>,
     gm_router = [(2, ''a'')]\<rparr>, cx_here = zone_a, cx_there = zone_b\<rparr>"

lemma two_zones_ready:
  "routed_to 2 two_zones = Some (zp_id (cx_here two_zones))" "live_in 2 (cx_here two_zones)" "\<not> live_in 2 (cx_there two_zones)"
  "ghost_of 2 (cx_there two_zones)"
  "hm_state_of 2 (zp_handoff (cx_here two_zones)) = Some (ReadyToTransfer (zp_id (cx_there two_zones)) ''addr'')"
  "hm_zone (zp_handoff (cx_here two_zones)) = zp_id (cx_here two_zones)"
  "zr_contains (zp_id (cx_here two_zones)) (gm_registry (cx_gateway two_zones))"
  "zr_contains (zp_id (cx_there two_zones)) (gm_registry (cx_gateway two_zones))"
  "\<exists>snap at. map_of (zp_ghosts (cx_there two_zones)) 2 = Some (GhostPending snap at)"
proof -
  have six: "em_get 6 (si_em parked) = Some (ped_at 6 2)"
    by (simp add: parked_def em_run_def em_lookup ped_at_def demo_entity_def)
  have "player_entity 2 parked = Some 6" by (simp add: player_entity_def parked_def)
  then show "live_in 2 (cx_here two_zones)" "ghost_of 2 (cx_there two_zones)"
    using six by (simp_all add: two_zones_def zone_a_def zone_b_def live_in_def ghost_of_def build_snapshot_def Let_def)
qed (simp_all add: two_zones_def zone_a_def zone_b_def routed_to_def live_in_def hm_state_of_def hm_new_def zr_contains_def
    si_new_def player_entity_def zr_new_def)

theorem crossing_never_loses_player_witness:
  "let x' = complete_handoff Answered Answered Answered (\<lambda>_. True) 0 2 two_zones
   in routed_to 2 two_zones = Some (zp_id (cx_here two_zones)) \<and> routed_to 2 x' = Some (zp_id (cx_there x')) \<and>
      live_in 2 (cx_there x') \<and> \<not> live_in 2 (cx_here x')"
  using crossing_never_loses_player [OF two_zones_ready(1-7), of Answered Answered Answered "\<lambda>_. True" 0] two_zones_ready(1,8,9)
  by (simp add: Let_def)

text \<open>The one reply whose loss is not repaired: the gateway commits, the zone never hears of it and gives up without
  a rollback. The player stays here while its route leads to a zone in which it is still a sleeping ghost.\<close>

lemma lost_confirm_reply_strands_player:
  assumes "hm_state_of p (zp_handoff (cx_here x)) = Some (ReadyToTransfer (zp_id (cx_there x)) addr)"
    and "zr_contains (zp_id (cx_there x)) (gm_registry (cx_gateway x))"
  shows "let x' = complete_handoff ReplyLost d2 d3 reachable now p x
    in routed_to p x' = Some (zp_id (cx_there x)) \<and> cx_there x' = cx_there x \<and> zp_ingest (cx_here x') = zp_ingest (cx_here x)"
proof -
  obtain x' where x': "x' = complete_handoff ReplyLost d2 d3 reachable now p x" by blast
  show ?thesis
    using x' assms(1)
  proof (cases rule: complete_handoff_cases)
    case (refused m g)
    then show ?thesis using assms(2) unfolding Let_def x' [symmetric] refused(5)
      by (simp add: routed_to_def crossing_simps)
  qed simp_all
qed

text \<open>When the reply of the activation is lost instead, the rollback leaves the player live in both zones.\<close>

lemma lost_activation_reply_duplicates:
  assumes "live_in p (cx_here x)" "\<not> live_in p (cx_there x)" "ghost_of p (cx_there x)"
    and "hm_state_of p (zp_handoff (cx_here x)) = Some (ReadyToTransfer (zp_id (cx_there x)) addr)"
    and "zr_contains (zp_id (cx_there x)) (gm_registry (cx_gateway x))"
    and "map_of (zp_ghosts (cx_there x)) p = Some (GhostPending snap at)"
  shows "let x' = complete_handoff Answered ReplyLost d3 (\<lambda>_. True) now p x in live_in p (cx_here x') \<and> live_in p (cx_there x')"
proof -
  obtain x' where x': "x' = complete_handoff Answered ReplyLost d3 (\<lambda>_. True) now p x" by blast
  show ?thesis
    using x' assms(4)
  proof (cases rule: complete_handoff_cases)
    case (refused m g)
    then show ?thesis using assms(5) by simp
  next
    case (rolled_back m there)
    then show ?thesis using activated_live [OF assms(3,2), of now] assms(1,6) unfolding Let_def x' [symmetric] rolled_back(7)
      by (simp add: live_in_def)
  qed simp
qed

section \<open>Entities near a boundary\<close>

text \<open>An entity that left its zone is offered to the zone that covers the centre of its 64 metre cell. Where the
  boundary runs through the cell, that zone may be the one it left: it stays, outside the bounds.\<close>

lemma kept_by_cell:
  assumes "zone_of_cell (resolution_cell (es_coords e)) = Some (zp_id z)"
  shows "hand_off_entity zone_of_cell published e (out, z) = (out, z)"
  using assms by (simp add: hand_off_entity_def)

lemma straddling_floats:
  "ZONE_RESOLVE_CELL_M = Fin False (64 * 2 ^ 149)" "fl_of_int F32 45 = Fin False (45 * 2 ^ 149)"
  "fl_of_int F32 40 = Fin False (40 * 2 ^ 149)"
  "fl_div F32 (Fin False (45 * 2 ^ 149)) (Fin False (64 * 2 ^ 149)) = Fin False (45 * 2 ^ 143)"
  "fl_lit F32 5 10 = Fin False (2 ^ 148)"
  by (simp_all add: ZONE_RESOLVE_CELL_M_def fl_eval)

lemma straddling_cell:
  "resolution_cell (Fin False (45 * 2 ^ 149), Fin False 0, Fin False 0) = (0, 0)"
  "resolution_cell_centre (0, 0) = (Fin False (32 * 2 ^ 149), Fin False (32 * 2 ^ 149))"
  by (simp_all add: resolution_cell_def resolution_cell_centre_def straddling_floats fl_to_i32_def fl_eval)

lemma cell_straddles_boundary:
  "let b = \<lparr>x_min = Fin False 0, y_min = Fin False 0, x_max = fl_of_int F32 40, y_max = fl_of_int F32 40\<rparr>;
       c = (fl_of_int F32 45, Fin False 0, Fin False 0)
   in \<not> aabb_contains b (fst c) (fst (snd c)) \<and>
      (case resolution_cell_centre (resolution_cell c) of (x, y) \<Rightarrow> aabb_contains b x y)"
  unfolding Let_def straddling_floats straddling_cell fst_conv snd_conv by (simp add: aabb_contains_def)

end
