(* ===== verification/State_Bags.thy ===== *)
theory State_Bags
  imports State_Messages Voice_State Routing_Buckets "HOL-Library.Char_ord" "HOL-Library.List_Lexorder" "HOL-Library.Sublist"
begin

text \<open>
  State bags and the routing control of the scripting host, \<open>crates/baston-scripting/src/state_bag.rs\<close>: the
  shared store with its change handlers, the bounded queue of replicated changes, the names of bags, and the
  in-memory routing tables. A \<open>HashMap\<close> is an association list, a \<open>BTreeMap\<close> an association list whose keys
  are listed sorted. The version of a write is drawn before the lock is taken, so \<open>bag_set\<close> is the composition
  of two atomic sections. The counters wrap, as a release build does.
\<close>

section \<open>The store\<close>

definition MAX_PENDING_DELIVERIES_PER_RESOURCE :: nat where "MAX_PENDING_DELIVERIES_PER_RESOURCE = 4096"
definition MAX_REPLICATED_CHANGES :: nat where "MAX_REPLICATED_CHANGES = 16384"

record bag_source =
  bs_resource :: "string option"
  bs_player :: "u32 option"

definition bag_source_resource :: "string \<Rightarrow> bag_source" where
  "bag_source_resource name = \<lparr>bs_resource = Some name, bs_player = None\<rparr>"

record bag_change =
  bc_bag :: string
  bc_key :: string
  bc_value :: json
  bc_version :: u64
  bc_replicated :: bool
  bc_source :: bag_source

record bag_delivery =
  sd_callback :: u32
  sd_change :: bag_change

record bag_handler =
  bh_resource :: string
  bh_callback :: u32
  bh_key_filter :: "string option"
  bh_bag_filter :: "string option"

record bag_store =
  bst_bags :: "(string \<times> (string \<times> json \<times> u64) list) list"
  bst_handlers :: "(u32 \<times> bag_handler) list"
  bst_pending :: "(string \<times> bag_delivery list) list"
  bst_replicated :: "bag_change list"
  bst_next_version :: u64
  bst_next_cookie :: u32

definition bst_new :: bag_store where
  "bst_new = \<lparr>bst_bags = [], bst_handlers = [], bst_pending = [], bst_replicated = [], bst_next_version = 0, bst_next_cookie = 0\<rparr>"

definition ensure_bag :: "string \<Rightarrow> bag_store \<Rightarrow> bag_store" where
  "ensure_bag bag s = s\<lparr>bst_bags := AList.map_default bag [] id (bst_bags s)\<rparr>"

definition bag_entry :: "string \<Rightarrow> string \<Rightarrow> bag_store \<Rightarrow> (json \<times> u64) option" where
  "bag_entry bag key s = Option.bind (map_of (bst_bags s) bag) (\<lambda>values. map_of values key)"

definition bag_get :: "string \<Rightarrow> string \<Rightarrow> bag_store \<Rightarrow> json option" where
  "bag_get bag key s = map_option fst (bag_entry bag key s)"

definition bag_contains_key :: "string \<Rightarrow> string \<Rightarrow> bag_store \<Rightarrow> bool" where
  "bag_contains_key bag key s \<longleftrightarrow> bag_entry bag key s \<noteq> None"

definition bag_keys :: "string \<Rightarrow> bag_store \<Rightarrow> string list" where
  "bag_keys bag s = (case map_of (bst_bags s) bag of None \<Rightarrow> [] | Some values \<Rightarrow> sort (map fst values))"

section \<open>Writing\<close>

definition handler_matches :: "bag_change \<Rightarrow> bag_handler \<Rightarrow> bool" where
  "handler_matches c h \<longleftrightarrow>
     (case bh_key_filter h of None \<Rightarrow> True | Some f \<Rightarrow> f = bc_key c) \<and>
     (case bh_bag_filter h of None \<Rightarrow> True | Some f \<Rightarrow> f = bc_bag c)"

text \<open>A full queue loses its oldest element.\<close>

definition push_delivery :: "string \<times> bag_delivery \<Rightarrow> (string \<times> bag_delivery list) list \<Rightarrow> (string \<times> bag_delivery list) list" where
  "push_delivery = (\<lambda>(resource, d) pending.
     let q = (case map_of pending resource of None \<Rightarrow> [] | Some q \<Rightarrow> q);
         q1 = (if MAX_PENDING_DELIVERIES_PER_RESOURCE \<le> length q then tl q else q)
     in AList.update resource (q1 @ [d]) pending)"

definition same_key :: "bag_change \<Rightarrow> bag_change \<Rightarrow> bool" where
  "same_key c c' \<longleftrightarrow> bc_bag c' = bc_bag c \<and> bc_key c' = bc_key c"

text \<open>The queue without its last element of the key (\<open>rposition\<close>, \<open>remove\<close>), if it has one.\<close>

fun remove_last_of :: "bag_change \<Rightarrow> bag_change list \<Rightarrow> bag_change list option" where
  "remove_last_of c [] = None"
| "remove_last_of c (x # xs) =
     (case remove_last_of c xs of
        Some ys \<Rightarrow> Some (x # ys)
      | None \<Rightarrow> if same_key c x then Some xs else None)"

definition push_replicated :: "bag_change \<Rightarrow> bag_change list \<Rightarrow> bag_change list" where
  "push_replicated c q =
     (case remove_last_of c q of
        Some q' \<Rightarrow> q' @ [c]
      | None \<Rightarrow> (if MAX_REPLICATED_CHANGES \<le> length q then tl q else q) @ [c])"

definition draw_version :: "bag_store \<Rightarrow> u64 \<times> bag_store" where
  "draw_version s = (bst_next_version s + 1, s\<lparr>bst_next_version := bst_next_version s + 1\<rparr>)"

definition bag_commit :: "bag_change \<Rightarrow> bag_store \<Rightarrow> bag_store" where
  "bag_commit c s =
     s\<lparr>bst_bags := AList.map_default (bc_bag c) [(bc_key c, bc_value c, bc_version c)]
          (AList.update (bc_key c) (bc_value c, bc_version c)) (bst_bags s),
       bst_pending := fold push_delivery
          (map (\<lambda>h. (bh_resource h, \<lparr>sd_callback = bh_callback h, sd_change = c\<rparr>))
            (filter (handler_matches c) (map snd (bst_handlers s)))) (bst_pending s),
       bst_replicated := (if bc_replicated c then push_replicated c (bst_replicated s) else bst_replicated s)\<rparr>"

definition bag_set :: "string \<Rightarrow> string \<Rightarrow> json \<Rightarrow> bool \<Rightarrow> bag_source \<Rightarrow> bag_store \<Rightarrow> bag_change \<times> bag_store" where
  "bag_set bag key value replicated source s =
     (case draw_version s of
        (version, s1) \<Rightarrow>
          let c = \<lparr>bc_bag = bag, bc_key = key, bc_value = value, bc_version = version, bc_replicated = replicated, bc_source = source\<rparr>
          in (c, bag_commit c s1))"

section \<open>Handlers and queues\<close>

definition normalize_filter :: "string option \<Rightarrow> string option" where
  "normalize_filter f = Option.bind f (\<lambda>v. if v \<noteq> [] then Some v else None)"

text \<open>The loop skips the cookie zero, which it meets at most once.\<close>

definition add_handler :: "string \<Rightarrow> string option \<Rightarrow> string option \<Rightarrow> u32 \<Rightarrow> bag_store \<Rightarrow> u32 \<times> bag_store" where
  "add_handler resource key_filter bag_filter callback_id s =
     (let cookie = (if bst_next_cookie s + 1 \<noteq> 0 then bst_next_cookie s + 1 else bst_next_cookie s + 2)
      in (cookie, s\<lparr>bst_next_cookie := cookie,
            bst_handlers := AList.update cookie \<lparr>bh_resource = resource, bh_callback = callback_id,
              bh_key_filter = normalize_filter key_filter, bh_bag_filter = normalize_filter bag_filter\<rparr> (bst_handlers s)\<rparr>))"

definition remove_handler :: "string \<Rightarrow> u32 \<Rightarrow> bag_store \<Rightarrow> bool \<times> bag_store" where
  "remove_handler resource cookie s =
     (case map_of (bst_handlers s) cookie of
        None \<Rightarrow> (False, s)
      | Some h \<Rightarrow> if bh_resource h = resource then (True, s\<lparr>bst_handlers := AList.delete cookie (bst_handlers s)\<rparr>) else (False, s))"

definition drain_deliveries :: "string \<Rightarrow> nat \<Rightarrow> bag_store \<Rightarrow> bag_delivery list \<times> bag_store" where
  "drain_deliveries resource limit s =
     (case map_of (bst_pending s) resource of
        None \<Rightarrow> ([], s)
      | Some q \<Rightarrow>
          (take limit q, s\<lparr>bst_pending := (if drop limit q = [] then AList.delete resource (bst_pending s)
             else AList.update resource (drop limit q) (bst_pending s))\<rparr>))"

definition pending_deliveries :: "bag_store \<Rightarrow> nat" where
  "pending_deliveries s = sum_list (map (\<lambda>(r, q). length q) (bst_pending s))"

definition drain_replicated :: "nat \<Rightarrow> bag_store \<Rightarrow> bag_change list \<times> bag_store" where
  "drain_replicated limit s = (take limit (bst_replicated s), s\<lparr>bst_replicated := drop limit (bst_replicated s)\<rparr>)"

definition cleanup_resource :: "string \<Rightarrow> bag_store \<Rightarrow> bag_store" where
  "cleanup_resource resource s =
     s\<lparr>bst_handlers := filter (\<lambda>(i, h). bh_resource h \<noteq> resource) (bst_handlers s),
       bst_pending := AList.delete resource (bst_pending s)\<rparr>"

definition remove_bag :: "string \<Rightarrow> bag_store \<Rightarrow> bag_store" where
  "remove_bag bag s = s\<lparr>bst_bags := AList.delete bag (bst_bags s)\<rparr>"

section \<open>Names of bags\<close>

definition entity_state_bag_name :: "u32 \<Rightarrow> string" where
  "entity_state_bag_name e = ''entity:'' @ show_nat (unat e)"

definition player_state_bag_name :: "u32 \<Rightarrow> string" where
  "player_state_bag_name p = ''player:'' @ show_nat (unat p)"

definition strip_prefix :: "string \<Rightarrow> string \<Rightarrow> string option" where
  "strip_prefix pre s = (if take (length pre) s = pre then Some (drop (length pre) s) else None)"

definition parse_bag_id :: "string \<Rightarrow> string \<Rightarrow> u32 option" where
  "parse_bag_id name pre = Option.bind (strip_prefix pre name) parse_u32"

definition entity_from_state_bag_name :: "string \<Rightarrow> u32 option" where
  "entity_from_state_bag_name name = parse_bag_id name ''entity:''"

definition player_from_state_bag_name :: "string \<Rightarrow> u32 option" where
  "player_from_state_bag_name name = parse_bag_id name ''player:''"

section \<open>Routing control\<close>

definition to_ascii_lowercase :: "char \<Rightarrow> char" where
  "to_ascii_lowercase c = (let n = (of_char c :: nat) in if 65 \<le> n \<and> n \<le> 90 then char_of (n + 32) else c)"

definition parse_lockdown :: "string \<Rightarrow> lockdown_mode option" where
  "parse_lockdown value =
     (let v = map to_ascii_lowercase value in
      if v = ''inactive'' then Some LockInactive
      else if v = ''relaxed'' then Some LockRelaxed
      else if v = ''strict'' then Some LockStrict
      else None)"

record routing_control =
  rc_entities :: "u32 \<rightharpoonup> u32"
  rc_players :: "u32 \<rightharpoonup> u32"
  rc_lockdown :: "u32 \<rightharpoonup> lockdown_mode"
  rc_population :: "u32 \<rightharpoonup> bool"
  rc_revision :: u64

definition rc_touch :: "routing_control \<Rightarrow> routing_control" where
  "rc_touch r = r\<lparr>rc_revision := rc_revision r + 1\<rparr>"

definition rc_entity_bucket :: "u32 \<Rightarrow> routing_control \<Rightarrow> u32" where
  "rc_entity_bucket e r = unwrap_or 0 (rc_entities r e)"

definition rc_set_entity_bucket :: "u32 \<Rightarrow> u32 \<Rightarrow> routing_control \<Rightarrow> routing_control" where
  "rc_set_entity_bucket e bucket r =
     rc_touch (r\<lparr>rc_entities := (if bucket = 0 then (rc_entities r)(e := None) else (rc_entities r)(e \<mapsto> bucket))\<rparr>)"

definition rc_remove_entity :: "u32 \<Rightarrow> routing_control \<Rightarrow> routing_control" where
  "rc_remove_entity e r = rc_touch (r\<lparr>rc_entities := (rc_entities r)(e := None)\<rparr>)"

definition rc_player_bucket :: "u32 \<Rightarrow> routing_control \<Rightarrow> u32" where
  "rc_player_bucket p r = unwrap_or 0 (rc_players r p)"

definition rc_set_player_bucket :: "u32 \<Rightarrow> u32 \<Rightarrow> routing_control \<Rightarrow> routing_control" where
  "rc_set_player_bucket p bucket r =
     rc_touch (r\<lparr>rc_players := (if bucket = 0 then (rc_players r)(p := None) else (rc_players r)(p \<mapsto> bucket))\<rparr>)"

definition rc_lockdown_mode :: "u32 \<Rightarrow> routing_control \<Rightarrow> lockdown_mode" where
  "rc_lockdown_mode b r = unwrap_or LockInactive (rc_lockdown r b)"

definition rc_set_lockdown_mode :: "u32 \<Rightarrow> lockdown_mode \<Rightarrow> routing_control \<Rightarrow> routing_control" where
  "rc_set_lockdown_mode b mode r = rc_touch (r\<lparr>rc_lockdown := (rc_lockdown r)(b \<mapsto> mode)\<rparr>)"

definition rc_population_enabled :: "u32 \<Rightarrow> routing_control \<Rightarrow> bool" where
  "rc_population_enabled b r = unwrap_or True (rc_population r b)"

definition rc_set_population_enabled :: "u32 \<Rightarrow> bool \<Rightarrow> routing_control \<Rightarrow> routing_control" where
  "rc_set_population_enabled b enabled r = rc_touch (r\<lparr>rc_population := (rc_population r)(b \<mapsto> enabled)\<rparr>)"

interpretation script_entities: sparse_table rc_entity_bucket rc_set_entity_bucket rc_remove_entity rc_entities 0
  by unfold_locales
    (auto simp: rc_entity_bucket_def rc_set_entity_bucket_def rc_remove_entity_def rc_touch_def unwrap_or_def)

section \<open>Replication\<close>

lemma map_default_entry: "map_of (AList.map_default k v f al) = (map_of al)(k \<mapsto> case map_of al k of None \<Rightarrow> v | Some v' \<Rightarrow> f v')"
  by (induction al) auto

lemma bag_entry_commit:
  "bag_entry b k (bag_commit c s) = (if b = bc_bag c \<and> k = bc_key c then Some (bc_value c, bc_version c) else bag_entry b k s)"
  by (auto simp: bag_entry_def bag_commit_def map_default_entry update_conv' split: option.split)

text \<open>Runs of the store: the replicated writes in order, and what the network has drained.\<close>

datatype bag_cmd =
    BcSet string string json bool bag_source
  | BcDrain nat
  | BcEnsure string
  | BcRemoveBag string
  | BcAddHandler string "string option" "string option" u32
  | BcRemoveHandler string u32
  | BcDrainDeliveries string nat
  | BcCleanup string

type_synonym bag_run = "bag_store \<times> bag_change list \<times> bag_change list"

fun bag_step :: "bag_cmd \<Rightarrow> bag_run \<Rightarrow> bag_run" where
  "bag_step (BcSet b k v r src) (s, ws, ds) =
     (case bag_set b k v r src s of (c, s') \<Rightarrow> (s', if r then ws @ [c] else ws, ds))"
| "bag_step (BcDrain n) (s, ws, ds) = (case drain_replicated n s of (cs, s') \<Rightarrow> (s', ws, ds @ cs))"
| "bag_step (BcEnsure b) (s, ws, ds) = (ensure_bag b s, ws, ds)"
| "bag_step (BcRemoveBag b) (s, ws, ds) = (remove_bag b s, ws, ds)"
| "bag_step (BcAddHandler r k b i) (s, ws, ds) = (snd (add_handler r k b i s), ws, ds)"
| "bag_step (BcRemoveHandler r i) (s, ws, ds) = (snd (remove_handler r i s), ws, ds)"
| "bag_step (BcDrainDeliveries r n) (s, ws, ds) = (snd (drain_deliveries r n s), ws, ds)"
| "bag_step (BcCleanup r) (s, ws, ds) = (cleanup_resource r s, ws, ds)"

definition bag_run :: "bag_cmd list \<Rightarrow> bag_run" where
  "bag_run cmds = fold bag_step cmds (bst_new, [], [])"

text \<open>What a receiver holds that applies changes in order, the last write winning.\<close>

definition apply_change :: "bag_change \<Rightarrow> (string \<times> string \<rightharpoonup> bag_change) \<Rightarrow> string \<times> string \<rightharpoonup> bag_change" where
  "apply_change c m = m((bc_bag c, bc_key c) \<mapsto> c)"

definition replica :: "bag_change list \<Rightarrow> string \<times> string \<rightharpoonup> bag_change" where
  "replica cs = fold apply_change cs Map.empty"

text \<open>The queue has room for the write, or an unsent change of the key to replace.\<close>

definition queue_room :: "string \<Rightarrow> string \<Rightarrow> bag_change list \<Rightarrow> bool" where
  "queue_room b k q \<longleftrightarrow> length q < MAX_REPLICATED_CHANGES \<or> (\<exists>x \<in> set q. bc_bag x = b \<and> bc_key x = k)"

fun never_full :: "bag_cmd list \<Rightarrow> bag_run \<Rightarrow> bool" where
  "never_full [] st = True"
| "never_full (c # cs) st =
     ((case c of BcSet b k v r src \<Rightarrow> r \<longrightarrow> queue_room b k (bst_replicated (fst st)) | _ \<Rightarrow> True) \<and> never_full cs (bag_step c st))"

text \<open>Every write is replicated and no bag is removed.\<close>

definition all_shared :: "bag_cmd list \<Rightarrow> bool" where
  "all_shared cmds = list_all (\<lambda>c. case c of BcSet b k v r src \<Rightarrow> r | BcRemoveBag b \<Rightarrow> False | _ \<Rightarrow> True) cmds"

lemma replica_append: "replica (xs @ [c]) = (replica xs)((bc_bag c, bc_key c) \<mapsto> c)"
  by (simp add: replica_def apply_change_def)

lemma apply_skips: "same_key c x \<Longrightarrow> apply_change c (fold apply_change ys (apply_change x m)) = apply_change c (fold apply_change ys m)"
proof (induction ys arbitrary: m rule: rev_induct)
  case Nil
  then show ?case by (auto simp: apply_change_def same_key_def fun_eq_iff)
next
  case (snoc y ys)
  have swap: "apply_change c (apply_change y n) =
      (if same_key c y then apply_change c n else apply_change y (apply_change c n))" for n
    by (auto simp: apply_change_def same_key_def fun_upd_twist)
  show ?case using snoc by (simp add: swap)
qed

lemma remove_last_of_cases:
  assumes "remove_last_of c q = Some q'"
  obtains xs x ys where "q = xs @ x # ys" "q' = xs @ ys" "same_key c x"
  using assms
proof (induction q arbitrary: q' thesis)
  case (Cons a q)
  show ?case
  proof (cases "remove_last_of c q")
    case None
    then show ?thesis using Cons.prems(2) Cons.prems(1) [of "[]" a q] by (simp split: if_splits)
  next
    case (Some ys)
    show ?thesis
    proof (rule Cons.IH [OF _ Some])
      fix us x vs
      assume "q = us @ x # vs" "ys = us @ vs" "same_key c x"
      then show ?thesis using Cons.prems(1) [of "a # us" x vs] Cons.prems(2) Some by simp
    qed
  qed
qed simp

lemma remove_last_of_None: "remove_last_of c q = None \<longleftrightarrow> (\<forall>x \<in> set q. \<not> same_key c x)"
  by (induction q) (auto split: option.split)

text \<open>The effect of a replicated write on the queue.\<close>

lemma push_replicated_spec:
  shows "length q \<le> MAX_REPLICATED_CHANGES \<Longrightarrow> length (push_replicated c q) \<le> MAX_REPLICATED_CHANGES"
    and "subseq (push_replicated c q) (q @ [c])"
    and "queue_room (bc_bag c) (bc_key c) q \<Longrightarrow> replica (ds @ push_replicated c q) = replica (ds @ q @ [c])"
proof -
  have "(length q \<le> MAX_REPLICATED_CHANGES \<longrightarrow> length (push_replicated c q) \<le> MAX_REPLICATED_CHANGES) \<and>
    subseq (push_replicated c q) (q @ [c]) \<and>
    (queue_room (bc_bag c) (bc_key c) q \<longrightarrow> replica (ds @ push_replicated c q) = replica (ds @ q @ [c]))"
  proof (cases "remove_last_of c q")
    case None
    then have "queue_room (bc_bag c) (bc_key c) q \<Longrightarrow> length q < MAX_REPLICATED_CHANGES"
      by (auto simp: remove_last_of_None queue_room_def same_key_def)
    moreover have "subseq (tl q) q" by (cases q) auto
    ultimately show ?thesis using None
      by (auto simp: push_replicated_def MAX_REPLICATED_CHANGES_def intro: list_emb_append_mono)
  next
    case (Some q')
    then obtain xs x ys where q: "q = xs @ x # ys" "q' = xs @ ys" "same_key c x" by (rule remove_last_of_cases)
    have "subseq (xs @ ys) (xs @ x # ys)" by (intro list_emb_append_mono) auto
    then have "subseq (q' @ [c]) (q @ [c])" unfolding q by (intro list_emb_append_mono) auto
    moreover have "replica (ds @ q' @ [c]) = replica (ds @ q @ [c])"
      using apply_skips [OF q(3), of ys "fold apply_change (ds @ xs) Map.empty"] by (simp add: replica_def q)
    ultimately show ?thesis using Some q by (simp add: push_replicated_def)
  qed
  then show "length q \<le> MAX_REPLICATED_CHANGES \<Longrightarrow> length (push_replicated c q) \<le> MAX_REPLICATED_CHANGES"
    "subseq (push_replicated c q) (q @ [c])"
    "queue_room (bc_bag c) (bc_key c) q \<Longrightarrow> replica (ds @ push_replicated c q) = replica (ds @ q @ [c])" by blast+
qed

definition stream_ok :: "bag_run \<Rightarrow> bool" where
  "stream_ok st \<longleftrightarrow> (case st of (s, ws, ds) \<Rightarrow>
     subseq (ds @ bst_replicated s) ws \<and> length (bst_replicated s) \<le> MAX_REPLICATED_CHANGES)"

definition caught_up :: "bag_run \<Rightarrow> bool" where
  "caught_up st \<longleftrightarrow> (case st of (s, ws, ds) \<Rightarrow> replica (ds @ bst_replicated s) = replica ws)"

definition shared_store :: "bag_run \<Rightarrow> bool" where
  "shared_store st \<longleftrightarrow> (case st of (s, ws, ds) \<Rightarrow>
     \<forall>b k. bag_entry b k s = map_option (\<lambda>c. (bc_value c, bc_version c)) (replica ws (b, k)))"

lemma bag_set_parts:
  assumes "bag_set b k v r src s = (c, s')"
  shows "bc_bag c = b" "bc_key c = k" "bst_replicated s' = (if r then push_replicated c (bst_replicated s) else bst_replicated s)"
    and "bag_entry b' k' s' = (if b' = b \<and> k' = k then Some (bc_value c, bc_version c) else bag_entry b' k' s)"
proof -
  obtain s1 where s1: "s' = bag_commit c s1" "bst_replicated s1 = bst_replicated s" "bag_entry b' k' s1 = bag_entry b' k' s"
    and c: "bc_bag c = b" "bc_key c = k" "bc_replicated c = r"
    using assms by (auto simp: bag_set_def draw_version_def bag_entry_def Let_def)
  show "bc_bag c = b" "bc_key c = k" using c by simp_all
  show "bst_replicated s' = (if r then push_replicated c (bst_replicated s) else bst_replicated s)"
    using s1(1,2) c(3) by (simp add: bag_commit_def)
  show "bag_entry b' k' s' = (if b' = b \<and> k' = k then Some (bc_value c, bc_version c) else bag_entry b' k' s)"
    using s1(1,3) c(1,2) by (simp add: bag_entry_commit)
qed

lemma other_ops_frame [simp]:
  "bst_replicated (ensure_bag b s) = bst_replicated s" "bst_replicated (remove_bag b s) = bst_replicated s"
  "bst_replicated (snd (add_handler r kf bf i s)) = bst_replicated s" "bst_replicated (snd (remove_handler r i s)) = bst_replicated s"
  "bst_replicated (snd (drain_deliveries r n s)) = bst_replicated s" "bst_replicated (cleanup_resource r s) = bst_replicated s"
  "bag_entry b' k (ensure_bag b s) = bag_entry b' k s" "bag_entry b' k (snd (add_handler r kf bf i s)) = bag_entry b' k s"
  "bag_entry b' k (snd (remove_handler r i s)) = bag_entry b' k s" "bag_entry b' k (snd (drain_deliveries r n s)) = bag_entry b' k s"
  "bag_entry b' k (cleanup_resource r s) = bag_entry b' k s" "bag_entry b' k (s\<lparr>bst_replicated := q\<rparr>) = bag_entry b' k s"
  by (auto simp: ensure_bag_def remove_bag_def add_handler_def remove_handler_def drain_deliveries_def cleanup_resource_def
      bag_entry_def map_default_entry Let_def split: option.split)

lemma bag_step_stream: "stream_ok st \<Longrightarrow> stream_ok (bag_step c st)"
proof (cases "(c, st)" rule: bag_step.cases)
  case (1 b k v r src s ws ds)
  assume ok: "stream_ok st"
  obtain c' s' where set: "bag_set b k v r src s = (c', s')" by force
  have q: "subseq (push_replicated c' (bst_replicated s)) (bst_replicated s @ [c'])" by (rule push_replicated_spec(2))
  have "subseq (ds @ push_replicated c' (bst_replicated s)) (ds @ bst_replicated s @ [c'])"
    using q by (intro list_emb_append_mono) simp_all
  moreover have "subseq (ds @ bst_replicated s @ [c']) (ws @ [c'])"
    using ok 1 list_emb_append_mono [of "(=)" "ds @ bst_replicated s" ws "[c']" "[c']"] by (simp add: stream_ok_def)
  ultimately have "subseq (ds @ push_replicated c' (bst_replicated s)) (ws @ [c'])" by (rule subseq_order.trans)
  then show ?thesis using ok 1 set push_replicated_spec(1) bag_set_parts(3) [OF set] by (simp add: stream_ok_def)
qed (auto simp: stream_ok_def drain_replicated_def)

lemma bag_step_caught_up:
  assumes "caught_up st" and "case c of BcSet b k v r src \<Rightarrow> r \<longrightarrow> queue_room b k (bst_replicated (fst st)) | _ \<Rightarrow> True"
  shows "caught_up (bag_step c st)"
proof (cases "(c, st)" rule: bag_step.cases)
  case (1 b k v r src s ws ds)
  obtain c' s' where set: "bag_set b k v r src s = (c', s')" by force
  note P = bag_set_parts [OF set]
  have "replica (ds @ bst_replicated s @ [c']) = replica (ws @ [c'])"
    using assms(1) 1 replica_append [of "ds @ bst_replicated s" c'] replica_append [of ws c'] by (simp add: caught_up_def)
  then have "r \<Longrightarrow> replica (ds @ push_replicated c' (bst_replicated s)) = replica (ws @ [c'])"
    using push_replicated_spec(3) [of c' "bst_replicated s" ds] P(1,2) assms(2) 1 by simp
  then show ?thesis using assms(1) 1 set P(3) by (simp add: caught_up_def)
qed (use assms(1) in \<open>auto simp: caught_up_def drain_replicated_def\<close>)

lemma bag_step_shared:
  assumes "shared_store st" and "case c of BcSet b k v r src \<Rightarrow> r | BcRemoveBag b \<Rightarrow> False | _ \<Rightarrow> True"
  shows "shared_store (bag_step c st)"
proof (cases "(c, st)" rule: bag_step.cases)
  case (1 b k v r src s ws ds)
  obtain c' s' where set: "bag_set b k v r src s = (c', s')" by force
  note P = bag_set_parts [OF set]
  show ?thesis using assms 1 set P(1,2,4) by (auto simp: shared_store_def replica_append)
qed (use assms in \<open>auto simp: shared_store_def drain_replicated_def\<close>)

lemma bag_run_stream: "stream_ok st \<Longrightarrow> stream_ok (fold bag_step cmds st)"
  by (induction cmds arbitrary: st) (simp_all add: bag_step_stream)

lemma bag_run_caught_up: "caught_up st \<Longrightarrow> never_full cmds st \<Longrightarrow> caught_up (fold bag_step cmds st)"
proof (induction cmds arbitrary: st)
  case (Cons c cmds)
  show ?case using Cons.IH [OF bag_step_caught_up [OF Cons.prems(1)]] Cons.prems(2) by simp
qed simp

lemma bag_run_shared: "shared_store st \<Longrightarrow> all_shared cmds \<Longrightarrow> shared_store (fold bag_step cmds st)"
proof (induction cmds arbitrary: st)
  case (Cons c cmds)
  show ?case using Cons.IH [OF bag_step_shared [OF Cons.prems(1)]] Cons.prems(2) by (simp add: all_shared_def)
qed simp

text \<open>C26. The network sees the state bags converge. Over any sequence of operations the stream of changes
  (those drained for the network, then those still queued) is a subsequence of the replicated writes in their order,
  and the queue stays bounded. A receiver that applies the stream ends with the last replicated
  write of every key, although writes of a key that was not yet sent are coalesced, as long as the queue never
  overflows; and when every write is replicated and no bag is removed, that is what the store itself holds, value and
  version.\<close>

theorem replication_converges:
  "case bag_run cmds of (s, writes, drained) \<Rightarrow>
     let stream = drained @ bst_replicated s in
     subseq stream writes \<and> length (bst_replicated s) \<le> MAX_REPLICATED_CHANGES \<and>
     (never_full cmds (bst_new, [], []) \<longrightarrow> replica stream = replica writes \<and>
       (all_shared cmds \<longrightarrow>
         (\<forall>b k. bag_entry b k s = map_option (\<lambda>c. (bc_value c, bc_version c)) (replica stream (b, k)))))"
proof -
  have "stream_ok (bst_new, [], [])" "caught_up (bst_new, [], [])" "shared_store (bst_new, [], [])"
    by (simp_all add: stream_ok_def caught_up_def shared_store_def bst_new_def replica_def bag_entry_def)
  note I = bag_run_stream [OF this(1), of cmds] bag_run_caught_up [OF this(2), of cmds] bag_run_shared [OF this(3), of cmds]
  obtain s ws ds where r: "bag_run cmds = (s, ws, ds)" using prod_cases3 by blast
  show ?thesis using I unfolding r bag_run_def [symmetric]
    by (auto simp: Let_def stream_ok_def caught_up_def shared_store_def r)
qed

definition demo_writes :: "bag_cmd list" where
  "demo_writes = [BcSet ''g'' ''k'' (JBool True) True (bag_source_resource ''r''),
     BcSet ''g'' ''k'' (JBool False) True (bag_source_resource ''r''), BcDrain 1]"

theorem replication_converges_witness:
  "never_full demo_writes (bst_new, [], []) \<and> all_shared demo_writes \<and>
   (case bag_run demo_writes of (s, writes, drained) \<Rightarrow>
      length writes = 2 \<and> length (drained @ bst_replicated s) = 1 \<and> replica (drained @ bst_replicated s) = replica writes)"
proof -
  have h: "never_full demo_writes (bst_new, [], [])" "all_shared demo_writes"
    by (simp_all add: demo_writes_def all_shared_def queue_room_def MAX_REPLICATED_CHANGES_def bag_set_def draw_version_def
        bag_commit_def push_replicated_def same_key_def bst_new_def Let_def)
  have "case bag_run demo_writes of (s, writes, drained) \<Rightarrow> length writes = 2 \<and> length (drained @ bst_replicated s) = 1"
    by (simp add: demo_writes_def bag_run_def bag_set_def draw_version_def bag_commit_def push_replicated_def same_key_def
        bst_new_def drain_replicated_def MAX_REPLICATED_CHANGES_def Let_def)
  then show ?thesis using replication_converges [of demo_writes] h by (auto simp: Let_def split: prod.splits)
qed

text \<open>The version is drawn before the lock: when two writers of a key take the lock in the other order, the
  older version replaces the newer one in the store and in the queue.\<close>

lemma older_version_wins:
  assumes "draw_version s = (v1, s1)" "draw_version s1 = (v2, s2)" "unat (bst_next_version s) < 2 ^ 64 - 2"
    and "c1 = \<lparr>bc_bag = b, bc_key = k, bc_value = x1, bc_version = v1, bc_replicated = True, bc_source = src1\<rparr>"
    and "c2 = \<lparr>bc_bag = b, bc_key = k, bc_value = x2, bc_version = v2, bc_replicated = True, bc_source = src2\<rparr>"
  shows "v1 < v2 \<and> bag_entry b k (bag_commit c1 (bag_commit c2 s2)) = Some (x1, v1) \<and>
    last (bst_replicated (bag_commit c1 (bag_commit c2 s2))) = c1"
proof -
  have v: "v1 = bst_next_version s + 1" "v2 = bst_next_version s + 1 + 1" "bst_replicated s2 = bst_replicated s"
    using assms(1,2) by (auto simp: draw_version_def)
  have "unat (bst_next_version s + 1) = unat (bst_next_version s) + 1" using assms(3) unat_add_lem [of "bst_next_version s" 1] by simp
  then have "unat v1 < unat v2" using v assms(3) unat_add_lem [of "bst_next_version s + 1" 1] by simp
  then have "v1 < v2" by (simp add: word_less_nat_alt)
  moreover have "bag_entry b k (bag_commit c1 (bag_commit c2 s2)) = Some (x1, v1)" using assms(4,5) by (simp add: bag_entry_commit)
  moreover have "last (push_replicated c q) = c" for c q by (simp add: push_replicated_def split: option.split)
  then have "last (bst_replicated (bag_commit c1 s')) = c1" for s' using assms(4) by (simp add: bag_commit_def)
  ultimately show ?thesis by blast
qed

section \<open>Names and bounds\<close>

lemma parse_shown: "parse_u32 (show_nat (unat n)) = Some n"
proof -
  note sp = show_nat_spec [of "unat n"]
  obtain c r where c: "show_nat (unat n) = c # r" "c \<noteq> CHR ''+''"
    using sp digit_not_special by (cases "show_nat (unat n)") auto
  have "uint n < 4294967296" using uint_lt2p [of n] by simp
  then show ?thesis using sp c by (simp add: parse_u32_def Let_def)
qed

text \<open>A bag name gives its id back, and the names of entities and players do not mix.\<close>

theorem bag_names_roundtrip:
  "entity_from_state_bag_name (entity_state_bag_name n) = Some n \<and> player_from_state_bag_name (player_state_bag_name n) = Some n \<and>
   entity_from_state_bag_name (player_state_bag_name n) = None \<and> player_from_state_bag_name (entity_state_bag_name n) = None"
  by (simp add: entity_from_state_bag_name_def player_from_state_bag_name_def parse_bag_id_def strip_prefix_def
      entity_state_bag_name_def player_state_bag_name_def parse_shown)

text \<open>A resource's queue of deliveries is bounded, whatever is pushed.\<close>

lemma push_delivery_bounded:
  assumes "\<forall>r q. map_of pending r = Some q \<longrightarrow> length q \<le> MAX_PENDING_DELIVERIES_PER_RESOURCE"
  shows "\<forall>r q. map_of (fold push_delivery ds pending) r = Some q \<longrightarrow> length q \<le> MAX_PENDING_DELIVERIES_PER_RESOURCE"
  using assms
proof (induction ds arbitrary: pending)
  case (Cons d ds)
  obtain r0 x where d: "d = (r0, x)" by force
  define q0 where "q0 = (case map_of pending r0 of None \<Rightarrow> [] | Some q \<Rightarrow> q)"
  have q0: "length q0 \<le> MAX_PENDING_DELIVERIES_PER_RESOURCE"
    using Cons.prems by (cases "map_of pending r0") (auto simp: q0_def)
  obtain q1 where q1: "push_delivery d pending = AList.update r0 q1 pending"
    "q1 = (if MAX_PENDING_DELIVERIES_PER_RESOURCE \<le> length q0 then tl q0 else q0) @ [x]"
    by (simp add: push_delivery_def d q0_def Let_def)
  from q1(2) have "length q1 \<le> MAX_PENDING_DELIVERIES_PER_RESOURCE"
    using q0 by (auto simp: MAX_PENDING_DELIVERIES_PER_RESOURCE_def)
  then have "\<forall>r q. map_of (push_delivery d pending) r = Some q \<longrightarrow> length q \<le> MAX_PENDING_DELIVERIES_PER_RESOURCE"
    using Cons.prems q1(1) by (simp add: update_conv')
  then show ?case using Cons.IH by simp
qed simp

text \<open>Every write of the routing tables moves the revision, so a reader that compares revisions sees it.\<close>

lemma routing_writes_revise:
  "rc_revision (rc_set_entity_bucket e b r) = rc_revision r + 1" "rc_revision (rc_remove_entity e r) = rc_revision r + 1"
  "rc_revision (rc_set_player_bucket p b r) = rc_revision r + 1" "rc_revision (rc_set_lockdown_mode b m r) = rc_revision r + 1"
  "rc_revision (rc_set_population_enabled b v r) = rc_revision r + 1"
  by (simp_all add: rc_set_entity_bucket_def rc_remove_entity_def rc_set_player_bucket_def rc_set_lockdown_mode_def
      rc_set_population_enabled_def rc_touch_def)

end
