(* ===== verification/Kvp_Store.thy ===== *)
theory Kvp_Store
  imports Voice_State "HOL-Library.Char_ord" "HOL-Library.List_Lexorder"
begin

text \<open>
  The persistent key/value storage of resources, \<open>crates/baston-scripting/src/kvp.rs\<close>, with the disk it writes to:
  the file, the temporary file beside it, and every way a write can fail. The JSON coding of \<open>serde_json\<close> is the
  parameter \<open>kvp_json\<close> with the contract \<open>kvp_json_spec\<close>: what was encoded decodes to itself. A \<open>DashMap\<close> is an
  association list, a \<open>BTreeMap\<close> an ordered one. Creating the parent directory is part of the outcome of a write;
  the periodic task that calls \<open>flush\<close> is not modelled.
\<close>

section \<open>Flat keys\<close>

definition SEPARATOR :: char where "SEPARATOR = CHR 0x00"

definition flat_key :: "string \<Rightarrow> string \<Rightarrow> string" where
  "flat_key resource key = resource @ [SEPARATOR] @ key"

text \<open>\<open>str::split_once\<close> at the separator.\<close>

definition split_flat :: "string \<Rightarrow> (string \<times> string) option" where
  "split_flat flat =
     (if SEPARATOR \<in> set flat
      then Some (takeWhile (\<lambda>c. c \<noteq> SEPARATOR) flat, tl (dropWhile (\<lambda>c. c \<noteq> SEPARATOR) flat)) else None)"

definition resource_of :: "string \<Rightarrow> string option" where
  "resource_of flat = map_option fst (split_flat flat)"

definition key_of :: "string \<Rightarrow> string option" where
  "key_of flat = map_option snd (split_flat flat)"

section \<open>The store and the disk\<close>

type_synonym kvp_map = "(string \<times> (string \<times> string) list) list"

record kvp_json =
  kj_encode :: "kvp_map \<Rightarrow> u8 list option"
  kj_decode :: "u8 list \<Rightarrow> kvp_map option"

definition kvp_json_spec :: "kvp_json \<Rightarrow> bool" where
  "kvp_json_spec j \<longleftrightarrow> (\<forall>m bytes. kj_encode j m = Some bytes \<longrightarrow> kj_decode j bytes = Some m)"

record kvp_store =
  kv_entries :: "(string \<times> string) list"
  kv_has_path :: bool
  kv_dirty :: bool

record kvp_disk =
  kd_file :: "u8 list option"
  kd_tmp :: "u8 list option"

text \<open>How a write to disk ends: the directory cannot be made, the temporary file is cut short, the rename
  fails, or all goes well.\<close>

datatype write_outcome = DirFails | TmpCutShort nat | RenameFails | WriteOk

definition kv_in_memory :: kvp_store where
  "kv_in_memory = \<lparr>kv_entries = [], kv_has_path = False, kv_dirty = False\<rparr>"

definition load_resource :: "string \<times> (string \<times> string) list \<Rightarrow> (string \<times> string) list \<Rightarrow> (string \<times> string) list" where
  "load_resource = (\<lambda>(resource, keys) entries. fold (\<lambda>(key, value). AList.update (flat_key resource key) value) keys entries)"

definition kv_open :: "kvp_json \<Rightarrow> kvp_disk \<Rightarrow> kvp_store" where
  "kv_open j d =
     \<lparr>kv_entries =
        (case kd_file d of
           None \<Rightarrow> []
         | Some raw \<Rightarrow> (case kj_decode j raw of None \<Rightarrow> [] | Some by_resource \<Rightarrow> fold load_resource by_resource [])),
      kv_has_path = True, kv_dirty = False\<rparr>"

definition kv_get :: "string \<Rightarrow> string \<Rightarrow> kvp_store \<Rightarrow> string option" where
  "kv_get resource key s = map_of (kv_entries s) (flat_key resource key)"

definition keys_with_prefix :: "string \<Rightarrow> string \<Rightarrow> kvp_store \<Rightarrow> string list" where
  "keys_with_prefix resource pre s =
     (let scope = flat_key resource pre
      in sort (List.map_filter key_of (filter (\<lambda>flat. take (length scope) flat = scope) (map fst (kv_entries s)))))"

definition kv_len :: "kvp_store \<Rightarrow> nat" where "kv_len s = length (kv_entries s)"
definition kv_is_empty :: "kvp_store \<Rightarrow> bool" where "kv_is_empty s \<longleftrightarrow> kv_entries s = []"

definition group_entry :: "string \<times> string \<Rightarrow> kvp_map \<Rightarrow> kvp_map" where
  "group_entry = (\<lambda>(flat, value) m.
     case (resource_of flat, key_of flat) of
       (Some resource, Some key) \<Rightarrow>
         bt_insert resource (bt_insert key value (case map_of m resource of None \<Rightarrow> [] | Some keys \<Rightarrow> keys)) m
     | _ \<Rightarrow> m)"

definition by_resource :: "(string \<times> string) list \<Rightarrow> kvp_map" where
  "by_resource entries = fold group_entry entries []"

definition write_to :: "kvp_json \<Rightarrow> write_outcome \<Rightarrow> kvp_store \<Rightarrow> kvp_disk \<Rightarrow> bool \<times> kvp_disk" where
  "write_to j w s d =
     (case kj_encode j (by_resource (kv_entries s)) of
        None \<Rightarrow> (False, d)
      | Some encoded \<Rightarrow>
          (case w of
             DirFails \<Rightarrow> (False, d)
           | TmpCutShort n \<Rightarrow> (False, d\<lparr>kd_tmp := Some (take n encoded)\<rparr>)
           | RenameFails \<Rightarrow> (False, d\<lparr>kd_tmp := Some encoded\<rparr>)
           | WriteOk \<Rightarrow> (True, d\<lparr>kd_file := Some encoded, kd_tmp := None\<rparr>)))"

definition kv_flush :: "kvp_json \<Rightarrow> write_outcome \<Rightarrow> kvp_store \<times> kvp_disk \<Rightarrow> kvp_store \<times> kvp_disk" where
  "kv_flush j w sd = (case sd of (s, d) \<Rightarrow>
     if \<not> kv_has_path s then (s\<lparr>kv_dirty := False\<rparr>, d)
     else if \<not> kv_dirty s then (s, d)
     else case write_to j w s d of (ok, d') \<Rightarrow> (s\<lparr>kv_dirty := \<not> ok\<rparr>, d'))"

definition kv_mark_dirty :: "kvp_json \<Rightarrow> write_outcome \<Rightarrow> bool \<Rightarrow> kvp_store \<times> kvp_disk \<Rightarrow> kvp_store \<times> kvp_disk" where
  "kv_mark_dirty j w sync sd = (case sd of (s, d) \<Rightarrow>
     if sync then kv_flush j w (s\<lparr>kv_dirty := True\<rparr>, d) else (s\<lparr>kv_dirty := True\<rparr>, d))"

definition kv_set :: "kvp_json \<Rightarrow> write_outcome \<Rightarrow> string \<Rightarrow> string \<Rightarrow> string \<Rightarrow> bool \<Rightarrow> kvp_store \<times> kvp_disk \<Rightarrow> kvp_store \<times> kvp_disk" where
  "kv_set j w resource key value sync sd = (case sd of (s, d) \<Rightarrow>
     kv_mark_dirty j w sync (s\<lparr>kv_entries := AList.update (flat_key resource key) value (kv_entries s)\<rparr>, d))"

definition kv_remove :: "kvp_json \<Rightarrow> write_outcome \<Rightarrow> string \<Rightarrow> string \<Rightarrow> bool \<Rightarrow> kvp_store \<times> kvp_disk \<Rightarrow> kvp_store \<times> kvp_disk" where
  "kv_remove j w resource key sync sd = (case sd of (s, d) \<Rightarrow>
     kv_mark_dirty j w sync (s\<lparr>kv_entries := AList.delete (flat_key resource key) (kv_entries s)\<rparr>, d))"

section \<open>Saving and loading\<close>

lemma split_flat_key: "SEPARATOR \<notin> set r \<Longrightarrow> split_flat (flat_key r k) = Some (r, k)"
  by (simp add: split_flat_def flat_key_def takeWhile_append dropWhile_append)

lemma split_flat_join: "split_flat flat = Some (r, k) \<longleftrightarrow> flat = flat_key r k \<and> SEPARATOR \<notin> set r"
proof
  assume a: "split_flat flat = Some (r, k)"
  then have S: "SEPARATOR \<in> set flat" "r = takeWhile (\<lambda>c. c \<noteq> SEPARATOR) flat" "k = tl (dropWhile (\<lambda>c. c \<noteq> SEPARATOR) flat)"
    by (auto simp: split_flat_def split: if_splits)
  obtain c rest where d: "dropWhile (\<lambda>c. c \<noteq> SEPARATOR) flat = c # rest" "c = SEPARATOR"
    using S(1) hd_dropWhile [of "\<lambda>c. c \<noteq> SEPARATOR" flat] by (cases "dropWhile (\<lambda>c. c \<noteq> SEPARATOR) flat") (auto simp: dropWhile_eq_Nil_conv)
  have "flat = r @ dropWhile (\<lambda>c. c \<noteq> SEPARATOR) flat" using S(2) by simp
  then show "flat = flat_key r k \<and> SEPARATOR \<notin> set r"
    using d S(2,3) set_takeWhileD [of SEPARATOR "\<lambda>c. c \<noteq> SEPARATOR" flat] by (auto simp: flat_key_def)
qed (use split_flat_key in auto)

text \<open>The value a grouped map gives to a flat key.\<close>

definition grouped :: "kvp_map \<Rightarrow> string \<rightharpoonup> string" where
  "grouped m flat = Option.bind (split_flat flat) (\<lambda>(r, k). Option.bind (map_of m r) (\<lambda>keys. map_of keys k))"

definition kvp_wf :: "kvp_map \<Rightarrow> bool" where
  "kvp_wf m \<longleftrightarrow> bt_wf m \<and> (\<forall>r keys. map_of m r = Some keys \<longrightarrow> bt_wf keys \<and> SEPARATOR \<notin> set r)"

lemma group_entry_grouped:
  assumes "kvp_wf m" "split_flat flat = Some (r, k)"
  shows "kvp_wf (group_entry (flat, v) m)" "grouped (group_entry (flat, v) m) = (grouped m)(flat \<mapsto> v)"
proof -
  define keys where "keys = (case map_of m r of None \<Rightarrow> [] | Some keys \<Rightarrow> keys)"
  have flat: "flat = flat_key r k" "SEPARATOR \<notin> set r" using assms(2) by (simp_all add: split_flat_join)
  have wf: "bt_wf m" "bt_wf keys" using assms(1) by (auto simp: kvp_wf_def keys_def split: option.split)
  have g: "group_entry (flat, v) m = bt_insert r (bt_insert k v keys) m"
    using assms(2) by (simp add: group_entry_def resource_of_def key_of_def keys_def)
  show "kvp_wf (group_entry (flat, v) m)" using assms(1) wf flat(2) by (auto simp: g kvp_wf_def)
  show "grouped (group_entry (flat, v) m) = (grouped m)(flat \<mapsto> v)"
  proof
    fix x
    show "grouped (group_entry (flat, v) m) x = ((grouped m)(flat \<mapsto> v)) x"
    proof (cases "split_flat x")
      case (Some rk)
      obtain r' k' where rk: "rk = (r', k')" by force
      then have x: "x = flat_key r' k'" "SEPARATOR \<notin> set r'" using Some by (simp_all add: split_flat_join)
      have same: "x = flat \<longleftrightarrow> r' = r \<and> k' = k" using Some rk assms(2) x(1) flat(1) by (metis option.inject prod.inject)
      have new: "grouped (group_entry (flat, v) m) x =
          (if r' = r then map_of (bt_insert k v keys) k' else Option.bind (map_of m r') (\<lambda>keys. map_of keys k'))"
        using wf(1) by (simp add: grouped_def g Some rk)
      have old: "grouped m x = Option.bind (map_of m r') (\<lambda>keys. map_of keys k')" by (simp add: grouped_def Some rk)
      show ?thesis
      proof (cases "r' = r")
        case True
        have "Option.bind (map_of m r) (\<lambda>keys. map_of keys k') = map_of keys k'" by (simp add: keys_def split: option.split)
        then show ?thesis using True same new old wf(2) by simp
      qed (use same new old in simp)
    qed (use assms(2) in \<open>auto simp: grouped_def\<close>)
  qed
qed

lemma by_resource_grouped:
  assumes "distinct (map fst es)" "\<forall>flat \<in> fst ` set es. split_flat flat \<noteq> None"
  shows "kvp_wf (by_resource es) \<and> grouped (by_resource es) = map_of es"
proof -
  have "kvp_wf m \<Longrightarrow> kvp_wf (fold group_entry es m) \<and> grouped (fold group_entry es m) = grouped m ++ map_of es" for m
    using assms
  proof (induction es arbitrary: m)
    case (Cons e es)
    obtain flat v where e: "e = (flat, v)" by force
    obtain r k where "split_flat flat = Some (r, k)" using Cons.prems(3) e by fastforce
    note G = group_entry_grouped [OF Cons.prems(1) this, of v]
    have "flat \<notin> fst ` set es" using Cons.prems(2) e by simp
    then have "(grouped m)(flat \<mapsto> v) ++ map_of es = grouped m ++ map_of (e # es)"
      using map_of_eq_None_iff [of es flat] by (auto simp: e map_add_def fun_eq_iff split: option.split)
    moreover have "kvp_wf (fold group_entry es (group_entry (flat, v) m)) \<and>
        grouped (fold group_entry es (group_entry (flat, v) m)) = (grouped m)(flat \<mapsto> v) ++ map_of es"
      unfolding G(2) [symmetric] using Cons.prems(2,3) by (intro Cons.IH [OF G(1)]) simp_all
    ultimately show ?case by (simp only: e fold_simps)
  qed simp
  moreover have "kvp_wf []" "grouped [] = Map.empty" by (auto simp: kvp_wf_def grouped_def fun_eq_iff split: option.split bind_splits)
  ultimately show ?thesis unfolding by_resource_def by fastforce
qed

lemma load_resource_lookup:
  assumes "distinct (map fst keys)" "SEPARATOR \<notin> set r"
  shows "map_of (load_resource (r, keys) e) flat =
    (case Option.bind (split_flat flat) (\<lambda>(r', k). if r' = r then map_of keys k else None) of
       Some v \<Rightarrow> Some v | None \<Rightarrow> map_of e flat)"
  using assms(1)
proof (induction keys arbitrary: e)
  case Nil
  then show ?case by (simp add: load_resource_def split: option.split bind_splits)
next
  case (Cons kv keys)
  obtain k v where kv: "kv = (k, v)" by force
  have step: "load_resource (r, (k, v) # keys) e = load_resource (r, keys) (AList.update (flat_key r k) v e)"
    by (simp add: load_resource_def)
  have k: "map_of keys k = None" using Cons.prems kv by (simp add: map_of_eq_None_iff)
  have "flat = flat_key r k \<longleftrightarrow> split_flat flat = Some (r, k)" using assms(2) by (simp add: split_flat_join)
  note S = this and IH = Cons.IH [of "AList.update (flat_key r k) v e"]
  show ?case
  proof (cases "split_flat flat")
    case (Some rk)
    obtain a b where ab: "rk = (a, b)" by force
    show ?thesis
      by (cases "a = r"; cases "b = k") (use IH Cons.prems k S Some ab in \<open>simp_all add: step kv update_conv' split: option.splits\<close>)
  qed (use IH Cons.prems S in \<open>simp add: step kv update_conv'\<close>)
qed

lemma load_lookup:
  assumes "kvp_wf m"
  shows "map_of (fold load_resource m []) flat = grouped m flat"
proof -
  have all: "distinct (map fst m) \<Longrightarrow> \<forall>(r, keys) \<in> set m. distinct (map fst keys) \<and> SEPARATOR \<notin> set r \<Longrightarrow>
    map_of (fold load_resource m e) flat = (case grouped m flat of Some v \<Rightarrow> Some v | None \<Rightarrow> map_of e flat)" for e
  proof (induction m arbitrary: e)
    case Nil
    then show ?case by (simp add: grouped_def split: option.split bind_splits)
  next
    case (Cons a m)
    obtain r keys where a: "a = (r, keys)" by force
    have L: "map_of (load_resource (r, keys) e) flat =
      (case Option.bind (split_flat flat) (\<lambda>(r', k). if r' = r then map_of keys k else None) of
         Some v \<Rightarrow> Some v | None \<Rightarrow> map_of e flat)"
      using Cons.prems a by (intro load_resource_lookup) auto
    have r: "map_of m r = None" using Cons.prems a by (simp add: map_of_eq_None_iff)
    have IH: "map_of (fold load_resource m (load_resource a e)) flat =
      (case grouped m flat of Some v \<Rightarrow> Some v | None \<Rightarrow> map_of (load_resource a e) flat)"
      using Cons.prems by (intro Cons.IH) simp_all
    show ?case
    proof (cases "split_flat flat")
      case (Some rk)
      obtain r' k where rk: "rk = (r', k)" by force
      show ?thesis by (cases "r' = r") (use IH L r Some rk in \<open>simp_all add: a grouped_def split: option.split\<close>)
    qed (use IH L in \<open>simp add: a grouped_def\<close>)
  qed
  have d: "distinct (map fst m)" using assms by (auto simp: kvp_wf_def)
  have "distinct (map fst keys) \<and> SEPARATOR \<notin> set r" if "(r, keys) \<in> set m" for r keys
  proof -
    have "map_of m r = Some keys" using map_of_is_SomeI [OF d that] .
    then show ?thesis using assms unfolding kvp_wf_def by blast
  qed
  then have "\<forall>(r, keys) \<in> set m. distinct (map fst keys) \<and> SEPARATOR \<notin> set r" by blast
  from all [OF d this, of "[]"] show ?thesis by (simp split: option.split)
qed

section \<open>Restarts\<close>

definition kvp_entries_ok :: "(string \<times> string) list \<Rightarrow> bool" where
  "kvp_entries_ok es \<longleftrightarrow> distinct (map fst es) \<and> (\<forall>flat \<in> fst ` set es. split_flat flat \<noteq> None)"

text \<open>A clean store with a path holds what the file holds, and the file is never half a snapshot.\<close>

definition kvp_inv :: "kvp_json \<Rightarrow> kvp_store \<times> kvp_disk \<Rightarrow> bool" where
  "kvp_inv j sd \<longleftrightarrow> (case sd of (s, d) \<Rightarrow> kv_has_path s \<and> kvp_entries_ok (kv_entries s) \<and>
     (\<not> kv_dirty s \<longrightarrow> map_of (kv_entries (kv_open j d)) = map_of (kv_entries s)) \<and>
     (\<forall>raw. kd_file d = Some raw \<longrightarrow> (\<exists>m. kj_decode j raw = Some m \<and> kvp_wf m)))"

lemma split_flat_exists: "split_flat (flat_key r k) \<noteq> None"
  by (simp add: split_flat_def flat_key_def)

lemma entries_ok_ops:
  assumes "kvp_entries_ok es"
  shows "kvp_entries_ok (AList.update (flat_key r k) v es)" "kvp_entries_ok (AList.delete (flat_key r k) es)"
proof -
  have "fst ` set (AList.update (flat_key r k) v es) = insert (flat_key r k) (fst ` set es)"
    by (simp add: dom_map_of_conv_image_fst [symmetric] update_conv')
  then show "kvp_entries_ok (AList.update (flat_key r k) v es)"
    using assms split_flat_exists by (auto simp: kvp_entries_ok_def distinct_update)
  have "fst ` set (AList.delete (flat_key r k) es) \<subseteq> fst ` set es" by (auto simp: dom_map_of_conv_image_fst [symmetric] delete_conv' split: if_splits)
  then show "kvp_entries_ok (AList.delete (flat_key r k) es)"
    using assms distinct_delete [of es "flat_key r k"] unfolding kvp_entries_ok_def by blast
qed

lemma written_reads_back:
  assumes "kvp_json_spec j" "kvp_entries_ok (kv_entries s)" "write_to j w s d = (True, d')"
  shows "map_of (kv_entries (kv_open j d')) = map_of (kv_entries s)"
    and "\<exists>raw m. kd_file d' = Some raw \<and> kj_decode j raw = Some m \<and> kvp_wf m"
proof -
  note B = by_resource_grouped [OF conjunct1 [OF assms(2) [unfolded kvp_entries_ok_def]] conjunct2 [OF assms(2) [unfolded kvp_entries_ok_def]]]
  obtain raw where raw: "kj_encode j (by_resource (kv_entries s)) = Some raw" "kd_file d' = Some raw"
    using assms(3) by (auto simp: write_to_def split: option.splits write_outcome.splits)
  then have "kj_decode j raw = Some (by_resource (kv_entries s))" using assms(1) by (simp add: kvp_json_spec_def)
  then show "map_of (kv_entries (kv_open j d')) = map_of (kv_entries s)"
    "\<exists>raw m. kd_file d' = Some raw \<and> kj_decode j raw = Some m \<and> kvp_wf m"
    using raw(2) B load_lookup by (auto simp: kv_open_def)
qed

lemma failed_write_keeps_file: "write_to j w s d = (False, d') \<Longrightarrow> kd_file d' = kd_file d"
  by (auto simp: write_to_def split: option.splits write_outcome.splits)

lemma flush_inv:
  assumes "kvp_json_spec j" "kvp_inv j (s, d)"
  shows "kvp_inv j (kv_flush j w (s, d))"
proof -
  obtain ok d' where w: "write_to j w s d = (ok, d')" by force
  show ?thesis
  proof (cases "kv_dirty s")
    case True
    then have f: "kv_flush j w (s, d) = (s\<lparr>kv_dirty := \<not> ok\<rparr>, d')" using assms(2) w by (simp add: kv_flush_def kvp_inv_def)
    show ?thesis
    proof (cases ok)
      case True
      then show ?thesis using assms w written_reads_back [OF assms(1), of s w d d'] by (auto simp: f kvp_inv_def)
    next
      case False
      then show ?thesis using assms(2) w failed_write_keeps_file [of j w s d d'] by (simp add: f kvp_inv_def)
    qed
  qed (use assms in \<open>simp add: kv_flush_def kvp_inv_def\<close>)
qed

datatype kvp_op =
    KvSet string string string bool write_outcome
  | KvRemove string string bool write_outcome
  | KvFlush write_outcome

fun kvp_step :: "kvp_json \<Rightarrow> kvp_op \<Rightarrow> kvp_store \<times> kvp_disk \<Rightarrow> kvp_store \<times> kvp_disk" where
  "kvp_step j (KvSet r k v sync w) sd = kv_set j w r k v sync sd"
| "kvp_step j (KvRemove r k sync w) sd = kv_remove j w r k sync sd"
| "kvp_step j (KvFlush w) sd = kv_flush j w sd"

lemma kvp_step_inv:
  assumes "kvp_json_spec j" "kvp_inv j sd"
  shows "kvp_inv j (kvp_step j op sd)"
proof -
  obtain s d where sd: "sd = (s, d)" by force
  have dirty: "kvp_inv j (s\<lparr>kv_entries := es, kv_dirty := True\<rparr>, d)" if "kvp_entries_ok es" for es
    using assms(2) that by (simp add: sd kvp_inv_def)
  have marked: "kvp_inv j (kv_mark_dirty j w sync (s\<lparr>kv_entries := es\<rparr>, d))" if "kvp_entries_ok es" for es w sync
    using dirty [OF that] flush_inv [OF assms(1) dirty [OF that]] by (simp add: kv_mark_dirty_def)
  have "kvp_entries_ok (kv_entries s)" using assms(2) by (simp add: sd kvp_inv_def)
  then show ?thesis
    using marked entries_ok_ops flush_inv [OF assms(1)] assms(2) by (cases op) (simp_all add: sd kv_set_def kv_remove_def)
qed

definition blank_disk :: kvp_disk where "blank_disk = \<lparr>kd_file = None, kd_tmp = None\<rparr>"

lemma kvp_run_inv: "kvp_json_spec j \<Longrightarrow> kvp_inv j sd \<Longrightarrow> kvp_inv j (fold (kvp_step j) ops sd)"
  by (induction ops arbitrary: sd) (simp_all add: kvp_step_inv)

lemma sync_write_clean:
  assumes "kv_set j WriteOk r k v True (s, d) = (s', d')" "kv_has_path s" "kj_encode j (by_resource (kv_entries s')) \<noteq> None"
  shows "\<not> kv_dirty s' \<and> kv_entries s' = AList.update (flat_key r k) v (kv_entries s)"
  using assms by (auto simp: kv_set_def kv_mark_dirty_def kv_flush_def write_to_def split: option.splits prod.splits)

lemma flat_key_inject: "SEPARATOR \<notin> set r \<Longrightarrow> SEPARATOR \<notin> set r' \<Longrightarrow> flat_key r k = flat_key r' k' \<longleftrightarrow> r = r' \<and> k = k'"
  using split_flat_key [of r k] split_flat_key [of r' k'] by (metis option.inject prod.inject)

text \<open>C27. Values survive a restart. Starting from an empty disk, after any sequence of writes, removals and flushes,
  synchronous or deferred, with any of the writes to disk failing at any stage, the file is absent or decodes to a whole
  snapshot. Whenever the store is not marked dirty, opening the file again gives the same value for every
  resource and key; a synchronous write whose file operation succeeds leaves it so. Values of different resources do not
  mix, since a resource name holds no separator.\<close>

theorem kvp_survives_restart:
  assumes "kvp_json_spec j" and "fold (kvp_step j) ops (kv_open j blank_disk, blank_disk) = (s, d)"
  shows "(\<forall>raw. kd_file d = Some raw \<longrightarrow> kj_decode j raw \<noteq> None) \<and>
    (\<not> kv_dirty s \<longrightarrow> (\<forall>r k. kv_get r k (kv_open j d) = kv_get r k s)) \<and>
    (\<forall>r k v s' d'. kv_set j WriteOk r k v True (s, d) = (s', d') \<and> kj_encode j (by_resource (kv_entries s')) \<noteq> None \<longrightarrow>
       \<not> kv_dirty s' \<and> kv_get r k (kv_open j d') = Some v \<and>
       (\<forall>r' k'. SEPARATOR \<notin> set r \<and> SEPARATOR \<notin> set r' \<and> (r', k') \<noteq> (r, k) \<longrightarrow> kv_get r' k' (kv_open j d') = kv_get r' k' s))"
proof -
  have "kvp_inv j (kv_open j blank_disk, blank_disk)" by (simp add: kvp_inv_def kv_open_def blank_disk_def kvp_entries_ok_def)
  from kvp_run_inv [OF assms(1) this, of ops] have inv: "kvp_inv j (s, d)" using assms(2) by simp
  have clean: "kv_get r k (kv_open j d1) = kv_get r k s1" if "kvp_inv j (s1, d1)" "\<not> kv_dirty s1" for s1 d1 r k
    using that by (simp add: kvp_inv_def kv_get_def)
  have "\<not> kv_dirty s' \<and> kv_get r k (kv_open j d') = Some v \<and>
      (\<forall>r' k'. SEPARATOR \<notin> set r \<and> SEPARATOR \<notin> set r' \<and> (r', k') \<noteq> (r, k) \<longrightarrow> kv_get r' k' (kv_open j d') = kv_get r' k' s)"
    if w: "kv_set j WriteOk r k v True (s, d) = (s', d')" "kj_encode j (by_resource (kv_entries s')) \<noteq> None" for r k v s' d'
  proof -
    have "kvp_inv j (s', d')" using kvp_step_inv [OF assms(1) inv, of "KvSet r k v True WriteOk"] w(1) by simp
    moreover have "\<not> kv_dirty s' \<and> kv_entries s' = AList.update (flat_key r k) v (kv_entries s)"
      using sync_write_clean [OF w(1) _ w(2)] inv by (simp add: kvp_inv_def)
    ultimately show ?thesis using clean [of s' d'] flat_key_inject by (auto simp: kv_get_def update_conv')
  qed
  then show ?thesis using inv clean [OF inv] by (auto simp: kvp_inv_def)
qed

text \<open>A coding that satisfies the contract on one map, and a deferred write that a flush saves.\<close>

definition demo_json :: kvp_json where
  "demo_json = \<lparr>kj_encode = (\<lambda>m. if m = [(''r'', [(''k'', ''v'')])] then Some [1] else None),
     kj_decode = (\<lambda>bytes. if bytes = [1] then Some [(''r'', [(''k'', ''v'')])] else None)\<rparr>"

theorem kvp_survives_restart_witness:
  "\<exists>s d. kvp_json_spec demo_json \<and>
     fold (kvp_step demo_json) [KvSet ''r'' ''k'' ''v'' False WriteOk, KvFlush (TmpCutShort 0), KvFlush WriteOk]
       (kv_open demo_json blank_disk, blank_disk) = (s, d) \<and>
     \<not> kv_dirty s \<and> kv_get ''r'' ''k'' (kv_open demo_json d) = Some ''v''"
proof -
  let ?ops = "[KvSet ''r'' ''k'' ''v'' False WriteOk, KvFlush (TmpCutShort 0), KvFlush WriteOk]"
  have j: "kvp_json_spec demo_json" by (simp add: kvp_json_spec_def demo_json_def)
  obtain s d where r: "fold (kvp_step demo_json) ?ops (kv_open demo_json blank_disk, blank_disk) = (s, d)" by force
  have b: "by_resource [(flat_key ''r'' ''k'', ''v'')] = [(''r'', [(''k'', ''v'')])]"
    by (simp add: by_resource_def group_entry_def resource_of_def key_of_def split_flat_key SEPARATOR_def)
  have "\<not> kv_dirty s \<and> kv_get ''r'' ''k'' s = Some ''v''"
    using r b by (auto simp: kv_open_def blank_disk_def kv_set_def kv_mark_dirty_def kv_flush_def write_to_def demo_json_def kv_get_def)
  then show ?thesis using kvp_survives_restart [OF j r] j r by auto
qed

section \<open>Two flushes at once\<close>

text \<open>The steps of a successful write. Nothing keeps two threads that flush at the same time apart, and both
  use the same temporary file.\<close>

definition tmp_create :: "kvp_disk \<Rightarrow> kvp_disk" where "tmp_create d = d\<lparr>kd_tmp := Some []\<rparr>"

definition tmp_write :: "u8 list \<Rightarrow> kvp_disk \<Rightarrow> kvp_disk" where "tmp_write bytes d = d\<lparr>kd_tmp := Some bytes\<rparr>"

definition tmp_rename :: "kvp_disk \<Rightarrow> bool \<times> kvp_disk" where
  "tmp_rename d = (case kd_tmp d of None \<Rightarrow> (False, d) | Some bytes \<Rightarrow> (True, d\<lparr>kd_file := Some bytes, kd_tmp := None\<rparr>))"

lemma write_to_steps:
  "kj_encode j (by_resource (kv_entries s)) = Some bytes \<Longrightarrow> write_to j WriteOk s d = tmp_rename (tmp_write bytes (tmp_create d))"
  by (simp add: write_to_def tmp_rename_def tmp_write_def tmp_create_def)

text \<open>The second thread truncates the temporary file just before the first one renames it: the file is empty,
  and a restart at this moment loads nothing.\<close>

lemma concurrent_flush_truncates:
  assumes "kj_decode j [] = None" and "tmp_rename (tmp_create (tmp_write bytes (tmp_create d))) = (ok, d')"
  shows "ok \<and> kd_file d' = Some [] \<and> kv_entries (kv_open j d') = []"
  using assms by (auto simp: tmp_rename_def tmp_write_def tmp_create_def kv_open_def)

end
