(* ===== verification/Adaptive_Tick.thy ===== *)
theory Adaptive_Tick
  imports Ieee
begin

text \<open>
  The controller of the sync tick rate, \<open>crates/baston-zone/src/adaptive_tick.rs\<close>, and the check of its settings
  (\<open>StateSyncConfig::validate\<close> of \<open>crates/baston-config/src/lib.rs\<close>). A duration is its number of nanoseconds. A panic
  (\<open>clamp\<close> with crossed bounds, the period of a rate of zero) is \<open>None\<close>.
\<close>

section \<open>The controller\<close>

definition SAFE_RATES_HZ :: "u16 list" where "SAFE_RATES_HZ = [20, 30, 40, 60, 90, 120]"
definition EWMA_ALPHA :: fl where "EWMA_ALPHA = fl_lit F64 125 1000"

record tick_config =
  tc_enabled :: bool
  tc_min_hz :: u16
  tc_initial_hz :: u16
  tc_max_hz :: u16
  tc_low_utilization :: fl
  tc_high_utilization :: fl
  tc_recovery_window :: u32
  tc_overload_backoff :: fl

text \<open>The part of the check of the settings that concerns the tick.\<close>

definition tick_config_valid :: "tick_config \<Rightarrow> bool" where
  "tick_config_valid c \<longleftrightarrow>
     \<not> (tc_min_hz c = 0 \<or> tc_initial_hz c < tc_min_hz c \<or> tc_max_hz c < tc_initial_hz c \<or> 120 < tc_max_hz c) \<and>
     fl_le (Fin False 0) (tc_low_utilization c) \<and> fl_lt (tc_low_utilization c) (fl_of_int F64 1) \<and>
     fl_le (Fin False 0) (tc_high_utilization c) \<and> fl_le (tc_high_utilization c) (fl_of_int F64 1) \<and>
     \<not> fl_le (tc_high_utilization c) (tc_low_utilization c) \<and>
     fl_le (Fin False 0) (tc_overload_backoff c) \<and> fl_lt (tc_overload_backoff c) (fl_of_int F64 1) \<and>
     tc_recovery_window c \<noteq> 0"

datatype tick_rate_reason = TrDisabled | TrStable | TrSustainedHeadroom | TrWorkOverload | TrQueuePressure | TrDeadlineMiss

record tick_decision =
  td_previous_hz :: u16
  td_hz :: u16
  td_utilization :: fl
  td_changed :: bool
  td_reason :: tick_rate_reason

record tick_controller =
  ct_cfg :: tick_config
  ct_current_hz :: u16
  ct_ewma :: "fl option"
  ct_headroom :: u32

definition rates :: "u16 \<Rightarrow> u16 \<Rightarrow> u16 list" where
  "rates min_hz max_hz = filter (\<lambda>hz. min_hz \<le> hz \<and> hz \<le> max_hz) SAFE_RATES_HZ"

definition abs_diff :: "u16 \<Rightarrow> u16 \<Rightarrow> u16" where
  "abs_diff a b = (if a < b then b - a else a - b)"

text \<open>\<open>min_by_key\<close>: the first of the least; the default is computed, and may panic, in any case.\<close>

definition nearest_rate :: "u16 \<Rightarrow> u16 \<Rightarrow> u16 \<Rightarrow> u16 option" where
  "nearest_rate requested min_hz max_hz =
     (if max_hz < min_hz then None
      else Some (case rates min_hz max_hz of
        [] \<Rightarrow> max min_hz (min max_hz requested)
      | r # rs \<Rightarrow> fold (\<lambda>hz best. if abs_diff hz requested < abs_diff best requested then hz else best) rs r))"

definition lower_rate :: "u16 \<Rightarrow> u16 \<Rightarrow> u16 \<Rightarrow> u16" where
  "lower_rate target min_hz max_hz =
     (let below = filter (\<lambda>hz. hz \<le> target) (rates min_hz max_hz) in if below = [] then min_hz else last below)"

definition next_rate :: "u16 \<Rightarrow> u16 \<Rightarrow> u16 \<Rightarrow> u16" where
  "next_rate current min_hz max_hz =
     (case List.find (\<lambda>hz. current < hz) (rates min_hz max_hz) of None \<Rightarrow> current | Some hz \<Rightarrow> hz)"

definition tick_new :: "tick_config \<Rightarrow> tick_controller option" where
  "tick_new cfg =
     map_option (\<lambda>hz. \<lparr>ct_cfg = cfg, ct_current_hz = hz, ct_ewma = None, ct_headroom = 0\<rparr>)
       (nearest_rate (tc_initial_hz cfg) (tc_min_hz cfg) (tc_max_hz cfg))"

text \<open>\<open>Duration::from_secs_f64\<close> rounds to the nearest nanosecond; an infinite value panics.\<close>

definition from_secs_f64 :: "fl \<Rightarrow> nat option" where
  "from_secs_f64 x = (case x of Fin False m \<Rightarrow> Some (rne (m * 10 ^ 9) (2 ^ unit_exp F64)) | _ \<Rightarrow> None)"

definition as_secs_f64 :: "nat \<Rightarrow> fl" where
  "as_secs_f64 ns =
     fl_add F64 (fl_of_int F64 (int (ns div 10 ^ 9))) (fl_div F64 (fl_of_int F64 (int (ns mod 10 ^ 9))) (fl_of_int F64 (10 ^ 9)))"

definition tick_period :: "tick_controller \<Rightarrow> nat option" where
  "tick_period c = from_secs_f64 (fl_div F64 (fl_of_int F64 1) (fl_of_int F64 (uint (ct_current_hz c))))"

definition f64_clamp :: "fl \<Rightarrow> fl \<Rightarrow> fl \<Rightarrow> fl" where
  "f64_clamp x lo hi = (if fl_lt x lo then lo else if fl_lt hi x then hi else x)"

definition tick_decide :: "u16 \<Rightarrow> fl \<Rightarrow> tick_rate_reason \<Rightarrow> tick_controller \<Rightarrow> tick_decision" where
  "tick_decide previous_hz utilization reason c =
     \<lparr>td_previous_hz = previous_hz, td_hz = ct_current_hz c, td_utilization = utilization,
      td_changed = (previous_hz \<noteq> ct_current_hz c), td_reason = reason\<rparr>"

definition overload_reason :: "tick_config \<Rightarrow> fl \<Rightarrow> fl \<Rightarrow> fl \<Rightarrow> bool \<Rightarrow> tick_rate_reason option" where
  "overload_reason cfg sample utilization pressure missed_deadline =
     (if missed_deadline then Some TrDeadlineMiss
      else if fl_le (tc_high_utilization cfg) pressure then Some TrQueuePressure
      else if fl_le (fl_of_int F64 1) sample \<or> fl_le (tc_high_utilization cfg) utilization then Some TrWorkOverload
      else None)"

definition saturating_succ :: "u32 \<Rightarrow> u32" where
  "saturating_succ n = (if n = - 1 then n else n + 1)"

definition backoff_target :: "u16 \<Rightarrow> fl \<Rightarrow> u16" where
  "backoff_target hz backoff = word_of_int (fl_to_int F64 0 65535 (fl_mul F64 (fl_of_int F64 (uint hz)) backoff))"

definition observe :: "nat \<Rightarrow> fl \<Rightarrow> bool \<Rightarrow> tick_controller \<Rightarrow> (tick_decision \<times> tick_controller) option" where
  "observe work_ns queue_pressure missed_deadline c =
     map_option (\<lambda>period.
       let previous_hz = ct_current_hz c; cfg = ct_cfg c;
           sample = fl_div F64 (as_secs_f64 work_ns) (as_secs_f64 period);
           utilization = (case ct_ewma c of
               Some previous \<Rightarrow> fl_add F64 previous (fl_mul F64 EWMA_ALPHA (fl_sub F64 sample previous))
             | None \<Rightarrow> sample);
           c1 = c\<lparr>ct_ewma := Some utilization\<rparr>;
           pressure = f64_clamp queue_pressure (Fin False 0) (fl_of_int F64 1)
       in if \<not> tc_enabled cfg then (tick_decide previous_hz utilization TrDisabled c1, c1)
          else case overload_reason cfg sample utilization pressure missed_deadline of
            Some reason \<Rightarrow>
              let c2 = c1\<lparr>ct_headroom := 0,
                    ct_current_hz := lower_rate (backoff_target (ct_current_hz c) (tc_overload_backoff cfg)) (tc_min_hz cfg) (tc_max_hz cfg)\<rparr>
              in (tick_decide previous_hz utilization reason c2, c2)
          | None \<Rightarrow>
              if fl_le utilization (tc_low_utilization cfg) \<and> fl_le pressure (tc_low_utilization cfg) then
                let headroom = saturating_succ (ct_headroom c) in
                if tc_recovery_window cfg \<le> headroom then
                  let c2 = c1\<lparr>ct_headroom := 0, ct_current_hz := next_rate (ct_current_hz c) (tc_min_hz cfg) (tc_max_hz cfg)\<rparr>
                  in (tick_decide previous_hz utilization TrSustainedHeadroom c2, c2)
                else let c2 = c1\<lparr>ct_headroom := headroom\<rparr> in (tick_decide previous_hz utilization TrStable c2, c2)
              else let c2 = c1\<lparr>ct_headroom := 0\<rparr> in (tick_decide previous_hz utilization TrStable c2, c2))
       (tick_period c)"

section \<open>Bounds\<close>

definition rate_ok :: "tick_controller \<Rightarrow> bool" where
  "rate_ok c \<longleftrightarrow> tick_config_valid (ct_cfg c) \<and> tc_min_hz (ct_cfg c) \<le> ct_current_hz c \<and> ct_current_hz c \<le> tc_max_hz (ct_cfg c)"

lemma rates_within: "hz \<in> set (rates lo hi) \<Longrightarrow> lo \<le> hz \<and> hz \<le> hi"
  by (simp add: rates_def)

lemma nearest_rate_within:
  assumes "lo \<le> hi"
  obtains hz where "nearest_rate requested lo hi = Some hz" "lo \<le> hz" "hz \<le> hi"
proof -
  have "fold (\<lambda>hz best. if abs_diff hz requested < abs_diff best requested then hz else best) rs r \<in> set (r # rs)" for rs r
  proof (induction rs arbitrary: r)
    case (Cons a rs)
    show ?case using Cons.IH [of a] Cons.IH [of r] by auto
  qed simp
  note mem = this
  show thesis
  proof (cases "rates lo hi")
    case (Cons r rs)
    have "lo \<le> fold (\<lambda>hz best. if abs_diff hz requested < abs_diff best requested then hz else best) rs r \<and>
      fold (\<lambda>hz best. if abs_diff hz requested < abs_diff best requested then hz else best) rs r \<le> hi"
      by (rule rates_within) (simp only: Cons mem)
    moreover have "nearest_rate requested lo hi =
        Some (fold (\<lambda>hz best. if abs_diff hz requested < abs_diff best requested then hz else best) rs r)"
      using assms Cons by (simp add: nearest_rate_def)
    ultimately show thesis using that by blast
  next
    case Nil
    then have "nearest_rate requested lo hi = Some (max lo (min hi requested))" using assms by (simp add: nearest_rate_def)
    then show thesis using that assms by simp
  qed
qed

lemma lower_rate_within:
  assumes "lo \<le> hi"
  shows "lo \<le> lower_rate target lo hi" "lower_rate target lo hi \<le> hi" "lower_rate target lo hi = lo \<or> lower_rate target lo hi \<le> target"
  using assms last_in_set [of "filter (\<lambda>hz. hz \<le> target) (rates lo hi)"] rates_within
  by (auto simp: lower_rate_def Let_def)

lemma next_rate_within: "lo \<le> hz \<Longrightarrow> hz \<le> hi \<Longrightarrow> hz \<le> next_rate hz lo hi \<and> next_rate hz lo hi \<le> hi"
  using rates_within by (fastforce simp: next_rate_def find_Some_iff in_set_conv_nth split: option.split)

text \<open>Small whole numbers are exact, and scaling one by at most one does not exceed it.\<close>

lemma round_whole:
  assumes "d > 0" "2 ^ (bitlen m - prec F) dvd m"
  shows "round_mag F (m * d) d = m"
proof -
  define k where "k = bitlen m - prec F"
  obtain q where q: "m = q * 2 ^ k" using assms(2) unfolding k_def [symmetric] by (metis dvd_def mult.commute)
  have "m * d = q * (d * 2 ^ k)" unfolding q by (simp only: ac_simps)
  then have "rne (m * d) (d * 2 ^ k) = q" using assms(1) by (simp only: rne_mult nat_0_less_mult_iff) simp
  moreover have "round_mag F (m * d) d = rne (m * d) (d * 2 ^ k) * 2 ^ k"
    using assms(1) by (simp add: round_mag_def Let_def k_def)
  ultimately show ?thesis using q by simp
qed

lemma whole_dvd: "n < 2 ^ 53 \<Longrightarrow> 2 ^ (bitlen (n * 2 ^ 1074) - prec F64) dvd (n * 2 ^ 1074 :: nat)"
proof -
  assume "n < 2 ^ 53"
  then have "n * 2 ^ 1074 < 2 ^ (53 + 1074)" by (simp add: power_add del: power_numeral_odd power_numeral_even)
  then have "bitlen (n * 2 ^ 1074) \<le> 1127" using bitlen_le_of_less [of "n * 2 ^ 1074" "53 + 1074"] by simp
  then have "bitlen (n * 2 ^ 1074) - prec F64 \<le> 1074" by (simp add: F64_def)
  then show ?thesis by (rule dvd_mult [OF le_imp_power_dvd])
qed

lemma whole_number:
  assumes "0 \<le> n" "n < 2 ^ 53"
  shows "fl_of_int F64 n = Fin False (nat n * 2 ^ 1074)"
    and "mk_fl F64 False (nat n * 2 ^ 1074 * 2 ^ 1074) (2 ^ 1074) = Fin False (nat n * 2 ^ 1074)"
proof -
  have n: "nat n < 2 ^ 53" using assms by simp
  then have small: "\<not> (2 ^ 2098 \<le> nat n * 2 ^ 1074)"
  proof -
    have "nat n * 2 ^ 1074 < 2 ^ (53 + 1074)" using n by (simp add: power_add del: power_numeral_odd power_numeral_even)
    also have "(2::nat) ^ (53 + 1074) \<le> 2 ^ 2098" by (rule power_increasing) simp_all
    finally show ?thesis by simp
  qed
  have "round_mag F64 (nat n * 2 ^ 1074 * 1) 1 = nat n * 2 ^ 1074" by (rule round_whole [OF _ whole_dvd [OF n]]) simp
  then show "fl_of_int F64 n = Fin False (nat n * 2 ^ 1074)"
    using small assms(1) by (simp add: fl_of_int_def mk_fl_def Let_def F64_def [THEN arg_cong [where f = unit_exp]] F64_def [THEN arg_cong [where f = top_exp]])
  have "round_mag F64 (nat n * 2 ^ 1074 * 2 ^ 1074) (2 ^ 1074) = nat n * 2 ^ 1074"
    by (rule round_whole [OF _ whole_dvd [OF n]]) (rule zero_less_power, simp)
  then show "mk_fl F64 False (nat n * 2 ^ 1074 * 2 ^ 1074) (2 ^ 1074) = Fin False (nat n * 2 ^ 1074)"
    using small by (simp add: mk_fl_def Let_def F64_def [THEN arg_cong [where f = top_exp]])
qed

lemma backoff_target_le:
  assumes "fl_le (Fin False 0) b" "fl_lt b (fl_of_int F64 1)" "uint hz \<le> 120"
  shows "backoff_target hz b \<le> hz"
proof -
  define n where "n = nat (uint hz)"
  have hz: "fl_of_int F64 (uint hz) = Fin False (n * 2 ^ 1074)" "mk_fl F64 False (n * 2 ^ 1074 * 2 ^ 1074) (2 ^ 1074) = Fin False (n * 2 ^ 1074)"
    using whole_number [of "uint hz"] assms(3) by (simp_all add: n_def)
  have one: "fl_of_int F64 1 = Fin False (2 ^ 1074)" using whole_number(1) [of 1] by simp
  obtain s m where m: "b = Fin s m" "s \<Longrightarrow> m = 0" "m \<le> 2 ^ 1074"
    using assms(1,2) unfolding one by (cases b) (auto split: if_splits)
  define x where "x = fl_mul F64 (Fin False (n * 2 ^ 1074)) b"
  have "x = mk_fl F64 s (n * 2 ^ 1074 * m) (2 ^ 1074)" by (simp add: x_def m(1) F64_def [THEN arg_cong [where f = unit_exp]])
  moreover have "n * 2 ^ 1074 * m \<le> n * 2 ^ 1074 * 2 ^ 1074" using m(3) by (rule mult_le_mono2)
  then have "fl_le (mk_fl F64 False (n * 2 ^ 1074 * m) (2 ^ 1074)) (Fin False (n * 2 ^ 1074))"
    using mk_fl_mono(1) [of "2 ^ 1074" F64] hz(2) by (metis F64_def fmt.select_convs(1) zero_less_numeral zero_less_power)
  ultimately have "fl_le x (Fin False (n * 2 ^ 1074))"
    using m(2) by (cases s) (auto simp: mk_fl_def Let_def F64_def [THEN arg_cong [where f = top_exp]])
  then have "fl_to_int F64 0 65535 x \<le> fl_to_int F64 0 65535 (Fin False (n * 2 ^ 1074))" by (rule fl_to_int_mono) simp
  also have "\<dots> = uint hz" using assms(3) by (simp add: F64_def [THEN arg_cong [where f = unit_exp]] n_def)
  finally have le: "fl_to_int F64 0 65535 x \<le> uint hz" .
  have "0 \<le> fl_to_int F64 0 65535 x" by (cases x) (auto simp: Let_def)
  then have "uint (word_of_int (fl_to_int F64 0 65535 x) :: u16) = fl_to_int F64 0 65535 x"
    using le assms(3) by (simp add: uint_word_of_int)
  then show ?thesis using le by (simp add: backoff_target_def hz(1) x_def word_le_def)
qed

lemma period_defined:
  assumes "0 < uint (ct_current_hz c)" "uint (ct_current_hz c) \<le> 120"
  shows "\<exists>period. tick_period c = Some period"
proof -
  define n where "n = nat (uint (ct_current_hz c))"
  have n: "0 < n" unfolding n_def using assms(1) by (simp only: zero_less_nat_eq)
  have hz: "fl_of_int F64 (uint (ct_current_hz c)) = Fin False (n * 2 ^ 1074)" "fl_of_int F64 1 = Fin False (2 ^ 1074)"
    using whole_number(1) [of "uint (ct_current_hz c)"] whole_number(1) [of 1] assms(2) by (simp_all add: n_def)
  have "(2::nat) ^ 1074 * 2 ^ 1074 \<le> 2 ^ 1074 * (n * 2 ^ 1074)" using n by (intro mult_le_mono2) simp
  then have "round_mag F64 (2 ^ 1074 * 2 ^ 1074) (n * 2 ^ 1074) \<le> round_mag F64 (2 ^ 1074 * (n * 2 ^ 1074)) (n * 2 ^ 1074)"
    using n by (intro round_mag_mono) (simp_all add: F64_def [THEN arg_cong [where f = prec]])
  also have "\<dots> = 2 ^ 1074" using round_whole [of "n * 2 ^ 1074" "1 * 2 ^ 1074" F64] whole_dvd [of 1] n by simp
  also have "(2::nat) ^ 1074 < 2 ^ 2098" by (rule power_strict_increasing) simp_all
  finally have "mk_fl F64 False (2 ^ 1074 * 2 ^ 1074) (n * 2 ^ 1074) = Fin False (round_mag F64 (2 ^ 1074 * 2 ^ 1074) (n * 2 ^ 1074))"
    by (simp add: mk_fl_def Let_def F64_def [THEN arg_cong [where f = top_exp]])
  then show ?thesis
    using n by (simp add: tick_period_def hz from_secs_f64_def F64_def [THEN arg_cong [where f = unit_exp]])
qed

text \<open>One observation of a controller whose rate is within its bounds.\<close>

definition overload :: "tick_rate_reason \<Rightarrow> bool" where
  "overload r \<longleftrightarrow> r = TrDeadlineMiss \<or> r = TrQueuePressure \<or> r = TrWorkOverload"

definition good_decision :: "tick_controller \<Rightarrow> bool \<Rightarrow> tick_decision \<Rightarrow> tick_controller \<Rightarrow> bool" where
  "good_decision c missed d c' \<longleftrightarrow> rate_ok c' \<and> ct_cfg c' = ct_cfg c \<and> td_hz d = ct_current_hz c' \<and>
     (ct_current_hz c < td_hz d \<longrightarrow> td_reason d = TrSustainedHeadroom) \<and>
     (td_hz d < ct_current_hz c \<longrightarrow> overload (td_reason d)) \<and>
     (missed \<and> tc_enabled (ct_cfg c) \<longrightarrow> td_reason d = TrDeadlineMiss)"

lemma rate_ok_small: "rate_ok c \<Longrightarrow> 0 < uint (ct_current_hz c) \<and> uint (ct_current_hz c) \<le> 120"
proof -
  assume "rate_ok c"
  then have "tc_min_hz (ct_cfg c) \<noteq> 0" "tc_min_hz (ct_cfg c) \<le> ct_current_hz c" "ct_current_hz c \<le> 120"
    by (auto simp: rate_ok_def tick_config_valid_def)
  then have "uint (tc_min_hz (ct_cfg c)) \<le> uint (ct_current_hz c)" "uint (ct_current_hz c) \<le> 120" "uint (tc_min_hz (ct_cfg c)) \<noteq> 0"
    by (simp_all add: word_le_def uint_0_iff)
  moreover have "0 \<le> uint (tc_min_hz (ct_cfg c))" by simp
  ultimately show ?thesis by linarith
qed

lemma observe_cases:
  assumes "tick_period c = Some period"
  shows "\<exists>u h r hz c2. observe work queue_pressure missed c = Some (tick_decide (ct_current_hz c) u r c2, c2) \<and>
    c2 = c\<lparr>ct_ewma := Some u, ct_headroom := h, ct_current_hz := hz\<rparr> \<and>
    (if \<not> tc_enabled (ct_cfg c) then hz = ct_current_hz c \<and> r = TrDisabled
     else overload r \<and> (missed \<longrightarrow> r = TrDeadlineMiss) \<and>
         hz = lower_rate (backoff_target (ct_current_hz c) (tc_overload_backoff (ct_cfg c))) (tc_min_hz (ct_cfg c)) (tc_max_hz (ct_cfg c)) \<or>
       \<not> missed \<and> r = TrSustainedHeadroom \<and> hz = next_rate (ct_current_hz c) (tc_min_hz (ct_cfg c)) (tc_max_hz (ct_cfg c)) \<or>
       \<not> missed \<and> r = TrStable \<and> hz = ct_current_hz c)"
proof -
  define sample where "sample = fl_div F64 (as_secs_f64 work) (as_secs_f64 period)"
  define u where "u = (case ct_ewma c of
      Some previous \<Rightarrow> fl_add F64 previous (fl_mul F64 EWMA_ALPHA (fl_sub F64 sample previous)) | None \<Rightarrow> sample)"
  define pressure where "pressure = f64_clamp queue_pressure (Fin False 0) (fl_of_int F64 1)"
  define over where "over = overload_reason (ct_cfg c) sample u pressure missed"
  have reasons: "over = Some r \<Longrightarrow> overload r \<and> (missed \<longrightarrow> r = TrDeadlineMiss)" "over = None \<Longrightarrow> \<not> missed" for r
    by (auto simp: over_def overload_reason_def overload_def split: if_splits)
  note O = observe_def assms option.map Let_def sample_def [symmetric] u_def [symmetric] pressure_def [symmetric] over_def [symmetric]
  show ?thesis
  proof (cases "tc_enabled (ct_cfg c)")
    case False
    have "observe work queue_pressure missed c = Some (tick_decide (ct_current_hz c) u TrDisabled (c\<lparr>ct_ewma := Some u\<rparr>), c\<lparr>ct_ewma := Some u\<rparr>)"
      unfolding O using False by simp
    moreover have "c\<lparr>ct_ewma := Some u\<rparr> = c\<lparr>ct_ewma := Some u, ct_headroom := ct_headroom c, ct_current_hz := ct_current_hz c\<rparr>" by simp
    ultimately show ?thesis using False by fastforce
  next
    case en: True
    show ?thesis
    proof (cases over)
      case (Some r)
      then show ?thesis unfolding O using en reasons(1) [OF Some] by auto
    next
      case None
      note nm = reasons(2) [OF None]
      have stable: ?thesis if "observe work queue_pressure missed c =
          Some (tick_decide (ct_current_hz c) u TrStable (c\<lparr>ct_ewma := Some u, ct_headroom := h\<rparr>), c\<lparr>ct_ewma := Some u, ct_headroom := h\<rparr>)" for h
        by (intro exI [of _ u] exI [of _ h] exI [of _ TrStable] exI [of _ "ct_current_hz c"] exI [of _ "c\<lparr>ct_ewma := Some u, ct_headroom := h\<rparr>"])
          (use that en nm in simp)
      show ?thesis
      proof (cases "fl_le u (tc_low_utilization (ct_cfg c)) \<and> fl_le pressure (tc_low_utilization (ct_cfg c))")
        case True
        show ?thesis
        proof (cases "tc_recovery_window (ct_cfg c) \<le> saturating_succ (ct_headroom c)")
          case wide: True
          show ?thesis unfolding O using True wide en None nm by auto
        next
          case False
          show ?thesis by (rule stable [of "saturating_succ (ct_headroom c)"], unfold O) (use True False en None in simp)
        qed
      next
        case False
        show ?thesis by (rule stable [of 0], unfold O) (use False en None in auto)
      qed
    qed
  qed
qed

lemma observe_good:
  assumes "rate_ok c"
  shows "\<exists>d c'. observe work pressure missed c = Some (d, c') \<and> good_decision c missed d c'"
proof -
  note small = rate_ok_small [OF assms]
  obtain period where p: "tick_period c = Some period" using period_defined [of c] small by blast
  have valid: "tick_config_valid (ct_cfg c)" "tc_min_hz (ct_cfg c) \<le> ct_current_hz c" "ct_current_hz c \<le> tc_max_hz (ct_cfg c)"
    using assms by (simp_all add: rate_ok_def)
  then have mm: "tc_min_hz (ct_cfg c) \<le> tc_max_hz (ct_cfg c)" by simp
  let ?t = "backoff_target (ct_current_hz c) (tc_overload_backoff (ct_cfg c))"
  have "?t \<le> ct_current_hz c"
    using valid(1) small by (intro backoff_target_le) (simp_all add: tick_config_valid_def)
  then have low: "lower_rate ?t (tc_min_hz (ct_cfg c)) (tc_max_hz (ct_cfg c)) \<le> ct_current_hz c"
    using lower_rate_within(3) [OF mm, of ?t] valid(2) by auto
  note up = next_rate_within [OF valid(2,3)]
  obtain u h r hz c2 where o: "observe work pressure missed c = Some (tick_decide (ct_current_hz c) u r c2, c2)"
    and c2: "c2 = c\<lparr>ct_ewma := Some u, ct_headroom := h, ct_current_hz := hz\<rparr>"
    and cs: "if \<not> tc_enabled (ct_cfg c) then hz = ct_current_hz c \<and> r = TrDisabled
     else overload r \<and> (missed \<longrightarrow> r = TrDeadlineMiss) \<and> hz = lower_rate ?t (tc_min_hz (ct_cfg c)) (tc_max_hz (ct_cfg c)) \<or>
       \<not> missed \<and> r = TrSustainedHeadroom \<and> hz = next_rate (ct_current_hz c) (tc_min_hz (ct_cfg c)) (tc_max_hz (ct_cfg c)) \<or>
       \<not> missed \<and> r = TrStable \<and> hz = ct_current_hz c"
    using observe_cases [OF p] by blast
  have "good_decision c missed (tick_decide (ct_current_hz c) u r c2) c2"
    using cs valid low up lower_rate_within(1,2) [OF mm, of ?t]
    by (auto simp: c2 good_decision_def rate_ok_def tick_decide_def split: if_splits)
  then show ?thesis using o by blast
qed

fun tick_run :: "(nat \<times> fl \<times> bool) list \<Rightarrow> tick_controller \<Rightarrow> tick_controller option" where
  "tick_run [] c = Some c"
| "tick_run ((work, pressure, missed) # obs) c =
     (case observe work pressure missed c of None \<Rightarrow> None | Some (d, c') \<Rightarrow> tick_run obs c')"

lemma tick_run_ok: "rate_ok c \<Longrightarrow> \<exists>c'. tick_run obs c = Some c' \<and> rate_ok c' \<and> ct_cfg c' = ct_cfg c"
proof (induction obs arbitrary: c)
  case (Cons ob obs)
  obtain work pressure missed where ob: "ob = (work, pressure, missed)" using prod_cases3 by blast
  obtain d c' where o: "observe work pressure missed c = Some (d, c')" "good_decision c missed d c'" using observe_good [OF Cons.prems] by blast
  then show ?case using Cons.IH [of c'] by (auto simp: ob good_decision_def)
qed simp


definition demo_tick :: tick_config where
  "demo_tick = \<lparr>tc_enabled = True, tc_min_hz = 20, tc_initial_hz = 60, tc_max_hz = 120, tc_low_utilization = Fin False 0,
     tc_high_utilization = fl_of_int F64 1, tc_recovery_window = 180, tc_overload_backoff = Fin False (2 ^ 1073)\<rparr>"


end
