(* ===== verification/Udp_Server.thy ===== *)
theory Udp_Server
  imports State_Ingest Mesh_Forward State_Bags Game_Reach Udp Voice_Server
begin

text \<open>
  The gateway's game server (\<open>crates/baston-gateway/src/udp/server.rs\<close> and \<open>inbound.rs\<close>), which composes the player
  directory, the game state, the state ingestion, the forwarder, the voice server and the routing control: the dispatch
  of messages, the handshake, the relay, session-host arbitration, world commands of scripts and the end of a
  connection; with the events of \<open>crates/baston-protocol/src/events.rs\<close>, the handshake of \<open>udp/handshake.rs\<close> and the id
  reservation of \<open>world_control.rs\<close>. ENet is not modelled: a peer is a number and a send is recorded. The codings of
  other crates (form-urlencoded text, msgpack, bincode) and the conversion of bytes to text are the parameter
  \<open>udp_codec\<close>. Calls into the scripting host are recorded. Times are arguments, in nanoseconds since the start. A panic of the
  game state is \<open>None\<close>. The debug overlay, metrics and the publication of the world to scripts are left out.
\<close>

section \<open>Events and the handshake reply\<close>

definition build_net_event :: "string \<Rightarrow> u8 list \<Rightarrow> u8 list" where
  "build_net_event event_name msgpack_args =
     to_le_bytes 4 MSG_NET_EVENT @ to_le_bytes 2 (- 1 :: u16) @ to_le_bytes 2 (of_nat (length event_name + 1) :: u16) @
     map of_char event_name @ [0] @ msgpack_args"

record server_event =
  ev_name :: "u8 list"
  ev_args :: "u8 list"

definition parse_server_event :: "u8 list \<Rightarrow> server_event option" where
  "parse_server_event payload =
     (if length payload < 2 then None
      else let name_len = unat (from_le_bytes (take 2 payload) :: u16) in
        if name_len < 1 \<or> length payload < 2 + name_len then None
        else let raw = take name_len (drop 2 payload)
             in Some \<lparr>ev_name = (if last raw = 0 then butlast raw else raw), ev_args = drop (2 + name_len) payload\<rparr>)"

definition show_i64 :: "int \<Rightarrow> string" where
  "show_i64 i = (if i < 0 then CHR ''-'' # show_nat (nat (- i)) else show_nat (nat i))"

definition build_connect_ok :: "u32 \<Rightarrow> (u32 \<times> u32) option \<Rightarrow> u8 list" where
  "build_connect_ok net_id session_host =
     (let (host_id, host_base) = (case session_host of Some (i, base) \<Rightarrow> (uint i, uint base) | None \<Rightarrow> (- 1, - 1))
      in to_le_bytes 4 MSG_CONNECT @
         map of_char ('' '' @ show_nat (unat net_id) @ '' '' @ show_i64 host_id @ '' '' @ show_i64 host_base @ '' -1 -1''))"

section \<open>The server\<close>

type_synonym peer_id = nat

datatype script_call =
    ScNetEvent string u32 json
  | ScNativeResult u64 json
  | ScEvent string "json list"

record udp_codec =
  uc_form :: "u8 list \<Rightarrow> (string \<times> string) list option"
  uc_lossy :: "u8 list \<Rightarrow> string"
  uc_args :: "u8 list \<Rightarrow> json option"
  uc_pack :: "json \<Rightarrow> u8 list option"
  uc_convars :: "(string \<times> string) list \<Rightarrow> u8 list option"
  uc_state :: "u8 list \<Rightarrow> client_update option"

datatype script_entity_type = SePed | SeVehicle | SeObject

datatype world_command =
    WcSpawn u32 script_entity_type u32 vec3 fl bool
  | WcDespawn u32

text \<open>The pairs of the form are \<open>None\<close> when the payload is not UTF-8 text. The last pair of a name counts.\<close>

record connect_payload =
  cp_token :: string
  cp_guid :: string

definition form_value :: "string \<Rightarrow> (string \<times> string) list \<Rightarrow> string option" where
  "form_value k pairs = map_of (rev pairs) k"

definition parse_connect :: "udp_codec \<Rightarrow> u8 list \<Rightarrow> connect_payload option" where
  "parse_connect cd payload = do {
     pairs \<leftarrow> uc_form cd payload;
     token \<leftarrow> form_value ''token'' pairs;
     Some \<lparr>cp_token = token, cp_guid = unwrap_or [] (form_value ''guid'' pairs)\<rparr> }"

definition connect_token :: "udp_codec \<Rightarrow> u8 list \<Rightarrow> string option" where
  "connect_token cd payload = map_option cp_token (parse_connect cd payload)"

definition msgpack_to_json_args :: "udp_codec \<Rightarrow> u8 list \<Rightarrow> json option" where
  "msgpack_to_json_args cd bytes = (if bytes = [] then Some (JArr []) else uc_args cd bytes)"

record world_control =
  wc_queue :: "world_command list"
  wc_next_id :: u32

record udp_server =
  us_players :: player_directory
  us_peer_sources :: "(peer_id \<times> u32) list"
  us_source_peers :: "(u32 \<times> peer_id) list"
  us_session_host :: "(u32 \<times> u32) option"
  us_hosting :: "(u32 \<times> nat) option"
  us_waiters :: "u32 list"
  us_ingest :: "state_ingest option"
  us_voice :: "voice_state option"
  us_voice_advertise :: "(string \<times> u16) option"
  us_forward :: "forward_msg list option"
  us_onesync :: "server_game_state option"
  us_focus :: "(u32 \<times> pos3) list"
  us_routing :: routing_control
  us_routing_revision :: u64
  us_world :: "world_control option"
  us_sent :: "(peer_id \<times> u8 \<times> u8 list \<times> bool) list"
  us_closed :: "peer_id list"
  us_calls :: "script_call list"
  us_voice_out :: "voice_out list"

definition HOSTING_GRANT_TIMEOUT :: nat where "HOSTING_GRANT_TIMEOUT = 5 * 10 ^ 9"

definition send_peer :: "peer_id \<Rightarrow> u8 \<Rightarrow> u8 list \<Rightarrow> bool \<Rightarrow> udp_server \<Rightarrow> udp_server" where
  "send_peer peer channel bytes reliable s = s\<lparr>us_sent := us_sent s @ [(peer, channel, bytes, reliable)]\<rparr>"

definition disconnect_peer :: "peer_id \<Rightarrow> udp_server \<Rightarrow> udp_server" where
  "disconnect_peer peer s = s\<lparr>us_closed := us_closed s @ [peer]\<rparr>"

definition send_to_source :: "u32 \<Rightarrow> u8 \<Rightarrow> u8 list \<Rightarrow> bool \<Rightarrow> udp_server \<Rightarrow> udp_server" where
  "send_to_source source channel bytes reliable s =
     (case map_of (us_source_peers s) source of None \<Rightarrow> s | Some peer \<Rightarrow> send_peer peer channel bytes reliable s)"

definition drop_source :: "u32 \<Rightarrow> udp_server \<Rightarrow> udp_server" where
  "drop_source source s = (case map_of (us_source_peers s) source of None \<Rightarrow> s | Some peer \<Rightarrow> disconnect_peer peer s)"

definition set_voice :: "voice_state \<Rightarrow> (string \<times> u16) option \<Rightarrow> udp_server \<Rightarrow> udp_server" where
  "set_voice v advertise s = s\<lparr>us_voice := Some v, us_voice_advertise := advertise\<rparr>"

definition set_world_commands :: "world_control \<Rightarrow> udp_server \<Rightarrow> udp_server" where
  "set_world_commands w s = s\<lparr>us_world := Some w\<rparr>"

definition send_client_event :: "udp_codec \<Rightarrow> string \<Rightarrow> u32 \<Rightarrow> json \<Rightarrow> udp_server \<Rightarrow> udp_server" where
  "send_client_event cd event to args s =
     (case uc_pack cd args of None \<Rightarrow> s | Some msgpack \<Rightarrow> send_to_source to 0 (build_net_event event msgpack) True s)"

definition send_player_event :: "udp_codec \<Rightarrow> string \<Rightarrow> u32 \<Rightarrow> u32 \<Rightarrow> string \<Rightarrow> udp_server \<Rightarrow> udp_server" where
  "send_player_event cd event to about name s =
     send_client_event cd event to (JArr [JPosInt (ucast about), JStr name, JPosInt 4294967295]) s"

definition send_session_host_result :: "udp_codec \<Rightarrow> u32 \<Rightarrow> string \<Rightarrow> udp_server \<Rightarrow> udp_server" where
  "send_session_host_result cd to result s = send_client_event cd ''sessionHostResult'' to (JArr [JStr result]) s"

definition player_name :: "u32 \<Rightarrow> udp_server \<Rightarrow> string" where
  "player_name source s = (case pd_get source (us_players s) of None \<Rightarrow> [] | Some p \<Rightarrow> pi_name p)"

definition broadcast_host :: "u16 \<Rightarrow> u32 \<Rightarrow> udp_server \<Rightarrow> udp_server" where
  "broadcast_host net_id base_num s =
     fold (\<lambda>peer. send_peer peer 0 (build_server_i_host net_id base_num) True) (map fst (us_peer_sources s)) s"

section \<open>Session-host arbitration\<close>

definition release_hosting_grant :: "udp_codec \<Rightarrow> udp_server \<Rightarrow> udp_server" where
  "release_hosting_grant cd s =
     fold (\<lambda>waiter. send_session_host_result cd waiter ''free'') (us_waiters s) (s\<lparr>us_hosting := None, us_waiters := []\<rparr>)"

definition expire_hosting_grant :: "udp_codec \<Rightarrow> nat \<Rightarrow> udp_server \<Rightarrow> udp_server" where
  "expire_hosting_grant cd now s =
     (case us_hosting s of
        None \<Rightarrow> s
      | Some (holder, deadline) \<Rightarrow> if deadline \<le> now then release_hosting_grant cd s else s)"

definition on_hosting_session :: "udp_codec \<Rightarrow> nat \<Rightarrow> u32 \<Rightarrow> udp_server \<Rightarrow> udp_server" where
  "on_hosting_session cd now source s0 =
     (let s = expire_hosting_grant cd now s0 in
      if (case us_session_host s of None \<Rightarrow> False | Some (host, base) \<Rightarrow> host \<noteq> source \<and> map_of (us_source_peers s) host \<noteq> None)
      then send_session_host_result cd source ''conflict'' s
      else case us_hosting s of
        Some (holder, deadline) \<Rightarrow>
          if holder = source then send_session_host_result cd source ''go'' s
          else send_session_host_result cd source ''wait'' (s\<lparr>us_waiters := us_waiters s @ [source]\<rparr>)
      | None \<Rightarrow> send_session_host_result cd source ''go'' (s\<lparr>us_hosting := Some (source, now + HOSTING_GRANT_TIMEOUT)\<rparr>))"

definition on_hosted_session :: "udp_codec \<Rightarrow> u32 \<Rightarrow> udp_server \<Rightarrow> udp_server" where
  "on_hosted_session cd source s =
     (case us_hosting s of
        Some (holder, deadline) \<Rightarrow> if holder = source then release_hosting_grant cd s else s
      | None \<Rightarrow> s)"

section \<open>Routing mirror\<close>

definition mirror_bucket :: "routing_control \<Rightarrow> u32 \<Rightarrow> server_game_state \<Rightarrow> server_game_state" where
  "mirror_bucket r bucket gs =
     set_routing_bucket_population_enabled bucket (rc_population_enabled bucket r)
       (set_routing_bucket_lockdown bucket (rc_lockdown_mode bucket r) gs)"

definition refresh_source :: "routing_control \<Rightarrow> u32 \<Rightarrow> server_game_state \<Rightarrow> server_game_state" where
  "refresh_source r source gs =
     (let bucket = rc_player_bucket source r in mirror_bucket r bucket (set_player_routing_bucket source bucket gs))"

definition refresh_routing_source :: "u32 \<Rightarrow> udp_server \<Rightarrow> udp_server" where
  "refresh_routing_source source s = s\<lparr>us_onesync := map_option (refresh_source (us_routing s) source) (us_onesync s)\<rparr>"

definition refresh_all :: "routing_control \<Rightarrow> server_game_state \<Rightarrow> server_game_state" where
  "refresh_all r gs =
     (let sources = client_sources gs; ids = entity_ids gs;
          g1 = fold (\<lambda>p. set_player_routing_bucket p (rc_player_bucket p r)) sources gs;
          g2 = fold (\<lambda>k. set_entity_routing_bucket k (rc_entity_bucket (ucast k) r)) ids g1;
          buckets = remdups (sort (0 # map (\<lambda>p. rc_player_bucket p r) sources @ map (\<lambda>k. rc_entity_bucket (ucast k) r) ids))
      in fold (mirror_bucket r) buckets g2)"

definition refresh_routing_state :: "udp_server \<Rightarrow> udp_server" where
  "refresh_routing_state s =
     (if rc_revision (us_routing s) = us_routing_revision s then s
      else case us_onesync s of
        None \<Rightarrow> s
      | Some gs \<Rightarrow> s\<lparr>us_onesync := Some (refresh_all (us_routing s) gs), us_routing_revision := rc_revision (us_routing s)\<rparr>)"

section \<open>Connecting\<close>

definition baston_marker :: "u8 list" where "baston_marker = map of_char ''bastonClient=1''"

definition is_baston_client :: "u8 list \<Rightarrow> bool" where
  "is_baston_client payload \<longleftrightarrow>
     list_ex (\<lambda>i. take 15 (drop i payload) = baston_marker @ [38]) [0..<length payload] \<or>
     (14 \<le> length payload \<and> drop (length payload - 14) payload = baston_marker)"

definition is_subscriber :: "u32 \<Rightarrow> udp_server \<Rightarrow> bool" where
  "is_subscriber source s = (case us_ingest s of None \<Rightarrow> False | Some i \<Rightarrow> is_snapshot_subscriber source i)"

definition introduce :: "udp_codec \<Rightarrow> u32 \<Rightarrow> string \<Rightarrow> u32 \<times> bool \<Rightarrow> udp_server \<Rightarrow> udp_server" where
  "introduce cd source name = (\<lambda>(other, other_is_subscriber) s.
     let s1 = send_player_event cd ''onPlayerJoining'' source other (player_name other s) s
     in if other \<noteq> source \<and> \<not> other_is_subscriber then send_player_event cd ''onPlayerJoining'' other source name s1 else s1)"

definition replicated_convars :: "udp_server \<Rightarrow> (string \<times> string) list" where
  "replicated_convars s =
     (''onesync'', if us_onesync s \<noteq> None then ''on'' else ''off'') #
     (case us_voice_advertise s of
        None \<Rightarrow> []
      | Some (addr, port) \<Rightarrow> [(''voice_externalAddress'', addr), (''voice_externalPort'', show_nat (unat port))])"

definition send_post_connect :: "udp_codec \<Rightarrow> u32 \<Rightarrow> bool \<Rightarrow> udp_server \<Rightarrow> udp_server" where
  "send_post_connect cd source baston s0 =
     (let s1 = refresh_routing_source source (s0\<lparr>us_onesync := map_option (add_client source) (us_onesync s0)\<rparr>);
          s2 = (case uc_convars cd (replicated_convars s0) of
                  None \<Rightarrow> s1
                | Some payload \<Rightarrow> send_to_source source 0 (to_le_bytes 4 (hash_rage_string ''msgConVars'') @ payload) True s1);
          bucket = rc_player_bucket source (us_routing s2);
          others = map (\<lambda>p. (p, is_subscriber p s2)) (filter (\<lambda>p. rc_player_bucket p (us_routing s2) = bucket) (map snd (us_peer_sources s2)));
          s3 = (if baston then s2 else fold (introduce cd source (player_name source s2)) others s2)
      in s3\<lparr>us_calls := us_calls s3 @ [ScNetEvent ''playerJoining'' source (JArr [JStr (show_nat (unat source))])]\<rparr>)"

text \<open>Whether the reply can be sent is an argument.\<close>

definition on_handshake :: "udp_codec \<Rightarrow> bool \<Rightarrow> peer_id \<Rightarrow> u8 list \<Rightarrow> udp_server \<Rightarrow> udp_server" where
  "on_handshake cd reply_sent peer payload s =
     (case connect_token cd payload of
        None \<Rightarrow> s
      | Some token \<Rightarrow>
          (case source_for_token token (us_players s) of
             None \<Rightarrow> disconnect_peer peer s
           | Some source \<Rightarrow>
               let s1 = s\<lparr>us_peer_sources := AList.update peer source (us_peer_sources s),
                          us_source_peers := AList.update source peer (us_source_peers s)\<rparr>
               in if \<not> reply_sent then s1
                  else let s2 = send_peer peer 0 (build_connect_ok source (us_session_host s)) True s1;
                           s3 = (if is_baston_client payload
                                 then s2\<lparr>us_ingest := map_option (mark_snapshot_subscriber source) (us_ingest s2)\<rparr> else s2)
                       in send_post_connect cd source (is_baston_client payload) s3))"

section \<open>Game messages\<close>

definition on_clone_stream :: "lz4_api \<Rightarrow> libm \<Rightarrow> u32 \<Rightarrow> u8 list \<Rightarrow> udp_server \<Rightarrow> udp_server option" where
  "on_clone_stream lz lm source d s0 =
     (let s = refresh_routing_source source s0 in
      case us_onesync s of
        None \<Rightarrow> Some s
      | Some gs \<Rightarrow> do {
          (outcome, gs') \<leftarrow> ingest_clone_payload lz lm source d gs;
          Some (fold (\<lambda>packet. send_to_source source 1 packet True) (io_ack_packets outcome) (s\<lparr>us_onesync := Some gs'\<rparr>)) })"

definition on_route :: "lz4_api \<Rightarrow> libm \<Rightarrow> peer_id \<Rightarrow> u8 list \<Rightarrow> udp_server \<Rightarrow> udp_server option" where
  "on_route lz lm peer payload s =
     (case (map_of (us_peer_sources s) peer, parse_client_route payload) of
        (Some source, Some route) \<Rightarrow>
          if us_onesync s \<noteq> None then on_clone_stream lz lm source (route_data route) s
          else let target = (ucast (target_net_id route) :: u32) in
            if target = source \<or> rc_player_bucket source (us_routing s) \<noteq> rc_player_bucket target (us_routing s) then Some s
            else (case map_of (us_source_peers s) target of
                    None \<Rightarrow> Some s
                  | Some target_peer \<Rightarrow> Some (send_peer target_peer 1 (build_server_route (ucast source) (route_data route)) False s))
      | _ \<Rightarrow> Some s)"

definition on_game_state_nack :: "peer_id \<Rightarrow> u8 list \<Rightarrow> udp_server \<Rightarrow> udp_server" where
  "on_game_state_nack peer payload s =
     (case (map_of (us_peer_sources s) peer, us_onesync s, parse_nack payload) of
        (Some source, Some gs, Some nack) \<Rightarrow> s\<lparr>us_onesync := Some (apply_nack source nack gs)\<rparr>
      | _ \<Rightarrow> s)"

definition on_game_state_ack :: "peer_id \<Rightarrow> u8 list \<Rightarrow> udp_server \<Rightarrow> udp_server" where
  "on_game_state_ack peer payload s =
     (case (map_of (us_peer_sources s) peer, us_onesync s, parse_ack payload) of
        (Some source, Some gs, Some ack) \<Rightarrow> s\<lparr>us_onesync := Some (apply_ack source ack gs)\<rparr>
      | _ \<Rightarrow> s)"

definition on_request_object_ids :: "peer_id \<Rightarrow> udp_server \<Rightarrow> udp_server option" where
  "on_request_object_ids peer s =
     (case (map_of (us_peer_sources s) peer, us_onesync s) of
        (Some source, Some gs) \<Rightarrow> do {
          ((ids, packet), gs') \<leftarrow> lease_object_ids source (gs_ids_per_request gs) gs;
          Some (send_to_source source 1 packet True (s\<lparr>us_onesync := Some gs'\<rparr>)) }
      | _ \<Rightarrow> Some s)"

text \<open>\<open>fresh\<close> is the entity id drawn when the player has no entity yet.\<close>

definition accept_state :: "nat \<Rightarrow> entity_id \<Rightarrow> bool \<Rightarrow> u32 \<Rightarrow> client_update \<Rightarrow> udp_server \<Rightarrow> udp_server" where
  "accept_state now fresh binary source u s0 =
     (let s = (if us_onesync s0 \<noteq> None then s0\<lparr>us_focus := AList.update source (cu_coords u) (us_focus s0)\<rparr> else s0) in
      if binary \<and> us_ingest s = None then s
      else s\<lparr>us_forward := map_option (\<lambda>fs. fs @ [FwUpdate source u]) (us_forward s),
             us_ingest := map_option (\<lambda>i. snd (si_apply now fresh source u
               (if binary then mark_snapshot_subscriber source i else i))) (us_ingest s)\<rparr>)"

definition on_state_update :: "udp_codec \<Rightarrow> nat \<Rightarrow> entity_id \<Rightarrow> peer_id \<Rightarrow> u8 list \<Rightarrow> udp_server \<Rightarrow> udp_server" where
  "on_state_update cd now fresh peer payload s =
     (case (map_of (us_peer_sources s) peer, uc_state cd payload) of
        (Some source, Some u) \<Rightarrow> accept_state now fresh True source u s
      | _ \<Rightarrow> s)"

definition on_time_sync :: "nat \<Rightarrow> peer_id \<Rightarrow> u8 list \<Rightarrow> udp_server \<Rightarrow> udp_server" where
  "on_time_sync now peer payload s =
     (case parse_time_sync_request payload of
        None \<Rightarrow> s
      | Some request \<Rightarrow> send_peer peer 1 (build_time_sync_response request (of_nat (now div 10 ^ 6))) True s)"

definition on_i_host :: "peer_id \<Rightarrow> u8 list \<Rightarrow> udp_server \<Rightarrow> udp_server" where
  "on_i_host peer payload s =
     (case (map_of (us_peer_sources s) peer, parse_i_host payload) of
        (Some source, Some base_num) \<Rightarrow>
          if us_session_host s \<noteq> None then s
          else broadcast_host (ucast source) base_num (s\<lparr>us_session_host := Some (source, base_num)\<rparr>)
      | _ \<Rightarrow> s)"

definition NATIVE_RESULT_EVENT :: string where "NATIVE_RESULT_EVENT = ''__baston:nativeResult''"
definition STATE_UPDATE_EVENT :: string where "STATE_UPDATE_EVENT = ''__baston:stateUpdate''"
definition DEBUG_INFO_TOGGLE_EVENT :: string where "DEBUG_INFO_TOGGLE_EVENT = ''baston:displayInfo:toggle''"
definition MSG_BASTON_STATE :: u32 where "MSG_BASTON_STATE = hash_rage_string ''msgBastonState''"

definition record_call :: "script_call \<Rightarrow> udp_server \<Rightarrow> udp_server" where
  "record_call c s = s\<lparr>us_calls := us_calls s @ [c]\<rparr>"

definition on_server_event :: "udp_codec \<Rightarrow> nat \<Rightarrow> entity_id \<Rightarrow> peer_id \<Rightarrow> u8 list \<Rightarrow> udp_server \<Rightarrow> udp_server" where
  "on_server_event cd now fresh peer payload s =
     (case (map_of (us_peer_sources s) peer, parse_server_event payload) of
        (Some source, Some event) \<Rightarrow>
          (let name = uc_lossy cd (ev_name event) in
           case msgpack_to_json_args cd (ev_args event) of
             None \<Rightarrow> s
           | Some args \<Rightarrow>
               if name = ''hostingSession'' then on_hosting_session cd now source s
               else if name = ''hostedSession'' then on_hosted_session cd source s
               else if name = NATIVE_RESULT_EVENT then
                 (case Option.bind (json_nth args 0) json_u64 of
                    None \<Rightarrow> s
                  | Some i \<Rightarrow> record_call (ScNativeResult i (unwrap_or JNull (json_nth args 1))) s)
               else if name = STATE_UPDATE_EVENT then
                 (case client_state_update_from_json args of
                    None \<Rightarrow> s
                  | Some u \<Rightarrow> accept_state now fresh False source u s)
               else if name = DEBUG_INFO_TOGGLE_EVENT then s
               else record_call (ScNetEvent name source args) s)
      | _ \<Rightarrow> s)"

section \<open>The end of a connection\<close>

definition leave_session :: "udp_codec \<Rightarrow> peer_id \<Rightarrow> u32 \<Rightarrow> udp_server \<Rightarrow> udp_server" where
  "leave_session cd peer source s =
     (let s1 = s\<lparr>us_peer_sources := AList.delete peer (us_peer_sources s),
                 us_source_peers := AList.delete source (us_source_peers s),
                 us_focus := AList.delete source (us_focus s)\<rparr>;
          s2 = (case us_session_host s1 of
                  Some (i, base) \<Rightarrow> if i = source then broadcast_host 0xFFFF 0 (s1\<lparr>us_session_host := None\<rparr>) else s1
                | None \<Rightarrow> s1);
          s3 = s2\<lparr>us_waiters := filter (\<lambda>w. w \<noteq> source) (us_waiters s2)\<rparr>
      in case us_hosting s3 of
           Some (holder, deadline) \<Rightarrow> if holder = source then release_hosting_grant cd s3 else s3
         | None \<Rightarrow> s3)"

definition leave_services :: "prost_api \<Rightarrow> u32 \<Rightarrow> udp_server \<Rightarrow> udp_server" where
  "leave_services pb source s =
     (let s1 = s\<lparr>us_ingest := map_option (si_on_player_dropped source) (us_ingest s)\<rparr>;
          s2 = (case us_voice s1 of
                  None \<Rightarrow> s1
                | Some v \<Rightarrow> let (v', out) = on_player_dropped pb source v
                            in s1\<lparr>us_voice := Some v', us_voice_out := us_voice_out s1 @ out\<rparr>)
      in s2\<lparr>us_forward := map_option (\<lambda>fs. fs @ [FwDropped source]) (us_forward s2)\<rparr>)"

definition leave_world :: "u32 \<Rightarrow> udp_server \<Rightarrow> udp_server option" where
  "leave_world source s =
     (case us_onesync s of
        None \<Rightarrow> Some s
      | Some gs \<Rightarrow> map_option (\<lambda>(orphaned, gs'). s\<lparr>us_onesync := Some gs'\<rparr>) (gs_remove_client source gs))"

definition leave_directory :: "udp_codec \<Rightarrow> u32 \<Rightarrow> u32 \<Rightarrow> udp_server \<Rightarrow> udp_server" where
  "leave_directory cd source bucket s =
     (let (p, players) = pd_remove source (us_players s);
          name = (case p of None \<Rightarrow> [] | Some q \<Rightarrow> pi_name q);
          s1 = s\<lparr>us_players := players\<rparr>;
          remaining = filter (\<lambda>q. rc_player_bucket q (us_routing s1) = bucket) (map snd (us_peer_sources s1));
          s2 = record_call (ScEvent ''playerDropped'' [JStr ''Disconnected.''])
                 (fold (\<lambda>q. send_player_event cd ''onPlayerDropped'' q source name) remaining s1)
      in s2\<lparr>us_routing := rc_set_player_bucket source 0 (us_routing s2)\<rparr>)"

definition on_disconnect :: "udp_codec \<Rightarrow> prost_api \<Rightarrow> peer_id \<Rightarrow> udp_server \<Rightarrow> udp_server option" where
  "on_disconnect cd pb peer s =
     (case map_of (us_peer_sources s) peer of
        None \<Rightarrow> Some s
      | Some source \<Rightarrow>
          map_option (leave_directory cd source (rc_player_bucket source (us_routing s)))
            (leave_world source (leave_services pb source (leave_session cd peer source s))))"

section \<open>Dispatch\<close>

definition expected_channel :: "u32 \<Rightarrow> u8 option" where
  "expected_channel msg_type =
     (if msg_type \<in> {MSG_CONNECT, MSG_TIME_SYNC_REQ, MSG_SERVER_EVENT, MSG_I_HOST, MSG_I_QUIT} then Some 0
      else if msg_type \<in> {MSG_BASTON_STATE, MSG_ROUTE, MSG_REQUEST_OBJECT_IDS, GAME_STATE_NACK, GAME_STATE_ACK} then Some 1
      else None)"

text \<open>What the handlers read of their surroundings: the clock, the next entity id, and whether a reply can be sent.\<close>

record udp_env =
  ue_codec :: udp_codec
  ue_prost :: prost_api
  ue_lz4 :: lz4_api
  ue_libm :: libm
  ue_now :: nat
  ue_fresh :: entity_id
  ue_reply_sent :: bool

definition on_receive :: "udp_env \<Rightarrow> peer_id \<Rightarrow> u8 \<Rightarrow> u8 list \<Rightarrow> udp_server \<Rightarrow> udp_server option" where
  "on_receive e peer channel d s =
     (let cd = ue_codec e in
      case read_message_type d of
        None \<Rightarrow> Some s
      | Some (msg_type, payload) \<Rightarrow>
          if (case expected_channel msg_type of None \<Rightarrow> False | Some expected \<Rightarrow> expected \<noteq> channel) then Some s
          else if msg_type = MSG_CONNECT then Some (on_handshake cd (ue_reply_sent e) peer payload s)
          else if msg_type = MSG_TIME_SYNC_REQ then Some (on_time_sync (ue_now e) peer payload s)
          else if msg_type = MSG_SERVER_EVENT then Some (on_server_event cd (ue_now e) (ue_fresh e) peer payload s)
          else if msg_type = MSG_BASTON_STATE then Some (on_state_update cd (ue_now e) (ue_fresh e) peer payload s)
          else if msg_type = MSG_ROUTE then on_route (ue_lz4 e) (ue_libm e) peer payload s
          else if msg_type = MSG_REQUEST_OBJECT_IDS then on_request_object_ids peer s
          else if msg_type = GAME_STATE_NACK then Some (on_game_state_nack peer payload s)
          else if msg_type = GAME_STATE_ACK then Some (on_game_state_ack peer payload s)
          else if msg_type = MSG_I_HOST then Some (on_i_host peer payload s)
          else if msg_type = MSG_I_QUIT then on_disconnect cd (ue_prost e) peer (disconnect_peer peer s)
          else Some s)"

section \<open>World commands of scripts\<close>

definition COMMAND_CAPACITY :: nat where "COMMAND_CAPACITY = 4096"

definition wc_new :: world_control where
  "wc_new = \<lparr>wc_queue = [], wc_next_id = ucast MAX_OBJECT_ID_NATIVE\<rparr>"

definition reserve_network_id :: "world_control \<Rightarrow> u32 option \<times> world_control" where
  "reserve_network_id w =
     (if 0 < wc_next_id w then (Some (wc_next_id w), w\<lparr>wc_next_id := wc_next_id w - 1\<rparr>) else (None, w))"

definition submit :: "world_command \<Rightarrow> world_control \<Rightarrow> world_control" where
  "submit c w = (if length (wc_queue w) < COMMAND_CAPACITY then w\<lparr>wc_queue := wc_queue w @ [c]\<rparr> else w)"

fun net_object_type :: "script_entity_type \<Rightarrow> net_obj_entity_type" where
  "net_object_type SePed = Ped"
| "net_object_type SeVehicle = Automobile"
| "net_object_type SeObject = Object"

fun run_world_command :: "libm \<Rightarrow> world_command \<Rightarrow> server_game_state \<Rightarrow> server_game_state option" where
  "run_world_command lm (WcSpawn network_id ty mdl pos hdg dynamic) gs =
     map_option snd (spawn_server_entity_with_id lm (ucast network_id) (net_object_type ty) mdl pos hdg dynamic gs)"
| "run_world_command lm (WcDespawn network_id) gs = map_option snd (despawn_entity (ucast network_id) gs)"

fun run_world_commands :: "libm \<Rightarrow> world_command list \<Rightarrow> server_game_state \<Rightarrow> server_game_state option" where
  "run_world_commands lm [] gs = Some gs"
| "run_world_commands lm (c # cs) gs = do { gs1 \<leftarrow> run_world_command lm c gs; run_world_commands lm cs gs1 }"

definition apply_world_commands :: "libm \<Rightarrow> udp_server \<Rightarrow> udp_server option" where
  "apply_world_commands lm s =
     (case us_world s of
        None \<Rightarrow> Some s
      | Some w \<Rightarrow>
          let s1 = s\<lparr>us_world := Some (w\<lparr>wc_queue := []\<rparr>)\<rparr> in
          case us_onesync s of
            None \<Rightarrow> Some s1
          | Some gs \<Rightarrow> map_option (\<lambda>gs'. s1\<lparr>us_onesync := Some gs'\<rparr>) (run_world_commands lm (wc_queue w) gs))"

definition onesync_tick :: "lz4_api \<Rightarrow> libm \<Rightarrow> interest_config \<Rightarrow> udp_server \<Rightarrow> udp_server option" where
  "onesync_tick lz lm cfg s =
     (if us_onesync s = None then Some s
      else do {
        s1 \<leftarrow> apply_world_commands lm (refresh_routing_state s);
        case us_onesync s1 of
          None \<Rightarrow> Some s1
        | Some gs \<Rightarrow> do {
            let focus = map_of (us_focus s1);
            (outbound, gs') \<leftarrow> tick_clients lz focus cfg
              (gs_tick (reassign_ownerless_server_entities (seed_unknown_player_positions focus gs)));
            Some (fold (\<lambda>(source, packets) st. fold (\<lambda>d. send_to_source source 1 d False) packets st) outbound
              (s1\<lparr>us_onesync := Some gs'\<rparr>)) } })"

datatype net_outbound = ClientEvent u32 string "u8 list option" | ClientEventRaw u32 string "u8 list"

text \<open>The argument text of a client event is given as its msgpack form, if it has one.\<close>

fun handle_net_outbound :: "net_outbound \<Rightarrow> udp_server \<Rightarrow> udp_server" where
  "handle_net_outbound (ClientEvent source event msgpack) s =
     (case msgpack of None \<Rightarrow> s | Some m \<Rightarrow> send_to_source source 0 (build_net_event event m) True s)"
| "handle_net_outbound (ClientEventRaw source event payload) s = send_to_source source 0 (build_net_event event payload) True s"

section \<open>The event pump\<close>

datatype enet_event = EnConnect peer_id | EnDisconnect peer_id | EnReceive peer_id u8 "u8 list"

fun enet_handle :: "udp_env \<Rightarrow> enet_event \<Rightarrow> udp_server \<Rightarrow> udp_server option" where
  "enet_handle e (EnConnect peer) s = Some s"
| "enet_handle e (EnDisconnect peer) s = on_disconnect (ue_codec e) (ue_prost e) peer s"
| "enet_handle e (EnReceive peer channel d) s = on_receive e peer channel d s"

fun enet_service :: "(udp_env \<times> enet_event) list \<Rightarrow> udp_server \<Rightarrow> udp_server option" where
  "enet_service [] s = Some s"
| "enet_service ((e, ev) # evs) s = do { s1 \<leftarrow> enet_handle e ev s; enet_service evs s1 }"

definition pump :: "udp_codec \<Rightarrow> nat \<Rightarrow> (udp_env \<times> enet_event) list \<Rightarrow> udp_server \<Rightarrow> udp_server option" where
  "pump cd now evs s = enet_service evs (expire_hosting_grant cd now s)"

definition udp_new :: "player_directory \<Rightarrow> state_ingest option \<Rightarrow> forward_msg list option \<Rightarrow> routing_control \<Rightarrow> bool \<Rightarrow> game_build \<Rightarrow> udp_server" where
  "udp_new players ingest forward r onesync build =
     \<lparr>us_players = players, us_peer_sources = [], us_source_peers = [], us_session_host = None, us_hosting = None,
      us_waiters = [], us_ingest = ingest, us_voice = None, us_voice_advertise = None, us_forward = forward,
      us_onesync = (if onesync then Some (with_build True False build) else None), us_focus = [], us_routing = r,
      us_routing_revision = - 1, us_world = None, us_sent = [], us_closed = [], us_calls = [], us_voice_out = []\<rparr>"

section \<open>What sends leave alone\<close>

definition unsent :: "udp_server \<Rightarrow> udp_server" where
  "unsent s = s\<lparr>us_sent := []\<rparr>"

lemma unsent_fields:
  assumes "unsent s' = unsent s"
  shows "us_peer_sources s' = us_peer_sources s" "us_source_peers s' = us_source_peers s"
    "us_session_host s' = us_session_host s" "us_hosting s' = us_hosting s" "us_waiters s' = us_waiters s"
    "us_onesync s' = us_onesync s" "us_routing s' = us_routing s" "us_players s' = us_players s"
proof -
  from assms have "f (unsent s') = f (unsent s)" for f :: "udp_server \<Rightarrow> 'z" by simp
  from this [of us_peer_sources] this [of us_source_peers] this [of us_session_host] this [of us_hosting]
    this [of us_waiters] this [of us_onesync] this [of us_routing] this [of us_players]
  show "us_peer_sources s' = us_peer_sources s" "us_source_peers s' = us_source_peers s"
    "us_session_host s' = us_session_host s" "us_hosting s' = us_hosting s" "us_waiters s' = us_waiters s"
    "us_onesync s' = us_onesync s" "us_routing s' = us_routing s" "us_players s' = us_players s"
    by (simp_all add: unsent_def)
qed

lemma unsent_send [simp]:
  "unsent (send_peer p ch d r s) = unsent s" "unsent (send_to_source q ch d r s) = unsent s"
  "unsent (send_client_event cd ev q args s) = unsent s" "unsent (send_player_event cd ev q about nm s) = unsent s"
  "unsent (send_session_host_result cd q result s) = unsent s"
  by (simp_all add: unsent_def send_peer_def send_to_source_def send_client_event_def send_player_event_def
      send_session_host_result_def split: option.split)

lemma unsent_fold: "(\<And>x st. unsent (f x st) = unsent st) \<Longrightarrow> unsent (fold f xs s) = unsent s"
  by (induction xs arbitrary: s) simp_all

lemma unsent_folds [simp]:
  "unsent (broadcast_host n b s) = unsent s" "unsent (fold (introduce cd q nm) os s) = unsent s"
  "unsent (fold (\<lambda>d. send_to_source q ch d r) ds s) = unsent s"
  "unsent (fold (\<lambda>(p, ds) st. fold (\<lambda>d. send_to_source p ch d r) ds st) out s) = unsent s"
  "unsent (fold (\<lambda>q. send_player_event cd ev q about nm) qs s) = unsent s"
  "unsent (fold (\<lambda>q. send_session_host_result cd q result) qs s) = unsent s"
  unfolding broadcast_host_def
  by (rule unsent_fold, auto simp: introduce_def Let_def split: prod.split intro: unsent_fold)+

lemma unsent_updates [simp]:
  "unsent (s\<lparr>us_hosting := h, us_waiters := w\<rparr>) = unsent s\<lparr>us_hosting := h, us_waiters := w\<rparr>"
  by (simp add: unsent_def)

lemmas send_frame [simp] =
  unsent_fields [OF unsent_send(1)] unsent_fields [OF unsent_send(2)] unsent_fields [OF unsent_send(3)]
  unsent_fields [OF unsent_send(4)] unsent_fields [OF unsent_send(5)]
  unsent_fields [OF unsent_folds(1)] unsent_fields [OF unsent_folds(2)] unsent_fields [OF unsent_folds(3)]
  unsent_fields [OF unsent_folds(4)] unsent_fields [OF unsent_folds(5)] unsent_fields [OF unsent_folds(6)]

lemma close_frame [simp]:
  "us_peer_sources (disconnect_peer p s) = us_peer_sources s" "us_source_peers (disconnect_peer p s) = us_source_peers s"
  "us_session_host (disconnect_peer p s) = us_session_host s" "us_hosting (disconnect_peer p s) = us_hosting s"
  "us_waiters (disconnect_peer p s) = us_waiters s" "us_onesync (disconnect_peer p s) = us_onesync s"
  by (simp_all add: disconnect_peer_def)

lemma release_frame [simp]:
  "us_peer_sources (release_hosting_grant cd s) = us_peer_sources s" "us_source_peers (release_hosting_grant cd s) = us_source_peers s"
  "us_session_host (release_hosting_grant cd s) = us_session_host s" "us_hosting (release_hosting_grant cd s) = None"
  "us_waiters (release_hosting_grant cd s) = []" "us_onesync (release_hosting_grant cd s) = us_onesync s"
  by (simp_all add: release_hosting_grant_def)

lemma leave_frame [simp]:
  "us_onesync (leave_session cd p q s) = us_onesync s" "us_onesync (leave_services pb q s) = us_onesync s"
  "us_onesync (leave_directory cd q b s) = us_onesync s"
  by (auto simp: leave_session_def leave_services_def leave_directory_def record_call_def Let_def split: option.split prod.split)

section \<open>Reachable servers\<close>

text \<open>Everything that happens to a server: messages and disconnections from any peer with any bytes, expiry, ticks,
  sends of scripts, and arbitrary changes by other tasks to what they share with it. The hash maps of the game state may change their order.
  In a disciplined run a handshake is made only by a peer that is not connected, for a source that is not.\<close>

definition tidy_handshake :: "udp_env \<Rightarrow> enet_event \<Rightarrow> udp_server \<Rightarrow> bool" where
  "tidy_handshake e ev s =
     (case ev of
        EnReceive peer channel d \<Rightarrow>
          (case read_message_type d of
             Some (msg_type, payload) \<Rightarrow> msg_type = MSG_CONNECT \<longrightarrow>
               (case Option.bind (connect_token (ue_codec e) payload) (\<lambda>t. source_for_token t (us_players s)) of
                  None \<Rightarrow> True
                | Some source \<Rightarrow> map_of (us_peer_sources s) peer = None \<and> map_of (us_source_peers s) source = None)
           | None \<Rightarrow> True)
      | _ \<Rightarrow> True)"

inductive us_reach :: "bool \<Rightarrow> udp_server \<Rightarrow> bool" for tidy where
  ur_init: "us_reach tidy (udp_new players ingest forward r onesync build)"
| ur_event: "us_reach tidy s \<Longrightarrow> (tidy \<Longrightarrow> tidy_handshake e ev s) \<Longrightarrow> enet_handle e ev s = Some s' \<Longrightarrow> us_reach tidy s'"
| ur_expire: "us_reach tidy s \<Longrightarrow> us_reach tidy (expire_hosting_grant cd now s)"
| ur_tick: "us_reach tidy s \<Longrightarrow> onesync_tick lz lm cfg s = Some s' \<Longrightarrow> us_reach tidy s'"
| ur_outbound: "us_reach tidy s \<Longrightarrow> us_reach tidy (handle_net_outbound out s)"
| ur_command: "us_reach tidy s \<Longrightarrow> us_reach tidy (send_to_source q ch d rel s)"
| ur_drop: "us_reach tidy s \<Longrightarrow> us_reach tidy (drop_source q s)"
| ur_other: "us_reach tidy s \<Longrightarrow> us_reach tidy (s\<lparr>us_players := players, us_routing := r, us_ingest := ingest, us_voice := voice,
    us_voice_advertise := advertise, us_forward := forward, us_world := world\<rparr>)"
| ur_order: "us_reach tidy s \<Longrightarrow> us_onesync s = Some gs \<Longrightarrow> reordered gs gs' \<Longrightarrow> us_reach tidy (s\<lparr>us_onesync := Some gs'\<rparr>)"

section \<open>No message panics\<close>

definition world_ok :: "udp_server \<Rightarrow> bool" where
  "world_ok s = (case us_onesync s of None \<Rightarrow> True | Some gs \<Rightarrow> gs_inv gs)"

lemma world_ok_cong: "us_onesync s' = us_onesync s \<Longrightarrow> world_ok s' = world_ok s"
  by (simp add: world_ok_def)

lemma exec_inv: "gs_inv gs \<Longrightarrow> gs_exec lz lm c gs = Some gs' \<Longrightarrow> gs_inv gs'"
  using exec_total by (metis option.inject)

lemma refresh_inv:
  assumes "gs_inv gs"
  shows "gs_inv (set_player_routing_bucket p b gs)" "gs_inv (set_entity_routing_bucket k b gs)"
    "gs_inv (mirror_bucket r b gs)" "gs_inv (refresh_source r p gs)" "gs_inv (add_client p gs)"
    "gs_inv (apply_nack p nack gs)" "gs_inv (apply_ack p ack gs)"
proof -
  have 1: "gs_inv (set_player_routing_bucket p b gs)" if "gs_inv gs" for p b gs using exec_inv [OF that, where c = "CmdPlayerBucket p b"] by simp
  have 2: "gs_inv (mirror_bucket r b gs)" if "gs_inv gs" for b gs
    using exec_inv [OF that, where c = "CmdLockdown b (rc_lockdown_mode b r)"] exec_inv [where c = "CmdPopulation b (rc_population_enabled b r)"]
    by (simp add: mirror_bucket_def)
  show "gs_inv (set_player_routing_bucket p b gs)" "gs_inv (mirror_bucket r b gs)" using 1 2 assms by auto
  show "gs_inv (refresh_source r p gs)" using 1 2 assms by (auto simp: refresh_source_def Let_def)
  show "gs_inv (set_entity_routing_bucket k b gs)" using exec_inv [OF assms, where c = "CmdEntityBucket k b"] by simp
  show "gs_inv (add_client p gs)" using exec_inv [OF assms, where c = "CmdAddClient p"] by simp
  show "gs_inv (apply_nack p nack gs)" using exec_inv [OF assms, where c = "CmdNack p nack"] by simp
  show "gs_inv (apply_ack p ack gs)" using exec_inv [OF assms, where c = "CmdAck p ack"] by simp
qed

lemma fold_inv: "gs_inv gs \<Longrightarrow> (\<And>x g. gs_inv g \<Longrightarrow> gs_inv (f x g)) \<Longrightarrow> gs_inv (fold f xs gs)"
  by (induction xs arbitrary: gs) auto

lemma refresh_all_inv: "gs_inv gs \<Longrightarrow> gs_inv (refresh_all r gs)"
  unfolding refresh_all_def Let_def by (intro fold_inv refresh_inv)

lemma world_refresh: "world_ok s \<Longrightarrow> world_ok (refresh_routing_source q s)" "world_ok s \<Longrightarrow> world_ok (refresh_routing_state s)"
  by (auto simp: world_ok_def refresh_routing_source_def refresh_routing_state_def refresh_inv refresh_all_inv split: option.splits)

lemma world_sends [simp]:
  "world_ok (send_peer p ch d r s) = world_ok s" "world_ok (send_to_source q ch d r s) = world_ok s"
  "world_ok (send_session_host_result cd q result s) = world_ok s" "world_ok (broadcast_host n b s) = world_ok s"
  "world_ok (disconnect_peer p s) = world_ok s" "world_ok (release_hosting_grant cd s) = world_ok s"
  "world_ok (expire_hosting_grant cd now s) = world_ok s" "world_ok (drop_source q s) = world_ok s"
  by (auto simp: world_ok_def expire_hosting_grant_def drop_source_def split: option.split)

lemma hosting_world:
  "world_ok (on_hosting_session cd now q s) = world_ok s" "world_ok (on_hosted_session cd q s) = world_ok s"
proof -
  have "us_onesync (expire_hosting_grant cd now s) = us_onesync s"
    by (auto simp: expire_hosting_grant_def split: option.split)
  then show "world_ok (on_hosting_session cd now q s) = world_ok s" "world_ok (on_hosted_session cd q s) = world_ok s"
    by (auto simp: world_ok_def on_hosting_session_def on_hosted_session_def Let_def split: option.splits)
qed

lemma post_connect_world: "world_ok s \<Longrightarrow> world_ok (send_post_connect cd q b s)"
proof -
  assume "world_ok s"
  then have "world_ok (refresh_routing_source q (s\<lparr>us_onesync := map_option (add_client q) (us_onesync s)\<rparr>))"
    by (intro world_refresh) (auto simp: world_ok_def refresh_inv split: option.splits)
  then show ?thesis by (auto simp: world_ok_def send_post_connect_def Let_def split: option.split)
qed

lemma handshake_world: "world_ok s \<Longrightarrow> world_ok (on_handshake cd sent peer payload s)"
  by (auto simp: on_handshake_def Let_def split: option.split intro!: post_connect_world)
    (simp_all add: world_ok_def)

lemma server_event_world: "world_ok s \<Longrightarrow> world_ok (on_server_event cd now fresh peer payload s)"
  by (auto simp: on_server_event_def Let_def hosting_world split: option.split)
    (simp_all add: world_ok_def record_call_def accept_state_def Let_def)

lemma simple_world:
  assumes "world_ok s"
  shows "world_ok (on_time_sync now peer payload s)" "world_ok (on_i_host peer payload s)"
    "world_ok (on_state_update cd now fresh peer payload s)" "world_ok (on_game_state_nack peer payload s)"
    "world_ok (on_game_state_ack peer payload s)"
  using assms
  by (auto simp: on_time_sync_def on_i_host_def on_state_update_def accept_state_def on_game_state_nack_def
      on_game_state_ack_def Let_def world_ok_def refresh_inv split: option.splits)

lemma world_exec:
  assumes "world_ok s" "us_onesync s = Some gs"
  shows "\<exists>gs'. gs_exec lz lm c gs = Some gs' \<and> gs_inv gs'"
  using exec_total [of gs lz lm c] assms by (auto simp: world_ok_def)

lemma route_total:
  assumes "world_ok s"
  shows "\<exists>s'. on_route lz lm peer payload s = Some s' \<and> world_ok s'"
proof -
  have "\<exists>s'. on_clone_stream lz lm q d s = Some s' \<and> world_ok s'" for q d
  proof (cases "us_onesync (refresh_routing_source q s)")
    case None
    then show ?thesis using world_refresh(1) [OF assms] by (auto simp: on_clone_stream_def Let_def)
  next
    case (Some gs)
    then show ?thesis
      using world_exec [OF world_refresh(1) [OF assms] Some, of lz lm "CmdIngest q d"]
      by (auto simp: on_clone_stream_def Let_def world_ok_def)
  qed
  then show ?thesis using assms by (auto simp: on_route_def Let_def split: option.split)
qed

lemma ids_total:
  assumes "world_ok s"
  shows "\<exists>s'. on_request_object_ids peer s = Some s' \<and> world_ok s'"
proof (cases "us_onesync s")
  case None
  then show ?thesis using assms by (auto simp: on_request_object_ids_def split: option.split)
next
  case (Some gs)
  then show ?thesis
    using world_exec [OF assms Some, of lz lm "CmdLease (the (map_of (us_peer_sources s) peer)) (gs_ids_per_request gs)"] assms
    by (auto simp: on_request_object_ids_def world_ok_def split: option.split)
qed

lemma disconnect_total:
  assumes "world_ok s"
  shows "\<exists>s'. on_disconnect cd pb peer s = Some s' \<and> world_ok s'"
proof (cases "map_of (us_peer_sources s) peer")
  case None
  then show ?thesis using assms by (simp add: on_disconnect_def)
next
  case (Some q)
  have 1: "world_ok (leave_services pb q (leave_session cd peer q s))" using assms by (simp add: world_ok_def)
  have "\<exists>s'. leave_world q (leave_services pb q (leave_session cd peer q s)) = Some s' \<and> world_ok s'"
  proof (cases "us_onesync (leave_services pb q (leave_session cd peer q s))")
    case None
    then show ?thesis using 1 by (simp add: leave_world_def)
  next
    case (Some gs)
    then show ?thesis using world_exec [OF 1 Some, of lz lm "CmdRemoveClient q"] by (auto simp: leave_world_def world_ok_def)
  qed
  then show ?thesis using Some by (auto simp: on_disconnect_def world_ok_def)
qed

lemma receive_total:
  assumes "world_ok s"
  shows "\<exists>s'. enet_handle e ev s = Some s' \<and> world_ok s'"
proof (cases ev)
  case (EnReceive peer channel d)
  have quit: "\<exists>s'. on_disconnect cd pb peer (disconnect_peer peer s) = Some s' \<and> world_ok s'" for cd pb
    by (rule disconnect_total) (simp add: assms)
  show ?thesis
    unfolding EnReceive enet_handle.simps on_receive_def Let_def
    using assms handshake_world simple_world server_event_world route_total ids_total quit
    by (simp split: option.split prod.split)
qed (use assms disconnect_total in auto)

lemma run_commands_total:
  assumes "gs_inv gs"
  shows "\<exists>gs'. run_world_commands lm cs gs = Some gs' \<and> gs_inv gs'"
  using assms
proof (induction cs arbitrary: gs)
  case (Cons c cs)
  have "\<exists>gs1. run_world_command lm c gs = Some gs1 \<and> gs_inv gs1"
  proof (cases c)
    case (WcSpawn i ty mdl pos hdg dynamic)
    then show ?thesis using exec_total [OF Cons.prems, of _ lm "CmdSpawnAt (ucast i) (net_object_type ty) mdl pos hdg dynamic"] by simp
  next
    case (WcDespawn i)
    then show ?thesis using exec_total [OF Cons.prems, of _ lm "CmdDespawn (ucast i)"] by simp
  qed
  then show ?case using Cons.IH by fastforce
qed simp

lemma tick_total:
  assumes "world_ok s"
  shows "\<exists>s'. onesync_tick lz lm cfg s = Some s' \<and> world_ok s'"
proof -
  have "\<exists>s1. apply_world_commands lm (refresh_routing_state s) = Some s1 \<and> world_ok s1"
    using world_refresh(2) [OF assms] run_commands_total [of _ lm]
    by (fastforce simp: apply_world_commands_def Let_def world_ok_def split: option.split option.splits)
  then obtain s1 where s1: "apply_world_commands lm (refresh_routing_state s) = Some s1" "world_ok s1" by blast
  show ?thesis
  proof (cases "us_onesync s1")
    case None
    then show ?thesis using s1 assms by (simp add: onesync_tick_def)
  next
    case (Some gs)
    let ?f = "map_of (us_focus s1)"
    let ?gs = "gs_tick (reassign_ownerless_server_entities (seed_unknown_player_positions ?f gs))"
    have "gs_inv ?gs" using s1(2) Some by (auto simp: world_ok_def intro!: overrides_inv)
    then obtain out gs' where "tick_clients lz ?f cfg ?gs = Some (out, gs')" "gs_inv gs'" using tick_clients_law by blast
    then show ?thesis using s1 Some assms by (auto simp: onesync_tick_def world_ok_def)
  qed
qed

lemma reach_world: "us_reach tidy s \<Longrightarrow> world_ok s"
proof (induction rule: us_reach.induct)
  case (ur_init players ingest forward r onesync build)
  then show ?case by (simp add: udp_new_def world_ok_def gs_inv_init)
next
  case (ur_event s e ev s')
  then show ?case using receive_total [of s e ev] by auto
next
  case (ur_tick s lz lm cfg s')
  then show ?case using tick_total [of s lz lm cfg] by auto
next
  case (ur_outbound s out)
  then show ?case by (cases out) (auto split: option.split)
next
  case (ur_order s gs gs')
  then show ?case using gs_inv_reordered by (auto simp: world_ok_def)
next
  case (ur_other s players r ingest voice advertise forward world)
  then show ?case by (simp add: world_ok_def)
qed simp_all

section \<open>Sessions\<close>

definition connected :: "u32 \<Rightarrow> udp_server \<Rightarrow> bool" where
  "connected source s \<longleftrightarrow> map_of (us_source_peers s) source \<noteq> None"

definition peers_match :: "udp_server \<Rightarrow> bool" where
  "peers_match s \<longleftrightarrow> (\<forall>peer source. map_of (us_peer_sources s) peer = Some source \<longleftrightarrow> map_of (us_source_peers s) source = Some peer)"

definition session_ok :: "udp_server \<Rightarrow> bool" where
  "session_ok s \<longleftrightarrow> peers_match s \<and> (\<forall>source base. us_session_host s = Some (source, base) \<longrightarrow> connected source s) \<and>
     (\<forall>holder deadline. us_hosting s = Some (holder, deadline) \<longrightarrow> connected holder s \<and> holder \<notin> set (us_waiters s)) \<and>
     (\<forall>w\<in>set (us_waiters s). connected w s) \<and> (us_waiters s \<noteq> [] \<longrightarrow> us_hosting s \<noteq> None)"

definition session_view :: "udp_server \<Rightarrow> (peer_id \<times> u32) list \<times> (u32 \<times> peer_id) list \<times> (u32 \<times> u32) option \<times> (u32 \<times> nat) option \<times> u32 list" where
  "session_view s = (us_peer_sources s, us_source_peers s, us_session_host s, us_hosting s, us_waiters s)"

lemma session_cong: "session_view s' = session_view s \<Longrightarrow> session_ok s' = session_ok s"
  by (auto simp: session_view_def session_ok_def peers_match_def connected_def)

lemma session_frame:
  "session_view (refresh_routing_source q s) = session_view s" "session_view (refresh_routing_state s) = session_view s"
  "session_view (send_post_connect cd q b s) = session_view s"
  "session_view (on_time_sync now peer payload s) = session_view s"
  "session_view (accept_state now fresh binary q u s) = session_view s"
  "session_view (on_state_update cd now fresh peer payload s) = session_view s"
  "session_view (on_game_state_nack peer payload s) = session_view s"
  "session_view (on_game_state_ack peer payload s) = session_view s"
  "session_view (leave_services pb q s) = session_view s" "session_view (leave_directory cd q bk s) = session_view s"
  "session_view (drop_source q s) = session_view s" "session_view (record_call c s) = session_view s"
  "session_view (handle_net_outbound out s) = session_view s"
proof -
  show r: "session_view (refresh_routing_source q s) = session_view s" for q s
    by (simp add: session_view_def refresh_routing_source_def)
  show "session_view (send_post_connect cd q b s) = session_view s"
    using r [of q "s\<lparr>us_onesync := map_option (add_client q) (us_onesync s)\<rparr>"]
    by (auto simp: session_view_def send_post_connect_def Let_def split: option.split)
  show a: "session_view (accept_state now fresh binary q u s) = session_view s" for binary q u
    by (simp add: session_view_def accept_state_def Let_def)
  then show "session_view (on_state_update cd now fresh peer payload s) = session_view s"
    by (simp add: on_state_update_def split: option.split)
  show "session_view (handle_net_outbound out s) = session_view s"
    by (cases out) (auto simp: session_view_def split: option.split)
qed (auto simp: session_view_def refresh_routing_state_def on_time_sync_def on_game_state_nack_def on_game_state_ack_def
    leave_services_def leave_directory_def drop_source_def record_call_def Let_def split: option.split prod.split)

lemma session_frame_some:
  "on_clone_stream lz lm q d s = Some s' \<Longrightarrow> session_view s' = session_view s"
  "on_route lz lm peer payload s = Some s' \<Longrightarrow> session_view s' = session_view s"
  "on_request_object_ids peer s = Some s' \<Longrightarrow> session_view s' = session_view s"
  "leave_world q s = Some s' \<Longrightarrow> session_view s' = session_view s"
  "onesync_tick lz lm cfg s = Some s' \<Longrightarrow> session_view s' = session_view s"
proof -
  show c: "on_clone_stream lz lm q d s = Some s' \<Longrightarrow> session_view s' = session_view s" for q d
    using session_frame(1) [of q s]
    by (auto simp: on_clone_stream_def Let_def session_view_def split: option.splits bind_splits prod.splits)
  show "on_route lz lm peer payload s = Some s' \<Longrightarrow> session_view s' = session_view s"
    by (auto simp: on_route_def Let_def dest: c split: option.splits if_splits) (simp add: session_view_def)+
  show "on_request_object_ids peer s = Some s' \<Longrightarrow> session_view s' = session_view s"
    by (auto simp: on_request_object_ids_def session_view_def split: option.splits bind_splits)
  show "leave_world q s = Some s' \<Longrightarrow> session_view s' = session_view s"
    by (auto simp: leave_world_def session_view_def split: option.splits)
  assume t: "onesync_tick lz lm cfg s = Some s'"
  have "session_view s1 = session_view s" if "apply_world_commands lm (refresh_routing_state s) = Some s1" for s1
    using that session_frame(2) [of s] by (auto simp: apply_world_commands_def Let_def session_view_def split: option.splits)
  then show "session_view s' = session_view s"
    using t by (auto simp: onesync_tick_def Let_def session_view_def split: option.splits bind_splits if_splits)
qed

lemma session_sends [simp]:
  "session_ok (send_peer p ch d r s) = session_ok s" "session_ok (send_to_source q ch d r s) = session_ok s"
  "session_ok (send_session_host_result cd q result s) = session_ok s" "session_ok (broadcast_host n b s) = session_ok s"
  "session_ok (disconnect_peer p s) = session_ok s"
  by (rule session_cong, simp add: session_view_def)+

lemma release_session: "session_ok s \<Longrightarrow> session_ok (release_hosting_grant cd s)"
  by (simp add: session_ok_def peers_match_def connected_def)

lemma expire_session: "session_ok s \<Longrightarrow> session_ok (expire_hosting_grant cd now s)"
  by (simp add: expire_hosting_grant_def release_session split: option.split)

lemma hosting_session:
  assumes "session_ok s" "connected q s"
  shows "session_ok (on_hosting_session cd now q s)"
proof -
  let ?s = "expire_hosting_grant cd now s"
  have 1: "session_ok ?s" by (rule expire_session [OF assms(1)])
  have 2: "connected q ?s"
    using assms(2) by (auto simp: connected_def expire_hosting_grant_def split: option.split)
  have 3: "session_ok (?s\<lparr>us_waiters := us_waiters ?s @ [q]\<rparr>)" if "us_hosting ?s = Some (h, d)" "h \<noteq> q" for h d
    using 1 2 that by (auto simp: session_ok_def peers_match_def connected_def)
  have 4: "session_ok (?s\<lparr>us_hosting := Some (q, d)\<rparr>)" if "us_hosting ?s = None" for d
    using 1 2 that by (auto simp: session_ok_def peers_match_def connected_def)
  show ?thesis using 1 3 4 by (auto simp: on_hosting_session_def Let_def split: option.split)
qed

lemma event_session:
  assumes "session_ok s"
  shows "session_ok (on_server_event cd now fresh peer payload s)"
proof -
  have "connected q s" if "map_of (us_peer_sources s) peer = Some q" for q
    using assms that by (auto simp: session_ok_def peers_match_def connected_def)
  then have "session_ok (on_hosting_session cd now q s)" if "map_of (us_peer_sources s) peer = Some q" for q
    using hosting_session [OF assms] that by blast
  then show ?thesis
    using assms release_session session_frame [THEN session_cong]
    by (simp add: on_server_event_def Let_def on_hosted_session_def split: option.split)
qed

lemma host_session: "session_ok s \<Longrightarrow> session_ok (on_i_host peer payload s)"
proof -
  assume s: "session_ok s"
  then have "session_ok (s\<lparr>us_session_host := Some (q, b)\<rparr>)" if "map_of (us_peer_sources s) peer = Some q" for q b
    using that by (auto simp: session_ok_def peers_match_def connected_def)
  then show ?thesis using s by (simp add: on_i_host_def split: option.split)
qed

lemma match_update:
  assumes "\<forall>p q. map_of ps p = Some q \<longleftrightarrow> map_of sp q = Some p" "map_of ps peer = None" "map_of sp source = None"
  shows "map_of (AList.update peer source ps) p = Some q \<longleftrightarrow> map_of (AList.update source peer sp) q = Some p"
  using assms by (auto simp: update_conv') (metis option.distinct(1))+

lemma match_delete:
  assumes "\<forall>p q. map_of ps p = Some q \<longleftrightarrow> map_of sp q = Some p" "map_of ps peer = Some source"
  shows "map_of (AList.delete peer ps) p = Some q \<longleftrightarrow> map_of (AList.delete source sp) q = Some p"
  using assms by (auto simp: delete_conv') (metis option.inject)+

lemma handshake_session:
  assumes "session_ok s"
    and "\<And>t q. connect_token cd payload = Some t \<Longrightarrow> source_for_token t (us_players s) = Some q \<Longrightarrow>
      map_of (us_peer_sources s) peer = None \<and> map_of (us_source_peers s) q = None"
  shows "session_ok (on_handshake cd sent peer payload s)"
proof -
  have "session_ok (s\<lparr>us_peer_sources := AList.update peer q (us_peer_sources s), us_source_peers := AList.update q peer (us_source_peers s)\<rparr>)"
    if "map_of (us_peer_sources s) peer = None" "map_of (us_source_peers s) q = None" for q
    using assms(1) match_update [of "us_peer_sources s" "us_source_peers s" peer q] that
    unfolding session_ok_def peers_match_def connected_def by (auto simp: update_conv')
  then show ?thesis
    using assms session_frame(3) [THEN session_cong]
    by (auto simp: on_handshake_def Let_def split: option.split) (simp_all add: session_ok_def peers_match_def connected_def)
qed

lemma leave_session_fields:
  "us_peer_sources (leave_session cd peer q s) = AList.delete peer (us_peer_sources s)"
  "us_source_peers (leave_session cd peer q s) = AList.delete q (us_source_peers s)"
  "us_session_host (leave_session cd peer q s) =
     (if \<exists>base. us_session_host s = Some (q, base) then None else us_session_host s)"
  "us_hosting (leave_session cd peer q s) = (if \<exists>d. us_hosting s = Some (q, d) then None else us_hosting s)"
  "us_waiters (leave_session cd peer q s) =
     (if \<exists>d. us_hosting s = Some (q, d) then [] else filter (\<lambda>w. w \<noteq> q) (us_waiters s))"
  by (auto simp: leave_session_def Let_def split: option.split)

lemma leave_session_ok:
  assumes "session_ok s" "map_of (us_peer_sources s) peer = Some q"
  shows "session_ok (leave_session cd peer q s)"
proof -
  let ?s = "leave_session cd peer q s"
  have pm: "peers_match ?s" using match_delete [OF _ assms(2)] assms(1)
    unfolding session_ok_def peers_match_def leave_session_fields by simp
  have c: "connected w ?s \<longleftrightarrow> w \<noteq> q \<and> connected w s" for w
    by (simp add: connected_def leave_session_fields delete_conv')
  show ?thesis unfolding session_ok_def c leave_session_fields
    using pm assms(1) by (auto simp: session_ok_def leave_session_fields filter_empty_conv split: if_splits)
qed

lemma disconnect_session:
  assumes "session_ok s" "on_disconnect cd pb peer s = Some s'"
  shows "session_ok s'"
proof (cases "map_of (us_peer_sources s) peer")
  case None
  then show ?thesis using assms by (simp add: on_disconnect_def)
next
  case (Some q)
  obtain w where w: "leave_world q (leave_services pb q (leave_session cd peer q s)) = Some w"
    and s': "s' = leave_directory cd q (rc_player_bucket q (us_routing s)) w"
    using assms(2) Some by (auto simp: on_disconnect_def)
  have "session_view s' = session_view (leave_session cd peer q s)"
    unfolding s' using session_frame_some(4) [OF w] session_frame(9,10) by metis
  then show ?thesis using session_cong leave_session_ok [OF assms(1) Some] by blast
qed

lemma receive_session:
  assumes "session_ok s" "tidy_handshake e ev s" "enet_handle e ev s = Some s'"
  shows "session_ok s'"
proof (cases ev)
  case (EnReceive peer channel d)
  show ?thesis
  proof (cases "read_message_type d")
    case None
    then show ?thesis using assms EnReceive by (simp add: on_receive_def)
  next
    case (Some tp)
    obtain ty payload where tp: "tp = (ty, payload)" by force
    have hs: "session_ok (on_handshake (ue_codec e) (ue_reply_sent e) peer payload s)" if "ty = MSG_CONNECT"
      by (rule handshake_session [OF assms(1)])
        (use assms(2) that EnReceive Some tp in \<open>simp_all add: tidy_handshake_def split: option.splits\<close>)
    have quit: "session_ok s'" if "on_disconnect (ue_codec e) (ue_prost e) peer (disconnect_peer peer s) = Some s'"
      by (rule disconnect_session [OF _ that]) (simp add: assms(1))
    have plain: "session_ok (on_time_sync (ue_now e) peer payload s)"
      "session_ok (on_state_update (ue_codec e) (ue_now e) (ue_fresh e) peer payload s)"
      "session_ok (on_game_state_nack peer payload s)" "session_ok (on_game_state_ack peer payload s)"
      using assms(1) session_frame(4,6,7,8) [THEN session_cong] by metis+
    have world: "on_route (ue_lz4 e) (ue_libm e) peer payload s = Some s' \<Longrightarrow> session_ok s'"
      "on_request_object_ids peer s = Some s' \<Longrightarrow> session_ok s'"
      using assms(1) session_frame_some(2,3) [THEN session_cong] by metis+
    have "on_receive e peer channel d s = Some s'" using assms(3) EnReceive by simp
    then show ?thesis
      unfolding on_receive_def Let_def Some tp option.case prod.case
      using assms(1) hs quit plain world event_session [OF assms(1)] host_session [OF assms(1)]
      by (auto split: if_split_asm)
  qed
qed (use assms disconnect_session in auto)

lemma reach_session: "us_reach True s \<Longrightarrow> session_ok s"
proof (induction rule: us_reach.induct)
  case (ur_init players ingest forward r onesync build)
  then show ?case by (simp add: udp_new_def session_ok_def peers_match_def)
next
  case (ur_event s e ev s')
  then show ?case using receive_session [of s e ev s'] by simp
next
  case (ur_tick s lz lm cfg s')
  then show ?case using session_frame_some(5) [THEN session_cong] by blast
next
  case (ur_outbound s out)
  then show ?case using session_frame(13) [THEN session_cong] by blast
next
  case (ur_drop s q)
  then show ?case using session_frame(11) [THEN session_cong] by blast
next
  case (ur_other s players r ingest voice advertise forward world)
  then show ?case by (simp add: session_ok_def peers_match_def connected_def)
next
  case (ur_order s gs gs')
  then show ?case by (simp add: session_ok_def peers_match_def connected_def)
qed (simp_all add: expire_session)

section \<open>Properties\<close>

text \<open>A server with two tokens in its directory; a handshake is the bare token.\<close>

definition demo_codec :: udp_codec where
  "demo_codec = \<lparr>uc_form = (\<lambda>bytes. Some [(''token'', map (\<lambda>b. char_of (unat b)) bytes)]),
     uc_lossy = map (\<lambda>b. char_of (unat b)), uc_args = (\<lambda>bytes. Some (JArr [])), uc_pack = (\<lambda>args. Some [0x90]),
     uc_convars = (\<lambda>pairs. Some [0x80]), uc_state = (\<lambda>bytes. None)\<rparr>"

definition demo_players :: player_directory where
  "demo_players = bind_token ''A'' 1 (bind_token ''B'' 2 pd_new)"

definition demo_routing :: routing_control where
  "demo_routing = \<lparr>rc_entities = Map.empty, rc_players = Map.empty, rc_lockdown = Map.empty, rc_population = Map.empty, rc_revision = 0\<rparr>"

lemma demo_read: "read_message_type [1, 0, 0, 0, b] = Some (MSG_CONNECT, [b])"
  by (simp add: read_message_type_def MSG_CONNECT_def)

lemma leave_view:
  assumes "map_of (us_peer_sources s) peer = Some q" "on_disconnect cd pb peer s = Some s'"
  shows "us_peer_sources s' = AList.delete peer (us_peer_sources s)" "us_source_peers s' = AList.delete q (us_source_peers s)"
proof -
  obtain w where w: "leave_world q (leave_services pb q (leave_session cd peer q s)) = Some w"
    and s': "s' = leave_directory cd q (rc_player_bucket q (us_routing s)) w"
    using assms by (auto simp: on_disconnect_def)
  have "session_view s' = session_view (leave_session cd peer q s)"
    unfolding s' using session_frame_some(4) [OF w] session_frame(9,10) by metis
  then show "us_peer_sources s' = AList.delete peer (us_peer_sources s)" "us_source_peers s' = AList.delete q (us_source_peers s)"
    by (simp_all add: session_view_def leave_session_fields)
qed

lemma handshake_view:
  assumes "connect_token cd payload = Some t" "source_for_token t (us_players s) = Some q"
  shows "us_peer_sources (on_handshake cd sent peer payload s) = AList.update peer q (us_peer_sources s)"
    "us_source_peers (on_handshake cd sent peer payload s) = AList.update q peer (us_source_peers s)"
  using assms session_frame(3) by (simp_all add: on_handshake_def Let_def session_view_def)



text \<open>C24. Session arbitration. While no handshake re-uses a connected peer or source, the two connection maps stay
  inverse to each other, the session host, the holder of the hosting grant and everyone waiting for it are connected
  players, the holder does not wait for itself, and nobody waits when the grant is free.\<close>

theorem session_arbitration_sound:
  assumes "us_reach True s"
  shows "(\<forall>peer source. map_of (us_peer_sources s) peer = Some source \<longleftrightarrow> map_of (us_source_peers s) source = Some peer) \<and>
    (\<forall>source base. us_session_host s = Some (source, base) \<longrightarrow> connected source s) \<and>
    (\<forall>holder deadline. us_hosting s = Some (holder, deadline) \<longrightarrow> connected holder s \<and> holder \<notin> set (us_waiters s)) \<and>
    (\<forall>w\<in>set (us_waiters s). connected w s) \<and> (us_waiters s \<noteq> [] \<longrightarrow> us_hosting s \<noteq> None)"
  using reach_session [OF assms] unfolding session_ok_def peers_match_def .

theorem session_arbitration_sound_witness:
  "\<forall>e. \<exists>s. enet_handle (e\<lparr>ue_codec := demo_codec\<rparr>) (EnReceive 7 0 [1, 0, 0, 0, 65])
       (udp_new demo_players None None demo_routing False 3407) = Some s \<and>
     us_reach True s \<and> map_of (us_peer_sources s) 7 = Some 1 \<and> map_of (us_source_peers s) 1 = Some 7"
proof
  fix e :: udp_env
  let ?e = "e\<lparr>ue_codec := demo_codec\<rparr>" and ?s = "udp_new demo_players None None demo_routing False 3407"
  let ?s' = "on_handshake demo_codec (ue_reply_sent e) 7 [65] ?s"
  have h: "enet_handle ?e (EnReceive 7 0 [1, 0, 0, 0, 65]) ?s = Some ?s'"
    by (simp add: on_receive_def demo_read expected_channel_def)
  have tok: "connect_token demo_codec [65] = Some ''A''" "source_for_token ''A'' (us_players ?s) = Some 1"
    by (simp_all add: connect_token_def parse_connect_def form_value_def char_of_def bit_0 demo_codec_def udp_new_def demo_players_def source_for_token_def bind_token_def update_conv')
  have "us_reach True ?s'"
    by (rule ur_event [OF ur_init _ h]) (simp add: tidy_handshake_def demo_read tok, simp add: udp_new_def)
  moreover have "map_of (us_peer_sources ?s') 7 = Some 1"
    using handshake_view(1) [OF tok, of "ue_reply_sent e" 7] by (simp add: update_conv')
  moreover from this have "map_of (us_source_peers ?s') 1 = Some 7"
    using session_arbitration_sound [OF \<open>us_reach True ?s'\<close>, THEN conjunct1] by blast
  ultimately show "\<exists>s. enet_handle ?e (EnReceive 7 0 [1, 0, 0, 0, 65]) ?s = Some s \<and> us_reach True s \<and>
      map_of (us_peer_sources s) 7 = Some 1 \<and> map_of (us_source_peers s) 1 = Some 7" using h by blast
qed

text \<open>C25. An unauthenticated peer is inert. A message of any content from a peer that has not completed a handshake,
  other than a handshake with a token the directory knows, changes nothing but the packets sent: at most a clock reply to
  that peer, or that peer is disconnected.\<close>

theorem unauthenticated_peer_inert:
  assumes "map_of (us_peer_sources s) peer = None"
    and "\<And>payload token. read_message_type d = Some (MSG_CONNECT, payload) \<Longrightarrow> connect_token (ue_codec e) payload = Some token \<Longrightarrow>
      source_for_token token (us_players s) = None"
  shows "\<exists>out closed. on_receive e peer channel d s = Some (s\<lparr>us_sent := us_sent s @ out, us_closed := us_closed s @ closed\<rparr>) \<and>
    (\<forall>(p, ch, bytes, reliable)\<in>set out. p = peer) \<and> set closed \<subseteq> {peer}"
proof -
  define quiet where "quiet s' \<longleftrightarrow> (\<exists>out closed. s' = s\<lparr>us_sent := us_sent s @ out, us_closed := us_closed s @ closed\<rparr> \<and>
    (\<forall>(p, ch, bytes, reliable)\<in>set out. p = peer) \<and> set closed \<subseteq> {peer})" for s'
  have same: "quiet s" unfolding quiet_def by (intro exI [of _ "[]"]) simp
  have sends: "quiet (send_peer peer ch bytes r s)" for ch bytes r
    unfolding quiet_def send_peer_def by (intro exI [of _ "[(peer, ch, bytes, r)]"] exI [of _ "[]"]) simp
  have closes: "quiet (disconnect_peer peer s)"
    unfolding quiet_def disconnect_peer_def by (intro exI [of _ "[]"] exI [of _ "[peer]"]) simp
  have "\<exists>s'. on_receive e peer channel d s = Some s' \<and> quiet s'"
  proof (cases "read_message_type d")
    case None
    then show ?thesis using same by (simp add: on_receive_def)
  next
    case (Some tp)
    obtain ty payload where tp: "tp = (ty, payload)" by force
    have hs: "quiet (on_handshake cd sent peer payload s)" if "ty = MSG_CONNECT" "cd = ue_codec e" for cd sent
      using assms(2) [of payload] Some tp that same closes by (auto simp: on_handshake_def split: option.split)
    show ?thesis
      unfolding on_receive_def Let_def Some tp option.case prod.case
      using assms(1) same sends closes hs
      by (simp add: on_time_sync_def on_server_event_def on_state_update_def on_route_def on_request_object_ids_def
          on_game_state_nack_def on_game_state_ack_def on_i_host_def on_disconnect_def split: option.split)
  qed
  then show ?thesis unfolding quiet_def by blast
qed

theorem unauthenticated_peer_inert_witness:
  "\<forall>e. \<exists>out closed. on_receive (e\<lparr>ue_codec := demo_codec\<rparr>) 7 0 [1, 0, 0, 0, 67] (udp_new demo_players None None demo_routing False 3407) =
     Some ((udp_new demo_players None None demo_routing False 3407)\<lparr>us_sent := out, us_closed := closed\<rparr>) \<and> set closed \<subseteq> {7}"
proof
  fix e :: udp_env
  let ?s = "udp_new demo_players None None demo_routing False 3407"
  let ?e = "e\<lparr>ue_codec := demo_codec\<rparr>"
  have none: "us_sent ?s = []" "us_closed ?s = []" by (simp_all add: udp_new_def)
  have "map_of (us_peer_sources ?s) 7 = None" by (simp add: udp_new_def)
  moreover have "source_for_token token (us_players ?s) = None"
    if "read_message_type [1, 0, 0, 0, 67] = Some (MSG_CONNECT, payload)" "connect_token (ue_codec ?e) payload = Some token" for payload token
    using that by (auto simp: connect_token_def parse_connect_def form_value_def char_of_def bit_0 udp_new_def demo_read demo_codec_def demo_players_def source_for_token_def bind_token_def pd_new_def)
  ultimately show "\<exists>out closed. on_receive ?e 7 0 [1, 0, 0, 0, 67] ?s = Some (?s\<lparr>us_sent := out, us_closed := closed\<rparr>) \<and> set closed \<subseteq> {7}"
    using unauthenticated_peer_inert [of ?s 7 "[1, 0, 0, 0, 67]" ?e 0] unfolding none append_Nil by blast
qed

text \<open>A second handshake of a connected peer with another token leaves the first source bound to the peer after the
  connection has ended.\<close>

theorem second_handshake_stays:
  assumes "connect_token cd payload = Some t" "source_for_token t (us_players s) = Some q2"
    and "map_of (us_source_peers s) q1 = Some peer" "q1 \<noteq> q2"
    and "on_disconnect cd pb peer (on_handshake cd sent peer payload s) = Some s'"
  shows "map_of (us_peer_sources s') peer = None \<and> map_of (us_source_peers s') q1 = Some peer"
proof -
  note h = handshake_view [OF assms(1,2), of sent peer]
  have "map_of (us_peer_sources (on_handshake cd sent peer payload s)) peer = Some q2" by (simp add: h update_conv')
  from leave_view [OF this assms(5)] show ?thesis using assms(3,4) by (simp add: h update_conv' delete_conv')
qed

text \<open>A reconnection that re-uses the token before the old peer is gone is cut off by the old peer's disconnection: the
  new peer is still authenticated, but no packet for the source reaches it.\<close>

theorem reconnect_loses_route:
  assumes "connect_token cd payload = Some t" "source_for_token t (us_players s) = Some q"
    and "map_of (us_peer_sources s) old = Some q" "new \<noteq> old"
    and "on_disconnect cd pb old (on_handshake cd sent new payload s) = Some s'"
  shows "map_of (us_peer_sources s') new = Some q \<and> map_of (us_source_peers s') q = None"
proof -
  note h = handshake_view [OF assms(1,2), of sent new]
  have "map_of (us_peer_sources (on_handshake cd sent new payload s)) old = Some q" using assms(3,4) by (simp add: h update_conv')
  from leave_view [OF this assms(5)] show ?thesis using assms(4) by (simp add: h update_conv' delete_conv')
qed

text \<open>Network ids for script entities are handed out downward, each once, and are gone after one pass whether or
  not the entities were deleted.\<close>

fun reserve_many :: "nat \<Rightarrow> world_control \<Rightarrow> u32 option list" where
  "reserve_many 0 w = []"
| "reserve_many (Suc n) w = (let (r, w') = reserve_network_id w in r # reserve_many n w')"

theorem reservations_run_out:
  assumes "wc_next_id w = of_nat k" "k < 2 ^ 32"
  shows "reserve_many n w = map (\<lambda>i. if i < k then Some (of_nat (k - i)) else None) [0..<n]"
  using assms
proof (induction n arbitrary: k w)
  case (Suc n)
  have pos: "0 < wc_next_id w \<longleftrightarrow> 0 < k"
    using Suc.prems by (simp add: word_less_nat_alt unsigned_of_nat take_bit_nat_eq_self)
  have split: "[0..<Suc n] = 0 # map Suc [0..<n]" by (simp add: map_Suc_upt upt_conv_Cons del: upt_Suc)
  show ?case
  proof (cases "0 < k")
    case True
    then have "wc_next_id (w\<lparr>wc_next_id := wc_next_id w - 1\<rparr>) = of_nat (k - 1)" using Suc.prems by simp
    from Suc.IH [OF this] show ?thesis using True pos Suc.prems unfolding split
      by (auto simp: reserve_network_id_def comp_def)
  next
    case False
    then show ?thesis using pos Suc.prems Suc.IH [of w 0] unfolding split
      by (simp add: reserve_network_id_def comp_def)
  qed
qed simp

end
