(* ===== verification/Spec2Isabelle.thy ===== *)
theory Spec2Isabelle
  imports Packed_Delivery Object_Ids Reliability Session Udp Sync_Factories Entity_State Leaf_Bounds
    Game_Props Game_Delivery Voice_Reach Gateway_Mesh Zone_Entities
    Mesh_Forward State_Aggregator Topo_Sort Handoff State_Bags Kvp_Store Adaptive_Tick
    Udp_Server
begin

text \<open>
  Baston is a server for GTA V multiplayer sessions, written in Rust (\<open>src/crates\<close>). A gateway process
  terminates the clients' game traffic; with OneSync on it keeps the authoritative entities itself (the game state of
  \<open>baston-zone/src/onesync\<close>, run by the gateway's UDP task), and in a mesh it forwards the clients' reports
  to zone processes, each of which owns a rectangle of the map and hands players over to its neighbours. A voice server
  speaks the Mumble protocol. Scripts run beside all this and reach it through state bags, routing buckets, world
  commands and a key/value store. This development models the code that decides what goes on the wire and what becomes
  of the shared state, and proves that the parts do what they promise and fit together.

  \<^bold>\<open>Foundations.\<close>
  \<^item> \<open>Prelude\<close>: words, bits, bytes, little-endian strings and the lemma collections.
  \<^item> \<open>Ieee\<close>: executable IEEE arithmetic of \<open>f32\<close> and \<open>f64\<close>, rounded once to nearest even.
  \<^item> \<open>Bit_Buffer\<close> (\<open>rage/buffer.rs\<close>): the bit buffer; what a write changes, what a failure leaves, and the
    locale \<open>field_codec\<close> of a writer and a reader that are inverse, interpreted for words, flags, long integers, byte
    blobs and, in \<open>Clone_Records\<close>, for whole records.
  \<^item> \<open>Byte_Cursor\<close>: the byte readers, with the locale \<open>byte_item\<close> for lists of items.

  \<^bold>\<open>Wire formats\<close> (\<open>baston-protocol/src\<close>).
  \<^item> \<open>Clone_Records\<close> (\<open>rage/clone.rs\<close>), \<open>Packed_Stream\<close> and \<open>Packed_Delivery\<close> (\<open>rage/packet.rs\<close>,
    \<open>rage/lz4dict.rs\<close>): records, framing and the fragmenting writer. The locale \<open>record_stream\<close> reads
    back a stream of records; it is interpreted for the downlink and the upload. Everything appended is delivered in order.
  \<^item> \<open>Object_Ids\<close>, \<open>Reliability\<close>, \<open>Quaternion\<close>, \<open>Session\<close>, \<open>Udp\<close>: id grants, NAK and ACK messages, angles, player
    slots and the world grid, message types, relay and clock messages.
  \<^item> \<open>Sync_Trees\<close>, \<open>Sync_Write\<close>, \<open>Sync_Parse\<close>, \<open>Leaf_Decoders\<close> (\<open>rage/sync_trees.rs\<close>,
    \<open>sync_write.rs\<close>, \<open>sync_parse.rs\<close>): the thirteen tables, the writer, the reader and its leaf decoders;
    \<open>Sync_Roundtrip\<close> and \<open>Sync_Factories\<close> show what is authored is read back, \<open>Leaf_Bounds\<close> and
    \<open>Inbound_Bounds\<close> what arbitrary bytes can make the readers return, \<open>Entity_State\<close> the merge of updates.

  \<^bold>\<open>Game state\<close> (\<open>baston-zone/src\<close>).
  \<^item> \<open>Routing_Buckets\<close> (\<open>routing_bucket.rs\<close>), with the locale \<open>sparse_table\<close> of a table with defaults.
  \<^item> \<open>Interest\<close>, \<open>Interest_Plan\<close>, \<open>Interest_Props\<close> (\<open>interest_ng.rs\<close>): the tick of one client's view in
    closed form, a greedy fill of the byte budget, and its budget, progress, recovery and consistency.
  \<^item> \<open>Game_State\<close>, \<open>Server_Entities\<close>, \<open>Outbound\<close>, \<open>Ingest\<close> (\<open>onesync/mod.rs\<close>,
    \<open>onesync/ingest.rs\<close>): every operation; \<open>Registry_Inv\<close>, \<open>Game_Inv\<close>, \<open>Game_Reach\<close>: an
    invariant of all reachable states and that no command panics; \<open>Game_Props\<close>: leases, ownership, foreign state;
    \<open>Game_Delivery\<close>: a client decodes exactly the plan of its tick.

  \<^bold>\<open>Voice\<close> (\<open>baston-voice/src\<close>). \<open>Voice_Pds\<close>, \<open>Voice_Packet\<close>, \<open>Voice_Crypto\<close>, \<open>Voice_State\<close>,
  \<open>Voice_Framing\<close>, \<open>Voice_Router\<close>, \<open>Voice_Server\<close>: varints, packets, OCB2 with its replay table, sessions and channels,
  control frames, recipients and all handlers; \<open>Voice_Reach\<close>: the invariant of the server over any sequence of its
  locked sections, and that speech reaches its listeners.

  \<^bold>\<open>Zones and mesh.\<close>
  \<^item> \<open>Quadtree\<close>, \<open>Zone_Registry\<close>, \<open>Gateway_Mesh\<close> (\<open>baston-gateway/src/quadtree.rs\<close>,
    \<open>zone_registry.rs\<close>, \<open>connection_router.rs\<close>, \<open>mesh.rs\<close>): the spatial index refines a map (locale \<open>zone_index\<close>,
    interpreted on the quadtree and used by the registry), and recovery after the failure of a zone.
  \<^item> \<open>State_Messages\<close>, \<open>Mesh_Forward\<close>, \<open>Zone_Entities\<close>, \<open>State_Ingest\<close>, \<open>State_Aggregator\<close>: the
    path of a report from the client through the forwarder to the zone, its dirty queue, and back as snapshots.
  \<^item> \<open>Handoff\<close> (\<open>boundary_detector.rs\<close>, \<open>handoff_manager.rs\<close>, \<open>mesh.rs\<close>, \<open>boundary_loop.rs\<close>): the crossing
    of a boundary with lost requests and lost replies. \<open>Topo_Sort\<close>: the start order of resources.
    \<open>Adaptive_Tick\<close>: the tick rate.

  \<^bold>\<open>Gateway server and scripts.\<close>
  \<^item> \<open>Player_Directory\<close> (\<open>players.rs\<close>): sources and tokens.
  \<^item> \<open>State_Bags\<close>, \<open>Kvp_Store\<close> (\<open>baston-scripting/src\<close>): state bags with their queues, the routing control of
    scripts, and the key/value store over a disk whose operations may fail.
  \<^item> \<open>Udp_Server\<close> (\<open>udp/server.rs\<close>, \<open>udp/inbound.rs\<close>, \<open>world_control.rs\<close>, \<open>events.rs\<close>,
    \<open>udp/handshake.rs\<close>) composes the directory, the game state, the ingestion, the forwarder, the voice server and
    the routing control: no message panics, session arbitration, and what an unauthenticated peer can do.
  \<^item> This theory holds the properties that span the wire format as a whole.

  \<^bold>\<open>Conventions.\<close> A Rust integer is a word of its width. A panic (index out of range, overflow of a checked
  conversion, \<open>expect\<close>) is \<open>None\<close>, and the totality theorems show it does not occur. Hash maps are association
  lists, and where the iteration order matters it is part of the state or reachable states may be reordered; ordered
  maps are lists in order. Locks delimit atomic steps; where the code releases a lock in between, the step is split.
  Clocks, random values and fresh ids are arguments. Remote calls have an outcome: answered, request lost or reply lost.

  \<^bold>\<open>Parameters\<close> stand for code of other crates: LZ4 (\<open>lz4_api\<close>, contract \<open>lz4_spec\<close>), the AES
  block functions (\<open>aes_api\<close>, \<open>aes_spec\<close>), \<open>sin\<close>, \<open>cos\<close> and \<open>atan2\<close> (\<open>libm\<close>), protobuf
  (\<open>prost_api\<close>), serde_json on the key/value file (\<open>kvp_json\<close>, \<open>kvp_json_spec\<close>), form, msgpack and bincode
  codings (\<open>udp_codec\<close>), and the area-of-interest oracle of the voice router.

  \<^bold>\<open>Bounds and fuel.\<close> Loops are structural or have a termination proof with a measure (the lease and
  allocation loops, the stream readers by the bits left, the sort of the resources by the nodes left). The quadtree
  insertion carries a level bound of \<open>MAX_DEPTH + 1\<close>, which its well-formedness makes sufficient.

  \<^bold>\<open>Not modelled.\<close> The V8 scripting host and its natives; the parsing of configuration files; HTTP, gRPC, NATS, ENet
  and the tokio tasks around the modelled handlers; TLS and generated protobuf code; bincode and the text of the plate of
  a vehicle; licensing and encrypted resources; packing of resource files; the debug overlay, metrics and logs; and
  the driver of the load test. These either only move bytes between the modelled parts and libraries that are not in the
  repository, or are formats of such libraries.
\<close>

text \<open>Message dispatch is unambiguous: the type words of all the packets that share a channel
  are pairwise different, so no packet can be taken for one of another kind.\<close>

theorem wire_tags_distinct:
  "distinct [MSG_CONNECT, MSG_TIME_SYNC_REQ, MSG_TIME_SYNC, MSG_ROUTE, MSG_NET_EVENT, MSG_SERVER_EVENT,
     MSG_I_QUIT, MSG_I_HOST, NET_CLONES, NET_ACKS, MSG_PACKED_CLONES, MSG_PACKED_ACKS,
     MSG_OBJECT_IDS, MSG_REQUEST_OBJECT_IDS, GAME_STATE_NACK, GAME_STATE_ACK]"
  by code_simp

text \<open>C1. A server-created vehicle reaches the client. The create record of \<open>author_vehicle\<close>, put
  in a clone record and sent through the packed writer in 13-bit id mode, is received whole: all
  fragments decode, the only record besides timestamps is the create with the object id, owner,
  token and frame data that were sent, and parsing its payload gives the model, population type,
  position and heading that were authored, at wire resolution. LZ4 satisfies its block contract.\<close>

theorem created_vehicle_reaches_client:
  assumes "lz4_spec lz" "uint oid < 8192" "uint fi < 2 ^ 56"
  shows "\<exists>blob ds. write_sync_tree Automobile True False (author_vehicle lm mdl pos hdg token) = Some blob \<and>
    map (decode_downlink lz) (pw_finish lz (write_clone lz ts
      \<lparr>oc_sync_type = rec_CREATE, oc_object_id = oid, oc_owner_net_id = owner,
       oc_entity_type = Some Automobile, oc_creation_token = token, oc_uniqifier = uq,
       oc_dependent_frame_index = dep, oc_timestamp = t32, oc_first_frame_update = False,
       oc_data = blob\<rparr> (pw_new MSG_PACKED_CLONES fi False))) = map Some ds \<and>
    filter (\<lambda>r. \<not> dl_is_timestamp r) (concat (map dp_records ds)) =
      [DlClone True oid owner (Some Automobile) token uq dep t32 blob] \<and>
    (\<forall>build. parse_sync_tree lm Automobile True blob False build =
      sync_node_default\<lparr>model := Some mdl, population_type := Some 7,
        sector := Some (sector_wire (fst (sector_of pos))),
        sector_position := Some (offset_wire 12 (snd (sector_of pos))),
        heading := Some (heading_wire lm hdg)\<rparr>)"
proof -
  obtain blob where w: "write_sync_tree Automobile True False (author_vehicle lm mdl pos hdg token) = Some blob"
    and small: "length blob < 4000"
    and parse: "\<forall>build. parse_sync_tree lm Automobile True blob False build =
      sync_node_default\<lparr>model := Some mdl, population_type := Some 7,
        sector := Some (sector_wire (fst (sector_of pos))),
        sector_position := Some (offset_wire 12 (snd (sector_of pos))),
        heading := Some (heading_wire lm hdg)\<rparr>"
    using vehicle_record [of False lm mdl pos hdg token] by blast
  let ?c = "\<lparr>oc_sync_type = rec_CREATE, oc_object_id = oid, oc_owner_net_id = owner,
       oc_entity_type = Some Automobile, oc_creation_token = token, oc_uniqifier = uq,
       oc_dependent_frame_index = dep, oc_timestamp = t32, oc_first_frame_update = False, oc_data = blob\<rparr>"
  have "\<forall>cmd\<in>set [CmdClone ts ?c]. valid_out False (cmd_record cmd)"
    using small assms(2) by (simp add: id_fits_def)
  from session_delivers [OF assms(1) this assms(3), of MSG_PACKED_CLONES] obtain ds where
    "map (decode_downlink lz) (pw_session lz MSG_PACKED_CLONES fi False [CmdClone ts ?c]) = map Some ds"
    "filter (\<lambda>r. \<not> dl_is_timestamp r) (concat (map dp_records ds)) = [view_out (OutClone ?c)]" by auto
  with w parse show ?thesis by (auto simp: pw_session_def)
qed

theorem created_vehicle_reaches_client_witness:
  "\<forall>lm pos hdg. \<exists>blob ds. map (decode_downlink stored_lz4) (pw_finish stored_lz4 (write_clone stored_lz4 5
      \<lparr>oc_sync_type = rec_CREATE, oc_object_id = 42, oc_owner_net_id = 1,
       oc_entity_type = Some Automobile, oc_creation_token = 7, oc_uniqifier = 9,
       oc_dependent_frame_index = 3, oc_timestamp = 5, oc_first_frame_update = False,
       oc_data = blob\<rparr> (pw_new MSG_PACKED_CLONES 11 False))) = map Some ds \<and>
    filter (\<lambda>r. \<not> dl_is_timestamp r) (concat (map dp_records ds)) =
      [DlClone True 42 1 (Some Automobile) 7 9 3 5 blob] \<and>
    parse_sync_tree lm Automobile True blob False 3258 =
      sync_node_default\<lparr>model := Some 0xB779A091, population_type := Some 7,
        sector := Some (sector_wire (fst (sector_of pos))),
        sector_position := Some (offset_wire 12 (snd (sector_of pos))),
        heading := Some (heading_wire lm hdg)\<rparr>"
  (is "\<forall>lm pos hdg. ?P lm pos hdg")
proof (intro allI)
  fix lm pos hdg
  have "uint (42::u16) < 8192" "uint (11::u64) < 2 ^ 56" by simp_all
  from created_vehicle_reaches_client [OF stored_lz4_spec this, where lm = lm and mdl = "0xB779A091" and pos = pos
      and hdg = hdg and token = 7 and ts = 5 and owner = 1 and uq = 9 and dep = 3 and ?t32.0 = 5]
  show "?P lm pos hdg" by blast
qed

end
